(* ===== verification/Prelude.thy ===== *)
theory Prelude
  imports Complex_Main "HOL-Library.Char_ord" "HOL-Library.List_Lexorder"
    "HOL-Library.Multiset" "HOL-Library.Sublist"
begin

text \<open>
  What every component shares: the errors a request handler throws, the fragment of the
  JavaScript standard library the sources call (string methods, \<open>Array.prototype.sort\<close>,
  \<open>Math.round\<close>), and tables of rows as the database client shows them to the services.

  Strings are HOL strings. Their characters are the code units 0 to 255; case mapping is
  ASCII's, white space is the one of \<open>String.prototype.trim\<close> within that range. Numbers the
  sources keep whole are \<open>int\<close>; fractions are exact rationals (\<open>rat\<close>). Dates are milliseconds
  since the epoch, as \<open>Date.prototype.getTime\<close> gives them.
\<close>

named_theorems row_simps \<open>equations of the row-table operations\<close>

section \<open>Errors\<close>

text \<open>The exceptions a service throws, with the \<open>title\<close> of their problem document.\<close>

datatype http_error =
    BadRequest string
  | Unauthorized string
  | Forbidden string
  | NotFound string
  | Conflict string
  | ServerError string

type_synonym 'a result = "http_error + 'a"

type_synonym time = int

text \<open>Going on after a check that may throw.\<close>

fun and_then :: "'e + 'a \<Rightarrow> ('a \<Rightarrow> 'e + 'b) \<Rightarrow> 'e + 'b" where
  "and_then (Inl e) f = Inl e"
| "and_then (Inr x) f = f x"

lemma and_then_Inr: "and_then r f = Inr y \<longleftrightarrow> (\<exists>x. r = Inr x \<and> f x = Inr y)"
  by (cases r) auto

section \<open>Strings\<close>

abbreviation code_unit :: "char \<Rightarrow> nat" where
  "code_unit c \<equiv> of_char c"

definition is_space :: "char \<Rightarrow> bool" where
  "is_space c \<longleftrightarrow> 9 \<le> code_unit c \<and> code_unit c \<le> 13 \<or> code_unit c = 32 \<or> code_unit c = 160"

definition is_digit :: "char \<Rightarrow> bool" where
  "is_digit c \<longleftrightarrow> 48 \<le> code_unit c \<and> code_unit c \<le> 57"

definition is_upper :: "char \<Rightarrow> bool" where
  "is_upper c \<longleftrightarrow> 65 \<le> code_unit c \<and> code_unit c \<le> 90"

definition is_lower :: "char \<Rightarrow> bool" where
  "is_lower c \<longleftrightarrow> 97 \<le> code_unit c \<and> code_unit c \<le> 122"

definition lower_char :: "char \<Rightarrow> char" where
  "lower_char c = (if is_upper c then char_of (code_unit c + 32) else c)"

definition upper_char :: "char \<Rightarrow> char" where
  "upper_char c = (if is_lower c then char_of (code_unit c - 32) else c)"

definition to_lower :: "string \<Rightarrow> string" where
  "to_lower s = map lower_char s"

definition to_upper :: "string \<Rightarrow> string" where
  "to_upper s = map upper_char s"

definition js_trim :: "string \<Rightarrow> string" where
  "js_trim s = rev (dropWhile is_space (rev (dropWhile is_space s)))"

text \<open>\<open>s.slice(-n)\<close> for a positive \<open>n\<close>: the last \<open>n\<close> code units, or all of them.\<close>

definition slice_last :: "nat \<Rightarrow> 'a list \<Rightarrow> 'a list" where
  "slice_last n s = drop (length s - n) s"

text \<open>\<open>s.split(c)\<close> on a one-character separator.\<close>

fun split_on :: "'a \<Rightarrow> 'a list \<Rightarrow> 'a list list" where
  "split_on d [] = [[]]"
| "split_on d (c # cs) =
     (if c = d then [] # split_on d cs
      else case split_on d cs of [] \<Rightarrow> [[c]] | w # ws \<Rightarrow> (c # w) # ws)"

text \<open>\<open>s.split(/\s+/)\<close> followed by dropping the empty pieces.\<close>

fun words_of :: "string \<Rightarrow> string list" where
  "words_of [] = []"
| "words_of (c # cs) =
     (if is_space c then words_of cs
      else case cs of
          [] \<Rightarrow> [[c]]
        | d # _ \<Rightarrow> (if is_space d then [c] # words_of cs
                  else case words_of cs of [] \<Rightarrow> [[c]] | w # ws \<Rightarrow> (c # w) # ws))"

fun join_with :: "'a list \<Rightarrow> 'a list list \<Rightarrow> 'a list" where
  "join_with sep [] = []"
| "join_with sep [w] = w"
| "join_with sep (w # ws) = w @ sep @ join_with sep ws"

lemma split_on_not_Nil [simp]: "split_on d s \<noteq> []"
  by (cases s) (auto split: list.splits)

lemma split_on_plain [simp]: "d \<notin> set w \<Longrightarrow> split_on d w = [w]"
  by (induction w) auto

lemma split_on_append:
  "d \<notin> set w \<Longrightarrow> split_on d (w @ d # s) = w # split_on d s"
  by (induction w) auto

lemma filter_trim_noop: "filter P (js_trim s) = filter P s" if "\<And>c. P c \<Longrightarrow> \<not> is_space c"
proof -
  have drop: "filter P (dropWhile is_space xs) = filter P xs" for xs
    using that by (induction xs) auto
  show ?thesis
    by (simp add: js_trim_def drop rev_filter [symmetric])
qed

lemma is_digit_not_space: "is_digit c \<Longrightarrow> \<not> is_space c"
  by (auto simp: is_digit_def is_space_def)

lemma is_upper_not_lower [simp]: "is_upper c \<Longrightarrow> \<not> is_lower c"
  by (auto simp: is_upper_def is_lower_def)

lemma is_lower_lower_char: "is_upper c \<Longrightarrow> is_lower (lower_char c)"
  by (auto simp: lower_char_def is_upper_def is_lower_def)

lemma lower_char_idem [simp]: "lower_char (lower_char c) = lower_char c"
proof (cases "is_upper c")
  case True
  then have "\<not> is_upper (lower_char c)"
    using is_lower_lower_char is_upper_not_lower by blast
  then show ?thesis by (simp add: lower_char_def)
next
  case False
  then show ?thesis by (simp add: lower_char_def)
qed

lemma to_lower_idem [simp]: "to_lower (to_lower s) = to_lower s"
  by (simp add: to_lower_def)

lemma length_slice_last [simp]: "length (slice_last n s) = min n (length s)"
  by (simp add: slice_last_def)

lemma slice_last_all [simp]: "length s \<le> n \<Longrightarrow> slice_last n s = s"
  by (simp add: slice_last_def)

lemma slice_last_idem [simp]: "slice_last n (slice_last n s) = slice_last n s"
  by (cases "n \<le> length s") (simp_all add: slice_last_def)

lemma set_slice_last: "set (slice_last n s) \<subseteq> set s"
  by (simp add: slice_last_def set_drop_subset)

section \<open>Lists\<close>

text \<open>\<open>xs.indexOf(x)\<close>: the first position, or \<open>-1\<close>.\<close>

fun index_of :: "'a list \<Rightarrow> 'a \<Rightarrow> int" where
  "index_of [] x = -1"
| "index_of (y # ys) x =
     (if y = x then 0 else let i = index_of ys x in if i < 0 then -1 else i + 1)"

text \<open>\<open>[...new Set(xs)]\<close>: the distinct elements in order of first occurrence.\<close>

definition js_set :: "'a list \<Rightarrow> 'a list" where
  "js_set xs = rev (remdups (rev xs))"

lemma set_js_set [simp]: "set (js_set xs) = set xs"
  by (simp add: js_set_def)

lemma distinct_js_set [simp]: "distinct (js_set xs)"
  by (simp add: js_set_def)

lemma index_of_nonneg: "0 \<le> index_of xs x \<longleftrightarrow> x \<in> set xs"
  by (induction xs) (auto simp: Let_def)

text \<open>A JavaScript string used as a condition is true when present and not empty.\<close>

definition truthy :: "string option \<Rightarrow> bool" where
  "truthy s \<longleftrightarrow> s \<noteq> None \<and> s \<noteq> Some []"

section \<open>Numbers\<close>

text \<open>\<open>Math.round\<close>: to the nearest integer, halves upwards.\<close>

definition js_round :: "rat \<Rightarrow> int" where
  "js_round x = \<lfloor>x + 1 / 2\<rfloor>"

definition clamp :: "'a::linorder \<Rightarrow> 'a \<Rightarrow> 'a \<Rightarrow> 'a" where
  "clamp v lo hi = min hi (max lo v)"

lemma clamp_bounds [simp]: "lo \<le> hi \<Longrightarrow> lo \<le> clamp v lo hi" "clamp v lo hi \<le> hi"
  by (auto simp: clamp_def)

lemma clamp_id: "lo \<le> v \<Longrightarrow> v \<le> hi \<Longrightarrow> clamp v lo hi = v"
  by (simp add: clamp_def)

lemma js_round_mono: "x \<le> y \<Longrightarrow> js_round x \<le> js_round y"
  by (simp add: js_round_def floor_mono)

lemma js_round_int [simp]: "js_round (of_int k) = k"
  by (simp add: js_round_def floor_eq_iff)

lemma js_round_lower: "of_int k \<le> x \<Longrightarrow> k \<le> js_round x"
  using js_round_mono [of "of_int k" x] by simp

lemma js_round_upper: "x \<le> of_int k \<Longrightarrow> js_round x \<le> k"
  using js_round_mono [of x "of_int k"] by simp

text \<open>\<open>String(n)\<close> of a natural number, and \<open>padStart(k, '0')\<close>.\<close>

definition digit_char :: "nat \<Rightarrow> char" where
  "digit_char d = char_of (48 + d)"

fun show_nat :: "nat \<Rightarrow> string" where
  "show_nat n = (if n < 10 then [digit_char n] else show_nat (n div 10) @ [digit_char (n mod 10)])"

declare show_nat.simps [simp del]

definition pad_start :: "nat \<Rightarrow> string \<Rightarrow> string" where
  "pad_start k s = replicate (k - length s) (CHR ''0'') @ s"

definition read_nat :: "string \<Rightarrow> nat" where
  "read_nat s = foldl (\<lambda>n c. 10 * n + (code_unit c - 48)) 0 s"

lemma read_digit: "d < 10 \<Longrightarrow> code_unit (digit_char d) - 48 = d"
  by (simp add: digit_char_def)

lemma read_show_nat [simp]: "read_nat (show_nat n) = n"
proof (induction n rule: show_nat.induct)
  case (1 n)
  show ?case
  proof (cases "n < 10")
    case True
    then show ?thesis by (subst show_nat.simps) (simp add: read_nat_def read_digit)
  next
    case False
    then show ?thesis using 1 by (subst show_nat.simps) (simp add: read_nat_def read_digit)
  qed
qed

lemma read_pad_start [simp]: "read_nat (pad_start k s) = read_nat s"
proof -
  have "foldl (\<lambda>n c. 10 * n + (code_unit c - 48)) 0 (replicate m (CHR ''0'')) = (0::nat)" for m
    by (induction m) simp_all
  then show ?thesis by (simp add: read_nat_def pad_start_def)
qed

lemma is_digit_digit_char: "d < 10 \<Longrightarrow> is_digit (digit_char d)"
  by (simp add: is_digit_def digit_char_def)

lemma show_nat_digits: "list_all is_digit (show_nat n)"
proof (induction n rule: show_nat.induct)
  case (1 n)
  then show ?case by (subst show_nat.simps) (simp add: is_digit_digit_char)
qed

lemma show_nat_not_Nil [simp]: "show_nat n \<noteq> []"
  by (subst show_nat.simps) simp

section \<open>Sorting with a comparator\<close>

text \<open>
  \<open>Array.prototype.sort\<close> is stable, and for a consistent comparator its result is determined
  by that. The model is a stable insertion sort over the same comparator; its sign is read as
  the source reads it (negative, zero, positive).
\<close>

fun insert_cmp :: "('a \<Rightarrow> 'a \<Rightarrow> int) \<Rightarrow> 'a \<Rightarrow> 'a list \<Rightarrow> 'a list" where
  "insert_cmp c x [] = [x]"
| "insert_cmp c x (y # ys) = (if c x y \<le> 0 then x # y # ys else y # insert_cmp c x ys)"

fun js_sort :: "('a \<Rightarrow> 'a \<Rightarrow> int) \<Rightarrow> 'a list \<Rightarrow> 'a list" where
  "js_sort c [] = []"
| "js_sort c (x # xs) = insert_cmp c x (js_sort c xs)"

text \<open>The comparator idiom \<open>a - b || c\<close>: the second key decides when the first is zero.\<close>

definition cmp_or :: "int \<Rightarrow> int \<Rightarrow> int" where
  "cmp_or d e = (if d \<noteq> 0 then d else e)"

lemma mset_insert_cmp [simp]: "mset (insert_cmp c x ys) = add_mset x (mset ys)"
  by (induction ys) auto

lemma mset_js_sort [simp]: "mset (js_sort c xs) = mset xs"
  by (induction xs) auto

lemma set_js_sort [simp]: "set (js_sort c xs) = set xs"
  by (metis mset_js_sort set_mset_mset)

lemma length_js_sort [simp]: "length (js_sort c xs) = length xs"
  by (metis mset_js_sort size_mset)

lemma js_sort_Nil_iff [simp]: "js_sort c xs = [] \<longleftrightarrow> xs = []"
  by (metis length_0_conv length_js_sort)

lemma distinct_js_sort [simp]: "distinct (js_sort c xs) = distinct xs"
  by (metis mset_eq_imp_distinct_iff mset_js_sort)

locale comparator =
  fixes cmp :: "'a \<Rightarrow> 'a \<Rightarrow> int"
  assumes flip: "cmp x y \<le> 0 \<longleftrightarrow> 0 \<le> cmp y x"
    and trans: "cmp x y \<le> 0 \<Longrightarrow> cmp y z \<le> 0 \<Longrightarrow> cmp x z \<le> 0"
begin

lemma total: "cmp x y \<le> 0 \<or> cmp y x \<le> 0"
  using flip [of x y] by linarith

lemma refl: "cmp x x \<le> 0"
  using total [of x x] by blast

lemma sorted_insert_cmp:
  "sorted_wrt (\<lambda>x y. cmp x y \<le> 0) ys \<Longrightarrow> sorted_wrt (\<lambda>x y. cmp x y \<le> 0) (insert_cmp cmp x ys)"
proof (induction ys)
  case Nil
  then show ?case by simp
next
  case (Cons y ys)
  have set: "set (insert_cmp cmp x ys) = insert x (set ys)"
    by (metis mset_insert_cmp set_mset_add_mset_insert set_mset_mset)
  show ?case
    using Cons total [of x y] by (auto simp: set intro: trans)
qed

lemma sorted_js_sort: "sorted_wrt (\<lambda>x y. cmp x y \<le> 0) (js_sort cmp xs)"
  by (induction xs) (auto intro: sorted_insert_cmp)

lemma hd_js_sort_least: "x \<in> set xs \<Longrightarrow> cmp (hd (js_sort cmp xs)) x \<le> 0"
proof -
  assume x: "x \<in> set xs"
  obtain y ys where eq: "js_sort cmp xs = y # ys"
    using x by (cases "js_sort cmp xs") auto
  have "x \<in> set (y # ys)" using x by (metis eq set_js_sort)
  moreover have "sorted_wrt (\<lambda>x y. cmp x y \<le> 0) (y # ys)"
    using sorted_js_sort [of xs] by (simp add: eq)
  ultimately show ?thesis by (auto simp: eq refl)
qed

lemma insert_cmp_stable:
  "filter (\<lambda>y. cmp y a \<le> 0 \<and> cmp a y \<le> 0) (insert_cmp cmp x ys) =
   filter (\<lambda>y. cmp y a \<le> 0 \<and> cmp a y \<le> 0) (x # ys)"
proof (induction ys)
  case Nil
  then show ?case by simp
next
  case (Cons y ys)
  have "\<not> (cmp x a \<le> 0 \<and> cmp a x \<le> 0 \<and> cmp y a \<le> 0 \<and> cmp a y \<le> 0)" if "\<not> cmp x y \<le> 0"
    using that trans [of x a y] by blast
  then show ?case using Cons by auto
qed

lemma js_sort_stable:
  "filter (\<lambda>y. cmp y a \<le> 0 \<and> cmp a y \<le> 0) (js_sort cmp xs) =
   filter (\<lambda>y. cmp y a \<le> 0 \<and> cmp a y \<le> 0) xs"
  by (induction xs) (simp_all add: insert_cmp_stable)

end

lemma comparator_on: "comparator c \<Longrightarrow> comparator (\<lambda>x y. c (f x) (f y))"
  by (unfold_locales) (auto simp: comparator_def)

lemma comparator_cmp_or:
  assumes c: "comparator c" and d: "comparator d"
  shows "comparator (\<lambda>x y. cmp_or (c x y) (d x y))"
proof
  have eq: "c x y = 0 \<longleftrightarrow> c y x = 0" "c x y < 0 \<longleftrightarrow> 0 < c y x" for x y
    using comparator.flip [OF c, of x y] comparator.flip [OF c, of y x] by linarith+
  have or_le: "cmp_or i j \<le> 0 \<longleftrightarrow> i < 0 \<or> i = 0 \<and> j \<le> 0" for i j
    by (auto simp: cmp_or_def)
  have or_ge: "0 \<le> cmp_or i j \<longleftrightarrow> 0 < i \<or> i = 0 \<and> 0 \<le> j" for i j
    by (auto simp: cmp_or_def)
  show "cmp_or (c x y) (d x y) \<le> 0 \<longleftrightarrow> 0 \<le> cmp_or (c y x) (d y x)" for x y
    using eq [of x y] comparator.flip [OF d, of x y] by (auto simp: or_le or_ge)
  fix x y z
  have le: "c x z \<le> 0" if "c x y \<le> 0" "c y z \<le> 0"
    using that comparator.trans [OF c] by blast
  have eq0: "c x y = 0 \<and> c y z = 0" if "c x y \<le> 0" "c y z \<le> 0" "c x z = 0"
  proof -
    have "c z x \<le> 0" using that(3) eq(1) [of x z] by simp
    then have "c z y \<le> 0" "c y x \<le> 0"
      using that comparator.trans [OF c] by blast+
    then show ?thesis using that eq(2) [of x y] eq(2) [of y z] by linarith
  qed
  show "cmp_or (c x y) (d x y) \<le> 0 \<Longrightarrow> cmp_or (c y z) (d y z) \<le> 0 \<Longrightarrow> cmp_or (c x z) (d x z) \<le> 0"
    using le eq0 comparator.trans [OF d, of x y z] unfolding or_le by linarith
qed

definition int_asc :: "int \<Rightarrow> int \<Rightarrow> int" where
  "int_asc a b = a - b"

definition int_desc :: "int \<Rightarrow> int \<Rightarrow> int" where
  "int_desc a b = b - a"

interpretation asc: comparator int_asc
  by unfold_locales (auto simp: int_asc_def)

interpretation desc: comparator int_desc
  by unfold_locales (auto simp: int_desc_def)

text \<open>
  \<open>localeCompare\<close> is the host's collation, a parameter of the definitions that use it. The
  order by code units is one collation; witnesses instantiate the parameter with it.
\<close>

type_synonym collation = "string \<Rightarrow> string \<Rightarrow> int"

definition code_unit_order :: collation where
  "code_unit_order a b = (if a < b then -1 else if a = b then 0 else 1)"

interpretation code_units: comparator code_unit_order
  by unfold_locales (auto simp: code_unit_order_def split: if_splits)

section \<open>Tables\<close>

text \<open>
  A table is the list of its rows. \<open>find_by\<close> is \<open>findUnique\<close> on a key column, \<open>update_by\<close> is
  \<open>update\<close>, \<open>update_where\<close> is \<open>updateMany\<close>, and \<open>count_where\<close> is \<open>count\<close>.
\<close>

definition find_by :: "('r \<Rightarrow> 'k) \<Rightarrow> 'k \<Rightarrow> 'r list \<Rightarrow> 'r option" where
  "find_by key k rows = find (\<lambda>r. key r = k) rows"

definition update_where :: "('r \<Rightarrow> bool) \<Rightarrow> ('r \<Rightarrow> 'r) \<Rightarrow> 'r list \<Rightarrow> 'r list" where
  "update_where p f rows = map (\<lambda>r. if p r then f r else r) rows"

definition update_by :: "('r \<Rightarrow> 'k) \<Rightarrow> 'k \<Rightarrow> ('r \<Rightarrow> 'r) \<Rightarrow> 'r list \<Rightarrow> 'r list" where
  "update_by key k f rows = update_where (\<lambda>r. key r = k) f rows"

definition insert_row :: "'r \<Rightarrow> 'r list \<Rightarrow> 'r list" where
  "insert_row r rows = rows @ [r]"

definition delete_by :: "('r \<Rightarrow> 'k) \<Rightarrow> 'k \<Rightarrow> 'r list \<Rightarrow> 'r list" where
  "delete_by key k rows = filter (\<lambda>r. key r \<noteq> k) rows"

definition count_where :: "('r \<Rightarrow> bool) \<Rightarrow> 'r list \<Rightarrow> nat" where
  "count_where p rows = length (filter p rows)"

definition keys_unique :: "('r \<Rightarrow> 'k) \<Rightarrow> 'r list \<Rightarrow> bool" where
  "keys_unique key rows \<longleftrightarrow> distinct (map key rows)"

lemma find_map: "find p (map f xs) = map_option f (find (p \<circ> f) xs)"
  by (induction xs) auto

lemma find_map_same: "(\<And>x. p (f x) = p x) \<Longrightarrow> find p (map f xs) = map_option f (find p xs)"
  by (simp add: find_map o_def)

lemma find_by_Nil [simp, row_simps]: "find_by key k [] = None"
  by (simp add: find_by_def)

lemma find_by_Cons [simp, row_simps]:
  "find_by key k (r # rows) = (if key r = k then Some r else find_by key k rows)"
  by (simp add: find_by_def)

lemma find_by_SomeD: "find_by key k rows = Some r \<Longrightarrow> r \<in> set rows \<and> key r = k"
  by (auto simp: find_by_def find_Some_iff)

lemma find_by_None_iff: "find_by key k rows = None \<longleftrightarrow> k \<notin> key ` set rows"
  by (auto simp: find_by_def find_None_iff)

lemma find_by_unique:
  "keys_unique key rows \<Longrightarrow> r \<in> set rows \<Longrightarrow> find_by key (key r) rows = Some r"
  by (induction rows) (auto simp: keys_unique_def)

lemma find_by_iff:
  "keys_unique key rows \<Longrightarrow> find_by key k rows = Some r \<longleftrightarrow> r \<in> set rows \<and> key r = k"
  by (auto simp: find_by_unique dest: find_by_SomeD)

lemma find_by_same:
  assumes "keys_unique key rows" and "find_by key k rows = Some r" and "q \<in> set rows" and "key q = k"
  shows "q = r"
  using find_by_unique [OF assms(1,3)] assms(2,4) by simp

lemma find_by_append [row_simps]:
  "find_by key k (xs @ ys) = (case find_by key k xs of None \<Rightarrow> find_by key k ys | Some r \<Rightarrow> Some r)"
  by (induction xs) auto

lemma find_by_insert_row [row_simps]:
  "find_by key k (insert_row r rows) =
     (case find_by key k rows of None \<Rightarrow> (if key r = k then Some r else None) | Some q \<Rightarrow> Some q)"
  by (auto simp: insert_row_def find_by_append split: option.splits)

lemma update_where_Nil [simp]: "update_where p f [] = []"
  by (simp add: update_where_def)

lemma update_where_Cons [simp]:
  "update_where p f (r # rows) = (if p r then f r else r) # update_where p f rows"
  by (simp add: update_where_def)

lemma find_by_update_where [row_simps]:
  assumes "\<And>r. key (f r) = key r"
  shows "find_by key k (update_where p f rows) =
    map_option (\<lambda>r. if p r then f r else r) (find_by key k rows)"
  by (induction rows) (auto simp: assms)

lemma find_by_update_by [row_simps]:
  assumes "\<And>r. key (f r) = key r"
  shows "find_by key k (update_by key j f rows) =
    (if k = j then map_option f (find_by key k rows) else find_by key k rows)"
  unfolding update_by_def by (induction rows) (auto simp: assms)

lemma set_update_where: "set (update_where p f rows) = (\<lambda>r. if p r then f r else r) ` set rows"
  by (simp add: update_where_def)

lemma map_key_update_where [simp, row_simps]:
  "(\<And>r. key (f r) = key r) \<Longrightarrow> map key (update_where p f rows) = map key rows"
  by (induction rows) auto

lemma keys_unique_update_where [simp, row_simps]:
  "(\<And>r. key (f r) = key r) \<Longrightarrow> keys_unique key (update_where p f rows) = keys_unique key rows"
  by (simp add: keys_unique_def)

lemma keys_unique_update_by [simp, row_simps]:
  "(\<And>r. key (f r) = key r) \<Longrightarrow> keys_unique key (update_by j k f rows) = keys_unique key rows"
  by (simp add: update_by_def)

lemma keys_unique_insert_row [simp, row_simps]:
  "keys_unique key (insert_row r rows) \<longleftrightarrow> keys_unique key rows \<and> key r \<notin> key ` set rows"
  by (auto simp: keys_unique_def insert_row_def)

lemma keys_unique_delete_by [simp, row_simps]:
  "keys_unique key rows \<Longrightarrow> keys_unique key (delete_by j k rows)"
  by (simp add: keys_unique_def delete_by_def distinct_map_filter)

lemma length_update_where [simp]: "length (update_where p f rows) = length rows"
  by (simp add: update_where_def)

lemma find_by_delete_by [row_simps]:
  "find_by key k (delete_by key j rows) = (if k = j then None else find_by key k rows)"
  by (induction rows) (auto simp: delete_by_def)

lemma count_where_0_iff: "count_where p rows = 0 \<longleftrightarrow> (\<forall>r \<in> set rows. \<not> p r)"
  by (auto simp: count_where_def filter_empty_conv)

lemma count_where_update_other:
  assumes "\<And>r. p r \<Longrightarrow> \<not> q r \<and> \<not> q (f r)"
  shows "count_where q (update_where p f rows) = count_where q rows"
proof (induction rows)
  case (Cons r rows)
  then show ?case using assms [of r] by (auto simp: count_where_def)
qed simp

lemma count_where_update_gone:
  assumes "\<And>r. \<not> q (if p r then f r else r)"
  shows "count_where q (update_where p f rows) = 0"
  unfolding count_where_0_iff set_update_where using assms by blast

lemma update_by_absent: "k \<notin> key ` set rows \<Longrightarrow> update_by key k f rows = rows"
  by (induction rows) (auto simp: update_by_def)

lemma count_where_update_one:
  assumes "keys_unique key rows" and "find_by key k rows = Some r"
  shows "count_where q (update_by key k f rows) + (if q r then 1 else 0) =
    count_where q rows + (if q (f r) then 1 else 0)"
  using assms
proof (induction rows)
  case (Cons x rows)
  show ?case
  proof (cases "key x = k")
    case True
    have "k \<notin> key ` set rows" using Cons.prems(1) True by (auto simp: keys_unique_def)
    then have "update_where (\<lambda>r. key r = k) f rows = rows"
      using update_by_absent [of k key rows f] by (simp add: update_by_def)
    moreover have "x = r" using Cons.prems(2) True by simp
    ultimately show ?thesis using True by (simp add: update_by_def count_where_def)
  next
    case False
    then show ?thesis
      using Cons by (auto simp: update_by_def count_where_def keys_unique_def split: if_splits)
  qed
qed simp

lemma count_where_append [simp]: "count_where q (xs @ ys) = count_where q xs + count_where q ys"
  by (simp add: count_where_def)

lemma count_where_map: "count_where q (map f xs) = count_where (q \<circ> f) xs"
  by (simp add: count_where_def filter_map)

lemma count_where_inj:
  assumes "distinct xs" and "inj_on f (set xs)" and "c \<in> set xs"
  shows "count_where (\<lambda>x. f x = f c) xs = 1"
proof -
  have "filter (\<lambda>x. f x = f c) xs = filter (\<lambda>x. x = c) xs"
    using assms(2,3) by (intro filter_cong) (auto dest: inj_onD)
  also have "length \<dots> = 1"
    using assms(1,3) by (induction xs) (auto simp: filter_empty_conv)
  finally show ?thesis by (simp add: count_where_def)
qed

section \<open>The audit trail\<close>

text \<open>
  What \<open>AuditService.record\<close> appends. The \<open>changes\<close> document and the request context it also
  stores are not modelled; \<open>record\<close> never throws, so the model appends unconditionally.
\<close>

record audit_entry =
  au_action :: string
  au_resource :: string
  au_resourceId :: "string option"
  au_reason :: "string option"

definition audit_entry :: "string \<Rightarrow> string \<Rightarrow> string \<Rightarrow> audit_entry" where
  "audit_entry action resource rid =
    \<lparr>au_action = action, au_resource = resource, au_resourceId = Some rid, au_reason = None\<rparr>"

section \<open>A repository of rows\<close>

text \<open>
  What a service relies on when it reads a row, updates it by its id and inserts new ones:
  an update is seen by the next read of the same id and by no other, and an insert of a fresh
  id is seen and disturbs nothing.
\<close>

locale repository =
  fixes lookup :: "'k \<Rightarrow> 't \<Rightarrow> 'r option"
    and modify :: "'k \<Rightarrow> ('r \<Rightarrow> 'r) \<Rightarrow> 't \<Rightarrow> 't"
    and add :: "'r \<Rightarrow> 't \<Rightarrow> 't"
    and key :: "'r \<Rightarrow> 'k"
  assumes lookup_key: "lookup k t = Some r \<Longrightarrow> key r = k"
    and lookup_modify: "(\<And>r. key (f r) = key r) \<Longrightarrow>
      lookup k (modify j f t) = (if k = j then map_option f (lookup k t) else lookup k t)"
    and lookup_add: "lookup (key r) t = None \<Longrightarrow>
      lookup k (add r t) = (if k = key r then Some r else lookup k t)"
begin

lemma lookup_modify_same:
  "(\<And>r. key (f r) = key r) \<Longrightarrow> lookup k t = Some r \<Longrightarrow> lookup k (modify k f t) = Some (f r)"
  by (simp add: lookup_modify)

lemma lookup_modify_other:
  "(\<And>r. key (f r) = key r) \<Longrightarrow> k \<noteq> j \<Longrightarrow> lookup k (modify j f t) = lookup k t"
  by (simp add: lookup_modify)

lemma lookup_add_modify:
  assumes "\<And>r. key (f r) = key r" and "lookup (key r) t = None" and "j \<noteq> key r"
  shows "lookup (key r) (modify j f (add r t)) = Some r"
    and "lookup j (modify j f (add r t)) = map_option f (lookup j t)"
  using assms by (simp_all add: lookup_modify lookup_add)

end

lemma repository_by: "repository (find_by key) (update_by key) insert_row key"
proof
  show "find_by key k t = Some r \<Longrightarrow> key r = k" for k t r
    by (auto dest: find_by_SomeD)
qed (auto simp: find_by_update_by find_by_insert_row split: option.splits)

end
