(* ===== verification/Rbac.thy ===== *)
theory Rbac
  imports Prelude
begin

text \<open>
  Roles, permissions and data scopes: \<open>packages/contracts/src/enums.ts\<close>,
  \<open>packages/contracts/src/rbac.ts\<close>, the machine credentials of \<open>service-account.ts\<close> and the
  guard in \<open>apps/api/src/common/guards/permissions.guard.ts\<close>. Permissions are strings, as in
  the source; roles and scopes are datatypes with the source's members. Scopes are ordered
  from the narrowest (\<open>SELF\<close>) to the broadest (\<open>ALL\<close>), so that the rule "the narrower of the
  two" is a minimum.
\<close>

section \<open>Enumerations\<close>

datatype role =
    SUPER_ADMIN | MANAGEMENT | OPERATIONS | MARKETING | SALES_MANAGER | SALES_EXECUTIVE
  | PARTNER | CUSTOMER

datatype user_type = INTERNAL_USER | PARTNER_USER | CUSTOMER_USER

datatype data_scope = ALL_SCOPE | ZONE | REGION | BRANCH | TEAM | SELF

type_synonym permission = string

definition DATA_SCOPES :: "data_scope list" where
  "DATA_SCOPES = [ALL_SCOPE, ZONE, REGION, BRANCH, TEAM, SELF]"

section \<open>The permission catalogue\<close>

definition PERMISSIONS :: "permission list" where
  "PERMISSIONS =
    [''lead:read'', ''lead:create'', ''lead:update'', ''lead:delete'', ''lead:assign'',
     ''lead:convert'', ''lead:export'', ''lead:import'',
     ''customer:read'', ''customer:create'', ''customer:update'', ''customer:export'',
     ''activity:read'', ''activity:create'', ''task:read'', ''task:create'', ''task:update'',
     ''visit:read'', ''visit:create'', ''visit:update'',
     ''partner:read'', ''partner:create'', ''partner:update'', ''partner:payout:read'',
     ''campaign:read'', ''campaign:create'', ''campaign:update'',
     ''event:view'',
     ''analytics:sales:read'', ''analytics:marketing:read'', ''analytics:partner:read'',
     ''analytics:management:read'',
     ''user:read'', ''user:create'', ''user:update'', ''role:manage'', ''audit:read'',
     ''system:configure'']"

fun ROLE_PERMISSIONS :: "role \<Rightarrow> permission list" where
  "ROLE_PERMISSIONS SUPER_ADMIN = PERMISSIONS"
| "ROLE_PERMISSIONS MANAGEMENT =
    [''lead:read'', ''lead:export'', ''customer:read'', ''customer:export'', ''activity:read'',
     ''task:read'', ''visit:read'', ''partner:read'', ''partner:payout:read'',
     ''campaign:read'', ''event:view'', ''analytics:sales:read'', ''analytics:marketing:read'',
     ''analytics:partner:read'', ''analytics:management:read'', ''audit:read'']"
| "ROLE_PERMISSIONS OPERATIONS =
    [''lead:read'', ''lead:update'', ''lead:import'', ''customer:read'', ''customer:create'',
     ''customer:update'', ''activity:read'', ''activity:create'', ''task:read'',
     ''task:create'', ''task:update'', ''partner:read'', ''partner:update'',
     ''analytics:sales:read'', ''user:read'']"
| "ROLE_PERMISSIONS MARKETING =
    [''lead:read'', ''lead:create'', ''lead:import'', ''lead:export'', ''customer:read'',
     ''campaign:read'', ''campaign:create'', ''campaign:update'', ''event:view'',
     ''analytics:marketing:read'', ''analytics:sales:read'']"
| "ROLE_PERMISSIONS SALES_MANAGER =
    [''lead:read'', ''lead:create'', ''lead:update'', ''lead:assign'', ''lead:convert'',
     ''lead:export'', ''lead:import'', ''customer:read'', ''customer:update'',
     ''activity:read'', ''activity:create'', ''task:read'', ''task:create'', ''task:update'',
     ''visit:read'', ''visit:create'', ''visit:update'', ''partner:read'',
     ''analytics:sales:read'', ''user:read'', ''user:create'']"
| "ROLE_PERMISSIONS SALES_EXECUTIVE =
    [''lead:read'', ''lead:create'', ''lead:update'', ''lead:convert'', ''customer:read'',
     ''customer:update'', ''activity:read'', ''activity:create'', ''task:read'',
     ''task:create'', ''task:update'', ''visit:read'', ''visit:create'', ''visit:update'',
     ''analytics:sales:read'']"
| "ROLE_PERMISSIONS PARTNER =
    [''lead:read'', ''lead:create'', ''customer:read'', ''activity:read'', ''activity:create'',
     ''partner:payout:read'', ''analytics:partner:read'']"
| "ROLE_PERMISSIONS CUSTOMER = [''customer:read'', ''activity:read'', ''task:read'']"

fun ROLE_DEFAULT_SCOPE :: "role \<Rightarrow> data_scope" where
  "ROLE_DEFAULT_SCOPE SUPER_ADMIN = ALL_SCOPE"
| "ROLE_DEFAULT_SCOPE MANAGEMENT = ALL_SCOPE"
| "ROLE_DEFAULT_SCOPE OPERATIONS = ALL_SCOPE"
| "ROLE_DEFAULT_SCOPE MARKETING = ALL_SCOPE"
| "ROLE_DEFAULT_SCOPE SALES_MANAGER = TEAM"
| "ROLE_DEFAULT_SCOPE SALES_EXECUTIVE = SELF"
| "ROLE_DEFAULT_SCOPE PARTNER = SELF"
| "ROLE_DEFAULT_SCOPE CUSTOMER = SELF"

section \<open>Scopes\<close>

definition isScopeBroaderThan :: "data_scope \<Rightarrow> data_scope \<Rightarrow> bool" where
  "isScopeBroaderThan a b \<longleftrightarrow> index_of DATA_SCOPES a < index_of DATA_SCOPES b"

text \<open>The reduction keeps the widest scope seen, starting from \<open>SELF\<close>.\<close>

definition effectiveScope :: "role list \<Rightarrow> data_scope option \<Rightarrow> data_scope" where
  "effectiveScope roles requested =
    (let broadestFromRoles =
           foldl (\<lambda>widest r. let roleScope = ROLE_DEFAULT_SCOPE r
                            in if isScopeBroaderThan roleScope widest then roleScope else widest)
             SELF roles
     in case requested of
          None \<Rightarrow> broadestFromRoles
        | Some q \<Rightarrow> (if isScopeBroaderThan q broadestFromRoles then broadestFromRoles else q))"

definition permissionsForRoles :: "role list \<Rightarrow> permission list" where
  "permissionsForRoles roles = js_set (concat (map ROLE_PERMISSIONS roles))"

definition hasPermission :: "permission list \<Rightarrow> permission \<Rightarrow> bool" where
  "hasPermission granted required \<longleftrightarrow> required \<in> set granted"

definition hasAllPermissions :: "permission list \<Rightarrow> permission list \<Rightarrow> bool" where
  "hasAllPermissions granted required \<longleftrightarrow> list_all (\<lambda>p. p \<in> set granted) required"

instantiation data_scope :: linorder
begin

definition less_eq_data_scope :: "data_scope \<Rightarrow> data_scope \<Rightarrow> bool" where
  "a \<le> b \<longleftrightarrow> index_of DATA_SCOPES b \<le> index_of DATA_SCOPES a"

definition less_data_scope :: "data_scope \<Rightarrow> data_scope \<Rightarrow> bool" where
  "a < b \<longleftrightarrow> index_of DATA_SCOPES b < index_of DATA_SCOPES a"

instance
proof
  fix a b :: data_scope
  show "a \<le> b \<Longrightarrow> b \<le> a \<Longrightarrow> a = b"
    by (cases a; cases b) (simp_all add: less_eq_data_scope_def DATA_SCOPES_def)
qed (auto simp: less_eq_data_scope_def less_data_scope_def)

end

lemma isScopeBroaderThan_less [simp]: "isScopeBroaderThan a b \<longleftrightarrow> b < a"
  by (simp add: isScopeBroaderThan_def less_data_scope_def)

lemma SELF_least [simp]: "SELF \<le> s"
  by (cases s) (simp_all add: less_eq_data_scope_def DATA_SCOPES_def)

lemma ALL_greatest [simp]: "s \<le> ALL_SCOPE"
  by (cases s) (simp_all add: less_eq_data_scope_def DATA_SCOPES_def)

text \<open>The widest default of some roles, and \<open>SELF\<close> for none.\<close>

definition broadest :: "role list \<Rightarrow> data_scope" where
  "broadest roles = Max (insert SELF (ROLE_DEFAULT_SCOPE ` set roles))"

lemma foldl_widest:
  "foldl (\<lambda>w r. let s = ROLE_DEFAULT_SCOPE r in if isScopeBroaderThan s w then s else w) w roles =
   Max (insert w (ROLE_DEFAULT_SCOPE ` set roles))"
proof (induction roles arbitrary: w)
  case Nil
  then show ?case by simp
next
  case (Cons r roles)
  let ?s = "ROLE_DEFAULT_SCOPE r"
  have step: "(if isScopeBroaderThan ?s w then ?s else w) = max w ?s"
    by (auto simp: max_def)
  have "Max (insert (max w ?s) (ROLE_DEFAULT_SCOPE ` set roles)) =
    Max (insert w (insert ?s (ROLE_DEFAULT_SCOPE ` set roles)))"
    by (cases "roles = []") (simp_all add: max.assoc)
  then show ?case
    using Cons.IH [of "max w ?s"] step by (simp add: Let_def)
qed

lemma effectiveScope_min:
  "effectiveScope roles req =
    (case req of None \<Rightarrow> broadest roles | Some q \<Rightarrow> min q (broadest roles))"
  unfolding effectiveScope_def foldl_widest broadest_def [symmetric]
  by (auto simp: min_def Let_def split: option.splits)

section \<open>Machine credentials\<close>

definition SERVICE_ACCOUNT_FORBIDDEN :: "permission list" where
  "SERVICE_ACCOUNT_FORBIDDEN = [''audit:read'']"

definition isPermissionAllowedForService :: "permission \<Rightarrow> bool" where
  "isPermissionAllowedForService p =
    (if p \<notin> set PERMISSIONS then False
     else if p \<in> set SERVICE_ACCOUNT_FORBIDDEN then False
     else suffix '':read'' p)"

record service_account =
  sa_id :: string
  sa_name :: string
  sa_keyPrefix :: string
  sa_keyHash :: string
  sa_permissions :: "permission list"
  sa_dataScope :: data_scope
  sa_isActive :: bool
  sa_expiresAt :: time
  sa_lastUsedAt :: "time option"
  sa_revokedAt :: "time option"

datatype unusable = KeyRevoked | KeyDisabled | KeyExpired

definition serviceAccountUsable :: "service_account \<Rightarrow> time \<Rightarrow> unusable option" where
  "serviceAccountUsable a now =
    (if sa_revokedAt a \<noteq> None then Some KeyRevoked
     else if \<not> sa_isActive a then Some KeyDisabled
     else if sa_expiresAt a \<le> now then Some KeyExpired
     else None)"

text \<open>
  The presented key is \<open>sihl_svc_<prefix>_<secret>\<close>, cut at the first separator after the
  banner. \<open>hash_ok\<close> is the password hasher's check.
\<close>

definition SERVICE_KEY_BANNER :: string where
  "SERVICE_KEY_BANNER = ''sihl_svc_''"

definition is_hex :: "char \<Rightarrow> bool" where
  "is_hex c \<longleftrightarrow> is_digit c \<or> 97 \<le> code_unit c \<and> code_unit c \<le> 102"

definition split_service_key :: "string \<Rightarrow> (string \<times> string) option" where
  "split_service_key presented =
    (if \<not> prefix SERVICE_KEY_BANNER presented then None
     else let rest = drop (length SERVICE_KEY_BANNER) presented;
              cut = index_of rest (CHR ''_'')
          in if cut \<le> 0 then None
             else let pre = take (nat cut) rest; secret = drop (nat cut + 1) rest
                  in if secret = [] \<or> \<not> list_all is_hex pre then None else Some (pre, secret))"

text \<open>
  The caller a machine's key stands for, and the liveness mark: \<open>lastUsedAt\<close> is written at most
  once a minute.
\<close>

record principal =
  pr_id :: string
  pr_email :: string
  pr_userType :: user_type
  pr_roles :: "role list"
  pr_permissions :: "permission list"
  pr_dataScope :: data_scope
  pr_orgUnitId :: "string option"
  pr_orgUnitPath :: "string option"
  pr_teamUserIds :: "string list"
  pr_partnerId :: "string option"
  pr_sessionId :: string
  pr_mustChangePassword :: bool
  pr_isService :: bool

definition service_principal :: "service_account \<Rightarrow> principal" where
  "service_principal a =
    \<lparr>pr_id = sa_id a, pr_email = sa_name a @ ''@service.sihl.internal'', pr_userType = INTERNAL_USER,
     pr_roles = [], pr_permissions = sa_permissions a, pr_dataScope = sa_dataScope a,
     pr_orgUnitId = None, pr_orgUnitPath = None, pr_teamUserIds = [], pr_partnerId = None,
     pr_sessionId = sa_id a, pr_mustChangePassword = False, pr_isService = True\<rparr>"

definition touch_service_account ::
  "string \<Rightarrow> time option \<Rightarrow> time \<Rightarrow> service_account list \<Rightarrow> service_account list" where
  "touch_service_account i lastUsedAt now accounts =
    (case lastUsedAt of
       Some t \<Rightarrow> (if now - t < 60000 then accounts
                   else update_by sa_id i (\<lambda>a. a\<lparr>sa_lastUsedAt := Some now\<rparr>) accounts)
     | None \<Rightarrow> update_by sa_id i (\<lambda>a. a\<lparr>sa_lastUsedAt := Some now\<rparr>) accounts)"

definition verify_service_key ::
  "(string \<Rightarrow> string \<Rightarrow> bool) \<Rightarrow> service_account list \<Rightarrow> time \<Rightarrow> string \<Rightarrow>
    principal option \<times> service_account list" where
  "verify_service_key hash_ok accounts now presented =
    (case split_service_key presented of
       None \<Rightarrow> (None, accounts)
     | Some (pre, secret) \<Rightarrow>
         (case find_by sa_keyPrefix pre accounts of
            None \<Rightarrow> (None, accounts)
          | Some a \<Rightarrow>
              (if serviceAccountUsable a now \<noteq> None then (None, accounts)
               else if \<not> hash_ok secret (sa_keyHash a) then (None, accounts)
               else (Some (service_principal a),
                     touch_service_account (sa_id a) (sa_lastUsedAt a) now accounts))))"

text \<open>The one key the minting operation returns for a prefix and a secret.\<close>

definition service_key :: "string \<Rightarrow> string \<Rightarrow> string" where
  "service_key pre secret = SERVICE_KEY_BANNER @ pre @ ''_'' @ secret"

definition mint_service_account ::
  "(string \<Rightarrow> string) \<Rightarrow> string \<Rightarrow> string \<Rightarrow> string \<Rightarrow> string \<Rightarrow> permission list \<Rightarrow> data_scope \<Rightarrow> time \<Rightarrow>
    service_account list \<Rightarrow> (string + string) \<times> service_account list" where
  "mint_service_account hash newId pre secret name perms scope expires accounts =
    (if \<exists>p \<in> set perms. \<not> isPermissionAllowedForService p
     then (Inl ''Not permitted for a service account'', accounts)
     else (Inr (service_key pre secret),
           insert_row \<lparr>sa_id = newId, sa_name = name, sa_keyPrefix = pre, sa_keyHash = hash secret,
             sa_permissions = perms, sa_dataScope = scope, sa_isActive = True,
             sa_expiresAt = expires, sa_lastUsedAt = None, sa_revokedAt = None\<rparr> accounts))"

lemma is_hex_not_underscore: "is_hex c \<Longrightarrow> c \<noteq> CHR ''_''"
  by (auto simp: is_hex_def is_digit_def)

lemma index_of_first: "x \<notin> set pre \<Longrightarrow> index_of (pre @ x # post) x = int (length pre)"
  by (induction pre) (auto simp: Let_def)

lemma split_service_key_of:
  assumes "pre \<noteq> []" and "list_all is_hex pre" and "secret \<noteq> []"
  shows "split_service_key (service_key pre secret) = Some (pre, secret)"
proof -
  have "CHR ''_'' \<notin> set pre"
    using assms(2) is_hex_not_underscore by (auto simp: list_all_iff)
  then have cut: "index_of (pre @ CHR ''_'' # secret) (CHR ''_'') = int (length pre)"
    by (rule index_of_first)
  show ?thesis
    using assms by (simp add: split_service_key_def service_key_def cut Let_def)
qed

section \<open>The permission guard\<close>

text \<open>
  What the guard answers: let the request through, refuse it silently, or refuse it after
  recording the first missing permission in the audit trail.
\<close>

datatype guard_answer = Pass | Refuse | Deny "permission option" "permission list"

definition permissions_guard ::
  "bool \<Rightarrow> permission list option \<Rightarrow> principal option \<Rightarrow> guard_answer" where
  "permissions_guard isPublic required user =
    (if isPublic then Pass
     else case required of
            None \<Rightarrow> Pass
          | Some [] \<Rightarrow> Pass
          | Some (p # ps) \<Rightarrow>
              (case user of
                 None \<Rightarrow> Refuse
               | Some u \<Rightarrow>
                   (if hasAllPermissions (pr_permissions u) (p # ps) then Pass
                    else let missing = filter (\<lambda>q. q \<notin> set (pr_permissions u)) (p # ps)
                         in Deny (case missing of [] \<Rightarrow> None | m # _ \<Rightarrow> Some m) missing)))"


interpretation machines: repository "find_by sa_id" "update_by sa_id" insert_row sa_id
  by (rule repository_by)

section \<open>What the rules guarantee\<close>

text \<open>
  The data scope a person works with is the narrower of the broadest scope their roles give
  and the one their record asks for: a record can narrow the scope and never widens it.
\<close>

theorem effective_scope_is_minimum:
  "effectiveScope roles requested =
    (let widest = Max (insert SELF (ROLE_DEFAULT_SCOPE ` set roles))
     in case requested of None \<Rightarrow> widest | Some q \<Rightarrow> min q widest)"
  by (simp only: effectiveScope_min Let_def broadest_def)

lemma verify_after_mint:
  assumes "pre \<noteq> []" and "list_all is_hex pre" and "secret \<noteq> []" and "find_by sa_keyPrefix pre accounts = None"
    and "sa_keyPrefix a = pre" and "serviceAccountUsable a now = None" and "hash_ok secret (sa_keyHash a)"
  shows "fst (verify_service_key hash_ok (insert_row a accounts) now (service_key pre secret)) =
    Some (service_principal a)"
  using assms by (simp add: verify_service_key_def split_service_key_of find_by_insert_row)

text \<open>
  A key the minting operation hands out is parsed back and accepted until it expires, even
  when its secret contains the separator; the caller it stands for holds read permissions of the
  catalogue only, never the audit trail, has no place in the hierarchy and is marked a machine.
  A secret the stored hash does not match is refused.
\<close>

theorem minted_key_is_read_only:
  assumes "pre \<noteq> []" and "list_all is_hex pre" and "secret \<noteq> []"
    and "find_by sa_keyPrefix pre accounts = None" and "now < expires"
    and "hash_ok secret (hash secret)" and "\<not> hash_ok wrong (hash secret)"
    and minted: "mint_service_account hash newId pre secret name perms scope expires accounts = (Inr key, accounts')"
  shows "(\<exists>p. fst (verify_service_key hash_ok accounts' now key) = Some p \<and> pr_permissions p = perms \<and>
      pr_dataScope p = scope \<and> pr_isService p \<and> pr_orgUnitPath p = None \<and> pr_teamUserIds p = [] \<and>
      (\<forall>q \<in> set (pr_permissions p). q \<in> set PERMISSIONS \<and> suffix '':read'' q \<and> q \<noteq> ''audit:read'')) \<and>
      fst (verify_service_key hash_ok accounts' now (service_key pre wrong)) = None"
proof -
  have ok: "\<forall>q \<in> set perms. isPermissionAllowedForService q" and key: "key = service_key pre secret"
    and acc: "accounts' = insert_row \<lparr>sa_id = newId, sa_name = name, sa_keyPrefix = pre,
      sa_keyHash = hash secret, sa_permissions = perms, sa_dataScope = scope, sa_isActive = True,
      sa_expiresAt = expires, sa_lastUsedAt = None, sa_revokedAt = None\<rparr> accounts"
    using minted by (auto simp: mint_service_account_def split: if_splits)
  have "fst (verify_service_key hash_ok accounts' now key) = Some (service_principal
      \<lparr>sa_id = newId, sa_name = name, sa_keyPrefix = pre, sa_keyHash = hash secret,
       sa_permissions = perms, sa_dataScope = scope, sa_isActive = True,
       sa_expiresAt = expires, sa_lastUsedAt = None, sa_revokedAt = None\<rparr>)"
    unfolding key acc
    by (rule verify_after_mint [OF assms(1-4)]) (use assms(5,6) in \<open>simp_all add: serviceAccountUsable_def\<close>)
  then have "\<exists>p. fst (verify_service_key hash_ok accounts' now key) = Some p \<and> pr_permissions p = perms \<and>
      pr_dataScope p = scope \<and> pr_isService p \<and> pr_orgUnitPath p = None \<and> pr_teamUserIds p = [] \<and>
      (\<forall>q \<in> set (pr_permissions p). q \<in> set PERMISSIONS \<and> suffix '':read'' q \<and> q \<noteq> ''audit:read'')"
    using ok by (auto simp: service_principal_def isPermissionAllowedForService_def
        SERVICE_ACCOUNT_FORBIDDEN_def split: if_splits)
  moreover have "fst (verify_service_key hash_ok accounts' now (service_key pre wrong)) = None"
  proof (cases "wrong = []")
    case True
    have "CHR ''_'' \<notin> set pre" using assms(2) is_hex_not_underscore by (auto simp: list_all_iff)
    then have "index_of (pre @ ''_'') (CHR ''_'') = int (length pre)"
      using index_of_first [of "CHR ''_''" pre "[]"] by simp
    then show ?thesis
      by (simp add: True verify_service_key_def split_service_key_def service_key_def Let_def)
  next
    case False
    then show ?thesis
      using assms(1-4,7)
      by (simp add: verify_service_key_def split_service_key_of find_by_insert_row acc)
  qed
  ultimately show ?thesis by blast
qed

lemma minted_key_is_read_only_witness:
  "\<exists>p. fst (verify_service_key (=)
      (snd (mint_service_account (\<lambda>s. s) ''k1'' ''0af3'' ''a_b'' ''ceo'' [''analytics:sales:read''] ALL_SCOPE 100 []))
      50 ''sihl_svc_0af3_a_b'') = Some p \<and> pr_permissions p = [''analytics:sales:read'']"
proof -
  have allowed: "isPermissionAllowedForService ''analytics:sales:read''"
    by (simp add: isPermissionAllowedForService_def PERMISSIONS_def SERVICE_ACCOUNT_FORBIDDEN_def
        suffix_def)
  have minted: "mint_service_account (\<lambda>s. s) ''k1'' ''0af3'' ''a_b'' ''ceo'' [''analytics:sales:read''] ALL_SCOPE 100 [] =
      (Inr ''sihl_svc_0af3_a_b'',
       snd (mint_service_account (\<lambda>s. s) ''k1'' ''0af3'' ''a_b'' ''ceo'' [''analytics:sales:read''] ALL_SCOPE 100 []))"
    using allowed by (simp add: mint_service_account_def service_key_def SERVICE_KEY_BANNER_def)
  show ?thesis
    using minted_key_is_read_only [OF _ _ _ _ _ _ _ minted, of 50 "(=)" "''x''"]
    by (auto simp: is_hex_def is_digit_def)
qed

text \<open>
  The permission guard lets a request through exactly when the route is public, asks for
  nothing, or the caller holds every permission it asks for; a caller who lacks one is refused
  with exactly the missing permissions and a record that names the first of them.
\<close>

theorem permissions_guard_complete:
  "permissions_guard isPublic required user =
    (if isPublic \<or> required = None \<or> required = Some [] then Pass
     else case user of
            None \<Rightarrow> Refuse
          | Some u \<Rightarrow>
              (if set (the required) \<subseteq> set (pr_permissions u) then Pass
               else Deny (find (\<lambda>q. q \<notin> set (pr_permissions u)) (the required))
                      (filter (\<lambda>q. q \<notin> set (pr_permissions u)) (the required))))"
proof -
  have find: "(case filter P xs of [] \<Rightarrow> None | m # _ \<Rightarrow> Some m) = find P xs" for P and xs :: "permission list"
    by (induction xs) auto
  show ?thesis
    by (auto simp: permissions_guard_def hasAllPermissions_def list_all_iff find Let_def
        split: option.split list.split)
qed

end
