(* ===== verification/OrgTree.thy ===== *)
theory OrgTree
  imports Prelude
begin

text \<open>
  The organisation tree: \<open>packages/contracts/src/org-unit.ts\<close> and
  \<open>apps/api/src/modules/org-units/org-units.service.ts\<close>. A unit carries the materialised path
  \<open>/companyId/zoneId/.../ownId/\<close>; every data-scope decision is a prefix test on it. The
  theory shows that the paths and the parent links agree in every state the service's
  operations reach, so that the prefix test means "in the subtree of".
\<close>

section \<open>Placement\<close>

datatype org_unit_type = COMPANY | ZONE_UNIT | REGION_UNIT | BRANCH_UNIT | TEAM_UNIT

fun ALLOWED_PARENT_TYPES :: "org_unit_type \<Rightarrow> org_unit_type list" where
  "ALLOWED_PARENT_TYPES COMPANY = []"
| "ALLOWED_PARENT_TYPES ZONE_UNIT = [COMPANY]"
| "ALLOWED_PARENT_TYPES REGION_UNIT = [COMPANY, ZONE_UNIT]"
| "ALLOWED_PARENT_TYPES BRANCH_UNIT = [COMPANY, ZONE_UNIT, REGION_UNIT]"
| "ALLOWED_PARENT_TYPES TEAM_UNIT = [BRANCH_UNIT]"

definition canParent :: "org_unit_type \<Rightarrow> org_unit_type \<Rightarrow> bool" where
  "canParent child parent \<longleftrightarrow> parent \<in> set (ALLOWED_PARENT_TYPES child)"

text \<open>The rank \<open>toTreeOrder\<close> sorts siblings by.\<close>

fun typeRank :: "org_unit_type \<Rightarrow> int" where
  "typeRank COMPANY = 0"
| "typeRank ZONE_UNIT = 1"
| "typeRank REGION_UNIT = 2"
| "typeRank BRANCH_UNIT = 3"
| "typeRank TEAM_UNIT = 4"

lemma canParent_rank: "canParent child parent \<Longrightarrow> typeRank parent < typeRank child"
  by (cases child; cases parent) (simp_all add: canParent_def)

section \<open>Paths\<close>

definition pathIds :: "string \<Rightarrow> string list" where
  "pathIds path = filter (\<lambda>w. w \<noteq> []) (split_on (CHR ''/'') path)"

definition buildPath :: "string option \<Rightarrow> string \<Rightarrow> string" where
  "buildPath parentPath i =
    (if truthy parentPath then the parentPath @ i @ ''/'' else ''/'' @ i @ ''/'')"

definition depthOf :: "string \<Rightarrow> int" where
  "depthOf path = max 0 (int (length (pathIds path)) - 1)"

definition wouldCreateCycle :: "string \<Rightarrow> string \<Rightarrow> bool" where
  "wouldCreateCycle unitPath newParentPath \<longleftrightarrow> prefix unitPath newParentPath"

text \<open>
  SQL's \<open>LIKE\<close>: a percent sign matches any sequence, an underscore any one character, and a
  backslash makes the next character literal.
\<close>

fun sql_like :: "string \<Rightarrow> string \<Rightarrow> bool" where
  "sql_like [] s \<longleftrightarrow> s = []"
| "sql_like (c # p) s \<longleftrightarrow>
    (if c = CHR ''%'' then sql_like p s \<or> (case s of [] \<Rightarrow> False | _ # t \<Rightarrow> sql_like (c # p) t)
     else if c = CHR ''_'' then (case s of [] \<Rightarrow> False | _ # t \<Rightarrow> sql_like p t)
     else if c = CHR 0x5C
       then (case p of [] \<Rightarrow> False
             | d # q \<Rightarrow> (case s of [] \<Rightarrow> False | x # t \<Rightarrow> x = d \<and> sql_like q t))
     else (case s of [] \<Rightarrow> False | x # t \<Rightarrow> x = c \<and> sql_like p t))"

definition like_plain :: "char \<Rightarrow> bool" where
  "like_plain c \<longleftrightarrow> c \<noteq> CHR ''%'' \<and> c \<noteq> CHR ''_'' \<and> c \<noteq> CHR 0x5C"

lemma sql_like_any: "sql_like [CHR ''%''] s"
  by (induction s) auto

lemma sql_like_prefix:
  "list_all like_plain w \<Longrightarrow> sql_like (w @ [CHR ''%'']) s \<longleftrightarrow> prefix w s"
proof (induction w arbitrary: s)
  case Nil
  show ?case using sql_like_any by simp
next
  case (Cons c w)
  then show ?case by (cases s) (auto simp: like_plain_def)
qed

text \<open>Identifiers are the database's generated ones: letters and digits.\<close>

definition id_char :: "char \<Rightarrow> bool" where
  "id_char c \<longleftrightarrow> is_digit c \<or> is_lower c \<or> is_upper c"

definition id_ok :: "string \<Rightarrow> bool" where
  "id_ok i \<longleftrightarrow> i \<noteq> [] \<and> list_all id_char i"

lemma id_char_plain: "id_char c \<Longrightarrow> like_plain c \<and> c \<noteq> CHR ''/''"
  by (auto simp: id_char_def is_digit_def is_lower_def is_upper_def like_plain_def)

lemma id_ok_slash: "id_ok i \<Longrightarrow> CHR ''/'' \<notin> set i"
  using id_char_plain by (auto simp: id_ok_def list_all_iff)

text \<open>The path of a chain of identifiers, root first.\<close>

fun encode_tail :: "string list \<Rightarrow> string" where
  "encode_tail [] = []"
| "encode_tail (i # is) = i @ CHR ''/'' # encode_tail is"

definition encode_path :: "string list \<Rightarrow> string" where
  "encode_path is = CHR ''/'' # encode_tail is"

lemma encode_tail_append [simp]: "encode_tail (xs @ ys) = encode_tail xs @ encode_tail ys"
  by (induction xs) auto

lemma encode_path_snoc: "encode_path (xs @ [i]) = encode_path xs @ i @ ''/''"
  by (simp add: encode_path_def)

lemma encode_path_append: "encode_path (xs @ ys) = encode_path xs @ encode_tail ys"
  by (simp add: encode_path_def)

lemma pathIds_encode: "list_all id_ok is \<Longrightarrow> pathIds (encode_path is) = is"
proof -
  have tail: "list_all id_ok is \<Longrightarrow> filter (\<lambda>w. w \<noteq> []) (split_on (CHR ''/'') (encode_tail is)) = is"
  proof (induction "is")
    case (Cons i "is")
    then show ?case
      using id_ok_slash [of i] by (auto simp: split_on_append id_ok_def)
  qed simp
  show "list_all id_ok is \<Longrightarrow> ?thesis"
    using tail by (simp add: pathIds_def encode_path_def)
qed

lemma slash_cut:
  assumes "CHR ''/'' \<notin> set i" and "CHR ''/'' \<notin> set j"
  shows "i @ CHR ''/'' # s = j @ CHR ''/'' # t \<longleftrightarrow> i = j \<and> s = t"
proof
  assume eq: "i @ CHR ''/'' # s = j @ CHR ''/'' # t"
  have tw: "takeWhile (\<lambda>c. c \<noteq> CHR ''/'') (w @ CHR ''/'' # u) = w" if "CHR ''/'' \<notin> set w" for w u
    using that by (induction w) auto
  have "i = j" using tw [OF assms(1)] tw [OF assms(2)] eq by metis
  with eq show "i = j \<and> s = t" by simp
qed simp

lemma prefix_encode_tail:
  "list_all id_ok xs \<Longrightarrow> list_all id_ok ys \<Longrightarrow> prefix (encode_tail xs) (encode_tail ys) \<longleftrightarrow> prefix xs ys"
proof (induction xs arbitrary: ys)
  case (Cons x xs)
  show ?case
  proof (cases ys)
    case Nil
    then show ?thesis by simp
  next
    case (Cons y zs)
    have slash: "CHR ''/'' \<notin> set x" "CHR ''/'' \<notin> set y"
      using Cons.prems Cons id_ok_slash by auto
    have "prefix (encode_tail (x # xs)) (encode_tail (y # zs)) \<longleftrightarrow>
      x = y \<and> prefix (encode_tail xs) (encode_tail zs)"
      using slash_cut [OF slash(2,1)] by (auto simp: prefix_def)
    then show ?thesis using Cons.IH [of zs] Cons.prems Cons by simp
  qed
qed simp

lemma prefix_encode_path:
  "list_all id_ok xs \<Longrightarrow> list_all id_ok ys \<Longrightarrow> prefix (encode_path xs) (encode_path ys) \<longleftrightarrow> prefix xs ys"
  by (simp add: encode_path_def prefix_encode_tail)

lemma encode_path_inject:
  "list_all id_ok xs \<Longrightarrow> list_all id_ok ys \<Longrightarrow> encode_path xs = encode_path ys \<longleftrightarrow> xs = ys"
  by (auto dest: arg_cong [where f = pathIds] simp: pathIds_encode)

lemma id_ok_plain: "id_ok i \<Longrightarrow> list_all like_plain i"
  by (auto simp: id_ok_def list_all_iff dest: id_char_plain)

lemma slash_plain: "like_plain (CHR ''/'')"
  by (simp add: like_plain_def)

lemma encode_tail_plain: "list_all id_ok is \<Longrightarrow> list_all like_plain (encode_tail is)"
  by (induction "is") (simp_all add: id_ok_plain slash_plain)

lemma encode_path_plain: "list_all id_ok is \<Longrightarrow> list_all like_plain (encode_path is)"
  by (simp add: encode_path_def encode_tail_plain slash_plain)

lemma buildPath_encode: "buildPath (Some (encode_path is)) i = encode_path (is @ [i])"
  by (simp add: buildPath_def truthy_def encode_path_def)

lemma buildPath_root: "buildPath None i = encode_path [i]"
  by (simp add: buildPath_def truthy_def encode_path_def)

section \<open>State\<close>

record org_unit =
  ou_id :: string
  ou_code :: string
  ou_name :: string
  ou_type :: org_unit_type
  ou_parentId :: "string option"
  ou_path :: string
  ou_isActive :: bool
  ou_canAccessEvents :: bool

text \<open>The columns of the user and lead tables the service counts by.\<close>

record org_member =
  om_orgUnitId :: "string option"
  om_deleted :: bool
  om_active :: bool

record org_state =
  units :: "org_unit list"
  org_users :: "org_member list"
  org_leads :: "org_member list"
  org_audit :: "audit_entry list"

record create_org_unit_input =
  ci_code :: string
  ci_name :: string
  ci_type :: org_unit_type
  ci_parentId :: "string option"

record update_org_unit_input =
  ui_name :: "string option"
  ui_isActive :: "bool option"
  ui_canAccessEvents :: "bool option"

section \<open>Operations\<close>

definition org_users_in :: "org_state \<Rightarrow> string \<Rightarrow> nat" where
  "org_users_in s i = count_where (\<lambda>u. om_orgUnitId u = Some i \<and> \<not> om_deleted u) (org_users s)"

definition org_active_users_in :: "org_state \<Rightarrow> string \<Rightarrow> nat" where
  "org_active_users_in s i =
    count_where (\<lambda>u. om_orgUnitId u = Some i \<and> \<not> om_deleted u \<and> om_active u) (org_users s)"

definition org_leads_in :: "org_state \<Rightarrow> string \<Rightarrow> nat" where
  "org_leads_in s i = count_where (\<lambda>l. om_orgUnitId l = Some i \<and> \<not> om_deleted l) (org_leads s)"

definition children_of :: "org_state \<Rightarrow> string \<Rightarrow> nat" where
  "children_of s i = count_where (\<lambda>u. ou_parentId u = Some i) (units s)"

record org_unit_usage =
  childCount :: nat
  userCount :: nat
  leadCount :: nat

datatype delete_refusal = HasUnits nat | HasPeople nat | HasLeads nat

definition canDeleteOrgUnit :: "org_unit_usage \<Rightarrow> delete_refusal option" where
  "canDeleteOrgUnit usage =
    (if childCount usage > 0 then Some (HasUnits (childCount usage))
     else if userCount usage > 0 then Some (HasPeople (userCount usage))
     else if leadCount usage > 0 then Some (HasLeads (leadCount usage))
     else None)"

text \<open>
  \<open>newId\<close> is the identifier the database generates. The row is created with a placeholder path
  and corrected inside the same transaction.
\<close>

definition create_org_unit ::
  "string \<Rightarrow> create_org_unit_input \<Rightarrow> org_state \<Rightarrow> org_unit result \<times> org_state" where
  "create_org_unit newId input s =
    (case find_by ou_code (ci_code input) (units s) of
       Some _ \<Rightarrow> (Inl (Conflict ''That code is taken''), s)
     | None \<Rightarrow>
         (let place =
            (if truthy (ci_parentId input)
             then (case find_by ou_id (the (ci_parentId input)) (units s) of
                     None \<Rightarrow> Inl (NotFound ''Parent not found'')
                   | Some parent \<Rightarrow>
                       (if canParent (ci_type input) (ou_type parent) then Inr (Some (ou_path parent))
                        else Inl (BadRequest ''Not a valid placement'')))
             else if ci_type input \<noteq> COMPANY then Inl (BadRequest ''A parent is required'')
             else Inr None)
          in case place of
               Inl e \<Rightarrow> (Inl e, s)
             | Inr parentPath \<Rightarrow>
                 (let row = \<lparr>ou_id = newId, ou_code = ci_code input, ou_name = ci_name input,
                        ou_type = ci_type input, ou_parentId = ci_parentId input,
                        ou_path = ''/pending/'', ou_isActive = True, ou_canAccessEvents = False\<rparr>;
                      created = row\<lparr>ou_path := buildPath parentPath newId\<rparr>
                  in (Inr created,
                      s\<lparr>units := update_by ou_id newId (\<lambda>r. r\<lparr>ou_path := buildPath parentPath newId\<rparr>)
                                   (insert_row row (units s)),
                        org_audit := org_audit s @ [audit_entry ''CREATE'' ''org_unit'' newId]\<rparr>))))"

definition apply_unit_update :: "update_org_unit_input \<Rightarrow> org_unit \<Rightarrow> org_unit" where
  "apply_unit_update input u =
    u\<lparr>ou_name := (case ui_name input of None \<Rightarrow> ou_name u | Some n \<Rightarrow> n),
      ou_isActive := (case ui_isActive input of None \<Rightarrow> ou_isActive u | Some b \<Rightarrow> b),
      ou_canAccessEvents :=
        (case ui_canAccessEvents input of None \<Rightarrow> ou_canAccessEvents u | Some b \<Rightarrow> b)\<rparr>"

definition update_org_unit ::
  "string \<Rightarrow> update_org_unit_input \<Rightarrow> org_state \<Rightarrow> org_unit result \<times> org_state" where
  "update_org_unit i input s =
    (case find_by ou_id i (units s) of
       None \<Rightarrow> (Inl (NotFound ''Unit not found''), s)
     | Some before \<Rightarrow>
         (if ui_isActive input = Some False \<and> org_active_users_in s i > 0
          then (Inl (BadRequest ''People are still here''), s)
          else (Inr (apply_unit_update input before),
                s\<lparr>units := update_by ou_id i (apply_unit_update input) (units s),
                  org_audit := org_audit s @ [audit_entry ''UPDATE'' ''org_unit'' i]\<rparr>)))"

text \<open>
  A move reads the unit and the new parent first and writes afterwards, in one transaction:
  \<open>move_write\<close> is that transaction, over the two rows as they were read.
\<close>

definition repath :: "string \<Rightarrow> string \<Rightarrow> string \<Rightarrow> string" where
  "repath oldPath newPath p = newPath @ drop (length oldPath) p"

definition move_write :: "org_unit \<Rightarrow> org_unit \<Rightarrow> org_unit list \<Rightarrow> org_unit list" where
  "move_write unit parent rows =
    (let oldPath = ou_path unit;
         newPath = buildPath (Some (ou_path parent)) (ou_id unit);
         moved = update_by ou_id (ou_id unit)
                   (\<lambda>r. r\<lparr>ou_parentId := Some (ou_id parent), ou_path := newPath\<rparr>) rows
     in update_where (\<lambda>r. sql_like (oldPath @ ''%'') (ou_path r) \<and> ou_id r \<noteq> ou_id unit)
          (\<lambda>r. r\<lparr>ou_path := repath oldPath newPath (ou_path r)\<rparr>) moved)"

definition move_org_unit ::
  "string \<Rightarrow> string \<Rightarrow> string \<Rightarrow> org_state \<Rightarrow> org_unit result \<times> org_state" where
  "move_org_unit i parentId reason s =
    (case find_by ou_id i (units s) of
       None \<Rightarrow> (Inl (NotFound ''Unit not found''), s)
     | Some unit \<Rightarrow>
         (case find_by ou_id parentId (units s) of
            None \<Rightarrow> (Inl (NotFound ''New parent not found''), s)
          | Some parent \<Rightarrow>
              (if ou_parentId unit = Some (ou_id parent) then (Inr unit, s)
               else if \<not> canParent (ou_type unit) (ou_type parent)
                 then (Inl (BadRequest ''Not a valid placement''), s)
               else if wouldCreateCycle (ou_path unit) (ou_path parent)
                 then (Inl (BadRequest ''That would create a loop''), s)
               else (let rows = move_write unit parent (units s)
                     in (case find_by ou_id i rows of
                           None \<Rightarrow> Inl (NotFound ''Unit not found'') | Some u \<Rightarrow> Inr u,
                         s\<lparr>units := rows,
                           org_audit := org_audit s @
                             [(audit_entry ''UPDATE'' ''org_unit'' i)\<lparr>au_reason := Some reason\<rparr>]\<rparr>)))))"

definition remove_org_unit :: "string \<Rightarrow> org_state \<Rightarrow> unit result \<times> org_state" where
  "remove_org_unit i s =
    (case find_by ou_id i (units s) of
       None \<Rightarrow> (Inl (NotFound ''Unit not found''), s)
     | Some _ \<Rightarrow>
         (case canDeleteOrgUnit \<lparr>childCount = children_of s i, userCount = org_users_in s i,
                                 leadCount = org_leads_in s i\<rparr> of
            Some _ \<Rightarrow> (Inl (BadRequest ''Cannot delete''), s)
          | None \<Rightarrow> (Inr (), s\<lparr>units := delete_by ou_id i (units s),
                              org_audit := org_audit s @ [audit_entry ''DELETE'' ''org_unit'' i]\<rparr>)))"

interpretation unit_rows: repository "find_by ou_id" "update_by ou_id" insert_row ou_id
  by (rule repository_by)

section \<open>The tree invariant\<close>

text \<open>
  A unit is well placed when it is a company with a one-element path, or its parent exists,
  may hold it, and its path is the parent's extended by its own identifier.
\<close>

definition unit_ok :: "org_unit list \<Rightarrow> org_unit \<Rightarrow> bool" where
  "unit_ok rows u \<longleftrightarrow> id_ok (ou_id u) \<and>
    (case ou_parentId u of
       None \<Rightarrow> ou_type u = COMPANY \<and> ou_path u = encode_path [ou_id u]
     | Some p \<Rightarrow> (\<exists>q \<in> set rows. ou_id q = p \<and> canParent (ou_type u) (ou_type q) \<and>
                   ou_path u = ou_path q @ ou_id u @ ''/''))"

definition tree_ok :: "org_unit list \<Rightarrow> bool" where
  "tree_ok rows \<longleftrightarrow> keys_unique ou_id rows \<and> (\<forall>u \<in> set rows. unit_ok rows u)"

text \<open>The reporting order of the parent links.\<close>

inductive below :: "org_unit list \<Rightarrow> string \<Rightarrow> string \<Rightarrow> bool" for rows where
  below_refl: "u \<in> set rows \<Longrightarrow> below rows (ou_id u) (ou_id u)"
| below_step: "u \<in> set rows \<Longrightarrow> ou_parentId u = Some p \<Longrightarrow> below rows p a \<Longrightarrow> below rows (ou_id u) a"

lemma tree_okD:
  assumes "tree_ok rows" and "u \<in> set rows"
  shows "id_ok (ou_id u)" and "unit_ok rows u"
  using assms by (auto simp: tree_ok_def unit_ok_def)

lemma tree_ok_same:
  "tree_ok rows \<Longrightarrow> u \<in> set rows \<Longrightarrow> v \<in> set rows \<Longrightarrow> ou_id u = ou_id v \<Longrightarrow> u = v"
  by (auto simp: tree_ok_def keys_unique_def dest: distinct_map [THEN iffD1] inj_onD)

lemma tree_ok_induct [consumes 2, case_names root child]:
  assumes "tree_ok rows" and "u \<in> set rows"
    and root: "\<And>u. u \<in> set rows \<Longrightarrow> ou_parentId u = None \<Longrightarrow> ou_path u = encode_path [ou_id u] \<Longrightarrow> P u"
    and child: "\<And>u q. u \<in> set rows \<Longrightarrow> q \<in> set rows \<Longrightarrow> ou_parentId u = Some (ou_id q) \<Longrightarrow>
      canParent (ou_type u) (ou_type q) \<Longrightarrow> ou_path u = ou_path q @ ou_id u @ ''/'' \<Longrightarrow> P q \<Longrightarrow> P u"
  shows "P u"
  using assms(2)
proof (induction "nat (typeRank (ou_type u))" arbitrary: u rule: less_induct)
  case less
  have ok: "unit_ok rows u" using tree_okD(2) [OF assms(1) less.prems] .
  show ?case
  proof (cases "ou_parentId u")
    case None
    then show ?thesis using ok root [OF less.prems] by (simp add: unit_ok_def)
  next
    case (Some p)
    then obtain q where q: "q \<in> set rows" "ou_id q = p" "canParent (ou_type u) (ou_type q)"
      "ou_path u = ou_path q @ ou_id u @ ''/''"
      using ok by (auto simp: unit_ok_def)
    have "typeRank (ou_type q) < typeRank (ou_type u)" using canParent_rank [OF q(3)] .
    moreover have "0 \<le> typeRank (ou_type q)" by (cases "ou_type q") auto
    ultimately have "P q" using less.hyps [OF _ q(1)] by simp
    then show ?thesis using child [OF less.prems q(1) _ q(3,4)] Some q(2) by simp
  qed
qed

lemma tree_path_encode:
  assumes "tree_ok rows" and "u \<in> set rows"
  shows "\<exists>is. list_all id_ok is \<and> ou_path u = encode_path (is @ [ou_id u])"
  using assms
proof (induction rule: tree_ok_induct)
  case (root u)
  then show ?case by (intro exI [of _ "[]"]) simp
next
  case (child u q)
  then obtain "is" where "list_all id_ok is" "ou_path q = encode_path (is @ [ou_id q])"
    by blast
  then show ?case
    using child tree_okD(1) [OF assms(1) child.hyps(2)]
    by (intro exI [of _ "is @ [ou_id q]"]) (simp add: encode_path_def)
qed

lemma tree_path_chain:
  assumes "tree_ok rows" and "u \<in> set rows"
  obtains "is" where "list_all id_ok (is @ [ou_id u])" and "ou_path u = encode_path (is @ [ou_id u])"
    and "pathIds (ou_path u) = is @ [ou_id u]"
proof -
  obtain "is" where i: "list_all id_ok is" "ou_path u = encode_path (is @ [ou_id u])"
    using tree_path_encode [OF assms] by blast
  have "list_all id_ok (is @ [ou_id u])" using i tree_okD(1) [OF assms] by simp
  then show thesis using that i(2) pathIds_encode by metis
qed

lemma tree_path_plain: "tree_ok rows \<Longrightarrow> u \<in> set rows \<Longrightarrow> list_all like_plain (ou_path u)"
  by (erule (1) tree_path_chain) (metis encode_path_plain)

lemma tree_path_inj:
  assumes "tree_ok rows" and "u \<in> set rows" and "v \<in> set rows" and "ou_path u = ou_path v"
  shows "u = v"
proof -
  obtain "is" where i: "pathIds (ou_path u) = is @ [ou_id u]"
    using tree_path_chain [OF assms(1,2)] by blast
  obtain js where j: "pathIds (ou_path v) = js @ [ou_id v]"
    using tree_path_chain [OF assms(1,3)] by blast
  have "ou_id u = ou_id v" using i j assms(4) by simp
  then show ?thesis using tree_ok_same [OF assms(1-3)] by blast
qed

text \<open>A path is a prefix of a child's exactly when it is the child's or a prefix of its parent's.\<close>

lemma prefix_child:
  assumes t: "tree_ok rows" and a: "a \<in> set rows" and b: "b \<in> set rows" and q: "q \<in> set rows"
    and eq: "ou_path b = ou_path q @ ou_id b @ ''/''"
  shows "prefix (ou_path a) (ou_path b) \<longleftrightarrow> a = b \<or> prefix (ou_path a) (ou_path q)"
proof -
  obtain "is" where i: "list_all id_ok (is @ [ou_id a])" "ou_path a = encode_path (is @ [ou_id a])"
    using tree_path_chain [OF t a] by blast
  obtain js where j: "list_all id_ok (js @ [ou_id q])" "ou_path q = encode_path (js @ [ou_id q])"
    using tree_path_chain [OF t q] by blast
  have b': "ou_path b = encode_path ((js @ [ou_id q]) @ [ou_id b])"
    using eq j(2) by (simp add: encode_path_def)
  have okb: "list_all id_ok ((js @ [ou_id q]) @ [ou_id b])"
    using j(1) tree_okD(1) [OF t b] by simp
  have "prefix (ou_path a) (ou_path b) \<longleftrightarrow> prefix (is @ [ou_id a]) ((js @ [ou_id q]) @ [ou_id b])"
    using prefix_encode_path [OF i(1) okb] i(2) b' by simp
  also have "\<dots> \<longleftrightarrow> is @ [ou_id a] = (js @ [ou_id q]) @ [ou_id b] \<or> prefix (is @ [ou_id a]) (js @ [ou_id q])"
    by (rule prefix_snoc)
  also have "is @ [ou_id a] = (js @ [ou_id q]) @ [ou_id b] \<longleftrightarrow> ou_path a = ou_path b"
    using encode_path_inject [OF i(1) okb] i(2) b' by simp
  also have "prefix (is @ [ou_id a]) (js @ [ou_id q]) \<longleftrightarrow> prefix (ou_path a) (ou_path q)"
    using prefix_encode_path [OF i(1) j(1)] i(2) j(2) by simp
  also have "ou_path a = ou_path b \<longleftrightarrow> a = b"
    using tree_path_inj [OF t a b] by blast
  finally show ?thesis .
qed

lemma prefix_root:
  assumes t: "tree_ok rows" and a: "a \<in> set rows" and b: "b \<in> set rows"
    and eq: "ou_path b = encode_path [ou_id b]"
  shows "prefix (ou_path a) (ou_path b) \<longleftrightarrow> a = b"
proof -
  obtain "is" where i: "list_all id_ok (is @ [ou_id a])" "ou_path a = encode_path (is @ [ou_id a])"
    using tree_path_chain [OF t a] by blast
  have "prefix (ou_path a) (ou_path b) \<longleftrightarrow> prefix (is @ [ou_id a]) [ou_id b]"
    using prefix_encode_path [OF i(1), of "[ou_id b]"] tree_okD(1) [OF t b] i(2) eq by simp
  also have "\<dots> \<longleftrightarrow> is = [] \<and> ou_id a = ou_id b"
    by (cases "is") (auto simp: prefix_def)
  finally have "prefix (ou_path a) (ou_path b) \<longleftrightarrow> is = [] \<and> ou_id a = ou_id b" .
  moreover have "is = []" if "a = b"
    using encode_path_inject [OF i(1), of "[ou_id b]"] tree_okD(1) [OF t b] i(2) eq that by simp
  ultimately show ?thesis using tree_ok_same [OF t a b] by blast
qed

lemma below_sameD:
  assumes "below rows i a" and "tree_ok rows" and "u \<in> set rows" and "ou_id u = i"
  shows "i = a \<or> (\<exists>p. ou_parentId u = Some p \<and> below rows p a)"
  using assms(1)
proof cases
  case (below_step v p)
  then show ?thesis using tree_ok_same [OF assms(2), of v u] assms(3,4) by auto
qed simp

lemma prefix_iff_below:
  assumes t: "tree_ok rows" and a: "a \<in> set rows" and b: "b \<in> set rows"
  shows "prefix (ou_path a) (ou_path b) \<longleftrightarrow> below rows (ou_id b) (ou_id a)"
  using t b
proof (induction rule: tree_ok_induct)
  case (root b)
  have "prefix (ou_path a) (ou_path b) \<longleftrightarrow> a = b"
    by (rule prefix_root [OF t a root.hyps(1) root.hyps(3)])
  then show ?case
    using below_sameD [OF _ t root.hyps(1) HOL.refl] root.hyps(2) below_refl [OF root.hyps(1)]
      tree_ok_same [OF t a root.hyps(1)]
    by fastforce
next
  case (child b q)
  have "prefix (ou_path a) (ou_path b) \<longleftrightarrow> a = b \<or> below rows (ou_id q) (ou_id a)"
    using prefix_child [OF t a child.hyps(1,2,5)] child.IH by simp
  then show ?case
    using below_sameD [OF _ t child.hyps(1) HOL.refl] child.hyps(3) below_refl [OF child.hyps(1)]
      below_step [OF child.hyps(1,3)] tree_ok_same [OF t a child.hyps(1)]
    by fastforce
qed

lemma pathIds_below:
  assumes t: "tree_ok rows" and b: "b \<in> set rows"
  shows "i \<in> set (pathIds (ou_path b)) \<longleftrightarrow> below rows (ou_id b) i"
  using t b
proof (induction rule: tree_ok_induct)
  case (root b)
  have "pathIds (ou_path b) = [ou_id b]"
    using root pathIds_encode [of "[ou_id b]"] tree_okD(1) [OF t root.hyps(1)] by simp
  then show ?case
    using below_sameD [OF _ t root.hyps(1) HOL.refl] root.hyps(2) below_refl [OF root.hyps(1)]
    by fastforce
next
  case (child b q)
  obtain "is" where i: "list_all id_ok (is @ [ou_id q])" "ou_path q = encode_path (is @ [ou_id q])"
    "pathIds (ou_path q) = is @ [ou_id q]"
    using tree_path_chain [OF t child.hyps(2)] by blast
  have "ou_path b = encode_path ((is @ [ou_id q]) @ [ou_id b])"
    using i(2) child.hyps(5) by (simp add: encode_path_def)
  then have "pathIds (ou_path b) = pathIds (ou_path q) @ [ou_id b]"
    using i(1,3) pathIds_encode [of "(is @ [ou_id q]) @ [ou_id b]"] tree_okD(1) [OF t child.hyps(1)]
    by simp
  then show ?case
    using below_sameD [OF _ t child.hyps(1) HOL.refl] child.hyps(3) below_refl [OF child.hyps(1)]
      below_step [OF child.hyps(1,3)] child.IH
    by fastforce
qed

section \<open>The operations keep the invariant\<close>

lemma unit_ok_transfer:
  assumes "unit_ok rows u" and "ou_id v = ou_id u" and "ou_parentId v = ou_parentId u"
    and "ou_path v = ou_path u" and "ou_type v = ou_type u"
    and "\<And>q. q \<in> set rows \<Longrightarrow> \<exists>q' \<in> set rows'. ou_id q' = ou_id q \<and> ou_type q' = ou_type q \<and> ou_path q' = ou_path q"
  shows "unit_ok rows' v"
  using assms unfolding unit_ok_def by (auto split: option.splits) metis

lemma tree_ok_insert:
  assumes t: "tree_ok rows" and fresh: "ou_id u \<notin> ou_id ` set rows" and u: "unit_ok (rows @ [u]) u"
  shows "tree_ok (insert_row u rows)"
proof -
  have "unit_ok (rows @ [u]) v" if "v \<in> set rows" for v
    using unit_ok_transfer [OF tree_okD(2) [OF t that], of v "rows @ [u]"] by auto
  with t fresh u show ?thesis
    by (auto simp: tree_ok_def insert_row_def keys_unique_def)
qed

lemma tree_ok_map:
  assumes t: "tree_ok rows" and g: "\<And>u. ou_id (g u) = ou_id u"
    and ok: "\<And>u. u \<in> set rows \<Longrightarrow> unit_ok (map g rows) (g u)"
  shows "tree_ok (map g rows)"
  using t ok by (auto simp: tree_ok_def keys_unique_def comp_def g)

lemma tree_ok_map_same:
  assumes t: "tree_ok rows"
    and g: "\<And>u. ou_id (g u) = ou_id u" "\<And>u. ou_parentId (g u) = ou_parentId u"
      "\<And>u. ou_path (g u) = ou_path u" "\<And>u. ou_type (g u) = ou_type u"
  shows "tree_ok (map g rows)"
proof (rule tree_ok_map [OF t g(1)])
  fix u assume u: "u \<in> set rows"
  show "unit_ok (map g rows) (g u)"
  proof (rule unit_ok_transfer [OF tree_okD(2) [OF t u]])
    fix q assume "q \<in> set rows"
    then show "\<exists>q' \<in> set (map g rows). ou_id q' = ou_id q \<and> ou_type q' = ou_type q \<and> ou_path q' = ou_path q"
      using g by (intro bexI [of _ "g q"]) simp_all
  qed (simp_all add: g)
qed

lemma update_after_insert:
  assumes "ou_id r = i" and "i \<notin> ou_id ` set rows"
  shows "update_by ou_id i f (insert_row r rows) = insert_row (f r) rows"
proof -
  have "update_where (\<lambda>u. ou_id u = i) f rows = rows"
    using assms(2) by (induction rows) auto
  then show ?thesis
    using assms(1) by (simp add: update_by_def insert_row_def update_where_def)
qed

lemma create_org_unit_tree_ok:
  assumes t: "tree_ok (units s)" and fresh: "newId \<notin> ou_id ` set (units s)" and i: "id_ok newId"
    and p: "ci_parentId input \<noteq> Some []"
  shows "tree_ok (units (snd (create_org_unit newId input s)))"
proof (cases "create_org_unit newId input s")
  case (Pair r s')
  show ?thesis
  proof (cases r)
    case (Inl e)
    then have "units s' = units s"
      using Pair by (auto simp: create_org_unit_def Let_def split: option.splits sum.splits if_splits)
    then show ?thesis using t Pair by simp
  next
    case (Inr u)
    have s': "units s' = insert_row u (units s)"
      using Pair Inr fresh
      by (auto simp: create_org_unit_def Let_def update_after_insert split: option.splits sum.splits if_splits)
    have u: "ou_id u = newId" "ou_type u = ci_type input" "ou_parentId u = ci_parentId input"
      using Pair Inr by (auto simp: create_org_unit_def Let_def split: option.splits sum.splits if_splits)
    have "unit_ok (units s @ [u]) u"
    proof (cases "ci_parentId input")
      case None
      then have "ou_type u = COMPANY" "ou_path u = encode_path [ou_id u]"
        using Pair Inr buildPath_root
        by (auto simp: create_org_unit_def Let_def truthy_def split: option.splits sum.splits if_splits)
      then show ?thesis using u i None by (simp add: unit_ok_def)
    next
      case (Some pid)
      then have "truthy (ci_parentId input)" using p by (simp add: truthy_def)
      then obtain q where q: "find_by ou_id pid (units s) = Some q" "canParent (ci_type input) (ou_type q)"
        "ou_path u = buildPath (Some (ou_path q)) newId"
        using Pair Inr Some
        by (auto simp: create_org_unit_def Let_def split: option.splits sum.splits if_splits)
      have qs: "q \<in> set (units s)" "ou_id q = pid" using find_by_SomeD [OF q(1)] by auto
      obtain "is" where "ou_path q = encode_path (is @ [ou_id q])"
        using tree_path_chain [OF t qs(1)] by blast
      then have "ou_path u = ou_path q @ newId @ ''/''"
        using q(3) by (simp add: buildPath_def truthy_def encode_path_def)
      then show ?thesis using u i q(2) qs Some by (auto simp: unit_ok_def)
    qed
    then show ?thesis
      using tree_ok_insert [OF t] fresh u(1) s' Pair by simp
  qed
qed

lemma update_org_unit_tree_ok:
  assumes t: "tree_ok (units s)"
  shows "tree_ok (units (snd (update_org_unit i input s)))"
proof -
  have "tree_ok (map (\<lambda>u. if ou_id u = i then apply_unit_update input u else u) (units s))"
    by (rule tree_ok_map_same [OF t]) (simp_all add: apply_unit_update_def)
  then show ?thesis
    using t by (simp add: update_org_unit_def update_by_def update_where_def split: option.split)
qed

lemma remove_org_unit_tree_ok:
  assumes t: "tree_ok (units s)"
  shows "tree_ok (units (snd (remove_org_unit i s)))"
proof (cases "units (snd (remove_org_unit i s)) = units s")
  case True
  then show ?thesis using t by simp
next
  case False
  then have eq: "units (snd (remove_org_unit i s)) = delete_by ou_id i (units s)"
    and none: "children_of s i = 0"
    by (auto simp: remove_org_unit_def canDeleteOrgUnit_def split: option.splits if_splits)
  have leaf: "ou_parentId u \<noteq> Some i" if "u \<in> set (units s)" for u
    using none that by (auto simp: children_of_def count_where_0_iff)
  have "unit_ok (delete_by ou_id i (units s)) u" if "u \<in> set (delete_by ou_id i (units s))" for u
  proof -
    have u: "u \<in> set (units s)" using that by (simp add: delete_by_def)
    show ?thesis
      using tree_okD(2) [OF t u] leaf [OF u] by (auto simp: unit_ok_def delete_by_def split: option.splits)
  qed
  then show ?thesis using t eq by (simp add: tree_ok_def keys_unique_delete_by)
qed

subsection \<open>Moves\<close>

definition moved_row :: "org_unit \<Rightarrow> org_unit \<Rightarrow> org_unit \<Rightarrow> org_unit" where
  "moved_row u p r =
    (if ou_id r = ou_id u then r\<lparr>ou_parentId := Some (ou_id p), ou_path := ou_path p @ ou_id u @ ''/''\<rparr>
     else if prefix (ou_path u) (ou_path r)
       then r\<lparr>ou_path := repath (ou_path u) (ou_path p @ ou_id u @ ''/'') (ou_path r)\<rparr>
     else r)"

lemma move_write_map:
  assumes "tree_ok rows" and "u \<in> set rows" and "p \<in> set rows"
  shows "move_write u p rows = map (moved_row u p) rows"
proof -
  obtain "is" where "ou_path p = encode_path is"
    using tree_path_chain [OF assms(1,3)] by blast
  then have "buildPath (Some (ou_path p)) (ou_id u) = ou_path p @ ou_id u @ ''/''"
    by (simp add: buildPath_encode encode_path_snoc)
  moreover have "sql_like (ou_path u @ ''%'') q \<longleftrightarrow> prefix (ou_path u) q" for q
    using sql_like_prefix tree_path_plain [OF assms(1,2)] by simp
  ultimately show ?thesis
    by (simp add: move_write_def Let_def update_by_def update_where_def moved_row_def)
qed

lemma moved_row_keeps [simp]:
  "ou_id (moved_row u p r) = ou_id r" "ou_type (moved_row u p r) = ou_type r"
  by (simp_all add: moved_row_def)

definition move_allowed :: "org_unit list \<Rightarrow> org_unit \<Rightarrow> org_unit \<Rightarrow> bool" where
  "move_allowed rows u p \<longleftrightarrow> tree_ok rows \<and> u \<in> set rows \<and> p \<in> set rows \<and>
    canParent (ou_type u) (ou_type p) \<and> \<not> prefix (ou_path u) (ou_path p)"

abbreviation newPath :: "org_unit \<Rightarrow> org_unit \<Rightarrow> string" where
  "newPath u p \<equiv> ou_path p @ ou_id u @ ''/''"

lemma move_allowedD:
  assumes "move_allowed rows u p"
  shows "tree_ok rows" and "u \<in> set rows" and "p \<in> set rows" and "canParent (ou_type u) (ou_type p)"
    and "\<not> prefix (ou_path u) (ou_path p)"
  using assms by (simp_all add: move_allowed_def)

lemma moved_row_path:
  assumes m: "move_allowed rows u p" and r: "r \<in> set rows"
  shows "ou_path (moved_row u p r) =
    (if prefix (ou_path u) (ou_path r) then newPath u p @ drop (length (ou_path u)) (ou_path r)
     else ou_path r)"
  using tree_ok_same [OF move_allowedD(1) [OF m] r move_allowedD(2) [OF m]]
  by (auto simp: moved_row_def repath_def)

lemma moved_row_unmoved:
  assumes m: "move_allowed rows u p" and r: "r \<in> set rows" and out: "\<not> prefix (ou_path u) (ou_path r)"
  shows "moved_row u p r = r"
  using tree_ok_same [OF move_allowedD(1) [OF m] r move_allowedD(2) [OF m]] out
  by (auto simp: moved_row_def)

lemma moved_row_self: "moved_row u p u = u\<lparr>ou_parentId := Some (ou_id p), ou_path := newPath u p\<rparr>"
  by (simp add: moved_row_def)

lemma moved_row_parent: "move_allowed rows u p \<Longrightarrow> moved_row u p p = p"
  by (rule moved_row_unmoved [OF _ move_allowedD(3,5)])

lemma moved_row_child:
  assumes m: "move_allowed rows u p" and r: "r \<in> set rows" and q: "q \<in> set rows" and eq: "ou_path r = ou_path q @ ou_id r @ ''/''"
    and ne: "r \<noteq> u"
  shows "ou_path (moved_row u p r) = ou_path (moved_row u p q) @ ou_id r @ ''/''"
proof -
  note t = move_allowedD(1) [OF m] and u = move_allowedD(2) [OF m] and p = move_allowedD(3) [OF m]
  have "prefix (ou_path u) (ou_path r) \<longleftrightarrow> prefix (ou_path u) (ou_path q)"
    using prefix_child [OF t u r q eq] ne by blast
  then show ?thesis
    using moved_row_path [OF m r] moved_row_path [OF m q] eq by (auto simp: prefix_length_le)
qed

lemma moved_row_parentId:
  assumes m: "move_allowed rows u p" and ne: "r \<noteq> u" and r: "r \<in> set rows"
  shows "ou_parentId (moved_row u p r) = ou_parentId r"
  using tree_ok_same [OF move_allowedD(1) [OF m] r move_allowedD(2) [OF m]] ne
  by (auto simp: moved_row_def)

lemma moved_row_ok:
  assumes m: "move_allowed rows u p" and r: "r \<in> set rows"
  shows "unit_ok (map (moved_row u p) rows) (moved_row u p r)"
proof (cases "r = u")
  case True
  note t = move_allowedD(1) [OF m] and u = move_allowedD(2) [OF m] and p = move_allowedD(3) [OF m]
  have pm: "p \<in> set (map (moved_row u p) rows)" using p moved_row_parent [OF m] by (metis image_eqI set_map)
  have "\<exists>q \<in> set (map (moved_row u p) rows). ou_id q = ou_id p \<and> canParent (ou_type u) (ou_type q) \<and>
      newPath u p = ou_path q @ ou_id u @ ''/''"
    by (rule bexI [OF _ pm]) (simp add: move_allowedD(4) [OF m])
  then show ?thesis
    using True moved_row_self tree_okD(1) [OF t u] by (simp add: unit_ok_def)
next
  case False
  note t = move_allowedD(1) [OF m] and u = move_allowedD(2) [OF m] and p = move_allowedD(3) [OF m]
  note ok = tree_okD(2) [OF t r]
  show ?thesis
  proof (cases "ou_parentId r")
    case None
    then have root: "ou_path r = encode_path [ou_id r]" using ok by (simp add: unit_ok_def)
    then have "\<not> prefix (ou_path u) (ou_path r)"
      using prefix_root [OF t u r] False by blast
    then show ?thesis
      using moved_row_unmoved [OF m r] None ok by (simp add: unit_ok_def)
  next
    case (Some pid)
    then obtain q where q: "q \<in> set rows" "ou_id q = pid" "canParent (ou_type r) (ou_type q)"
      "ou_path r = ou_path q @ ou_id r @ ''/''"
      using ok by (auto simp: unit_ok_def)
    have "ou_path (moved_row u p r) = ou_path (moved_row u p q) @ ou_id r @ ''/''"
      by (rule moved_row_child [OF m r q(1,4) False])
    then have "\<exists>q' \<in> set (map (moved_row u p) rows). ou_id q' = pid \<and> canParent (ou_type r) (ou_type q') \<and>
        ou_path (moved_row u p r) = ou_path q' @ ou_id r @ ''/''"
      by (intro bexI [of _ "moved_row u p q"]) (use q in simp_all)
    then show ?thesis
      using Some moved_row_parentId [OF m False r] tree_okD(1) [OF t r] by (simp add: unit_ok_def)
  qed
qed

lemma moved_tree_ok: "move_allowed rows u p \<Longrightarrow> tree_ok (map (moved_row u p) rows)"
  by (rule tree_ok_map [OF move_allowedD(1)]) (simp_all add: moved_row_ok)

text \<open>Who sees whom afterwards, in terms of the paths before.\<close>

lemma moved_row_visible:
  assumes m: "move_allowed rows u p" and a: "a \<in> set rows" and b: "b \<in> set rows"
  shows "prefix (ou_path (moved_row u p a)) (ou_path (moved_row u p b)) \<longleftrightarrow>
    (if prefix (ou_path u) (ou_path b)
     then (if prefix (ou_path u) (ou_path a) then prefix (ou_path a) (ou_path b)
           else prefix (ou_path a) (ou_path p))
     else prefix (ou_path a) (ou_path b))"
proof (cases "prefix (ou_path u) (ou_path b)")
  case b_in: True
  note t = move_allowedD(1) [OF m] and u = move_allowedD(2) [OF m] and p = move_allowedD(3) [OF m]
  obtain w where w: "ou_path b = ou_path u @ w" using b_in by (auto simp: prefix_def)
  have nb: "ou_path (moved_row u p b) = newPath u p @ w" using moved_row_path [OF m b] b_in w by simp
  show ?thesis
  proof (cases "prefix (ou_path u) (ou_path a)")
    case True
    then obtain v where v: "ou_path a = ou_path u @ v" by (auto simp: prefix_def)
    have "ou_path (moved_row u p a) = newPath u p @ v" using moved_row_path [OF m a] True v by simp
    then show ?thesis using nb w v b_in True by (simp add: same_prefix_prefix)
  next
    case False
    then have na: "moved_row u p a = a" using moved_row_unmoved [OF m a] by blast
    have tn: "tree_ok (map (moved_row u p) rows)" by (rule moved_tree_ok [OF m])
    have mem: "moved_row u p a \<in> set (map (moved_row u p) rows)" "moved_row u p b \<in> set (map (moved_row u p) rows)" "moved_row u p u \<in> set (map (moved_row u p) rows)"
      "moved_row u p p \<in> set (map (moved_row u p) rows)"
      using a b u p by auto
    have up: "prefix (ou_path (moved_row u p u)) (ou_path (moved_row u p b))"
      using nb moved_row_self by (simp add: prefix_def)
    have "prefix (ou_path (moved_row u p a)) (ou_path (moved_row u p b)) \<longleftrightarrow> prefix (ou_path (moved_row u p a)) (ou_path (moved_row u p u))"
    proof
      assume ab: "prefix (ou_path (moved_row u p a)) (ou_path (moved_row u p b))"
      show "prefix (ou_path (moved_row u p a)) (ou_path (moved_row u p u))"
      proof (cases rule: disjE [OF prefix_same_cases [OF ab up]])
        case 1
        then show ?thesis .
      next
        case 2
        then have "below (map (moved_row u p) rows) (ou_id (moved_row u p a)) (ou_id (moved_row u p u))"
          using prefix_iff_below [OF tn mem(3,1)] by blast
        then have "ou_id u \<in> set (pathIds (ou_path (moved_row u p a)))"
          using pathIds_below [OF tn mem(1)] by simp
        then have "prefix (ou_path u) (ou_path a)"
          using na pathIds_below [OF t a] prefix_iff_below [OF t u a] by simp
        with False show ?thesis by simp
      qed
    next
      assume "prefix (ou_path (moved_row u p a)) (ou_path (moved_row u p u))"
      then show "prefix (ou_path (moved_row u p a)) (ou_path (moved_row u p b))"
        using up by (rule prefix_order.trans)
    qed
    also have "\<dots> \<longleftrightarrow> moved_row u p a = moved_row u p u \<or> prefix (ou_path (moved_row u p a)) (ou_path (moved_row u p p))"
      by (rule prefix_child [OF tn mem(1,3,4)]) (simp add: moved_row_self moved_row_parent [OF m])
    also have "\<dots> \<longleftrightarrow> prefix (ou_path a) (ou_path p)"
      using na moved_row_parent [OF m] tree_ok_same [OF t a u] False moved_row_keeps(1) [of u p u] by auto
    finally show ?thesis using b_in False by auto
  qed
next
  case b_out: False
  note t = move_allowedD(1) [OF m] and u = move_allowedD(2) [OF m] and p = move_allowedD(3) [OF m]
  have nb: "moved_row u p b = b" using moved_row_unmoved [OF m b b_out] .
  show ?thesis
  proof (cases "prefix (ou_path u) (ou_path a)")
    case False
    then show ?thesis using nb b_out moved_row_unmoved [OF m a] by simp
  next
    case True
    have tn: "tree_ok (map (moved_row u p) rows)" by (rule moved_tree_ok [OF m])
    have mem: "moved_row u p a \<in> set (map (moved_row u p) rows)" "moved_row u p b \<in> set (map (moved_row u p) rows)" "moved_row u p u \<in> set (map (moved_row u p) rows)"
      using a b u by auto
    have "\<not> prefix (ou_path (moved_row u p a)) (ou_path (moved_row u p b))"
    proof
      assume ab: "prefix (ou_path (moved_row u p a)) (ou_path (moved_row u p b))"
      have "prefix (ou_path (moved_row u p u)) (ou_path (moved_row u p a))"
        using moved_row_path [OF m a] True moved_row_self by (simp add: prefix_def)
      then have "prefix (ou_path (moved_row u p u)) (ou_path (moved_row u p b))"
        using ab by (rule prefix_order.trans)
      then have "ou_id u \<in> set (pathIds (ou_path b))"
        using prefix_iff_below [OF tn mem(3,2)] pathIds_below [OF tn mem(2)] nb by simp
      then show False
        using pathIds_below [OF t b] prefix_iff_below [OF t u b] b_out by simp
    qed
    moreover have "\<not> prefix (ou_path a) (ou_path b)"
      using True b_out prefix_order.trans by blast
    ultimately show ?thesis using b_out by simp
  qed
qed



section \<open>Reachable trees\<close>

lemma canParent_not_prefix:
  assumes t: "tree_ok rows" and u: "u \<in> set rows" and p: "p \<in> set rows"
    and c: "canParent (ou_type u) (ou_type p)"
  shows "\<not> prefix (ou_path u) (ou_path p)"
proof -
  have "prefix (ou_path u) (ou_path b) \<longrightarrow> typeRank (ou_type u) \<le> typeRank (ou_type b)"
    if b: "b \<in> set rows" for b
    using t b
  proof (induction rule: tree_ok_induct)
    case (root b)
    then show ?case using prefix_root [OF t u root.hyps(1,3)] by auto
  next
    case (child b q)
    then show ?case
      using prefix_child [OF t u child.hyps(1,2,5)] canParent_rank [OF child.hyps(4)] by auto
  qed
  then show ?thesis using p canParent_rank [OF c] by force
qed

lemma move_org_unit_cases:
  assumes "tree_ok (units s)"
  shows "units (snd (move_org_unit i pid reason s)) = units s \<or>
    (\<exists>u p. find_by ou_id i (units s) = Some u \<and> find_by ou_id pid (units s) = Some p \<and>
       move_allowed (units s) u p \<and>
       units (snd (move_org_unit i pid reason s)) = map (moved_row u p) (units s))"
proof (cases "find_by ou_id i (units s)")
  case None
  then show ?thesis by (simp add: move_org_unit_def)
next
  case (Some u)
  note u = Some
  show ?thesis
  proof (cases "find_by ou_id pid (units s)")
    case None
    then show ?thesis using u by (simp add: move_org_unit_def)
  next
    case (Some p)
    have mem: "u \<in> set (units s)" "p \<in> set (units s)"
      using find_by_SomeD [OF u] find_by_SomeD [OF Some] by auto
    show ?thesis
      using u Some mem assms move_write_map [OF assms mem]
      by (auto simp: move_org_unit_def Let_def move_allowed_def wouldCreateCycle_def)
  qed
qed

lemma move_org_unit_tree_ok:
  "tree_ok (units s) \<Longrightarrow> tree_ok (units (snd (move_org_unit i pid reason s)))"
  using move_org_unit_cases [of s i pid reason] moved_tree_ok by auto

text \<open>
  The states the service reaches from an empty table. An identifier the database hands out is
  new and made of letters and digits; a request's \<open>parentId\<close> is not the empty string, which
  \<open>idSchema\<close> refuses.
\<close>

inductive org_reach :: "org_state \<Rightarrow> bool" where
  org_start: "units s = [] \<Longrightarrow> org_reach s"
| org_create: "org_reach s \<Longrightarrow> newId \<notin> ou_id ` set (units s) \<Longrightarrow> id_ok newId \<Longrightarrow>
    ci_parentId input \<noteq> Some [] \<Longrightarrow> org_reach (snd (create_org_unit newId input s))"
| org_update: "org_reach s \<Longrightarrow> org_reach (snd (update_org_unit i change s))"
| org_move: "org_reach s \<Longrightarrow> org_reach (snd (move_org_unit i pid reason s))"
| org_remove: "org_reach s \<Longrightarrow> org_reach (snd (remove_org_unit i s))"

lemma org_reach_tree_ok: "org_reach s \<Longrightarrow> tree_ok (units s)"
proof (induction rule: org_reach.induct)
  case (org_start s)
  then show ?case by (simp add: tree_ok_def keys_unique_def)
qed (simp_all add: create_org_unit_tree_ok update_org_unit_tree_ok move_org_unit_tree_ok
  remove_org_unit_tree_ok)

text \<open>A small tree, built by the operations, for the witnesses.\<close>

definition demo_create :: "string \<Rightarrow> org_unit_type \<Rightarrow> string option \<Rightarrow> create_org_unit_input" where
  "demo_create c t p = \<lparr>ci_code = c, ci_name = c, ci_type = t, ci_parentId = p\<rparr>"

definition demo_org :: org_state where
  "demo_org =
    snd (create_org_unit ''t1'' (demo_create ''T1'' TEAM_UNIT (Some ''b1''))
    (snd (create_org_unit ''b1'' (demo_create ''B1'' BRANCH_UNIT (Some ''c1''))
    (snd (create_org_unit ''z1'' (demo_create ''Z1'' ZONE_UNIT (Some ''c1''))
    (snd (create_org_unit ''c1'' (demo_create ''C1'' COMPANY None)
      \<lparr>units = [], org_users = [], org_leads = [], org_audit = []\<rparr>)))))))"

definition demo_unit :: "string \<Rightarrow> string \<Rightarrow> org_unit_type \<Rightarrow> string option \<Rightarrow> string \<Rightarrow> org_unit" where
  "demo_unit i c t p path = \<lparr>ou_id = i, ou_code = c, ou_name = c, ou_type = t, ou_parentId = p,
     ou_path = path, ou_isActive = True, ou_canAccessEvents = False\<rparr>"

lemmas create_org_unit_eval = create_org_unit_def demo_create_def truthy_def buildPath_def canParent_def
  update_by_def update_where_def insert_row_def audit_entry_def

lemma demo_org_units: "units demo_org =
    [demo_unit ''c1'' ''C1'' COMPANY None ''/c1/'',
     demo_unit ''z1'' ''Z1'' ZONE_UNIT (Some ''c1'') ''/c1/z1/'',
     demo_unit ''b1'' ''B1'' BRANCH_UNIT (Some ''c1'') ''/c1/b1/'',
     demo_unit ''t1'' ''T1'' TEAM_UNIT (Some ''b1'') ''/c1/b1/t1/'']"
  by (simp add: demo_org_def create_org_unit_eval demo_unit_def)

lemma id_ok_demo: "id_ok ''c1''" "id_ok ''z1''" "id_ok ''b1''" "id_ok ''t1''" "id_ok ''x1''"
  by (simp_all add: id_ok_def id_char_def is_digit_def is_lower_def is_upper_def)

lemma demo_org_reach: "org_reach demo_org"
  unfolding demo_org_def
  by (intro org_create org_start) (simp_all add: create_org_unit_eval id_ok_demo)

lemma demo_org_tree_ok: "tree_ok (units demo_org)"
  by (rule org_reach_tree_ok [OF demo_org_reach])

text \<open>
  C1. In every state the tree service reaches by creating, updating, moving and removing units,
  identifiers are unique, every non-root unit hangs under an existing unit that may hold its
  type, and its materialised path is exactly its parent's path extended by its own id.
\<close>

theorem org_tree_invariant: "org_reach s \<Longrightarrow> tree_ok (units s)"
  by (rule org_reach_tree_ok)

lemma org_tree_invariant_witness:
  "tree_ok (units (snd (move_org_unit ''b1'' ''z1'' ''reorganised'' demo_org)))"
  by (rule org_tree_invariant) (intro org_move demo_org_reach)

text \<open>
  C2. The prefix test that every data scope is resolved with means \<open>in the subtree of\<close>: in a
  reachable tree a unit's path is a prefix of another's exactly when following parent links from
  the second arrives at the first.
\<close>

theorem prefix_is_subtree:
  "org_reach s \<Longrightarrow> a \<in> set (units s) \<Longrightarrow> b \<in> set (units s) \<Longrightarrow>
    prefix (ou_path a) (ou_path b) \<longleftrightarrow> below (units s) (ou_id b) (ou_id a)"
  by (rule prefix_iff_below [OF org_reach_tree_ok])

lemma prefix_is_subtree_witness:
  "below (units demo_org) ''t1'' ''c1'' \<and> \<not> below (units demo_org) ''t1'' ''z1''"
  using prefix_is_subtree [OF demo_org_reach, of "demo_unit ''c1'' ''C1'' COMPANY None ''/c1/''"
      "demo_unit ''t1'' ''T1'' TEAM_UNIT (Some ''b1'') ''/c1/b1/t1/''"]
    prefix_is_subtree [OF demo_org_reach, of "demo_unit ''z1'' ''Z1'' ZONE_UNIT (Some ''c1'') ''/c1/z1/''"
      "demo_unit ''t1'' ''T1'' TEAM_UNIT (Some ''b1'') ''/c1/b1/t1/''"]
  by (simp add: demo_org_units demo_unit_def)

text \<open>
  What a move changes, for every pair of units: inside the moved subtree relations are as
  before, a unit outside it now covers the subtree's units exactly when it covered the new
  parent, and nothing else changes.
\<close>

theorem move_visibility:
  assumes "tree_ok (units s)" and "find_by ou_id i (units s) = Some u"
    and "find_by ou_id pid (units s) = Some p"
    and "canParent (ou_type u) (ou_type p)" and "ou_parentId u \<noteq> Some pid"
  shows "\<exists>g. units (snd (move_org_unit i pid reason s)) = map g (units s) \<and>
    (\<forall>a \<in> set (units s). \<forall>b \<in> set (units s). ou_id (g a) = ou_id a \<and>
      prefix (ou_path (g a)) (ou_path (g b)) =
      (if prefix (ou_path u) (ou_path b)
       then (if prefix (ou_path u) (ou_path a) then prefix (ou_path a) (ou_path b)
             else prefix (ou_path a) (ou_path p))
       else prefix (ou_path a) (ou_path b)))"
proof -
  have mem: "u \<in> set (units s)" "p \<in> set (units s)" "ou_id p = pid"
    using find_by_SomeD [OF assms(2)] find_by_SomeD [OF assms(3)] by auto
  have np: "\<not> prefix (ou_path u) (ou_path p)"
    by (rule canParent_not_prefix [OF assms(1) mem(1,2) assms(4)])
  have allowed: "move_allowed (units s) u p"
    using assms mem np by (simp add: move_allowed_def)
  have eq: "units (snd (move_org_unit i pid reason s)) = map (moved_row u p) (units s)"
    using assms mem np move_write_map [OF assms(1) mem(1,2)]
    by (simp add: move_org_unit_def Let_def wouldCreateCycle_def)
  show ?thesis
    by (rule exI [of _ "moved_row u p"]) (simp add: eq moved_row_visible [OF allowed])
qed

lemma move_visibility_witness:
  "\<exists>g. units (snd (move_org_unit ''b1'' ''z1'' ''reorganised'' demo_org)) = map g (units demo_org) \<and>
    prefix (ou_path (g (demo_unit ''z1'' ''Z1'' ZONE_UNIT (Some ''c1'') ''/c1/z1/'')))
      (ou_path (g (demo_unit ''t1'' ''T1'' TEAM_UNIT (Some ''b1'') ''/c1/b1/t1/'')))"
proof -
  have "\<exists>g. units (snd (move_org_unit ''b1'' ''z1'' ''reorganised'' demo_org)) = map g (units demo_org) \<and>
    (\<forall>a \<in> set (units demo_org). \<forall>b \<in> set (units demo_org). ou_id (g a) = ou_id a \<and>
      prefix (ou_path (g a)) (ou_path (g b)) =
      (if prefix ''/c1/b1/'' (ou_path b)
       then (if prefix ''/c1/b1/'' (ou_path a) then prefix (ou_path a) (ou_path b)
             else prefix (ou_path a) ''/c1/z1/'')
       else prefix (ou_path a) (ou_path b)))"
    using move_visibility [OF demo_org_tree_ok,
      of "''b1''" "demo_unit ''b1'' ''B1'' BRANCH_UNIT (Some ''c1'') ''/c1/b1/''" "''z1''"
        "demo_unit ''z1'' ''Z1'' ZONE_UNIT (Some ''c1'') ''/c1/z1/''" "''reorganised''"]
    by (simp add: demo_org_units demo_unit_def canParent_def)
  then show ?thesis
    by (elim exE conjE) (intro exI conjI, assumption, simp add: demo_org_units demo_unit_def)
qed

text \<open>
  A move checks the paths it read before its transaction. When another move of the new parent is
  written between the read and the write, the rows keep a stale path: here the team is moved to
  the branch \<open>x1\<close>, read under the company, while \<open>x1\<close> itself is moved under the zone.
\<close>

definition stale_rows :: "org_unit list" where
  "stale_rows = units demo_org @ [demo_unit ''x1'' ''X1'' BRANCH_UNIT (Some ''c1'') ''/c1/x1/'']"

definition interleaved_moves :: "org_unit list" where
  "interleaved_moves =
    move_write (demo_unit ''t1'' ''T1'' TEAM_UNIT (Some ''b1'') ''/c1/b1/t1/'')
      (demo_unit ''x1'' ''X1'' BRANCH_UNIT (Some ''c1'') ''/c1/x1/'')
    (move_write (demo_unit ''x1'' ''X1'' BRANCH_UNIT (Some ''c1'') ''/c1/x1/'')
      (demo_unit ''z1'' ''Z1'' ZONE_UNIT (Some ''c1'') ''/c1/z1/'') stale_rows)"

lemma interleaved_moves_rows: "interleaved_moves =
    [demo_unit ''c1'' ''C1'' COMPANY None ''/c1/'',
     demo_unit ''z1'' ''Z1'' ZONE_UNIT (Some ''c1'') ''/c1/z1/'',
     demo_unit ''b1'' ''B1'' BRANCH_UNIT (Some ''c1'') ''/c1/b1/'',
     demo_unit ''t1'' ''T1'' TEAM_UNIT (Some ''x1'') ''/c1/x1/t1/'',
     demo_unit ''x1'' ''X1'' BRANCH_UNIT (Some ''z1'') ''/c1/z1/x1/'']"
  by (simp add: interleaved_moves_def stale_rows_def demo_org_units move_write_def demo_unit_def
      update_by_def update_where_def buildPath_def truthy_def)

text \<open>
  The move's check and its write are not one atomic step: with the rows of both moves read
  first, two allowed moves written one after the other leave a unit whose path is not its
  parent's extended by its id, although the tree was well formed before.
\<close>

theorem interleaved_moves_leave_stale_path: "tree_ok stale_rows \<and> \<not> tree_ok interleaved_moves"
proof
  have "tree_ok (insert_row (demo_unit ''x1'' ''X1'' BRANCH_UNIT (Some ''c1'') ''/c1/x1/'') (units demo_org))"
    by (rule tree_ok_insert [OF demo_org_tree_ok])
      (auto simp: demo_org_units unit_ok_def id_ok_demo demo_unit_def canParent_def)
  then show "tree_ok stale_rows" by (simp add: stale_rows_def insert_row_def)
  show "\<not> tree_ok interleaved_moves"
    by (simp add: tree_ok_def interleaved_moves_rows unit_ok_def demo_unit_def)
qed

end
