(* ===== verification/Accounts.thy ===== *)
theory Accounts
  imports Rbac OrgTree
begin

text \<open>
  The account rows the sign-in, scope and user-administration services share: the \<open>User\<close>,
  \<open>Session\<close>, \<open>Designation\<close> and \<open>Role\<close> columns they read and write, and the rebuilding of the
  caller on every request (\<open>apps/api/src/modules/auth/principal.service.ts\<close>,
  \<open>apps/api/src/common/event-access.ts\<close>, \<open>common/guards/jwt-auth.guard.ts\<close>). A user's row
  carries its role rows, each with the permissions the database stores for it.
\<close>

section \<open>Rows\<close>

datatype user_status = INVITED | ACTIVE | SUSPENDED | LOCKED | DISABLED

record role_row =
  rr_code :: role
  rr_permissions :: "permission list"

record account =
  u_id :: string
  u_firstName :: string
  u_lastName :: string
  u_email :: string
  u_mobile :: "string option"
  u_employeeCode :: "string option"
  u_passwordHash :: "string option"
  u_userType :: user_type
  u_status :: user_status
  u_dataScope :: "data_scope option"
  u_orgUnitId :: "string option"
  u_managerId :: "string option"
  u_designationId :: "string option"
  u_partnerId :: "string option"
  u_roles :: "role_row list"
  u_mustChangePassword :: bool
  u_passwordChangedAt :: "time option"
  u_failedLoginAttempts :: nat
  u_lockedUntil :: "time option"
  u_lastLoginAt :: "time option"
  u_mfaEnabled :: bool
  u_mfaSecret :: "string option"
  u_deletedAt :: "time option"

datatype revoked_reason =
    ROTATED | TOKEN_REUSE_DETECTED | IDLE_TIMEOUT | USER_LOGOUT | USER_LOGOUT_ALL
  | PASSWORD_CHANGED | PASSWORD_RESET | OFFBOARDED | USER_DEACTIVATED | CREDENTIALS_REISSUED

record session =
  se_id :: string
  se_userId :: string
  se_refreshTokenHash :: string
  se_expiresAt :: time
  se_revokedAt :: "time option"
  se_revokedReason :: "revoked_reason option"
  se_lastSeenAt :: time
  se_replacedById :: "string option"

text \<open>The switch a hierarchy level carries; the rest of the designation is in the user theory.\<close>

record level_switch =
  ls_id :: string
  ls_canAccessEvents :: bool
  ls_isActive :: bool

definition role_codes :: "account \<Rightarrow> role list" where
  "role_codes u = map rr_code (u_roles u)"

definition role_permissions :: "account \<Rightarrow> permission list" where
  "role_permissions u = js_set (concat (map rr_permissions (u_roles u)))"

interpretation accounts: repository "find_by u_id" "update_by u_id" insert_row u_id
  by (rule repository_by)

interpretation sessions: repository "find_by se_id" "update_by se_id" insert_row se_id
  by (rule repository_by)

section \<open>Event access\<close>

text \<open>How many units of a chain of identifiers have their switch on and are active.\<close>

definition opened_units :: "org_unit list \<Rightarrow> string list \<Rightarrow> nat" where
  "opened_units rows chain =
    count_where (\<lambda>r. ou_id r \<in> set chain \<and> ou_canAccessEvents r \<and> ou_isActive r) rows"

definition hasEventAccess ::
  "level_switch list \<Rightarrow> org_unit list \<Rightarrow> string option \<Rightarrow> string option \<Rightarrow> bool" where
  "hasEventAccess levels rows designationId orgUnitId =
    (if \<not> truthy designationId \<or> \<not> truthy orgUnitId then False
     else case find_by ls_id (the designationId) levels of
            None \<Rightarrow> False
          | Some d \<Rightarrow>
              (if \<not> ls_isActive d \<or> \<not> ls_canAccessEvents d then False
               else case find_by ou_id (the orgUnitId) rows of
                      None \<Rightarrow> False
                    | Some r \<Rightarrow>
                        (let chain = pathIds (ou_path r)
                         in if chain = [] then False else opened_units rows chain > 0)))"

section \<open>The caller of a request\<close>

record directory =
  dir_users :: "account list"
  dir_sessions :: "session list"
  dir_levels :: "level_switch list"
  dir_units :: "org_unit list"

definition session_live :: "time \<Rightarrow> session \<Rightarrow> bool" where
  "session_live now e \<longleftrightarrow> se_revokedAt e = None \<and> now < se_expiresAt e"

definition event_grant :: "directory \<Rightarrow> account \<Rightarrow> permission list" where
  "event_grant d u =
    (case (Option.bind (u_designationId u) (\<lambda>i. find_by ls_id i (dir_levels d)),
           Option.bind (u_orgUnitId u) (\<lambda>i. find_by ou_id i (dir_units d))) of
       (Some l, Some r) \<Rightarrow>
         (if ls_isActive l \<and> ls_canAccessEvents l
          then (let chain = pathIds (ou_path r)
                in if chain \<noteq> [] \<and> opened_units (dir_units d) chain > 0 then [''event:view''] else [])
          else [])
     | _ \<Rightarrow> [])"

text \<open>
  The principal, or nothing when the account is deleted or not active, or its session is not
  live. The session row is touched, which is what the idle timeout measures against.
\<close>

definition resolve_principal ::
  "string \<Rightarrow> string \<Rightarrow> time \<Rightarrow> directory \<Rightarrow> principal option \<times> directory" where
  "resolve_principal userId sessionId now d =
    (case find (\<lambda>u. u_id u = userId \<and> u_deletedAt u = None) (dir_users d) of
       None \<Rightarrow> (None, d)
     | Some u \<Rightarrow>
         (if u_status u \<noteq> ACTIVE then (None, d)
          else case find (\<lambda>e. se_id e = sessionId \<and> se_userId e = userId \<and> session_live now e) (dir_sessions d) of
                 None \<Rightarrow> (None, d)
               | Some e \<Rightarrow>
                   (let permissions = role_permissions u;
                        granted = (if ''event:view'' \<in> set permissions then permissions
                                   else permissions @ event_grant d u)
                    in (Some \<lparr>pr_id = u_id u, pr_email = u_email u, pr_userType = u_userType u,
                          pr_roles = role_codes u, pr_permissions = granted,
                          pr_dataScope = effectiveScope (role_codes u) (u_dataScope u),
                          pr_orgUnitId = u_orgUnitId u,
                          pr_orgUnitPath =
                            Option.bind (u_orgUnitId u) (\<lambda>i. map_option ou_path (find_by ou_id i (dir_units d))),
                          pr_teamUserIds =
                            map u_id (filter (\<lambda>v. u_managerId v = Some (u_id u) \<and> u_deletedAt v = None) (dir_users d)),
                          pr_partnerId = u_partnerId u, pr_sessionId = sessionId,
                          pr_mustChangePassword = u_mustChangePassword u, pr_isService = False\<rparr>,
                        d\<lparr>dir_sessions :=
                            update_by se_id sessionId (\<lambda>e. e\<lparr>se_lastSeenAt := now\<rparr>) (dir_sessions d)\<rparr>))))"

section \<open>The authentication guard\<close>

text \<open>
  What a route declares, and what a request carries: a machine key, a bearer token, or nothing.
  \<open>verify_token\<close> is the token library's check of signature, issuer, audience and expiry.
\<close>

record route =
  rt_isPublic :: bool
  rt_allowService :: bool
  rt_allowPendingPassword :: bool

record request =
  rq_apiKey :: "string option"
  rq_token :: "string option"

definition jwt_guard ::
  "(string \<Rightarrow> (string \<times> string) option) \<Rightarrow> (string \<Rightarrow> string \<Rightarrow> bool) \<Rightarrow> service_account list \<Rightarrow>
    route \<Rightarrow> request \<Rightarrow> time \<Rightarrow> directory \<Rightarrow>
    (principal option) result \<times> service_account list \<times> directory" where
  "jwt_guard verify_token hash_ok machines rt rq now d =
    (if rt_isPublic rt then (Inr None, machines, d)
     else if truthy (rq_apiKey rq)
       then (if \<not> rt_allowService rt
             then (Inl (Forbidden ''Not available to service accounts''), machines, d)
             else case verify_service_key hash_ok machines now (the (rq_apiKey rq)) of
                    (None, machines') \<Rightarrow> (Inl (Unauthorized ''Service key rejected''), machines', d)
                  | (Some p, machines') \<Rightarrow> (Inr (Some p), machines', d))
     else if \<not> truthy (rq_token rq)
       then (Inl (Unauthorized ''Authentication required''), machines, d)
     else case verify_token (the (rq_token rq)) of
            None \<Rightarrow> (Inl (Unauthorized ''Invalid or expired token''), machines, d)
          | Some (sub, sid) \<Rightarrow>
              (case resolve_principal sub sid now d of
                 (None, d') \<Rightarrow> (Inl (Unauthorized ''Session is no longer valid''), machines, d')
               | (Some p, d') \<Rightarrow>
                   (if pr_mustChangePassword p \<and> \<not> rt_allowPendingPassword rt
                    then (Inl (Forbidden ''Password change required''), machines, d')
                    else (Inr (Some p), machines, d'))))"

section \<open>What the guard lets through\<close>

lemma event_grant_iff:
  assumes "u_designationId u \<noteq> Some []" and "u_orgUnitId u \<noteq> Some []"
  shows "''event:view'' \<in> set (event_grant d u) \<longleftrightarrow>
    hasEventAccess (dir_levels d) (dir_units d) (u_designationId u) (u_orgUnitId u)"
proof (cases "u_designationId u")
  case None
  then show ?thesis by (simp add: event_grant_def hasEventAccess_def truthy_def)
next
  case (Some i)
  note i = Some
  show ?thesis
  proof (cases "u_orgUnitId u")
    case None
    then show ?thesis using i by (simp add: event_grant_def hasEventAccess_def truthy_def split: option.split)
  next
    case (Some j)
    then show ?thesis
      using i assms
      by (auto simp: event_grant_def hasEventAccess_def truthy_def Let_def split: option.split)
  qed
qed

lemma resolve_principalD:
  assumes "resolve_principal i sid now d = (Some p, d')"
  obtains u e where "u \<in> set (dir_users d)" and "u_id u = i" and "u_deletedAt u = None"
    and "u_status u = ACTIVE" and "e \<in> set (dir_sessions d)" and "se_id e = sid" and "se_userId e = i"
    and "session_live now e" and "pr_id p = i" and "pr_sessionId p = sid"
    and "pr_permissions p = (if ''event:view'' \<in> set (role_permissions u) then role_permissions u
           else role_permissions u @ event_grant d u)"
    and "pr_dataScope p = effectiveScope (role_codes u) (u_dataScope u)"
    and "find (\<lambda>u. u_id u = i \<and> u_deletedAt u = None) (dir_users d) = Some u"
proof -
  obtain u where u: "find (\<lambda>u. u_id u = i \<and> u_deletedAt u = None) (dir_users d) = Some u"
    using assms by (auto simp: resolve_principal_def split: option.splits)
  have act: "u_status u = ACTIVE"
    using assms u by (auto simp: resolve_principal_def split: if_splits)
  obtain e where e: "find (\<lambda>e. se_id e = sid \<and> se_userId e = i \<and> session_live now e) (dir_sessions d) = Some e"
    using assms u act by (auto simp: resolve_principal_def split: option.splits)
  have u': "u \<in> set (dir_users d)" "u_id u = i" "u_deletedAt u = None"
    using u by (auto simp: find_Some_iff)
  have e': "e \<in> set (dir_sessions d)" "se_id e = sid" "se_userId e = i" "session_live now e"
    using e by (auto simp: find_Some_iff)
  show thesis
    using assms u e act u'
    by (intro that [OF u' act e' _ _ _ _ u]) (auto simp: resolve_principal_def Let_def)
qed


lemma opened_units_pos:
  "opened_units rows chain > 0 \<longleftrightarrow>
    (\<exists>a \<in> set rows. ou_id a \<in> set chain \<and> ou_canAccessEvents a \<and> ou_isActive a)"
  using count_where_0_iff [of "\<lambda>r. ou_id r \<in> set chain \<and> ou_canAccessEvents r \<and> ou_isActive r" rows]
  by (auto simp: opened_units_def)

lemma hasEventAccess_tree:
  assumes t: "tree_ok rows" and l: "keys_unique ls_id levels" and "i \<noteq> []" and "j \<noteq> []"
  shows "hasEventAccess levels rows (Some i) (Some j) \<longleftrightarrow>
    (\<exists>l \<in> set levels. ls_id l = i \<and> ls_isActive l \<and> ls_canAccessEvents l) \<and>
    (\<exists>a \<in> set rows. below rows j (ou_id a) \<and> ou_canAccessEvents a \<and> ou_isActive a)"
proof (cases "find_by ls_id i levels")
  case None
  then have "\<not> (\<exists>l \<in> set levels. ls_id l = i)" by (auto simp: find_by_None_iff)
  then show ?thesis using None assms(3,4) by (auto simp: hasEventAccess_def truthy_def)
next
  case (Some lv)
  then have lv: "(\<exists>l \<in> set levels. ls_id l = i \<and> ls_isActive l \<and> ls_canAccessEvents l) \<longleftrightarrow>
      ls_isActive lv \<and> ls_canAccessEvents lv"
    using find_by_same [OF l Some] find_by_SomeD [OF Some] by auto
  show ?thesis
  proof (cases "find_by ou_id j rows")
    case None
    then have "\<not> below rows j a" for a
      by (auto simp: find_by_None_iff elim: below.cases)
    then show ?thesis using None Some assms(3,4) by (simp add: hasEventAccess_def truthy_def)
  next
    case (Some r)
    then have r: "r \<in> set rows" "ou_id r = j" using find_by_SomeD by fastforce+
    have "j \<in> set (pathIds (ou_path r))"
      using pathIds_below [OF t r(1), of j] below_refl [OF r(1)] r(2) by simp
    then show ?thesis
      using Some \<open>find_by ls_id i levels = Some lv\<close> assms(3,4) lv pathIds_below [OF t r(1)] r(2)
      by (auto simp: hasEventAccess_def truthy_def Let_def opened_units_pos)
  qed
qed

text \<open>
  The two places that decide event access agree, and mean what the two switches promise: the
  caller rebuilt for a request holds \<open>event:view\<close> without a role that grants it exactly when the
  helper for other people's access would say yes, that is when their active level has the switch
  on and so does an active unit at or above their own in the tree.
\<close>

theorem event_view_by_switches:
  assumes "tree_ok (dir_units d)" and "keys_unique ls_id (dir_levels d)" and "keys_unique u_id (dir_users d)"
    and "u \<in> set (dir_users d)" and "u_designationId u = Some i" and "i \<noteq> []"
    and "u_orgUnitId u = Some j" and "j \<noteq> []" and "''event:view'' \<notin> set (role_permissions u)"
    and "resolve_principal (u_id u) sid now d = (Some p, d')"
  shows "(''event:view'' \<in> set (pr_permissions p) \<longleftrightarrow>
      hasEventAccess (dir_levels d) (dir_units d) (Some i) (Some j)) \<and>
    (''event:view'' \<in> set (pr_permissions p) \<longleftrightarrow>
      (\<exists>l \<in> set (dir_levels d). ls_id l = i \<and> ls_isActive l \<and> ls_canAccessEvents l) \<and>
      (\<exists>a \<in> set (dir_units d). below (dir_units d) j (ou_id a) \<and> ou_canAccessEvents a \<and> ou_isActive a))"
proof -
  obtain v where v: "v \<in> set (dir_users d)" "u_id v = u_id u"
    "pr_permissions p = (if ''event:view'' \<in> set (role_permissions v) then role_permissions v
           else role_permissions v @ event_grant d v)"
    by (rule resolve_principalD [OF assms(10)]) blast
  have "v = u" using assms(3,4) v(1,2) by (auto simp: keys_unique_def dest: distinct_map [THEN iffD1] inj_onD)
  then have "''event:view'' \<in> set (pr_permissions p) \<longleftrightarrow> ''event:view'' \<in> set (event_grant d u)"
    using v(3) assms(9) by simp
  also have "\<dots> \<longleftrightarrow> hasEventAccess (dir_levels d) (dir_units d) (Some i) (Some j)"
    using event_grant_iff [of u d] assms(5-8) by simp
  finally show ?thesis
    using hasEventAccess_tree [OF assms(1,2,6,8)] by simp
qed

definition demo_account :: "string \<Rightarrow> account" where
  "demo_account i =
    \<lparr>u_id = i, u_firstName = ''Asha'', u_lastName = ''Rao'', u_email = i @ ''@sihl.in'', u_mobile = None,
     u_employeeCode = None, u_passwordHash = Some ''pw'', u_userType = INTERNAL_USER, u_status = ACTIVE,
     u_dataScope = None, u_orgUnitId = Some ''b1'', u_managerId = None, u_designationId = Some ''d1'',
     u_partnerId = None, u_roles = [\<lparr>rr_code = SALES_EXECUTIVE, rr_permissions = [''lead:read'']\<rparr>],
     u_mustChangePassword = False, u_passwordChangedAt = None, u_failedLoginAttempts = 0,
     u_lockedUntil = None, u_lastLoginAt = None, u_mfaEnabled = False, u_mfaSecret = None,
     u_deletedAt = None\<rparr>"

definition demo_session :: "string \<Rightarrow> string \<Rightarrow> session" where
  "demo_session i u = \<lparr>se_id = i, se_userId = u, se_refreshTokenHash = ''h'' @ i, se_expiresAt = 1000000,
     se_revokedAt = None, se_revokedReason = None, se_lastSeenAt = 0, se_replacedById = None\<rparr>"

definition demo_directory :: directory where
  "demo_directory = \<lparr>dir_users = [demo_account ''u1''], dir_sessions = [demo_session ''s1'' ''u1''],
     dir_levels = [\<lparr>ls_id = ''d1'', ls_canAccessEvents = True, ls_isActive = True\<rparr>],
     dir_units = units (snd (update_org_unit ''c1''
       \<lparr>ui_name = None, ui_isActive = None, ui_canAccessEvents = Some True\<rparr> demo_org))\<rparr>"

lemma demo_directory_units: "dir_units demo_directory =
    [(demo_unit ''c1'' ''C1'' COMPANY None ''/c1/'')\<lparr>ou_canAccessEvents := True\<rparr>,
     demo_unit ''z1'' ''Z1'' ZONE_UNIT (Some ''c1'') ''/c1/z1/'',
     demo_unit ''b1'' ''B1'' BRANCH_UNIT (Some ''c1'') ''/c1/b1/'',
     demo_unit ''t1'' ''T1'' TEAM_UNIT (Some ''b1'') ''/c1/b1/t1/'']"
  by (simp add: demo_directory_def update_org_unit_def demo_org_units demo_unit_def
      apply_unit_update_def update_by_def update_where_def)

lemma demo_directory_tree: "tree_ok (dir_units demo_directory)"
  by (simp add: demo_directory_def update_org_unit_tree_ok demo_org_tree_ok)

lemma demo_resolve: "\<exists>p d'. resolve_principal ''u1'' ''s1'' 5 demo_directory = (Some p, d')"
  by (simp add: resolve_principal_def demo_directory_def demo_account_def demo_session_def session_live_def Let_def)

lemma event_view_by_switches_witness:
  "\<exists>p d'. resolve_principal ''u1'' ''s1'' 5 demo_directory = (Some p, d') \<and>
    ''event:view'' \<in> set (pr_permissions p)"
proof -
  obtain p d' where p: "resolve_principal (u_id (demo_account ''u1'')) ''s1'' 5 demo_directory = (Some p, d')"
    using demo_resolve by (auto simp: demo_account_def)
  have eq: "''event:view'' \<in> set (pr_permissions p) \<longleftrightarrow>
      hasEventAccess (dir_levels demo_directory) (dir_units demo_directory) (Some ''d1'') (Some ''b1'')"
    by (rule event_view_by_switches [OF demo_directory_tree _ _ _ _ _ _ _ _ p, THEN conjunct1])
      (simp_all add: demo_directory_def demo_account_def keys_unique_def role_permissions_def js_set_def)
  have "hasEventAccess (dir_levels demo_directory) (dir_units demo_directory) (Some ''d1'') (Some ''b1'')"
    unfolding demo_directory_units
    by (simp add: hasEventAccess_def truthy_def demo_directory_def demo_unit_def pathIds_def
        opened_units_def count_where_def)
  then show ?thesis using eq p by (auto simp: demo_account_def)
qed

text \<open>
  C3. A request with a bearer token reaches a protected route only as the person of an active,
  undeleted account whose session is live at that moment, with a scope no broader than the roles'
  defaults, with no permission beyond the roles' and the event grant, and with a pending password
  change only where the route allows it: revoking the session or suspending the account works on
  the next request, whatever the token still says.
\<close>

theorem guard_admits_only_live_sessions:
  assumes "\<not> rt_isPublic rt" and "\<not> truthy (rq_apiKey rq)"
    and "jwt_guard verify_token hash_ok machines rt rq now d = (Inr (Some p), machines', d')"
  shows "\<exists>tok sub sid u e. rq_token rq = Some tok \<and> verify_token tok = Some (sub, sid) \<and>
    u \<in> set (dir_users d) \<and> u_id u = sub \<and> u_deletedAt u = None \<and> u_status u = ACTIVE \<and>
    e \<in> set (dir_sessions d) \<and> se_id e = sid \<and> se_userId e = sub \<and> session_live now e \<and>
    pr_id p = sub \<and> pr_dataScope p \<le> broadest (role_codes u) \<and>
    set (pr_permissions p) \<subseteq> insert ''event:view'' (set (role_permissions u)) \<and>
    (pr_mustChangePassword p \<longrightarrow> rt_allowPendingPassword rt)"
proof -
  obtain tok where tok: "rq_token rq = Some tok"
    using assms by (cases "rq_token rq") (auto simp: jwt_guard_def truthy_def)
  obtain sub sid where c: "verify_token tok = Some (sub, sid)"
    using assms tok by (auto simp: jwt_guard_def split: option.splits if_splits)
  have res: "resolve_principal sub sid now d = (Some p, d')" and
    pend: "pr_mustChangePassword p \<longrightarrow> rt_allowPendingPassword rt"
    using assms tok c by (auto simp: jwt_guard_def split: option.splits if_splits prod.splits)
  obtain u e where u: "u \<in> set (dir_users d)" "u_id u = sub" "u_deletedAt u = None" "u_status u = ACTIVE"
    and e: "e \<in> set (dir_sessions d)" "se_id e = sid" "se_userId e = sub" "session_live now e"
    and p: "pr_id p = sub" "pr_permissions p = (if ''event:view'' \<in> set (role_permissions u) then role_permissions u
           else role_permissions u @ event_grant d u)"
      "pr_dataScope p = effectiveScope (role_codes u) (u_dataScope u)"
    by (rule resolve_principalD [OF res]) blast
  have "pr_dataScope p \<le> broadest (role_codes u)"
    using p(3) by (simp add: effectiveScope_min split: option.split)
  moreover have "set (event_grant d u) \<subseteq> {''event:view''}"
    by (auto simp: event_grant_def Let_def split: option.split)
  then have "set (pr_permissions p) \<subseteq> insert ''event:view'' (set (role_permissions u))"
    using p(2) by auto
  ultimately show ?thesis using tok c u e p(1) pend by blast
qed

lemma guard_admits_only_live_sessions_witness:
  "\<exists>p m d'. jwt_guard (\<lambda>t. Some (''u1'', t)) (\<lambda>_ _. False) []
      \<lparr>rt_isPublic = False, rt_allowService = False, rt_allowPendingPassword = False\<rparr>
      \<lparr>rq_apiKey = None, rq_token = Some ''s1''\<rparr> 5 demo_directory = (Inr (Some p), m, d') \<and>
    pr_dataScope p \<le> SELF"
proof -
  obtain p m d' where g: "jwt_guard (\<lambda>t. Some (''u1'', t)) (\<lambda>_ _. False) []
      \<lparr>rt_isPublic = False, rt_allowService = False, rt_allowPendingPassword = False\<rparr>
      \<lparr>rq_apiKey = None, rq_token = Some ''s1''\<rparr> 5 demo_directory = (Inr (Some p), m, d')"
    by (simp add: jwt_guard_def truthy_def resolve_principal_def demo_directory_def demo_account_def
        demo_session_def session_live_def Let_def)
  obtain u where "u \<in> set (dir_users demo_directory)" "pr_dataScope p \<le> broadest (role_codes u)"
    using guard_admits_only_live_sessions [OF _ _ g] by (auto simp: truthy_def)
  then have "pr_dataScope p \<le> SELF"
    by (simp add: demo_directory_def demo_account_def role_codes_def broadest_def)
  then show ?thesis using g by blast
qed

end
