(* ===== verification/Scope.thy ===== *)
theory Scope
  imports Accounts
begin

text \<open>
  Row filters: \<open>apps/api/src/common/scope.service.ts\<close>. A filter is the fragment of a query the
  service returns; \<open>matches\<close> is what the database makes of it on one row, with the tree rows the
  fragment's \<open>orgUnit\<close> relation is read through. A comparison with a null column is false, as in
  SQL.
\<close>

datatype scope_column =
  OwnerId | RelationshipManagerId | AssigneeId | CreatedById | UserId | PartnerId | Email

record scoped_row =
  sr_id :: string
  sr_column :: "scope_column \<Rightarrow> string option"
  sr_orgUnitId :: "string option"
  sr_attendees :: "string list"

datatype row_filter =
    Everything
  | IdIs string
  | ColumnIs scope_column string
  | ColumnIn scope_column "string list"
  | ColumnNull scope_column
  | OrgPathStartsWith string
  | AttendedBy string
  | AnyOf "row_filter list"
  | AllOf "row_filter list"

fun matches :: "org_unit list \<Rightarrow> row_filter \<Rightarrow> scoped_row \<Rightarrow> bool" where
  "matches rows Everything r \<longleftrightarrow> True"
| "matches rows (IdIs i) r \<longleftrightarrow> sr_id r = i"
| "matches rows (ColumnIs c v) r \<longleftrightarrow> sr_column r c = Some v"
| "matches rows (ColumnIn c vs) r \<longleftrightarrow>
     (case sr_column r c of None \<Rightarrow> False | Some v \<Rightarrow> v \<in> set vs)"
| "matches rows (ColumnNull c) r \<longleftrightarrow> sr_column r c = None"
| "matches rows (OrgPathStartsWith p) r \<longleftrightarrow>
     (case Option.bind (sr_orgUnitId r) (\<lambda>i. find_by ou_id i rows) of
        None \<Rightarrow> False | Some u \<Rightarrow> prefix p (ou_path u))"
| "matches rows (AttendedBy i) r \<longleftrightarrow> i \<in> set (sr_attendees r)"
| "matches rows (AnyOf fs) r \<longleftrightarrow> list_ex (\<lambda>f. matches rows f r) fs"
| "matches rows (AllOf fs) r \<longleftrightarrow> list_all (\<lambda>f. matches rows f r) fs"

definition NO_ACCESS :: row_filter where
  "NO_ACCESS = IdIs ''__no_access__''"

definition subtree_filter :: "principal \<Rightarrow> row_filter" where
  "subtree_filter user =
    (if truthy (pr_orgUnitPath user) then OrgPathStartsWith (the (pr_orgUnitPath user)) else NO_ACCESS)"

definition leadScope :: "principal \<Rightarrow> row_filter" where
  "leadScope user =
    (case pr_dataScope user of
       ALL_SCOPE \<Rightarrow> Everything
     | ZONE \<Rightarrow> subtree_filter user
     | REGION \<Rightarrow> subtree_filter user
     | BRANCH \<Rightarrow> subtree_filter user
     | TEAM \<Rightarrow>
         AnyOf [ColumnIn OwnerId (pr_id user # pr_teamUserIds user),
                (if truthy (pr_orgUnitPath user)
                 then AllOf [ColumnNull OwnerId, OrgPathStartsWith (the (pr_orgUnitPath user))]
                 else NO_ACCESS)]
     | SELF \<Rightarrow>
         (if truthy (pr_partnerId user) then ColumnIs PartnerId (the (pr_partnerId user))
          else ColumnIs OwnerId (pr_id user)))"

definition customerScope :: "principal \<Rightarrow> row_filter" where
  "customerScope user =
    (case pr_dataScope user of
       ALL_SCOPE \<Rightarrow> Everything
     | ZONE \<Rightarrow> subtree_filter user
     | REGION \<Rightarrow> subtree_filter user
     | BRANCH \<Rightarrow> subtree_filter user
     | TEAM \<Rightarrow> ColumnIn RelationshipManagerId (pr_id user # pr_teamUserIds user)
     | SELF \<Rightarrow>
         (if pr_userType user = CUSTOMER_USER then ColumnIs Email (pr_email user)
          else if truthy (pr_partnerId user) then ColumnIs PartnerId (the (pr_partnerId user))
          else ColumnIs RelationshipManagerId (pr_id user)))"

definition orAttended :: "row_filter \<Rightarrow> principal \<Rightarrow> row_filter" where
  "orAttended base user =
    (if base = Everything then base else AnyOf [base, AttendedBy (pr_id user)])"

definition taskBase :: "principal \<Rightarrow> row_filter" where
  "taskBase user =
    (case pr_dataScope user of
       ALL_SCOPE \<Rightarrow> Everything
     | SELF \<Rightarrow> AnyOf [ColumnIs AssigneeId (pr_id user), ColumnIs CreatedById (pr_id user)]
     | _ \<Rightarrow> ColumnIn AssigneeId (pr_id user # pr_teamUserIds user))"

definition taskScope :: "principal \<Rightarrow> row_filter" where
  "taskScope user = orAttended (taskBase user) user"

definition visitBase :: "principal \<Rightarrow> row_filter" where
  "visitBase user =
    (case pr_dataScope user of
       ALL_SCOPE \<Rightarrow> Everything
     | SELF \<Rightarrow> ColumnIs UserId (pr_id user)
     | _ \<Rightarrow> ColumnIn UserId (pr_id user # pr_teamUserIds user))"

definition visitScope :: "principal \<Rightarrow> row_filter" where
  "visitScope user = orAttended (visitBase user) user"

definition canAssignTo :: "principal \<Rightarrow> string \<Rightarrow> bool" where
  "canAssignTo user targetUserId =
    (if pr_dataScope user = ALL_SCOPE then True
     else if pr_dataScope user = SELF then targetUserId = pr_id user
     else targetUserId = pr_id user \<or> targetUserId \<in> set (pr_teamUserIds user))"

section \<open>What the filters let a caller see\<close>

lemma tree_path_truthy: "tree_ok rows \<Longrightarrow> a \<in> set rows \<Longrightarrow> truthy (Some (ou_path a))"
  by (erule (1) tree_path_chain) (simp add: truthy_def encode_path_def)

lemma matches_subtree:
  assumes t: "tree_ok rows" and a: "a \<in> set rows" and p: "pr_orgUnitPath user = Some (ou_path a)"
  shows "matches rows (subtree_filter user) r \<longleftrightarrow>
    (\<exists>b \<in> set rows. sr_orgUnitId r = Some (ou_id b) \<and> below rows (ou_id b) (ou_id a))"
proof -
  have k: "keys_unique ou_id rows" using t by (simp add: tree_ok_def)
  have f: "subtree_filter user = OrgPathStartsWith (ou_path a)"
    using tree_path_truthy [OF t a] p by (simp add: subtree_filter_def)
  show ?thesis
  proof (cases "Option.bind (sr_orgUnitId r) (\<lambda>i. find_by ou_id i rows)")
    case None
    then have "\<not> (\<exists>b \<in> set rows. sr_orgUnitId r = Some (ou_id b))"
      using find_by_unique [OF k] by auto
    then show ?thesis using None f by auto
  next
    case (Some b)
    then obtain i where i: "sr_orgUnitId r = Some i" "find_by ou_id i rows = Some b"
      by (cases "sr_orgUnitId r") auto
    have b: "b \<in> set rows" "ou_id b = i" using find_by_SomeD [OF i(2)] by auto
    have "matches rows (subtree_filter user) r \<longleftrightarrow> below rows (ou_id b) (ou_id a)"
      using f Some prefix_iff_below [OF t a b(1)] by simp
    then show ?thesis using i(1) b by auto
  qed
qed

text \<open>
  A caller scoped to a zone, region or branch sees exactly the leads and customers that
  belong to a unit at or below their own in the organisation tree; one without a place in the
  tree sees none.
\<close>

theorem org_scope_is_subtree:
  assumes "org_reach s" and "pr_dataScope user \<in> {ZONE, REGION, BRANCH}" and "sr_id r \<noteq> ''__no_access__''"
    and "case pr_orgUnitPath user of None \<Rightarrow> True | Some p \<Rightarrow> a \<in> set (units s) \<and> p = ou_path a"
  shows "(matches (units s) (leadScope user) r \<longleftrightarrow>
      pr_orgUnitPath user \<noteq> None \<and>
      (\<exists>b \<in> set (units s). sr_orgUnitId r = Some (ou_id b) \<and> below (units s) (ou_id b) (ou_id a))) \<and>
    (matches (units s) (customerScope user) r \<longleftrightarrow> matches (units s) (leadScope user) r)"
proof -
  have eq: "leadScope user = subtree_filter user" "customerScope user = subtree_filter user"
    using assms(2) by (auto simp: leadScope_def customerScope_def)
  show ?thesis
  proof (cases "pr_orgUnitPath user")
    case None
    then show ?thesis using assms(3) by (simp add: eq subtree_filter_def truthy_def NO_ACCESS_def)
  next
    case (Some p)
    then have a: "a \<in> set (units s)" "pr_orgUnitPath user = Some (ou_path a)" using assms(4) by auto
    show ?thesis
      unfolding eq matches_subtree [OF org_reach_tree_ok [OF assms(1)] a] using Some by simp
  qed
qed

definition demo_principal :: "data_scope \<Rightarrow> string option \<Rightarrow> principal" where
  "demo_principal scope path =
    \<lparr>pr_id = ''u1'', pr_email = ''u1'', pr_userType = INTERNAL_USER, pr_roles = [], pr_permissions = [],
     pr_dataScope = scope, pr_orgUnitId = None, pr_orgUnitPath = path, pr_teamUserIds = [''u2''],
     pr_partnerId = None, pr_sessionId = ''s1'', pr_mustChangePassword = False, pr_isService = False\<rparr>"

definition demo_lead_row :: "string option \<Rightarrow> string option \<Rightarrow> scoped_row" where
  "demo_lead_row owner ou = \<lparr>sr_id = ''l1'', sr_column = (\<lambda>c. if c = OwnerId then owner else None),
     sr_orgUnitId = ou, sr_attendees = []\<rparr>"

lemma org_scope_is_subtree_witness:
  "matches (units demo_org) (leadScope (demo_principal BRANCH (Some ''/c1/b1/''))) (demo_lead_row None (Some ''t1''))"
proof -
  have b: "below (units demo_org) ''t1'' ''b1''"
    using prefix_iff_below [OF demo_org_tree_ok, of "demo_unit ''b1'' ''B1'' BRANCH_UNIT (Some ''c1'') ''/c1/b1/''"
        "demo_unit ''t1'' ''T1'' TEAM_UNIT (Some ''b1'') ''/c1/b1/t1/''"]
    by (simp add: demo_org_units demo_unit_def)
  show ?thesis
    using org_scope_is_subtree [OF demo_org_reach, of "demo_principal BRANCH (Some ''/c1/b1/'')"
        "demo_lead_row None (Some ''t1'')" "demo_unit ''b1'' ''B1'' BRANCH_UNIT (Some ''c1'') ''/c1/b1/''"] b
    by (auto simp: demo_principal_def demo_lead_row_def demo_org_units demo_unit_def)
qed

text \<open>
  Handing a lead to somebody the assignment rule allows never hides it from the person who
  handed it over, for callers scoped to everything, to their team or to themselves: the lead with
  its new owner is still in the caller's own lead filter.
\<close>

theorem assigned_lead_stays_visible:
  assumes "canAssignTo user target" and "sr_column r OwnerId = Some target"
    and "pr_dataScope user = SELF \<Longrightarrow> \<not> truthy (pr_partnerId user)"
    and "pr_dataScope user \<in> {ALL_SCOPE, TEAM, SELF}"
  shows "matches rows (leadScope user) r"
  using assms by (auto simp: canAssignTo_def leadScope_def)

lemma assigned_lead_stays_visible_witness:
  "matches [] (leadScope (demo_principal TEAM None)) (demo_lead_row (Some ''u2'') None)"
  by (rule assigned_lead_stays_visible [of _ "''u2''"])
    (simp_all add: canAssignTo_def demo_principal_def demo_lead_row_def)

text \<open>
  Being recorded as an attendee opens that one task or visit and nothing else: a record is
  visible exactly when the caller's own scope covers it or the caller is among its attendees, and
  the scope itself covers exactly the records of the caller and, above self scope, of the people
  who report to them; for tasks at self scope also the ones they created.
\<close>

theorem attendance_opens_one_record:
  assumes "pr_dataScope user \<noteq> ALL_SCOPE"
  shows "(matches rows (visitScope user) r \<longleftrightarrow>
      pr_id user \<in> set (sr_attendees r) \<or>
      (\<exists>w. sr_column r UserId = Some w \<and>
         (w = pr_id user \<or> pr_dataScope user \<noteq> SELF \<and> w \<in> set (pr_teamUserIds user)))) \<and>
    (matches rows (taskScope user) r \<longleftrightarrow>
      pr_id user \<in> set (sr_attendees r) \<or>
      (\<exists>w. sr_column r AssigneeId = Some w \<and>
         (w = pr_id user \<or> pr_dataScope user \<noteq> SELF \<and> w \<in> set (pr_teamUserIds user))) \<or>
      pr_dataScope user = SELF \<and> sr_column r CreatedById = Some (pr_id user))"
  using assms
  by (cases "pr_dataScope user")
    (auto simp: visitScope_def visitBase_def taskScope_def taskBase_def orAttended_def split: option.split)

lemma attendance_opens_one_record_witness:
  "matches [] (visitScope (demo_principal SELF None))
     ((demo_lead_row None None)\<lparr>sr_attendees := [''u1'']\<rparr>)"
  using attendance_opens_one_record [of "demo_principal SELF None" "[]"
      "(demo_lead_row None None)\<lparr>sr_attendees := [''u1'']\<rparr>"]
  by (simp add: demo_principal_def)

end
