(* ===== verification/Mfa.thy ===== *)
theory Mfa
  imports Accounts
begin

text \<open>
  Two-factor authentication: \<open>packages/contracts/src/mfa.ts\<close> and
  \<open>apps/api/src/modules/auth/mfa.service.ts\<close>, over the state the sign-in services share. The
  hashes, the TOTP check and the challenge's signature are external: \<open>crypto\<close> carries them.
\<close>

section \<open>Shared state\<close>

record crypto =
  verify_password :: "string \<Rightarrow> string \<Rightarrow> bool"
  hash_password :: "string \<Rightarrow> string"
  hash_token :: "string \<Rightarrow> string"
  hash_recovery :: "string \<Rightarrow> string"
  totp_valid :: "string \<Rightarrow> string \<Rightarrow> bool"
  sign_challenge :: "string \<Rightarrow> string"
  read_challenge :: "string \<Rightarrow> string option"

record login_attempt =
  at_identifier :: string
  at_userId :: "string option"
  at_successful :: bool
  at_failReason :: "string option"

record recovery_code =
  rc_userId :: string
  rc_codeHash :: string
  rc_usedAt :: "time option"

record reset_token =
  rt_id :: string
  rt_userId :: string
  rt_tokenHash :: string
  rt_createdAt :: time
  rt_expiresAt :: time
  rt_usedAt :: "time option"

record auth_state =
  as_users :: "account list"
  as_sessions :: "session list"
  as_attempts :: "login_attempt list"
  as_recovery :: "recovery_code list"
  as_resets :: "reset_token list"
  as_audit :: "audit_entry list"

definition record_audit :: "audit_entry \<Rightarrow> auth_state \<Rightarrow> auth_state" where
  "record_audit a s = s\<lparr>as_audit := as_audit s @ [a]\<rparr>"

text \<open>\<open>session.updateMany\<close> over the unrevoked sessions of one user.\<close>

definition revoke_sessions :: "string \<Rightarrow> time \<Rightarrow> revoked_reason option \<Rightarrow> session list \<Rightarrow> session list" where
  "revoke_sessions userId now why =
    update_where (\<lambda>e. se_userId e = userId \<and> se_revokedAt e = None)
      (\<lambda>e. e\<lparr>se_revokedAt := Some now, se_revokedReason := why\<rparr>)"

lemma revoke_sessions_none_live:
  "list_all (\<lambda>e. se_userId e = i \<longrightarrow> se_revokedAt e \<noteq> None) (revoke_sessions i now why es)"
  by (induction es) (auto simp: revoke_sessions_def)

lemma revoke_sessions_others:
  "filter (\<lambda>e. se_userId e \<noteq> i) (revoke_sessions i now why es) = filter (\<lambda>e. se_userId e \<noteq> i) es"
  by (induction es) (auto simp: revoke_sessions_def)

section \<open>Recovery codes\<close>

definition RECOVERY_ALPHABET :: string where
  "RECOVERY_ALPHABET = ''ABCDEFGHJKMNPQRSTUVWXYZ23456789''"

definition MFA_RECOVERY_CODE_COUNT :: nat where
  "MFA_RECOVERY_CODE_COUNT = 10"

text \<open>
  The random source is the stream of its answers: \<open>draw i\<close> is what the i-th call of \<open>randomInt\<close>
  returns. A code takes ten draws, two groups of five.
\<close>

definition recovery_group :: "(nat \<Rightarrow> nat) \<Rightarrow> nat \<Rightarrow> string" where
  "recovery_group draw i = map (\<lambda>j. RECOVERY_ALPHABET ! draw (i + j)) [0..<5]"

definition generateRecoveryCode :: "(nat \<Rightarrow> nat) \<Rightarrow> nat \<Rightarrow> string" where
  "generateRecoveryCode draw i = join_with ''-'' [recovery_group draw i, recovery_group draw (i + 5)]"

text \<open>The set of codes keeps the order of insertion; the loop draws at most \<open>attempts\<close> times.\<close>

fun draw_codes :: "(nat \<Rightarrow> nat) \<Rightarrow> nat \<Rightarrow> nat \<Rightarrow> nat \<Rightarrow> string list \<Rightarrow> string list" where
  "draw_codes draw i 0 want codes = codes"
| "draw_codes draw i (Suc attempts) want codes =
    (if length codes < want
     then let c = generateRecoveryCode draw i
          in draw_codes draw (i + 10) attempts want (if c \<in> set codes then codes else codes @ [c])
     else codes)"

definition generateRecoveryCodes :: "(nat \<Rightarrow> nat) \<Rightarrow> nat \<Rightarrow> string + string list" where
  "generateRecoveryCodes draw want =
    (let codes = draw_codes draw 0 (want * 20) want []
     in if length codes < want then Inl ''the random source is not varied enough'' else Inr codes)"

definition is_code_char :: "char \<Rightarrow> bool" where
  "is_code_char c \<longleftrightarrow> is_upper c \<or> is_digit c"

definition normaliseRecoveryCode :: "string \<Rightarrow> string" where
  "normaliseRecoveryCode value = filter is_code_char (to_upper (js_trim value))"

section \<open>The service\<close>

definition is_totp_code :: "string \<Rightarrow> bool" where
  "is_totp_code d \<longleftrightarrow> length d = 6 \<and> list_all is_digit d"

definition verifyTotp :: "crypto \<Rightarrow> string \<Rightarrow> string \<Rightarrow> bool" where
  "verifyTotp cr secret code =
    (let digits = filter (\<lambda>c. \<not> is_space c) code
     in if \<not> is_totp_code digits then False else totp_valid cr secret digits)"

definition hashRecoveryCode :: "crypto \<Rightarrow> string \<Rightarrow> string" where
  "hashRecoveryCode cr plain = hash_recovery cr (normaliseRecoveryCode plain)"

definition consumeRecoveryCode ::
  "crypto \<Rightarrow> string \<Rightarrow> string \<Rightarrow> time \<Rightarrow> recovery_code list \<Rightarrow> bool \<times> recovery_code list" where
  "consumeRecoveryCode cr userId code now rows =
    (let normalised = normaliseRecoveryCode code
     in if length normalised < 6 then (False, rows)
        else let hash = hashRecoveryCode cr normalised;
                 hit = (\<lambda>r. rc_userId r = userId \<and> rc_codeHash r = hash \<and> rc_usedAt r = None)
             in (count_where hit rows = 1, update_where hit (\<lambda>r. r\<lparr>rc_usedAt := Some now\<rparr>) rows))"

definition mfa_enable ::
  "crypto \<Rightarrow> (nat \<Rightarrow> nat) \<Rightarrow> time \<Rightarrow> string \<Rightarrow> string \<Rightarrow> string \<Rightarrow> auth_state \<Rightarrow>
    string list result \<times> auth_state" where
  "mfa_enable cr draw now userId secret code s =
    (if map_option u_mfaEnabled (find_by u_id userId (as_users s)) = Some True
     then (Inl (BadRequest ''Already enabled''), s)
     else if \<not> verifyTotp cr secret code then (Inl (BadRequest ''That code did not match''), s)
     else case generateRecoveryCodes draw MFA_RECOVERY_CODE_COUNT of
            Inl e \<Rightarrow> (Inl (ServerError e), s)
          | Inr codes \<Rightarrow>
              (Inr codes,
               record_audit (audit_entry ''UPDATE'' ''auth.mfa'' userId)
                 (s\<lparr>as_users := update_by u_id userId
                      (\<lambda>u. u\<lparr>u_mfaEnabled := True, u_mfaSecret := Some secret\<rparr>) (as_users s),
                    as_recovery := filter (\<lambda>r. rc_userId r \<noteq> userId) (as_recovery s) @
                      map (\<lambda>plain. \<lparr>rc_userId = userId, rc_codeHash = hashRecoveryCode cr plain,
                             rc_usedAt = None\<rparr>) codes\<rparr>)))"

definition clear_mfa :: "string \<Rightarrow> auth_state \<Rightarrow> auth_state" where
  "clear_mfa userId s =
    s\<lparr>as_users := update_by u_id userId (\<lambda>u. u\<lparr>u_mfaEnabled := False, u_mfaSecret := None\<rparr>) (as_users s),
      as_recovery := filter (\<lambda>r. rc_userId r \<noteq> userId) (as_recovery s)\<rparr>"

definition mfa_disable ::
  "crypto \<Rightarrow> time \<Rightarrow> string \<Rightarrow> string \<Rightarrow> string \<Rightarrow> auth_state \<Rightarrow> unit result \<times> auth_state" where
  "mfa_disable cr now userId password code s =
    (case find_by u_id userId (as_users s) of
       None \<Rightarrow> (Inl (BadRequest ''Not enabled''), s)
     | Some u \<Rightarrow>
         (if \<not> u_mfaEnabled u \<or> \<not> truthy (u_mfaSecret u) \<or> \<not> truthy (u_passwordHash u)
          then (Inl (BadRequest ''Not enabled''), s)
          else let passwordOk = verify_password cr password (the (u_passwordHash u));
                   consumed = (if verifyTotp cr (the (u_mfaSecret u)) code then (True, as_recovery s)
                               else consumeRecoveryCode cr userId code now (as_recovery s));
                   s' = s\<lparr>as_recovery := snd consumed\<rparr>
               in if \<not> passwordOk \<or> \<not> fst consumed
                  then (Inl (Unauthorized ''Could not turn it off''),
                        record_audit ((audit_entry ''PERMISSION_DENIED'' ''auth.mfa'' userId)
                          \<lparr>au_reason := Some ''Failed attempt to disable two-factor authentication''\<rparr>) s')
                  else (Inr (), record_audit (audit_entry ''UPDATE'' ''auth.mfa'' userId) (clear_mfa userId s'))))"

definition verifySecondFactor ::
  "crypto \<Rightarrow> time \<Rightarrow> string \<Rightarrow> string \<Rightarrow> auth_state \<Rightarrow> bool \<times> auth_state" where
  "verifySecondFactor cr now userId code s =
    (case find_by u_id userId (as_users s) of
       None \<Rightarrow> (False, s)
     | Some u \<Rightarrow>
         (if \<not> u_mfaEnabled u \<or> \<not> truthy (u_mfaSecret u) then (False, s)
          else if verifyTotp cr (the (u_mfaSecret u)) code then (True, s)
          else let (used, rows) = consumeRecoveryCode cr userId code now (as_recovery s);
                   s' = s\<lparr>as_recovery := rows\<rparr>
               in (used,
                   if used
                   then record_audit (audit_entry ''LOGIN'' ''security.mfa_recovery_code_used'' userId) s'
                   else s')))"

definition mfa_admin_reset ::
  "string \<Rightarrow> string \<Rightarrow> string \<Rightarrow> time \<Rightarrow> auth_state \<Rightarrow> nat result \<times> auth_state" where
  "mfa_admin_reset actorId targetUserId reason now s =
    (if actorId = targetUserId then (Inl (Forbidden ''Cannot reset your own''), s)
     else case find (\<lambda>u. u_id u = targetUserId \<and> u_deletedAt u = None) (as_users s) of
            None \<Rightarrow> (Inl (NotFound ''User not found''), s)
          | Some u \<Rightarrow>
              (let s' = clear_mfa targetUserId s
               in (Inr (count_where (\<lambda>e. se_userId e = targetUserId \<and> se_revokedAt e = None) (as_sessions s)),
                   record_audit ((audit_entry ''UPDATE'' ''security.mfa_admin_reset'' targetUserId)
                       \<lparr>au_reason := Some reason\<rparr>)
                     (s'\<lparr>as_sessions := update_where (\<lambda>e. se_userId e = targetUserId \<and> se_revokedAt e = None)
                            (\<lambda>e. e\<lparr>se_revokedAt := Some now\<rparr>) (as_sessions s')\<rparr>))))"

definition mfa_status :: "string \<Rightarrow> auth_state \<Rightarrow> bool \<times> nat" where
  "mfa_status userId s =
    (map_option u_mfaEnabled (find_by u_id userId (as_users s)) = Some True,
     count_where (\<lambda>r. rc_userId r = userId \<and> rc_usedAt r = None) (as_recovery s))"

section \<open>Generated codes\<close>

lemma recovery_alphabet_code: "i < 31 \<Longrightarrow> is_code_char (RECOVERY_ALPHABET ! i)"
proof -
  assume "i < 31"
  then have "RECOVERY_ALPHABET ! i \<in> set RECOVERY_ALPHABET"
    by (intro nth_mem) (simp add: RECOVERY_ALPHABET_def)
  moreover have "list_all is_code_char RECOVERY_ALPHABET"
    by (simp add: RECOVERY_ALPHABET_def is_code_char_def is_upper_def is_digit_def)
  ultimately show ?thesis by (auto simp: list_all_iff)
qed

lemma draw_codes_distinct: "distinct codes \<Longrightarrow> distinct (draw_codes draw i n want codes)"
  by (induction draw i n want codes rule: draw_codes.induct) (auto simp: Let_def)

lemma draw_codes_length:
  "length codes \<le> want \<Longrightarrow> length (draw_codes draw i n want codes) \<le> want"
  by (induction draw i n want codes rule: draw_codes.induct) (auto simp: Let_def)

lemma draw_codes_from:
  "c \<in> set (draw_codes draw i n want codes) \<Longrightarrow> c \<in> set codes \<or> (\<exists>j. c = generateRecoveryCode draw j)"
  by (induction draw i n want codes rule: draw_codes.induct) (auto simp: Let_def split: if_splits)

lemma generateRecoveryCodesD:
  assumes "generateRecoveryCodes draw want = Inr codes"
  shows "distinct codes" and "length codes = want" and "c \<in> set codes \<Longrightarrow> \<exists>j. c = generateRecoveryCode draw j"
  using assms draw_codes_distinct [of "[]" draw 0 "want * 20" want] draw_codes_length [of "[]" want draw 0 "want * 20"]
    draw_codes_from [of c draw 0 "want * 20" want "[]"]
  by (auto simp: generateRecoveryCodes_def Let_def split: if_splits)

lemma is_code_char_not_space: "is_code_char c \<Longrightarrow> \<not> is_space c"
  by (auto simp: is_code_char_def is_upper_def is_digit_def is_space_def)

lemma upper_char_space: "is_space (upper_char c) = is_space c"
proof (cases "is_lower c")
  case True
  then have "upper_char c = char_of (code_unit c - 32)" "97 \<le> code_unit c" "code_unit c \<le> 122"
    by (simp_all add: upper_char_def is_lower_def)
  then show ?thesis by (simp add: is_space_def) linarith
next
  case False
  then show ?thesis by (simp add: upper_char_def)
qed

lemma upper_char_code: "is_code_char (upper_char c) \<Longrightarrow> \<not> is_space c"
  using is_code_char_not_space [of "upper_char c"] by (simp add: upper_char_space)

lemma upper_char_id: "is_code_char c \<Longrightarrow> upper_char c = c"
  by (auto simp: upper_char_def is_code_char_def is_upper_def is_lower_def is_digit_def)

lemma normalise_as_filter:
  "normaliseRecoveryCode value = filter is_code_char (to_upper value)"
proof -
  have "filter is_code_char (to_upper v) = map upper_char (filter (\<lambda>c. is_code_char (upper_char c)) v)" for v
    by (simp add: to_upper_def filter_map comp_def)
  then show ?thesis
    using filter_trim_noop [of "\<lambda>c. is_code_char (upper_char c)" "value"] upper_char_code
    by (simp add: normaliseRecoveryCode_def)
qed

lemma normalise_idem: "normaliseRecoveryCode (normaliseRecoveryCode v) = normaliseRecoveryCode v"
proof -
  have "list_all is_code_char w \<Longrightarrow> normaliseRecoveryCode w = w" for w
    by (induction w) (auto simp: normalise_as_filter to_upper_def upper_char_id)
  then show ?thesis by (simp add: list_all_iff normaliseRecoveryCode_def)
qed

lemma recovery_group_code:
  assumes "\<And>i. draw i < 31"
  shows "list_all is_code_char (recovery_group draw i)" and "length (recovery_group draw i) = 5"
  using recovery_alphabet_code [OF assms] by (auto simp: recovery_group_def list_all_iff)

lemma normalise_code:
  assumes "\<And>i. draw i < 31"
  shows "normaliseRecoveryCode (generateRecoveryCode draw i) = recovery_group draw i @ recovery_group draw (i + 5)"
proof -
  have id: "list_all is_code_char w \<Longrightarrow> filter is_code_char (to_upper w) = w" for w
    by (induction w) (auto simp: to_upper_def upper_char_id)
  have dash: "\<not> is_code_char (upper_char (CHR ''-''))"
    by (simp add: upper_char_def is_lower_def is_code_char_def is_upper_def is_digit_def)
  have "filter is_code_char (to_upper (v @ ''-'' @ w)) = filter is_code_char (to_upper v) @ filter is_code_char (to_upper w)" for v w
    using dash by (simp add: to_upper_def)
  then show ?thesis
    using id recovery_group_code(1) [OF assms] by (simp add: normalise_as_filter generateRecoveryCode_def)
qed

lemma generated_codes_normalise_inj:
  assumes d: "\<And>i. draw i < 31" and "generateRecoveryCodes draw want = Inr codes"
  shows "inj_on normaliseRecoveryCode (set codes)"
proof (rule inj_onI)
  fix a b
  assume ab: "a \<in> set codes" "b \<in> set codes" and eq: "normaliseRecoveryCode a = normaliseRecoveryCode b"
  obtain i j where ij: "a = generateRecoveryCode draw i" "b = generateRecoveryCode draw j"
    using generateRecoveryCodesD(3) [OF assms(2)] ab by blast
  have "recovery_group draw i = recovery_group draw j \<and> recovery_group draw (i + 5) = recovery_group draw (j + 5)"
    using eq normalise_code [OF d] recovery_group_code(2) [OF d] by (simp add: ij)
  then show "a = b" by (simp add: ij generateRecoveryCode_def)
qed


lemma consume_hit_once:
  assumes "normaliseRecoveryCode typed = normaliseRecoveryCode c" and "6 \<le> length (normaliseRecoveryCode c)"
    and "count_where (\<lambda>r. rc_userId r = i \<and> rc_codeHash r = hashRecoveryCode cr c \<and> rc_usedAt r = None) rows = 1"
  shows "fst (consumeRecoveryCode cr i typed now rows)"
    and "\<not> fst (consumeRecoveryCode cr i typed later (snd (consumeRecoveryCode cr i typed now rows)))"
  using assms by (simp_all add: consumeRecoveryCode_def Let_def hashRecoveryCode_def normalise_idem
      count_where_update_gone)

lemma consume_leaves_others:
  assumes "normaliseRecoveryCode typed = normaliseRecoveryCode c" and "6 \<le> length (normaliseRecoveryCode c)"
    and "hashRecoveryCode cr c \<noteq> hashRecoveryCode cr d"
  shows "count_where (\<lambda>r. rc_userId r = i \<and> rc_codeHash r = hashRecoveryCode cr d \<and> rc_usedAt r = None)
      (snd (consumeRecoveryCode cr i typed now rows)) =
    count_where (\<lambda>r. rc_userId r = i \<and> rc_codeHash r = hashRecoveryCode cr d \<and> rc_usedAt r = None) rows"
  unfolding consumeRecoveryCode_def Let_def
  using assms by (auto simp: hashRecoveryCode_def normalise_idem intro!: count_where_update_other)

lemma enabled_code_count:
  assumes d: "\<And>i. draw i < 31" and h: "inj (hash_recovery cr)"
    and e: "mfa_enable cr draw now i secret code s = (Inr codes, s')" and c: "c \<in> set codes"
  shows "count_where (\<lambda>r. rc_userId r = i \<and> rc_codeHash r = hashRecoveryCode cr c \<and> rc_usedAt r = None)
    (as_recovery s') = 1"
proof -
  have g: "generateRecoveryCodes draw MFA_RECOVERY_CODE_COUNT = Inr codes"
    and rows: "as_recovery s' = filter (\<lambda>r. rc_userId r \<noteq> i) (as_recovery s) @
        map (\<lambda>plain. \<lparr>rc_userId = i, rc_codeHash = hashRecoveryCode cr plain, rc_usedAt = None\<rparr>) codes"
    using e by (auto simp: mfa_enable_def record_audit_def split: if_splits sum.splits)
  have inj: "inj_on (hashRecoveryCode cr) (set codes)"
    using generated_codes_normalise_inj [OF d g] h
    by (auto simp: inj_on_def hashRecoveryCode_def)
  have "count_where (\<lambda>x. hashRecoveryCode cr x = hashRecoveryCode cr c) codes = 1"
    by (rule count_where_inj [OF generateRecoveryCodesD(1) [OF g] inj c])
  moreover have "count_where (\<lambda>r. rc_userId r = i \<and> rc_codeHash r = hashRecoveryCode cr c \<and> rc_usedAt r = None)
      (filter (\<lambda>r. rc_userId r \<noteq> i) (as_recovery s)) = 0"
    by (simp add: count_where_0_iff)
  ultimately show ?thesis by (simp add: rows count_where_map comp_def)
qed

text \<open>
  C4. Enrolment hands out exactly ten distinct recovery codes, and each of them, typed with any
  spacing, dashes or letter case, is accepted once and only once, without spending any of the
  others. The random source is assumed to answer within the alphabet and the hash not to collide.
\<close>

theorem recovery_codes_work_once:
  assumes "\<And>i. draw i < 31" and "inj (hash_recovery cr)"
    and "mfa_enable cr draw now i secret code s = (Inr codes, s')"
    and "c \<in> set codes" and "d \<in> set codes" and "d \<noteq> c"
    and "normaliseRecoveryCode typed = normaliseRecoveryCode c"
  shows "length codes = 10 \<and> distinct codes \<and>
    (let (first, rows) = consumeRecoveryCode cr i typed t1 (as_recovery s')
     in first \<and> \<not> fst (consumeRecoveryCode cr i typed t2 rows) \<and> fst (consumeRecoveryCode cr i d t2 rows))"
proof -
  have g: "generateRecoveryCodes draw MFA_RECOVERY_CODE_COUNT = Inr codes"
    using assms(3) by (auto simp: mfa_enable_def split: if_splits sum.splits)
  have len: "6 \<le> length (normaliseRecoveryCode x)" if "x \<in> set codes" for x
    using generateRecoveryCodesD(3) [OF g that] recovery_group_code(2) [OF assms(1)]
    by (auto simp: normalise_code [OF assms(1)])
  have "hashRecoveryCode cr c \<noteq> hashRecoveryCode cr d"
    using generated_codes_normalise_inj [OF assms(1) g] assms(2,4-6)
    by (auto simp: hashRecoveryCode_def inj_on_def inj_def)
  note others = consume_leaves_others [OF assms(7) len [OF assms(4)] this, of i t1 "as_recovery s'"]
  note used = consume_hit_once [OF assms(7) len [OF assms(4)] enabled_code_count [OF assms(1-4)]]
  have "fst (consumeRecoveryCode cr i d t2 (snd (consumeRecoveryCode cr i typed t1 (as_recovery s'))))"
    by (rule consume_hit_once(1) [OF HOL.refl len [OF assms(5)]])
      (simp only: others enabled_code_count [OF assms(1-3,5)])
  then show ?thesis
    using generateRecoveryCodesD(1,2) [OF g] used(1) [of t1] used(2) [of t2 t1]
    by (simp add: MFA_RECOVERY_CODE_COUNT_def case_prod_beta Let_def)
qed

definition demo_crypto :: crypto where
  "demo_crypto = \<lparr>verify_password = (=), hash_password = (\<lambda>p. p), hash_token = (\<lambda>t. t),
     hash_recovery = (\<lambda>c. c), totp_valid = (=), sign_challenge = (\<lambda>i. i), read_challenge = Some\<rparr>"

definition demo_draw :: "nat \<Rightarrow> nat" where
  "demo_draw i = (if i mod 10 = 9 then (i div 10) mod 31 else 0)"

definition demo_auth :: auth_state where
  "demo_auth = \<lparr>as_users = [demo_account ''u1''], as_sessions = [demo_session ''s1'' ''u1''], as_attempts = [],
     as_recovery = [], as_resets = [], as_audit = []\<rparr>"

lemma upt_five: "[0..<5] = [0, 1, 2, 3, 4::nat]"
  by (simp add: upt_rec)

lemma draw_codes_more: "0 < n \<Longrightarrow> length codes < want \<Longrightarrow> draw_codes draw i n want codes =
    (let c = generateRecoveryCode draw i
     in draw_codes draw (i + 10) (n - 1) want (if c \<in> set codes then codes else codes @ [c]))"
  by (cases n) simp_all

lemma draw_codes_done: "want \<le> length codes \<Longrightarrow> draw_codes draw i n want codes = codes"
  by (cases n) simp_all

lemma demo_codes: "generateRecoveryCodes demo_draw 10 =
    Inr [''AAAAA-AAAAA'', ''AAAAA-AAAAB'', ''AAAAA-AAAAC'', ''AAAAA-AAAAD'', ''AAAAA-AAAAE'',
         ''AAAAA-AAAAF'', ''AAAAA-AAAAG'', ''AAAAA-AAAAH'', ''AAAAA-AAAAJ'', ''AAAAA-AAAAK'']"
  by code_simp


lemma demo_enable: "\<exists>s'. mfa_enable demo_crypto demo_draw 0 ''u1'' ''123456'' ''123 456'' demo_auth =
    (Inr [''AAAAA-AAAAA'', ''AAAAA-AAAAB'', ''AAAAA-AAAAC'', ''AAAAA-AAAAD'', ''AAAAA-AAAAE'',
         ''AAAAA-AAAAF'', ''AAAAA-AAAAG'', ''AAAAA-AAAAH'', ''AAAAA-AAAAJ'', ''AAAAA-AAAAK''], s')"
  by (simp add: mfa_enable_def demo_codes MFA_RECOVERY_CODE_COUNT_def demo_auth_def demo_account_def
      verifyTotp_def is_totp_code_def is_space_def is_digit_def demo_crypto_def Let_def)

lemma demo_draw_bound: "demo_draw i < 31"
  by (simp add: demo_draw_def)

lemma recovery_codes_work_once_witness:
  "\<exists>s'. snd (mfa_enable demo_crypto demo_draw 0 ''u1'' ''123456'' ''123 456'' demo_auth) = s' \<and>
    fst (consumeRecoveryCode demo_crypto ''u1'' '' aaaaa aaaab '' 1 (as_recovery s'))"
proof -
  obtain s' where e: "mfa_enable demo_crypto demo_draw 0 ''u1'' ''123456'' ''123 456'' demo_auth =
    (Inr [''AAAAA-AAAAA'', ''AAAAA-AAAAB'', ''AAAAA-AAAAC'', ''AAAAA-AAAAD'', ''AAAAA-AAAAE'',
         ''AAAAA-AAAAF'', ''AAAAA-AAAAG'', ''AAAAA-AAAAH'', ''AAAAA-AAAAJ'', ''AAAAA-AAAAK''], s')"
    using demo_enable by blast
  have "normaliseRecoveryCode '' aaaaa aaaab '' = normaliseRecoveryCode ''AAAAA-AAAAB''"
    by code_simp
  then have "fst (consumeRecoveryCode demo_crypto ''u1'' '' aaaaa aaaab '' 1 (as_recovery s'))"
    using recovery_codes_work_once [OF demo_draw_bound _ e, of "''AAAAA-AAAAB''" "''AAAAA-AAAAA''"
        "'' aaaaa aaaab ''" 1 2]
    by (auto simp: demo_crypto_def case_prod_beta)
  then show ?thesis using e by simp
qed

end
