(* ===== verification/Auth.thy ===== *)
theory Auth
  imports Mfa
begin

text \<open>
  Sign-in, sessions and passwords: \<open>apps/api/src/modules/auth/auth.service.ts\<close> and
  \<open>token.service.ts\<close>. The handlers are functions on the shared state; what they draw from
  outside (the clock, a new session id, a random token) is an argument. \<open>findFirst\<close> returns the
  first matching row of the table. The session's device columns, the access token's encoding and
  the mailer are not modelled.
\<close>

section \<open>Configuration and answers\<close>

record auth_config =
  ac_maxFailedAttempts :: nat
  ac_lockoutMinutes :: int
  ac_idleTimeoutMinutes :: int
  ac_refreshTtlSeconds :: int

definition ROTATION_GRACE_MS :: int where
  "ROTATION_GRACE_MS = 30000"

definition ROTATION_CHAIN_MAX_HOPS :: nat where
  "ROTATION_CHAIN_MAX_HOPS = 10"

definition PASSWORD_RESET_TTL_MINUTES :: int where
  "PASSWORD_RESET_TTL_MINUTES = 30"

text \<open>The claims of the access token and the refresh token that goes with it.\<close>

record auth_tokens =
  tk_userId :: string
  tk_sessionId :: string
  tk_roles :: "role list"
  tk_permissions :: "permission list"
  tk_dataScope :: data_scope
  tk_refreshToken :: string

datatype login_outcome = SignedIn auth_tokens | MfaRequired string

section \<open>Sign-in\<close>

definition strip_country :: "string \<Rightarrow> string" where
  "strip_country s =
    (if prefix ''+91'' s then drop 3 s
     else if prefix ''91'' s then drop 2 s
     else if prefix ''0'' s then drop 1 s
     else s)"

definition find_by_identifier :: "string \<Rightarrow> account list \<Rightarrow> account option" where
  "find_by_identifier raw users =
    (let identifier = to_lower (js_trim raw); asCode = to_upper (js_trim raw)
     in find (\<lambda>u. u_deletedAt u = None \<and>
          (u_email u = identifier \<or> u_mobile u = Some (strip_country identifier) \<or>
           u_employeeCode u = Some asCode)) users)"

definition recordAttempt ::
  "string \<Rightarrow> string option \<Rightarrow> bool \<Rightarrow> string option \<Rightarrow> auth_state \<Rightarrow> auth_state" where
  "recordAttempt identifier userId successful failReason s =
    s\<lparr>as_attempts := as_attempts s @
        [\<lparr>at_identifier = take 160 identifier, at_userId = userId, at_successful = successful,
          at_failReason = failReason\<rparr>]\<rparr>"

definition registerFailedAttempt ::
  "auth_config \<Rightarrow> time \<Rightarrow> string \<Rightarrow> nat \<Rightarrow> auth_state \<Rightarrow> auth_state" where
  "registerFailedAttempt cfg now userId current s =
    (let attempts = current + 1; shouldLock = ac_maxFailedAttempts cfg \<le> attempts
     in s\<lparr>as_users := update_by u_id userId
           (\<lambda>u. u\<lparr>u_failedLoginAttempts := attempts,
                  u_lockedUntil := (if shouldLock then Some (now + ac_lockoutMinutes cfg * 60000) else None)\<rparr>)
           (as_users s)\<rparr>)"

definition new_session :: "auth_config \<Rightarrow> crypto \<Rightarrow> time \<Rightarrow> string \<Rightarrow> string \<Rightarrow> string \<Rightarrow> session" where
  "new_session cfg cr now sid userId token =
    \<lparr>se_id = sid, se_userId = userId, se_refreshTokenHash = hash_token cr token,
     se_expiresAt = now + ac_refreshTtlSeconds cfg * 1000, se_revokedAt = None,
     se_revokedReason = None, se_lastSeenAt = now, se_replacedById = None\<rparr>"

definition issue_tokens :: "account \<Rightarrow> string \<Rightarrow> string \<Rightarrow> auth_tokens" where
  "issue_tokens u sid token =
    \<lparr>tk_userId = u_id u, tk_sessionId = sid, tk_roles = role_codes u, tk_permissions = role_permissions u,
     tk_dataScope = effectiveScope (role_codes u) (u_dataScope u), tk_refreshToken = token\<rparr>"

definition completeSignIn ::
  "auth_config \<Rightarrow> crypto \<Rightarrow> time \<Rightarrow> string \<Rightarrow> string \<Rightarrow> account \<Rightarrow> string \<Rightarrow> auth_state \<Rightarrow>
    auth_tokens \<times> auth_state" where
  "completeSignIn cfg cr now sid token u identifier s =
    (let s1 = s\<lparr>as_sessions := insert_row (new_session cfg cr now sid (u_id u) token) (as_sessions s)\<rparr>;
         s2 = s1\<lparr>as_users := update_by u_id (u_id u)
                (\<lambda>v. v\<lparr>u_failedLoginAttempts := 0, u_lockedUntil := None, u_lastLoginAt := Some now\<rparr>)
                (as_users s1)\<rparr>;
         s3 = recordAttempt identifier (Some (u_id u)) True None s2
     in (issue_tokens u sid token, record_audit (audit_entry ''LOGIN'' ''auth'' (u_id u)) s3))"

definition status_reason :: "user_status \<Rightarrow> string" where
  "status_reason st = (case st of INVITED \<Rightarrow> ''STATUS_INVITED'' | ACTIVE \<Rightarrow> ''STATUS_ACTIVE''
     | SUSPENDED \<Rightarrow> ''STATUS_SUSPENDED'' | LOCKED \<Rightarrow> ''STATUS_LOCKED'' | DISABLED \<Rightarrow> ''STATUS_DISABLED'')"

definition login ::
  "auth_config \<Rightarrow> crypto \<Rightarrow> time \<Rightarrow> string \<Rightarrow> string \<Rightarrow> string \<Rightarrow> string \<Rightarrow> auth_state \<Rightarrow>
    login_outcome result \<times> auth_state" where
  "login cfg cr now sid token raw password s =
    (let identifier = to_lower (js_trim raw)
     in case find_by_identifier raw (as_users s) of
          None \<Rightarrow> (Inl (Unauthorized ''Sign in failed''),
                   recordAttempt identifier None False (Some ''NO_SUCH_USER'') s)
        | Some u \<Rightarrow>
            (if \<not> truthy (u_passwordHash u)
             then (Inl (Unauthorized ''Sign in failed''),
                   recordAttempt identifier None False (Some ''NO_SUCH_USER'') s)
             else if (case u_lockedUntil u of None \<Rightarrow> False | Some t \<Rightarrow> t > now)
             then (Inl (Unauthorized ''Account temporarily locked''),
                   recordAttempt identifier (Some (u_id u)) False (Some ''LOCKED'') s)
             else if u_status u \<noteq> ACTIVE
             then (Inl (Unauthorized ''Sign in failed''),
                   recordAttempt identifier (Some (u_id u)) False (Some (status_reason (u_status u))) s)
             else if \<not> verify_password cr password (the (u_passwordHash u))
             then (Inl (Unauthorized ''Sign in failed''),
                   recordAttempt identifier (Some (u_id u)) False (Some ''BAD_PASSWORD'')
                     (registerFailedAttempt cfg now (u_id u) (u_failedLoginAttempts u) s))
             else if role_codes u = []
             then (Inl (Unauthorized ''No access configured''),
                   recordAttempt identifier (Some (u_id u)) False (Some ''NO_ROLES'') s)
             else if u_mfaEnabled u \<and> truthy (u_mfaSecret u)
             then (Inr (MfaRequired (sign_challenge cr (u_id u))),
                   recordAttempt identifier (Some (u_id u)) True (Some ''MFA_PENDING'') s)
             else let (tokens, s') = completeSignIn cfg cr now sid token u identifier s
                  in (Inr (SignedIn tokens), s')))"

definition answerMfaChallenge ::
  "auth_config \<Rightarrow> crypto \<Rightarrow> time \<Rightarrow> string \<Rightarrow> string \<Rightarrow> string \<Rightarrow> string \<Rightarrow> auth_state \<Rightarrow>
    auth_tokens result \<times> auth_state" where
  "answerMfaChallenge cfg cr now sid token challenge code s =
    (case read_challenge cr challenge of
       None \<Rightarrow> (Inl (Unauthorized ''Sign-in expired''), s)
     | Some userId \<Rightarrow>
         (case find (\<lambda>u. u_id u = userId \<and> u_deletedAt u = None) (as_users s) of
            None \<Rightarrow> (Inl (Unauthorized ''Sign in failed''), s)
          | Some u \<Rightarrow>
              (if u_status u \<noteq> ACTIVE then (Inl (Unauthorized ''Sign in failed''), s)
               else let (ok, s1) = verifySecondFactor cr now (u_id u) code s
                    in if \<not> ok
                       then (Inl (Unauthorized ''That code did not match''),
                             record_audit ((audit_entry ''LOGIN_FAILED'' ''auth'' (u_id u))
                                 \<lparr>au_reason := Some ''Second factor did not match''\<rparr>)
                               (recordAttempt (u_email u) (Some (u_id u)) False (Some ''MFA_FAILED'') s1))
                       else let (tokens, s2) = completeSignIn cfg cr now sid token u (u_email u) s1
                            in (Inr tokens, s2))))"

section \<open>Refresh with rotation\<close>

fun follow_chain :: "nat \<Rightarrow> session list \<Rightarrow> string option \<Rightarrow> session option" where
  "follow_chain 0 rows i = None"
| "follow_chain (Suc hops) rows i =
    (if \<not> truthy i then None
     else case find_by se_id (the i) rows of
            None \<Rightarrow> None
          | Some next \<Rightarrow>
              (if se_revokedAt next = None then Some next
               else follow_chain hops rows (se_replacedById next)))"

definition followRotationChain :: "session list \<Rightarrow> string \<Rightarrow> session option" where
  "followRotationChain rows startId = follow_chain ROTATION_CHAIN_MAX_HOPS rows (Some startId)"

definition rotate_session ::
  "auth_config \<Rightarrow> crypto \<Rightarrow> time \<Rightarrow> string \<Rightarrow> string \<Rightarrow> string \<Rightarrow> auth_state \<Rightarrow>
    auth_tokens result \<times> auth_state" where
  "rotate_session cfg cr now sid token sessionId s =
    (case find_by se_id sessionId (as_sessions s) of
       None \<Rightarrow> (Inl (Unauthorized ''Session expired''), s)
     | Some e \<Rightarrow>
         (if se_revokedAt e \<noteq> None \<or> se_expiresAt e < now
          then (Inl (Unauthorized ''Session expired''), s)
          else case find_by u_id (se_userId e) (as_users s) of
                 None \<Rightarrow> (Inl (ServerError ''missing user''), s)
               | Some u \<Rightarrow>
                   (Inr (issue_tokens u sid token),
                    s\<lparr>as_sessions := update_by se_id sessionId
                         (\<lambda>e. e\<lparr>se_revokedAt := Some now, se_revokedReason := Some ROTATED,
                                se_replacedById := Some sid\<rparr>)
                         (insert_row (new_session cfg cr now sid (se_userId e) token) (as_sessions s))\<rparr>)))"

definition rotated_recently :: "time \<Rightarrow> session \<Rightarrow> bool" where
  "rotated_recently now e \<longleftrightarrow> se_revokedReason e = Some ROTATED \<and>
    (case se_revokedAt e of None \<Rightarrow> False | Some t \<Rightarrow> now - t \<le> ROTATION_GRACE_MS)"

definition live_successor :: "time \<Rightarrow> session list \<Rightarrow> session \<Rightarrow> session option" where
  "live_successor now rows e =
    (if rotated_recently now e \<and> truthy (se_replacedById e)
     then followRotationChain rows (the (se_replacedById e)) else None)"

definition refresh_session ::
  "auth_config \<Rightarrow> crypto \<Rightarrow> time \<Rightarrow> string \<Rightarrow> string \<Rightarrow> string \<Rightarrow> auth_state \<Rightarrow>
    auth_tokens result \<times> auth_state" where
  "refresh_session cfg cr now sid token presented s =
    (case find_by se_refreshTokenHash (hash_token cr presented) (as_sessions s) of
       None \<Rightarrow> (Inl (Unauthorized ''Session expired''), s)
     | Some e \<Rightarrow>
         (if se_revokedAt e \<noteq> None
          then (case live_successor now (as_sessions s) e of
                  Some successor \<Rightarrow> rotate_session cfg cr now sid token (se_id successor) s
                | None \<Rightarrow>
                    (Inl (Unauthorized ''Session expired''),
                     s\<lparr>as_sessions := revoke_sessions (se_userId e) now (Some TOKEN_REUSE_DETECTED)
                         (as_sessions s)\<rparr>))
          else if se_expiresAt e < now then (Inl (Unauthorized ''Session expired''), s)
          else case find_by u_id (se_userId e) (as_users s) of
                 None \<Rightarrow> (Inl (ServerError ''missing user''), s)
               | Some u \<Rightarrow>
                   (if u_status u \<noteq> ACTIVE \<or> u_deletedAt u \<noteq> None
                    then (Inl (Unauthorized ''Session expired''), s)
                    else if now - se_lastSeenAt e > ac_idleTimeoutMinutes cfg * 60000
                    then (Inl (Unauthorized ''Signed out for inactivity''),
                          s\<lparr>as_sessions := update_by se_id (se_id e)
                              (\<lambda>e. e\<lparr>se_revokedAt := Some now, se_revokedReason := Some IDLE_TIMEOUT\<rparr>)
                              (as_sessions s)\<rparr>)
                    else rotate_session cfg cr now sid token (se_id e) s)))"

section \<open>Signing out and passwords\<close>

definition logout :: "time \<Rightarrow> string \<Rightarrow> auth_state \<Rightarrow> auth_state" where
  "logout now sessionId s =
    record_audit (audit_entry ''LOGOUT'' ''auth'' sessionId)
      (s\<lparr>as_sessions := update_where (\<lambda>e. se_id e = sessionId \<and> se_revokedAt e = None)
           (\<lambda>e. e\<lparr>se_revokedAt := Some now, se_revokedReason := Some USER_LOGOUT\<rparr>) (as_sessions s)\<rparr>)"

definition logoutEverywhere :: "time \<Rightarrow> string \<Rightarrow> auth_state \<Rightarrow> nat \<times> auth_state" where
  "logoutEverywhere now userId s =
    (count_where (\<lambda>e. se_userId e = userId \<and> se_revokedAt e = None) (as_sessions s),
     record_audit (audit_entry ''LOGOUT'' ''auth'' userId)
       (s\<lparr>as_sessions := revoke_sessions userId now (Some USER_LOGOUT_ALL) (as_sessions s)\<rparr>))"

definition changePassword ::
  "crypto \<Rightarrow> time \<Rightarrow> string \<Rightarrow> string \<Rightarrow> string \<Rightarrow> auth_state \<Rightarrow> unit result \<times> auth_state" where
  "changePassword cr now userId current new s =
    (case find (\<lambda>u. u_id u = userId \<and> u_deletedAt u = None) (as_users s) of
       None \<Rightarrow> (Inl (BadRequest ''Password cannot be changed''), s)
     | Some u \<Rightarrow>
         (if \<not> truthy (u_passwordHash u) then (Inl (BadRequest ''Password cannot be changed''), s)
          else if \<not> verify_password cr current (the (u_passwordHash u))
          then (Inl (BadRequest ''Current password is incorrect''), s)
          else (Inr (),
                record_audit (audit_entry ''UPDATE'' ''user.password'' userId)
                  (s\<lparr>as_users := update_by u_id userId
                       (\<lambda>u. u\<lparr>u_passwordHash := Some (hash_password cr new), u_mustChangePassword := False,
                              u_passwordChangedAt := Some now\<rparr>) (as_users s),
                     as_sessions := revoke_sessions userId now (Some PASSWORD_CHANGED) (as_sessions s)\<rparr>))))"

text \<open>Every early return is silent; the answer is the same in all of them.\<close>

definition requestPasswordReset ::
  "crypto \<Rightarrow> time \<Rightarrow> string \<Rightarrow> string \<Rightarrow> string \<Rightarrow> auth_state \<Rightarrow> auth_state" where
  "requestPasswordReset cr now newId token raw s =
    (case find_by_identifier raw (as_users s) of
       None \<Rightarrow> s
     | Some u \<Rightarrow>
         (if u_status u \<noteq> ACTIVE \<or> u_email u = [] then s
          else if 5 \<le> count_where (\<lambda>r. rt_userId r = u_id u \<and> now - 60 * 60 * 1000 \<le> rt_createdAt r) (as_resets s)
          then s
          else record_audit ((audit_entry ''UPDATE'' ''user.password-reset-requested'' (u_id u))
                 \<lparr>au_reason := Some ''Self-service password reset requested''\<rparr>)
               (s\<lparr>as_resets := insert_row
                    \<lparr>rt_id = newId, rt_userId = u_id u, rt_tokenHash = hash_token cr token,
                     rt_createdAt = now, rt_expiresAt = now + PASSWORD_RESET_TTL_MINUTES * 60 * 1000,
                     rt_usedAt = None\<rparr> (as_resets s)\<rparr>)))"

text \<open>
  The reset reads the link first and writes afterwards; only the writes are in the transaction,
  so the two halves are separate steps.
\<close>

definition reset_read :: "crypto \<Rightarrow> time \<Rightarrow> string \<Rightarrow> auth_state \<Rightarrow> reset_token result" where
  "reset_read cr now token s =
    (case find_by rt_tokenHash (hash_token cr (js_trim token)) (as_resets s) of
       None \<Rightarrow> Inl (BadRequest ''This reset link is no longer valid'')
     | Some r \<Rightarrow>
         (if rt_usedAt r \<noteq> None \<or> rt_expiresAt r < now
          then Inl (BadRequest ''This reset link is no longer valid'')
          else case find_by u_id (rt_userId r) (as_users s) of
                 None \<Rightarrow> Inl (BadRequest ''This reset link is no longer valid'')
               | Some u \<Rightarrow>
                   (if u_deletedAt u \<noteq> None \<or> u_status u \<noteq> ACTIVE
                    then Inl (BadRequest ''This reset link is no longer valid'')
                    else Inr r)))"

definition reset_write :: "crypto \<Rightarrow> time \<Rightarrow> reset_token \<Rightarrow> string \<Rightarrow> auth_state \<Rightarrow> auth_state" where
  "reset_write cr now r new s =
    (let marked = update_by rt_id (rt_id r) (\<lambda>t. t\<lparr>rt_usedAt := Some now\<rparr>) (as_resets s);
         others = update_where (\<lambda>t. rt_userId t = rt_userId r \<and> rt_usedAt t = None \<and> rt_id t \<noteq> rt_id r)
                    (\<lambda>t. t\<lparr>rt_usedAt := Some now\<rparr>) marked
     in record_audit ((audit_entry ''UPDATE'' ''user.password'' (rt_userId r))
            \<lparr>au_reason := Some ''Password reset via emailed link''\<rparr>)
          (s\<lparr>as_resets := others,
             as_users := update_by u_id (rt_userId r)
               (\<lambda>u. u\<lparr>u_passwordHash := Some (hash_password cr new), u_mustChangePassword := False,
                      u_passwordChangedAt := Some now, u_failedLoginAttempts := 0, u_lockedUntil := None\<rparr>)
               (as_users s),
             as_sessions := revoke_sessions (rt_userId r) now (Some PASSWORD_RESET) (as_sessions s)\<rparr>))"

definition resetPassword ::
  "crypto \<Rightarrow> time \<Rightarrow> string \<Rightarrow> string \<Rightarrow> auth_state \<Rightarrow> unit result \<times> auth_state" where
  "resetPassword cr now token new s =
    (case reset_read cr now token s of
       Inl e \<Rightarrow> (Inl e, s)
     | Inr r \<Rightarrow> (Inr (), reset_write cr now r new s))"

interpretation resets: repository "find_by rt_id" "update_by rt_id" insert_row rt_id
  by (rule repository_by)


section \<open>Lockout\<close>

definition login_matches :: "string \<Rightarrow> account \<Rightarrow> bool" where
  "login_matches raw u \<longleftrightarrow> u_deletedAt u = None \<and>
     (u_email u = to_lower (js_trim raw) \<or> u_mobile u = Some (strip_country (to_lower (js_trim raw))) \<or>
      u_employeeCode u = Some (to_upper (js_trim raw)))"

lemma find_by_identifier_matches: "find_by_identifier raw users = find (login_matches raw) users"
  by (simp add: find_by_identifier_def login_matches_def [abs_def] Let_def)

lemma find_by_identifier_update:
  assumes "\<And>u. login_matches raw (f u) = login_matches raw u" and "find_by_identifier raw users = Some u"
    and "u_id u = i"
  shows "find_by_identifier raw (update_by u_id i f users) = Some (f u)"
  using assms
  by (simp add: find_by_identifier_matches update_by_def update_where_def
      find_map_same [of "login_matches raw" "\<lambda>r. if u_id r = i then f r else r"])

lemma wrong_password_step:
  assumes f: "find_by_identifier raw (as_users s) = Some u" and "truthy (u_passwordHash u)"
    and "u_lockedUntil u = None" and "u_status u = ACTIVE" and "\<not> verify_password cr pw (the (u_passwordHash u))"
    and g: "find_by_identifier raw' (as_users s) = Some u"
  shows "find_by_identifier raw' (as_users (snd (login cfg cr now sid token raw pw s))) =
      Some (u\<lparr>u_failedLoginAttempts := u_failedLoginAttempts u + 1,
              u_lockedUntil := (if ac_maxFailedAttempts cfg \<le> u_failedLoginAttempts u + 1
                 then Some (now + ac_lockoutMinutes cfg * 60000) else None)\<rparr>) \<and>
    as_sessions (snd (login cfg cr now sid token raw pw s)) = as_sessions s \<and>
    fst (login cfg cr now sid token raw pw s) = Inl (Unauthorized ''Sign in failed'')"
proof -
  have eq: "login cfg cr now sid token raw pw s = (Inl (Unauthorized ''Sign in failed''),
      recordAttempt (to_lower (js_trim raw)) (Some (u_id u)) False (Some ''BAD_PASSWORD'')
        (registerFailedAttempt cfg now (u_id u) (u_failedLoginAttempts u) s))"
    using assms(1-5) by (simp add: login_def Let_def)
  show ?thesis
    unfolding eq
    by (auto simp: recordAttempt_def registerFailedAttempt_def Let_def login_matches_def
        intro!: find_by_identifier_update [OF _ g, THEN trans])
qed

text \<open>
  A run of sign-in requests, one after the other: each has its own moment, its own spelling of the
  identifier and its own password.
\<close>

type_synonym login_request = "time \<times> string \<times> string"

definition login_run ::
  "auth_config \<Rightarrow> crypto \<Rightarrow> string \<Rightarrow> string \<Rightarrow> login_request list \<Rightarrow> auth_state \<Rightarrow> auth_state" where
  "login_run cfg cr sid token rs s = foldl (\<lambda>s (t, raw, pw). snd (login cfg cr t sid token raw pw s)) s rs"

definition wrong_guess :: "crypto \<Rightarrow> account list \<Rightarrow> account \<Rightarrow> login_request \<Rightarrow> bool" where
  "wrong_guess cr users u = (\<lambda>(t, raw, pw). find_by_identifier raw users = Some u \<and>
     \<not> verify_password cr pw (the (u_passwordHash u)))"

lemma login_run_locks:
  assumes "list_all (wrong_guess cr (as_users s) u) rs" and "truthy (u_passwordHash u)"
    and "u_lockedUntil u = None" and "u_status u = ACTIVE"
    and "rs \<noteq> []" and "u_failedLoginAttempts u + length rs = ac_maxFailedAttempts cfg"
    and "find_by_identifier raw (as_users s) = Some u"
  shows "\<exists>v. find_by_identifier raw (as_users (login_run cfg cr sid token rs s)) = Some v \<and>
      truthy (u_passwordHash v) \<and> u_lockedUntil v = Some (fst (last rs) + ac_lockoutMinutes cfg * 60000) \<and>
      as_sessions (login_run cfg cr sid token rs s) = as_sessions s"
  using assms
proof (induction rs arbitrary: s u)
  case (Cons r rs)
  obtain t raw1 pw where r: "r = (t, raw1, pw)" by (cases r)
  have g: "find_by_identifier raw1 (as_users s) = Some u" "\<not> verify_password cr pw (the (u_passwordHash u))"
    using Cons.prems(1) by (simp_all add: r wrong_guess_def)
  note step = wrong_password_step [OF g(1) Cons.prems(2-4) g(2), of _ cfg t sid token]
  show ?case
  proof (cases "rs = []")
    case True
    then show ?thesis using step [OF Cons.prems(7)] Cons.prems(2,6) by (simp add: login_run_def r)
  next
    case False
    let ?v = "u\<lparr>u_failedLoginAttempts := u_failedLoginAttempts u + 1, u_lockedUntil := None\<rparr>"
    have early: "\<not> ac_maxFailedAttempts cfg \<le> u_failedLoginAttempts u + 1"
      using Cons.prems(6) False by (cases rs) auto
    have keep: "find_by_identifier raw' (as_users (snd (login cfg cr t sid token raw1 pw s))) = Some ?v"
      if "find_by_identifier raw' (as_users s) = Some u" for raw'
      using step [OF that] early by simp
    have "list_all (wrong_guess cr (as_users (snd (login cfg cr t sid token raw1 pw s))) ?v) rs"
      using Cons.prems(1) keep by (auto simp: list_all_iff wrong_guess_def)
    from Cons.IH [OF this _ _ _ False _ keep [OF Cons.prems(7)]] show ?thesis
      using Cons.prems(2,4,6) False step [OF Cons.prems(7)] by (simp add: login_run_def r)
  qed
qed simp

text \<open>
  C5. Guessing is bounded. Whatever failures an unlocked active account has collected, as soon as
  further wrong passwords bring them to the configured number - each request with a password and
  a spelling of the identifier of its own - every attempt inside the lockout window is refused
  with the lockout answer, the correct password and any other identifier of the account included,
  and none of the attempts created a session. The requests run one after the other.
\<close>

theorem lockout_after_wrong_passwords:
  assumes "find_by_identifier raw (as_users s) = Some u" and "truthy (u_passwordHash u)"
    and "u_lockedUntil u = None" and "u_status u = ACTIVE"
    and "list_all (wrong_guess cr (as_users s) u) rs"
    and "u_failedLoginAttempts u + length rs = ac_maxFailedAttempts cfg" and "rs \<noteq> []"
    and "now < fst (last rs) + ac_lockoutMinutes cfg * 60000"
  shows "fst (login cfg cr now sid token raw anything (login_run cfg cr sid token rs s)) =
      Inl (Unauthorized ''Account temporarily locked'') \<and>
    as_sessions (snd (login cfg cr now sid token raw anything (login_run cfg cr sid token rs s))) =
      as_sessions s"
proof -
  obtain v where "find_by_identifier raw (as_users (login_run cfg cr sid token rs s)) = Some v"
    "truthy (u_passwordHash v)" "u_lockedUntil v = Some (fst (last rs) + ac_lockoutMinutes cfg * 60000)"
    "as_sessions (login_run cfg cr sid token rs s) = as_sessions s"
    using login_run_locks [OF assms(5,2-4,7,6,1), of sid token] by blast
  then show ?thesis using assms(8) by (simp add: login_def Let_def recordAttempt_def)
qed

definition demo_config :: auth_config where
  "demo_config = \<lparr>ac_maxFailedAttempts = 3, ac_lockoutMinutes = 15, ac_idleTimeoutMinutes = 15,
     ac_refreshTtlSeconds = 86400\<rparr>"

lemma lockout_after_wrong_passwords_witness:
  "fst (login demo_config demo_crypto 500 ''s9'' ''t'' ''U1@sihl.in'' ''pw''
     (login_run demo_config demo_crypto ''s9'' ''t''
       [(10, ''u1@sihl.in'', ''guess''), (20, '' U1@SIHL.IN'', ''other''), (30, ''u1@sihl.in'', ''third'')] demo_auth)) =
   Inl (Unauthorized ''Account temporarily locked'')"
proof -
  have u: "find_by_identifier ''U1@sihl.in'' (as_users demo_auth) = Some (demo_account ''u1'')"
    "find_by_identifier ''u1@sihl.in'' (as_users demo_auth) = Some (demo_account ''u1'')"
    "find_by_identifier '' U1@SIHL.IN'' (as_users demo_auth) = Some (demo_account ''u1'')"
    by code_simp+
  show ?thesis
    using lockout_after_wrong_passwords [OF u(1), of demo_crypto
        "[(10, ''u1@sihl.in'', ''guess''), (20, '' U1@SIHL.IN'', ''other''), (30, ''u1@sihl.in'', ''third'')]" demo_config 500]
    by (simp add: u wrong_guess_def demo_account_def truthy_def demo_crypto_def demo_config_def)
qed

lemma verify_second_factor_keeps:
  "as_sessions (snd (verifySecondFactor cr now i code s)) = as_sessions s"
  by (simp add: verifySecondFactor_def Let_def case_prod_beta record_audit_def split: option.split)

lemma completeSignIn_parts:
  "as_sessions (snd (completeSignIn cfg cr now sid token u identifier s)) =
     insert_row (new_session cfg cr now sid (u_id u) token) (as_sessions s)"
  "as_recovery (snd (completeSignIn cfg cr now sid token u identifier s)) = as_recovery s"
  "tk_userId (fst (completeSignIn cfg cr now sid token u identifier s)) = u_id u"
  by (simp_all add: completeSignIn_def Let_def recordAttempt_def record_audit_def issue_tokens_def)

text \<open>The unused recovery codes of an account that a typed code stands for.\<close>

definition unspent_codes :: "crypto \<Rightarrow> string \<Rightarrow> string \<Rightarrow> recovery_code list \<Rightarrow> nat" where
  "unspent_codes cr i code rows = count_where (\<lambda>r. rc_userId r = i \<and>
     rc_codeHash r = hashRecoveryCode cr code \<and> rc_usedAt r = None) rows"

lemma second_factor_spends:
  assumes "fst (verifySecondFactor cr now i code s)" and "find_by u_id i (as_users s) = Some u"
  shows "u_mfaEnabled u \<and> truthy (u_mfaSecret u) \<and>
    (verifyTotp cr (the (u_mfaSecret u)) code \<and>
        as_recovery (snd (verifySecondFactor cr now i code s)) = as_recovery s \<or>
     unspent_codes cr i code (as_recovery s) = 1 \<and>
        unspent_codes cr i code (as_recovery (snd (verifySecondFactor cr now i code s))) = 0)"
proof (cases "verifyTotp cr (the (u_mfaSecret u)) code")
  case True
  then show ?thesis using assms by (simp add: verifySecondFactor_def split: if_splits)
next
  case False
  have on: "u_mfaEnabled u" "truthy (u_mfaSecret u)"
    using assms by (simp_all add: verifySecondFactor_def split: if_splits)
  have used: "fst (consumeRecoveryCode cr i code now (as_recovery s))"
    and rows: "as_recovery (snd (verifySecondFactor cr now i code s)) =
      snd (consumeRecoveryCode cr i code now (as_recovery s))"
    using assms False on by (simp_all add: verifySecondFactor_def case_prod_beta Let_def record_audit_def)
  show ?thesis
    unfolding rows using used on
    by (simp add: consumeRecoveryCode_def Let_def unspent_codes_def hashRecoveryCode_def normalise_idem
        count_where_update_gone split: if_splits)
qed

lemma find_live_by_key:
  assumes "keys_unique u_id users" and "find (\<lambda>u. u_id u = i \<and> u_deletedAt u = None) users = Some u"
  shows "find_by u_id i users = Some u"
proof -
  have "u \<in> set users" "u_id u = i" using assms(2) by (auto simp: find_Some_iff)
  then show ?thesis using find_by_unique [OF assms(1)] by blast
qed

text \<open>
  C6. With a second factor enrolled the password alone opens nothing: a login creates no session
  and hands out no tokens for such an account, whatever password came with it. Answering the
  challenge leaves the sessions as they were whenever it is refused; when it is accepted, the
  account behind the challenge is active and undeleted, the code was a valid one-time code or an
  unused recovery code - spent by the request, so that no unused one is left for it - and exactly
  one session is added, the new one of that account.
\<close>

theorem second_factor_required:
  assumes k: "keys_unique u_id (as_users s)"
  shows "(find_by_identifier raw (as_users s) = Some u \<and> u_mfaEnabled u \<and> truthy (u_mfaSecret u) \<longrightarrow>
      as_sessions (snd (login cfg cr now sid token raw pw s)) = as_sessions s \<and>
      (\<forall>tk. fst (login cfg cr now sid token raw pw s) \<noteq> Inr (SignedIn tk))) \<and>
   (case answerMfaChallenge cfg cr now sid token challenge code s of
      (Inl e, s') \<Rightarrow> as_sessions s' = as_sessions s
    | (Inr tk, s') \<Rightarrow> \<exists>i v. read_challenge cr challenge = Some i \<and> tk_userId tk = i \<and>
        find_by u_id i (as_users s) = Some v \<and> u_deletedAt v = None \<and> u_status v = ACTIVE \<and>
        u_mfaEnabled v \<and> truthy (u_mfaSecret v) \<and>
        (verifyTotp cr (the (u_mfaSecret v)) code \<and> as_recovery s' = as_recovery s \<or>
         unspent_codes cr i code (as_recovery s) = 1 \<and> unspent_codes cr i code (as_recovery s') = 0) \<and>
        as_sessions s' = insert_row (new_session cfg cr now sid i token) (as_sessions s))"
proof (intro conjI impI)
  assume "find_by_identifier raw (as_users s) = Some u \<and> u_mfaEnabled u \<and> truthy (u_mfaSecret u)"
  then show "as_sessions (snd (login cfg cr now sid token raw pw s)) = as_sessions s"
    and "\<forall>tk. fst (login cfg cr now sid token raw pw s) \<noteq> Inr (SignedIn tk)"
    by (simp_all add: login_def Let_def recordAttempt_def registerFailedAttempt_def)
next
  let ?Q = "case answerMfaChallenge cfg cr now sid token challenge code s of
      (Inl e, s') \<Rightarrow> as_sessions s' = as_sessions s
    | (Inr tk, s') \<Rightarrow> \<exists>i v. read_challenge cr challenge = Some i \<and> tk_userId tk = i \<and>
        find_by u_id i (as_users s) = Some v \<and> u_deletedAt v = None \<and> u_status v = ACTIVE \<and>
        u_mfaEnabled v \<and> truthy (u_mfaSecret v) \<and>
        (verifyTotp cr (the (u_mfaSecret v)) code \<and> as_recovery s' = as_recovery s \<or>
         unspent_codes cr i code (as_recovery s) = 1 \<and> unspent_codes cr i code (as_recovery s') = 0) \<and>
        as_sessions s' = insert_row (new_session cfg cr now sid i token) (as_sessions s)"
  show ?Q
  proof (cases "read_challenge cr challenge")
    case None
    then show ?thesis by (simp add: answerMfaChallenge_def)
  next
    case (Some i)
    show ?thesis
    proof (cases "find (\<lambda>u. u_id u = i \<and> u_deletedAt u = None) (as_users s)")
      case None
      with Some show ?thesis by (simp add: answerMfaChallenge_def)
    next
      case (Some v)
      note v = find_live_by_key [OF k Some]
      have vi: "u_id v = i" "u_deletedAt v = None" using Some by (auto simp: find_Some_iff)
      show ?thesis
      proof (cases "u_status v = ACTIVE \<and> fst (verifySecondFactor cr now i code s)")
        case True
        then have eq: "answerMfaChallenge cfg cr now sid token challenge code s =
            (Inr (fst (completeSignIn cfg cr now sid token v (u_email v) (snd (verifySecondFactor cr now i code s)))),
             snd (completeSignIn cfg cr now sid token v (u_email v) (snd (verifySecondFactor cr now i code s))))"
          using \<open>read_challenge cr challenge = Some i\<close> Some vi
          by (simp add: answerMfaChallenge_def case_prod_beta)
        show ?thesis
          unfolding eq using second_factor_spends [OF conjunct2 [OF True] v] True v vi
            \<open>read_challenge cr challenge = Some i\<close>
          by (simp add: completeSignIn_parts verify_second_factor_keeps)
      next
        case False
        then show ?thesis
          using \<open>read_challenge cr challenge = Some i\<close> Some vi verify_second_factor_keeps [of cr now i code s]
          by (auto simp: answerMfaChallenge_def case_prod_beta recordAttempt_def record_audit_def)
      qed
    qed
  qed
qed

definition demo_mfa_auth :: auth_state where
  "demo_mfa_auth = demo_auth\<lparr>as_users := [(demo_account ''u1'')\<lparr>u_mfaEnabled := True, u_mfaSecret := Some ''123456''\<rparr>]\<rparr>"

lemma demo_mfa_answer:
  "\<exists>tk s'. answerMfaChallenge demo_config demo_crypto 5 ''s9'' ''t'' ''u1'' ''123456'' demo_mfa_auth = (Inr tk, s')"
  by (simp add: answerMfaChallenge_def demo_crypto_def demo_mfa_auth_def demo_auth_def demo_account_def
      verifySecondFactor_def truthy_def verifyTotp_def is_totp_code_def is_space_def is_digit_def Let_def
      case_prod_beta)

lemma second_factor_required_witness:
  "as_sessions (snd (login demo_config demo_crypto 5 ''s9'' ''t'' ''u1@sihl.in'' ''pw'' demo_mfa_auth)) =
     as_sessions demo_mfa_auth \<and>
   length (as_sessions (snd (answerMfaChallenge demo_config demo_crypto 5 ''s9'' ''t'' ''u1'' ''123456'' demo_mfa_auth))) =
     Suc (length (as_sessions demo_mfa_auth))"
proof
  have k: "keys_unique u_id (as_users demo_mfa_auth)"
    by (simp add: demo_mfa_auth_def keys_unique_def)
  have "find_by_identifier ''u1@sihl.in'' (as_users demo_mfa_auth) =
      Some ((demo_account ''u1'')\<lparr>u_mfaEnabled := True, u_mfaSecret := Some ''123456''\<rparr>)"
    by code_simp
  then show "as_sessions (snd (login demo_config demo_crypto 5 ''s9'' ''t'' ''u1@sihl.in'' ''pw'' demo_mfa_auth)) =
     as_sessions demo_mfa_auth"
    using second_factor_required [OF k, of "''u1@sihl.in''"
        "(demo_account ''u1'')\<lparr>u_mfaEnabled := True, u_mfaSecret := Some ''123456''\<rparr>"]
    by (simp add: truthy_def)
  obtain tk s' where a: "answerMfaChallenge demo_config demo_crypto 5 ''s9'' ''t'' ''u1'' ''123456'' demo_mfa_auth = (Inr tk, s')"
    using demo_mfa_answer by blast
  show "length (as_sessions (snd (answerMfaChallenge demo_config demo_crypto 5 ''s9'' ''t'' ''u1'' ''123456'' demo_mfa_auth))) =
     Suc (length (as_sessions demo_mfa_auth))"
    using second_factor_required [where cfg = demo_config and cr = demo_crypto and now = 5
        and sid = "''s9''" and token = "''t''" and challenge = "''u1''" and code = "''123456''",
        OF k, THEN conjunct2]
    unfolding a by (auto simp: insert_row_def)
qed


section \<open>Rotation\<close>

definition live_sessions :: "string \<Rightarrow> auth_state \<Rightarrow> nat" where
  "live_sessions i s = count_where (\<lambda>e. se_userId e = i \<and> se_revokedAt e = None) (as_sessions s)"

lemma rotate_session_live:
  assumes k: "keys_unique se_id (as_sessions s)" and fresh: "sid \<notin> se_id ` set (as_sessions s)"
  shows "live_sessions i (snd (rotate_session cfg cr now sid token i0 s)) = live_sessions i s"
proof (cases "snd (rotate_session cfg cr now sid token i0 s) = s")
  case False
  then obtain e where e: "find_by se_id i0 (as_sessions s) = Some e" "se_revokedAt e = None"
    and eq: "as_sessions (snd (rotate_session cfg cr now sid token i0 s)) = update_by se_id i0
        (\<lambda>e. e\<lparr>se_revokedAt := Some now, se_revokedReason := Some ROTATED, se_replacedById := Some sid\<rparr>)
        (insert_row (new_session cfg cr now sid (se_userId e) token) (as_sessions s))"
    by (auto simp: rotate_session_def split: option.splits if_splits)
  let ?new = "new_session cfg cr now sid (se_userId e) token"
  have k': "keys_unique se_id (insert_row ?new (as_sessions s))"
    using k fresh by (simp add: new_session_def)
  have f': "find_by se_id i0 (insert_row ?new (as_sessions s)) = Some e"
    using e(1) by (simp add: find_by_insert_row)
  show ?thesis
    using count_where_update_one [OF k' f', of "\<lambda>e. se_userId e = i \<and> se_revokedAt e = None"
        "\<lambda>e. e\<lparr>se_revokedAt := Some now, se_revokedReason := Some ROTATED, se_replacedById := Some sid\<rparr>"] e(2)
    by (auto simp: live_sessions_def eq insert_row_def count_where_def new_session_def split: if_splits)
qed simp

lemma revoke_sessions_live: "count_where (\<lambda>e. se_userId e = j \<and> se_revokedAt e = None) (revoke_sessions i now why es) =
    (if j = i then 0 else count_where (\<lambda>e. se_userId e = j \<and> se_revokedAt e = None) es)"
  by (induction es) (auto simp: revoke_sessions_def count_where_def)

lemma update_session_live:
  assumes "\<And>e. se_userId (f e) = se_userId e" and "\<And>e. se_revokedAt (f e) \<noteq> None"
  shows "count_where (\<lambda>e. se_userId e = j \<and> se_revokedAt e = None) (update_by se_id k f es) \<le>
    count_where (\<lambda>e. se_userId e = j \<and> se_revokedAt e = None) es"
  unfolding update_by_def by (induction es) (auto simp: count_where_def assms)

text \<open>
  Refreshing never multiplies sessions: whatever token is presented, no account ends up with
  more unrevoked sessions than before, and a refresh that hands out tokens leaves the number of
  unrevoked sessions of every account exactly as it was, one retired for the one created.
\<close>

theorem refresh_keeps_session_count:
  assumes "keys_unique se_id (as_sessions s)" and "sid \<notin> se_id ` set (as_sessions s)"
  shows "live_sessions i (snd (refresh_session cfg cr now sid token presented s)) \<le> live_sessions i s \<and>
    (fst (refresh_session cfg cr now sid token presented s) = Inr tk \<longrightarrow>
      live_sessions i (snd (refresh_session cfg cr now sid token presented s)) = live_sessions i s)"
proof (cases "find_by se_refreshTokenHash (hash_token cr presented) (as_sessions s)")
  case None
  then show ?thesis by (simp add: refresh_session_def)
next
  case (Some e)
  have rot: "live_sessions i (snd (rotate_session cfg cr now sid token j s)) = live_sessions i s" for j
    by (rule rotate_session_live [OF assms])
  have idle: "live_sessions i (s\<lparr>as_sessions := update_by se_id (se_id e)
      (\<lambda>e. e\<lparr>se_revokedAt := Some now, se_revokedReason := Some IDLE_TIMEOUT\<rparr>) (as_sessions s)\<rparr>) \<le> live_sessions i s"
    by (simp add: live_sessions_def update_session_live)
  have reuse: "live_sessions i (s\<lparr>as_sessions := revoke_sessions (se_userId e) now (Some TOKEN_REUSE_DETECTED)
      (as_sessions s)\<rparr>) \<le> live_sessions i s"
    by (simp add: live_sessions_def revoke_sessions_live)
  show ?thesis
    using Some rot idle reuse by (auto simp: refresh_session_def split: option.split)
qed

definition demo_hashing :: crypto where
  "demo_hashing = demo_crypto\<lparr>hash_token := (\<lambda>t. ''h'' @ t)\<rparr>"

lemma demo_hashing_token [simp]: "hash_token demo_hashing t = ''h'' @ t"
  by (simp add: demo_hashing_def)

definition demo_rotated :: auth_state where
  "demo_rotated = snd (refresh_session demo_config demo_hashing 1000 ''s2'' ''s2'' ''s1'' demo_auth)"

lemma refresh_keeps_session_count_witness:
  "\<exists>tk. fst (refresh_session demo_config demo_hashing 1000 ''s2'' ''s2'' ''s1'' demo_auth) = Inr tk \<and>
    live_sessions ''u1'' demo_rotated = 1"
proof -
  obtain tk where tk: "fst (refresh_session demo_config demo_hashing 1000 ''s2'' ''s2'' ''s1'' demo_auth) = Inr tk"
    by (simp add: refresh_session_def demo_auth_def demo_session_def demo_account_def demo_config_def
        demo_crypto_def rotate_session_def)
  have "live_sessions ''u1'' demo_rotated = live_sessions ''u1'' demo_auth"
    unfolding demo_rotated_def
    by (rule refresh_keeps_session_count [THEN conjunct2, THEN mp, OF _ _ tk])
      (simp_all add: demo_auth_def demo_session_def keys_unique_def)
  also have "\<dots> = 1" by (simp add: live_sessions_def demo_auth_def demo_session_def count_where_def)
  finally show ?thesis using tk by blast
qed

lemma follow_chain_live: "follow_chain n rows i = Some e \<Longrightarrow> se_revokedAt e = None"
  by (induction n rows i rule: follow_chain.induct) (auto split: if_splits option.splits)

lemma live_successor_None:
  assumes "se_revokedAt e = Some t"
    and "se_revokedReason e \<noteq> Some ROTATED \<or> t + ROTATION_GRACE_MS < now \<or>
      se_replacedById e = None \<or> followRotationChain rows (the (se_replacedById e)) = None"
  shows "live_successor now rows e = None"
  using assms by (auto simp: live_successor_def rotated_recently_def truthy_def)

text \<open>
  C7. A superseded refresh token opens no second session. Presented outside the thirty-second
  grace window, or retired by anything but a rotation, or when its chain no longer leads to an
  unrevoked session, it is refused and every session of that account is revoked, while no other
  account is touched. Presented inside the window while the chain leads to an unrevoked session,
  it rotates that session and nothing else: no account gains an unrevoked session by it.
\<close>

theorem refresh_reuse_revokes_all:
  assumes k: "keys_unique se_id (as_sessions s)" and fresh: "sid \<notin> se_id ` set (as_sessions s)"
    and "find_by se_refreshTokenHash (hash_token cr presented) (as_sessions s) = Some e"
    and "se_revokedAt e = Some t"
  shows "(se_revokedReason e \<noteq> Some ROTATED \<or> t + ROTATION_GRACE_MS < now \<or>
      se_replacedById e = None \<or> followRotationChain (as_sessions s) (the (se_replacedById e)) = None \<longrightarrow>
    fst (refresh_session cfg cr now sid token presented s) = Inl (Unauthorized ''Session expired'') \<and>
    live_sessions (se_userId e) (snd (refresh_session cfg cr now sid token presented s)) = 0 \<and>
    filter (\<lambda>x. se_userId x \<noteq> se_userId e) (as_sessions (snd (refresh_session cfg cr now sid token presented s))) =
      filter (\<lambda>x. se_userId x \<noteq> se_userId e) (as_sessions s)) \<and>
   (\<forall>i successor. se_revokedReason e = Some ROTATED \<and> now \<le> t + ROTATION_GRACE_MS \<and> truthy (se_replacedById e) \<and>
      followRotationChain (as_sessions s) (the (se_replacedById e)) = Some successor \<longrightarrow>
    se_revokedAt successor = None \<and>
    refresh_session cfg cr now sid token presented s = rotate_session cfg cr now sid token (se_id successor) s \<and>
    live_sessions i (snd (refresh_session cfg cr now sid token presented s)) = live_sessions i s)"
proof (intro conjI impI allI; (elim conjE)?)
  assume "se_revokedReason e \<noteq> Some ROTATED \<or> t + ROTATION_GRACE_MS < now \<or>
      se_replacedById e = None \<or> followRotationChain (as_sessions s) (the (se_replacedById e)) = None"
  note none = live_successor_None [OF assms(4) this]
  show "fst (refresh_session cfg cr now sid token presented s) = Inl (Unauthorized ''Session expired'')"
    and "live_sessions (se_userId e) (snd (refresh_session cfg cr now sid token presented s)) = 0"
    and "filter (\<lambda>x. se_userId x \<noteq> se_userId e) (as_sessions (snd (refresh_session cfg cr now sid token presented s))) =
      filter (\<lambda>x. se_userId x \<noteq> se_userId e) (as_sessions s)"
    using assms(3,4) none by (simp_all add: refresh_session_def live_sessions_def revoke_sessions_live revoke_sessions_others)
next
  fix i successor
  assume g: "se_revokedReason e = Some ROTATED" "now \<le> t + ROTATION_GRACE_MS" "truthy (se_replacedById e)"
    "followRotationChain (as_sessions s) (the (se_replacedById e)) = Some successor"
  then have "live_successor now (as_sessions s) e = Some successor"
    using assms(4) by (simp add: live_successor_def rotated_recently_def)
  then have eq: "refresh_session cfg cr now sid token presented s = rotate_session cfg cr now sid token (se_id successor) s"
    using assms(3,4) by (simp add: refresh_session_def)
  show "se_revokedAt successor = None"
    using g(4) follow_chain_live by (simp add: followRotationChain_def)
  show "refresh_session cfg cr now sid token presented s = rotate_session cfg cr now sid token (se_id successor) s"
    by (rule eq)
  show "live_sessions i (snd (refresh_session cfg cr now sid token presented s)) = live_sessions i s"
    unfolding eq by (rule rotate_session_live [OF k fresh])
qed

lemma demo_rotated_sessions: "as_sessions demo_rotated =
    [(demo_session ''s1'' ''u1'')\<lparr>se_revokedAt := Some 1000, se_revokedReason := Some ROTATED, se_replacedById := Some ''s2''\<rparr>,
     (demo_session ''s2'' ''u1'')\<lparr>se_expiresAt := 86401000, se_lastSeenAt := 1000\<rparr>]"
  by (simp add: demo_rotated_def refresh_session_def demo_auth_def demo_session_def demo_account_def demo_config_def
      demo_crypto_def rotate_session_def new_session_def insert_row_def update_by_def)

lemma refresh_reuse_revokes_all_witness:
  "live_sessions ''u1'' (snd (refresh_session demo_config demo_hashing 40000 ''s3'' ''s3'' ''s1'' demo_rotated)) = 0 \<and>
   live_sessions ''u1'' (snd (refresh_session demo_config demo_hashing 2000 ''s3'' ''s3'' ''s1'' demo_rotated)) = 1"
proof -
  let ?e = "(demo_session ''s1'' ''u1'')\<lparr>se_revokedAt := Some 1000, se_revokedReason := Some ROTATED, se_replacedById := Some ''s2''\<rparr>"
  let ?n = "(demo_session ''s2'' ''u1'')\<lparr>se_expiresAt := 86401000, se_lastSeenAt := 1000\<rparr>"
  have k: "keys_unique se_id (as_sessions demo_rotated)" "''s3'' \<notin> se_id ` set (as_sessions demo_rotated)"
    by (simp_all add: demo_rotated_sessions demo_session_def keys_unique_def)
  have e: "find_by se_refreshTokenHash (hash_token demo_hashing ''s1'') (as_sessions demo_rotated) = Some ?e" "se_revokedAt ?e = Some 1000"
    by (simp_all add: demo_rotated_sessions demo_session_def)
  have chain: "followRotationChain (as_sessions demo_rotated) ''s2'' = Some ?n"
    by (simp add: followRotationChain_def ROTATION_CHAIN_MAX_HOPS_def numeral_eq_Suc truthy_def
        demo_rotated_sessions demo_session_def)
  have one: "live_sessions ''u1'' demo_rotated = 1"
    by (simp add: live_sessions_def demo_rotated_sessions demo_session_def count_where_def)
  note reuse = refresh_reuse_revokes_all [OF k e]
  have "live_sessions ''u1'' (snd (refresh_session demo_config demo_hashing 40000 ''s3'' ''s3'' ''s1'' demo_rotated)) = 0"
    using reuse [THEN conjunct1, of 40000 demo_config "''s3''"] by (simp add: ROTATION_GRACE_MS_def demo_session_def)
  moreover have "live_sessions ''u1'' (snd (refresh_session demo_config demo_hashing 2000 ''s3'' ''s3'' ''s1'' demo_rotated)) = 1"
    by (rule trans [OF reuse [THEN conjunct2, THEN spec, THEN spec, THEN mp, THEN conjunct2, THEN conjunct2] one])
      (simp add: chain ROTATION_GRACE_MS_def truthy_def)
  ultimately show ?thesis ..
qed

text \<open>
  The path that follows a rotation chain inside the grace window repeats neither the status
  check nor the idle check of the ordinary path: for a suspended account the current token is
  refused, yet the token it replaced is answered with a fresh pair within thirty seconds, and so
  is a session idle for longer than the configured limit.
\<close>

theorem refresh_grace_skips_account_checks:
  "let cr = demo_hashing;
       suspended = demo_rotated\<lparr>as_users := [(demo_account ''u1'')\<lparr>u_status := SUSPENDED\<rparr>]\<rparr>;
       tight = demo_config\<lparr>ac_idleTimeoutMinutes := 0\<rparr>
   in fst (refresh_session demo_config cr 2000 ''s3'' ''s3'' ''s2'' suspended) = Inl (Unauthorized ''Session expired'') \<and>
      (\<exists>tk. fst (refresh_session demo_config cr 2000 ''s3'' ''s3'' ''s1'' suspended) = Inr tk) \<and>
      fst (refresh_session tight cr 2000 ''s3'' ''s3'' ''s2'' demo_rotated) = Inl (Unauthorized ''Signed out for inactivity'') \<and>
      (\<exists>tk. fst (refresh_session tight cr 2000 ''s3'' ''s3'' ''s1'' demo_rotated) = Inr tk)"
proof -
  have users: "as_users demo_rotated = [demo_account ''u1'']"
    by (simp add: demo_rotated_def refresh_session_def demo_auth_def demo_session_def demo_account_def demo_config_def
      demo_crypto_def rotate_session_def)
  have chain: "followRotationChain (as_sessions demo_rotated) ''s2'' =
      Some ((demo_session ''s2'' ''u1'')\<lparr>se_expiresAt := 86401000, se_lastSeenAt := 1000\<rparr>)"
    by (simp add: followRotationChain_def ROTATION_CHAIN_MAX_HOPS_def numeral_eq_Suc truthy_def
        demo_rotated_sessions demo_session_def)
  show ?thesis
    using chain
    by (simp add: Let_def refresh_session_def demo_rotated_sessions users demo_session_def demo_account_def
        live_successor_def rotated_recently_def ROTATION_GRACE_MS_def truthy_def rotate_session_def demo_config_def)
qed


section \<open>Reset links\<close>

lemma reset_write_used:
  assumes "find_by rt_tokenHash h (as_resets s) = Some q" and "rt_userId q = rt_userId r"
  shows "\<exists>q'. find_by rt_tokenHash h (as_resets (reset_write cr now r new s)) = Some q' \<and> rt_usedAt q' \<noteq> None"
  using assms
  by (auto simp: reset_write_def Let_def record_audit_def update_by_def find_by_update_where)

lemma reset_write_users:
  "find_by u_id i (as_users (reset_write cr now r new s)) =
    (if i = rt_userId r
     then map_option (\<lambda>u. u\<lparr>u_passwordHash := Some (hash_password cr new), u_mustChangePassword := False,
                      u_passwordChangedAt := Some now, u_failedLoginAttempts := 0, u_lockedUntil := None\<rparr>)
            (find_by u_id i (as_users s))
     else find_by u_id i (as_users s))"
  by (simp add: reset_write_def Let_def record_audit_def find_by_update_by)

text \<open>
  A successful reset spends every outstanding link of the account: the same link and any other
  issued to the account are refused afterwards, every session of the account is revoked, the
  lockout is cleared, the stored password is the new one, and no other account's row changes.
\<close>

theorem reset_link_single_use:
  assumes "resetPassword cr now tok new s = (Inr (), s')"
    and "find_by rt_tokenHash (hash_token cr (js_trim tok)) (as_resets s) = Some r"
    and "find_by rt_tokenHash (hash_token cr (js_trim tok2)) (as_resets s) = Some q"
    and "rt_userId q = rt_userId r"
  shows "fst (resetPassword cr later tok2 pw s') = Inl (BadRequest ''This reset link is no longer valid'') \<and>
    live_sessions (rt_userId r) s' = 0 \<and>
    (\<exists>u. find_by u_id (rt_userId r) (as_users s') = Some u \<and> u_passwordHash u = Some (hash_password cr new) \<and>
      u_failedLoginAttempts u = 0 \<and> u_lockedUntil u = None) \<and>
    (\<forall>i. i \<noteq> rt_userId r \<longrightarrow> find_by u_id i (as_users s') = find_by u_id i (as_users s))"
proof -
  have s': "s' = reset_write cr now r new s" and read: "reset_read cr now tok s = Inr r"
    using assms(1,2) by (auto simp: resetPassword_def reset_read_def split: sum.splits option.splits if_splits)
  obtain u where u: "find_by u_id (rt_userId r) (as_users s) = Some u"
    using read assms(2) by (auto simp: reset_read_def split: option.splits if_splits)
  obtain q' where "find_by rt_tokenHash (hash_token cr (js_trim tok2)) (as_resets s') = Some q'" "rt_usedAt q' \<noteq> None"
    using reset_write_used [OF assms(3,4)] s' by blast
  then have "fst (resetPassword cr later tok2 pw s') = Inl (BadRequest ''This reset link is no longer valid'')"
    by (simp add: resetPassword_def reset_read_def)
  moreover have "live_sessions (rt_userId r) s' = 0"
    by (simp add: s' live_sessions_def reset_write_def Let_def record_audit_def revoke_sessions_live)
  ultimately show ?thesis using u by (simp add: s' reset_write_users)
qed

definition demo_reset :: auth_state where
  "demo_reset = requestPasswordReset demo_hashing 5 ''r1'' ''link'' ''u1@sihl.in'' demo_auth"

lemma demo_reset_rows: "as_resets demo_reset = [\<lparr>rt_id = ''r1'', rt_userId = ''u1'', rt_tokenHash = ''hlink'',
    rt_createdAt = 5, rt_expiresAt = 1800005, rt_usedAt = None\<rparr>]" "as_users demo_reset = [demo_account ''u1'']"
proof -
  have "find_by_identifier ''u1@sihl.in'' (as_users demo_auth) = Some (demo_account ''u1'')" by code_simp
  then show "as_resets demo_reset = [\<lparr>rt_id = ''r1'', rt_userId = ''u1'', rt_tokenHash = ''hlink'',
    rt_createdAt = 5, rt_expiresAt = 1800005, rt_usedAt = None\<rparr>]" "as_users demo_reset = [demo_account ''u1'']"
    by (simp_all add: demo_reset_def requestPasswordReset_def demo_account_def demo_auth_def record_audit_def
        count_where_def insert_row_def PASSWORD_RESET_TTL_MINUTES_def)
qed

lemma demo_reset_read: "reset_read demo_hashing now ''link'' demo_reset =
    (if 1800005 < now then Inl (BadRequest ''This reset link is no longer valid'')
     else Inr \<lparr>rt_id = ''r1'', rt_userId = ''u1'', rt_tokenHash = ''hlink'',
       rt_createdAt = 5, rt_expiresAt = 1800005, rt_usedAt = None\<rparr>)"
proof -
  have "js_trim ''link'' = ''link''" by code_simp
  then show ?thesis by (simp add: reset_read_def demo_reset_rows demo_account_def)
qed

lemma reset_link_single_use_witness:
  "fst (resetPassword demo_hashing 7 ''link'' ''other'' (snd (resetPassword demo_hashing 6 ''link'' ''newpw'' demo_reset))) =
    Inl (BadRequest ''This reset link is no longer valid'')"
proof -
  have spent: "resetPassword demo_hashing 6 ''link'' ''newpw'' demo_reset =
      (Inr (), snd (resetPassword demo_hashing 6 ''link'' ''newpw'' demo_reset))"
    by (simp add: resetPassword_def demo_reset_read)
  have "js_trim ''link'' = ''link''" by code_simp
  then have row: "find_by rt_tokenHash (hash_token demo_hashing (js_trim ''link'')) (as_resets demo_reset) =
      Some \<lparr>rt_id = ''r1'', rt_userId = ''u1'', rt_tokenHash = ''hlink'',
        rt_createdAt = 5, rt_expiresAt = 1800005, rt_usedAt = None\<rparr>"
    by (simp add: demo_reset_rows)
  show ?thesis using reset_link_single_use [OF spent row row HOL.refl] by simp
qed

text \<open>
  The single use does not survive a race: two requests that both read the link before either
  writes both pass the check, and both writes go through, the second overwriting the password the
  first one set, because the transaction never looks at \<open>usedAt\<close> again.
\<close>

theorem reset_link_race:
  "\<exists>r. reset_read demo_hashing 6 ''link'' demo_reset = Inr r \<and> reset_read demo_hashing 7 ''link'' demo_reset = Inr r \<and>
    (let first = reset_write demo_hashing 8 r ''mine'' demo_reset; second = reset_write demo_hashing 9 r ''theirs'' first
     in map_option u_passwordHash (find_by u_id ''u1'' (as_users first)) = Some (Some ''mine'') \<and>
        map_option u_passwordHash (find_by u_id ''u1'' (as_users second)) = Some (Some ''theirs''))"
proof -
  have hash: "hash_password demo_hashing p = p" for p
    by (simp add: demo_hashing_def demo_crypto_def)
  show ?thesis
    by (rule exI [of _ "\<lparr>rt_id = ''r1'', rt_userId = ''u1'', rt_tokenHash = ''hlink'',
          rt_createdAt = 5, rt_expiresAt = 1800005, rt_usedAt = None\<rparr>"])
      (simp add: demo_reset_read Let_def reset_write_users demo_reset_rows demo_account_def hash)
qed

section \<open>Signing in with a mobile number\<close>

text \<open>
  What a stored mobile number looks like: \<open>indianMobileSchema\<close> of
  \<open>packages/contracts/src/common.ts\<close>, which strips a country code or a trunk zero only when a
  whole number remains.
\<close>

definition is_indian_mobile :: "string \<Rightarrow> bool" where
  "is_indian_mobile d \<longleftrightarrow> length d = 10 \<and> list_all is_digit d \<and> CHR ''6'' \<le> hd d"

definition indianMobile :: "string \<Rightarrow> string option" where
  "indianMobile value =
    (let bare = filter (\<lambda>c. \<not> is_space c \<and> c \<noteq> CHR ''-'') (js_trim value);
         digits = (if prefix ''+'' bare then drop 1 bare else bare);
         number = (if length digits = 12 \<and> prefix ''91'' digits then drop 2 digits
                   else if length digits = 11 \<and> prefix ''0'' digits then drop 1 digits
                   else digits)
     in if is_indian_mobile number then Some number else None)"

text \<open>
  A subscriber number that itself begins with 91, which the number's schema accepts and stores
  whole, cannot be used to sign in: the login strips the two digits before it looks the number up,
  so an account found by nothing but its mobile is reported as unknown.
\<close>

theorem mobile_beginning_91_cannot_sign_in:
  assumes "\<forall>u \<in> set users. (\<forall>m. u_mobile u = Some m \<longrightarrow> is_indian_mobile m) \<and>
      u_email u \<noteq> raw \<and> u_employeeCode u \<noteq> Some raw"
    and "is_indian_mobile raw" and "prefix ''91'' raw"
  shows "indianMobile raw = Some raw \<and> find_by_identifier raw users = None"
proof -
  have dig: "list_all is_digit raw" and len: "length raw = 10" using assms(2) by (auto simp: is_indian_mobile_def)
  have plain: "\<not> is_space c" "lower_char c = c" "upper_char c = c" "c \<noteq> CHR ''-''" if "c \<in> set raw" for c
    using dig that is_digit_not_space
    by (auto simp: list_all_iff is_digit_def lower_char_def upper_char_def is_upper_def is_lower_def)
  have drop: "dropWhile is_space xs = xs" if "\<forall>c \<in> set xs. \<not> is_space c" for xs
    using that by (cases xs) auto
  have trim: "js_trim raw = raw" using plain(1) by (simp add: js_trim_def drop)
  have low: "to_lower raw = raw" "to_upper raw = raw"
    using plain(2,3) by (simp_all add: to_lower_def to_upper_def map_idI)
  have strip: "strip_country raw = drop 2 raw"
    using assms(3) by (auto simp: strip_country_def prefix_def)
  have "\<not> login_matches raw u" if "u \<in> set users" for u
    using assms(1) that len
    by (auto simp: login_matches_def trim low strip is_indian_mobile_def)
  then have "find_by_identifier raw users = None"
    by (simp add: find_by_identifier_matches find_None_iff)
  moreover have "indianMobile raw = Some raw"
  proof -
    have "filter (\<lambda>c. \<not> is_space c \<and> c \<noteq> CHR ''-'') raw = raw" using plain(1,4) by simp
    moreover have "\<not> prefix ''+'' raw" using assms(3) by (auto simp: prefix_def)
    ultimately show ?thesis using assms(2) len by (simp add: indianMobile_def trim Let_def)
  qed
  ultimately show ?thesis by simp
qed

lemma mobile_beginning_91_cannot_sign_in_witness:
  "find_by_identifier ''9123456789'' [(demo_account ''u1'')\<lparr>u_mobile := Some ''9123456789''\<rparr>] = None \<and>
   find_by_identifier ''9823456789'' [(demo_account ''u1'')\<lparr>u_mobile := Some ''9823456789''\<rparr>] \<noteq> None"
proof
  have m: "is_indian_mobile ''9123456789''" by code_simp
  show "find_by_identifier ''9123456789'' [(demo_account ''u1'')\<lparr>u_mobile := Some ''9123456789''\<rparr>] = None"
    using mobile_beginning_91_cannot_sign_in [of "[(demo_account ''u1'')\<lparr>u_mobile := Some ''9123456789''\<rparr>]" "''9123456789''"] m
    by (simp add: demo_account_def)
  show "find_by_identifier ''9823456789'' [(demo_account ''u1'')\<lparr>u_mobile := Some ''9823456789''\<rparr>] \<noteq> None"
    by code_simp
qed

end
