(* ===== verification/Users.thy ===== *)
theory Users
  imports Accounts
begin

text \<open>
  User administration: \<open>packages/contracts/src/hierarchy.ts\<close> and
  \<open>apps/api/src/modules/users/user-admin.service.ts\<close>. The role table of the database
  (\<open>ad_roles\<close>) says what a role's holder may do; the granting check reads the matrix compiled
  into the contracts. \<open>strip_accents\<close> is Unicode decomposition followed by dropping the combining
  marks, an argument of the definitions that use it; the references of new rows and the delivery
  of mail are not modelled.
\<close>

section \<open>The hierarchy's rules\<close>

record designation =
  de_id :: string
  de_code :: string
  de_name :: string
  de_level :: int
  de_defaultScope :: data_scope
  de_isActive :: bool
  de_canAccessEvents :: bool
  de_isSystem :: bool

record actor_context =
  ax_level :: "int option"
  ax_path :: "string option"
  ax_permissions :: "permission list"
  ax_unrestricted :: bool

record target_context =
  tx_level :: int
  tx_path :: "string option"
  tx_roles :: "role list"

datatype manage_refusal = NoDesignation | PeerOrSenior | NoBranch | OutsideBranch

definition canManageUserAt :: "actor_context \<Rightarrow> target_context \<Rightarrow> manage_refusal option" where
  "canManageUserAt actor target =
    (if ax_unrestricted actor then None
     else case ax_level actor of
            None \<Rightarrow> Some NoDesignation
          | Some l \<Rightarrow>
              (if tx_level target \<ge> l then Some PeerOrSenior
               else if \<not> truthy (ax_path actor) then Some NoBranch
               else if \<not> truthy (tx_path target) \<or> \<not> prefix (the (ax_path actor)) (the (tx_path target))
               then Some OutsideBranch
               else None))"

fun first_ungrantable ::
  "permission list \<Rightarrow> (role \<Rightarrow> permission list) \<Rightarrow> role list \<Rightarrow> (role \<times> permission list) option" where
  "first_ungrantable granted rolePermissions [] = None"
| "first_ungrantable granted rolePermissions (r # rs) =
    (let missing = filter (\<lambda>p. p \<notin> set granted) (rolePermissions r)
     in if missing \<noteq> [] then Some (r, missing) else first_ungrantable granted rolePermissions rs)"

definition canGrantRoles ::
  "permission list \<Rightarrow> (role \<Rightarrow> permission list) \<Rightarrow> role list \<Rightarrow> bool \<Rightarrow> (role \<times> permission list) option" where
  "canGrantRoles actorPermissions rolePermissions roleCodes isUnrestricted =
    (if isUnrestricted then None else first_ungrantable actorPermissions rolePermissions roleCodes)"

definition validateReportingLine :: "int \<Rightarrow> int option \<Rightarrow> bool" where
  "validateReportingLine reportLevel managerLevel =
    (case managerLevel of None \<Rightarrow> True | Some m \<Rightarrow> \<not> m \<le> reportLevel)"

definition scopeForDesignation :: "data_scope \<Rightarrow> data_scope option \<Rightarrow> data_scope" where
  "scopeForDesignation designationDefault requested =
    (case requested of
       None \<Rightarrow> designationDefault
     | Some q \<Rightarrow>
         (if index_of DATA_SCOPES q < index_of DATA_SCOPES designationDefault then designationDefault else q))"

section \<open>Generated identity\<close>

definition WORK_EMAIL_DOMAIN :: string where
  "WORK_EMAIL_DOMAIN = ''sihl.in''"

definition formatStaffCode :: "nat \<Rightarrow> string" where
  "formatStaffCode sequence = ''SIHL-'' @ pad_start 4 (show_nat sequence)"

definition clean_name :: "(string \<Rightarrow> string) \<Rightarrow> string \<Rightarrow> string" where
  "clean_name strip_accents v =
    filter (\<lambda>c. is_lower c \<or> is_digit c) (to_lower (strip_accents v))"

definition emailLocalPart :: "(string \<Rightarrow> string) \<Rightarrow> string \<Rightarrow> string \<Rightarrow> string" where
  "emailLocalPart strip_accents firstName lastName =
    (let first = clean_name strip_accents firstName; last = clean_name strip_accents lastName
     in if first = [] \<and> last = [] then []
        else if last = [] then first
        else if first = [] then last
        else first @ ''.'' @ last)"

definition email_candidate :: "string \<Rightarrow> nat \<Rightarrow> string" where
  "email_candidate loc n =
    loc @ (if n = 0 then [] else show_nat (n + 1)) @ ''@'' @ WORK_EMAIL_DOMAIN"

definition suggestWorkEmail ::
  "(string \<Rightarrow> string) \<Rightarrow> string \<Rightarrow> string \<Rightarrow> string list \<Rightarrow> string option" where
  "suggestWorkEmail strip_accents firstName lastName taken =
    (let loc = emailLocalPart strip_accents firstName lastName;
         used = map (\<lambda>v. to_lower (js_trim v)) taken
     in if loc = [] then None
        else find (\<lambda>candidate. candidate \<notin> set used) (map (email_candidate loc) [0..<100]))"

section \<open>Temporary passwords\<close>

text \<open>
  \<open>pick k n\<close> is what the k-th call of \<open>randomInt(n)\<close> returns, some number below \<open>n\<close>.
\<close>

definition pool_upper :: string where "pool_upper = ''ABCDEFGHJKLMNPQRSTUVWXYZ''"
definition pool_lower :: string where "pool_lower = ''abcdefghijkmnopqrstuvwxyz''"
definition pool_digits :: string where "pool_digits = ''23456789''"
definition pool_symbols :: string where "pool_symbols = ''!@#$%&*?''"

definition pool_all :: string where
  "pool_all = pool_upper @ pool_lower @ pool_digits @ pool_symbols"

definition pick_from :: "(nat \<Rightarrow> nat \<Rightarrow> nat) \<Rightarrow> nat \<Rightarrow> string \<Rightarrow> char" where
  "pick_from pick k pool = pool ! pick k (length pool)"

definition swap_at :: "'a list \<Rightarrow> nat \<Rightarrow> nat \<Rightarrow> 'a list" where
  "swap_at xs i j = xs[i := xs ! j, j := xs ! i]"

fun shuffle :: "(nat \<Rightarrow> nat \<Rightarrow> nat) \<Rightarrow> nat \<Rightarrow> nat \<Rightarrow> 'a list \<Rightarrow> 'a list" where
  "shuffle pick k 0 xs = xs"
| "shuffle pick k (Suc i) xs = shuffle pick (k + 1) i (swap_at xs (Suc i) (pick k (Suc i + 1)))"

definition generateTemporaryPassword :: "(nat \<Rightarrow> nat \<Rightarrow> nat) \<Rightarrow> string" where
  "generateTemporaryPassword pick =
    (let first = [pick_from pick 0 pool_upper, pick_from pick 1 pool_lower,
                  pick_from pick 2 pool_digits, pick_from pick 3 pool_symbols];
         rest = map (\<lambda>k. pick_from pick k pool_all) [4..<14]
     in shuffle pick 14 13 (first @ rest))"

definition password_policy :: "string \<Rightarrow> bool" where
  "password_policy p \<longleftrightarrow> 8 \<le> length p \<and> length p \<le> 128 \<and> list_ex is_upper p \<and> list_ex is_lower p \<and>
    list_ex is_digit p \<and> list_ex (\<lambda>c. \<not> (is_upper c \<or> is_lower c \<or> is_digit c)) p"

section \<open>State and inputs\<close>

record admin_state =
  ad_users :: "account list"
  ad_designations :: "designation list"
  ad_units :: "org_unit list"
  ad_sessions :: "session list"
  ad_roles :: "role \<Rightarrow> permission list"
  ad_staffCounter :: nat
  ad_audit :: "audit_entry list"

record create_user_input =
  cu_firstName :: string
  cu_lastName :: string
  cu_email :: "string option"
  cu_mobile :: "string option"
  cu_employeeCode :: "string option"
  cu_designationId :: string
  cu_roleCodes :: "role list"
  cu_orgUnitId :: string
  cu_managerId :: "string option"
  cu_dataScope :: "data_scope option"
  cu_userType :: user_type

text \<open>A field that can be absent, null or a value is an option of an option.\<close>

record update_user_input =
  uu_firstName :: "string option"
  uu_lastName :: "string option"
  uu_mobile :: "string option"
  uu_employeeCode :: "string option"
  uu_designationId :: "string option"
  uu_roleCodes :: "role list option"
  uu_orgUnitId :: "string option"
  uu_managerId :: "string option option"
  uu_dataScope :: "data_scope option option"
  uu_status :: "user_status option"

interpretation designations: repository "find_by de_id" "update_by de_id" insert_row de_id
  by (rule repository_by)

section \<open>Checks\<close>

definition user_designation :: "admin_state \<Rightarrow> account \<Rightarrow> designation option" where
  "user_designation s u = Option.bind (u_designationId u) (\<lambda>i. find_by de_id i (ad_designations s))"

definition user_unit :: "admin_state \<Rightarrow> account \<Rightarrow> org_unit option" where
  "user_unit s u = Option.bind (u_orgUnitId u) (\<lambda>i. find_by ou_id i (ad_units s))"

definition actorContext :: "admin_state \<Rightarrow> principal \<Rightarrow> actor_context" where
  "actorContext s actor =
    (let user = find_by u_id (pr_id actor) (ad_users s)
     in \<lparr>ax_level = map_option de_level (Option.bind user (user_designation s)),
         ax_path = map_option ou_path (Option.bind user (user_unit s)),
         ax_permissions = pr_permissions actor,
         ax_unrestricted = ''system:configure'' \<in> set (pr_permissions actor)\<rparr>)"

definition assertCanManage :: "actor_context \<Rightarrow> target_context \<Rightarrow> unit result" where
  "assertCanManage ctx target =
    (if canManageUserAt ctx target \<noteq> None then Inl (Forbidden ''Not permitted'') else Inr ())"

definition assertCanGrant :: "actor_context \<Rightarrow> role list \<Rightarrow> unit result" where
  "assertCanGrant ctx roleCodes =
    (if canGrantRoles (ax_permissions ctx) ROLE_PERMISSIONS roleCodes (ax_unrestricted ctx) \<noteq> None
     then Inl (Forbidden ''Cannot grant that role'') else Inr ())"

definition assertReportingLine :: "admin_state \<Rightarrow> string \<Rightarrow> int \<Rightarrow> unit result" where
  "assertReportingLine s managerId reportLevel =
    (case find (\<lambda>u. u_id u = managerId \<and> u_deletedAt u = None) (ad_users s) of
       None \<Rightarrow> Inl (BadRequest ''Manager not found'')
     | Some m \<Rightarrow>
         (if \<not> validateReportingLine reportLevel (map_option de_level (user_designation s m))
          then Inl (BadRequest ''Invalid reporting line'') else Inr ()))"

definition assertEmployeeCodeFree :: "admin_state \<Rightarrow> string \<Rightarrow> string option \<Rightarrow> unit result" where
  "assertEmployeeCodeFree s code except =
    (if \<exists>u \<in> set (ad_users s). u_employeeCode u = Some code \<and> u_deletedAt u = None \<and>
        (truthy except \<longrightarrow> u_id u \<noteq> the except)
     then Inl (BadRequest ''Employee code already in use'') else Inr ())"

definition mustFindDesignation :: "admin_state \<Rightarrow> string \<Rightarrow> designation result" where
  "mustFindDesignation s i =
    (case find (\<lambda>d. de_id d = i \<and> de_isActive d) (ad_designations s) of
       None \<Rightarrow> Inl (BadRequest ''Unknown designation'') | Some d \<Rightarrow> Inr d)"

definition mustFindOrgUnit :: "admin_state \<Rightarrow> string \<Rightarrow> org_unit result" where
  "mustFindOrgUnit s i =
    (case find (\<lambda>r. ou_id r = i \<and> ou_isActive r) (ad_units s) of
       None \<Rightarrow> Inl (BadRequest ''Unknown branch'') | Some r \<Rightarrow> Inr r)"

fun staff_code_loop :: "nat \<Rightarrow> account list \<Rightarrow> nat \<Rightarrow> string option \<times> nat" where
  "staff_code_loop 0 users counter = (None, counter)"
| "staff_code_loop (Suc attempts) users counter =
    (let code = formatStaffCode (counter + 1)
     in if \<exists>u \<in> set users. u_employeeCode u = Some code \<and> u_deletedAt u = None
        then staff_code_loop attempts users (counter + 1)
        else (Some code, counter + 1))"

definition generateStaffCode :: "admin_state \<Rightarrow> string result \<times> admin_state" where
  "generateStaffCode s =
    (let (code, counter) = staff_code_loop 50 (ad_users s) (ad_staffCounter s)
     in (case code of None \<Rightarrow> Inl (BadRequest ''Could not allocate an employee code'') | Some c \<Rightarrow> Inr c,
         s\<lparr>ad_staffCounter := counter\<rparr>))"

definition generateWorkEmail :: "(string \<Rightarrow> string) \<Rightarrow> admin_state \<Rightarrow> string \<Rightarrow> string \<Rightarrow> string result" where
  "generateWorkEmail strip_accents s firstName lastName =
    (case suggestWorkEmail strip_accents firstName lastName [] of
       None \<Rightarrow> Inl (BadRequest ''Could not build an email address'')
     | Some suggested \<Rightarrow>
         (let loc = take (nat (index_of suggested (CHR ''@''))) suggested;
              existing = filter (\<lambda>e. prefix loc e \<and> suffix (''@'' @ WORK_EMAIL_DOMAIN) e) (map u_email (ad_users s))
          in case suggestWorkEmail strip_accents firstName lastName existing of
               None \<Rightarrow> Inl (BadRequest ''Could not build an email address'')
             | Some email \<Rightarrow> Inr email))"

section \<open>Designations\<close>

definition createDesignation :: "string \<Rightarrow> designation \<Rightarrow> admin_state \<Rightarrow> designation result \<times> admin_state" where
  "createDesignation newId input s =
    (case find (\<lambda>d. de_level d = de_level input) (ad_designations s) of
       Some _ \<Rightarrow> (Inl (BadRequest ''That level is taken''), s)
     | None \<Rightarrow>
         (let d = input\<lparr>de_id := newId, de_isSystem := False\<rparr>
          in (Inr d, s\<lparr>ad_designations := insert_row d (ad_designations s),
                       ad_audit := ad_audit s @ [audit_entry ''CREATE'' ''designation'' newId]\<rparr>)))"

record update_designation_input =
  ud_name :: "string option"
  ud_level :: "int option"
  ud_defaultScope :: "data_scope option"
  ud_isActive :: "bool option"
  ud_canAccessEvents :: "bool option"

definition apply_designation_update :: "update_designation_input \<Rightarrow> designation \<Rightarrow> designation" where
  "apply_designation_update input d =
    d\<lparr>de_name := (case ud_name input of None \<Rightarrow> de_name d | Some v \<Rightarrow> v),
      de_level := (case ud_level input of None \<Rightarrow> de_level d | Some v \<Rightarrow> v),
      de_defaultScope := (case ud_defaultScope input of None \<Rightarrow> de_defaultScope d | Some v \<Rightarrow> v),
      de_isActive := (case ud_isActive input of None \<Rightarrow> de_isActive d | Some v \<Rightarrow> v),
      de_canAccessEvents := (case ud_canAccessEvents input of None \<Rightarrow> de_canAccessEvents d | Some v \<Rightarrow> v)\<rparr>"

definition updateDesignation ::
  "string \<Rightarrow> update_designation_input \<Rightarrow> admin_state \<Rightarrow> designation result \<times> admin_state" where
  "updateDesignation i input s =
    (case find_by de_id i (ad_designations s) of
       None \<Rightarrow> (Inl (NotFound ''Designation not found''), s)
     | Some d \<Rightarrow>
         (if ud_isActive input = Some False \<and> count_where (\<lambda>u. u_designationId u = Some i) (ad_users s) > 0
          then (Inl (BadRequest ''Designation is in use''), s)
          else (Inr (apply_designation_update input d),
                s\<lparr>ad_designations := update_by de_id i (apply_designation_update input) (ad_designations s),
                  ad_audit := ad_audit s @ [audit_entry ''UPDATE'' ''designation'' i]\<rparr>)))"

section \<open>Users\<close>

text \<open>Whom an administration list shows: the actor's subtree, or everyone.\<close>

definition in_admin_view :: "admin_state \<Rightarrow> actor_context \<Rightarrow> account \<Rightarrow> bool" where
  "in_admin_view s ctx u \<longleftrightarrow>
    (if ax_unrestricted ctx \<or> \<not> truthy (ax_path ctx) then True
     else case user_unit s u of None \<Rightarrow> False | Some r \<Rightarrow> prefix (the (ax_path ctx)) (ou_path r))"

definition listUsers :: "admin_state \<Rightarrow> principal \<Rightarrow> account list" where
  "listUsers s actor =
    filter (\<lambda>u. u_deletedAt u = None \<and> u_userType u = INTERNAL_USER \<and> in_admin_view s (actorContext s actor) u)
      (ad_users s)"

definition managerOptions :: "admin_state \<Rightarrow> principal \<Rightarrow> string \<Rightarrow> account list result" where
  "managerOptions s actor designationId =
    and_then (mustFindDesignation s designationId) (\<lambda>d.
      Inr (filter (\<lambda>u. u_deletedAt u = None \<and> u_status u = ACTIVE \<and> u_userType u = INTERNAL_USER \<and>
          (case user_designation s u of None \<Rightarrow> False | Some e \<Rightarrow> de_level e > de_level d) \<and>
          in_admin_view s (actorContext s actor) u) (ad_users s)))"

definition create_checks ::
  "admin_state \<Rightarrow> principal \<Rightarrow> create_user_input \<Rightarrow> (designation \<times> org_unit) result" where
  "create_checks s actor input =
    (let ctx = actorContext s actor
     in and_then (mustFindDesignation s (cu_designationId input)) (\<lambda>d.
        and_then (mustFindOrgUnit s (cu_orgUnitId input)) (\<lambda>r.
        and_then (assertCanManage ctx
          \<lparr>tx_level = de_level d, tx_path = Some (ou_path r), tx_roles = cu_roleCodes input\<rparr>) (\<lambda>_.
        and_then (assertCanGrant ctx (cu_roleCodes input)) (\<lambda>_.
        and_then (if truthy (cu_managerId input)
                  then assertReportingLine s (the (cu_managerId input)) (de_level d) else Inr ()) (\<lambda>_.
        and_then (if truthy (cu_employeeCode input)
                  then assertEmployeeCodeFree s (the (cu_employeeCode input)) None else Inr ()) (\<lambda>_.
        Inr (d, r))))))))"

text \<open>
  The staff code is drawn before the address is built, so a failure there leaves the counter
  advanced.
\<close>

definition createUser ::
  "(string \<Rightarrow> string) \<Rightarrow> string \<Rightarrow> principal \<Rightarrow> create_user_input \<Rightarrow> admin_state \<Rightarrow>
    account result \<times> admin_state" where
  "createUser strip_accents newId actor input s =
    (case create_checks s actor input of
       Inl e \<Rightarrow> (Inl e, s)
     | Inr (d, r) \<Rightarrow>
         (let (code, s1) =
            (case cu_employeeCode input of
               Some c \<Rightarrow> (Inr (Some c), s)
             | None \<Rightarrow>
                 (if cu_userType input = INTERNAL_USER
                  then (let (c, s') = generateStaffCode s in (and_then c (\<lambda>c. Inr (Some c)), s'))
                  else (Inr None, s)))
          in case and_then code (\<lambda>c.
                 and_then (case cu_email input of
                             Some e \<Rightarrow> Inr e
                           | None \<Rightarrow> generateWorkEmail strip_accents s1 (cu_firstName input) (cu_lastName input))
                   (\<lambda>e. Inr (c, e))) of
               Inl e \<Rightarrow> (Inl e, s1)
             | Inr (c, e) \<Rightarrow>
                 (let u = \<lparr>u_id = newId, u_firstName = cu_firstName input, u_lastName = cu_lastName input,
                        u_email = e, u_mobile = cu_mobile input, u_employeeCode = c, u_passwordHash = None,
                        u_userType = cu_userType input, u_status = INVITED,
                        u_dataScope = Some (scopeForDesignation (de_defaultScope d) (cu_dataScope input)),
                        u_orgUnitId = Some (ou_id r), u_managerId = cu_managerId input,
                        u_designationId = Some (de_id d), u_partnerId = None,
                        u_roles = map (\<lambda>x. \<lparr>rr_code = x, rr_permissions = ad_roles s x\<rparr>) (cu_roleCodes input),
                        u_mustChangePassword = True, u_passwordChangedAt = None, u_failedLoginAttempts = 0,
                        u_lockedUntil = None, u_lastLoginAt = None, u_mfaEnabled = False,
                        u_mfaSecret = None, u_deletedAt = None\<rparr>
                  in (Inr u, s1\<lparr>ad_users := insert_row u (ad_users s1),
                                ad_audit := ad_audit s1 @ [audit_entry ''CREATE'' ''user'' newId]\<rparr>))))"

definition target_context_of :: "admin_state \<Rightarrow> account \<Rightarrow> target_context" where
  "target_context_of s u =
    \<lparr>tx_level = (case user_designation s u of None \<Rightarrow> 0 | Some d \<Rightarrow> de_level d),
     tx_path = map_option ou_path (user_unit s u), tx_roles = role_codes u\<rparr>"

definition update_checks ::
  "admin_state \<Rightarrow> principal \<Rightarrow> account \<Rightarrow> update_user_input \<Rightarrow> designation option result" where
  "update_checks s actor target input =
    (let ctx = actorContext s actor
     in and_then (assertCanManage ctx (target_context_of s target)) (\<lambda>_.
        and_then (if truthy (uu_designationId input)
                  then and_then (mustFindDesignation s (the (uu_designationId input))) (\<lambda>d. Inr (Some d))
                  else Inr (user_designation s target)) (\<lambda>designation.
        and_then (if truthy (uu_orgUnitId input)
                  then and_then (mustFindOrgUnit s (the (uu_orgUnitId input))) (\<lambda>r. Inr (Some r))
                  else Inr (user_unit s target)) (\<lambda>unit.
        and_then (case (designation, unit) of
                    (Some d, Some r) \<Rightarrow> assertCanManage ctx \<lparr>tx_level = de_level d, tx_path = Some (ou_path r),
                        tx_roles = (case uu_roleCodes input of None \<Rightarrow> role_codes target | Some rs \<Rightarrow> rs)\<rparr>
                  | _ \<Rightarrow> Inr ()) (\<lambda>_.
        and_then (case uu_roleCodes input of None \<Rightarrow> Inr () | Some rs \<Rightarrow> assertCanGrant ctx rs) (\<lambda>_.
        and_then (case (uu_managerId input, designation) of
                    (Some (Some m), Some d) \<Rightarrow> (if m \<noteq> [] then assertReportingLine s m (de_level d) else Inr ())
                  | _ \<Rightarrow> Inr ()) (\<lambda>_.
        and_then (if truthy (uu_employeeCode input)
                  then assertEmployeeCodeFree s (the (uu_employeeCode input)) (Some (u_id target)) else Inr ()) (\<lambda>_.
        Inr designation))))))))"

definition apply_user_update ::
  "(role \<Rightarrow> permission list) \<Rightarrow> designation option \<Rightarrow> update_user_input \<Rightarrow> account \<Rightarrow> account" where
  "apply_user_update table designation input u =
    u\<lparr>u_firstName := (case uu_firstName input of None \<Rightarrow> u_firstName u | Some v \<Rightarrow> v),
      u_lastName := (case uu_lastName input of None \<Rightarrow> u_lastName u | Some v \<Rightarrow> v),
      u_mobile := (case uu_mobile input of None \<Rightarrow> u_mobile u | Some v \<Rightarrow> Some v),
      u_employeeCode := (case uu_employeeCode input of None \<Rightarrow> u_employeeCode u | Some v \<Rightarrow> Some v),
      u_designationId := (case uu_designationId input of None \<Rightarrow> u_designationId u | Some v \<Rightarrow> Some v),
      u_orgUnitId := (case uu_orgUnitId input of None \<Rightarrow> u_orgUnitId u | Some v \<Rightarrow> Some v),
      u_managerId := (case uu_managerId input of None \<Rightarrow> u_managerId u | Some v \<Rightarrow> v),
      u_status := (case uu_status input of None \<Rightarrow> u_status u | Some v \<Rightarrow> v),
      u_roles := (case uu_roleCodes input of None \<Rightarrow> u_roles u
                  | Some rs \<Rightarrow> map (\<lambda>x. \<lparr>rr_code = x, rr_permissions = table x\<rparr>) rs),
      u_dataScope := (case designation of
           None \<Rightarrow> u_dataScope u
         | Some d \<Rightarrow>
             (if uu_dataScope input \<noteq> None \<or> truthy (uu_designationId input)
              then Some (scopeForDesignation (de_defaultScope d)
                     (case uu_dataScope input of None \<Rightarrow> None | Some v \<Rightarrow> v))
              else u_dataScope u))\<rparr>"

definition updateUser ::
  "principal \<Rightarrow> string \<Rightarrow> update_user_input \<Rightarrow> admin_state \<Rightarrow> account result \<times> admin_state" where
  "updateUser actor userId input s =
    (case find (\<lambda>u. u_id u = userId \<and> u_deletedAt u = None) (ad_users s) of
       None \<Rightarrow> (Inl (NotFound ''User not found''), s)
     | Some target \<Rightarrow>
         (case update_checks s actor target input of
            Inl e \<Rightarrow> (Inl e, s)
          | Inr designation \<Rightarrow>
              (Inr (apply_user_update (ad_roles s) designation input target),
               s\<lparr>ad_users := update_by u_id userId (apply_user_update (ad_roles s) designation input) (ad_users s),
                 ad_audit := ad_audit s @ [audit_entry ''UPDATE'' ''user'' userId]\<rparr>)))"

definition issueCredentials ::
  "(string \<Rightarrow> string) \<Rightarrow> (nat \<Rightarrow> nat \<Rightarrow> nat) \<Rightarrow> time \<Rightarrow> principal \<Rightarrow> string \<Rightarrow> admin_state \<Rightarrow>
    string result \<times> admin_state" where
  "issueCredentials hash pick now actor userId s =
    (case find (\<lambda>u. u_id u = userId \<and> u_deletedAt u = None) (ad_users s) of
       None \<Rightarrow> (Inl (NotFound ''User not found''), s)
     | Some target \<Rightarrow>
         (case assertCanManage (actorContext s actor) (target_context_of s target) of
            Inl e \<Rightarrow> (Inl e, s)
          | Inr _ \<Rightarrow>
              (if u_userType target \<noteq> INTERNAL_USER then (Inl (BadRequest ''Not an internal user''), s)
               else (let temporary = generateTemporaryPassword pick
                     in (Inr temporary,
                         s\<lparr>ad_users := update_by u_id userId
                              (\<lambda>u. u\<lparr>u_passwordHash := Some (hash temporary), u_status := ACTIVE,
                                     u_mustChangePassword := True, u_passwordChangedAt := Some now,
                                     u_failedLoginAttempts := 0, u_lockedUntil := None\<rparr>) (ad_users s),
                           ad_sessions := update_where (\<lambda>e. se_userId e = userId \<and> se_revokedAt e = None)
                              (\<lambda>e. e\<lparr>se_revokedAt := Some now, se_revokedReason := Some CREDENTIALS_REISSUED\<rparr>)
                              (ad_sessions s),
                           ad_audit := ad_audit s @ [(audit_entry ''UPDATE'' ''user.credentials'' userId)
                              \<lparr>au_reason := Some ''Temporary credentials issued''\<rparr>]\<rparr>)))))"


section \<open>Temporary passwords satisfy the policy\<close>

lemma mset_swap_at: "i < length xs \<Longrightarrow> j < length xs \<Longrightarrow> mset (swap_at xs i j) = mset xs"
  unfolding swap_at_def by (rule mset_swap)

lemma mset_shuffle:
  assumes "\<And>k n. 0 < n \<Longrightarrow> pick k n < n"
  shows "i < length xs \<Longrightarrow> mset (shuffle pick k i xs) = mset xs"
proof (induction i arbitrary: k xs)
  case (Suc i)
  have p: "pick k (Suc i + 1) < length xs" using assms [of "Suc i + 1" k] Suc.prems by simp
  have "mset (shuffle pick k (Suc i) xs) = mset (swap_at xs (Suc i) (pick k (Suc i + 1)))"
    using Suc.IH [of "swap_at xs (Suc i) (pick k (Suc i + 1))" "k + 1"] Suc.prems by (simp add: swap_at_def)
  also have "\<dots> = mset xs" by (rule mset_swap_at [OF Suc.prems p])
  finally show ?case .
qed simp

lemma pick_from_in:
  assumes "\<And>k n. 0 < n \<Longrightarrow> pick k n < n" and "pool \<noteq> []"
  shows "pick_from pick k pool \<in> set pool"
  using assms by (simp add: pick_from_def)

lemma pools:
  "list_all is_upper pool_upper" "list_all is_lower pool_lower" "list_all is_digit pool_digits"
  "list_all (\<lambda>c. \<not> (is_upper c \<or> is_lower c \<or> is_digit c)) pool_symbols"
  "pool_upper \<noteq> []" "pool_lower \<noteq> []" "pool_digits \<noteq> []" "pool_symbols \<noteq> []"
  by code_simp+

text \<open>
  Every temporary password the service issues meets the password policy, whatever the random
  source answers: fourteen characters with an upper-case letter, a lower-case letter, a digit and
  a symbol, since the shuffle only permutes the characters drawn.
\<close>

theorem temporary_password_meets_policy:
  assumes "\<And>k n. 0 < n \<Longrightarrow> pick k n < n"
  shows "password_policy (generateTemporaryPassword pick) \<and> length (generateTemporaryPassword pick) = 14"
proof -
  let ?chars = "[pick_from pick 0 pool_upper, pick_from pick 1 pool_lower,
      pick_from pick 2 pool_digits, pick_from pick 3 pool_symbols] @ map (\<lambda>k. pick_from pick k pool_all) [4..<14]"
  have len: "length ?chars = 14" by simp
  have ms: "mset (generateTemporaryPassword pick) = mset ?chars"
    unfolding generateTemporaryPassword_def Let_def by (rule mset_shuffle [OF assms]) simp_all
  have set: "set (generateTemporaryPassword pick) = set ?chars"
    using arg_cong [OF ms, of set_mset] by simp
  have "is_upper (pick_from pick 0 pool_upper)" "is_lower (pick_from pick 1 pool_lower)"
    "is_digit (pick_from pick 2 pool_digits)"
    "\<not> (is_upper (pick_from pick 3 pool_symbols) \<or> is_lower (pick_from pick 3 pool_symbols) \<or> is_digit (pick_from pick 3 pool_symbols))"
    using pools pick_from_in [OF assms] by (simp_all add: list_all_iff)
  moreover have "length (generateTemporaryPassword pick) = 14"
    using len arg_cong [OF ms, of size] by simp
  ultimately show ?thesis
    unfolding password_policy_def list_ex_iff set by auto
qed

lemma temporary_password_meets_policy_witness:
  "password_policy (generateTemporaryPassword (\<lambda>k n. k mod n))"
  using temporary_password_meets_policy [of "\<lambda>k n. k mod n"] by simp

section \<open>Generated identity is free\<close>

lemma formatStaffCode_inject [simp]: "formatStaffCode m = formatStaffCode n \<longleftrightarrow> m = n"
proof
  assume "formatStaffCode m = formatStaffCode n"
  then have "pad_start 4 (show_nat m) = pad_start 4 (show_nat n)" by (simp add: formatStaffCode_def)
  then have "read_nat (pad_start 4 (show_nat m)) = read_nat (pad_start 4 (show_nat n))" by simp
  then show "m = n" by simp
qed simp

lemma staff_code_loop_result:
  "staff_code_loop k users c = (r, c') \<Longrightarrow> c \<le> c' \<and>
    (\<forall>code. r = Some code \<longrightarrow> c < c' \<and> code = formatStaffCode c' \<and>
       (\<forall>u \<in> set users. u_employeeCode u = Some code \<longrightarrow> u_deletedAt u \<noteq> None))"
proof (induction k users c rule: staff_code_loop.induct)
  case (2 k users c)
  show ?case
  proof (cases "\<exists>u \<in> set users. u_employeeCode u = Some (formatStaffCode (c + 1)) \<and> u_deletedAt u = None")
    case True
    then have "staff_code_loop k users (c + 1) = (r, c')" using "2.prems" by (simp add: Let_def)
    from "2.IH" [OF HOL.refl True this] show ?thesis by auto
  next
    case False
    then have "staff_code_loop (Suc k) users c = (Some (formatStaffCode (c + 1)), c + 1)"
      by (simp only: staff_code_loop.simps Let_def if_False)
    then have "r = Some (formatStaffCode (c + 1))" "c' = c + 1" using "2.prems" by auto
    then show ?thesis using False by auto
  qed
qed simp

text \<open>
  A generated staff code is free and never handed out again: no undeleted account holds it,
  and whatever happens to the accounts in between, a later generation returns a different code as
  long as the counter has not gone back.
\<close>

theorem staff_codes_are_fresh:
  assumes "generateStaffCode s = (Inr c, s1)" and "generateStaffCode t = (Inr d, t1)"
    and "ad_staffCounter s1 \<le> ad_staffCounter t"
  shows "d \<noteq> c \<and> (\<forall>u \<in> set (ad_users s). u_employeeCode u = Some c \<longrightarrow> u_deletedAt u \<noteq> None) \<and>
    ad_staffCounter s < ad_staffCounter s1"
proof -
  have gen: "ad_staffCounter s < ad_staffCounter s' \<and> x = formatStaffCode (ad_staffCounter s') \<and>
      (\<forall>u \<in> set (ad_users s). u_employeeCode u = Some x \<longrightarrow> u_deletedAt u \<noteq> None)"
    if g: "generateStaffCode s = (Inr x, s')" for s s' x
  proof -
    obtain r n where loop: "staff_code_loop 50 (ad_users s) (ad_staffCounter s) = (r, n)" by fastforce
    then have "r = Some x" "s' = s\<lparr>ad_staffCounter := n\<rparr>"
      using g by (auto simp: generateStaffCode_def split: option.splits)
    then show ?thesis using staff_code_loop_result [OF loop] by simp
  qed
  show ?thesis using gen [OF assms(1)] gen [OF assms(2)] assms(3) by auto
qed

definition demo_designation :: "string \<Rightarrow> int \<Rightarrow> designation" where
  "demo_designation i l = \<lparr>de_id = i, de_code = i, de_name = i, de_level = l, de_defaultScope = BRANCH,
     de_isActive = True, de_canAccessEvents = False, de_isSystem = False\<rparr>"

definition demo_admin :: admin_state where
  "demo_admin = \<lparr>ad_users =
       [(demo_account ''u1'')\<lparr>u_designationId := Some ''d40'',
           u_roles := [\<lparr>rr_code = SALES_MANAGER, rr_permissions = ROLE_PERMISSIONS SALES_MANAGER\<rparr>]\<rparr>,
        (demo_account ''u2'')\<lparr>u_designationId := Some ''d10'', u_managerId := Some ''u1''\<rparr>,
        (demo_account ''u3'')\<lparr>u_designationId := None, u_orgUnitId := Some ''t1''\<rparr>],
     ad_designations = [demo_designation ''d10'' 10, demo_designation ''d40'' 40, demo_designation ''d60'' 60],
     ad_units = units demo_org, ad_sessions = [], ad_roles = ROLE_PERMISSIONS, ad_staffCounter = 7, ad_audit = []\<rparr>"

lemma staff_codes_are_fresh_witness:
  "fst (generateStaffCode demo_admin) = Inr ''SIHL-0008'' \<and>
   fst (generateStaffCode (snd (generateStaffCode demo_admin))) \<noteq> Inr ''SIHL-0008''"
proof -
  have one: "generateStaffCode demo_admin = (Inr ''SIHL-0008'', demo_admin\<lparr>ad_staffCounter := 8\<rparr>)"
  proof -
    have "staff_code_loop 50 (ad_users demo_admin) (ad_staffCounter demo_admin) = (Some ''SIHL-0008'', 8)"
      by code_simp
    then show ?thesis by (simp add: generateStaffCode_def)
  qed
  have "staff_code_loop 50 (ad_users demo_admin) 8 = (Some ''SIHL-0009'', 9)" by code_simp
  then have two: "generateStaffCode (demo_admin\<lparr>ad_staffCounter := 8\<rparr>) =
      (Inr ''SIHL-0009'', demo_admin\<lparr>ad_staffCounter := 9\<rparr>)"
    by (simp add: generateStaffCode_def)
  have "''SIHL-0009'' \<noteq> ''SIHL-0008''"
    using staff_codes_are_fresh [OF one two] by simp
  then show ?thesis by (simp add: one two)
qed

lemma clean_name_chars: "c \<in> set (clean_name f v) \<Longrightarrow> is_lower c \<or> is_digit c"
  by (auto simp: clean_name_def)

lemma emailLocalPart_no_at: "CHR ''@'' \<notin> set (emailLocalPart f a b)"
proof -
  have "\<not> (is_lower (CHR ''@'') \<or> is_digit (CHR ''@''))" by (simp add: is_lower_def is_digit_def)
  then have "CHR ''@'' \<notin> set (clean_name f v)" for v using clean_name_chars by blast
  then show ?thesis by (auto simp: emailLocalPart_def Let_def)
qed

lemma suggestWorkEmailD:
  assumes "suggestWorkEmail f a b taken = Some e"
  shows "emailLocalPart f a b \<noteq> []" and "\<exists>n. e = email_candidate (emailLocalPart f a b) n"
    and "e \<notin> (\<lambda>v. to_lower (js_trim v)) ` set taken"
  using assms by (auto simp: suggestWorkEmail_def Let_def find_Some_iff split: if_splits)

lemma email_candidate_shape:
  "prefix loc (email_candidate loc n) \<and> suffix (''@'' @ WORK_EMAIL_DOMAIN) (email_candidate loc n)"
  by (auto simp: email_candidate_def prefix_def suffix_def)

lemma suggest_first: "suggestWorkEmail f a b [] = (if emailLocalPart f a b = [] then None
    else Some (email_candidate (emailLocalPart f a b) 0))"
  by (simp add: suggestWorkEmail_def Let_def upt_rec [of 0])

text \<open>
  A generated work address is free: it is not the address of any account in the table, deleted
  ones included, and it has the company's domain. Stored addresses are assumed to be trimmed and
  in lower case, as their schema leaves them.
\<close>

theorem work_email_is_free:
  assumes "generateWorkEmail f s firstName lastName = Inr e"
    and "\<forall>u \<in> set (ad_users s). to_lower (js_trim (u_email u)) = u_email u"
  shows "e \<notin> u_email ` set (ad_users s) \<and> suffix (''@'' @ WORK_EMAIL_DOMAIN) e"
proof -
  let ?loc = "emailLocalPart f firstName lastName"
  have loc: "?loc \<noteq> []" using assms(1) by (auto simp: generateWorkEmail_def suggest_first split: if_splits)
  have "index_of (?loc @ CHR ''@'' # WORK_EMAIL_DOMAIN) (CHR ''@'') = int (length ?loc)"
    by (rule index_of_first [OF emailLocalPart_no_at])
  then have cut: "take (nat (index_of (email_candidate ?loc 0) (CHR ''@''))) (email_candidate ?loc 0) = ?loc"
    by (simp add: email_candidate_def)
  have e: "suggestWorkEmail f firstName lastName
      (filter (\<lambda>e. prefix ?loc e \<and> suffix (''@'' @ WORK_EMAIL_DOMAIN) e) (map u_email (ad_users s))) = Some e"
    using assms(1) loc cut by (auto simp: generateWorkEmail_def suggest_first Let_def split: option.splits)
  have shape: "prefix ?loc e" "suffix (''@'' @ WORK_EMAIL_DOMAIN) e"
    using suggestWorkEmailD(2) [OF e] email_candidate_shape by blast+
  have "e \<notin> u_email ` set (ad_users s)"
  proof
    assume "e \<in> u_email ` set (ad_users s)"
    then obtain u where u: "u \<in> set (ad_users s)" "e = u_email u" by blast
    then have "e \<in> (\<lambda>v. to_lower (js_trim v)) ` set (filter (\<lambda>e. prefix ?loc e \<and> suffix (''@'' @ WORK_EMAIL_DOMAIN) e) (map u_email (ad_users s)))"
      using assms(2) shape by (intro image_eqI [of _ _ e]) auto
    with suggestWorkEmailD(3) [OF e] show False by blast
  qed
  with shape(2) show ?thesis by blast
qed

lemma work_email_is_free_witness:
  "\<exists>e. generateWorkEmail (\<lambda>v. v) (demo_admin\<lparr>ad_users := [(demo_account ''u1'')\<lparr>u_email := ''asha.rao@sihl.in''\<rparr>]\<rparr>)
      ''Asha'' ''Rao'' = Inr e \<and> e = ''asha.rao2@sihl.in'' \<and> e \<noteq> ''asha.rao@sihl.in''"
proof -
  let ?s = "demo_admin\<lparr>ad_users := [(demo_account ''u1'')\<lparr>u_email := ''asha.rao@sihl.in''\<rparr>]\<rparr>"
  have g: "generateWorkEmail (\<lambda>v. v) ?s ''Asha'' ''Rao'' = Inr ''asha.rao2@sihl.in''"
    by code_simp
  have "to_lower (js_trim ''asha.rao@sihl.in'') = ''asha.rao@sihl.in''" by code_simp
  then show ?thesis using work_email_is_free [OF g] g by simp
qed


section \<open>No escalation through created accounts\<close>

lemma first_ungrantable_None:
  "first_ungrantable granted table rs = None \<longleftrightarrow> (\<forall>r \<in> set rs. set (table r) \<subseteq> set granted)"
  by (induction rs) (auto simp: Let_def filter_empty_conv)

lemma mustFindD: "mustFindDesignation s i = Inr d \<Longrightarrow> d \<in> set (ad_designations s)"
  "mustFindOrgUnit s j = Inr r \<Longrightarrow> r \<in> set (ad_units s)"
  by (auto simp: mustFindDesignation_def mustFindOrgUnit_def find_Some_iff split: option.splits)

lemma generateStaffCode_keeps:
  "ad_users (snd (generateStaffCode s)) = ad_users s \<and> ad_designations (snd (generateStaffCode s)) = ad_designations s \<and>
   ad_units (snd (generateStaffCode s)) = ad_units s \<and> ad_roles (snd (generateStaffCode s)) = ad_roles s"
  by (simp add: generateStaffCode_def case_prod_beta)

lemma createUserD:
  assumes "createUser f newId actor input s = (Inr v, s')"
  obtains d r where "create_checks s actor input = Inr (d, r)" and "u_id v = newId"
    and "u_designationId v = Some (de_id d)" and "u_orgUnitId v = Some (ou_id r)" and "u_status v = INVITED"
    and "u_passwordHash v = None"
    and "u_dataScope v = Some (scopeForDesignation (de_defaultScope d) (cu_dataScope input))"
    and "u_roles v = map (\<lambda>x. \<lparr>rr_code = x, rr_permissions = ad_roles s x\<rparr>) (cu_roleCodes input)"
    and "ad_users s' = insert_row v (ad_users s)" and "ad_designations s' = ad_designations s"
    and "ad_units s' = ad_units s" and "ad_roles s' = ad_roles s"
proof -
  obtain d r where c: "create_checks s actor input = Inr (d, r)"
    using assms by (auto simp: createUser_def split: sum.splits)
  show thesis
    using assms generateStaffCode_keeps [of s]
    by (intro that [OF c])
      (auto simp: createUser_def c case_prod_beta Let_def split: option.splits sum.splits if_splits)
qed

lemma assert_iff:
  "assertCanManage ctx target = Inr x \<longleftrightarrow> canManageUserAt ctx target = None"
  "assertCanGrant ctx roles = Inr x \<longleftrightarrow>
    canGrantRoles (ax_permissions ctx) ROLE_PERMISSIONS roles (ax_unrestricted ctx) = None"
  by (simp_all add: assertCanManage_def assertCanGrant_def del: not_None_eq)

lemma create_checksD:
  assumes "create_checks s actor input = Inr (d, r)"
  shows "d \<in> set (ad_designations s)" and "r \<in> set (ad_units s)"
    and "canManageUserAt (actorContext s actor)
      \<lparr>tx_level = de_level d, tx_path = Some (ou_path r), tx_roles = cu_roleCodes input\<rparr> = None"
    and "canGrantRoles (pr_permissions actor) ROLE_PERMISSIONS (cu_roleCodes input)
      (''system:configure'' \<in> set (pr_permissions actor)) = None"
proof -
  from assms show "d \<in> set (ad_designations s)" and "r \<in> set (ad_units s)"
    by (auto simp: create_checks_def Let_def and_then_Inr intro: mustFindD)
  from assms show "canManageUserAt (actorContext s actor)
      \<lparr>tx_level = de_level d, tx_path = Some (ou_path r), tx_roles = cu_roleCodes input\<rparr> = None"
    and "canGrantRoles (pr_permissions actor) ROLE_PERMISSIONS (cu_roleCodes input)
      (''system:configure'' \<in> set (pr_permissions actor)) = None"
    by (auto simp: create_checks_def Let_def and_then_Inr assert_iff actorContext_def)
qed

text \<open>
  Accounts an origin brings into being, directly or through accounts it created before: each
  acts with its own roles' permissions, and at most the event grant besides.
\<close>

inductive spawned :: "(string \<Rightarrow> string) \<Rightarrow> admin_state \<Rightarrow> string \<Rightarrow> admin_state \<Rightarrow> string set \<Rightarrow> bool"
  for f s0 origin where
  spawn_start: "spawned f s0 origin s0 {origin}"
| spawn_create: "spawned f s0 origin s D \<Longrightarrow> pr_id actor \<in> D \<Longrightarrow>
    find_by u_id (pr_id actor) (ad_users s) = Some u \<Longrightarrow>
    set (pr_permissions actor) \<subseteq> insert ''event:view'' (set (role_permissions u)) \<Longrightarrow>
    newId \<notin> u_id ` set (ad_users s) \<Longrightarrow> createUser f newId actor input s = (Inr v, s') \<Longrightarrow>
    spawned f s0 origin s' (insert newId D)"

definition bounded_by :: "admin_state \<Rightarrow> int \<Rightarrow> string \<Rightarrow> permission set \<Rightarrow> account \<Rightarrow> bool" where
  "bounded_by s l p perms u \<longleftrightarrow>
    (\<exists>d r. user_designation s u = Some d \<and> de_level d \<le> l \<and> user_unit s u = Some r \<and> prefix p (ou_path r)) \<and>
    set (role_permissions u) \<subseteq> insert ''event:view'' perms"

lemma create_bounded:
  assumes b: "bounded_by s l p perms u" and sc: "''system:configure'' \<notin> perms" and pn: "p \<noteq> []"
    and u: "find_by u_id (pr_id actor) (ad_users s) = Some u"
    and act: "set (pr_permissions actor) \<subseteq> insert ''event:view'' (set (role_permissions u))"
    and kd: "keys_unique de_id (ad_designations s)" and ku: "keys_unique ou_id (ad_units s)"
    and tab: "\<forall>r. set (ad_roles s r) \<subseteq> set (ROLE_PERMISSIONS r)"
    and c: "createUser f newId actor input s = (Inr v, s')"
  shows "bounded_by s' l p perms v \<and> (\<exists>d. user_designation s' v = Some d \<and> de_level d < l)"
proof -
  obtain d r where cr: "create_checks s actor input = Inr (d, r)" "u_designationId v = Some (de_id d)"
    "u_orgUnitId v = Some (ou_id r)"
    "u_roles v = map (\<lambda>x. \<lparr>rr_code = x, rr_permissions = ad_roles s x\<rparr>) (cu_roleCodes input)"
    "ad_designations s' = ad_designations s" "ad_units s' = ad_units s"
    by (rule createUserD [OF c]) blast
  obtain du ru where du: "user_designation s u = Some du" "de_level du \<le> l" "user_unit s u = Some ru" "prefix p (ou_path ru)"
    using b by (auto simp: bounded_by_def)
  have perms: "set (role_permissions u) \<subseteq> insert ''event:view'' perms" using b by (simp add: bounded_by_def)
  have un: "''system:configure'' \<notin> set (pr_permissions actor)" using act perms sc by auto
  have ctx: "actorContext s actor = \<lparr>ax_level = Some (de_level du), ax_path = Some (ou_path ru),
      ax_permissions = pr_permissions actor, ax_unrestricted = False\<rparr>"
    using u du un by (simp add: actorContext_def Let_def)
  have "de_level d < de_level du \<and> prefix (ou_path ru) (ou_path r)"
    using create_checksD(3) [OF cr(1)] by (auto simp: ctx canManageUserAt_def split: if_splits)
  then have lvl: "de_level d < l" "prefix p (ou_path r)"
    using du(2,4) prefix_order.trans by auto
  have grant: "\<forall>x \<in> set (cu_roleCodes input). set (ROLE_PERMISSIONS x) \<subseteq> set (pr_permissions actor)"
    using create_checksD(4) [OF cr(1)] un by (simp add: canGrantRoles_def first_ungrantable_None)
  have "set (role_permissions v) \<subseteq> insert ''event:view'' perms"
    using grant tab act perms by (fastforce simp: role_permissions_def cr(4))
  moreover have "user_designation s' v = Some d"
    using find_by_unique [OF kd create_checksD(1) [OF cr(1)]] by (simp add: user_designation_def cr)
  moreover have "user_unit s' v = Some r"
    using find_by_unique [OF ku create_checksD(2) [OF cr(1)]] by (simp add: user_unit_def cr)
  ultimately show ?thesis using lvl by (simp add: bounded_by_def)
qed

lemma bounded_by_cong:
  "ad_designations s' = ad_designations s \<Longrightarrow> ad_units s' = ad_units s \<Longrightarrow> bounded_by s' l p perms u = bounded_by s l p perms u"
  by (simp add: bounded_by_def user_designation_def user_unit_def)

lemma spawned_bounded:
  assumes "spawned f s0 origin s D"
    and o: "find_by u_id origin (ad_users s0) = Some o0" "bounded_by s0 l p perms o0"
    and "''system:configure'' \<notin> perms" and "p \<noteq> []"
    and "keys_unique de_id (ad_designations s0)" and "keys_unique ou_id (ad_units s0)"
    and "\<forall>r. set (ad_roles s0 r) \<subseteq> set (ROLE_PERMISSIONS r)"
  shows "ad_designations s = ad_designations s0 \<and> ad_units s = ad_units s0 \<and> ad_roles s = ad_roles s0 \<and>
    (\<forall>i \<in> D. \<exists>u. find_by u_id i (ad_users s) = Some u \<and> bounded_by s l p perms u \<and>
       (i \<noteq> origin \<longrightarrow> (\<exists>d. user_designation s u = Some d \<and> de_level d < l)))"
  using assms(1)
proof (induction rule: spawned.induct)
  case spawn_start
  then show ?case using o by simp
next
  case (spawn_create s D actor u newId input v s')
  have keeps: "ad_designations s' = ad_designations s" "ad_units s' = ad_units s" "ad_roles s' = ad_roles s"
    "ad_users s' = insert_row v (ad_users s)" "u_id v = newId"
    by (rule createUserD [OF spawn_create.hyps(6)], simp)+
  have bu: "bounded_by s l p perms u" using spawn_create.IH spawn_create.hyps(2,3) by auto
  have bv: "bounded_by s' l p perms v \<and> (\<exists>d. user_designation s' v = Some d \<and> de_level d < l)"
    by (rule create_bounded [OF bu assms(4,5) spawn_create.hyps(3,4) _ _ _ spawn_create.hyps(6)])
      (use spawn_create.IH assms(6-8) in simp_all)
  have new: "find_by u_id newId (ad_users s') = Some v"
    using spawn_create.hyps(5) keeps(4,5) by (simp add: find_by_insert_row find_by_None_iff [symmetric] split: option.split)
  have old: "\<exists>w. find_by u_id i (ad_users s') = Some w \<and> bounded_by s' l p perms w \<and>
       (i \<noteq> origin \<longrightarrow> (\<exists>d. user_designation s' w = Some d \<and> de_level d < l))" if "i \<in> D" for i
  proof -
    obtain w where "find_by u_id i (ad_users s) = Some w" "bounded_by s l p perms w"
      "i \<noteq> origin \<longrightarrow> (\<exists>d. user_designation s w = Some d \<and> de_level d < l)"
      using spawn_create.IH \<open>i \<in> D\<close> by blast
    then show ?thesis
      using keeps bounded_by_cong [OF keeps(1,2)]
      by (intro exI [of _ w]) (simp add: find_by_insert_row user_designation_def)
  qed
  show ?case using keeps spawn_create.IH new bv old by auto
qed

text \<open>
  C8. A person who is not an administrator cannot climb through second logins, provided no stored
  role gives more than the compiled matrix lists for it: every account they create, and every
  account such accounts create in turn, sits strictly below their level, inside their own part of
  the tree, and its roles give no permission they did not hold except \<open>event:view\<close>, which a
  creator may hold through the event switches instead of a role. The proviso is needed, since the service asks the compiled matrix what
  a role gives while sign-in reads the stored one: \<open>grant_check_ignores_stored_roles\<close>.
\<close>

theorem no_escalation_by_creation:
  assumes "spawned f s0 origin s D" and "i \<in> D" and "i \<noteq> origin"
    and "find_by u_id origin (ad_users s0) = Some me" and "user_designation s0 me = Some mine"
    and "user_unit s0 me = Some home" and "ou_path home \<noteq> []"
    and "''system:configure'' \<notin> set (role_permissions me)"
    and "keys_unique de_id (ad_designations s0)" and "keys_unique ou_id (ad_units s0)"
    and "\<forall>r. set (ad_roles s0 r) \<subseteq> set (ROLE_PERMISSIONS r)"
  shows "\<exists>u d r. find_by u_id i (ad_users s) = Some u \<and>
    user_designation s u = Some d \<and> de_level d < de_level mine \<and>
    user_unit s u = Some r \<and> prefix (ou_path home) (ou_path r) \<and>
    set (role_permissions u) \<subseteq> insert ''event:view'' (set (role_permissions me))"
proof -
  have "bounded_by s0 (de_level mine) (ou_path home) (set (role_permissions me)) me"
    using assms(5,6) by (auto simp: bounded_by_def)
  from spawned_bounded [OF assms(1,4) this assms(8,7,9-11)] assms(2,3)
  show ?thesis by (fastforce simp: bounded_by_def)
qed


definition demo_actor :: "string \<Rightarrow> permission list \<Rightarrow> principal" where
  "demo_actor i perms =
    \<lparr>pr_id = i, pr_email = i, pr_userType = INTERNAL_USER, pr_roles = [], pr_permissions = perms,
     pr_dataScope = TEAM, pr_orgUnitId = None, pr_orgUnitPath = None, pr_teamUserIds = [],
     pr_partnerId = None, pr_sessionId = ''s1'', pr_mustChangePassword = False, pr_isService = False\<rparr>"

definition demo_create_input :: create_user_input where
  "demo_create_input = \<lparr>cu_firstName = ''Ravi'', cu_lastName = ''K'', cu_email = Some ''r@sihl.in'',
     cu_mobile = None, cu_employeeCode = Some ''E9'', cu_designationId = ''d10'',
     cu_roleCodes = [SALES_EXECUTIVE], cu_orgUnitId = ''t1'', cu_managerId = None, cu_dataScope = None,
     cu_userType = INTERNAL_USER\<rparr>"

lemma demo_manager:
  "find_by u_id ''u1'' (ad_users demo_admin) = Some ((demo_account ''u1'')\<lparr>u_designationId := Some ''d40'',
           u_roles := [\<lparr>rr_code = SALES_MANAGER, rr_permissions = ROLE_PERMISSIONS SALES_MANAGER\<rparr>]\<rparr>)"
  "user_designation demo_admin ((demo_account ''u1'')\<lparr>u_designationId := Some ''d40'',
           u_roles := [\<lparr>rr_code = SALES_MANAGER, rr_permissions = ROLE_PERMISSIONS SALES_MANAGER\<rparr>]\<rparr>) =
     Some (demo_designation ''d40'' 40)"
  "user_unit demo_admin ((demo_account ''u1'')\<lparr>u_designationId := Some ''d40'',
           u_roles := [\<lparr>rr_code = SALES_MANAGER, rr_permissions = ROLE_PERMISSIONS SALES_MANAGER\<rparr>]\<rparr>) =
     Some (demo_unit ''b1'' ''B1'' BRANCH_UNIT (Some ''c1'') ''/c1/b1/'')"
  by (simp_all add: demo_admin_def demo_account_def user_designation_def demo_designation_def user_unit_def
      demo_org_units demo_unit_def)

lemma demo_created: "\<exists>v. createUser (\<lambda>n. n) ''u9'' (demo_actor ''u1'' (ROLE_PERMISSIONS SALES_MANAGER)) demo_create_input demo_admin =
    (Inr v, snd (createUser (\<lambda>n. n) ''u9'' (demo_actor ''u1'' (ROLE_PERMISSIONS SALES_MANAGER)) demo_create_input demo_admin))"
proof -
  have "isl (fst (createUser (\<lambda>n. n) ''u9'' (demo_actor ''u1'' (ROLE_PERMISSIONS SALES_MANAGER)) demo_create_input demo_admin)) = False"
    by code_simp
  then show ?thesis
    by (cases "createUser (\<lambda>n. n) ''u9'' (demo_actor ''u1'' (ROLE_PERMISSIONS SALES_MANAGER)) demo_create_input demo_admin";
        cases "fst (createUser (\<lambda>n. n) ''u9'' (demo_actor ''u1'' (ROLE_PERMISSIONS SALES_MANAGER)) demo_create_input demo_admin)")
      auto
qed

lemma no_escalation_by_creation_witness:
  "\<exists>u d. find_by u_id ''u9''
      (ad_users (snd (createUser (\<lambda>n. n) ''u9'' (demo_actor ''u1'' (ROLE_PERMISSIONS SALES_MANAGER)) demo_create_input demo_admin))) = Some u \<and>
    user_designation (snd (createUser (\<lambda>n. n) ''u9'' (demo_actor ''u1'' (ROLE_PERMISSIONS SALES_MANAGER)) demo_create_input demo_admin)) u = Some d \<and>
    de_level d < 40"
proof -
  let ?s' = "snd (createUser (\<lambda>n. n) ''u9'' (demo_actor ''u1'' (ROLE_PERMISSIONS SALES_MANAGER)) demo_create_input demo_admin)"
  obtain v where v: "createUser (\<lambda>n. n) ''u9'' (demo_actor ''u1'' (ROLE_PERMISSIONS SALES_MANAGER)) demo_create_input demo_admin = (Inr v, ?s')"
    using demo_created by blast
  have "spawned (\<lambda>n. n) demo_admin ''u1'' ?s' (insert ''u9'' {''u1''})"
    by (rule spawn_create [OF spawn_start _ _ _ _ v])
      (use demo_manager(1) in \<open>auto simp: demo_actor_def role_permissions_def demo_admin_def demo_account_def\<close>)
  then have "\<exists>u d r. find_by u_id ''u9'' (ad_users ?s') = Some u \<and> user_designation ?s' u = Some d \<and>
      de_level d < de_level (demo_designation ''d40'' 40) \<and> user_unit ?s' u = Some r \<and>
      prefix (ou_path (demo_unit ''b1'' ''B1'' BRANCH_UNIT (Some ''c1'') ''/c1/b1/'')) (ou_path r) \<and>
      set (role_permissions u) \<subseteq> insert ''event:view'' (set (role_permissions ((demo_account ''u1'')\<lparr>u_designationId := Some ''d40'',
           u_roles := [\<lparr>rr_code = SALES_MANAGER, rr_permissions = ROLE_PERMISSIONS SALES_MANAGER\<rparr>]\<rparr>)))"
    by (rule no_escalation_by_creation [OF _ _ _ demo_manager])
      (simp_all add: demo_unit_def role_permissions_def keys_unique_def demo_admin_def demo_designation_def demo_org_units)
  then show ?thesis by (auto simp: demo_designation_def)
qed

section \<open>Where the checks stop short\<close>

text \<open>
  An actor without a place in the tree is shown every internal account, administrator or not,
  although the list is meant to be the actor's own subtree for anyone but an administrator.
\<close>

theorem unplaced_actor_sees_everyone:
  assumes "find_by u_id (pr_id actor) (ad_users s) = Some me" and "u_orgUnitId me = None"
  shows "listUsers s actor = filter (\<lambda>u. u_deletedAt u = None \<and> u_userType u = INTERNAL_USER) (ad_users s)"
proof -
  have "ax_path (actorContext s actor) = None"
    using assms by (simp add: actorContext_def Let_def user_unit_def)
  then show ?thesis by (simp add: listUsers_def in_admin_view_def truthy_def)
qed

lemma unplaced_actor_sees_everyone_witness:
  "length (listUsers (demo_admin\<lparr>ad_users := (demo_account ''u0'')\<lparr>u_orgUnitId := None\<rparr> # ad_users demo_admin\<rparr>)
     (demo_actor ''u0'' [''user:read''])) = 4"
  using unplaced_actor_sees_everyone [of "demo_actor ''u0'' [''user:read'']"
      "demo_admin\<lparr>ad_users := (demo_account ''u0'')\<lparr>u_orgUnitId := None\<rparr> # ad_users demo_admin\<rparr>"
      "(demo_account ''u0'')\<lparr>u_orgUnitId := None\<rparr>"]
  by (simp add: demo_actor_def demo_account_def demo_admin_def)

definition demo_move_out :: update_user_input where
  "demo_move_out = \<lparr>uu_firstName = None, uu_lastName = None, uu_mobile = None, uu_employeeCode = None,
     uu_designationId = None, uu_roleCodes = None, uu_orgUnitId = Some ''z1'', uu_managerId = None,
     uu_dataScope = None, uu_status = None\<rparr>"

text \<open>
  The second half of the edit guard, against where a person would end up, is skipped for a
  person without a designation: an actor confined to the branch \<open>b1\<close> moves one of its people to
  the zone \<open>z1\<close>, where the same actor may manage nobody.
\<close>

theorem edit_moves_person_out_of_reach:
  "let actor = demo_actor ''u1'' [''user:update''];
       (r, s') = updateUser actor ''u3'' demo_move_out demo_admin
   in (case r of Inl _ \<Rightarrow> False
       | Inr u \<Rightarrow> u_orgUnitId u = Some ''z1'' \<and>
           canManageUserAt (actorContext s' actor) (target_context_of s' u) = Some OutsideBranch)"
  by code_simp

definition demo_promote :: update_user_input where
  "demo_promote = demo_move_out\<lparr>uu_orgUnitId := None, uu_designationId := Some ''d60''\<rparr>"

definition demo_set_manager :: "string \<Rightarrow> update_user_input" where
  "demo_set_manager m = demo_move_out\<lparr>uu_orgUnitId := None, uu_managerId := Some (Some m)\<rparr>"

text \<open>
  Reporting lines are checked only when a manager is set, not when a designation changes, so
  two edits an administrator may make leave two people reporting to each other.
\<close>

theorem reporting_line_cycle:
  "let admin = demo_actor ''u0'' [''system:configure'', ''user:update''];
       (r1, s1) = updateUser admin ''u2'' demo_promote demo_admin;
       (r2, s2) = updateUser admin ''u1'' (demo_set_manager ''u2'') s1
   in \<not> isl r1 \<and> \<not> isl r2 \<and>
      map_option u_managerId (find_by u_id ''u1'' (ad_users s2)) = Some (Some ''u2'') \<and>
      map_option u_managerId (find_by u_id ''u2'' (ad_users s2)) = Some (Some ''u1'')"
  by code_simp

text \<open>
  The granting check reads the compiled role matrix while the permissions a person works with
  come from the stored roles: once a stored role holds more than the matrix says, somebody who
  lacks the extra permission can hand it out.
\<close>

theorem grant_check_ignores_stored_roles:
  "let s = demo_admin\<lparr>ad_roles := (ROLE_PERMISSIONS (SALES_EXECUTIVE := [''audit:read'']))\<rparr>;
       (r, s') = createUser (\<lambda>n. n) ''u9'' (demo_actor ''u1'' (ROLE_PERMISSIONS SALES_MANAGER)) demo_create_input s
   in ''audit:read'' \<notin> set (ROLE_PERMISSIONS SALES_MANAGER) \<and>
      (case r of Inl _ \<Rightarrow> False | Inr u \<Rightarrow> ''audit:read'' \<in> set (role_permissions u))"
  by code_simp

end
