(* ===== verification/Matching.thy ===== *)
theory Matching
  imports Prelude
begin

text \<open>
  Duplicate detection: \<open>packages/contracts/src/matching.ts\<close>. Similarities are exact rationals;
  the labels shown beside a signal are not modelled. The edit distance is the source's two-row
  loop, proved to be the least number of single-character edits.
\<close>

section \<open>Records\<close>

record match_input =
  mi_firstName :: string
  mi_lastName :: "string option"
  mi_mobile :: "string option"
  mi_email :: "string option"
  mi_pan :: "string option"
  mi_city :: "string option"

record match_candidate = match_input +
  mc_id :: string

datatype match_confidence = DEFINITE | PROBABLE | POSSIBLE | NONE

datatype signal_code = PAN | MOBILE | EMAIL | NAME_EXACT | NAME_CLOSE | CITY | MOBILE_PARTIAL

record match_signal =
  sg_code :: signal_code
  sg_points :: int

record match_result =
  mr_candidate :: match_candidate
  mr_score :: int
  mr_confidence :: match_confidence
  mr_signals :: "match_signal list"

definition MATCH_DEFINITE :: int where "MATCH_DEFINITE = 90"
definition MATCH_PROBABLE :: int where "MATCH_PROBABLE = 60"
definition MATCH_POSSIBLE :: int where "MATCH_POSSIBLE = 35"

definition confidenceFor :: "int \<Rightarrow> match_confidence" where
  "confidenceFor score =
    (if score \<ge> MATCH_DEFINITE then DEFINITE
     else if score \<ge> MATCH_PROBABLE then PROBABLE
     else if score \<ge> MATCH_POSSIBLE then POSSIBLE
     else NONE)"

section \<open>Normalisation\<close>

definition normaliseMobile :: "string option \<Rightarrow> string option" where
  "normaliseMobile v =
    (if \<not> truthy v then None
     else let digits = filter is_digit (the v)
          in if length digits < 10 then None else Some (slice_last 10 digits))"

definition normaliseEmail :: "string option \<Rightarrow> string option" where
  "normaliseEmail v =
    (if \<not> truthy v then None
     else let trimmed = to_lower (js_trim (the v))
          in if CHR ''@'' \<in> set trimmed then Some trimmed else None)"

definition is_pan :: "string \<Rightarrow> bool" where
  "is_pan s \<longleftrightarrow> length s = 10 \<and> list_all is_upper (take 5 s) \<and>
    list_all is_digit (take 4 (drop 5 s)) \<and> list_all is_upper (drop 9 s)"

definition normalisePan :: "string option \<Rightarrow> string option" where
  "normalisePan v =
    (if \<not> truthy v then None
     else let upper = filter (\<lambda>c. \<not> is_space c) (to_upper (js_trim (the v)))
          in if is_pan upper then Some upper else None)"

definition HONORIFICS :: "string list" where
  "HONORIFICS = [''mr'', ''mrs'', ''ms'', ''miss'', ''dr'', ''shri'', ''smt'', ''sri'', ''md'']"

definition normaliseName :: "string \<Rightarrow> string option \<Rightarrow> string" where
  "normaliseName first surname =
    (let joined = to_lower (first @ '' '' @ (case surname of None \<Rightarrow> [] | Some l \<Rightarrow> l));
         cleaned = map (\<lambda>c. if is_lower c \<or> is_space c then c else CHR '' '') joined;
         tokens = filter (\<lambda>t. t \<noteq> [] \<and> t \<notin> set HONORIFICS) (words_of cleaned)
     in join_with '' '' (js_sort code_unit_order tokens))"

definition normaliseCity :: "string option \<Rightarrow> string option" where
  "normaliseCity v =
    (if \<not> truthy v then None
     else let cleaned = filter (\<lambda>c. is_lower c \<or> is_space c) (to_lower (js_trim (the v)))
          in if cleaned \<noteq> [] then Some cleaned else None)"

section \<open>Edit distance\<close>

text \<open>
  \<open>lev_row x bs prev left\<close> is the rest of the current row: \<open>prev\<close> starts at the entry above
  \<open>left\<close>. \<open>lev_rows\<close> is the outer loop.
\<close>

fun lev_row :: "'a \<Rightarrow> 'a list \<Rightarrow> nat list \<Rightarrow> nat \<Rightarrow> nat list" where
  "lev_row x (b # bs) (p # q # ps) left =
    (let cost = (if x = b then 0 else 1);
         v = min (min (left + 1) (q + 1)) (p + cost)
     in v # lev_row x bs (q # ps) v)"
| "lev_row x bs ps left = []"

fun lev_rows :: "'a list \<Rightarrow> 'a list \<Rightarrow> nat \<Rightarrow> nat list \<Rightarrow> nat list" where
  "lev_rows [] b i previous = previous"
| "lev_rows (x # a) b i previous = lev_rows a b (i + 1) ((i + 1) # lev_row x b previous (i + 1))"

definition editDistance :: "string \<Rightarrow> string \<Rightarrow> nat" where
  "editDistance a b =
    (if a = b then 0
     else if length a = 0 then length b
     else if length b = 0 then length a
     else lev_rows a b 0 [0..<length b + 1] ! length b)"

definition nameSimilarity :: "string \<Rightarrow> string \<Rightarrow> rat" where
  "nameSimilarity a b =
    (if a = [] \<or> b = [] then 0
     else if a = b then 1
     else let longest = max (length a) (length b)
          in if longest > 80 then 0
             else max 0 (1 - of_nat (editDistance a b) / of_nat longest))"

text \<open>The specification: alignments of two strings by keeping, dropping, adding and replacing.\<close>

inductive edits :: "nat \<Rightarrow> 'a list \<Rightarrow> 'a list \<Rightarrow> bool" where
  edits_nil: "edits 0 [] []"
| edits_keep: "edits n xs ys \<Longrightarrow> edits n (c # xs) (c # ys)"
| edits_drop: "edits n xs ys \<Longrightarrow> edits (Suc n) (c # xs) ys"
| edits_add: "edits n xs ys \<Longrightarrow> edits (Suc n) xs (c # ys)"
| edits_replace: "edits n xs ys \<Longrightarrow> edits (Suc n) (c # xs) (d # ys)"

lemma edits_append: "edits m xs ys \<Longrightarrow> edits n us vs \<Longrightarrow> edits (m + n) (xs @ us) (ys @ vs)"
  by (induction rule: edits.induct) (auto intro: edits.intros)

lemma edits_rev: "edits n xs ys \<Longrightarrow> edits n (rev xs) (rev ys)"
proof (induction rule: edits.induct)
  case (edits_keep n xs ys c)
  have "edits 0 [c] [c]" by (intro edits.intros)
  from edits_append [OF edits_keep.IH this] show ?case by simp
next
  case (edits_drop n xs ys c)
  have "edits (Suc 0) [c] []" by (intro edits.intros)
  from edits_append [OF edits_drop.IH this] show ?case by simp
next
  case (edits_add n xs ys c)
  have "edits (Suc 0) [] [c]" by (intro edits.intros)
  from edits_append [OF edits_add.IH this] show ?case by simp
next
  case (edits_replace n xs ys c d)
  have "edits (Suc 0) [c] [d]" by (intro edits.intros)
  from edits_append [OF edits_replace.IH this] show ?case by simp
qed (simp add: edits_nil)

fun ldist :: "'a list \<Rightarrow> 'a list \<Rightarrow> nat" where
  "ldist [] ys = length ys"
| "ldist xs [] = length xs"
| "ldist (x # xs) (y # ys) =
    min (min (ldist (x # xs) ys + 1) (ldist xs (y # ys) + 1)) (ldist xs ys + (if x = y then 0 else 1))"

lemma edits_all_added: "edits (length ys) [] ys"
  by (induction ys) (auto intro: edits.intros)

lemma edits_all_dropped: "edits (length xs) xs []"
  by (induction xs) (auto intro: edits.intros)

lemma edits_ldist: "edits (ldist xs ys) xs ys"
proof (induction xs ys rule: ldist.induct)
  case (3 x xs y ys)
  have "edits (ldist (x # xs) ys + 1) (x # xs) (y # ys)" using 3(1) by (simp add: edits_add)
  moreover have "edits (ldist xs (y # ys) + 1) (x # xs) (y # ys)" using 3(2) by (simp add: edits_drop)
  moreover have "edits (ldist xs ys + (if x = y then 0 else 1)) (x # xs) (y # ys)"
    using 3(3) by (auto intro: edits_keep edits_replace)
  moreover have "edits m us vs \<Longrightarrow> edits n us vs \<Longrightarrow> edits (min m n) us vs" for m n and us vs :: "'a list"
    by (simp add: min_def)
  ultimately show ?case unfolding ldist.simps by blast
next
  case (2 v va)
  then show ?case using edits_all_dropped [of "v # va"] by simp
qed (simp add: edits_all_added)

lemma ldist_Nil [simp]: "ldist xs [] = length xs"
  by (cases xs) simp_all

lemma ldist_least: "edits n xs ys \<Longrightarrow> ldist xs ys \<le> n"
proof (induction rule: edits.induct)
  case (edits_drop n xs ys c)
  then show ?case by (cases ys) auto
next
  case (edits_add n xs ys c)
  then show ?case by (cases xs) auto
qed auto

text \<open>A row of the table: distances of a fixed reversed prefix to the growing prefixes.\<close>

fun dist_row :: "'a list \<Rightarrow> 'a list \<Rightarrow> 'a list \<Rightarrow> nat list" where
  "dist_row q p [] = [ldist q p]"
| "dist_row q p (b # bs) = ldist q p # dist_row q (b # p) bs"

lemma dist_row_Cons: "\<exists>ps. dist_row q p bs = ldist q p # ps"
  by (cases bs) simp_all

lemma lev_row_dist:
  "ldist (x # q) p # lev_row x bs (dist_row q p bs) (ldist (x # q) p) = dist_row (x # q) p bs"
proof (induction bs arbitrary: p)
  case Nil
  show ?case by simp
next
  case (Cons b bs)
  obtain ps where ps: "dist_row q (b # p) bs = ldist q (b # p) # ps" using dist_row_Cons by blast
  have "min (min (ldist (x # q) p + 1) (ldist q (b # p) + 1)) (ldist q p + (if x = b then 0 else 1)) =
      ldist (x # q) (b # p)" by simp
  then show ?case using Cons.IH [of "b # p"] by (simp add: ps Let_def del: ldist.simps(3))
qed

lemma lev_rows_dist:
  "i = length q \<Longrightarrow> lev_rows a b i (dist_row q [] b) = dist_row (rev a @ q) [] b"
proof (induction a arbitrary: i q)
  case (Cons x a)
  have "(i + 1) # lev_row x b (dist_row q [] b) (i + 1) = dist_row (x # q) [] b"
    using lev_row_dist [of x q "[]" b] Cons.prems by simp
  then show ?case using Cons.IH [of "i + 1" "x # q"] Cons.prems by simp
qed simp

lemma dist_row_first: "dist_row [] p b = [length p..<length p + length b + 1]"
proof (induction b arbitrary: p)
  case (Cons c b)
  then show ?case by (simp add: upt_conv_Cons del: upt_Suc)
qed simp

lemma dist_row_last: "dist_row q p b ! length b = ldist q (rev b @ p)"
  by (induction b arbitrary: p) simp_all

lemma length_dist_row [simp]: "length (dist_row q p b) = length b + 1"
  by (induction b arbitrary: p) simp_all

lemma ldist_refl [simp]: "ldist xs xs = 0"
  by (induction xs) auto

lemma editDistance_ldist: "editDistance a b = ldist (rev a) (rev b)"
proof -
  have "lev_rows a b 0 [0..<length b + 1] = dist_row (rev a) [] b"
    using lev_rows_dist [of 0 "[]" a b] dist_row_first [of "[]" b] by simp
  then show ?thesis
    using dist_row_last [of "rev a" "[]" b] by (auto simp: editDistance_def)
qed

text \<open>
  C9. The two-row loop computes the true edit distance: some sequence of single-character
  insertions, deletions and replacements of that length turns one name into the other, and no
  shorter one does.
\<close>

theorem edit_distance_is_minimal:
  "edits (editDistance a b) a b \<and> (\<forall>n. edits n a b \<longrightarrow> editDistance a b \<le> n)"
proof
  show "edits (editDistance a b) a b"
    using edits_rev [OF edits_ldist [of "rev a" "rev b"]] by (simp add: editDistance_ldist)
  show "\<forall>n. edits n a b \<longrightarrow> editDistance a b \<le> n"
    using edits_rev ldist_least by (fastforce simp: editDistance_ldist)
qed

lemma edit_distance_is_minimal_witness:
  "editDistance ''rahul'' ''rahool'' = 2 \<and> edits 2 ''rahul'' ''rahool''"
proof -
  have "editDistance ''rahul'' ''rahool'' = 2" by code_simp
  then show ?thesis using edit_distance_is_minimal [of "''rahul''" "''rahool''"] by simp
qed

section \<open>Scoring\<close>

definition match_finalise :: "match_candidate \<Rightarrow> match_signal list \<Rightarrow> bool \<Rightarrow> match_result" where
  "match_finalise candidate signals isIdentityKey =
    (let raw = sum_list (map sg_points signals);
         ceiling = (if isIdentityKey then 100 else MATCH_DEFINITE - 1);
         score = min ceiling raw
     in \<lparr>mr_candidate = candidate, mr_score = score, mr_confidence = confidenceFor score,
         mr_signals = signals\<rparr>)"

definition signal :: "signal_code \<Rightarrow> int \<Rightarrow> match_signal" where
  "signal c p = \<lparr>sg_code = c, sg_points = p\<rparr>"

text \<open>Two normalised keys agree when both are there and equal.\<close>

definition same_key :: "string option \<Rightarrow> string option \<Rightarrow> bool" where
  "same_key a b \<longleftrightarrow> truthy a \<and> truthy b \<and> a = b"

definition weak_signals :: "match_input \<Rightarrow> match_candidate \<Rightarrow> match_signal list" where
  "weak_signals input candidate =
    (let similarity = nameSimilarity (normaliseName (mi_firstName input) (mi_lastName input))
           (normaliseName (mi_firstName candidate) (mi_lastName candidate));
         inputMobile = normaliseMobile (mi_mobile input);
         candidateMobile = normaliseMobile (mi_mobile candidate);
         email = (if same_key (normaliseEmail (mi_email input)) (normaliseEmail (mi_email candidate))
                  then [signal EMAIL 55] else []);
         name = (if similarity = 1 then [signal NAME_EXACT 25]
                 else if similarity \<ge> 85 / 100 then [signal NAME_CLOSE 15] else []);
         near = (if similarity \<ge> 85 / 100
                 then (if same_key (normaliseCity (mi_city input)) (normaliseCity (mi_city candidate))
                       then [signal CITY 15] else []) @
                      (if truthy inputMobile \<and> truthy candidateMobile \<and> inputMobile \<noteq> candidateMobile \<and>
                          slice_last 4 (the inputMobile) = slice_last 4 (the candidateMobile)
                       then [signal MOBILE_PARTIAL 20] else [])
                 else [])
     in email @ name @ near)"

definition scoreMatch :: "match_input \<Rightarrow> match_candidate \<Rightarrow> match_result" where
  "scoreMatch input candidate =
    (if same_key (normalisePan (mi_pan input)) (normalisePan (mi_pan candidate))
     then match_finalise candidate [signal PAN 100] True
     else if same_key (normaliseMobile (mi_mobile input)) (normaliseMobile (mi_mobile candidate))
     then match_finalise candidate [signal MOBILE 95] True
     else match_finalise candidate (weak_signals input candidate) False)"

definition findMatches :: "match_input \<Rightarrow> match_candidate list \<Rightarrow> nat \<Rightarrow> match_result list" where
  "findMatches input candidates limit =
    take limit (js_sort (\<lambda>a b. mr_score b - mr_score a)
      (filter (\<lambda>r. mr_confidence r \<noteq> NONE) (map (scoreMatch input) candidates)))"

datatype import_decision = CREATE_ROW | SKIP_ROW | REVIEW_ROW

definition suggestDecision :: "match_result option \<Rightarrow> import_decision" where
  "suggestDecision best =
    (case best of
       None \<Rightarrow> CREATE_ROW
     | Some r \<Rightarrow>
         (if mr_confidence r = DEFINITE then SKIP_ROW
          else if mr_confidence r = PROBABLE then REVIEW_ROW
          else CREATE_ROW))"

section \<open>What a decision means\<close>

definition same_identity :: "match_input \<Rightarrow> match_candidate \<Rightarrow> bool" where
  "same_identity input candidate \<longleftrightarrow>
    same_key (normalisePan (mi_pan input)) (normalisePan (mi_pan candidate)) \<or>
    same_key (normaliseMobile (mi_mobile input)) (normaliseMobile (mi_mobile candidate))"

interpretation best_first: comparator "\<lambda>a b. mr_score b - mr_score a"
  by unfold_locales auto

lemma finalise_fields:
  "mr_candidate (match_finalise c s k) = c"
  "mr_confidence (match_finalise c s k) = confidenceFor (mr_score (match_finalise c s k))"
  by (simp_all add: match_finalise_def Let_def)

lemma finalise_weak: "mr_score (match_finalise c s False) < MATCH_DEFINITE"
  by (simp add: match_finalise_def Let_def)

lemma scoreMatch_confidence: "mr_confidence (scoreMatch i c) = confidenceFor (mr_score (scoreMatch i c))"
  by (simp add: scoreMatch_def finalise_fields)

lemma scoreMatch_definite: "MATCH_DEFINITE \<le> mr_score (scoreMatch i c) \<longleftrightarrow> same_identity i c"
  using finalise_weak [of c "weak_signals i c"]
  by (auto simp: scoreMatch_def same_identity_def match_finalise_def signal_def MATCH_DEFINITE_def Let_def)

lemma definite_same_identity: "mr_confidence (scoreMatch i c) = DEFINITE \<longleftrightarrow> same_identity i c"
  unfolding scoreMatch_confidence confidenceFor_def scoreMatch_definite [symmetric] by simp

text \<open>
  C10. Only a fact is decisive: a candidate is a definite match exactly when the normalised PAN or
  the normalised mobile number of both records is present and equal. No combination of a shared
  email, name, city or partial number reaches it.
\<close>

theorem definite_iff_identity_key:
  "mr_confidence (scoreMatch input candidate) = DEFINITE \<longleftrightarrow> same_identity input candidate"
  by (rule definite_same_identity)

lemma findMatches_head:
  assumes "0 < limit" and "c \<in> set cs" and "mr_confidence (scoreMatch i c) \<noteq> NONE"
  shows "\<exists>r \<in> set cs. hd (findMatches i cs limit) = scoreMatch i r \<and> findMatches i cs limit \<noteq> [] \<and>
    mr_score (scoreMatch i c) \<le> mr_score (scoreMatch i r)"
proof -
  let ?rs = "filter (\<lambda>r. mr_confidence r \<noteq> NONE) (map (scoreMatch i) cs)"
  let ?s = "js_sort (\<lambda>a b. mr_score b - mr_score a) ?rs"
  have mem: "scoreMatch i c \<in> set ?rs" using assms(2,3) by auto
  then have ne: "?s \<noteq> []" by (cases ?rs) (simp_all del: js_sort.simps)
  have least: "mr_score (scoreMatch i c) - mr_score (hd ?s) \<le> 0"
    by (rule best_first.hd_js_sort_least [OF mem])
  have "hd ?s \<in> set ?rs" using hd_in_set [OF ne] by (simp only: set_js_sort)
  then obtain r where "r \<in> set cs" "hd ?s = scoreMatch i r" by auto
  moreover have "hd (findMatches i cs limit) = hd ?s" "findMatches i cs limit \<noteq> []"
    using ne assms(1) by (simp_all add: findMatches_def hd_take)
  ultimately show ?thesis using least by (intro bexI [of _ r]) simp_all
qed

text \<open>
  The importer skips a row exactly when some existing record shares its PAN or mobile number:
  a definite match is never hidden behind better-scored weak ones, whatever the order of the
  candidates, and without one the row is created or put up for review.
\<close>

theorem skip_iff_known_identity:
  assumes "0 < limit"
  shows "suggestDecision (case findMatches input candidates limit of [] \<Rightarrow> None | r # _ \<Rightarrow> Some r) = SKIP_ROW \<longleftrightarrow>
    (\<exists>c \<in> set candidates. same_identity input c)"
proof
  assume "\<exists>c \<in> set candidates. same_identity input c"
  then obtain c where c: "c \<in> set candidates" "MATCH_DEFINITE \<le> mr_score (scoreMatch input c)"
    using scoreMatch_definite by blast
  then have "mr_confidence (scoreMatch input c) \<noteq> NONE" by (simp add: scoreMatch_confidence confidenceFor_def)
  from findMatches_head [OF assms c(1) this] obtain r where r: "hd (findMatches input candidates limit) = scoreMatch input r"
    "findMatches input candidates limit \<noteq> []" "mr_score (scoreMatch input c) \<le> mr_score (scoreMatch input r)" by blast
  then have "mr_confidence (scoreMatch input r) = DEFINITE"
    using c(2) by (simp add: scoreMatch_confidence confidenceFor_def)
  then show "suggestDecision (case findMatches input candidates limit of [] \<Rightarrow> None | r # _ \<Rightarrow> Some r) = SKIP_ROW"
    using r(1,2) by (cases "findMatches input candidates limit") (simp_all add: suggestDecision_def)
next
  assume skip: "suggestDecision (case findMatches input candidates limit of [] \<Rightarrow> None | r # _ \<Rightarrow> Some r) = SKIP_ROW"
  then obtain r rs where f: "findMatches input candidates limit = r # rs" and d: "mr_confidence r = DEFINITE"
    by (cases "findMatches input candidates limit") (auto simp: suggestDecision_def split: if_splits)
  have "r \<in> set (findMatches input candidates limit)" by (simp add: f)
  then have "r \<in> scoreMatch input ` set candidates"
    by (auto simp: findMatches_def dest!: in_set_takeD)
  then obtain c where "c \<in> set candidates" "r = scoreMatch input c" by blast
  with d definite_same_identity [of input c] show "\<exists>c \<in> set candidates. same_identity input c" by blast
qed


definition demo_match :: "string \<Rightarrow> string option \<Rightarrow> string option \<Rightarrow> match_candidate" where
  "demo_match name mobile pan = \<lparr>mi_firstName = name, mi_lastName = Some ''Mehta'', mi_mobile = mobile,
     mi_email = Some ''a@b.in'', mi_pan = pan, mi_city = Some ''Pune'', mc_id = name\<rparr>"

definition demo_input :: match_input where
  "demo_input = \<lparr>mi_firstName = ''Rahul'', mi_lastName = Some ''Mehta'', mi_mobile = Some ''+91 98765 43210'',
     mi_email = Some ''a@b.in'', mi_pan = None, mi_city = Some ''Pune''\<rparr>"

lemma skip_iff_known_identity_witness:
  "suggestDecision (case findMatches demo_input [demo_match ''Rahul'' None None, demo_match ''Asha'' (Some ''098765 43210'') None] 5
     of [] \<Rightarrow> None | r # _ \<Rightarrow> Some r) = SKIP_ROW \<and>
   suggestDecision (case findMatches demo_input [demo_match ''Rahul'' None None] 5
     of [] \<Rightarrow> None | r # _ \<Rightarrow> Some r) \<noteq> SKIP_ROW"
proof -
  have yes: "same_identity demo_input (demo_match ''Asha'' (Some ''098765 43210'') None)" by code_simp
  have no: "\<not> same_identity demo_input (demo_match ''Rahul'' None None)" by code_simp
  show ?thesis
    using skip_iff_known_identity [of 5 demo_input] yes no by simp
qed

end
