(* ===== verification/Leads.thy ===== *)
theory Leads
  imports Scope
begin

text \<open>
  The lead pipeline: \<open>packages/contracts/src/enums.ts\<close> (statuses and their transitions),
  \<open>lead-product.ts\<close> (outcomes per product and the roll-up), \<open>lead.ts\<close> and
  \<open>lead-conversion.ts\<close>, and the writing half of
  \<open>apps/api/src/modules/leads/leads.service.ts\<close>. The state is the tables those handlers write.
  A statement of a transaction may fail on a constraint of the database
  (\<open>prisma/migrations\<close>): the unique indexes over active leads, the unique PAN and client code of
  a customer, and the check that a lost lead has a reason. A transaction that fails leaves the
  state as it was, so a handler returns either an error or the new state. The texts a handler
  composes for a timeline subject or an audit reason are not modelled; a text the caller gives is.
\<close>

section \<open>Statuses\<close>

datatype lead_status = NEW | CONTACTED | QUALIFIED | PROPOSAL | CONVERTED | LOST | DISQUALIFIED

fun LEAD_STATUS_TRANSITIONS :: "lead_status \<Rightarrow> lead_status list" where
  "LEAD_STATUS_TRANSITIONS NEW = [CONTACTED, QUALIFIED, DISQUALIFIED, LOST]"
| "LEAD_STATUS_TRANSITIONS CONTACTED = [QUALIFIED, DISQUALIFIED, LOST, NEW]"
| "LEAD_STATUS_TRANSITIONS QUALIFIED = [PROPOSAL, CONVERTED, LOST, DISQUALIFIED]"
| "LEAD_STATUS_TRANSITIONS PROPOSAL = [CONVERTED, LOST, QUALIFIED]"
| "LEAD_STATUS_TRANSITIONS CONVERTED = []"
| "LEAD_STATUS_TRANSITIONS LOST = [NEW]"
| "LEAD_STATUS_TRANSITIONS DISQUALIFIED = [NEW]"

definition canTransitionLead :: "lead_status \<Rightarrow> lead_status \<Rightarrow> bool" where
  "canTransitionLead from to = (to \<in> set (LEAD_STATUS_TRANSITIONS from))"

definition CLOSED_LEAD_STATUSES :: "lead_status list" where
  "CLOSED_LEAD_STATUSES = [CONVERTED, LOST, DISQUALIFIED]"

definition OPEN_LEAD_PRODUCT_STATUSES :: "lead_status list" where
  "OPEN_LEAD_PRODUCT_STATUSES = [NEW, CONTACTED, QUALIFIED, PROPOSAL]"

definition isOpenLeadProductStatus :: "lead_status \<Rightarrow> bool" where
  "isOpenLeadProductStatus status = (status \<in> set OPEN_LEAD_PRODUCT_STATUSES)"

fun ADVANCEMENT :: "lead_status \<Rightarrow> nat" where
  "ADVANCEMENT PROPOSAL = 4"
| "ADVANCEMENT QUALIFIED = 3"
| "ADVANCEMENT CONTACTED = 2"
| "ADVANCEMENT NEW = 1"
| "ADVANCEMENT CONVERTED = 0"
| "ADVANCEMENT LOST = 0"
| "ADVANCEMENT DISQUALIFIED = 0"

definition rollUpLeadStatus :: "lead_status list \<Rightarrow> lead_status option" where
  "rollUpLeadStatus statuses =
    (if statuses = [] then None
     else case filter isOpenLeadProductStatus statuses of
         s # rest \<Rightarrow>
           Some (foldl (\<lambda>furthest status.
             if ADVANCEMENT status > ADVANCEMENT furthest then status else furthest) s rest)
       | [] \<Rightarrow>
           (if CONVERTED \<in> set statuses then Some CONVERTED
            else if LOST \<in> set statuses then Some LOST
            else Some DISQUALIFIED))"

definition LEAD_LOST_REASONS :: "string list" where
  "LEAD_LOST_REASONS =
    [''PRICE'', ''COMPETITOR'', ''NOT_INTERESTED'', ''UNREACHABLE'', ''INELIGIBLE'', ''DUPLICATE'', ''OTHER'']"

text \<open>The furthest-advanced open status, and the outcome otherwise.\<close>

lemma furthest_foldl:
  "foldl (\<lambda>f s. if ADVANCEMENT s > ADVANCEMENT f then s else f) a ss \<in> insert a (set ss) \<and>
   (\<forall>s \<in> insert a (set ss).
      ADVANCEMENT s \<le> ADVANCEMENT (foldl (\<lambda>f s. if ADVANCEMENT s > ADVANCEMENT f then s else f) a ss))"
proof (induction ss arbitrary: a)
  case (Cons s ss)
  show ?case
  proof (cases "ADVANCEMENT a < ADVANCEMENT s")
    case True
    then show ?thesis using Cons.IH [of s] by auto
  next
    case False
    then show ?thesis using Cons.IH [of a] by fastforce
  qed
qed simp

lemma rollUp_None_iff [simp]: "rollUpLeadStatus ss = None \<longleftrightarrow> ss = []"
  by (auto simp: rollUpLeadStatus_def split: list.splits)

lemma isOpen_cases: "isOpenLeadProductStatus s \<longleftrightarrow> s \<notin> set CLOSED_LEAD_STATUSES"
  by (cases s) (auto simp: isOpenLeadProductStatus_def OPEN_LEAD_PRODUCT_STATUSES_def CLOSED_LEAD_STATUSES_def)

lemma rollUp_open:
  assumes "rollUpLeadStatus ss = Some r"
  shows "isOpenLeadProductStatus r \<longleftrightarrow> (\<exists>s \<in> set ss. isOpenLeadProductStatus s)"
proof (cases "filter isOpenLeadProductStatus ss")
  case Nil
  then have "\<not> (\<exists>s \<in> set ss. isOpenLeadProductStatus s)" by (auto simp: filter_empty_conv)
  moreover have "r \<in> set CLOSED_LEAD_STATUSES"
    using assms Nil by (auto simp: rollUpLeadStatus_def CLOSED_LEAD_STATUSES_def split: if_splits)
  ultimately show ?thesis by (simp add: isOpen_cases)
next
  case (Cons s rest)
  have sub: "set (s # rest) \<subseteq> {x \<in> set ss. isOpenLeadProductStatus x}"
    using Cons by (metis set_filter order_refl)
  have "r \<in> insert s (set rest)"
    using assms Cons furthest_foldl [of s rest] by (auto simp: rollUpLeadStatus_def split: if_splits)
  then have "r \<in> set ss" "isOpenLeadProductStatus r" using sub by auto
  then show ?thesis by blast
qed

lemma rollUp_mem:
  assumes "rollUpLeadStatus ss = Some r" and "r \<noteq> DISQUALIFIED"
  shows "r \<in> set ss"
proof (cases "filter isOpenLeadProductStatus ss")
  case Nil
  then show ?thesis using assms by (auto simp: rollUpLeadStatus_def split: if_splits)
next
  case (Cons s rest)
  have sub: "set (s # rest) \<subseteq> {x \<in> set ss. isOpenLeadProductStatus x}"
    using Cons by (metis set_filter order_refl)
  have "r \<in> insert s (set rest)"
    using assms(1) Cons furthest_foldl [of s rest] by (auto simp: rollUpLeadStatus_def split: if_splits)
  then show ?thesis using sub by auto
qed

lemma rollUp_furthest:
  assumes "rollUpLeadStatus ss = Some r" and "s \<in> set ss" and "isOpenLeadProductStatus s"
  shows "ADVANCEMENT s \<le> ADVANCEMENT r"
proof -
  have "s \<in> set (filter isOpenLeadProductStatus ss)" using assms(2,3) by simp
  then obtain a rest where f: "filter isOpenLeadProductStatus ss = a # rest" "s \<in> insert a (set rest)"
    by (cases "filter isOpenLeadProductStatus ss") auto
  then show ?thesis
    using assms(1) furthest_foldl [of a rest] by (auto simp: rollUpLeadStatus_def split: if_splits)
qed

lemma rollUp_converted:
  assumes "rollUpLeadStatus ss = Some r"
  shows "r = CONVERTED \<longleftrightarrow> CONVERTED \<in> set ss \<and> (\<forall>s \<in> set ss. \<not> isOpenLeadProductStatus s)"
proof
  assume r: "r = CONVERTED"
  then show "CONVERTED \<in> set ss \<and> (\<forall>s \<in> set ss. \<not> isOpenLeadProductStatus s)"
    using rollUp_mem [OF assms] rollUp_open [OF assms]
    by (auto simp: isOpen_cases CLOSED_LEAD_STATUSES_def)
next
  assume c: "CONVERTED \<in> set ss \<and> (\<forall>s \<in> set ss. \<not> isOpenLeadProductStatus s)"
  then have "filter isOpenLeadProductStatus ss = []" by (simp add: filter_empty_conv)
  then show "r = CONVERTED" using assms c by (auto simp: rollUpLeadStatus_def split: if_splits)
qed

text \<open>Rolling windows of the Closed column, and the score bands.\<close>

datatype closed_period = D30 | D60 | D90

fun PERIOD_DAYS :: "closed_period \<Rightarrow> int" where
  "PERIOD_DAYS D30 = 30"
| "PERIOD_DAYS D60 = 60"
| "PERIOD_DAYS D90 = 90"

definition closedSince :: "closed_period \<Rightarrow> time \<Rightarrow> time" where
  "closedSince period now = now - PERIOD_DAYS period * 24 * 60 * 60 * 1000"

datatype score_band = COLD | WARM | HOT

definition scoreBandFor :: "int \<Rightarrow> score_band" where
  "scoreBandFor score = (if score \<ge> 70 then HOT else if score \<ge> 40 then WARM else COLD)"

definition canTransferLeads :: "data_scope \<Rightarrow> bool" where
  "canTransferLeads dataScope = (dataScope \<noteq> SELF)"

text \<open>\<open>lead.ts\<close> has a normalisation of mobile numbers of its own.\<close>

definition mobile_digits :: "string option \<Rightarrow> string" where
  "mobile_digits v = (if \<not> truthy v then [] else slice_last 10 (filter is_digit (the v)))"

text \<open>The outer option is \<open>undefined\<close>: the number was not part of the edit.\<close>

definition verificationSurvivesEdit :: "string option \<Rightarrow> string option option \<Rightarrow> bool" where
  "verificationSurvivesEdit current next_mobile =
    (case next_mobile of None \<Rightarrow> True | Some v \<Rightarrow> mobile_digits current = mobile_digits v)"

section \<open>Rows\<close>

record lead_row =
  l_id :: string
  l_reference :: string
  l_firstName :: string
  l_lastName :: "string option"
  l_mobile :: string
  l_email :: "string option"
  l_pan :: "string option"
  l_city :: "string option"
  l_state :: "string option"
  l_pincode :: "string option"
  l_status :: lead_status
  l_source :: string
  l_priority :: string
  l_productInterest :: "string list"
  l_estimatedValue :: "rat option"
  l_score :: int
  l_mobileVerifiedAt :: "time option"
  l_mobileVerificationMethod :: "string option"
  l_mobileVerifiedById :: "string option"
  l_ownerId :: "string option"
  l_capturedById :: "string option"
  l_orgUnitId :: "string option"
  l_partnerId :: "string option"
  l_campaignId :: "string option"
  l_eventId :: "string option"
  l_nextFollowUpAt :: "time option"
  l_lastActivityAt :: "time option"
  l_contactedAt :: "time option"
  l_qualifiedAt :: "time option"
  l_convertedAt :: "time option"
  l_closedAt :: "time option"
  l_lostReason :: "string option"
  l_lostNote :: "string option"
  l_mergedIntoId :: "string option"
  l_customerId :: "string option"
  l_createdById :: "string option"
  l_updatedById :: "string option"
  l_createdAt :: time
  l_deletedAt :: "time option"

record lead_product =
  lp_leadId :: string
  lp_code :: string
  lp_status :: lead_status
  lp_finalAmount :: "rat option"
  lp_conversionRef :: "string option"
  lp_conversionRefKind :: "string option"
  lp_closedAt :: "time option"
  lp_lostReason :: "string option"
  lp_note :: "string option"

record customer_row =
  cu_id :: string
  cu_reference :: string
  cu_clientCode :: "string option"
  cu_pan :: "string option"
  cu_firstName :: string
  cu_mobile :: string
  cu_email :: "string option"
  cu_status :: string
  cu_productInterest :: "string list"
  cu_relationshipManagerId :: "string option"
  cu_orgUnitId :: "string option"
  cu_partnerId :: "string option"
  cu_deletedAt :: "time option"

record customer_product =
  cp_customerId :: string
  cp_product :: string
  cp_status :: string
  cp_openedAt :: "time option"
  cp_sourceSystem :: string

record status_history =
  hs_leadId :: string
  hs_from :: "lead_status option"
  hs_to :: lead_status
  hs_note :: "string option"
  hs_changedById :: "string option"
  hs_durationSeconds :: "int option"
  hs_changedAt :: time

text \<open>Rows that hang off an entity by its type and id: the timeline, tasks and documents.\<close>

record entity_link =
  el_entityType :: string
  el_entityId :: string

record activity_row = entity_link +
  ac_type :: string
  ac_body :: "string option"
  ac_actorId :: "string option"
  ac_isSystemGenerated :: bool

record consent_row = entity_link +
  co_leadId :: "string option"
  co_customerId :: "string option"
  co_purpose :: string
  co_granted :: bool

record event_attendance =
  ea_eventId :: string
  ea_leadId :: string
  ea_returning :: bool

record domain_event =
  ev_type :: string
  ev_aggregateId :: string

record crm =
  cr_leads :: "lead_row list"
  cr_products :: "lead_product list"
  cr_customers :: "customer_row list"
  cr_holdings :: "customer_product list"
  cr_history :: "status_history list"
  cr_activities :: "activity_row list"
  cr_tasks :: "entity_link list"
  cr_documents :: "entity_link list"
  cr_consents :: "consent_row list"
  cr_attendance :: "event_attendance list"
  cr_strongAllocations :: nat
  cr_events :: "domain_event list"
  cr_audit :: "audit_entry list"

interpretation lead_table: repository "find_by l_id" "update_by l_id" insert_row l_id
  by (rule repository_by)

interpretation customer_table: repository "find_by cu_id" "update_by cu_id" insert_row cu_id
  by (rule repository_by)

definition product_key :: "lead_product \<Rightarrow> string \<times> string" where
  "product_key p = (lp_leadId p, lp_code p)"

interpretation product_table: repository "find_by product_key" "update_by product_key" insert_row product_key
  by (rule repository_by)

section \<open>Statements and the constraints of the database\<close>

text \<open>The partial unique indexes range over the leads that are neither deleted nor closed.\<close>

definition live_lead :: "lead_row \<Rightarrow> bool" where
  "live_lead l \<longleftrightarrow> l_deletedAt l = None \<and> l_status l \<notin> set CLOSED_LEAD_STATUSES"

definition lead_identity_unique :: "lead_row list \<Rightarrow> bool" where
  "lead_identity_unique ls \<longleftrightarrow>
    distinct (map l_mobile (filter live_lead ls)) \<and>
    distinct (map l_pan (filter (\<lambda>l. live_lead l \<and> l_pan l \<noteq> None) ls))"

definition lost_has_reason :: "lead_row \<Rightarrow> bool" where
  "lost_has_reason l \<longleftrightarrow> l_status l \<noteq> LOST \<or> l_lostReason l \<noteq> None"

definition store_leads :: "lead_row list \<Rightarrow> crm \<Rightarrow> crm result" where
  "store_leads ls s =
    (if \<not> lead_identity_unique ls then Inl (Conflict ''Conflict'')
     else if \<not> list_all lost_has_reason ls then Inl (ServerError ''Internal server error'')
     else Inr (s\<lparr>cr_leads := ls\<rparr>))"

definition update_lead :: "string \<Rightarrow> (lead_row \<Rightarrow> lead_row) \<Rightarrow> crm \<Rightarrow> crm result" where
  "update_lead i f s = store_leads (update_by l_id i f (cr_leads s)) s"

definition customer_identity_unique :: "customer_row list \<Rightarrow> bool" where
  "customer_identity_unique cs \<longleftrightarrow>
    distinct (map cu_pan (filter (\<lambda>c. cu_pan c \<noteq> None) cs)) \<and>
    distinct (map cu_clientCode (filter (\<lambda>c. cu_clientCode c \<noteq> None) cs))"

definition store_customers :: "customer_row list \<Rightarrow> crm \<Rightarrow> crm result" where
  "store_customers cs s =
    (if customer_identity_unique cs then Inr (s\<lparr>cr_customers := cs\<rparr>)
     else Inl (Conflict ''Conflict''))"

definition add_history :: "status_history \<Rightarrow> crm \<Rightarrow> crm" where
  "add_history h s = s\<lparr>cr_history := insert_row h (cr_history s)\<rparr>"

definition add_activity :: "string \<Rightarrow> string \<Rightarrow> string option \<Rightarrow> string \<Rightarrow> crm \<Rightarrow> crm" where
  "add_activity leadId type body actor s =
    s\<lparr>cr_activities := insert_row
        \<lparr>el_entityType = ''LEAD'', el_entityId = leadId, ac_type = type, ac_body = body,
         ac_actorId = Some actor, ac_isSystemGenerated = True\<rparr> (cr_activities s)\<rparr>"

definition publish :: "string \<Rightarrow> string \<Rightarrow> crm \<Rightarrow> crm" where
  "publish leadId type s =
    s\<lparr>cr_events := insert_row \<lparr>ev_type = type, ev_aggregateId = leadId\<rparr> (cr_events s)\<rparr>"

definition audited :: "string \<Rightarrow> string option \<Rightarrow> string \<Rightarrow> crm \<Rightarrow> crm" where
  "audited action reason leadId s =
    s\<lparr>cr_audit := insert_row ((audit_entry action ''lead'' leadId)\<lparr>au_reason := reason\<rparr>) (cr_audit s)\<rparr>"

definition lead_scope_row :: "lead_row \<Rightarrow> scoped_row" where
  "lead_scope_row l =
    \<lparr>sr_id = l_id l,
     sr_column = (\<lambda>c. case c of OwnerId \<Rightarrow> l_ownerId l | PartnerId \<Rightarrow> l_partnerId l
                   | CreatedById \<Rightarrow> l_createdById l | Email \<Rightarrow> l_email l | _ \<Rightarrow> None),
     sr_orgUnitId = l_orgUnitId l, sr_attendees = []\<rparr>"

definition mustFindInScope :: "org_unit list \<Rightarrow> principal \<Rightarrow> string \<Rightarrow> crm \<Rightarrow> lead_row result" where
  "mustFindInScope orgs user i s =
    (case find (\<lambda>l. l_id l = i \<and> l_deletedAt l = None \<and> matches orgs (leadScope user) (lead_scope_row l))
            (cr_leads s) of
       None \<Rightarrow> Inl (NotFound ''Lead not found'')
     | Some l \<Rightarrow> Inr l)"

section \<open>The roll-up\<close>

text \<open>\<open>orderBy: closedAt desc\<close>, where the database puts the nulls first.\<close>

definition closed_desc :: "lead_product \<Rightarrow> lead_product \<Rightarrow> int" where
  "closed_desc p q =
    (case (lp_closedAt p, lp_closedAt q) of
       (None, None) \<Rightarrow> 0 | (None, Some _) \<Rightarrow> -1 | (Some _, None) \<Rightarrow> 1 | (Some a, Some b) \<Rightarrow> b - a)"

interpretation closed_desc: comparator closed_desc
  by unfold_locales (auto simp: closed_desc_def split: option.splits)

definition products_of :: "string \<Rightarrow> crm \<Rightarrow> lead_product list" where
  "products_of leadId s = filter (\<lambda>p. lp_leadId p = leadId) (cr_products s)"

definition lead_lost_reason :: "lead_product list \<Rightarrow> string" where
  "lead_lost_reason rows =
    (case find (\<lambda>p. lp_status p = LOST \<and> truthy (lp_lostReason p)) rows of
       None \<Rightarrow> ''OTHER''
     | Some p \<Rightarrow> (if the (lp_lostReason p) \<in> set LEAD_LOST_REASONS then the (lp_lostReason p) else ''OTHER''))"

definition apply_rollup :: "time \<Rightarrow> lead_status \<Rightarrow> string \<Rightarrow> lead_row \<Rightarrow> lead_row" where
  "apply_rollup now rolled reason l =
    (let l = l\<lparr>l_status := rolled,
               l_lostReason := (if rolled = LOST then Some reason else l_lostReason l)\<rparr>
     in if rolled \<in> set CLOSED_LEAD_STATUSES
        then l\<lparr>l_nextFollowUpAt := None,
               l_closedAt := Some (case l_closedAt l of None \<Rightarrow> now | Some t \<Rightarrow> t),
               l_convertedAt :=
                 (if rolled = CONVERTED \<and> l_convertedAt l = None then Some now else l_convertedAt l)\<rparr>
        else l)"

definition rollUpLead :: "time \<Rightarrow> string \<Rightarrow> string option \<Rightarrow> crm \<Rightarrow> crm result" where
  "rollUpLead now leadId actorId s =
    (let rows = js_sort closed_desc (products_of leadId s) in
     case rollUpLeadStatus (map lp_status rows) of
       None \<Rightarrow> Inr s
     | Some rolled \<Rightarrow>
         (case find_by l_id leadId (cr_leads s) of
            None \<Rightarrow> Inr s
          | Some lead \<Rightarrow>
              (if l_status lead = rolled then Inr s
               else and_then (update_lead leadId (apply_rollup now rolled (lead_lost_reason rows)) s)
                 (\<lambda>s. Inr (add_history
                    \<lparr>hs_leadId = leadId, hs_from = Some (l_status lead), hs_to = rolled,
                     hs_note = Some ''Rolled up from product outcomes'', hs_changedById = actorId,
                     hs_durationSeconds = None, hs_changedAt = now\<rparr> s)))))"

section \<open>Products of a lead\<close>

text \<open>\<open>a ?? b\<close> on two nullable values.\<close>

definition or_else :: "'a option \<Rightarrow> 'a option \<Rightarrow> 'a option" where
  "or_else a b = (case a of None \<Rightarrow> b | Some x \<Rightarrow> Some x)"

definition new_product :: "string \<Rightarrow> string \<Rightarrow> lead_product" where
  "new_product leadId code =
    \<lparr>lp_leadId = leadId, lp_code = code, lp_status = NEW, lp_finalAmount = None, lp_conversionRef = None,
     lp_conversionRefKind = None, lp_closedAt = None, lp_lostReason = None, lp_note = None\<rparr>"

text \<open>\<open>names\<close> is the product master's name for a code, or the code itself.\<close>

definition change_note :: "(string \<Rightarrow> string) \<Rightarrow> string list \<Rightarrow> string list \<Rightarrow> string" where
  "change_note names toAdd removable =
    join_with [CHR '' '', CHR 0xB7, CHR '' '']
      ((if toAdd = [] then [] else [''Added '' @ join_with '', '' (map names toAdd)]) @
       (if removable = [] then [] else [''Removed '' @ join_with '', '' (map names removable)]))"

definition products_to_add :: "string \<Rightarrow> string list \<Rightarrow> crm \<Rightarrow> string list" where
  "products_to_add leadId codes s =
    filter (\<lambda>c. c \<notin> lp_code ` set (products_of leadId s)) (js_set codes)"

definition products_to_remove :: "string \<Rightarrow> string list \<Rightarrow> crm \<Rightarrow> string list" where
  "products_to_remove leadId codes s =
    map lp_code (filter (\<lambda>p. lp_code p \<notin> set (js_set codes) \<and> isOpenLeadProductStatus (lp_status p))
      (products_of leadId s))"

definition synced_products :: "string \<Rightarrow> string list \<Rightarrow> crm \<Rightarrow> lead_product list" where
  "synced_products leadId codes s =
    filter (\<lambda>p. \<not> (lp_leadId p = leadId \<and> lp_code p \<in> set (products_to_remove leadId codes s))) (cr_products s) @
    map (new_product leadId) (products_to_add leadId codes s)"

definition syncLeadProducts ::
    "(string \<Rightarrow> string) \<Rightarrow> time \<Rightarrow> string \<Rightarrow> string list \<Rightarrow> string option \<Rightarrow> crm \<Rightarrow> crm result" where
  "syncLeadProducts names now leadId codes actorId s =
    (let toAdd = products_to_add leadId codes s;
         removable = products_to_remove leadId codes s;
         s = s\<lparr>cr_products := synced_products leadId codes s\<rparr>;
         s = (case actorId of
                None \<Rightarrow> s
              | Some a \<Rightarrow>
                  (if toAdd = [] \<and> removable = [] then s
                   else add_activity leadId ''SYSTEM'' (Some (change_note names toAdd removable)) a s))
     in rollUpLead now leadId actorId s)"

definition mirrorConvertedProducts :: "time \<Rightarrow> string \<Rightarrow> string \<Rightarrow> crm \<Rightarrow> crm" where
  "mirrorConvertedProducts now customerId leadId s =
    (let converted = filter (\<lambda>p. lp_status p = CONVERTED) (products_of leadId s);
         rows = map (\<lambda>p. \<lparr>cp_customerId = customerId, cp_product = lp_code p, cp_status = ''CONVERTED'',
                  cp_openedAt = Some (case lp_closedAt p of None \<Rightarrow> now | Some t \<Rightarrow> t),
                  cp_sourceSystem = ''SIHL_ONE''\<rparr>) converted;
         fresh = filter (\<lambda>r. \<not> list_ex (\<lambda>h. cp_customerId h = cp_customerId r \<and> cp_product h = cp_product r)
                   (cr_holdings s)) rows
     in s\<lparr>cr_holdings := cr_holdings s @ fresh\<rparr>)"

record product_status_input =
  ps_productCode :: string
  ps_status :: lead_status
  ps_lostReason :: "string option"
  ps_note :: "string option"

text \<open>What the schema lets through: a lost product has a reason.\<close>

definition changeLeadProductStatusSchema :: "product_status_input \<Rightarrow> bool" where
  "changeLeadProductStatusSchema input \<longleftrightarrow>
    (ps_status input = LOST \<longrightarrow> ps_lostReason input \<noteq> None) \<and>
    (case ps_lostReason input of None \<Rightarrow> True | Some r \<Rightarrow> r \<in> set LEAD_LOST_REASONS)"

definition record_outcome :: "time \<Rightarrow> product_status_input \<Rightarrow> lead_product \<Rightarrow> lead_product" where
  "record_outcome now input p =
    p\<lparr>lp_status := ps_status input,
      lp_lostReason := (if ps_status input = LOST then ps_lostReason input else None),
      lp_note := or_else (ps_note input) (lp_note p),
      lp_closedAt := (if \<not> isOpenLeadProductStatus (ps_status input) then Some now else None)\<rparr>"

definition changeProductStatus ::
    "org_unit list \<Rightarrow> time \<Rightarrow> principal \<Rightarrow> string \<Rightarrow> product_status_input \<Rightarrow> crm \<Rightarrow> crm result" where
  "changeProductStatus orgs now user i input s =
    and_then (mustFindInScope orgs user i s) (\<lambda>_.
    case find_by product_key (i, ps_productCode input) (cr_products s) of
      None \<Rightarrow> Inl (BadRequest ''Not an interest on this lead'')
    | Some _ \<Rightarrow>
        (if ps_status input = CONVERTED then Inl (BadRequest ''Use the conversion step'')
         else
           let s = s\<lparr>cr_products := update_by product_key (i, ps_productCode input)
                      (record_outcome now input) (cr_products s)\<rparr>;
               s = add_activity i ''STATUS_CHANGE'' (ps_note input) (pr_id user) s
           in and_then (rollUpLead now i (Some (pr_id user)) s)
                (\<lambda>s. Inr (audited ''STATUS_CHANGE'' None i s))))"

section \<open>Conversion\<close>

datatype identifier_kind = PAN_IDENTIFIER | CLIENT_CODE_IDENTIFIER

fun kind_name :: "identifier_kind \<Rightarrow> string" where
  "kind_name PAN_IDENTIFIER = ''PAN''"
| "kind_name CLIENT_CODE_IDENTIFIER = ''CLIENT_CODE''"

record convert_product_input =
  cv_productCode :: string
  cv_identifier :: string
  cv_kind :: identifier_kind
  cv_finalAmount :: "rat option"
  cv_note :: "string option"

text \<open>A customer as both conversions open it; \<open>cid\<close> and \<open>reference\<close> are the generated ones.\<close>

definition opened_customer ::
    "lead_row \<Rightarrow> string \<Rightarrow> string \<Rightarrow> string option \<Rightarrow> string option \<Rightarrow> string option \<Rightarrow> customer_row" where
  "opened_customer lead cid reference pan clientCode email =
    \<lparr>cu_id = cid, cu_reference = reference, cu_clientCode = clientCode, cu_pan = pan,
     cu_firstName = l_firstName lead, cu_mobile = l_mobile lead, cu_email = email,
     cu_status = ''ONBOARDING'', cu_productInterest = [], cu_relationshipManagerId = l_ownerId lead,
     cu_orgUnitId = l_orgUnitId lead, cu_partnerId = None, cu_deletedAt = None\<rparr>"

text \<open>
  The customer a product's conversion is recorded on: the lead's own, the one the identifier
  belongs to, or a new one. The second component is whether it existed before.
\<close>

definition resolve_customer ::
    "lead_row \<Rightarrow> convert_product_input \<Rightarrow> crm \<Rightarrow> string option" where
  "resolve_customer lead input s =
    (if truthy (l_customerId lead) then l_customerId lead
     else map_option cu_id (find (\<lambda>c. if cv_kind input = PAN_IDENTIFIER
            then cu_pan c = Some (cv_identifier input) else cu_clientCode c = Some (cv_identifier input))
          (cr_customers s)))"

definition attach_customer ::
    "lead_row \<Rightarrow> convert_product_input \<Rightarrow> string \<Rightarrow> string \<Rightarrow> crm \<Rightarrow> (string \<times> crm) result" where
  "attach_customer lead input cid reference s =
    (let isPan = cv_kind input = PAN_IDENTIFIER;
         given = cv_identifier input in
     case resolve_customer lead input s of
       None \<Rightarrow>
         and_then (store_customers (insert_row (opened_customer lead cid reference
             (if isPan then Some given else None) (if isPan then None else Some given) (l_email lead))
             (cr_customers s)) s) (\<lambda>s.
         and_then (update_lead (l_id lead) (\<lambda>l. l\<lparr>l_customerId := Some cid\<rparr>) s) (\<lambda>s. Inr (cid, s)))
     | Some customerId \<Rightarrow>
         and_then (if truthy (l_customerId lead) then Inr s
                   else update_lead (l_id lead) (\<lambda>l. l\<lparr>l_customerId := Some customerId\<rparr>) s) (\<lambda>s.
         and_then (if isPan
                   then store_customers (update_where (\<lambda>c. cu_id c = customerId \<and> cu_pan c = None)
                          (\<lambda>c. c\<lparr>cu_pan := Some given\<rparr>) (cr_customers s)) s
                   else Inr s) (\<lambda>s. Inr (customerId, s))))"

text \<open>The dates a lead that has become converted is stamped with.\<close>

definition stamp_converted :: "time \<Rightarrow> string \<Rightarrow> crm \<Rightarrow> crm result" where
  "stamp_converted now i s =
    (case find_by l_id i (cr_leads s) of
       None \<Rightarrow> Inl (NotFound ''Not found'')
     | Some rolled \<Rightarrow>
         (if l_status rolled = CONVERTED
          then update_lead i (\<lambda>l. l\<lparr>l_convertedAt := Some now, l_closedAt := Some now\<rparr>) s
          else Inr s))"

definition record_conversion :: "time \<Rightarrow> convert_product_input \<Rightarrow> lead_product \<Rightarrow> lead_product" where
  "record_conversion now input p =
    p\<lparr>lp_status := CONVERTED, lp_closedAt := Some now, lp_finalAmount := cv_finalAmount input,
      lp_conversionRef := Some (cv_identifier input),
      lp_conversionRefKind := Some (kind_name (cv_kind input)),
      lp_note := or_else (cv_note input) (lp_note p)\<rparr>"

definition convertProduct ::
    "org_unit list \<Rightarrow> time \<Rightarrow> principal \<Rightarrow> string \<Rightarrow> convert_product_input \<Rightarrow> string \<Rightarrow> string \<Rightarrow> crm \<Rightarrow> crm result" where
  "convertProduct orgs now user i input cid reference s =
    and_then (mustFindInScope orgs user i s) (\<lambda>lead.
    case find_by product_key (i, cv_productCode input) (cr_products s) of
      None \<Rightarrow> Inl (BadRequest ''Not an interest on this lead'')
    | Some row \<Rightarrow>
        (if lp_status row = CONVERTED then Inl (BadRequest ''Already converted'')
         else
           let s = s\<lparr>cr_products := update_by product_key (i, cv_productCode input)
                      (record_conversion now input) (cr_products s)\<rparr>
           in and_then (attach_customer lead input cid reference s) (\<lambda>(customerId, s).
              let s = add_activity i ''STATUS_CHANGE'' (cv_note input) (pr_id user) s;
                  s = mirrorConvertedProducts now customerId i s
              in and_then (rollUpLead now i (Some (pr_id user)) s) (\<lambda>s.
                 and_then (stamp_converted now i s) (\<lambda>s.
                 Inr (audited ''STATUS_CHANGE'' None i s))))))"

record convert_input =
  ci_pan :: string
  ci_email :: string
  ci_note :: "string option"
  ci_productCode :: "string option"

definition carry_consents :: "string \<Rightarrow> string \<Rightarrow> crm \<Rightarrow> crm" where
  "carry_consents leadId customerId s =
    s\<lparr>cr_consents := cr_consents s @ map (\<lambda>c. c\<lparr>el_entityType := ''CUSTOMER'', el_entityId := customerId,
         co_leadId := None, co_customerId := Some customerId\<rparr>)
       (filter (\<lambda>c. co_leadId c = Some leadId) (cr_consents s))\<rparr>"

definition convert_tx ::
    "time \<Rightarrow> string \<Rightarrow> lead_row \<Rightarrow> convert_input \<Rightarrow> string \<Rightarrow> string \<Rightarrow> crm \<Rightarrow> crm result" where
  "convert_tx now uid lead input cid reference s =
    (let i = l_id lead in
     and_then (store_customers (insert_row
         ((opened_customer lead cid reference (Some (ci_pan input)) None (Some (ci_email input)))
            \<lparr>cu_productInterest := l_productInterest lead, cu_partnerId := l_partnerId lead\<rparr>)
         (cr_customers s)) s) (\<lambda>s.
     let s = s\<lparr>cr_products := update_where
           (\<lambda>p. lp_leadId p = i \<and> isOpenLeadProductStatus (lp_status p) \<and>
              (truthy (ci_productCode input) \<longrightarrow> Some (lp_code p) = ci_productCode input))
           (\<lambda>p. p\<lparr>lp_status := CONVERTED, lp_closedAt := Some now\<rparr>) (cr_products s)\<rparr> in
     and_then (update_lead i (\<lambda>l. l\<lparr>l_customerId := Some cid, l_pan := Some (ci_pan input),
         l_email := Some (ci_email input), l_lastActivityAt := Some now, l_updatedById := Some uid\<rparr>) s) (\<lambda>s.
     let s = mirrorConvertedProducts now cid i s in
     and_then (rollUpLead now i (Some uid) s) (\<lambda>s.
     and_then (stamp_converted now i s) (\<lambda>s.
     let toStatus = (case find_by l_id i (cr_leads s) of None \<Rightarrow> l_status lead | Some l \<Rightarrow> l_status l);
         s = add_history \<lparr>hs_leadId = i, hs_from = Some (l_status lead), hs_to = toStatus,
               hs_note = ci_note input, hs_changedById = Some uid, hs_durationSeconds = None,
               hs_changedAt = now\<rparr> s;
         s = add_activity i ''STATUS_CHANGE'' (ci_note input) uid s;
         s = carry_consents i cid s
     in Inr (publish i ''lead.converted'' s))))))"

definition convert ::
    "org_unit list \<Rightarrow> time \<Rightarrow> principal \<Rightarrow> string \<Rightarrow> convert_input \<Rightarrow> string \<Rightarrow> string \<Rightarrow> crm \<Rightarrow> crm result" where
  "convert orgs now user i input cid reference s =
    and_then (mustFindInScope orgs user i s) (\<lambda>lead.
    if l_status lead = CONVERTED then Inl (BadRequest ''Already converted'')
    else if \<not> canTransitionLead (l_status lead) CONVERTED then Inl (BadRequest ''Lead is not ready to convert'')
    else if list_ex (\<lambda>c. cu_pan c = Some (ci_pan input) \<and> cu_deletedAt c = None) (cr_customers s)
      then Inl (BadRequest ''Customer already exists'')
    else and_then (convert_tx now (pr_id user) lead input cid reference s)
           (\<lambda>s. Inr (audited ''STATUS_CHANGE'' None i s)))"

section \<open>Status, ownership and verification\<close>

record status_input =
  st_status :: lead_status
  st_lostReason :: "string option"
  st_note :: "string option"
  st_nextFollowUpAt :: "time option"

definition changeLeadStatusSchema :: "status_input \<Rightarrow> bool" where
  "changeLeadStatusSchema input \<longleftrightarrow>
    (st_status input = LOST \<longrightarrow> st_lostReason input \<noteq> None) \<and>
    (case st_lostReason input of None \<Rightarrow> True | Some r \<Rightarrow> r \<in> set LEAD_LOST_REASONS)"

fun status_event :: "lead_status \<Rightarrow> string" where
  "status_event NEW = ''lead.status.new''"
| "status_event CONTACTED = ''lead.status.contacted''"
| "status_event QUALIFIED = ''lead.status.qualified''"
| "status_event PROPOSAL = ''lead.status.proposal''"
| "status_event CONVERTED = ''lead.status.converted''"
| "status_event LOST = ''lead.status.lost''"
| "status_event DISQUALIFIED = ''lead.status.disqualified''"

definition last_change :: "string \<Rightarrow> crm \<Rightarrow> time option" where
  "last_change i s =
    (case js_sort (\<lambda>g h. hs_changedAt h - hs_changedAt g) (filter (\<lambda>h. hs_leadId h = i) (cr_history s)) of
       [] \<Rightarrow> None | h # _ \<Rightarrow> Some (hs_changedAt h))"

definition apply_status :: "time \<Rightarrow> string \<Rightarrow> status_input \<Rightarrow> lead_row \<Rightarrow> lead_row" where
  "apply_status now uid input l =
    l\<lparr>l_status := st_status input,
      l_lostReason := (if st_status input = LOST then st_lostReason input else None),
      l_lostNote := (if st_status input = LOST then st_note input else None),
      l_contactedAt := (if st_status input = CONTACTED then Some now else l_contactedAt l),
      l_qualifiedAt := (if st_status input = QUALIFIED then Some now else l_qualifiedAt l),
      l_closedAt := (if st_status input \<in> {LOST, DISQUALIFIED} then Some now else None),
      l_nextFollowUpAt := (case st_nextFollowUpAt input of None \<Rightarrow> l_nextFollowUpAt l | Some t \<Rightarrow> Some t),
      l_lastActivityAt := Some now, l_updatedById := Some uid\<rparr>"

definition changeStatus ::
    "org_unit list \<Rightarrow> time \<Rightarrow> principal \<Rightarrow> string \<Rightarrow> status_input \<Rightarrow> crm \<Rightarrow> crm result" where
  "changeStatus orgs now user i input s =
    and_then (mustFindInScope orgs user i s) (\<lambda>lead.
    if l_status lead = st_status input then Inl (BadRequest ''No change'')
    else if \<not> canTransitionLead (l_status lead) (st_status input) then Inl (BadRequest ''Invalid status change'')
    else if st_status input = CONVERTED then Inl (BadRequest ''Use the convert endpoint'')
    else
      and_then (update_lead i (apply_status now (pr_id user) input) s) (\<lambda>s'.
      let s' = add_history \<lparr>hs_leadId = i, hs_from = Some (l_status lead), hs_to = st_status input,
                 hs_note = st_note input, hs_changedById = Some (pr_id user),
                 hs_durationSeconds = map_option (\<lambda>t. (now - t) div 1000) (last_change i s),
                 hs_changedAt = now\<rparr> s';
          s' = add_activity i ''STATUS_CHANGE'' (st_note input) (pr_id user) s';
          s' = publish i (status_event (st_status input)) s'
      in Inr (audited ''STATUS_CHANGE'' (st_note input) i s')))"

definition active_user :: "string \<Rightarrow> account list \<Rightarrow> account option" where
  "active_user i users = find (\<lambda>u. u_id u = i \<and> u_deletedAt u = None \<and> u_status u = ACTIVE) users"

definition hand_over :: "time \<Rightarrow> string \<Rightarrow> account \<Rightarrow> lead_row \<Rightarrow> lead_row" where
  "hand_over now uid owner l =
    l\<lparr>l_ownerId := Some (u_id owner), l_orgUnitId := or_else (u_orgUnitId owner) (l_orgUnitId l),
      l_lastActivityAt := Some now, l_updatedById := Some uid\<rparr>"

definition STRONG_LEAD_SCORE :: int where
  "STRONG_LEAD_SCORE = 70"

definition assign ::
    "org_unit list \<Rightarrow> account list \<Rightarrow> time \<Rightarrow> principal \<Rightarrow> string \<Rightarrow> string \<Rightarrow> string option \<Rightarrow> crm \<Rightarrow> crm result" where
  "assign orgs users now user i ownerId note s =
    and_then (mustFindInScope orgs user i s) (\<lambda>lead.
    if \<not> canAssignTo user ownerId then Inl (Forbidden ''Cannot assign to that user'')
    else case active_user ownerId users of
      None \<Rightarrow> Inl (BadRequest ''Unknown user'')
    | Some owner \<Rightarrow>
        and_then (update_lead i (hand_over now (pr_id user) owner) s) (\<lambda>s.
        let s = publish i ''lead.assigned'' (add_activity i ''ASSIGNMENT'' note (pr_id user) s);
            s = audited ''ASSIGN'' None i s
        in Inr (if l_score lead \<ge> STRONG_LEAD_SCORE
                then s\<lparr>cr_strongAllocations := cr_strongAllocations s + 1\<rparr> else s)))"

definition bulkAssign ::
    "org_unit list \<Rightarrow> account list \<Rightarrow> principal \<Rightarrow> string list \<Rightarrow> string \<Rightarrow> crm \<Rightarrow> (nat \<times> nat \<times> crm) result" where
  "bulkAssign orgs users user leadIds ownerId s =
    (if \<not> canAssignTo user ownerId then Inl (Forbidden ''Cannot assign to that user'')
     else
       let ids = map l_id (filter (\<lambda>l. l_id l \<in> set leadIds \<and> l_deletedAt l = None \<and> l_status l \<noteq> CONVERTED \<and>
                   l_ownerId l = None \<and> matches orgs (leadScope user) (lead_scope_row l)) (cr_leads s))
       in if ids = [] then Inr (0, length leadIds, s)
          else case active_user ownerId users of
            None \<Rightarrow> Inl (BadRequest ''Unknown user'')
          | Some owner \<Rightarrow>
              and_then (store_leads (update_where (\<lambda>l. l_id l \<in> set ids)
                  (\<lambda>l. l\<lparr>l_ownerId := Some (u_id owner), l_orgUnitId := u_orgUnitId owner,
                        l_updatedById := Some (pr_id user)\<rparr>) (cr_leads s)) s) (\<lambda>s.
              let s = foldl (\<lambda>s i. add_activity i ''ASSIGNMENT'' None (pr_id user) s) s ids;
                  s = s\<lparr>cr_audit := insert_row \<lparr>au_action = ''ASSIGN'', au_resource = ''lead.bulk'',
                         au_resourceId = None, au_reason = None\<rparr> (cr_audit s)\<rparr>
              in Inr (length ids, length leadIds - length ids, s)))"

definition transfer ::
    "org_unit list \<Rightarrow> account list \<Rightarrow> time \<Rightarrow> principal \<Rightarrow> string \<Rightarrow> string \<Rightarrow> string \<Rightarrow> crm \<Rightarrow> crm result" where
  "transfer orgs users now user i ownerId reason s =
    and_then (mustFindInScope orgs user i s) (\<lambda>lead.
    if \<not> canTransferLeads (pr_dataScope user) then Inl (Forbidden ''Cannot transfer this lead'')
    else case active_user ownerId users of
      None \<Rightarrow> Inl (BadRequest ''Unknown user'')
    | Some owner \<Rightarrow>
        (if Some (u_id owner) = l_ownerId lead then Inl (BadRequest ''Already owned by that person'')
         else and_then (update_lead i (hand_over now (pr_id user) owner) s) (\<lambda>s.
           let s = publish i ''lead.transferred'' (add_activity i ''ASSIGNMENT'' (Some reason) (pr_id user) s)
           in Inr (audited ''ASSIGN'' (Some reason) i s))))"

definition remove :: "org_unit list \<Rightarrow> time \<Rightarrow> principal \<Rightarrow> string \<Rightarrow> crm \<Rightarrow> crm result" where
  "remove orgs now user i s =
    and_then (mustFindInScope orgs user i s) (\<lambda>_.
    and_then (update_lead i (\<lambda>l. l\<lparr>l_deletedAt := Some now, l_updatedById := Some (pr_id user)\<rparr>) s) (\<lambda>s.
    Inr (audited ''DELETE'' None i s)))"

definition clear_verification :: "lead_row \<Rightarrow> lead_row" where
  "clear_verification l =
    l\<lparr>l_mobileVerifiedAt := None, l_mobileVerificationMethod := None, l_mobileVerifiedById := None\<rparr>"

definition verification_audit :: "string \<Rightarrow> crm \<Rightarrow> crm" where
  "verification_audit i s =
    s\<lparr>cr_audit := insert_row (audit_entry ''UPDATE'' ''lead.mobile_verification'' i) (cr_audit s)\<rparr>"

definition verifyMobile ::
    "org_unit list \<Rightarrow> time \<Rightarrow> principal \<Rightarrow> string \<Rightarrow> string \<Rightarrow> crm \<Rightarrow> crm result" where
  "verifyMobile orgs now user i how s =
    and_then (mustFindInScope orgs user i s) (\<lambda>lead.
    if l_ownerId lead \<noteq> Some (pr_id user) then Inl (Forbidden ''Only the lead owner can confirm the number'')
    else if l_status lead = CONVERTED then Inl (BadRequest ''Converted leads are read-only'')
    else and_then (update_lead i (\<lambda>l. l\<lparr>l_mobileVerifiedAt := Some now, l_mobileVerificationMethod := Some how,
             l_mobileVerifiedById := Some (pr_id user)\<rparr>) s)
           (\<lambda>s. Inr (verification_audit i s)))"

definition unverifyMobile :: "org_unit list \<Rightarrow> principal \<Rightarrow> string \<Rightarrow> crm \<Rightarrow> crm result" where
  "unverifyMobile orgs user i s =
    and_then (mustFindInScope orgs user i s) (\<lambda>lead.
    if l_ownerId lead \<noteq> Some (pr_id user) then Inl (Forbidden ''Only the lead owner can change this'')
    else and_then (update_lead i clear_verification s) (\<lambda>s. Inr (verification_audit i s)))"

section \<open>Creating and editing\<close>

text \<open>
  \<open>masters\<close> is \<open>MastersService.assertValid\<close> on the source and product codes, \<open>rescore\<close> the score
  of a row with a count of its activities, \<open>i\<close> and \<open>reference\<close> the generated identifiers.
\<close>

record create_input =
  ni_firstName :: string
  ni_lastName :: "string option"
  ni_mobile :: string
  ni_email :: "string option"
  ni_pan :: "string option"
  ni_city :: "string option"
  ni_state :: "string option"
  ni_pincode :: "string option"
  ni_source :: string
  ni_productInterest :: "string list"
  ni_priority :: string
  ni_estimatedValue :: "rat option"
  ni_ownerId :: "string option"
  ni_partnerId :: "string option"
  ni_campaignId :: "string option"
  ni_utmCampaign :: "string option"
  ni_notes :: "string option"

record campaign_code =
  cm_id :: string
  cm_code :: string
  cm_deletedAt :: "time option"

definition resolveCampaignId :: "campaign_code list \<Rightarrow> string option \<Rightarrow> string option \<Rightarrow> string option" where
  "resolveCampaignId campaigns explicitId utmCampaign =
    (if truthy explicitId then explicitId
     else if \<not> truthy utmCampaign then None
     else map_option cm_id (find (\<lambda>c. to_lower (cm_code c) = to_lower (js_trim (the utmCampaign)) \<and>
            cm_deletedAt c = None) campaigns))"

definition assertNoOpenDuplicate :: "string \<Rightarrow> crm \<Rightarrow> unit result" where
  "assertNoOpenDuplicate mobile s =
    (if list_ex (\<lambda>l. l_mobile l = mobile \<and> live_lead l) (cr_leads s)
     then Inl (BadRequest ''Lead already exists'') else Inr ())"

definition orgUnitOf :: "account list \<Rightarrow> string \<Rightarrow> string option" where
  "orgUnitOf users i = Option.bind (find_by u_id i users) u_orgUnitId"

text \<open>A row with the defaults of the schema; the creating handlers fill in the rest.\<close>

definition blank_lead :: "time \<Rightarrow> string \<Rightarrow> string \<Rightarrow> string \<Rightarrow> string \<Rightarrow> string \<Rightarrow> lead_row" where
  "blank_lead now i reference first mobile src =
    \<lparr>l_id = i, l_reference = reference, l_firstName = first, l_lastName = None, l_mobile = mobile,
     l_email = None, l_pan = None, l_city = None, l_state = None, l_pincode = None, l_status = NEW,
     l_source = src, l_priority = ''MEDIUM'', l_productInterest = [], l_estimatedValue = None, l_score = 0,
     l_mobileVerifiedAt = None, l_mobileVerificationMethod = None, l_mobileVerifiedById = None,
     l_ownerId = None, l_capturedById = None, l_orgUnitId = None, l_partnerId = None, l_campaignId = None,
     l_eventId = None, l_nextFollowUpAt = None, l_lastActivityAt = None, l_contactedAt = None,
     l_qualifiedAt = None, l_convertedAt = None, l_closedAt = None, l_lostReason = None, l_lostNote = None,
     l_mergedIntoId = None, l_customerId = None, l_createdById = None, l_updatedById = None,
     l_createdAt = now, l_deletedAt = None\<rparr>"

definition insert_lead :: "lead_row \<Rightarrow> crm \<Rightarrow> crm result" where
  "insert_lead l s = store_leads (insert_row l (cr_leads s)) s"

definition note_activity :: "string \<Rightarrow> string option \<Rightarrow> string option \<Rightarrow> crm \<Rightarrow> crm" where
  "note_activity leadId body actor s =
    s\<lparr>cr_activities := insert_row
        \<lparr>el_entityType = ''LEAD'', el_entityId = leadId, ac_type = ''NOTE'', ac_body = body,
         ac_actorId = actor, ac_isSystemGenerated = False\<rparr> (cr_activities s)\<rparr>"

definition first_history :: "time \<Rightarrow> string \<Rightarrow> string option \<Rightarrow> crm \<Rightarrow> crm" where
  "first_history now leadId actor s =
    add_history \<lparr>hs_leadId = leadId, hs_from = None, hs_to = NEW, hs_note = None, hs_changedById = actor,
      hs_durationSeconds = None, hs_changedAt = now\<rparr> s"

definition create_row ::
    "account list \<Rightarrow> campaign_code list \<Rightarrow> time \<Rightarrow> principal \<Rightarrow> create_input \<Rightarrow> string \<Rightarrow> string \<Rightarrow> lead_row" where
  "create_row users campaigns now user input i reference =
    (blank_lead now i reference (ni_firstName input) (ni_mobile input) (ni_source input))
      \<lparr>l_lastName := ni_lastName input, l_email := ni_email input, l_pan := ni_pan input,
       l_city := ni_city input, l_state := ni_state input, l_pincode := ni_pincode input,
       l_productInterest := ni_productInterest input, l_priority := ni_priority input,
       l_estimatedValue := ni_estimatedValue input,
       l_ownerId := or_else (ni_ownerId input) (if pr_userType user = INTERNAL_USER then Some (pr_id user) else None),
       l_orgUnitId := (if truthy (ni_ownerId input) then orgUnitOf users (the (ni_ownerId input))
                       else pr_orgUnitId user),
       l_partnerId := or_else (ni_partnerId input) (pr_partnerId user),
       l_campaignId := resolveCampaignId campaigns (ni_campaignId input) (ni_utmCampaign input),
       l_createdById := Some (pr_id user), l_updatedById := Some (pr_id user)\<rparr>"

definition create ::
    "account list \<Rightarrow> campaign_code list \<Rightarrow> (string \<Rightarrow> string list \<Rightarrow> unit result) \<Rightarrow> (lead_row \<Rightarrow> nat \<Rightarrow> int) \<Rightarrow>
     (string \<Rightarrow> string) \<Rightarrow> time \<Rightarrow> principal \<Rightarrow> create_input \<Rightarrow> string \<Rightarrow> string \<Rightarrow> crm \<Rightarrow> crm result" where
  "create users campaigns masters rescore names now user input i reference s =
    and_then (assertNoOpenDuplicate (ni_mobile input) s) (\<lambda>_.
    if truthy (ni_ownerId input) \<and> \<not> canAssignTo user (the (ni_ownerId input))
    then Inl (Forbidden ''Cannot assign to that user'')
    else and_then (masters (ni_source input) (ni_productInterest input)) (\<lambda>_.
      let row = create_row users campaigns now user input i reference in
      and_then (insert_lead row s) (\<lambda>s.
      and_then (update_lead i (\<lambda>l. l\<lparr>l_score := rescore row 0\<rparr>) s) (\<lambda>s.
      and_then (syncLeadProducts names now i (ni_productInterest input) None
         (first_history now i (Some (pr_id user)) s)) (\<lambda>s.
      let s = (if truthy (ni_notes input) then note_activity i (ni_notes input) (Some (pr_id user)) s else s)
      in Inr (audited ''CREATE'' None i (publish i ''lead.created'' s)))))))"

record update_input =
  ui_firstName :: "string option"
  ui_lastName :: "string option"
  ui_mobile :: "string option"
  ui_email :: "string option"
  ui_pan :: "string option"
  ui_city :: "string option"
  ui_state :: "string option"
  ui_pincode :: "string option"
  ui_source :: "string option"
  ui_productInterest :: "string list option"
  ui_priority :: "string option"
  ui_estimatedValue :: "rat option"
  ui_ownerId :: "string option"
  ui_partnerId :: "string option"
  ui_campaignId :: "string option"
  ui_status :: "lead_status option"
  ui_lostReason :: "string option"
  ui_lostNote :: "string option"
  ui_nextFollowUpAt :: "time option option"

text \<open>\<open>...rest\<close>: a column that was sent is written, one that was not is left.\<close>

definition sent :: "'a option \<Rightarrow> 'a \<Rightarrow> 'a" where
  "sent v old = (case v of None \<Rightarrow> old | Some x \<Rightarrow> x)"

definition apply_edit :: "string \<Rightarrow> bool \<Rightarrow> update_input \<Rightarrow> lead_row \<Rightarrow> lead_row" where
  "apply_edit uid keepsVerification input l =
    (let l = l\<lparr>l_firstName := sent (ui_firstName input) (l_firstName l),
               l_lastName := or_else (ui_lastName input) (l_lastName l),
               l_mobile := sent (ui_mobile input) (l_mobile l),
               l_email := or_else (ui_email input) (l_email l),
               l_pan := or_else (ui_pan input) (l_pan l),
               l_city := or_else (ui_city input) (l_city l),
               l_state := or_else (ui_state input) (l_state l),
               l_pincode := or_else (ui_pincode input) (l_pincode l),
               l_source := sent (ui_source input) (l_source l),
               l_productInterest := sent (ui_productInterest input) (l_productInterest l),
               l_priority := sent (ui_priority input) (l_priority l),
               l_estimatedValue := or_else (ui_estimatedValue input) (l_estimatedValue l),
               l_ownerId := or_else (ui_ownerId input) (l_ownerId l),
               l_partnerId := or_else (ui_partnerId input) (l_partnerId l),
               l_campaignId := or_else (ui_campaignId input) (l_campaignId l),
               l_lostReason := or_else (ui_lostReason input) (l_lostReason l),
               l_lostNote := or_else (ui_lostNote input) (l_lostNote l),
               l_nextFollowUpAt := sent (ui_nextFollowUpAt input) (l_nextFollowUpAt l),
               l_updatedById := Some uid\<rparr>
     in if keepsVerification then l else clear_verification l)"

text \<open>Three separate writes: an error in a later one leaves the earlier ones in place.\<close>

definition edit_products ::
    "(string \<Rightarrow> string) \<Rightarrow> time \<Rightarrow> string \<Rightarrow> string \<Rightarrow> update_input \<Rightarrow> crm \<Rightarrow> crm result" where
  "edit_products names now uid i input s =
    (case ui_productInterest input of
       None \<Rightarrow> Inr s
     | Some codes \<Rightarrow> syncLeadProducts names now i codes (Some uid) s)"

definition edit_score :: "(lead_row \<Rightarrow> nat \<Rightarrow> int) \<Rightarrow> string \<Rightarrow> lead_row \<Rightarrow> crm \<Rightarrow> crm result" where
  "edit_score rescore i updated s =
    (let activityCount = count_where (\<lambda>a. el_entityType a = ''LEAD'' \<and> el_entityId a = i \<and>
           \<not> ac_isSystemGenerated a) (cr_activities s)
     in update_lead i (\<lambda>l. l\<lparr>l_score := rescore updated activityCount\<rparr>) s)"

definition update ::
    "org_unit list \<Rightarrow> (lead_row \<Rightarrow> nat \<Rightarrow> int) \<Rightarrow> (string \<Rightarrow> string) \<Rightarrow> time \<Rightarrow> principal \<Rightarrow> string \<Rightarrow> update_input \<Rightarrow>
     crm \<Rightarrow> unit result \<times> crm" where
  "update orgs rescore names now user i input s =
    (case mustFindInScope orgs user i s of
       Inl e \<Rightarrow> (Inl e, s)
     | Inr before \<Rightarrow>
         (if l_status before = CONVERTED then (Inl (BadRequest ''Converted leads are read-only''), s)
          else if ui_status input \<noteq> None \<and> ui_status input \<noteq> Some (l_status before)
            then (Inl (BadRequest ''Use the status endpoint''), s)
          else
            let keeps = verificationSurvivesEdit (Some (l_mobile before)) (map_option Some (ui_mobile input));
                edit = apply_edit (pr_id user) keeps input in
            case update_lead i edit s of
              Inl e \<Rightarrow> (Inl e, s)
            | Inr t \<Rightarrow>
                let t' = (if \<not> keeps \<and> l_mobileVerifiedAt before \<noteq> None then verification_audit i t else t) in
                case edit_products names now (pr_id user) i input t' of
                  Inl e \<Rightarrow> (Inl e, t')
                | Inr u \<Rightarrow>
                    (case edit_score rescore i (edit before) u of
                       Inl e \<Rightarrow> (Inl e, u)
                     | Inr v \<Rightarrow> (Inr (), audited ''UPDATE'' None i v))))"

section \<open>Capture\<close>

text \<open>
  The public form. \<open>coded\<close> is what the partner, event and employee codes of the link resolved to,
  \<open>known\<close> whether the mobile belongs to a client of the back office, \<open>src\<close> the first usable source.
  The one-time code and the messages sent after the commit are not part of this handler's state.
\<close>

record coded_link =
  cl_campaignId :: "string option"
  cl_partnerId :: "string option"
  cl_eventId :: "string option"
  cl_suggestedOwnerId :: "string option"
  cl_capturedById :: "string option"
  cl_orgUnitId :: "string option"

record capture_input =
  pi_firstName :: string
  pi_lastName :: "string option"
  pi_mobile :: string
  pi_email :: "string option"
  pi_city :: "string option"
  pi_productInterest :: "string list"
  pi_message :: "string option"
  pi_utmCampaign :: "string option"

definition non_empty :: "string option \<Rightarrow> string option" where
  "non_empty v = (if truthy v then v else None)"

definition attend :: "string option \<Rightarrow> string \<Rightarrow> bool \<Rightarrow> crm \<Rightarrow> crm" where
  "attend eventId leadId returning s =
    (if \<not> truthy eventId then s
     else if list_ex (\<lambda>a. ea_eventId a = the eventId \<and> ea_leadId a = leadId) (cr_attendance s) then s
     else s\<lparr>cr_attendance := insert_row
            \<lparr>ea_eventId = the eventId, ea_leadId = leadId, ea_returning = returning\<rparr> (cr_attendance s)\<rparr>)"

definition consent :: "string \<Rightarrow> crm \<Rightarrow> crm" where
  "consent leadId s =
    s\<lparr>cr_consents := insert_row
        \<lparr>el_entityType = ''LEAD'', el_entityId = leadId, co_leadId = Some leadId, co_customerId = None,
         co_purpose = ''MARKETING_CONTACT'', co_granted = True\<rparr> (cr_consents s)\<rparr>"

definition capture_row ::
    "campaign_code list \<Rightarrow> time \<Rightarrow> capture_input \<Rightarrow> coded_link \<Rightarrow> string \<Rightarrow> string \<Rightarrow> string \<Rightarrow> lead_row" where
  "capture_row campaigns now input coded src i reference =
    (blank_lead now i reference (pi_firstName input) (pi_mobile input) src)
      \<lparr>l_lastName := non_empty (pi_lastName input), l_email := non_empty (pi_email input),
       l_city := pi_city input, l_productInterest := pi_productInterest input,
       l_campaignId := or_else (cl_campaignId coded) (resolveCampaignId campaigns None (pi_utmCampaign input)),
       l_partnerId := cl_partnerId coded, l_eventId := cl_eventId coded,
       l_ownerId := cl_suggestedOwnerId coded, l_capturedById := cl_capturedById coded,
       l_orgUnitId := cl_orgUnitId coded\<rparr>"

text \<open>Somebody with an open lead enquires again.\<close>

definition capture_repeat :: "time \<Rightarrow> capture_input \<Rightarrow> coded_link \<Rightarrow> lead_row \<Rightarrow> crm \<Rightarrow> crm result" where
  "capture_repeat now input coded existing s =
    (let s = note_activity (l_id existing)
           (or_else (pi_message input) (Some ''The visitor submitted the enquiry form again.'')) None s in
     and_then (update_lead (l_id existing) (\<lambda>l. l\<lparr>l_lastActivityAt := Some now, l_priority := ''HIGH''\<rparr>) s)
       (\<lambda>s. Inr (consent (l_id existing) (attend (cl_eventId coded) (l_id existing) True s))))"

definition capture_new ::
    "campaign_code list \<Rightarrow> (string \<Rightarrow> string list \<Rightarrow> unit result) \<Rightarrow> (lead_row \<Rightarrow> nat \<Rightarrow> int) \<Rightarrow> time \<Rightarrow>
     capture_input \<Rightarrow> string \<Rightarrow> coded_link \<Rightarrow> bool \<Rightarrow> string \<Rightarrow> string \<Rightarrow> string \<Rightarrow> crm \<Rightarrow> crm result" where
  "capture_new campaigns masters rescore now input input_source coded known src i reference s =
    and_then (masters input_source (pi_productInterest input)) (\<lambda>_.
    let row = capture_row campaigns now input coded src i reference in
    and_then (insert_lead row s) (\<lambda>s.
    and_then (update_lead i (\<lambda>l. l\<lparr>l_score := rescore row 0\<rparr>) s) (\<lambda>s.
    let s = first_history now i None s;
        s = (if truthy (pi_message input) then note_activity i (pi_message input) None s else s);
        s = publish i ''lead.captured'' (consent i s);
        s = attend (cl_eventId coded) i known s;
        s = (if known then s\<lparr>cr_activities := insert_row
               \<lparr>el_entityType = ''LEAD'', el_entityId = i, ac_type = ''NOTE'', ac_body = None,
                ac_actorId = None, ac_isSystemGenerated = True\<rparr> (cr_activities s)\<rparr> else s)
    in Inr (s\<lparr>cr_audit := insert_row (audit_entry ''CREATE'' ''lead.capture'' i) (cr_audit s)\<rparr>))))"

definition capture ::
    "campaign_code list \<Rightarrow> (string \<Rightarrow> string list \<Rightarrow> unit result) \<Rightarrow> (lead_row \<Rightarrow> nat \<Rightarrow> int) \<Rightarrow> time \<Rightarrow>
     capture_input \<Rightarrow> string \<Rightarrow> coded_link \<Rightarrow> bool \<Rightarrow> string \<Rightarrow> string \<Rightarrow> string \<Rightarrow> crm \<Rightarrow> (bool \<times> string \<times> crm) result" where
  "capture campaigns masters rescore now input input_source coded known src i reference s =
    (case find (\<lambda>l. l_mobile l = pi_mobile input \<and> live_lead l) (cr_leads s) of
       Some existing \<Rightarrow>
         and_then (capture_repeat now input coded existing s) (\<lambda>s. Inr (True, l_reference existing, s))
     | None \<Rightarrow>
         and_then (capture_new campaigns masters rescore now input input_source coded known src i reference s)
           (\<lambda>s. Inr (False, reference, s)))"

text \<open>The lead an Insta Lead meeting is recorded on; the visit it goes on to plan is another component's.\<close>

definition insta_row ::
    "time \<Rightarrow> principal \<Rightarrow> string \<Rightarrow> string option \<Rightarrow> string \<Rightarrow> string \<Rightarrow> string \<Rightarrow> string \<Rightarrow> lead_row" where
  "insta_row now user first surname mobile src i reference =
    (blank_lead now i reference first mobile src)
      \<lparr>l_lastName := non_empty surname, l_priority := ''HIGH'', l_ownerId := Some (pr_id user),
       l_orgUnitId := pr_orgUnitId user, l_createdById := Some (pr_id user),
       l_lastActivityAt := Some now\<rparr>"

definition instaLeadRecord ::
    "org_unit list \<Rightarrow> time \<Rightarrow> principal \<Rightarrow> string \<Rightarrow> string option \<Rightarrow> string \<Rightarrow> string \<Rightarrow> string \<Rightarrow> string \<Rightarrow> crm \<Rightarrow>
     (string \<times> crm) result" where
  "instaLeadRecord orgs now user first surname mobile src i reference s =
    (case find (\<lambda>l. l_mobile l = mobile \<and> live_lead l) (cr_leads s) of
       Some existing \<Rightarrow>
         (if list_ex (\<lambda>l. l_id l = l_id existing \<and> l_deletedAt l = None \<and>
               matches orgs (leadScope user) (lead_scope_row l)) (cr_leads s)
          then Inr (l_id existing, s)
          else Inl (BadRequest ''Already with a colleague''))
     | None \<Rightarrow>
         and_then (insert_lead (insta_row now user first surname mobile src i reference) s)
           (\<lambda>s. Inr (i, audited ''CREATE'' None i s)))"

end
