(* ===== verification/Merge.thy ===== *)
theory Merge
  imports Leads
begin

text \<open>
  Merging two leads of one person: \<open>packages/contracts/src/merge.ts\<close> and \<open>merge\<close> of
  \<open>apps/api/src/modules/duplicates/duplicates.service.ts\<close>. The handler checks outside its
  transaction, so it is split into a reading and a writing half; the writes are statements on the
  lead tables, in the source's order, each subject to the constraints of the database.
\<close>

section \<open>The preview\<close>

datatype mergeable_field =
  LastName | EmailField | PanField | City | State | Pincode | EstimatedValue | PartnerField | CampaignId | EventId

definition MERGEABLE_FIELDS :: "mergeable_field list" where
  "MERGEABLE_FIELDS =
    [LastName, EmailField, PanField, City, State, Pincode, EstimatedValue, PartnerField, CampaignId, EventId]"

datatype field_value = Text string | Amount rat

fun field_of :: "lead_row \<Rightarrow> mergeable_field \<Rightarrow> field_value option" where
  "field_of l LastName = map_option Text (l_lastName l)"
| "field_of l EmailField = map_option Text (l_email l)"
| "field_of l PanField = map_option Text (l_pan l)"
| "field_of l City = map_option Text (l_city l)"
| "field_of l State = map_option Text (l_state l)"
| "field_of l Pincode = map_option Text (l_pincode l)"
| "field_of l EstimatedValue = map_option Amount (l_estimatedValue l)"
| "field_of l PartnerField = map_option Text (l_partnerId l)"
| "field_of l CampaignId = map_option Text (l_campaignId l)"
| "field_of l EventId = map_option Text (l_eventId l)"

definition isEmpty :: "field_value option \<Rightarrow> bool" where
  "isEmpty v \<longleftrightarrow> v = None \<or> v = Some (Text [])"

record merge_outcome =
  mo_field :: mergeable_field
  mo_value :: "field_value option"
  mo_discarded :: "field_value option"
  mo_gained :: bool

definition merge_field :: "lead_row \<Rightarrow> lead_row \<Rightarrow> mergeable_field \<Rightarrow> merge_outcome" where
  "merge_field survivor duplicate f =
    (let mine = field_of survivor f; theirs = field_of duplicate f in
     if isEmpty theirs then \<lparr>mo_field = f, mo_value = mine, mo_discarded = None, mo_gained = False\<rparr>
     else if isEmpty mine then \<lparr>mo_field = f, mo_value = theirs, mo_discarded = None, mo_gained = True\<rparr>
     else \<lparr>mo_field = f, mo_value = mine, mo_discarded = (if mine = theirs then None else theirs),
           mo_gained = False\<rparr>)"

record merge_preview =
  mp_fields :: "merge_outcome list"
  mp_conflicts :: "merge_outcome list"
  mp_gains :: "merge_outcome list"

definition previewMerge :: "lead_row \<Rightarrow> lead_row \<Rightarrow> merge_preview" where
  "previewMerge survivor duplicate =
    (let fields = map (merge_field survivor duplicate) MERGEABLE_FIELDS in
     \<lparr>mp_fields = fields, mp_conflicts = filter (\<lambda>f. mo_discarded f \<noteq> None) fields,
      mp_gains = filter mo_gained fields\<rparr>)"

text \<open>The reason of a refusal, or none.\<close>

definition canMergeLeads :: "lead_row \<Rightarrow> lead_row \<Rightarrow> string option" where
  "canMergeLeads survivor duplicate =
    (if l_id survivor = l_id duplicate then Some ''A lead cannot be merged into itself.''
     else if truthy (l_mergedIntoId survivor)
       then Some (l_reference survivor @ '' has already been merged into another lead.'')
     else if truthy (l_mergedIntoId duplicate)
       then Some (l_reference duplicate @ '' has already been merged into another lead.'')
     else if l_status duplicate = CONVERTED \<or> truthy (l_customerId duplicate)
       then Some (l_reference duplicate @ '' has already been converted to a customer, so it cannot be merged away. Merge the other record into this one instead.'')
     else None)"

text \<open>The suggested survivor first; the counts are those of the two timelines.\<close>

definition suggestSurvivor :: "lead_row \<Rightarrow> nat \<Rightarrow> lead_row \<Rightarrow> nat \<Rightarrow> lead_row \<times> lead_row" where
  "suggestSurvivor a aActivity b bActivity =
    (if l_status a = CONVERTED \<and> l_status b \<noteq> CONVERTED then (a, b)
     else if l_status b = CONVERTED \<and> l_status a \<noteq> CONVERTED then (b, a)
     else if aActivity \<noteq> bActivity then (if aActivity > bActivity then (a, b) else (b, a))
     else if l_createdAt a \<le> l_createdAt b then (a, b) else (b, a))"

section \<open>The write\<close>

fun text_value :: "field_value option \<Rightarrow> string option" where
  "text_value (Some (Text t)) = Some t"
| "text_value v = None"

fun amount_value :: "field_value option \<Rightarrow> rat option" where
  "amount_value (Some (Amount a)) = Some a"
| "amount_value v = None"

definition set_field :: "merge_outcome \<Rightarrow> lead_row \<Rightarrow> lead_row" where
  "set_field g l =
    (case mo_field g of
       LastName \<Rightarrow> l\<lparr>l_lastName := text_value (mo_value g)\<rparr>
     | EmailField \<Rightarrow> l\<lparr>l_email := text_value (mo_value g)\<rparr>
     | PanField \<Rightarrow> l\<lparr>l_pan := text_value (mo_value g)\<rparr>
     | City \<Rightarrow> l\<lparr>l_city := text_value (mo_value g)\<rparr>
     | State \<Rightarrow> l\<lparr>l_state := text_value (mo_value g)\<rparr>
     | Pincode \<Rightarrow> l\<lparr>l_pincode := text_value (mo_value g)\<rparr>
     | EstimatedValue \<Rightarrow> l\<lparr>l_estimatedValue := amount_value (mo_value g)\<rparr>
     | PartnerField \<Rightarrow> l\<lparr>l_partnerId := text_value (mo_value g)\<rparr>
     | CampaignId \<Rightarrow> l\<lparr>l_campaignId := text_value (mo_value g)\<rparr>
     | EventId \<Rightarrow> l\<lparr>l_eventId := text_value (mo_value g)\<rparr>)"

definition move_link :: "string \<Rightarrow> string \<Rightarrow> 'a entity_link_scheme \<Rightarrow> 'a entity_link_scheme" where
  "move_link fromId toId e =
    (if el_entityType e = ''LEAD'' \<and> el_entityId e = fromId then e\<lparr>el_entityId := toId\<rparr> else e)"

definition move_consent :: "string \<Rightarrow> string \<Rightarrow> consent_row \<Rightarrow> consent_row" where
  "move_consent fromId toId c =
    (if co_leadId c = Some fromId then c\<lparr>co_leadId := Some toId, el_entityId := toId\<rparr> else c)"

definition close_duplicate :: "time \<Rightarrow> string \<Rightarrow> lead_row \<Rightarrow> string \<Rightarrow> lead_row \<Rightarrow> lead_row" where
  "close_duplicate now uid survivor reason l =
    l\<lparr>l_mergedIntoId := Some (l_id survivor), l_status := DISQUALIFIED, l_lostReason := Some ''DUPLICATE'',
      l_lostNote := Some (''Merged into '' @ l_reference survivor @ ''. '' @ reason), l_closedAt := Some now,
      l_updatedById := Some uid\<rparr>"

definition mustFindBoth ::
    "org_unit list \<Rightarrow> principal \<Rightarrow> string \<Rightarrow> string \<Rightarrow> crm \<Rightarrow> (lead_row \<times> lead_row) result" where
  "mustFindBoth orgs user survivorId duplicateId s =
    and_then (mustFindInScope orgs user survivorId s) (\<lambda>a.
    and_then (mustFindInScope orgs user duplicateId s) (\<lambda>b. Inr (a, b)))"

definition merge_read ::
    "org_unit list \<Rightarrow> principal \<Rightarrow> string \<Rightarrow> string \<Rightarrow> crm \<Rightarrow> (lead_row \<times> lead_row) result" where
  "merge_read orgs user survivorId duplicateId s =
    and_then (mustFindBoth orgs user survivorId duplicateId s) (\<lambda>(survivor, duplicate).
    if canMergeLeads survivor duplicate \<noteq> None then Inl (BadRequest ''Cannot merge'')
    else Inr (survivor, duplicate))"

definition move_history :: "string \<Rightarrow> string \<Rightarrow> crm \<Rightarrow> crm" where
  "move_history fromId toId s =
    s\<lparr>cr_activities := map (move_link fromId toId) (cr_activities s),
      cr_tasks := map (move_link fromId toId) (cr_tasks s),
      cr_documents := map (move_link fromId toId) (cr_documents s),
      cr_consents := map (move_consent fromId toId) (cr_consents s)\<rparr>"

definition merge_write :: "time \<Rightarrow> principal \<Rightarrow> string \<Rightarrow> lead_row \<times> lead_row \<Rightarrow> crm \<Rightarrow> crm result" where
  "merge_write now user reason pair s =
    (case pair of (survivor, duplicate) \<Rightarrow>
     let gains = mp_gains (previewMerge survivor duplicate) in
     and_then (update_lead (l_id duplicate) (close_duplicate now (pr_id user) survivor reason) s) (\<lambda>s.
     and_then (if gains \<noteq> [] then update_lead (l_id survivor) (fold set_field gains) s else Inr s) (\<lambda>s.
     let s = move_history (l_id duplicate) (l_id survivor) s;
         s = s\<lparr>cr_activities := insert_row
               \<lparr>el_entityType = ''LEAD'', el_entityId = l_id survivor, ac_type = ''NOTE'', ac_body = Some reason,
                ac_actorId = Some (pr_id user), ac_isSystemGenerated = True\<rparr> (cr_activities s)\<rparr>;
         s = publish (l_id survivor) ''lead.merged'' s
     in Inr (audited ''UPDATE'' (Some reason) (l_id survivor) s))))"

definition merge ::
    "org_unit list \<Rightarrow> time \<Rightarrow> principal \<Rightarrow> string \<Rightarrow> string \<Rightarrow> string \<Rightarrow> crm \<Rightarrow> crm result" where
  "merge orgs now user survivorId duplicateId reason s =
    and_then (merge_read orgs user survivorId duplicateId s) (\<lambda>pair. merge_write now user reason pair s)"

end
