(* ===== verification/Pipeline.thy ===== *)
theory Pipeline
  imports Merge
begin

text \<open>
  What the lead handlers and the merge keep true together: the steps the tables can take, the
  states they reach, and the properties of the pipeline.
\<close>

section \<open>Statements\<close>

named_theorems statements \<open>what a statement that did not fail has done\<close>

lemma store_leads_Inr [statements]:
  "store_leads ls s = Inr s' \<longleftrightarrow>
     lead_identity_unique ls \<and> list_all lost_has_reason ls \<and> s' = s\<lparr>cr_leads := ls\<rparr>"
  by (auto simp: store_leads_def)

lemma update_lead_Inr [statements]:
  "update_lead i f s = Inr s' \<longleftrightarrow>
     lead_identity_unique (update_by l_id i f (cr_leads s)) \<and>
     list_all lost_has_reason (update_by l_id i f (cr_leads s)) \<and>
     s' = s\<lparr>cr_leads := update_by l_id i f (cr_leads s)\<rparr>"
  by (simp add: update_lead_def store_leads_Inr)

lemma insert_lead_Inr [statements]:
  "insert_lead l s = Inr s' \<longleftrightarrow>
     lead_identity_unique (insert_row l (cr_leads s)) \<and> list_all lost_has_reason (insert_row l (cr_leads s)) \<and>
     s' = s\<lparr>cr_leads := insert_row l (cr_leads s)\<rparr>"
  by (simp add: insert_lead_def store_leads_Inr)

text \<open>A statement that leaves the number, the PAN and the status of a lead alone passes the unique indexes.\<close>

lemma identity_same:
  assumes "\<And>l. l_mobile (f l) = l_mobile l" and "\<And>l. l_pan (f l) = l_pan l" and "\<And>l. live_lead (f l) = live_lead l"
  shows "lead_identity_unique (update_by l_id i f ls) = lead_identity_unique ls"
proof -
  have "map l_mobile (filter live_lead (update_by l_id i f ls)) = map l_mobile (filter live_lead ls)"
    and "map l_pan (filter (\<lambda>l. live_lead l \<and> l_pan l \<noteq> None) (update_by l_id i f ls)) =
      map l_pan (filter (\<lambda>l. live_lead l \<and> l_pan l \<noteq> None) ls)"
    unfolding update_by_def by (induction ls) (auto simp: assms)
  then show ?thesis by (simp add: lead_identity_unique_def)
qed

lemma rescored_lead:
  assumes "insert_lead lead c = Inr c1" and "l_id lead \<notin> l_id ` set (cr_leads c)" and "l_id lead = i"
  shows "update_lead i (\<lambda>l. l\<lparr>l_score := n\<rparr>) c1 = Inr (c1\<lparr>cr_leads := cr_leads c @ [lead\<lparr>l_score := n\<rparr>]\<rparr>)"
proof -
  have c1: "cr_leads c1 = cr_leads c @ [lead]" "lead_identity_unique (cr_leads c @ [lead])" "list_all lost_has_reason (cr_leads c @ [lead])"
    using assms(1) by (auto simp: insert_lead_Inr insert_row_def)
  have eq: "update_by l_id i (\<lambda>l. l\<lparr>l_score := n\<rparr>) (cr_leads c @ [lead]) = cr_leads c @ [lead\<lparr>l_score := n\<rparr>]"
  proof -
    have "l_id x \<noteq> i" if "x \<in> set (cr_leads c)" for x using assms(2,3) that by (metis image_eqI)
    then show ?thesis using assms(3) by (auto simp: update_by_def update_where_def intro!: map_idI)
  qed
  have "lead_identity_unique (cr_leads c @ [lead\<lparr>l_score := n\<rparr>])"
    using identity_same [of "\<lambda>l. l\<lparr>l_score := n\<rparr>" i "cr_leads c @ [lead]"] c1(2) by (simp add: eq live_lead_def)
  moreover have "list_all lost_has_reason (cr_leads c @ [lead\<lparr>l_score := n\<rparr>])"
    using c1(3) by (simp add: lost_has_reason_def)
  ultimately show ?thesis by (simp add: update_lead_Inr c1(1) eq)
qed

lemma store_customers_Inr [statements]:
  "store_customers cs s = Inr s' \<longleftrightarrow> customer_identity_unique cs \<and> s' = s\<lparr>cr_customers := cs\<rparr>"
  by (auto simp: store_customers_def)

lemma mustFindInScope_Inr:
  "mustFindInScope orgs user i s = Inr l \<Longrightarrow> l \<in> set (cr_leads s) \<and> l_id l = i \<and> l_deletedAt l = None"
  by (auto simp: mustFindInScope_def find_Some_iff split: option.splits)

lemma mustFindInScope_find:
  assumes "keys_unique l_id (cr_leads s)" and "mustFindInScope orgs user i s = Inr l"
  shows "find_by l_id i (cr_leads s) = Some l"
  using find_by_unique [OF assms(1)] mustFindInScope_Inr [OF assms(2)] by blast

text \<open>The tables a statement leaves alone.\<close>

lemma side_tables [simp]:
  "cr_leads (add_history h s) = cr_leads s" "cr_products (add_history h s) = cr_products s"
  "cr_customers (add_history h s) = cr_customers s"
  "cr_leads (add_activity i t b a s) = cr_leads s" "cr_products (add_activity i t b a s) = cr_products s"
  "cr_customers (add_activity i t b a s) = cr_customers s"
  "cr_leads (publish i e s) = cr_leads s" "cr_products (publish i e s) = cr_products s"
  "cr_customers (publish i e s) = cr_customers s"
  "cr_leads (audited x ro i s) = cr_leads s" "cr_products (audited x ro i s) = cr_products s"
  "cr_customers (audited x ro i s) = cr_customers s"
  "cr_leads (verification_audit i s) = cr_leads s" "cr_products (verification_audit i s) = cr_products s"
  "cr_customers (verification_audit i s) = cr_customers s"
  "cr_leads (note_activity i b ao s) = cr_leads s" "cr_products (note_activity i b ao s) = cr_products s"
  "cr_customers (note_activity i b ao s) = cr_customers s"
  "cr_leads (first_history now i ao s) = cr_leads s" "cr_products (first_history now i ao s) = cr_products s"
  "cr_customers (first_history now i ao s) = cr_customers s"
  "cr_leads (carry_consents i c s) = cr_leads s" "cr_products (carry_consents i c s) = cr_products s"
  "cr_customers (carry_consents i c s) = cr_customers s"
  "cr_leads (attend eo i r s) = cr_leads s" "cr_products (attend eo i r s) = cr_products s"
  "cr_customers (attend eo i r s) = cr_customers s"
  "cr_leads (consent i s) = cr_leads s" "cr_products (consent i s) = cr_products s"
  "cr_customers (consent i s) = cr_customers s"
  "cr_leads (mirrorConvertedProducts now c i s) = cr_leads s"
  "cr_products (mirrorConvertedProducts now c i s) = cr_products s"
  "cr_customers (mirrorConvertedProducts now c i s) = cr_customers s"
  "cr_leads (move_history i j s) = cr_leads s" "cr_products (move_history i j s) = cr_products s"
  "cr_customers (move_history i j s) = cr_customers s"
  by (simp_all add: add_history_def add_activity_def publish_def audited_def verification_audit_def
      note_activity_def first_history_def carry_consents_def attend_def consent_def
      mirrorConvertedProducts_def move_history_def Let_def)

lemma foldl_add_activity [simp]:
  "cr_leads (foldl (\<lambda>s i. add_activity i t b a s) s is) = cr_leads s"
  "cr_products (foldl (\<lambda>s i. add_activity i t b a s) s is) = cr_products s"
  "cr_customers (foldl (\<lambda>s i. add_activity i t b a s) s is) = cr_customers s"
  by (induction "is" arbitrary: s) simp_all

lemma set_update_by: "set (update_by key k f rows) = (\<lambda>r. if key r = k then f r else r) ` set rows"
  by (simp add: update_by_def set_update_where)

section \<open>A won lead has its customer\<close>

text \<open>
  \<open>X\<close> are the leads whose conversion is under way: their products may already be converted while
  the customer is still to be linked.
\<close>

definition linked :: "lead_row list \<Rightarrow> string set" where
  "linked ls = l_id ` {l \<in> set ls. l_customerId l \<noteq> None}"

definition won :: "lead_product list \<Rightarrow> string set" where
  "won ps = lp_leadId ` {p \<in> set ps. lp_status p = CONVERTED}"

definition lead_ok :: "string set \<Rightarrow> lead_row \<Rightarrow> bool" where
  "lead_ok customers l \<longleftrightarrow>
    (case l_customerId l of None \<Rightarrow> l_status l \<noteq> CONVERTED | Some c \<Rightarrow> c \<in> customers)"

lemma linked_Nil [simp]: "linked [] = {}"
  by (simp add: linked_def)

lemma linked_Cons [simp]:
  "linked (l # ls) = (if l_customerId l = None then linked ls else insert (l_id l) (linked ls))"
  by (auto simp: linked_def)

lemma linked_append [simp]: "linked (ls @ ms) = linked ls \<union> linked ms"
  by (induction ls) auto

lemma won_Nil [simp]: "won [] = {}"
  by (simp add: won_def)

lemma won_Cons [simp]: "won (p # ps) = (if lp_status p = CONVERTED then insert (lp_leadId p) (won ps) else won ps)"
  by (auto simp: won_def)

lemma won_append [simp]: "won (ps @ qs) = won ps \<union> won qs"
  by (induction ps) auto

lemma linked_mem: "i \<in> linked ls \<longleftrightarrow> (\<exists>l \<in> set ls. l_id l = i \<and> l_customerId l \<noteq> None)"
  by (auto simp: linked_def)

definition has_identifier :: "customer_row \<Rightarrow> bool" where
  "has_identifier c \<longleftrightarrow> cu_pan c \<noteq> None \<or> cu_clientCode c \<noteq> None"

definition crm_inv :: "string set \<Rightarrow> crm \<Rightarrow> bool" where
  "crm_inv X s \<longleftrightarrow>
    keys_unique l_id (cr_leads s) \<and> keys_unique cu_id (cr_customers s) \<and>
    won (cr_products s) \<subseteq> X \<union> linked (cr_leads s) \<and>
    (\<forall>l \<in> set (cr_leads s). lead_ok (cu_id ` set (cr_customers s)) l) \<and>
    (\<forall>c \<in> set (cr_customers s). has_identifier c)"

lemma crm_inv_tables:
  "cr_leads s' = cr_leads s \<Longrightarrow> cr_products s' = cr_products s \<Longrightarrow> cr_customers s' = cr_customers s \<Longrightarrow>
   crm_inv X s' = crm_inv X s"
  by (simp add: crm_inv_def)

lemma crm_inv_side [simp]:
  "crm_inv X (add_history h s) = crm_inv X s"
  "crm_inv X (add_activity i t b a s) = crm_inv X s"
  "crm_inv X (publish i e s) = crm_inv X s"
  "crm_inv X (audited x ro i s) = crm_inv X s"
  "crm_inv X (verification_audit i s) = crm_inv X s"
  "crm_inv X (note_activity i b ao s) = crm_inv X s"
  "crm_inv X (first_history now i ao s) = crm_inv X s"
  "crm_inv X (carry_consents i c s) = crm_inv X s"
  "crm_inv X (attend eo i r s) = crm_inv X s"
  "crm_inv X (consent i s) = crm_inv X s"
  "crm_inv X (mirrorConvertedProducts now c i s) = crm_inv X s"
  "crm_inv X (move_history i j s) = crm_inv X s"
  "crm_inv X (s\<lparr>cr_audit := au\<rparr>) = crm_inv X s"
  "crm_inv X (s\<lparr>cr_activities := as\<rparr>) = crm_inv X s"
  "crm_inv X (s\<lparr>cr_strongAllocations := n\<rparr>) = crm_inv X s"
  by (rule crm_inv_tables; simp)+

lemma inv_mono: "crm_inv X s \<Longrightarrow> X \<subseteq> Y \<Longrightarrow> crm_inv Y s"
  unfolding crm_inv_def by blast

text \<open>The four kinds of statement.\<close>

definition keeps_customer :: "(lead_row \<Rightarrow> lead_row) \<Rightarrow> bool" where
  "keeps_customer f \<longleftrightarrow> (\<forall>l. l_id (f l) = l_id l \<and> l_customerId (f l) = l_customerId l \<and>
     (l_status (f l) = CONVERTED \<longrightarrow> l_status l = CONVERTED))"

lemma lead_ok_update:
  "lead_ok C l \<Longrightarrow> l_customerId l' = l_customerId l \<Longrightarrow>
   (l_status l' = CONVERTED \<longrightarrow> l_status l = CONVERTED \<or> l_customerId l \<noteq> None) \<Longrightarrow> lead_ok C l'"
  by (auto simp: lead_ok_def split: option.splits)

lemma linked_update_where:
  assumes "\<And>l. l_id (f l) = l_id l" and "\<And>l. l_customerId (f l) = l_customerId l"
  shows "linked (update_where p f ls) = linked ls"
proof (induction ls)
  case (Cons a ls)
  then show ?case by (cases "l_customerId a") (simp_all add: assms)
qed simp

lemma inv_update_where:
  assumes inv: "crm_inv X s" and f: "keeps_customer f"
  shows "crm_inv X (s\<lparr>cr_leads := update_where p f (cr_leads s)\<rparr>)"
proof -
  have f: "l_id (f l) = l_id l" "l_customerId (f l) = l_customerId l"
    "l_status (f l) = CONVERTED \<Longrightarrow> l_status l = CONVERTED" for l
    using f by (auto simp: keeps_customer_def)
  have "lead_ok C l \<Longrightarrow> lead_ok C (f l)" for C l
    by (rule lead_ok_update) (auto simp: f(2) dest: f(3))
  then show ?thesis
    using inv by (auto simp: crm_inv_def linked_update_where f(1,2) set_update_where keys_unique_update_where)
qed

lemma inv_update_lead:
  "crm_inv X s \<Longrightarrow> keeps_customer f \<Longrightarrow> update_lead i f s = Inr s' \<Longrightarrow> crm_inv X s'"
  by (auto simp: update_lead_Inr update_by_def inv_update_where)

text \<open>A change of one lead that may convert it, when its customer is there already.\<close>

lemma inv_convert_lead:
  assumes inv: "crm_inv X s" and f: "\<And>l. l_id (f l) = l_id l" "\<And>l. l_customerId (f l) = l_customerId l"
    and i: "i \<in> linked (cr_leads s)" and upd: "update_lead i f s = Inr s'"
  shows "crm_inv X s'"
proof -
  have k: "keys_unique l_id (cr_leads s)" using inv by (simp add: crm_inv_def)
  obtain q where q: "q \<in> set (cr_leads s)" "l_id q = i" "l_customerId q \<noteq> None"
    using i by (auto simp: linked_mem)
  have some: "l_customerId l \<noteq> None" if "l \<in> set (cr_leads s)" "l_id l = i" for l
    using find_by_unique [OF k that(1)] find_by_unique [OF k q(1)] q(2,3) that(2) by simp
  have "lead_ok C (f l)" if "lead_ok C l" "l \<in> set (cr_leads s)" "l_id l = i" for C l
    by (rule lead_ok_update [OF that(1)]) (use f(2) some [OF that(2,3)] in auto)
  then show ?thesis
    using inv upd by (auto simp: update_lead_Inr update_by_def crm_inv_def linked_update_where f
        set_update_where keys_unique_update_where)
qed

text \<open>Linking the customer.\<close>

lemma linked_link:
  assumes "find_by l_id i ls = Some l" and "\<And>l. l_id (f l) = l_id l"
    and "\<And>l. l_id l = i \<Longrightarrow> l_customerId (f l) = Some c"
  shows "linked (update_by l_id i f ls) = insert i (linked ls)"
  using assms(1)
proof (induction ls)
  case (Cons x ls)
  have rest: "linked (update_by l_id i f ls) \<subseteq> insert i (linked ls) \<and>
      linked ls \<subseteq> insert i (linked (update_by l_id i f ls))"
    using assms(2,3) by (induction ls) (auto simp: update_by_def)
  show ?case
  proof (cases "l_id x = i")
    case True
    then show ?thesis using rest assms(2,3) by (auto simp: update_by_def)
  next
    case False
    then show ?thesis using Cons by (auto simp: update_by_def)
  qed
qed simp

lemma inv_link_customer:
  assumes inv: "crm_inv X s" and l: "find_by l_id i (cr_leads s) = Some l"
    and f: "\<And>l. l_id (f l) = l_id l" "\<And>l. l_customerId (f l) = Some c"
    and c: "c \<in> cu_id ` set (cr_customers s)" and upd: "update_lead i f s = Inr s'"
  shows "crm_inv (X - {i}) s' \<and> i \<in> linked (cr_leads s') \<and> cr_customers s' = cr_customers s \<and>
    cr_products s' = cr_products s"
proof -
  have s': "s' = s\<lparr>cr_leads := update_by l_id i f (cr_leads s)\<rparr>" using upd by (simp add: update_lead_Inr)
  have lk: "linked (update_by l_id i f (cr_leads s)) = insert i (linked (cr_leads s))"
    by (rule linked_link [OF l]) (simp_all add: f)
  have "lead_ok (cu_id ` set (cr_customers s)) r" if "r \<in> set (update_by l_id i f (cr_leads s))" for r
    using that inv c by (auto simp: set_update_by crm_inv_def lead_ok_def f split: if_splits)
  then show ?thesis using inv by (auto simp: s' lk crm_inv_def f)
qed

text \<open>Customers and products.\<close>

lemma inv_store_customers:
  assumes inv: "crm_inv X s" and "store_customers cs s = Inr s'" and "keys_unique cu_id cs"
    and "cu_id ` set (cr_customers s) \<subseteq> cu_id ` set cs" and "\<forall>c \<in> set cs. has_identifier c"
  shows "crm_inv X s'"
proof -
  have "lead_ok (cu_id ` set cs) l" if "lead_ok (cu_id ` set (cr_customers s)) l" for l
    using that assms(4) by (auto simp: lead_ok_def split: option.splits)
  then show ?thesis using assms by (auto simp: store_customers_Inr crm_inv_def)
qed

lemma inv_products:
  "crm_inv X s \<Longrightarrow> won ps \<subseteq> Y \<union> won (cr_products s) \<Longrightarrow> crm_inv (X \<union> Y) (s\<lparr>cr_products := ps\<rparr>)"
  unfolding crm_inv_def by auto

lemma won_update_where:
  "won (update_where q f ps) \<subseteq> {lp_leadId p | p. p \<in> set ps \<and> q p} \<union> won ps"
  if "\<And>p. lp_leadId (f p) = lp_leadId p"
  using that by (force simp: won_def set_update_where split: if_splits)

lemma won_update_open:
  "(\<And>p. lp_leadId (f p) = lp_leadId p) \<Longrightarrow> (\<And>p. lp_status (f p) \<noteq> CONVERTED) \<Longrightarrow> won (update_where q f ps) \<subseteq> won ps"
  by (force simp: won_def set_update_where split: if_splits)

section \<open>Every handler keeps it\<close>

lemma apply_rollup_fields [simp]:
  "l_id (apply_rollup now r why l) = l_id l" "l_customerId (apply_rollup now r why l) = l_customerId l"
  "l_status (apply_rollup now r why l) = r"
  by (simp_all add: apply_rollup_def Let_def)

lemma rollUpLead_Inr:
  assumes "rollUpLead now i a s = Inr s'"
  shows "s' = s \<or> (\<exists>rolled h. rollUpLeadStatus (map lp_status (js_sort closed_desc (products_of i s))) = Some rolled \<and>
    (\<exists>u. update_lead i (apply_rollup now rolled (lead_lost_reason (js_sort closed_desc (products_of i s)))) s = Inr u \<and>
       s' = add_history h u))"
  using assms by (auto simp: rollUpLead_def Let_def and_then_Inr split: option.splits if_splits)

lemma rollUpLead_tables:
  "rollUpLead now i a s = Inr s' \<Longrightarrow> cr_products s' = cr_products s \<and> cr_customers s' = cr_customers s"
  by (drule rollUpLead_Inr) (auto simp: update_lead_Inr)

lemma inv_rollUp:
  assumes inv: "crm_inv {} s" and r: "rollUpLead now i a s = Inr s'"
  shows "crm_inv {} s'"
  using rollUpLead_Inr [OF r]
proof (elim disjE exE conjE)
  assume "s' = s"
  then show ?thesis using inv by simp
next
  fix rolled h u
  let ?rows = "js_sort closed_desc (products_of i s)"
  assume rolled: "rollUpLeadStatus (map lp_status ?rows) = Some rolled"
    and u: "update_lead i (apply_rollup now rolled (lead_lost_reason ?rows)) s = Inr u"
    and s': "s' = add_history h u"
  have "crm_inv {} u"
  proof (cases "rolled = CONVERTED")
    case True
    then have "CONVERTED \<in> lp_status ` set (products_of i s)" using rollUp_converted [OF rolled] by simp
    then obtain p where "p \<in> set (cr_products s)" "lp_leadId p = i" "lp_status p = CONVERTED"
      by (auto simp: products_of_def)
    then have "i \<in> won (cr_products s)" by (auto simp: won_def)
    then have "i \<in> linked (cr_leads s)" using inv by (auto simp: crm_inv_def)
    then show ?thesis by (rule inv_convert_lead [OF inv _ _ _ u, rotated 2]) simp_all
  next
    case False
    then show ?thesis by (intro inv_update_lead [OF inv _ u]) (simp add: keeps_customer_def)
  qed
  then show ?thesis by (simp add: s')
qed

lemma inv_status:
  assumes "crm_inv {} s" and "changeStatus orgs now user i input s = Inr s'"
  shows "crm_inv {} s'"
proof -
  obtain u where u: "update_lead i (apply_status now (pr_id user) input) s = Inr u" "st_status input \<noteq> CONVERTED"
    and s': "crm_inv {} s' = crm_inv {} u"
    using assms(2) by (auto simp: changeStatus_def Let_def and_then_Inr split: if_splits)
  have "keeps_customer (apply_status now (pr_id user) input)"
    using u(2) by (simp add: keeps_customer_def apply_status_def)
  then show ?thesis using inv_update_lead [OF assms(1) _ u(1)] s' by simp
qed

lemma inv_sync:
  assumes inv: "crm_inv {} s" and r: "syncLeadProducts names now i codes actor s = Inr s'"
  shows "crm_inv {} s'"
proof -
  have "won (map (new_product i) cs) = {}" for cs by (induction cs) (simp_all add: new_product_def)
  moreover have "won (filter q qs) \<subseteq> won qs" for q qs by (induction qs) auto
  ultimately have "won (synced_products i codes s) \<subseteq> {} \<union> won (cr_products s)"
    by (simp add: synced_products_def)
  from inv_products [OF inv this] have i1: "crm_inv {} (s\<lparr>cr_products := synced_products i codes s\<rparr>)" by simp
  show ?thesis
    by (rule inv_rollUp [OF _ r [unfolded syncLeadProducts_def Let_def]]) (simp add: i1 split: option.split)
qed

lemma inv_product_status:
  assumes inv: "crm_inv {} s" and r: "changeProductStatus orgs now user i input s = Inr s'"
  shows "crm_inv {} s'"
proof -
  let ?ps = "update_by product_key (i, ps_productCode input) (record_outcome now input) (cr_products s)"
  obtain u where u: "ps_status input \<noteq> CONVERTED"
    "rollUpLead now i (Some (pr_id user)) (add_activity i ''STATUS_CHANGE'' (ps_note input) (pr_id user)
        (s\<lparr>cr_products := ?ps\<rparr>)) = Inr u" "crm_inv {} s' = crm_inv {} u"
    using r by (auto simp: changeProductStatus_def Let_def and_then_Inr split: if_splits option.splits)
  have "won ?ps \<subseteq> {} \<union> won (cr_products s)"
    unfolding update_by_def using u(1) won_update_open [of "record_outcome now input"]
    by (simp add: record_outcome_def)
  from inv_products [OF inv this] have "crm_inv {} (s\<lparr>cr_products := ?ps\<rparr>)" by simp
  then show ?thesis using inv_rollUp [OF _ u(2)] u(3) by simp
qed

lemma inv_settled: "crm_inv {i} s \<Longrightarrow> i \<in> linked (cr_leads s) \<Longrightarrow> crm_inv {} s"
  by (auto simp: crm_inv_def)

lemma inv_linked_find:
  assumes "crm_inv X s" and "find_by l_id i (cr_leads s) = Some l" and "truthy (l_customerId l)"
  shows "i \<in> linked (cr_leads s)"
  using find_by_SomeD [OF assms(2)] assms(3) by (auto simp: linked_mem truthy_def)

lemma inv_fill_pan:
  assumes inv: "crm_inv X s"
    and r: "store_customers (update_where p (\<lambda>c. c\<lparr>cu_pan := Some v\<rparr>) (cr_customers s)) s = Inr s'"
  shows "crm_inv X s'"
proof (rule inv_store_customers [OF inv r])
  show "keys_unique cu_id (update_where p (\<lambda>c. c\<lparr>cu_pan := Some v\<rparr>) (cr_customers s))"
    using inv by (simp add: crm_inv_def)
  have "map cu_id (update_where p (\<lambda>c. c\<lparr>cu_pan := Some v\<rparr>) (cr_customers s)) = map cu_id (cr_customers s)"
    by simp
  then show "cu_id ` set (cr_customers s) \<subseteq> cu_id ` set (update_where p (\<lambda>c. c\<lparr>cu_pan := Some v\<rparr>) (cr_customers s))"
    by (metis order_refl set_map)
  show "\<forall>c \<in> set (update_where p (\<lambda>c. c\<lparr>cu_pan := Some v\<rparr>) (cr_customers s)). has_identifier c"
    using inv by (auto simp: set_update_where crm_inv_def has_identifier_def)
qed

lemma inv_open_customer:
  assumes inv: "crm_inv X s" and new: "cu_id c \<notin> cu_id ` set (cr_customers s)" "has_identifier c"
    and r: "store_customers (insert_row c (cr_customers s)) s = Inr s'"
  shows "crm_inv X s'" and "cu_id c \<in> cu_id ` set (cr_customers s')" and "cr_leads s' = cr_leads s"
proof -
  show "crm_inv X s'"
    by (rule inv_store_customers [OF inv r]) (use inv new in \<open>auto simp: crm_inv_def insert_row_def keys_unique_def\<close>)
  show "cu_id c \<in> cu_id ` set (cr_customers s')" "cr_leads s' = cr_leads s"
    using r by (auto simp: store_customers_Inr insert_row_def)
qed

lemma attach_customer_inv:
  assumes inv: "crm_inv {l_id lead} s" and l: "find_by l_id (l_id lead) (cr_leads s) = Some lead"
    and cid: "cid \<notin> cu_id ` set (cr_customers s)" and r: "attach_customer lead input cid ref s = Inr (c, s')"
  shows "crm_inv {} s'"
proof (cases "resolve_customer lead input s")
  case None
  let ?c = "opened_customer lead cid ref (if cv_kind input = PAN_IDENTIFIER then Some (cv_identifier input) else None)
     (if cv_kind input = PAN_IDENTIFIER then None else Some (cv_identifier input)) (l_email lead)"
  obtain u where u: "store_customers (insert_row ?c (cr_customers s)) s = Inr u"
    "update_lead (l_id lead) (\<lambda>l. l\<lparr>l_customerId := Some cid\<rparr>) u = Inr s'"
    using r None by (auto simp: attach_customer_def Let_def and_then_Inr)
  have c: "cu_id ?c = cid" "has_identifier ?c" by (auto simp: opened_customer_def has_identifier_def)
  note o = inv_open_customer [OF inv _ c(2) u(1)]
  have "crm_inv ({l_id lead} - {l_id lead}) s'"
    using inv_link_customer [OF o(1) _ _ _ _ u(2), of lead cid] cid o(2,3) l by (simp add: c(1))
  then show ?thesis by simp
next
  case (Some customerId)
  obtain u where u: "(if truthy (l_customerId lead) then Inr s
        else update_lead (l_id lead) (\<lambda>l. l\<lparr>l_customerId := Some customerId\<rparr>) s) = Inr u"
    and u2: "(if cv_kind input = PAN_IDENTIFIER
         then store_customers (update_where (\<lambda>c. cu_id c = customerId \<and> cu_pan c = None)
                (\<lambda>c. c\<lparr>cu_pan := Some (cv_identifier input)\<rparr>) (cr_customers u)) u
         else Inr u) = Inr s'"
    using r Some by (auto simp: attach_customer_def Let_def and_then_Inr)
  have "crm_inv {} u"
  proof (cases "truthy (l_customerId lead)")
    case True
    then show ?thesis using u inv_settled [OF inv] inv_linked_find [OF inv l] by simp
  next
    case False
    then have "customerId \<in> cu_id ` set (cr_customers s)"
      using Some by (auto simp: resolve_customer_def find_Some_iff split: if_splits)
    then have "crm_inv ({l_id lead} - {l_id lead}) u"
      using inv_link_customer [OF inv l, of "\<lambda>l. l\<lparr>l_customerId := Some customerId\<rparr>" customerId u] u False by simp
    then show ?thesis by simp
  qed
  then show ?thesis using u2 inv_fill_pan [of "{}" u] by (auto split: if_splits)
qed

lemma inv_stamp:
  "crm_inv X s \<Longrightarrow> stamp_converted now i s = Inr s' \<Longrightarrow> crm_inv X s'"
  using inv_update_lead [of X s "\<lambda>l. l\<lparr>l_convertedAt := Some now, l_closedAt := Some now\<rparr>" i s']
  by (auto simp: stamp_converted_def keeps_customer_def split: option.splits if_splits)

lemma inv_convert_product:
  assumes inv: "crm_inv {} s" and cid: "cid \<notin> cu_id ` set (cr_customers s)"
    and r: "convertProduct orgs now user i input cid ref s = Inr s'"
  shows "crm_inv {} s'"
proof -
  let ?ps = "update_by product_key (i, cv_productCode input) (record_conversion now input) (cr_products s)"
  let ?s = "s\<lparr>cr_products := ?ps\<rparr>"
  obtain lead c u v w where lead: "mustFindInScope orgs user i s = Inr lead"
    and u: "attach_customer lead input cid ref ?s = Inr (c, u)"
    and v: "rollUpLead now i (Some (pr_id user)) (mirrorConvertedProducts now c i
        (add_activity i ''STATUS_CHANGE'' (cv_note input) (pr_id user) u)) = Inr v"
    and w: "stamp_converted now i v = Inr w" "crm_inv {} s' = crm_inv {} w"
    using r by (auto simp: convertProduct_def Let_def and_then_Inr split: if_splits option.splits)
  have i: "l_id lead = i" using mustFindInScope_Inr [OF lead] by simp
  have "won ?ps \<subseteq> {i} \<union> won (cr_products s)"
    unfolding update_by_def
    using won_update_where [of "record_conversion now input" "\<lambda>r. product_key r = (i, cv_productCode input)" "cr_products s"]
    by (auto simp: record_conversion_def product_key_def)
  from inv_products [OF inv this] have "crm_inv {i} ?s" by simp
  moreover have "find_by l_id i (cr_leads ?s) = Some lead"
    using mustFindInScope_find [OF _ lead] inv by (simp add: crm_inv_def)
  ultimately have "crm_inv {} u" using attach_customer_inv [OF _ _ _ u] cid by (simp add: i)
  then have "crm_inv {} v" using inv_rollUp [OF _ v] by simp
  then show ?thesis using inv_stamp [OF _ w(1)] w(2) by simp
qed

lemma inv_convert:
  assumes inv: "crm_inv {} s" and cid: "cid \<notin> cu_id ` set (cr_customers s)"
    and r: "convert orgs now user i input cid ref s = Inr s'"
  shows "crm_inv {} s'"
proof -
  obtain lead where lead: "mustFindInScope orgs user i s = Inr lead"
    and tx: "\<exists>z. convert_tx now (pr_id user) lead input cid ref s = Inr z \<and> crm_inv {} s' = crm_inv {} z"
    using r by (auto simp: convert_def and_then_Inr split: if_splits)
  have i: "l_id lead = i" using mustFindInScope_Inr [OF lead] by simp
  define c where "c = (opened_customer lead cid ref (Some (ci_pan input)) None (Some (ci_email input)))
      \<lparr>cu_productInterest := l_productInterest lead, cu_partnerId := l_partnerId lead\<rparr>"
  define q where "q = (\<lambda>p :: lead_product. lp_leadId p = i \<and> isOpenLeadProductStatus (lp_status p) \<and>
      (truthy (ci_productCode input) \<longrightarrow> Some (lp_code p) = ci_productCode input))"
  define f where "f = (\<lambda>p :: lead_product. p\<lparr>lp_status := CONVERTED, lp_closedAt := Some now\<rparr>)"
  define g where "g = (\<lambda>l :: lead_row. l\<lparr>l_customerId := Some cid, l_pan := Some (ci_pan input),
      l_email := Some (ci_email input), l_lastActivityAt := Some now, l_updatedById := Some (pr_id user)\<rparr>)"
  obtain u v w x where u: "store_customers (insert_row c (cr_customers s)) s = Inr u"
    and v: "update_lead i g (u\<lparr>cr_products := update_where q f (cr_products u)\<rparr>) = Inr v"
    and w: "rollUpLead now i (Some (pr_id user)) (mirrorConvertedProducts now cid i v) = Inr w"
    and x: "stamp_converted now i w = Inr x" "crm_inv {} s' = crm_inv {} x"
    using tx by (auto simp: convert_tx_def Let_def and_then_Inr i c_def q_def f_def g_def)
  have c: "cu_id c = cid" "has_identifier c" by (simp_all add: c_def opened_customer_def has_identifier_def)
  note o = inv_open_customer [OF inv _ c(2) u]
  have "won (update_where q f (cr_products u)) \<subseteq> {i} \<union> won (cr_products u)"
    using won_update_where [of f q "cr_products u"] by (auto simp: f_def q_def)
  from inv_products [OF o(1) this] have "crm_inv {i} (u\<lparr>cr_products := update_where q f (cr_products u)\<rparr>)"
    using cid c(1) by simp
  moreover have "find_by l_id i (cr_leads u) = Some lead"
    using mustFindInScope_find [OF _ lead] inv o(3) cid c(1) by (simp add: crm_inv_def)
  ultimately have "crm_inv ({i} - {i}) v"
    using inv_link_customer [OF _ _ _ _ _ v, of "{i}" lead cid] o(2) cid c(1) by (simp add: g_def)
  then have "crm_inv {} w" using inv_rollUp [OF _ w] by simp
  then show ?thesis using inv_stamp [OF _ x(1)] x(2) by simp
qed

lemma inv_insert_lead:
  assumes inv: "crm_inv {} s" and new: "l_id l \<notin> l_id ` set (cr_leads s)"
    and blank: "l_customerId l = None" "l_status l \<noteq> CONVERTED" and r: "insert_lead l s = Inr s'"
  shows "crm_inv {} s'"
proof -
  have "lead_ok C l" for C using blank by (simp add: lead_ok_def)
  then show ?thesis
    using inv new blank r by (auto simp: insert_lead_Inr crm_inv_def insert_row_def keys_unique_def)
qed

lemma inv_by_update:
  "update_lead i f s = Inr s' \<Longrightarrow> crm_inv X s \<Longrightarrow> keeps_customer f \<Longrightarrow> crm_inv X s'"
  by (rule inv_update_lead)

lemma hand_over_keeps [simp]: "keeps_customer (hand_over now uid owner)"
  by (simp add: keeps_customer_def hand_over_def)

lemma apply_edit_keeps [simp]: "keeps_customer (apply_edit uid keeps input)"
  by (simp add: keeps_customer_def apply_edit_def clear_verification_def Let_def)

lemma inv_assign:
  assumes inv: "crm_inv {} s" and r: "assign orgs users now user i ownerId note s = Inr s'"
  shows "crm_inv {} s'"
proof -
  obtain owner t where t: "update_lead i (hand_over now (pr_id user) owner) s = Inr t"
    and s': "crm_inv {} s' = crm_inv {} t"
    using r by (auto simp: assign_def Let_def and_then_Inr split: if_splits option.splits)
  show ?thesis unfolding s' by (rule inv_by_update [OF t inv]) simp
qed

lemma inv_transfer:
  assumes inv: "crm_inv {} s" and r: "transfer orgs users now user i ownerId reason s = Inr s'"
  shows "crm_inv {} s'"
proof -
  obtain owner t where t: "update_lead i (hand_over now (pr_id user) owner) s = Inr t"
    and s': "crm_inv {} s' = crm_inv {} t"
    using r by (auto simp: transfer_def Let_def and_then_Inr split: if_splits option.splits)
  show ?thesis unfolding s' by (rule inv_by_update [OF t inv]) simp
qed

lemma inv_bulk:
  assumes "crm_inv {} s" and "bulkAssign orgs users user ids ownerId s = Inr (n, m, s')"
  shows "crm_inv {} s'"
proof -
  have "crm_inv {} (foldl (\<lambda>s i. add_activity i t b a s) s is) = crm_inv {} s" for t b a s "is"
    by (rule crm_inv_tables) simp_all
  moreover have "keeps_customer (\<lambda>l. l\<lparr>l_ownerId := a, l_orgUnitId := b, l_updatedById := c\<rparr>)" for a b c
    by (simp add: keeps_customer_def)
  ultimately show ?thesis
    using assms by (auto simp: bulkAssign_def Let_def and_then_Inr store_leads_Inr inv_update_where
        split: if_splits option.splits)
qed

lemma inv_remove: "crm_inv {} s \<Longrightarrow> remove orgs now user i s = Inr s' \<Longrightarrow> crm_inv {} s'"
  by (auto simp: remove_def and_then_Inr keeps_customer_def elim!: inv_by_update)

lemma inv_verify: "crm_inv {} s \<Longrightarrow> verifyMobile orgs now user i how s = Inr s' \<Longrightarrow> crm_inv {} s'"
  by (auto simp: verifyMobile_def and_then_Inr keeps_customer_def split: if_splits elim!: inv_by_update)

lemma inv_unverify: "crm_inv {} s \<Longrightarrow> unverifyMobile orgs user i s = Inr s' \<Longrightarrow> crm_inv {} s'"
  by (auto simp: unverifyMobile_def and_then_Inr keeps_customer_def clear_verification_def
      split: if_splits elim!: inv_by_update)

lemma blank_lead_fields [simp]:
  "l_id (blank_lead now i ref f m src) = i" "l_status (blank_lead now i ref f m src) = NEW"
  "l_customerId (blank_lead now i ref f m src) = None"
  by (simp_all add: blank_lead_def)

lemma new_rows [simp]:
  "l_id (create_row users campaigns now user inp i ref) = i"
  "l_status (create_row users campaigns now user inp i ref) = NEW"
  "l_customerId (create_row users campaigns now user inp i ref) = None"
  "l_id (capture_row campaigns now inq coded src i ref) = i"
  "l_status (capture_row campaigns now inq coded src i ref) = NEW"
  "l_customerId (capture_row campaigns now inq coded src i ref) = None"
  "l_id (insta_row now user f sn m src i ref) = i"
  "l_status (insta_row now user f sn m src i ref) = NEW"
  "l_customerId (insta_row now user f sn m src i ref) = None"
  by (simp_all add: create_row_def capture_row_def insta_row_def)

lemma score_keeps [simp]: "keeps_customer (\<lambda>l. l\<lparr>l_score := n\<rparr>)"
  by (simp add: keeps_customer_def)

lemma inv_new_lead:
  assumes inv: "crm_inv {} s" and new: "l_id row \<notin> l_id ` set (cr_leads s)" "l_status row = NEW" "l_customerId row = None"
    and u: "insert_lead row s = Inr u" and v: "update_lead i (\<lambda>l. l\<lparr>l_score := n\<rparr>) u = Inr v"
  shows "crm_inv {} v"
proof -
  have "crm_inv {} u" by (rule inv_insert_lead [OF inv _ _ _ u]) (simp_all add: new)
  then show ?thesis by (rule inv_by_update [OF v]) simp
qed

lemma inv_create:
  assumes inv: "crm_inv {} s" and new: "i \<notin> l_id ` set (cr_leads s)"
    and r: "create users campaigns masters rescore names now user input i ref s = Inr s'"
  shows "crm_inv {} s'"
proof -
  let ?row = "create_row users campaigns now user input i ref"
  obtain u v w where u: "insert_lead ?row s = Inr u"
    and v: "update_lead i (\<lambda>l. l\<lparr>l_score := rescore ?row 0\<rparr>) u = Inr v"
    and w: "syncLeadProducts names now i (ni_productInterest input) None
       (first_history now i (Some (pr_id user)) v) = Inr w" "crm_inv {} s' = crm_inv {} w"
    using r by (auto simp: create_def Let_def and_then_Inr split: if_splits)
  have "crm_inv {} v" by (rule inv_new_lead [OF inv _ _ _ u v]) (simp_all add: new)
  then show ?thesis using inv_sync [OF _ w(1)] w(2) by simp
qed

lemma inv_edit_products:
  "crm_inv {} s \<Longrightarrow> edit_products names now uid i input s = Inr s' \<Longrightarrow> crm_inv {} s'"
  using inv_sync by (auto simp: edit_products_def split: option.splits)

lemma inv_edit_score: "crm_inv {} s \<Longrightarrow> edit_score rescore i row s = Inr s' \<Longrightarrow> crm_inv {} s'"
  unfolding edit_score_def Let_def by (erule inv_by_update) simp_all

lemma inv_after_edit:
  assumes s: "crm_inv {} s" and r: "\<And>t. r = Inr t \<Longrightarrow> crm_inv {} t"
  shows "crm_inv {} (snd (case r of Inl e \<Rightarrow> (Inl e, s) | Inr t \<Rightarrow>
      (case edit_products names now uid i input t of
         Inl e \<Rightarrow> (Inl e, t)
       | Inr u \<Rightarrow> (case edit_score rescore i row u of Inl e \<Rightarrow> (Inl e, u) | Inr v \<Rightarrow> (Inr (), audited x ro i v)))))"
proof (cases r)
  case (Inr t)
  note t = r [OF this]
  show ?thesis
  proof (cases "edit_products names now uid i input t")
    case u: (Inr u)
    show ?thesis
      using inv_edit_products [OF t u] inv_edit_score [of u rescore i row]
      by (cases "edit_score rescore i row u") (simp_all add: Inr u)
  qed (simp add: Inr t)
qed (simp add: s)

lemma inv_update:
  assumes inv: "crm_inv {} s"
  shows "crm_inv {} (snd (update orgs rescore names now user i input s))"
proof (cases "mustFindInScope orgs user i s")
  case (Inr before)
  let ?keeps = "verificationSurvivesEdit (Some (l_mobile before)) (map_option Some (ui_mobile input))"
  let ?edited = "update_lead i (apply_edit (pr_id user) ?keeps input) s"
  let ?audited = "map_sum id (\<lambda>t. if \<not> ?keeps \<and> l_mobileVerifiedAt before \<noteq> None then verification_audit i t else t)"
  have ok: "crm_inv {} t" if "?edited = Inr t" for t
    by (rule inv_by_update [OF that inv]) simp
  have "update orgs rescore names now user i input s \<in>
    {(Inl (BadRequest ''Converted leads are read-only''), s), (Inl (BadRequest ''Use the status endpoint''), s),
     case ?audited ?edited of Inl e \<Rightarrow> (Inl e, s) | Inr t \<Rightarrow>
      (case edit_products names now (pr_id user) i input t of
         Inl e \<Rightarrow> (Inl e, t)
       | Inr u \<Rightarrow> (case edit_score rescore i (apply_edit (pr_id user) ?keeps input before) u of
           Inl e \<Rightarrow> (Inl e, u) | Inr v \<Rightarrow> (Inr (), audited ''UPDATE'' None i v)))}"
    unfolding update_def Inr Let_def by (cases ?edited) (simp_all del: not_None_eq)
  moreover have "crm_inv {} t" if "?audited ?edited = Inr t" for t
    using that ok by (cases ?edited) (auto split: if_splits)
  ultimately show ?thesis
    using inv_after_edit [OF inv, of "?audited ?edited"] inv by auto
qed (simp add: update_def inv)

lemma inv_capture:
  assumes inv: "crm_inv {} s" and new: "i \<notin> l_id ` set (cr_leads s)"
    and r: "capture campaigns masters rescore now input src0 coded known src i ref s = Inr (d, ref', s')"
  shows "crm_inv {} s'"
proof (cases "find (\<lambda>l. l_mobile l = pi_mobile input \<and> live_lead l) (cr_leads s)")
  case (Some l)
  have k: "keeps_customer (\<lambda>l. l\<lparr>l_lastActivityAt := Some now, l_priority := ''HIGH''\<rparr>)"
    by (simp add: keeps_customer_def)
  show ?thesis
    using r Some by (auto simp: capture_def capture_repeat_def Let_def and_then_Inr inv k elim!: inv_by_update)
next
  case None
  let ?row = "capture_row campaigns now input coded src i ref"
  obtain u v where u: "insert_lead ?row s = Inr u"
    and v: "update_lead i (\<lambda>l. l\<lparr>l_score := rescore ?row 0\<rparr>) u = Inr v" "crm_inv {} s' = crm_inv {} v"
    using r None by (auto simp: capture_def capture_new_def Let_def and_then_Inr split: if_splits)
  have "crm_inv {} v" by (rule inv_new_lead [OF inv _ _ _ u v(1)]) (simp_all add: new)
  then show ?thesis using v(2) by simp
qed

lemma inv_insta:
  assumes inv: "crm_inv {} s" and new: "i \<notin> l_id ` set (cr_leads s)"
    and r: "instaLeadRecord orgs now user f sn m src i ref s = Inr (j, s')"
  shows "crm_inv {} s'"
proof (cases "find (\<lambda>l. l_mobile l = m \<and> live_lead l) (cr_leads s)")
  case (Some l)
  then show ?thesis using r inv by (auto simp: instaLeadRecord_def split: if_splits)
next
  case None
  obtain u where u: "insert_lead (insta_row now user f sn m src i ref) s = Inr u" "crm_inv {} s' = crm_inv {} u"
    using r None by (auto simp: instaLeadRecord_def and_then_Inr)
  have "crm_inv {} u" by (rule inv_insert_lead [OF inv _ _ _ u(1)]) (simp_all add: new)
  then show ?thesis using u(2) by simp
qed

lemma set_field_fields [simp]:
  "l_id (set_field g l) = l_id l" "l_customerId (set_field g l) = l_customerId l" "l_status (set_field g l) = l_status l"
  unfolding set_field_def by (cases "mo_field g"; simp)+

lemma set_field_keeps: "keeps_customer (set_field g)"
  by (simp add: keeps_customer_def)

lemma keeps_customer_comp: "keeps_customer f \<Longrightarrow> keeps_customer g \<Longrightarrow> keeps_customer (\<lambda>l. g (f l))"
  unfolding keeps_customer_def by metis

lemma fold_set_field_keeps: "keeps_customer (fold set_field gs)"
proof (induction gs)
  case (Cons g gs)
  then show ?case using keeps_customer_comp [OF set_field_keeps Cons.IH] by simp
qed (simp add: keeps_customer_def)

lemma inv_merge_write:
  assumes inv: "crm_inv {} s" and r: "merge_write now user reason (a, b) s = Inr s'"
  shows "crm_inv {} s'"
proof -
  let ?gains = "mp_gains (previewMerge a b)"
  obtain u v where u: "update_lead (l_id b) (close_duplicate now (pr_id user) a reason) s = Inr u"
    and v: "(if ?gains \<noteq> [] then update_lead (l_id a) (fold set_field ?gains) u else Inr u) = Inr v"
      "crm_inv {} s' = crm_inv {} v"
    using r by (auto simp: merge_write_def Let_def and_then_Inr)
  have "keeps_customer (close_duplicate now (pr_id user) a reason)"
    by (simp add: keeps_customer_def close_duplicate_def)
  then have "crm_inv {} u" by (rule inv_by_update [OF u inv])
  then show ?thesis using v inv_by_update fold_set_field_keeps by (auto split: if_splits)
qed

section \<open>The pipeline as a transition system\<close>

definition crm_empty :: crm where
  "crm_empty = \<lparr>cr_leads = [], cr_products = [], cr_customers = [], cr_holdings = [], cr_history = [],
     cr_activities = [], cr_tasks = [], cr_documents = [], cr_consents = [], cr_attendance = [],
     cr_strongAllocations = 0, cr_events = [], cr_audit = []\<rparr>"

text \<open>
  A request is handled by any caller, in any organisation tree and at any time; the generated
  ids are fresh.
\<close>

inductive crm_step :: "crm \<Rightarrow> crm \<Rightarrow> bool" where
  step_create: "i \<notin> l_id ` set (cr_leads s) \<Longrightarrow>
    create users campaigns masters rescore names now user ninput i ref s = Inr s' \<Longrightarrow> crm_step s s'"
| step_capture: "i \<notin> l_id ` set (cr_leads s) \<Longrightarrow>
    capture campaigns masters rescore now pinput src0 coded known src i ref s = Inr (d, ref', s') \<Longrightarrow> crm_step s s'"
| step_insta: "i \<notin> l_id ` set (cr_leads s) \<Longrightarrow>
    instaLeadRecord orgs now user f sn m src i ref s = Inr (j, s') \<Longrightarrow> crm_step s s'"
| step_update: "crm_step s (snd (update orgs rescore names now user i uinput s))"
| step_status: "changeStatus orgs now user i sinput s = Inr s' \<Longrightarrow> crm_step s s'"
| step_assign: "assign orgs users now user i ownerId note s = Inr s' \<Longrightarrow> crm_step s s'"
| step_bulk: "bulkAssign orgs users user is ownerId s = Inr (n, k, s') \<Longrightarrow> crm_step s s'"
| step_transfer: "transfer orgs users now user i ownerId reason s = Inr s' \<Longrightarrow> crm_step s s'"
| step_remove: "remove orgs now user i s = Inr s' \<Longrightarrow> crm_step s s'"
| step_verify: "verifyMobile orgs now user i how s = Inr s' \<Longrightarrow> crm_step s s'"
| step_unverify: "unverifyMobile orgs user i s = Inr s' \<Longrightarrow> crm_step s s'"
| step_product: "changeProductStatus orgs now user i qinput s = Inr s' \<Longrightarrow> crm_step s s'"
| step_convert_product: "cid \<notin> cu_id ` set (cr_customers s) \<Longrightarrow>
    convertProduct orgs now user i vinput cid ref s = Inr s' \<Longrightarrow> crm_step s s'"
| step_convert: "cid \<notin> cu_id ` set (cr_customers s) \<Longrightarrow>
    convert orgs now user i cinput cid ref s = Inr s' \<Longrightarrow> crm_step s s'"
| step_merge: "merge orgs now user a b reason s = Inr s' \<Longrightarrow> crm_step s s'"

inductive crm_reach :: "crm \<Rightarrow> bool" where
  reach_empty: "crm_reach crm_empty"
| reach_step: "crm_reach s \<Longrightarrow> crm_step s s' \<Longrightarrow> crm_reach s'"

lemma inv_merge:
  assumes inv: "crm_inv {} s" and r: "merge orgs now user a b reason s = Inr s'"
  shows "crm_inv {} s'"
proof -
  obtain p q where "merge_write now user reason (p, q) s = Inr s'"
    using r by (auto simp: merge_def and_then_Inr)
  then show ?thesis by (rule inv_merge_write [OF inv])
qed

lemma step_keeps_inv: "crm_step s s' \<Longrightarrow> crm_inv {} s \<Longrightarrow> crm_inv {} s'"
  by (induction rule: crm_step.induct)
    (rule inv_create inv_capture inv_insta inv_update inv_status inv_assign inv_bulk inv_transfer inv_remove
      inv_verify inv_unverify inv_product_status inv_convert_product inv_convert inv_merge; assumption)+

lemma reach_inv: "crm_reach s \<Longrightarrow> crm_inv {} s"
proof (induction rule: crm_reach.induct)
  case reach_empty
  then show ?case by (simp add: crm_inv_def crm_empty_def keys_unique_def)
next
  case (reach_step s s')
  then show ?case using step_keeps_inv by blast
qed

text \<open>
  C11. However requests follow one another, a converted lead, and a lead with a converted product,
  is linked to a customer that exists and that the back office can identify by a PAN or a client
  code: no conversion is ever attached to nothing, also through the roll-up and after merges.
\<close>

theorem won_lead_has_customer:
  assumes "crm_reach s" and "l \<in> set (cr_leads s)"
    and "l_status l = CONVERTED \<or> (\<exists>p \<in> set (cr_products s). lp_leadId p = l_id l \<and> lp_status p = CONVERTED)"
  shows "\<exists>c \<in> set (cr_customers s). l_customerId l = Some (cu_id c) \<and> (cu_pan c \<noteq> None \<or> cu_clientCode c \<noteq> None)"
proof -
  have inv: "crm_inv {} s" by (rule reach_inv [OF assms(1)])
  have ok: "lead_ok (cu_id ` set (cr_customers s)) l" using inv assms(2) by (simp add: crm_inv_def)
  have "l_customerId l \<noteq> None"
    using assms(3)
  proof
    assume "\<exists>p \<in> set (cr_products s). lp_leadId p = l_id l \<and> lp_status p = CONVERTED"
    then have "l_id l \<in> won (cr_products s)" by (force simp: won_def)
    then have "l_id l \<in> linked (cr_leads s)" using inv by (auto simp: crm_inv_def)
    then obtain q where q: "q \<in> set (cr_leads s)" "l_id q = l_id l" "l_customerId q \<noteq> None"
      unfolding linked_mem by blast
    have "keys_unique l_id (cr_leads s)" using inv by (simp add: crm_inv_def)
    from find_by_same [OF this find_by_unique [OF this assms(2)] q(1,2)] have "q = l" .
    then show ?thesis using q(3) by simp
  qed (use ok in \<open>auto simp: lead_ok_def split: option.splits\<close>)
  then obtain c where "c \<in> set (cr_customers s)" "l_customerId l = Some (cu_id c)"
    using ok by (auto simp: lead_ok_def split: option.splits)
  then show ?thesis using inv by (auto simp: crm_inv_def has_identifier_def)
qed

text \<open>A run of the demonstration: the state after a request, unchanged when it is refused.\<close>

definition accepted :: "crm result \<Rightarrow> crm \<Rightarrow> crm" where
  "accepted r s = (case r of Inl e \<Rightarrow> s | Inr s' \<Rightarrow> s')"

lemma reach_accepted: "crm_reach s \<Longrightarrow> (\<And>s'. r = Inr s' \<Longrightarrow> crm_step s s') \<Longrightarrow> crm_reach (accepted r s)"
  by (auto simp: accepted_def split: sum.split intro: reach_step)

definition demo_new :: create_input where
  "demo_new = \<lparr>ni_firstName = ''Asha'', ni_lastName = None, ni_mobile = ''9876543210'', ni_email = None, ni_pan = None,
     ni_city = None, ni_state = None, ni_pincode = None, ni_source = ''WEBSITE'', ni_productInterest = [''EQ'', ''MF''],
     ni_priority = ''MEDIUM'', ni_estimatedValue = None, ni_ownerId = None, ni_partnerId = None,
     ni_campaignId = None, ni_utmCampaign = None, ni_notes = None\<rparr>"

definition demo_rep :: principal where
  "demo_rep = demo_principal SELF None"

definition demo_lead_state :: crm where
  "demo_lead_state = accepted (create [] [] (\<lambda>_ _. Inr ()) (\<lambda>_ _. 10) (\<lambda>c. c) 0 demo_rep demo_new ''l1'' ''LD1'' crm_empty) crm_empty"

definition demo_won :: convert_product_input where
  "demo_won = \<lparr>cv_productCode = ''EQ'', cv_identifier = ''SIHL42'', cv_kind = CLIENT_CODE_IDENTIFIER,
     cv_finalAmount = None, cv_note = None\<rparr>"

definition demo_won_state :: crm where
  "demo_won_state = accepted (convertProduct [] 5 demo_rep ''l1'' demo_won ''c1'' ''CU1'' demo_lead_state) demo_lead_state"

lemma demo_lead_reach: "crm_reach demo_lead_state"
  unfolding demo_lead_state_def
  by (rule reach_accepted [OF reach_empty]) (erule step_create [rotated], simp add: crm_empty_def)

lemma demo_won_reach: "crm_reach demo_won_state"
proof -
  have "cr_customers demo_lead_state = []" by code_simp
  then show ?thesis
    unfolding demo_won_state_def
    by (intro reach_accepted [OF demo_lead_reach]) (erule step_convert_product [rotated], simp)
qed

lemma won_lead_has_customer_witness:
  "\<exists>c \<in> set (cr_customers demo_won_state). l_customerId (hd (cr_leads demo_won_state)) = Some (cu_id c) \<and>
     (cu_pan c \<noteq> None \<or> cu_clientCode c \<noteq> None)"
proof -
  have "hd (cr_leads demo_won_state) \<in> set (cr_leads demo_won_state)" by code_simp
  moreover have "\<exists>p \<in> set (cr_products demo_won_state). lp_leadId p = l_id (hd (cr_leads demo_won_state)) \<and> lp_status p = CONVERTED"
    by code_simp
  ultimately show ?thesis using won_lead_has_customer [OF demo_won_reach] by blast
qed

end
