(* ===== verification/Outcomes.thy ===== *)
theory Outcomes
  imports Pipeline
begin

text \<open>
  What the requests of the lead pipeline mean, one by one: the status of a lead against the
  outcomes of its products, the status endpoint, reassignment, and what a merge does.
\<close>

section \<open>The lead follows its products\<close>

text \<open>What the status of a lead with products is: the specification of the roll-up.\<close>

definition outcome_of :: "lead_status set \<Rightarrow> lead_status \<Rightarrow> bool" where
  "outcome_of ss r \<longleftrightarrow>
    (if \<exists>s \<in> ss. isOpenLeadProductStatus s
     then r \<in> ss \<and> isOpenLeadProductStatus r \<and> (\<forall>s \<in> ss. isOpenLeadProductStatus s \<longrightarrow> ADVANCEMENT s \<le> ADVANCEMENT r)
     else r = (if CONVERTED \<in> ss then CONVERTED else if LOST \<in> ss then LOST else DISQUALIFIED))"

lemma rollUp_outcome: "rollUpLeadStatus ss = Some r \<Longrightarrow> outcome_of (set ss) r"
proof -
  assume r: "rollUpLeadStatus ss = Some r"
  show ?thesis
  proof (cases "\<exists>s \<in> set ss. isOpenLeadProductStatus s")
    case True
    then have "isOpenLeadProductStatus r" using rollUp_open [OF r] by simp
    moreover from this have "r \<in> set ss" using rollUp_mem [OF r] by (cases r) (auto simp: isOpen_cases CLOSED_LEAD_STATUSES_def)
    ultimately show ?thesis using True rollUp_furthest [OF r] by (auto simp: outcome_of_def)
  next
    case False
    then have "filter isOpenLeadProductStatus ss = []" by (simp add: filter_empty_conv)
    then show ?thesis using r False by (auto simp: rollUpLeadStatus_def outcome_of_def split: if_splits)
  qed
qed

lemma rollUp_in_step:
  assumes r: "rollUpLead now i a s = Inr s'" and l: "find_by l_id i (cr_leads s) = Some l"
    and ne: "products_of i s \<noteq> []"
  shows "\<exists>l'. find_by l_id i (cr_leads s') = Some l' \<and> outcome_of (lp_status ` set (products_of i s')) (l_status l')"
proof -
  let ?rows = "js_sort closed_desc (products_of i s)"
  have products: "products_of i s' = products_of i s"
    using rollUpLead_tables [OF r] by (simp add: products_of_def)
  obtain rolled where rolled: "rollUpLeadStatus (map lp_status ?rows) = Some rolled"
    using ne by (cases "rollUpLeadStatus (map lp_status ?rows)") auto
  have out: "outcome_of (lp_status ` set (products_of i s')) rolled"
    using rollUp_outcome [OF rolled] by (simp add: products)
  have "\<exists>l'. find_by l_id i (cr_leads s') = Some l' \<and> l_status l' = rolled"
    using r l rolled
    by (auto simp: rollUpLead_def Let_def and_then_Inr update_lead_Inr find_by_update_by split: if_splits)
  then show ?thesis using out by auto
qed

lemma stamp_in_step:
  assumes "stamp_converted now i s = Inr s'" and "find_by l_id i (cr_leads s) = Some l"
  shows "\<exists>l'. find_by l_id i (cr_leads s') = Some l' \<and> l_status l' = l_status l \<and> products_of i s' = products_of i s"
  using assms by (auto simp: stamp_converted_def update_lead_Inr find_by_update_by products_of_def split: if_splits)

lemma products_of_side [simp]:
  "products_of i (audited x ro j s) = products_of i s" "products_of i (add_activity j t b a s) = products_of i s"
  "products_of i (mirrorConvertedProducts now c j s) = products_of i s"
  "products_of i (add_history h s) = products_of i s" "products_of i (publish j e s) = products_of i s"
  "products_of i (carry_consents j c s) = products_of i s"
  by (simp_all add: products_of_def)

lemma update_lead_present:
  "update_lead j f s = Inr s' \<Longrightarrow> (\<And>l. l_id (f l) = l_id l) \<Longrightarrow>
   cr_products s' = cr_products s \<and> map l_id (cr_leads s') = map l_id (cr_leads s)"
  by (auto simp: update_lead_Inr update_by_def)

lemma attach_customer_tables:
  assumes "attach_customer lead input cid ref s = Inr (c, s')"
  shows "cr_products s' = cr_products s \<and> map l_id (cr_leads s') = map l_id (cr_leads s)"
proof -
  have link: "cr_products v = cr_products u \<and> map l_id (cr_leads v) = map l_id (cr_leads u)"
    if "update_lead (l_id lead) (\<lambda>l. l\<lparr>l_customerId := x\<rparr>) u = Inr v" for x u v
    by (rule update_lead_present [OF that]) simp
  show ?thesis
    using assms
    by (cases "resolve_customer lead input s")
      (auto simp: attach_customer_def Let_def and_then_Inr store_customers_Inr split: if_splits dest!: link)
qed

lemma present_find: "i \<in> l_id ` set ls \<longleftrightarrow> (\<exists>l. find_by l_id i ls = Some l)"
  using find_by_None_iff [of l_id i ls] by (cases "find_by l_id i ls") auto

lemma products_of_update:
  "products_of i (s\<lparr>cr_products := update_by product_key (i, c) f (cr_products s)\<rparr>) \<noteq> []"
  if "find_by product_key (i, c) (cr_products s) = Some p" "\<And>p. lp_leadId (f p) = lp_leadId p"
proof -
  have "p \<in> set (cr_products s)" "lp_leadId p = i" "product_key p = (i, c)"
    using find_by_SomeD [OF that(1)] by (auto simp: product_key_def)
  then have "f p \<in> set (products_of i (s\<lparr>cr_products := update_by product_key (i, c) f (cr_products s)\<rparr>))"
    by (auto simp: products_of_def set_update_by that(2))
  then show ?thesis by auto
qed

lemma changeProductStatus_outcome:
  assumes r: "changeProductStatus orgs now user i input s = Inr s'"
  shows "\<exists>l. find_by l_id i (cr_leads s') = Some l \<and> outcome_of (lp_status ` set (products_of i s')) (l_status l)"
proof -
  let ?t = "add_activity i ''STATUS_CHANGE'' (ps_note input) (pr_id user) (s\<lparr>cr_products :=
      update_by product_key (i, ps_productCode input) (record_outcome now input) (cr_products s)\<rparr>)"
  obtain lead row u where lead: "mustFindInScope orgs user i s = Inr lead"
    and row: "find_by product_key (i, ps_productCode input) (cr_products s) = Some row"
    and u: "rollUpLead now i (Some (pr_id user)) ?t = Inr u" "s' = audited ''STATUS_CHANGE'' None i u"
    using r by (auto simp: changeProductStatus_def Let_def and_then_Inr split: if_splits option.splits)
  have "i \<in> l_id ` set (cr_leads ?t)" using mustFindInScope_Inr [OF lead] by auto
  then obtain l where "find_by l_id i (cr_leads ?t) = Some l" unfolding present_find by blast
  moreover have "products_of i ?t \<noteq> []"
    using products_of_update [OF row, of "record_outcome now input"] by (simp add: record_outcome_def products_of_def)
  ultimately show ?thesis using rollUp_in_step [OF u(1)] by (simp add: u(2))
qed

lemma convertProduct_outcome:
  assumes r: "convertProduct orgs now user i input cid ref s = Inr s'"
  shows "\<exists>l. find_by l_id i (cr_leads s') = Some l \<and> outcome_of (lp_status ` set (products_of i s')) (l_status l)"
proof -
  let ?s = "s\<lparr>cr_products := update_by product_key (i, cv_productCode input) (record_conversion now input) (cr_products s)\<rparr>"
  obtain lead row c u v w where lead: "mustFindInScope orgs user i s = Inr lead"
    and row: "find_by product_key (i, cv_productCode input) (cr_products s) = Some row"
    and u: "attach_customer lead input cid ref ?s = Inr (c, u)"
    and v: "rollUpLead now i (Some (pr_id user)) (mirrorConvertedProducts now c i
        (add_activity i ''STATUS_CHANGE'' (cv_note input) (pr_id user) u)) = Inr v"
    and w: "stamp_converted now i v = Inr w" "s' = audited ''STATUS_CHANGE'' None i w"
    using r by (auto simp: convertProduct_def Let_def and_then_Inr split: if_splits option.splits)
  have u': "cr_products u = cr_products ?s" "map l_id (cr_leads u) = map l_id (cr_leads s)"
    using attach_customer_tables [OF u] by simp_all
  have "i \<in> set (map l_id (cr_leads u))" unfolding u'(2) using mustFindInScope_Inr [OF lead] by auto
  then have "i \<in> l_id ` set (cr_leads u)" by simp
  then obtain l where "find_by l_id i (cr_leads u) = Some l" unfolding present_find by blast
  moreover have "products_of i u \<noteq> []"
    using products_of_update [OF row, of "record_conversion now input"] u'(1)
    by (simp add: record_conversion_def products_of_def)
  ultimately obtain l' where l': "find_by l_id i (cr_leads v) = Some l'"
      "outcome_of (lp_status ` set (products_of i v)) (l_status l')"
    using rollUp_in_step [OF v] by auto
  then show ?thesis using stamp_in_step [OF w(1) l'(1)] by (auto simp: w(2))
qed

text \<open>
  C12. Recording an outcome for one product leaves the lead with the status its products imply:
  the furthest-advanced open product while anything is open, otherwise converted if anything was
  bought, lost if anything was lost, and disqualified only when nothing else happened.
\<close>

theorem product_requests_settle_lead:
  assumes "changeProductStatus orgs now user i qinput s = Inr s' \<or>
    convertProduct orgs now user i vinput cid ref s = Inr s'"
  shows "\<exists>l. find_by l_id i (cr_leads s') = Some l \<and> outcome_of (lp_status ` set (products_of i s')) (l_status l)"
  using assms changeProductStatus_outcome convertProduct_outcome by blast

definition demo_lost :: product_status_input where
  "demo_lost = \<lparr>ps_productCode = ''MF'', ps_status = LOST, ps_lostReason = Some ''PRICE'', ps_note = None\<rparr>"

definition demo_settled_state :: crm where
  "demo_settled_state = accepted (changeProductStatus [] 9 demo_rep ''l1'' demo_lost demo_won_state) demo_won_state"

lemma product_requests_settle_lead_witness:
  "map l_status (cr_leads demo_won_state) = [NEW] \<and> map l_status (cr_leads demo_settled_state) = [CONVERTED] \<and>
   (\<exists>l. find_by l_id ''l1'' (cr_leads demo_settled_state) = Some l \<and>
      outcome_of (lp_status ` set (products_of ''l1'' demo_settled_state)) (l_status l))"
proof -
  have "isl (changeProductStatus [] 9 demo_rep ''l1'' demo_lost demo_won_state) = False" by code_simp
  then have "changeProductStatus [] 9 demo_rep ''l1'' demo_lost demo_won_state = Inr demo_settled_state"
    by (cases "changeProductStatus [] 9 demo_rep ''l1'' demo_lost demo_won_state")
      (auto simp: demo_settled_state_def accepted_def)
  then have "\<exists>l. find_by l_id ''l1'' (cr_leads demo_settled_state) = Some l \<and>
      outcome_of (lp_status ` set (products_of ''l1'' demo_settled_state)) (l_status l)"
    by (intro product_requests_settle_lead disjI1)
  moreover have "map l_status (cr_leads demo_won_state) = [NEW]" by code_simp
  moreover have "map l_status (cr_leads demo_settled_state) = [CONVERTED]" by code_simp
  ultimately show ?thesis by blast
qed

section \<open>Converting a lead without product rows\<close>

lemma products_where_empty:
  "products_of i s = [] \<Longrightarrow> (\<And>p. lp_leadId (f p) = lp_leadId p) \<Longrightarrow>
   products_of i (s\<lparr>cr_products := update_where q f (cr_products s)\<rparr>) = []"
  by (auto simp: products_of_def set_update_where filter_empty_conv)

lemma rollUp_no_products: "products_of i s = [] \<Longrightarrow> rollUpLead now i a s = Inr s"
  by (simp add: rollUpLead_def rollUpLeadStatus_def)

text \<open>
  Converting a lead that has no product rows, as the public form and the importer create them,
  opens the customer but leaves the lead where it was: not converted, without a conversion date,
  and ready to be converted again into a second customer.
\<close>

theorem convert_leaves_lead_open:
  assumes "crm_reach s" and none: "products_of i s = []"
    and r: "convert orgs now user i input cid ref s = Inr s'" and l: "find_by l_id i (cr_leads s) = Some l"
  shows "\<exists>l'. find_by l_id i (cr_leads s') = Some l' \<and> l_customerId l' = Some cid \<and>
    l_status l' = l_status l \<and> canTransitionLead (l_status l') CONVERTED \<and> l_convertedAt l' = l_convertedAt l"
proof -
  have inv: "crm_inv {} s" by (rule reach_inv [OF assms(1)])
  obtain lead where lead: "mustFindInScope orgs user i s = Inr lead" "l_status lead \<noteq> CONVERTED"
    "canTransitionLead (l_status lead) CONVERTED"
    and tx: "\<exists>z. convert_tx now (pr_id user) lead input cid ref s = Inr z \<and> cr_leads s' = cr_leads z"
    using r by (auto simp: convert_def and_then_Inr split: if_splits)
  have "find_by l_id i (cr_leads s) = Some lead"
    using mustFindInScope_find [OF _ lead(1)] inv by (simp add: crm_inv_def)
  then have eq: "lead = l" "l_id lead = i" using l mustFindInScope_Inr [OF lead(1)] by simp_all
  define c where "c = (opened_customer lead cid ref (Some (ci_pan input)) None (Some (ci_email input)))
      \<lparr>cu_productInterest := l_productInterest lead, cu_partnerId := l_partnerId lead\<rparr>"
  define q where "q = (\<lambda>p :: lead_product. lp_leadId p = i \<and> isOpenLeadProductStatus (lp_status p) \<and>
      (truthy (ci_productCode input) \<longrightarrow> Some (lp_code p) = ci_productCode input))"
  define f where "f = (\<lambda>p :: lead_product. p\<lparr>lp_status := CONVERTED, lp_closedAt := Some now\<rparr>)"
  define g where "g = (\<lambda>l :: lead_row. l\<lparr>l_customerId := Some cid, l_pan := Some (ci_pan input),
      l_email := Some (ci_email input), l_lastActivityAt := Some now, l_updatedById := Some (pr_id user)\<rparr>)"
  obtain u v w x where u: "store_customers (insert_row c (cr_customers s)) s = Inr u"
    and v: "update_lead i g (u\<lparr>cr_products := update_where q f (cr_products u)\<rparr>) = Inr v"
    and w: "rollUpLead now i (Some (pr_id user)) (mirrorConvertedProducts now cid i v) = Inr w"
    and x: "stamp_converted now i w = Inr x" "cr_leads s' = cr_leads x"
    using tx by (auto simp: convert_tx_def Let_def and_then_Inr eq(2) c_def q_def f_def g_def)
  have u': "products_of i u = []" "cr_leads u = cr_leads s"
    using u none by (auto simp: store_customers_Inr products_of_def)
  have "products_of i v = products_of i (u\<lparr>cr_products := update_where q f (cr_products u)\<rparr>)"
    using v by (simp add: update_lead_Inr products_of_def)
  also have "\<dots> = []" by (rule products_where_empty [OF u'(1)]) (simp add: f_def)
  finally have "w = mirrorConvertedProducts now cid i v"
    using w rollUp_no_products by simp
  moreover have "find_by l_id i (cr_leads v) = Some (g l)"
    using v l by (auto simp: update_lead_Inr find_by_update_by g_def u'(2))
  ultimately have "cr_leads x = cr_leads v" "find_by l_id i (cr_leads x) = Some (g l)"
    using x(1) lead(2) eq(1) by (auto simp: stamp_converted_def g_def split: if_splits)
  then show ?thesis using lead(3) eq(1) by (simp add: x(2) g_def)
qed

definition demo_form :: capture_input where
  "demo_form = \<lparr>pi_firstName = ''Asha'', pi_lastName = None, pi_mobile = ''9876543210'', pi_email = None,
     pi_city = None, pi_productInterest = [''EQ''], pi_message = None, pi_utmCampaign = None\<rparr>"

definition demo_link :: coded_link where
  "demo_link = \<lparr>cl_campaignId = None, cl_partnerId = None, cl_eventId = None, cl_suggestedOwnerId = Some ''u1'',
     cl_capturedById = None, cl_orgUnitId = None\<rparr>"

definition demo_captured :: crm where
  "demo_captured = (case capture [] (\<lambda>_ _. Inr ()) (\<lambda>_ _. 10) 0 demo_form ''WEBSITE'' demo_link False ''WEBSITE'' ''l1'' ''LD1'' crm_empty
     of Inl e \<Rightarrow> crm_empty | Inr (d, ref, s) \<Rightarrow> s)"

definition demo_qualified :: crm where
  "demo_qualified = accepted (changeStatus [] 3 demo_rep ''l1''
     \<lparr>st_status = QUALIFIED, st_lostReason = None, st_note = None, st_nextFollowUpAt = None\<rparr> demo_captured) demo_captured"

definition demo_convert :: "string \<Rightarrow> convert_input" where
  "demo_convert pan = \<lparr>ci_pan = pan, ci_email = ''a@b.in'', ci_note = None, ci_productCode = None\<rparr>"

definition demo_once :: crm where
  "demo_once = accepted (convert [] 5 demo_rep ''l1'' (demo_convert ''ABCDE1234F'') ''c1'' ''CU1'' demo_qualified) demo_qualified"

definition demo_twice :: crm where
  "demo_twice = accepted (convert [] 6 demo_rep ''l1'' (demo_convert ''ABCDE1234G'') ''c2'' ''CU2'' demo_once) demo_once"

lemma demo_qualified_reach: "crm_reach demo_qualified"
proof -
  have "crm_step crm_empty demo_captured"
  proof (cases "capture [] (\<lambda>_ _. Inr ()) (\<lambda>_ _. 10) 0 demo_form ''WEBSITE'' demo_link False ''WEBSITE'' ''l1'' ''LD1'' crm_empty")
    case (Inl e)
    have "\<not> isl (capture [] (\<lambda>_ _. Inr ()) (\<lambda>_ _. 10) 0 demo_form ''WEBSITE'' demo_link False ''WEBSITE'' ''l1'' ''LD1'' crm_empty)"
      by code_simp
    then show ?thesis using Inl by simp
  next
    case (Inr y)
    then obtain d ref s where y: "y = (d, ref, s)" by (cases y) auto
    show ?thesis
      using step_capture [OF _ Inr [unfolded y]] Inr y by (simp add: demo_captured_def crm_empty_def)
  qed
  then have "crm_reach demo_captured" by (rule reach_step [OF reach_empty])
  then show ?thesis unfolding demo_qualified_def by (rule reach_accepted) (erule step_status)
qed

lemma convert_leaves_lead_open_witness:
  "(\<exists>l'. find_by l_id ''l1'' (cr_leads demo_once) = Some l' \<and> l_customerId l' = Some ''c1'' \<and> l_status l' = QUALIFIED) \<and>
   map cu_id (cr_customers demo_twice) = [''c1'', ''c2''] \<and> map l_customerId (cr_leads demo_twice) = [Some ''c2'']"
proof -
  have "\<not> isl (convert [] 5 demo_rep ''l1'' (demo_convert ''ABCDE1234F'') ''c1'' ''CU1'' demo_qualified)" by code_simp
  then have r: "convert [] 5 demo_rep ''l1'' (demo_convert ''ABCDE1234F'') ''c1'' ''CU1'' demo_qualified = Inr demo_once"
    by (cases "convert [] 5 demo_rep ''l1'' (demo_convert ''ABCDE1234F'') ''c1'' ''CU1'' demo_qualified")
      (auto simp: demo_once_def accepted_def)
  have p: "products_of ''l1'' demo_qualified = []" by code_simp
  have "map_option l_status (find_by l_id ''l1'' (cr_leads demo_qualified)) = Some QUALIFIED" by code_simp
  then obtain l where l: "find_by l_id ''l1'' (cr_leads demo_qualified) = Some l" "l_status l = QUALIFIED" by auto
  from convert_leaves_lead_open [OF demo_qualified_reach p r l(1)] l(2)
  have "\<exists>l'. find_by l_id ''l1'' (cr_leads demo_once) = Some l' \<and> l_customerId l' = Some ''c1'' \<and> l_status l' = QUALIFIED"
    by auto
  moreover have "map cu_id (cr_customers demo_twice) = [''c1'', ''c2'']" by code_simp
  moreover have "map l_customerId (cr_leads demo_twice) = [Some ''c2'']" by code_simp
  ultimately show ?thesis by blast
qed

end
