(* ===== verification/Reassign.thy ===== *)
theory Reassign
  imports Outcomes
begin

text \<open>
  Who holds a lead, and what a merge does to the two records: the status endpoint, the edit
  endpoint against the assignment rules, and \<open>merge\<close> of the duplicates service.
\<close>

section \<open>The status endpoint\<close>

text \<open>
  The status endpoint moves a lead only along the transition table and never to converted; it
  leaves every other lead, all products and all customers alone, dates the closing of a lead and
  clears it on reopening, gives a lost lead its reason, and records the move with its author.
\<close>

theorem status_moves_by_the_table:
  assumes "crm_reach s" and "changeStatus orgs now user i input s = Inr s'" and "changeLeadStatusSchema input"
  shows "\<exists>l l'. find_by l_id i (cr_leads s) = Some l \<and> find_by l_id i (cr_leads s') = Some l' \<and>
    l_status l' = st_status input \<and> l_status l' \<in> set (LEAD_STATUS_TRANSITIONS (l_status l)) - {CONVERTED} \<and>
    l_closedAt l' = (if l_status l' \<in> {LOST, DISQUALIFIED} then Some now else None) \<and>
    (l_status l' = LOST) = (l_lostReason l' \<noteq> None) \<and>
    cr_leads s' = update_by l_id i (\<lambda>_. l') (cr_leads s) \<and>
    cr_products s' = cr_products s \<and> cr_customers s' = cr_customers s \<and>
    (\<exists>h. cr_history s' = cr_history s @ [h] \<and> hs_from h = Some (l_status l) \<and> hs_to h = l_status l' \<and>
       hs_changedById h = Some (pr_id user))"
proof -
  have k: "keys_unique l_id (cr_leads s)" using reach_inv [OF assms(1)] by (simp add: crm_inv_def)
  obtain l where lead: "mustFindInScope orgs user i s = Inr l" and ok: "canTransitionLead (l_status l) (st_status input)"
      "st_status input \<noteq> CONVERTED"
    and s': "cr_leads s' = update_by l_id i (apply_status now (pr_id user) input) (cr_leads s)"
      "cr_products s' = cr_products s" "cr_customers s' = cr_customers s"
      "\<exists>d. cr_history s' = cr_history s @ [\<lparr>hs_leadId = i, hs_from = Some (l_status l), hs_to = st_status input,
         hs_note = st_note input, hs_changedById = Some (pr_id user), hs_durationSeconds = d, hs_changedAt = now\<rparr>]"
    using assms(2)
    by (auto simp: changeStatus_def Let_def and_then_Inr update_lead_Inr add_history_def add_activity_def publish_def
        audited_def insert_row_def split: if_splits)
  note l = mustFindInScope_find [OF k lead]
  let ?l' = "apply_status now (pr_id user) input l"
  have "find_by l_id i (cr_leads s') = Some ?l'"
    using l by (simp add: s'(1) find_by_update_by apply_status_def)
  moreover have "cr_leads s' = update_by l_id i (\<lambda>_. ?l') (cr_leads s)"
    unfolding s'(1) update_by_def update_where_def
    using find_by_same [OF k l] by (intro map_cong) auto
  moreover have "(l_status ?l' = LOST) = (l_lostReason ?l' \<noteq> None)"
    using assms(3) by (auto simp: apply_status_def changeLeadStatusSchema_def)
  moreover have "l_status ?l' = st_status input"
    "l_closedAt ?l' = (if st_status input \<in> {LOST, DISQUALIFIED} then Some now else None)"
    by (simp_all add: apply_status_def)
  moreover have "st_status input \<in> set (LEAD_STATUS_TRANSITIONS (l_status l)) - {CONVERTED}"
    using ok by (simp add: canTransitionLead_def)
  moreover obtain h where "cr_history s' = cr_history s @ [h]" "hs_from h = Some (l_status l)" "hs_to h = st_status input"
      "hs_changedById h = Some (pr_id user)"
    using s'(4) by force
  ultimately show ?thesis
    using l s'(2,3) by (intro exI [of _ l] exI [of _ ?l'] conjI exI [of _ h]) simp_all
qed

definition demo_close :: status_input where
  "demo_close = \<lparr>st_status = LOST, st_lostReason = Some ''PRICE'', st_note = None, st_nextFollowUpAt = None\<rparr>"

definition demo_lost_state :: crm where
  "demo_lost_state = accepted (changeStatus [] 7 demo_rep ''l1'' demo_close demo_lead_state) demo_lead_state"

lemma status_moves_by_the_table_witness:
  "\<exists>l'. find_by l_id ''l1'' (cr_leads demo_lost_state) = Some l' \<and> l_closedAt l' = Some 7 \<and> l_lostReason l' \<noteq> None"
proof -
  have "\<not> isl (changeStatus [] 7 demo_rep ''l1'' demo_close demo_lead_state)" by code_simp
  then have "changeStatus [] 7 demo_rep ''l1'' demo_close demo_lead_state = Inr demo_lost_state"
    by (cases "changeStatus [] 7 demo_rep ''l1'' demo_close demo_lead_state") (auto simp: demo_lost_state_def accepted_def)
  from status_moves_by_the_table [OF demo_lead_reach this] show ?thesis
    by (auto simp: demo_close_def changeLeadStatusSchema_def LEAD_LOST_REASONS_def)
qed

section \<open>Reassignment through the edit endpoint\<close>

lemma sync_rows:
  assumes r: "syncLeadProducts names now i codes a s = Inr s'" and l: "find_by l_id i (cr_leads s) = Some l"
  shows "\<exists>l'. find_by l_id i (cr_leads s') = Some l' \<and> l_ownerId l' = l_ownerId l \<and> l_orgUnitId l' = l_orgUnitId l \<and>
    cr_events s' = cr_events s"
proof -
  obtain t where t: "rollUpLead now i a t = Inr s'" "cr_leads t = cr_leads s" "cr_events t = cr_events s"
    using r by (auto simp: syncLeadProducts_def Let_def add_activity_def split: option.splits if_splits)
  show ?thesis
    using rollUpLead_Inr [OF t(1)] l
    by (auto simp: t(2,3) update_lead_Inr add_history_def find_by_update_by apply_rollup_def Let_def)
qed

text \<open>
  An edit may name a new owner, and then the lead is that person's, whoever the caller is and
  whoever the person is: neither the assignment rule nor the transfer rule is asked, the account
  need not exist, the lead does not move to the owner's unit and no event announces the change.
\<close>

theorem edit_hands_over_unchecked:
  assumes "crm_reach s" and "update orgs rescore names now user i input s = (Inr (), s')"
    and "ui_ownerId input = Some owner" and "find_by l_id i (cr_leads s) = Some l"
  shows "\<exists>l'. find_by l_id i (cr_leads s') = Some l' \<and> l_ownerId l' = Some owner \<and> l_orgUnitId l' = l_orgUnitId l \<and>
    cr_events s' = cr_events s"
proof -
  have k: "keys_unique l_id (cr_leads s)" using reach_inv [OF assms(1)] by (simp add: crm_inv_def)
  obtain before where before: "mustFindInScope orgs user i s = Inr before"
    using assms(2) by (cases "mustFindInScope orgs user i s") (simp_all add: update_def)
  have guards: "l_status before \<noteq> CONVERTED" "\<not> (ui_status input \<noteq> None \<and> ui_status input \<noteq> Some (l_status before))"
    using assms(2) by (auto simp: update_def before split: if_splits)
  define keeps where "keeps = verificationSurvivesEdit (Some (l_mobile before)) (map_option Some (ui_mobile input))"
  define after where "after t = (if \<not> keeps \<and> l_mobileVerifiedAt before \<noteq> None then verification_audit i t else t)" for t
  obtain t u v where t: "update_lead i (apply_edit (pr_id user) keeps input) s = Inr t"
    and u: "edit_products names now (pr_id user) i input (after t) = Inr u"
    and v: "edit_score rescore i (apply_edit (pr_id user) keeps input before) u = Inr v" "s' = audited ''UPDATE'' None i v"
    using assms(2) guards
    by (simp add: update_def before Let_def keeps_def [symmetric] after_def [symmetric] del: not_None_eq split: sum.splits)
  have after: "cr_leads (after t) = cr_leads t" "cr_events (after t) = cr_events t"
    by (simp_all add: after_def verification_audit_def)
  let ?l = "apply_edit (pr_id user) keeps input l"
  have t': "find_by l_id i (cr_leads (after t)) = Some ?l" "cr_events (after t) = cr_events s"
    using t after assms(4) by (auto simp: update_lead_Inr find_by_update_by apply_edit_def clear_verification_def Let_def)
  have "\<exists>l'. find_by l_id i (cr_leads u) = Some l' \<and> l_ownerId l' = l_ownerId ?l \<and> l_orgUnitId l' = l_orgUnitId ?l \<and>
      cr_events u = cr_events (after t)"
    using u t'(1) sync_rows [OF _ t'(1)] by (auto simp: edit_products_def split: option.splits)
  then obtain l' where l': "find_by l_id i (cr_leads u) = Some l'" "l_ownerId l' = l_ownerId ?l"
      "l_orgUnitId l' = l_orgUnitId ?l" "cr_events u = cr_events s"
    using t'(2) by auto
  have "l_ownerId ?l = Some owner" "l_orgUnitId ?l = l_orgUnitId l"
    using assms(3) by (simp_all add: apply_edit_def clear_verification_def or_else_def Let_def)
  moreover have "\<exists>w. find_by l_id i (cr_leads v) = Some w \<and> l_ownerId w = l_ownerId l' \<and> l_orgUnitId w = l_orgUnitId l' \<and>
      cr_events v = cr_events u"
    using v(1) l'(1) by (auto simp: edit_score_def Let_def update_lead_Inr find_by_update_by)
  ultimately show ?thesis using l' by (auto simp: v(2) audited_def)
qed

definition demo_edit :: update_input where
  "demo_edit = \<lparr>ui_firstName = None, ui_lastName = None, ui_mobile = None, ui_email = None, ui_pan = None,
     ui_city = None, ui_state = None, ui_pincode = None, ui_source = None, ui_productInterest = None,
     ui_priority = None, ui_estimatedValue = None, ui_ownerId = Some ''nobody'', ui_partnerId = None,
     ui_campaignId = None, ui_status = None, ui_lostReason = None, ui_lostNote = None, ui_nextFollowUpAt = None\<rparr>"

definition demo_edited :: "unit result \<times> crm" where
  "demo_edited = update [] (\<lambda>_ _. 10) (\<lambda>c. c) 8 demo_rep ''l1'' demo_edit demo_lead_state"

lemma edit_hands_over_unchecked_witness:
  "\<not> canAssignTo demo_rep ''nobody'' \<and> \<not> canTransferLeads (pr_dataScope demo_rep) \<and>
   (\<exists>l'. find_by l_id ''l1'' (cr_leads (snd demo_edited)) = Some l' \<and> l_ownerId l' = Some ''nobody'')"
proof -
  have "\<not> isl (fst demo_edited)" by code_simp
  then have r: "update [] (\<lambda>_ _. 10) (\<lambda>c. c) 8 demo_rep ''l1'' demo_edit demo_lead_state = (Inr (), snd demo_edited)"
    unfolding demo_edited_def [symmetric] by (cases "fst demo_edited") (auto simp: prod_eq_iff)
  have "map l_id (cr_leads demo_lead_state) = [''l1'']" by code_simp
  then obtain l where l: "find_by l_id ''l1'' (cr_leads demo_lead_state) = Some l"
    by (cases "cr_leads demo_lead_state") auto
  have "ui_ownerId demo_edit = Some ''nobody''" by (simp add: demo_edit_def)
  from edit_hands_over_unchecked [OF demo_lead_reach r this l]
  have "\<exists>l'. find_by l_id ''l1'' (cr_leads (snd demo_edited)) = Some l' \<and> l_ownerId l' = Some ''nobody''" by blast
  moreover have "\<not> canAssignTo demo_rep ''nobody''" "\<not> canTransferLeads (pr_dataScope demo_rep)" by code_simp+
  ultimately show ?thesis by blast
qed

section \<open>A merge only adds\<close>

lemma field_of_set_field:
  assumes "mo_value g = field_of b (mo_field g)"
  shows "field_of (set_field g l) f = (if mo_field g = f then field_of b f else field_of l f)"
proof -
  have as_text: "map_option Text (text_value (map_option Text v)) = map_option Text v" for v by (cases v) simp_all
  have amount: "map_option Amount (amount_value (map_option Amount v)) = map_option Amount v" for v by (cases v) simp_all
  show ?thesis
    using assms by (cases "mo_field g"; cases f) (simp_all add: set_field_def as_text amount)
qed

lemma field_of_fold:
  "(\<forall>g \<in> set gs. mo_value g = field_of b (mo_field g)) \<Longrightarrow>
   field_of (fold set_field gs l) f = (if f \<in> mo_field ` set gs then field_of b f else field_of l f)"
proof (induction gs arbitrary: l)
  case (Cons g gs)
  then show ?case using field_of_set_field [of g b l f] by auto
qed simp

lemma all_fields: "f \<in> set MERGEABLE_FIELDS"
  by (cases f) (simp_all add: MERGEABLE_FIELDS_def)

lemma merge_field_gained: "mo_gained (merge_field a b f) \<longleftrightarrow> \<not> isEmpty (field_of b f) \<and> isEmpty (field_of a f)"
  by (simp add: merge_field_def Let_def)

lemma merge_field_field [simp]: "mo_field (merge_field a b f) = f"
  by (simp add: merge_field_def Let_def)

lemma gains_fields:
  "mo_field ` set (mp_gains (previewMerge a b)) = {f. \<not> isEmpty (field_of b f) \<and> isEmpty (field_of a f)}"
proof -
  have "f \<in> mo_field ` set (mp_gains (previewMerge a b))" if "mo_gained (merge_field a b f)" for f
    using that all_fields [of f] by (force simp: previewMerge_def Let_def)
  then show ?thesis by (auto simp: previewMerge_def Let_def merge_field_gained)
qed

lemma gains_values: "\<forall>g \<in> set (mp_gains (previewMerge a b)). mo_value g = field_of b (mo_field g)"
  by (auto simp: previewMerge_def Let_def merge_field_def)

lemma merged_field:
  "field_of (fold set_field (mp_gains (previewMerge a b)) l) f =
    (if \<not> isEmpty (field_of b f) \<and> isEmpty (field_of a f) then field_of b f else field_of l f)"
  using field_of_fold [OF gains_values] by (simp add: gains_fields)

lemma set_field_kept:
  "l_id (set_field g l) = l_id l \<and> l_mobile (set_field g l) = l_mobile l \<and> l_firstName (set_field g l) = l_firstName l \<and>
   l_status (set_field g l) = l_status l \<and> l_ownerId (set_field g l) = l_ownerId l \<and>
   l_customerId (set_field g l) = l_customerId l \<and> l_mergedIntoId (set_field g l) = l_mergedIntoId l \<and>
   l_deletedAt (set_field g l) = l_deletedAt l \<and> l_lostReason (set_field g l) = l_lostReason l"
  by (cases "mo_field g") (simp_all add: set_field_def)

lemma fold_kept:
  "l_id (fold set_field gs l) = l_id l \<and> l_mobile (fold set_field gs l) = l_mobile l \<and>
   l_firstName (fold set_field gs l) = l_firstName l \<and> l_status (fold set_field gs l) = l_status l \<and>
   l_ownerId (fold set_field gs l) = l_ownerId l \<and> l_customerId (fold set_field gs l) = l_customerId l \<and>
   l_mergedIntoId (fold set_field gs l) = l_mergedIntoId l \<and> l_deletedAt (fold set_field gs l) = l_deletedAt l \<and>
   l_lostReason (fold set_field gs l) = l_lostReason l"
proof (induction gs arbitrary: l)
  case (Cons g gs)
  then show ?case using Cons.IH [of "set_field g l"] set_field_kept [of g l] by simp
qed simp

lemma merge_write_leads:
  assumes "merge_write now user reason (la, lb) s = Inr s'"
  shows "cr_leads s' = update_by l_id (l_id la) (fold set_field (mp_gains (previewMerge la lb)))
      (update_by l_id (l_id lb) (close_duplicate now (pr_id user) la reason) (cr_leads s))"
proof -
  have "update_by l_id i (fold set_field []) ls = ls" for i ls
    by (induction ls) (simp_all add: update_by_def)
  then show ?thesis
    using assms by (auto simp: merge_write_def Let_def and_then_Inr update_lead_Inr split: if_splits)
qed

lemma merge_write_history:
  assumes "merge_write now user reason (la, lb) s = Inr s'"
  shows "\<exists>n. cr_activities s' = map (move_link (l_id lb) (l_id la)) (cr_activities s) @ [n] \<and> el_entityId n = l_id la \<and>
    cr_tasks s' = map (move_link (l_id lb) (l_id la)) (cr_tasks s) \<and>
    cr_documents s' = map (move_link (l_id lb) (l_id la)) (cr_documents s) \<and>
    cr_consents s' = map (move_consent (l_id lb) (l_id la)) (cr_consents s)"
  using assms
  by (auto simp: merge_write_def Let_def and_then_Inr update_lead_Inr move_history_def publish_def audited_def
      insert_row_def split: if_splits)

lemma merge_write_rest:
  assumes "merge_write now user reason (la, lb) s = Inr s'"
  shows "cr_products s' = cr_products s \<and> cr_customers s' = cr_customers s \<and> cr_holdings s' = cr_holdings s \<and>
    cr_history s' = cr_history s \<and> cr_attendance s' = cr_attendance s"
  using assms
  by (auto simp: merge_write_def Let_def and_then_Inr update_lead_Inr move_history_def publish_def audited_def
      split: if_splits)

text \<open>
  What it means for rows to follow the person, said of the rows alone: row by row, whatever hung on
  lead \<open>b\<close> hangs on lead \<open>a\<close>, everything else hangs where it did, and nothing else changed.
\<close>

definition relinked :: "string \<Rightarrow> string \<Rightarrow> 'a entity_link_scheme list \<Rightarrow> 'a entity_link_scheme list \<Rightarrow> bool" where
  "relinked b a = list_all2 (\<lambda>x y. el_entityType y = el_entityType x \<and> entity_link.more y = entity_link.more x \<and>
     el_entityId y = (if el_entityType x = ''LEAD'' \<and> el_entityId x = b then a else el_entityId x))"

definition consents_follow :: "string \<Rightarrow> string \<Rightarrow> consent_row list \<Rightarrow> consent_row list \<Rightarrow> bool" where
  "consents_follow b a = list_all2 (\<lambda>c d. el_entityType d = el_entityType c \<and> co_customerId d = co_customerId c \<and>
     co_purpose d = co_purpose c \<and> co_granted d = co_granted c \<and>
     (if co_leadId c = Some b then co_leadId d = Some a \<and> el_entityId d = a
      else co_leadId d = co_leadId c \<and> el_entityId d = el_entityId c))"

lemma relinked_move: "relinked b a xs (map (move_link b a) xs)"
  by (simp add: relinked_def list_all2_map2 list_all2_same move_link_def)

lemma consents_follow_move: "consents_follow b a cs (map (move_consent b a) cs)"
  by (simp add: consents_follow_def list_all2_map2 list_all2_same move_consent_def)

lemma merge_Inr:
  assumes "merge orgs now user a b reason s = Inr s'" and "keys_unique l_id (cr_leads s)"
    and "find_by l_id a (cr_leads s) = Some la" and "find_by l_id b (cr_leads s) = Some lb"
  shows "merge_write now user reason (la, lb) s = Inr s'" and "canMergeLeads la lb = None"
    and "l_id la = a" and "l_id lb = b" and "a \<noteq> b"
proof -
  obtain p q where pq: "merge_write now user reason (p, q) s = Inr s'" "canMergeLeads p q = None"
    "mustFindInScope orgs user a s = Inr p" "mustFindInScope orgs user b s = Inr q"
    using assms(1) by (auto simp: merge_def merge_read_def mustFindBoth_def and_then_Inr split: if_splits)
  have eq: "p = la" "q = lb"
    using mustFindInScope_find [OF assms(2)] pq(3,4) assms(3,4) by simp_all
  show "merge_write now user reason (la, lb) s = Inr s'" "canMergeLeads la lb = None" using pq eq by simp_all
  show ids: "l_id la = a" "l_id lb = b" using find_by_SomeD assms(3,4) by fast+
  show "a \<noteq> b" using pq(2) eq ids by (auto simp: canMergeLeads_def)
qed


definition demo_second :: crm where
  "demo_second = accepted (create [] [] (\<lambda>_ _. Inr ()) (\<lambda>_ _. 10) (\<lambda>c. c) 1 demo_rep
     (demo_new\<lparr>ni_mobile := ''9876543211'', ni_pan := Some ''ABCDE1234F''\<rparr>) ''l2'' ''LD2'' demo_lead_state) demo_lead_state"

definition demo_merged :: crm where
  "demo_merged = accepted (merge [] 4 demo_rep ''l1'' ''l2'' ''same person'' demo_second) demo_second"

lemma demo_second_reach: "crm_reach demo_second"
proof -
  have "''l2'' \<notin> l_id ` set (cr_leads demo_lead_state)" by code_simp
  then show ?thesis
    unfolding demo_second_def by (intro reach_accepted [OF demo_lead_reach]) (rule step_create)
qed


section \<open>A merge is not refused, and two can cross\<close>

lemma identity_inj:
  assumes "keys_unique l_id ls"
  shows "lead_identity_unique ls \<longleftrightarrow>
    inj_on l_mobile {l \<in> set ls. live_lead l} \<and> inj_on l_pan {l \<in> set ls. live_lead l \<and> l_pan l \<noteq> None}"
proof -
  have "distinct ls" using assms by (simp add: keys_unique_def distinct_map)
  then show ?thesis by (simp add: lead_identity_unique_def distinct_map del: not_None_eq)
qed

lemma shut_not_live [simp]: "\<not> live_lead (close_duplicate now uid a reason l)"
  by (simp add: live_lead_def close_duplicate_def CLOSED_LEAD_STATUSES_def)

lemma identity_shut:
  assumes k: "keys_unique l_id ls" and u: "lead_identity_unique ls"
  shows "lead_identity_unique (update_by l_id b (close_duplicate now uid a reason) ls)"
proof -
  let ?ls = "update_by l_id b (close_duplicate now uid a reason) ls"
  have k': "keys_unique l_id ?ls" using k by (simp add: close_duplicate_def)
  have "{l \<in> set ?ls. live_lead l} \<subseteq> {l \<in> set ls. live_lead l}"
    by (auto simp: set_update_by)
  moreover have "{l \<in> set ?ls. live_lead l \<and> l_pan l \<noteq> None} \<subseteq> {l \<in> set ls. live_lead l \<and> l_pan l \<noteq> None}"
    by (auto simp: set_update_by)
  ultimately show ?thesis
    using u unfolding identity_inj [OF k] identity_inj [OF k'] by (blast intro: inj_on_subset)
qed

lemma gain_pan:
  "l_pan (fold set_field (mp_gains (previewMerge la lb)) la) \<in> {l_pan la, l_pan lb}"
proof -
  let ?l = "fold set_field (mp_gains (previewMerge la lb)) la"
  have inj: "x = y" if "map_option Text x = map_option Text y" for x y
    using that by (cases x; cases y) simp_all
  have "field_of ?l PanField = field_of la PanField \<or> field_of ?l PanField = field_of lb PanField"
    unfolding merged_field by meson
  then show ?thesis using inj unfolding field_of.simps by blast
qed

lemma identity_gain:
  assumes k: "keys_unique l_id ls" and u: "lead_identity_unique ls" and a: "la \<in> set ls" and b: "lb \<in> set ls"
    and live: "live_lead lb" and ne: "l_id la \<noteq> l_id lb"
  defines "gain \<equiv> fold set_field (mp_gains (previewMerge la lb))"
  shows "lead_identity_unique (update_by l_id (l_id la) gain (update_by l_id (l_id lb) (close_duplicate now uid la reason) ls))"
    (is "lead_identity_unique ?m2")
proof -
  let ?m1 = "update_by l_id (l_id lb) (close_duplicate now uid la reason) ls"
  have ids: "l_id (gain l) = l_id l" "live_lead (gain l) = live_lead l" "l_mobile (gain l) = l_mobile l" for l
    using fold_kept by (simp_all add: gain_def live_lead_def)
  have k2: "keys_unique l_id ?m2" using k by (simp add: ids close_duplicate_def)
  let ?up = "\<lambda>l. if l_id l = l_id la then gain l else l"
  have m2: "\<exists>y. y \<in> set ls \<and> live_lead y \<and> l_id y \<noteq> l_id lb \<and> x = ?up y" if "x \<in> set ?m2" "live_lead x" for x
  proof -
    let ?shut = "\<lambda>z. if l_id z = l_id lb then close_duplicate now uid la reason z else z"
    have "x \<in> ?up ` ?shut ` set ls" using that(1) unfolding set_update_by .
    then obtain z where z: "z \<in> set ls" "x = ?up (?shut z)" by (elim imageE) simp
    show ?thesis
    proof (cases "l_id z = l_id lb")
      case True
      then have "x = close_duplicate now uid la reason z"
        using z(2) ne by (simp add: close_duplicate_def)
      then show ?thesis using that(2) by simp
    next
      case False
      then have "x = ?up z" using z(2) by simp
      moreover have "live_lead z" using that(2) calculation ids(2) by (cases "l_id z = l_id la") simp_all
      ultimately show ?thesis using z(1) False by blast
    qed
  qed
  have is_la: "y = la" if "y \<in> set ls" "l_id y = l_id la" for y
    using find_by_same [OF k find_by_unique [OF k a] that] .
  have "inj_on l_mobile {l \<in> set ?m2. live_lead l}"
  proof (rule inj_onI)
    fix x x' assume x: "x \<in> {l \<in> set ?m2. live_lead l}" "x' \<in> {l \<in> set ?m2. live_lead l}" "l_mobile x = l_mobile x'"
    obtain y y' where y: "y \<in> set ls" "live_lead y" "x = ?up y" "y' \<in> set ls" "live_lead y'" "x' = ?up y'"
      using m2 [of x] m2 [of x'] x by blast
    have "l_mobile y = l_mobile y'" using x(3) y by (auto simp: ids split: if_splits)
    then have "y = y'" using u y unfolding identity_inj [OF k] by (auto dest: inj_onD)
    then show "x = x'" using y by simp
  qed
  moreover have "inj_on l_pan {l \<in> set ?m2. live_lead l \<and> l_pan l \<noteq> None}"
  proof (rule inj_onI)
    fix x x' assume x: "x \<in> {l \<in> set ?m2. live_lead l \<and> l_pan l \<noteq> None}" "x' \<in> {l \<in> set ?m2. live_lead l \<and> l_pan l \<noteq> None}"
      "l_pan x = l_pan x'"
    obtain y y' where y: "y \<in> set ls" "live_lead y" "l_id y \<noteq> l_id lb" "x = ?up y"
      "y' \<in> set ls" "live_lead y'" "l_id y' \<noteq> l_id lb" "x' = ?up y'"
      using m2 [of x] m2 [of x'] x by blast
    have src: "\<exists>z \<in> set ls. live_lead z \<and> l_pan z = l_pan (?up w) \<and> (z = w \<or> z = lb \<and> w = la)"
      if "w \<in> set ls" "live_lead w" for w
    proof (cases "l_id w = l_id la")
      case True
      then show ?thesis using gain_pan [of la lb] is_la [OF that(1)] that b live by (auto simp: gain_def)
    qed (use that in auto)
    obtain z z' where z: "z \<in> set ls" "live_lead z" "l_pan z = l_pan x" "z = y \<or> z = lb \<and> y = la"
      "z' \<in> set ls" "live_lead z'" "l_pan z' = l_pan x'" "z' = y' \<or> z' = lb \<and> y' = la"
      using src [OF y(1,2)] src [OF y(5,6)] y(4,8) by blast
    have "inj_on l_pan {l \<in> set ls. live_lead l \<and> l_pan l \<noteq> None}"
      using u unfolding identity_inj [OF k] by blast
    then have "z = z'" by (rule inj_onD) (use z x in simp_all)
    then have "y = y'" using z(4,8) y(3,7) by blast
    then show "x = x'" using y by simp
  qed
  ultimately show ?thesis unfolding identity_inj [OF k2] by blast
qed

text \<open>
  Closing the duplicate before the survivor takes its values is what keeps the unique indexes
  out of the way: whenever the checks pass and the duplicate is a live lead, the merge goes through,
  also when the survivor takes over the duplicate's PAN.
\<close>

theorem merge_not_blocked:
  assumes "crm_reach s" and "lead_identity_unique (cr_leads s)" and "list_all lost_has_reason (cr_leads s)"
    and "merge_read orgs user a b s = Inr (la, lb)" and "live_lead lb"
  shows "\<exists>s'. merge orgs now user a b reason s = Inr s'"
proof -
  have k: "keys_unique l_id (cr_leads s)" using reach_inv [OF assms(1)] by (simp add: crm_inv_def)
  have l: "la \<in> set (cr_leads s)" "lb \<in> set (cr_leads s)" "l_id la \<noteq> l_id lb"
    using assms(4) mustFindInScope_Inr
    by (auto simp: merge_read_def mustFindBoth_def and_then_Inr canMergeLeads_def split: if_splits)
  let ?gains = "mp_gains (previewMerge la lb)" and ?shut = "close_duplicate now (pr_id user) la reason"
  let ?m1 = "update_by l_id (l_id lb) ?shut (cr_leads s)"
  have r1: "list_all lost_has_reason ?m1"
    using assms(3) by (auto simp: list_all_iff set_update_by close_duplicate_def lost_has_reason_def)
  then have r2: "list_all lost_has_reason (update_by l_id (l_id la) (fold set_field ?gains) ?m1)"
    using fold_kept by (auto simp: list_all_iff set_update_by lost_has_reason_def)
  note u1 = identity_shut [OF k assms(2), of "l_id lb" now "pr_id user" la reason]
  note u2 = identity_gain [OF k assms(2) l(1,2) assms(5) l(3), of now "pr_id user" reason]
  have "update_lead (l_id lb) ?shut s = Inr (s\<lparr>cr_leads := ?m1\<rparr>)"
    using u1 r1 by (simp add: update_lead_Inr)
  moreover have "update_lead (l_id la) (fold set_field ?gains) (s\<lparr>cr_leads := ?m1\<rparr>) =
      Inr (s\<lparr>cr_leads := update_by l_id (l_id la) (fold set_field ?gains) ?m1\<rparr>)"
    using u2 r2 by (simp add: update_lead_Inr)
  ultimately have "\<exists>s'. merge_write now user reason (la, lb) s = Inr s'"
    by (simp add: merge_write_def Let_def)
  then show ?thesis using assms(4) by (simp add: merge_def)
qed

lemma merge_not_blocked_witness: "\<exists>s'. merge [] 4 demo_rep ''l1'' ''l2'' ''same person'' demo_second = Inr s'"
proof -
  have "\<not> isl (merge_read [] demo_rep ''l1'' ''l2'' demo_second) \<and>
      live_lead (snd (projr (merge_read [] demo_rep ''l1'' ''l2'' demo_second)))" by code_simp
  then obtain la lb where "merge_read [] demo_rep ''l1'' ''l2'' demo_second = Inr (la, lb)" "live_lead lb"
    by (cases "merge_read [] demo_rep ''l1'' ''l2'' demo_second") (auto split: prod.splits)
  moreover have "lead_identity_unique (cr_leads demo_second)" "list_all lost_has_reason (cr_leads demo_second)"
    by code_simp+
  ultimately show ?thesis by (intro merge_not_blocked [OF demo_second_reach])
qed

text \<open>
  The checks are made before the transaction: two people who merge the same pair in opposite
  directions at the same time both succeed, and then each record is closed as a duplicate of the
  other and the person has no live record left.
\<close>

theorem crossing_merges_close_both:
  assumes "merge_write now user reason (la, lb) s = Inr s1" and "merge_write now' user' reason' (lb, la) s1 = Inr s2"
    and "find_by l_id (l_id la) (cr_leads s) = Some la" and "find_by l_id (l_id lb) (cr_leads s) = Some lb"
    and "l_id la \<noteq> l_id lb"
  shows "\<exists>x y. find_by l_id (l_id la) (cr_leads s2) = Some x \<and> find_by l_id (l_id lb) (cr_leads s2) = Some y \<and>
    l_mergedIntoId x = Some (l_id lb) \<and> l_mergedIntoId y = Some (l_id la) \<and> \<not> live_lead x \<and> \<not> live_lead y"
proof -
  let ?g1 = "fold set_field (mp_gains (previewMerge la lb))" and ?g2 = "fold set_field (mp_gains (previewMerge lb la))"
  have keep: "l_id (fold set_field gs l) = l_id l" "live_lead (fold set_field gs l) = live_lead l"
    "l_mergedIntoId (fold set_field gs l) = l_mergedIntoId l" for gs l
    using fold_kept by (simp_all add: live_lead_def)
  have shut: "l_id (close_duplicate t u a r l) = l_id l" "l_mergedIntoId (close_duplicate t u a r l) = Some (l_id a)"
    for t u a r l by (simp_all add: close_duplicate_def)
  show ?thesis
    using assms(3,4,5) unfolding merge_write_leads [OF assms(2)] merge_write_leads [OF assms(1)]
    by (simp add: find_by_update_by keep shut)
qed

definition demo_first_merge :: crm where
  "demo_first_merge = accepted (merge_write 4 demo_rep ''same'' (projr (merge_read [] demo_rep ''l1'' ''l2'' demo_second)) demo_second) demo_second"

definition demo_both_merged :: crm where
  "demo_both_merged = accepted (merge_write 5 demo_rep ''same'' (projr (merge_read [] demo_rep ''l2'' ''l1'' demo_second)) demo_first_merge) demo_first_merge"

lemma crossing_merges_close_both_witness:
  "map l_mergedIntoId (cr_leads demo_both_merged) = [Some ''l2'', Some ''l1''] \<and>
   (\<exists>x. find_by l_id ''l1'' (cr_leads demo_both_merged) = Some x \<and> \<not> live_lead x)"
proof -
  define la lb where "la = hd (cr_leads demo_second)" and "lb = hd (tl (cr_leads demo_second))"
  have r: "merge_read [] demo_rep ''l1'' ''l2'' demo_second = Inr (la, lb)"
    "merge_read [] demo_rep ''l2'' ''l1'' demo_second = Inr (lb, la)"
    "find_by l_id ''l1'' (cr_leads demo_second) = Some la" "find_by l_id ''l2'' (cr_leads demo_second) = Some lb"
    "l_id la = ''l1''" "l_id lb = ''l2''"
    unfolding la_def lb_def by code_simp+
  have "\<not> isl (merge_write 4 demo_rep ''same'' (projr (merge_read [] demo_rep ''l1'' ''l2'' demo_second)) demo_second)"
    by code_simp
  then have s1: "merge_write 4 demo_rep ''same'' (la, lb) demo_second = Inr demo_first_merge"
    unfolding demo_first_merge_def r(1)
    by (cases "merge_write 4 demo_rep ''same'' (la, lb) demo_second") (auto simp: accepted_def r(1))
  have "\<not> isl (merge_write 5 demo_rep ''same'' (projr (merge_read [] demo_rep ''l2'' ''l1'' demo_second)) demo_first_merge)"
    by code_simp
  then have s2: "merge_write 5 demo_rep ''same'' (lb, la) demo_first_merge = Inr demo_both_merged"
    unfolding demo_both_merged_def r(2)
    by (cases "merge_write 5 demo_rep ''same'' (lb, la) demo_first_merge") (auto simp: accepted_def r(2))
  from crossing_merges_close_both [OF s1 s2] r(3-6)
  have "\<exists>x. find_by l_id ''l1'' (cr_leads demo_both_merged) = Some x \<and> \<not> live_lead x" by auto
  moreover have "map l_mergedIntoId (cr_leads demo_both_merged) = [Some ''l2'', Some ''l1'']" by code_simp
  ultimately show ?thesis by blast
qed

end
