(* ===== verification/Assignment.thy ===== *)
theory Assignment
  imports Leads
begin

text \<open>
  Lead routing: the rules of \<open>packages/contracts/src/assignment.ts\<close> and the service
  \<open>apps/api/src/modules/assignment/assignment.service.ts\<close> over the rule table, the accounts and
  the leads. The cursor of a rule is in its row; \<open>collate\<close> is the host's collation.
\<close>

section \<open>Rules\<close>

datatype assignment_strategy = ROUND_ROBIN | LOAD_BALANCED | FIXED_OWNER | LEAVE_UNASSIGNED

record assignment_criteria =
  ct_sources :: "string list option"
  ct_products :: "string list option"
  ct_cities :: "string list option"
  ct_states :: "string list option"
  ct_minScore :: "int option"
  ct_campaignId :: "string option"

record assignment_rule =
  ar_id :: string
  ar_name :: string
  ar_priority :: int
  ar_isActive :: bool
  ar_criteria :: assignment_criteria
  ar_strategy :: assignment_strategy
  ar_targetUserIds :: "string list"
  ar_orgUnitId :: "string option"
  ar_roundRobinCursor :: int
  ar_assignmentCount :: int
  ar_lastAppliedAt :: "time option"

record assignable_lead =
  al_source :: string
  al_productInterest :: "string list"
  al_city :: "string option"
  al_state :: "string option"
  al_score :: "int option"
  al_campaignId :: "string option"

interpretation rule_table: repository "find_by ar_id" "update_by ar_id" insert_row ar_id
  by (rule repository_by)

text \<open>A criterion that is absent or an empty list is not asked.\<close>

definition asked :: "'a list option \<Rightarrow> bool" where
  "asked c \<longleftrightarrow> c \<noteq> None \<and> c \<noteq> Some []"

definition place_key :: "string \<Rightarrow> string" where
  "place_key p = to_lower (js_trim p)"

definition place_listed :: "string list option \<Rightarrow> string option \<Rightarrow> bool" where
  "place_listed wanted place \<longleftrightarrow> truthy place \<and> place_key (the place) \<in> set (map place_key (the wanted))"

definition ruleMatches :: "assignment_rule \<Rightarrow> assignable_lead \<Rightarrow> bool" where
  "ruleMatches rule lead =
    (let c = ar_criteria rule in
     if \<not> ar_isActive rule then False
     else if asked (ct_sources c) \<and> al_source lead \<notin> set (the (ct_sources c)) then False
     else if asked (ct_products c) \<and> \<not> list_ex (\<lambda>p. p \<in> set (the (ct_products c))) (al_productInterest lead) then False
     else if asked (ct_cities c) \<and> \<not> place_listed (ct_cities c) (al_city lead) then False
     else if asked (ct_states c) \<and> \<not> place_listed (ct_states c) (al_state lead) then False
     else if ct_minScore c \<noteq> None \<and> (case al_score lead of None \<Rightarrow> 0 | Some x \<Rightarrow> x) < the (ct_minScore c) then False
     else if truthy (ct_campaignId c) \<and> al_campaignId lead \<noteq> ct_campaignId c then False
     else True)"

definition rule_order :: "collation \<Rightarrow> assignment_rule \<Rightarrow> assignment_rule \<Rightarrow> int" where
  "rule_order collate a b = cmp_or (ar_priority a - ar_priority b) (collate (ar_name a) (ar_name b))"

definition selectRule :: "collation \<Rightarrow> assignment_rule list \<Rightarrow> assignable_lead \<Rightarrow> assignment_rule option" where
  "selectRule collate rules lead =
    find (\<lambda>r. ruleMatches r lead) (js_sort (rule_order collate) (filter ar_isActive rules))"

record owner_workload =
  ow_userId :: string
  ow_openLeads :: int

definition load_of :: "owner_workload list \<Rightarrow> string \<Rightarrow> int" where
  "load_of workloads userId =
    (case find (\<lambda>w. ow_userId w = userId) workloads of None \<Rightarrow> 0 | Some w \<Rightarrow> ow_openLeads w)"

definition load_order :: "collation \<Rightarrow> owner_workload list \<Rightarrow> string \<Rightarrow> string \<Rightarrow> int" where
  "load_order collate workloads a b = cmp_or (load_of workloads a - load_of workloads b) (collate a b)"

definition selectOwner ::
    "collation \<Rightarrow> assignment_strategy \<Rightarrow> string list \<Rightarrow> owner_workload list \<Rightarrow> int \<Rightarrow> string option" where
  "selectOwner collate strategy targets workloads cursor =
    (if strategy = LEAVE_UNASSIGNED then None
     else case targets of
       [] \<Rightarrow> None
     | first # _ \<Rightarrow>
         (if strategy = FIXED_OWNER then Some first
          else if strategy = ROUND_ROBIN
            then Some (targets ! (nat \<bar>cursor\<bar> mod length targets))
          else Some (hd (js_sort (load_order collate workloads) targets))))"

section \<open>The service\<close>

definition open_leads_of :: "string \<Rightarrow> lead_row list \<Rightarrow> int" where
  "open_leads_of u ls = int (count_where (\<lambda>l. l_ownerId l = Some u \<and> live_lead l) ls)"

text \<open>One row per owner who has an open lead, ordered by the owner.\<close>

definition workloadsFor :: "lead_row list \<Rightarrow> string list \<Rightarrow> owner_workload list" where
  "workloadsFor ls userIds =
    map (\<lambda>u. \<lparr>ow_userId = u, ow_openLeads = open_leads_of u ls\<rparr>)
      (js_sort code_unit_order (filter (\<lambda>u. open_leads_of u ls > 0) (js_set userIds)))"

definition activeUserIds :: "account list \<Rightarrow> string list \<Rightarrow> string list" where
  "activeUserIds users userIds =
    filter (\<lambda>i. list_ex (\<lambda>u. u_id u = i \<and> u_status u = ACTIVE \<and> u_deletedAt u = None) users) userIds"

definition rule_owner ::
    "collation \<Rightarrow> account list \<Rightarrow> lead_row list \<Rightarrow> assignment_rule \<Rightarrow> string option" where
  "rule_owner collate users ls rule =
    (let workloads = (if ar_strategy rule = LOAD_BALANCED then workloadsFor ls (ar_targetUserIds rule) else [])
     in selectOwner collate (ar_strategy rule) (activeUserIds users (ar_targetUserIds rule)) workloads
          (ar_roundRobinCursor rule))"

definition applied :: "time \<Rightarrow> assignment_rule \<Rightarrow> assignment_rule" where
  "applied now r = r\<lparr>ar_roundRobinCursor := ar_roundRobinCursor r + 1,
     ar_assignmentCount := ar_assignmentCount r + 1, ar_lastAppliedAt := Some now\<rparr>"

definition resolveOwner ::
    "collation \<Rightarrow> account list \<Rightarrow> lead_row list \<Rightarrow> time \<Rightarrow> assignable_lead \<Rightarrow> assignment_rule list \<Rightarrow>
     (string option \<times> string option) \<times> assignment_rule list" where
  "resolveOwner collate users ls now lead rules =
    (case selectRule collate (filter ar_isActive rules) lead of
       None \<Rightarrow> ((None, None), rules)
     | Some rule \<Rightarrow>
         (if activeUserIds users (ar_targetUserIds rule) = [] then ((None, Some (ar_id rule)), rules)
          else case rule_owner collate users ls rule of
              None \<Rightarrow> ((None, Some (ar_id rule)), rules)
            | Some ownerId \<Rightarrow> ((Some ownerId, Some (ar_id rule)), update_by ar_id (ar_id rule) (applied now) rules)))"

definition previewOwner ::
    "collation \<Rightarrow> account list \<Rightarrow> lead_row list \<Rightarrow> assignable_lead \<Rightarrow> assignment_rule list \<Rightarrow>
     string option \<times> string option" where
  "previewOwner collate users ls lead rules =
    (case selectRule collate (filter ar_isActive rules) lead of
       None \<Rightarrow> (None, None)
     | Some rule \<Rightarrow>
         (map_option u_id (Option.bind (rule_owner collate users ls rule) (\<lambda>i. find_by u_id i users)), Some (ar_id rule)))"

definition assertTargetsAreAssignable :: "account list \<Rightarrow> string list \<Rightarrow> unit result" where
  "assertTargetsAreAssignable users userIds =
    (if userIds = [] then Inr ()
     else
       let found = filter (\<lambda>u. u_id u \<in> set userIds \<and> u_deletedAt u = None \<and> u_userType u = INTERNAL_USER) users
       in if length found \<noteq> length userIds then Inl (BadRequest ''Unknown user in rule targets'')
          else if list_ex (\<lambda>u. u_status u \<noteq> ACTIVE) found then Inl (BadRequest ''Inactive user in rule targets'')
          else Inr ())"

record rule_input =
  ri_name :: string
  ri_priority :: int
  ri_isActive :: bool
  ri_criteria :: assignment_criteria
  ri_strategy :: assignment_strategy
  ri_targetUserIds :: "string list"
  ri_orgUnitId :: "string option"

definition createAssignmentRuleSchema :: "rule_input \<Rightarrow> bool" where
  "createAssignmentRuleSchema r \<longleftrightarrow>
    0 \<le> ri_priority r \<and> ri_priority r \<le> 1000 \<and> length (ri_targetUserIds r) \<le> 100 \<and>
    (ri_strategy r = LEAVE_UNASSIGNED \<or> ri_targetUserIds r \<noteq> []) \<and>
    (ri_strategy r = FIXED_OWNER \<longrightarrow> length (ri_targetUserIds r) = 1)"

record routing =
  rt_rules :: "assignment_rule list"
  rt_audit :: "audit_entry list"

definition createRule :: "account list \<Rightarrow> rule_input \<Rightarrow> string \<Rightarrow> routing \<Rightarrow> routing result" where
  "createRule users input i s =
    and_then (assertTargetsAreAssignable users (ri_targetUserIds input)) (\<lambda>_.
    Inr (s\<lparr>rt_rules := insert_row
        \<lparr>ar_id = i, ar_name = ri_name input, ar_priority = ri_priority input, ar_isActive = ri_isActive input,
         ar_criteria = ri_criteria input, ar_strategy = ri_strategy input, ar_targetUserIds = ri_targetUserIds input,
         ar_orgUnitId = ri_orgUnitId input, ar_roundRobinCursor = 0, ar_assignmentCount = 0, ar_lastAppliedAt = None\<rparr>
        (rt_rules s),
      rt_audit := insert_row (audit_entry ''CREATE'' ''assignment_rule'' i) (rt_audit s)\<rparr>))"

record rule_update =
  ru_name :: "string option"
  ru_priority :: "int option"
  ru_isActive :: "bool option"
  ru_criteria :: "assignment_criteria option"
  ru_strategy :: "assignment_strategy option"
  ru_targetUserIds :: "string list option"
  ru_orgUnitId :: "string option option"

definition apply_rule_update :: "rule_update \<Rightarrow> assignment_rule \<Rightarrow> assignment_rule" where
  "apply_rule_update input r =
    r\<lparr>ar_name := sent (ru_name input) (ar_name r), ar_priority := sent (ru_priority input) (ar_priority r),
      ar_isActive := sent (ru_isActive input) (ar_isActive r), ar_criteria := sent (ru_criteria input) (ar_criteria r),
      ar_strategy := sent (ru_strategy input) (ar_strategy r),
      ar_targetUserIds := sent (ru_targetUserIds input) (ar_targetUserIds r),
      ar_orgUnitId := sent (ru_orgUnitId input) (ar_orgUnitId r)\<rparr>"

definition updateRule :: "account list \<Rightarrow> string \<Rightarrow> rule_update \<Rightarrow> routing \<Rightarrow> routing result" where
  "updateRule users i input s =
    (if find_by ar_id i (rt_rules s) = None then Inl (NotFound ''Rule not found'')
     else and_then (case ru_targetUserIds input of None \<Rightarrow> Inr () | Some ids \<Rightarrow> assertTargetsAreAssignable users ids) (\<lambda>_.
       Inr (s\<lparr>rt_rules := update_by ar_id i (apply_rule_update input) (rt_rules s),
              rt_audit := insert_row (audit_entry ''UPDATE'' ''assignment_rule'' i) (rt_audit s)\<rparr>)))"

definition deleteRule :: "string \<Rightarrow> routing \<Rightarrow> routing result" where
  "deleteRule i s =
    (if find_by ar_id i (rt_rules s) = None then Inl (NotFound ''Not found'')
     else Inr (s\<lparr>rt_rules := delete_by ar_id i (rt_rules s),
                 rt_audit := insert_row (audit_entry ''DELETE'' ''assignment_rule'' i) (rt_audit s)\<rparr>))"

section \<open>The rule that decides, and whom it names\<close>

lemma by_number: "comparator (\<lambda>a b. f a - f b :: int)"
  by unfold_locales auto

lemma rule_order_comparator:
  assumes "comparator collate"
  shows "comparator (rule_order collate)"
  using comparator_cmp_or [OF by_number [of ar_priority] comparator_on [of collate ar_name]] assms
  unfolding rule_order_def by simp

lemma load_order_comparator:
  assumes "comparator collate"
  shows "comparator (load_order collate w)"
  using comparator_cmp_or [OF by_number [of "load_of w"]] assms unfolding load_order_def by simp

interpretation code_unit_rules: comparator "rule_order code_unit_order"
  by (rule rule_order_comparator) (rule code_units.comparator_axioms)

interpretation code_unit_loads: comparator "load_order code_unit_order w"
  by (rule load_order_comparator) (rule code_units.comparator_axioms)

lemma find_sorted_least:
  assumes "comparator c" and "find p (js_sort c xs) = Some x"
  shows "x \<in> set xs \<and> p x \<and> (\<forall>y \<in> set xs. p y \<longrightarrow> c x y \<le> 0)"
proof -
  have sorted: "sorted_wrt (\<lambda>x y. c x y \<le> 0) (js_sort c xs)" by (rule comparator.sorted_js_sort [OF assms(1)])
  have gen: "x \<in> set ys \<and> p x \<and> (\<forall>y \<in> set ys. p y \<longrightarrow> c x y \<le> 0)"
    if "sorted_wrt (\<lambda>x y. c x y \<le> 0) ys" "find p ys = Some x" for ys
    using that by (induction ys) (auto split: if_splits intro: comparator.refl [OF assms(1)])
  show ?thesis using gen [OF sorted assms(2)] by simp
qed

lemma selectRule_least:
  assumes "comparator collate" and "selectRule collate rules lead = Some r"
  shows "r \<in> set rules \<and> ar_isActive r \<and> ruleMatches r lead \<and>
    (\<forall>q \<in> set rules. ruleMatches q lead \<longrightarrow> rule_order collate r q \<le> 0)"
proof -
  have act: "ruleMatches q lead \<Longrightarrow> ar_isActive q" for q by (auto simp: ruleMatches_def Let_def split: if_splits)
  show ?thesis
    using find_sorted_least [OF rule_order_comparator [OF assms(1)] assms(2) [unfolded selectRule_def]] act by auto
qed

definition serves :: "account list \<Rightarrow> string \<Rightarrow> bool" where
  "serves users i \<longleftrightarrow> (\<exists>u \<in> set users. u_id u = i \<and> u_status u = ACTIVE \<and> u_deletedAt u = None)"

lemma activeUserIds_mem: "i \<in> set (activeUserIds users is) \<longleftrightarrow> i \<in> set is \<and> serves users i"
  by (auto simp: activeUserIds_def serves_def list_ex_iff)

lemma selectOwner_mem:
  "selectOwner collate strategy targets w cursor = Some i \<Longrightarrow> i \<in> set targets"
proof (cases targets)
  case (Cons t ts)
  have "hd (js_sort c targets) \<in> set targets" for c
    using hd_in_set [of "js_sort c targets"] Cons by (simp only: js_sort_Nil_iff set_js_sort) simp
  moreover have "targets ! (k mod length targets) \<in> set targets" for k
    using Cons by (intro nth_mem) simp
  moreover assume "selectOwner collate strategy targets w cursor = Some i"
  ultimately show ?thesis using Cons by (auto simp: selectOwner_def split: if_splits)
qed (simp add: selectOwner_def split: if_splits)

lemma load_of_workloads:
  assumes "i \<in> set is"
  shows "load_of (workloadsFor ls is) i = open_leads_of i ls"
proof -
  let ?us = "js_sort code_unit_order (filter (\<lambda>u. open_leads_of u ls > 0) (js_set is))"
  have gen: "find (\<lambda>w. ow_userId w = i) (map (\<lambda>u. \<lparr>ow_userId = u, ow_openLeads = open_leads_of u ls\<rparr>) us) =
      (if i \<in> set us then Some \<lparr>ow_userId = i, ow_openLeads = open_leads_of i ls\<rparr> else None)" for us
    by (induction us) auto
  have "open_leads_of i ls \<ge> 0" by (simp add: open_leads_of_def)
  then show ?thesis using assms by (auto simp: load_of_def workloadsFor_def gen)
qed

lemma active_serves: "activeUserIds users is = filter (serves users) is"
  by (simp add: activeUserIds_def serves_def [abs_def] list_ex_iff)

lemma load_balanced_least:
  assumes c: "comparator collate" and o: "selectOwner collate LOAD_BALANCED targets w cursor = Some i" and j: "j \<in> set targets"
  shows "load_of w i < load_of w j \<or> load_of w i = load_of w j \<and> collate i j \<le> 0"
proof -
  have "i = hd (js_sort (load_order collate w) targets)"
    using o j by (cases targets) (auto simp: selectOwner_def)
  then have "load_order collate w i j \<le> 0"
    using comparator.hd_js_sort_least [OF load_order_comparator [OF c] j] by simp
  then show ?thesis by (auto simp: load_order_def cmp_or_def split: if_splits)
qed

text \<open>
  C14. Routing does what the rule set says. The rule that decides is active, matches, and comes
  first by priority and then by name among all that match. The owner is one of its targets and an
  active account, the one its strategy names: the first active target under a fixed owner, the
  active target at the cursor, counted round, under a rotation, and under load balancing the active
  target with the fewest open leads, ties going to the id that sorts first. Nothing but that rule's
  counters changes, and the dry run names the same rule and the same person.
\<close>

theorem resolve_owner_correct:
  assumes "comparator collate"
    and r: "resolveOwner collate users ls now lead rules = ((Some i, Some rid), rules')"
  shows "\<exists>r \<in> set rules. ar_id r = rid \<and> ruleMatches r lead \<and>
    (\<forall>q \<in> set rules. ruleMatches q lead \<longrightarrow> rule_order collate r q \<le> 0) \<and>
    i \<in> set (ar_targetUserIds r) \<and> serves users i \<and>
    (let active = filter (serves users) (ar_targetUserIds r) in
     case ar_strategy r of
       FIXED_OWNER \<Rightarrow> i = hd active
     | ROUND_ROBIN \<Rightarrow> i = active ! (nat \<bar>ar_roundRobinCursor r\<bar> mod length active)
     | LOAD_BALANCED \<Rightarrow> (\<forall>j \<in> set active. open_leads_of i ls < open_leads_of j ls \<or>
         open_leads_of i ls = open_leads_of j ls \<and> collate i j \<le> 0)
     | LEAVE_UNASSIGNED \<Rightarrow> False) \<and>
    rules' = update_by ar_id rid (applied now) rules \<and>
    previewOwner collate users ls lead rules = (Some i, Some rid)"
proof -
  obtain r where r: "selectRule collate (filter ar_isActive rules) lead = Some r" "rule_owner collate users ls r = Some i"
      "rid = ar_id r" "rules' = update_by ar_id rid (applied now) rules"
    using r by (auto simp: resolveOwner_def split: option.splits if_splits)
  have act: "ruleMatches q lead \<Longrightarrow> ar_isActive q" for q by (auto simp: ruleMatches_def Let_def split: if_splits)
  note least = selectRule_least [OF assms(1) r(1)]
  have i: "i \<in> set (ar_targetUserIds r) \<and> serves users i"
    using selectOwner_mem [OF r(2) [unfolded rule_owner_def Let_def]] by (simp add: activeUserIds_mem)
  let ?active = "filter (serves users) (ar_targetUserIds r)"
  have load: "open_leads_of i ls < open_leads_of j ls \<or> open_leads_of i ls = open_leads_of j ls \<and> collate i j \<le> 0"
    if "ar_strategy r = LOAD_BALANCED" "j \<in> set ?active" for j
  proof -
    have "load_of (workloadsFor ls (ar_targetUserIds r)) i < load_of (workloadsFor ls (ar_targetUserIds r)) j \<or>
        load_of (workloadsFor ls (ar_targetUserIds r)) i = load_of (workloadsFor ls (ar_targetUserIds r)) j \<and> collate i j \<le> 0"
      by (rule load_balanced_least [OF assms(1), of ?active _ "ar_roundRobinCursor r"])
        (use r(2) that in \<open>simp_all add: rule_owner_def Let_def active_serves\<close>)
    then show ?thesis using load_of_workloads i that(2) by simp
  qed
  have strategy: "case ar_strategy r of
       FIXED_OWNER \<Rightarrow> i = hd ?active
     | ROUND_ROBIN \<Rightarrow> i = ?active ! (nat \<bar>ar_roundRobinCursor r\<bar> mod length ?active)
     | LOAD_BALANCED \<Rightarrow> (\<forall>j \<in> set ?active. open_leads_of i ls < open_leads_of j ls \<or>
         open_leads_of i ls = open_leads_of j ls \<and> collate i j \<le> 0)
     | LEAVE_UNASSIGNED \<Rightarrow> False"
  proof (cases "ar_strategy r")
    case LOAD_BALANCED
    then show ?thesis using load by simp
  next
    case ROUND_ROBIN
    then show ?thesis using r(2) by (cases ?active) (simp_all add: rule_owner_def selectOwner_def active_serves)
  next
    case FIXED_OWNER
    then show ?thesis using r(2) by (cases ?active) (simp_all add: rule_owner_def selectOwner_def active_serves)
  next
    case LEAVE_UNASSIGNED
    then show ?thesis using r(2) by (simp add: rule_owner_def selectOwner_def)
  qed
  obtain u where u: "find_by u_id i users = Some u" "u_id u = i"
    using i find_by_None_iff [of u_id i users] by (cases "find_by u_id i users") (auto simp: serves_def dest: find_by_SomeD)
  have "previewOwner collate users ls lead rules = (Some i, Some rid)"
    using r u by (simp add: previewOwner_def)
  then show ?thesis using least act i strategy r(3,4) unfolding Let_def by (intro bexI [of _ r] conjI) auto
qed

definition demo_rule :: "string \<Rightarrow> int \<Rightarrow> assignment_strategy \<Rightarrow> string list \<Rightarrow> assignment_rule" where
  "demo_rule name prio strategy targets =
    \<lparr>ar_id = name, ar_name = name, ar_priority = prio, ar_isActive = True,
     ar_criteria = \<lparr>ct_sources = Some [''WEBSITE''], ct_products = None, ct_cities = Some ['' Pune''], ct_states = None,
       ct_minScore = None, ct_campaignId = None\<rparr>,
     ar_strategy = strategy, ar_targetUserIds = targets, ar_orgUnitId = None, ar_roundRobinCursor = 0,
     ar_assignmentCount = 0, ar_lastAppliedAt = None\<rparr>"

definition demo_assignable :: assignable_lead where
  "demo_assignable = \<lparr>al_source = ''WEBSITE'', al_productInterest = [], al_city = Some ''PUNE'', al_state = None,
     al_score = None, al_campaignId = None\<rparr>"

definition demo_rules :: "assignment_rule list" where
  "demo_rules = [demo_rule ''late'' 200 FIXED_OWNER [''u2''], demo_rule ''rr'' 100 LOAD_BALANCED [''u2'', ''u1'']]"

definition demo_staff :: "account list" where
  "demo_staff = [demo_account ''u1'', demo_account ''u2'']"

lemma resolve_owner_correct_witness:
  "fst (resolveOwner code_unit_order demo_staff [] 0 demo_assignable demo_rules) = (Some ''u1'', Some ''rr'') \<and>
   previewOwner code_unit_order demo_staff [] demo_assignable demo_rules = (Some ''u1'', Some ''rr'')"
proof -
  have out: "resolveOwner code_unit_order demo_staff [] 0 demo_assignable demo_rules =
      ((Some ''u1'', Some ''rr''), update_by ar_id ''rr'' (applied 0) demo_rules)"
    by code_simp
  from resolve_owner_correct [OF code_units.comparator_axioms this]
  have "previewOwner code_unit_order demo_staff [] demo_assignable demo_rules = (Some ''u1'', Some ''rr'')" by blast
  with out show ?thesis by simp
qed

section \<open>Rotation\<close>

text \<open>Resolving one lead after another, as an import or a bulk capture does.\<close>

fun resolve_each ::
    "collation \<Rightarrow> account list \<Rightarrow> lead_row list \<Rightarrow> time \<Rightarrow> assignable_lead list \<Rightarrow> assignment_rule list \<Rightarrow> string option list" where
  "resolve_each collate users ls now [] rules = []"
| "resolve_each collate users ls now (lead # leads) rules =
    (let (outcome, rules') = resolveOwner collate users ls now lead rules
     in fst outcome # resolve_each collate users ls now leads rules')"

text \<open>The counters of a rule take no part in choosing it.\<close>

lemma matches_applied [simp]: "ruleMatches (applied now r) lead = ruleMatches r lead"
  by (simp add: ruleMatches_def applied_def Let_def)

lemma applied_fields [simp]:
  "ar_id (applied now r) = ar_id r" "ar_name (applied now r) = ar_name r"
  "ar_priority (applied now r) = ar_priority r" "ar_isActive (applied now r) = ar_isActive r"
  "ar_strategy (applied now r) = ar_strategy r" "ar_targetUserIds (applied now r) = ar_targetUserIds r"
  "ar_roundRobinCursor (applied now r) = ar_roundRobinCursor r + 1"
  by (simp_all add: applied_def)

lemma rule_order_applied [simp]:
  "rule_order collate (if p then applied now a else a) b = rule_order collate a b"
  "rule_order collate a (if q then applied now b else b) = rule_order collate a b"
  by (simp_all add: rule_order_def)

lemma js_sort_map:
  assumes "\<And>x y. cmp (f x) (f y) = cmp x y"
  shows "js_sort cmp (map f xs) = map f (js_sort cmp xs)"
proof -
  have "insert_cmp cmp (f x) (map f ys) = map f (insert_cmp cmp x ys)" for x ys
    by (induction ys) (auto simp: assms)
  then show ?thesis by (induction xs) auto
qed

lemma selectRule_applied:
  "selectRule collate (filter ar_isActive (update_by ar_id i (applied now) rules)) lead =
   map_option (\<lambda>r. if ar_id r = i then applied now r else r) (selectRule collate (filter ar_isActive rules) lead)"
proof -
  let ?f = "\<lambda>r. if ar_id r = i then applied now r else r"
  have act: "filter ar_isActive (map ?f rs) = map ?f (filter ar_isActive rs)" for rs
    by (induction rs) auto
  have match: "(\<lambda>r. ruleMatches r lead) \<circ> ?f = (\<lambda>r. ruleMatches r lead)" by (rule ext) auto
  show ?thesis
    by (simp add: selectRule_def update_by_def update_where_def act js_sort_map find_map match del: filter_filter)
qed

lemma resolve_round_robin:
  assumes "selectRule collate (filter ar_isActive rules) lead = Some r" and "ar_strategy r = ROUND_ROBIN"
    and "activeUserIds users (ar_targetUserIds r) = ts" and "ts \<noteq> []"
  shows "resolveOwner collate users ls now lead rules =
    ((Some (ts ! (nat \<bar>ar_roundRobinCursor r\<bar> mod length ts)), Some (ar_id r)),
     update_by ar_id (ar_id r) (applied now) rules)"
  using assms by (cases ts) (simp_all add: resolveOwner_def rule_owner_def selectOwner_def)

lemma resolve_each_rotates:
  assumes "\<And>lead. lead \<in> set leads \<Longrightarrow> selectRule collate (filter ar_isActive rules) lead = Some r"
    and "ar_strategy r = ROUND_ROBIN" and "activeUserIds users (ar_targetUserIds r) = ts" and "ts \<noteq> []"
    and "0 \<le> ar_roundRobinCursor r"
  shows "resolve_each collate users ls now leads rules =
    map (\<lambda>j. Some (ts ! ((nat (ar_roundRobinCursor r) + j) mod length ts))) [0..<length leads]"
  using assms
proof (induction leads arbitrary: rules r)
  case (Cons lead leads)
  let ?rules = "update_by ar_id (ar_id r) (applied now) rules"
  have "resolve_each collate users ls now leads ?rules =
      map (\<lambda>j. Some (ts ! ((nat (ar_roundRobinCursor (applied now r)) + j) mod length ts))) [0..<length leads]"
    by (rule Cons.IH) (use Cons.prems in \<open>auto simp: selectRule_applied\<close>)
  moreover have "[0..<length (lead # leads)] = 0 # map Suc [0..<length leads]"
    by (simp only: length_Cons upt_conv_Cons map_Suc_upt zero_less_Suc One_nat_def)
  ultimately show ?case
    using Cons.prems resolve_round_robin [of collate rules lead r users ts ls now]
    by (simp del: upt_Suc add: nat_add_distrib)
qed simp

text \<open>In a rotation of \<open>n\<close> places, any two places are visited equally often, up to one visit.\<close>

definition visits :: "nat \<Rightarrow> nat \<Rightarrow> nat \<Rightarrow> nat \<Rightarrow> nat" where
  "visits n c k i = count_list (map (\<lambda>j. (c + j) mod n) [0..<k]) i"

lemma visits_add: "visits n c (k + m) i = visits n c k i + visits n (c + k) m i"
proof (induction m)
  case (Suc m)
  have "visits n c (Suc l) i = visits n c l i + (if (c + l) mod n = i then 1 else 0)" for c l
    by (simp add: visits_def)
  then show ?case using Suc by (simp add: add.assoc)
qed (simp add: visits_def)

lemma count_list_upt: "count_list [0..<n] i = (if i < n then 1 else 0)"
  by (induction n) auto

lemma visits_full_turn: "i < n \<Longrightarrow> visits n c n i = 1"
proof (induction c)
  case 0
  have "map (\<lambda>j. (0 + j) mod n) [0..<n] = [0..<n]" by (rule map_idI) simp
  then show ?case using 0 by (simp add: visits_def count_list_upt)
next
  case (Suc c)
  have "visits n c (1 + n) i = visits n c (n + 1) i" by simp
  then have "visits n c 1 i + visits n (c + 1) n i = visits n c n i + visits n (c + n) 1 i"
    by (simp only: visits_add)
  moreover have "visits n (c + n) 1 i = visits n c 1 i" by (simp add: visits_def)
  ultimately show ?case using Suc by simp
qed

lemma visits_periodic: "visits n (c + n) k i = visits n c k i"
proof -
  have "(c + n + j) mod n = (c + j) mod n" for j by (metis add.assoc add.commute mod_add_self2)
  then show ?thesis by (simp add: visits_def)
qed

lemma visits_even: "i < n \<Longrightarrow> i' < n \<Longrightarrow> visits n c k i \<le> visits n c k i' + 1"
proof (induction k rule: less_induct)
  case (less k)
  show ?case
  proof (cases "k < n")
    case True
    then have "visits n c k i + visits n (c + k) (n - k) i = 1"
      using visits_add [of n c k "n - k" i] visits_full_turn [OF less.prems(1)] by simp
    then show ?thesis by simp
  next
    case False
    then obtain m where m: "k = n + m" by (metis le_Suc_ex not_less)
    have "visits n c m i \<le> visits n c m i' + 1" using less m by simp
    then show ?thesis using less.prems by (simp add: m visits_add visits_full_turn visits_periodic)
  qed
qed

lemma count_rotated:
  assumes "distinct ts" and "k < length ts" and "\<And>j. g j < length ts"
  shows "count_list (map (\<lambda>j. Some (ts ! g j)) js) (Some (ts ! k)) = count_list (map g js) k"
  using assms by (induction js) (auto simp: nth_eq_iff_index_eq)

text \<open>
  C15. A round-robin rule spreads the leads it decides evenly: over any run of leads routed one
  after the other by the same rule, no two active people of the rule differ by more than one lead.
  The rule's counters, which every resolution writes, never change which rule decides.
\<close>

theorem round_robin_is_even:
  assumes "\<And>lead. lead \<in> set leads \<Longrightarrow> selectRule collate (filter ar_isActive rules) lead = Some r"
    and "ar_strategy r = ROUND_ROBIN" and "distinct (ar_targetUserIds r)" and "0 \<le> ar_roundRobinCursor r"
    and "i \<in> set (ar_targetUserIds r)" and "serves users i"
    and "j \<in> set (ar_targetUserIds r)" and "serves users j"
  shows "count_list (resolve_each collate users ls now leads rules) (Some i) \<le>
    count_list (resolve_each collate users ls now leads rules) (Some j) + 1"
proof -
  let ?ts = "activeUserIds users (ar_targetUserIds r)"
  let ?n = "length ?ts" and ?c = "nat (ar_roundRobinCursor r)"
  have mem: "i \<in> set ?ts" "j \<in> set ?ts" using assms by (simp_all add: activeUserIds_mem)
  have d: "distinct ?ts" using assms(3) by (simp add: activeUserIds_def)
  obtain a b where a: "a < ?n" "?ts ! a = i" and b: "b < ?n" "?ts ! b = j"
    using mem by (auto simp: in_set_conv_nth)
  have run: "resolve_each collate users ls now leads rules =
      map (\<lambda>k. Some (?ts ! ((?c + k) mod ?n))) [0..<length leads]"
    by (rule resolve_each_rotates [where r = r]) (use assms(1,2,4) mem in auto)
  have "count_list (resolve_each collate users ls now leads rules) (Some (?ts ! k)) = visits ?n ?c (length leads) k"
    if "k < ?n" for k
    unfolding run visits_def by (rule count_rotated [OF d that]) (rule mod_less_divisor, use that in linarith)
  then show ?thesis using visits_even [OF a(1) b(1), of ?c "length leads"] a b by metis
qed

definition demo_rotation :: "assignment_rule list" where
  "demo_rotation = [demo_rule ''late'' 200 FIXED_OWNER [''u2''], demo_rule ''turns'' 100 ROUND_ROBIN [''u2'', ''u1'']]"

lemma round_robin_is_even_witness:
  "count_list (resolve_each code_unit_order demo_staff [] 0 [demo_assignable, demo_assignable, demo_assignable] demo_rotation)
     (Some ''u2'') \<le>
   count_list (resolve_each code_unit_order demo_staff [] 0 [demo_assignable, demo_assignable, demo_assignable] demo_rotation)
     (Some ''u1'') + 1"
proof (rule round_robin_is_even)
  show "\<And>lead. lead \<in> set [demo_assignable, demo_assignable, demo_assignable] \<Longrightarrow>
      selectRule code_unit_order (filter ar_isActive demo_rotation) lead =
      Some (demo_rule ''turns'' 100 ROUND_ROBIN [''u2'', ''u1''])"
  proof -
    have "selectRule code_unit_order (filter ar_isActive demo_rotation) demo_assignable =
        Some (demo_rule ''turns'' 100 ROUND_ROBIN [''u2'', ''u1''])"
      by code_simp
    then show "\<And>lead. lead \<in> set [demo_assignable, demo_assignable, demo_assignable] \<Longrightarrow>
      selectRule code_unit_order (filter ar_isActive demo_rotation) lead =
      Some (demo_rule ''turns'' 100 ROUND_ROBIN [''u2'', ''u1''])" by auto
  qed
qed (simp_all add: demo_rule_def demo_staff_def serves_def demo_account_def)

end
