(* ===== verification/Tasks.thy ===== *)
theory Tasks
  imports Pipeline
begin

text \<open>
  Tasks: \<open>apps/api/src/modules/tasks/tasks.service.ts\<close> and \<open>follow-up-task.ts\<close>, over the status
  master that gives a status its class. The references drawn from the counter are parameters.
\<close>

section \<open>Rows\<close>

datatype task_category = OPEN_TASK | IN_PROGRESS_TASK | DONE_TASK | CANCELLED_TASK

record task_status_master =
  tm_code :: string
  tm_category :: task_category
  tm_isActive :: bool

record task_row =
  tk_id :: string
  tk_reference :: string
  tk_entityType :: "string option"
  tk_entityId :: "string option"
  tk_title :: string
  tk_description :: "string option"
  tk_status :: string
  tk_priority :: string
  tk_dueAt :: time
  tk_assigneeId :: "string option"
  tk_createdById :: "string option"
  tk_completedAt :: "time option"
  tk_completionNote :: "string option"
  tk_attendees :: "string list"
  tk_deletedAt :: "time option"

record task_state =
  ts_tasks :: "task_row list"
  ts_statuses :: "task_status_master list"
  ts_crm :: crm

interpretation task_table: repository "find_by tk_id" "update_by tk_id" insert_row tk_id
  by (rule repository_by)

interpretation task_statuses: repository "find_by tm_code" "update_by tm_code" insert_row tm_code
  by (rule repository_by)

definition TERMINAL_CATEGORIES :: "task_category list" where
  "TERMINAL_CATEGORIES = [DONE_TASK, CANCELLED_TASK]"

definition terminal :: "task_category \<Rightarrow> bool" where
  "terminal c \<longleftrightarrow> c \<in> set TERMINAL_CATEGORIES"

text \<open>The class of a task's status; a status without a master row counts as open.\<close>

definition category_of :: "task_status_master list \<Rightarrow> task_row \<Rightarrow> task_category" where
  "category_of ms t = (case find_by tm_code (tk_status t) ms of None \<Rightarrow> OPEN_TASK | Some m \<Rightarrow> tm_category m)"

text \<open>The relation filter \<open>statusMaster: { category: { in: [...] } }\<close> needs the master row.\<close>

definition in_category :: "task_status_master list \<Rightarrow> task_category list \<Rightarrow> task_row \<Rightarrow> bool" where
  "in_category ms cs t = (case find_by tm_code (tk_status t) ms of None \<Rightarrow> False | Some m \<Rightarrow> tm_category m \<in> set cs)"

definition live_task :: "task_status_master list \<Rightarrow> task_row \<Rightarrow> bool" where
  "live_task ms t \<longleftrightarrow> tk_deletedAt t = None \<and> in_category ms [OPEN_TASK, IN_PROGRESS_TASK] t"

definition task_scope_row :: "task_row \<Rightarrow> scoped_row" where
  "task_scope_row t =
    \<lparr>sr_id = tk_id t,
     sr_column = (\<lambda>c. case c of AssigneeId \<Rightarrow> tk_assigneeId t | CreatedById \<Rightarrow> tk_createdById t | _ \<Rightarrow> None),
     sr_orgUnitId = None, sr_attendees = tk_attendees t\<rparr>"

definition sees_task :: "principal \<Rightarrow> task_row \<Rightarrow> bool" where
  "sees_task user t \<longleftrightarrow> tk_deletedAt t = None \<and> matches [] (taskScope user) (task_scope_row t)"

section \<open>Creating and updating\<close>

record create_task_input =
  ct_entityType :: "string option"
  ct_entityId :: "string option"
  ct_title :: string
  ct_description :: "string option"
  ct_assigneeId :: "string option"
  ct_dueAt :: time
  ct_priority :: string

text \<open>An entry on the timeline of the entity a task or a visit is about.\<close>

definition log_activity :: "string \<Rightarrow> string \<Rightarrow> string \<Rightarrow> string option \<Rightarrow> string \<Rightarrow> bool \<Rightarrow> crm \<Rightarrow> crm" where
  "log_activity entityType entityId type body actor generated s =
    s\<lparr>cr_activities := insert_row
        \<lparr>el_entityType = entityType, el_entityId = entityId, ac_type = type, ac_body = body,
         ac_actorId = Some actor, ac_isSystemGenerated = generated\<rparr> (cr_activities s)\<rparr>"

definition audit_of :: "string \<Rightarrow> string \<Rightarrow> string option \<Rightarrow> string \<Rightarrow> crm \<Rightarrow> crm" where
  "audit_of action resource reason i s =
    s\<lparr>cr_audit := insert_row ((audit_entry action resource i)\<lparr>au_reason := reason\<rparr>) (cr_audit s)\<rparr>"

definition new_task :: "string \<Rightarrow> string \<Rightarrow> principal \<Rightarrow> create_task_input \<Rightarrow> task_row" where
  "new_task i reference user input =
    \<lparr>tk_id = i, tk_reference = reference, tk_entityType = ct_entityType input, tk_entityId = ct_entityId input,
     tk_title = ct_title input, tk_description = ct_description input, tk_status = ''OPEN'',
     tk_priority = ct_priority input, tk_dueAt = ct_dueAt input,
     tk_assigneeId = Some (case ct_assigneeId input of None \<Rightarrow> pr_id user | Some a \<Rightarrow> a),
     tk_createdById = Some (pr_id user), tk_completedAt = None, tk_completionNote = None, tk_attendees = [],
     tk_deletedAt = None\<rparr>"

definition task_note :: "task_row \<Rightarrow> string option \<Rightarrow> string \<Rightarrow> crm \<Rightarrow> crm" where
  "task_note t body actor s =
    (if truthy (tk_entityType t) \<and> truthy (tk_entityId t)
     then log_activity (the (tk_entityType t)) (the (tk_entityId t)) ''SYSTEM'' body actor True s else s)"

text \<open>\<open>show_due\<close> is the host's date formatting.\<close>

definition create_task ::
    "(time \<Rightarrow> string) \<Rightarrow> principal \<Rightarrow> string \<Rightarrow> string \<Rightarrow> create_task_input \<Rightarrow> task_state \<Rightarrow> task_state result" where
  "create_task show_due user i reference input s =
    (let assigneeId = (case ct_assigneeId input of None \<Rightarrow> pr_id user | Some a \<Rightarrow> a) in
     if \<not> canAssignTo user assigneeId then Inl (BadRequest ''Cannot assign that task'')
     else
       let t = new_task i reference user input;
           c = task_note t (Some (''Due '' @ show_due (tk_dueAt t))) (pr_id user) (ts_crm s);
           c = audit_of ''CREATE'' ''task'' None i (publish i ''task.assigned'' c)
       in Inr (s\<lparr>ts_tasks := insert_row t (ts_tasks s), ts_crm := c\<rparr>))"

record update_task_input =
  ut_title :: "string option"
  ut_description :: "string option"
  ut_assigneeId :: "string option"
  ut_dueAt :: "time option"
  ut_priority :: "string option"
  ut_status :: "string option"
  ut_completionNote :: "string option"

definition apply_task_update :: "time \<Rightarrow> bool \<Rightarrow> update_task_input \<Rightarrow> task_row \<Rightarrow> task_row" where
  "apply_task_update now completing input t =
    t\<lparr>tk_title := sent (ut_title input) (tk_title t),
      tk_description := or_else (ut_description input) (tk_description t),
      tk_assigneeId := or_else (ut_assigneeId input) (tk_assigneeId t),
      tk_dueAt := sent (ut_dueAt input) (tk_dueAt t),
      tk_priority := sent (ut_priority input) (tk_priority t),
      tk_status := sent (ut_status input) (tk_status t),
      tk_completionNote := or_else (ut_completionNote input) (tk_completionNote t),
      tk_completedAt := (if completing then Some now else tk_completedAt t)\<rparr>"

definition next_category :: "task_status_master list \<Rightarrow> update_task_input \<Rightarrow> task_category option" where
  "next_category ms input =
    (if truthy (ut_status input) then map_option tm_category (find_by tm_code (the (ut_status input)) ms) else None)"

definition update_task ::
    "time \<Rightarrow> principal \<Rightarrow> string \<Rightarrow> update_task_input \<Rightarrow> task_state \<Rightarrow> task_state result" where
  "update_task now user i input s =
    (case find (\<lambda>t. tk_id t = i \<and> sees_task user t) (ts_tasks s) of
       None \<Rightarrow> Inl (NotFound ''Task not found'')
     | Some t \<Rightarrow>
         (let current = category_of (ts_statuses s) t;
              next_cat = next_category (ts_statuses s) input in
          if truthy (ut_status input) \<and> next_cat = None then Inl (BadRequest ''Unknown status'')
          else if terminal current \<and> next_cat \<noteq> None \<and> \<not> terminal (the next_cat)
            then Inl (BadRequest ''Task is closed'')
          else if truthy (ut_assigneeId input) \<and> \<not> canAssignTo user (the (ut_assigneeId input))
            then Inl (BadRequest ''Cannot reassign to that user'')
          else
            let completing = (next_cat = Some DONE_TASK \<and> current \<noteq> DONE_TASK);
                updated = apply_task_update now completing input t;
                c = (if completing then task_note updated (tk_completionNote updated) (pr_id user) (ts_crm s)
                     else ts_crm s)
            in Inr (s\<lparr>ts_tasks := update_by tk_id i (apply_task_update now completing input) (ts_tasks s),
                      ts_crm := audit_of ''UPDATE'' ''task'' None i c\<rparr>)))"

record task_summary =
  sm_open :: nat
  sm_overdue :: nat
  sm_dueToday :: nat
  sm_completedThisWeek :: nat

text \<open>\<open>endOfToday\<close> is computed in the time zone of the process.\<close>

definition task_summary_of :: "time \<Rightarrow> time \<Rightarrow> principal \<Rightarrow> task_state \<Rightarrow> task_summary" where
  "task_summary_of now endOfToday user s =
    (let mine = filter (sees_task user) (ts_tasks s);
         opened = in_category (ts_statuses s) [OPEN_TASK, IN_PROGRESS_TASK]
     in \<lparr>sm_open = count_where opened mine,
         sm_overdue = count_where (\<lambda>t. opened t \<and> tk_dueAt t < now) mine,
         sm_dueToday = count_where (\<lambda>t. opened t \<and> now \<le> tk_dueAt t \<and> tk_dueAt t \<le> endOfToday) mine,
         sm_completedThisWeek = count_where (\<lambda>t. in_category (ts_statuses s) [DONE_TASK] t \<and>
           tk_completedAt t \<noteq> None \<and> the (tk_completedAt t) \<ge> now - 7 * 86400000) mine\<rparr>)"

section \<open>Follow-ups\<close>

definition TITLE_LIMIT :: nat where "TITLE_LIMIT = 160"
definition PREFIX :: string where "PREFIX = ''Follow up: ''"

definition trim_end :: "string \<Rightarrow> string" where
  "trim_end s = rev (dropWhile is_space (rev s))"

text \<open>The ellipsis is one UTF-16 unit outside the modelled characters, a parameter here.\<close>

definition followUpTaskTitle :: "char \<Rightarrow> string \<Rightarrow> string" where
  "followUpTaskTitle ellipsis context =
    (let trimmed = js_trim context in
     if trimmed = [] then ''Follow up''
     else let room = TITLE_LIMIT - length PREFIX in
       if length trimmed \<le> room then PREFIX @ trimmed
       else PREFIX @ trim_end (take (room - 1) trimmed) @ [ellipsis])"

definition createFollowUpTask ::
    "char \<Rightarrow> string \<Rightarrow> string \<Rightarrow> string \<Rightarrow> string \<Rightarrow> time \<Rightarrow> string \<Rightarrow> string \<Rightarrow> string \<Rightarrow> task_state \<Rightarrow> task_state" where
  "createFollowUpTask ellipsis i reference entityType entityId dueAt context assigneeId createdById s =
    s\<lparr>ts_tasks := insert_row
        \<lparr>tk_id = i, tk_reference = reference, tk_entityType = Some entityType, tk_entityId = Some entityId,
         tk_title = followUpTaskTitle ellipsis context, tk_description = None, tk_status = ''OPEN'',
         tk_priority = ''MEDIUM'', tk_dueAt = dueAt, tk_assigneeId = Some assigneeId,
         tk_createdById = Some createdById, tk_completedAt = None, tk_completionNote = None, tk_attendees = [],
         tk_deletedAt = None\<rparr> (ts_tasks s),
      ts_crm := publish i ''task.assigned'' (ts_crm s)\<rparr>"

text \<open>The title always fits its column, whatever the purpose of the visit was.\<close>

lemma length_trim_end: "length (trim_end s) \<le> length s"
  unfolding trim_end_def by (metis length_dropWhile_le length_rev)

lemma followUpTaskTitle_fits: "length (followUpTaskTitle e c) \<le> TITLE_LIMIT"
  using length_trim_end [of "take (TITLE_LIMIT - length PREFIX - 1) (js_trim c)"]
  by (auto simp: followUpTaskTitle_def Let_def TITLE_LIMIT_def PREFIX_def)

section \<open>A closed task stays closed\<close>

text \<open>
  The requests on tasks, over a status master that does not change. A status is never sent as an
  empty string: the request schema admits the status codes only.
\<close>

inductive task_step :: "task_state \<Rightarrow> task_state \<Rightarrow> bool" where
  step_create: "i \<notin> tk_id ` set (ts_tasks s) \<Longrightarrow> create_task show_due user i reference input s = Inr s' \<Longrightarrow> task_step s s'"
| step_update: "ut_status uinput \<noteq> Some [] \<Longrightarrow> update_task now user i uinput s = Inr s' \<Longrightarrow> task_step s s'"
| step_follow_up: "i \<notin> tk_id ` set (ts_tasks s) \<Longrightarrow>
    task_step s (createFollowUpTask e i reference et ei due context a b s)"

definition closed_task :: "task_status_master list \<Rightarrow> task_row \<Rightarrow> bool" where
  "closed_task ms t \<longleftrightarrow> terminal (category_of ms t)"

lemma update_task_row:
  assumes u: "keys_unique tk_id (ts_tasks s)" and r: "update_task now user i input s = Inr s'"
  obtains t completing where "find_by tk_id i (ts_tasks s) = Some t" "sees_task user t"
    "ts_tasks s' = update_by tk_id i (apply_task_update now completing input) (ts_tasks s)"
    "ts_statuses s' = ts_statuses s"
    "terminal (category_of (ts_statuses s) t) \<Longrightarrow> truthy (ut_status input) \<Longrightarrow>
       \<exists>m. find_by tm_code (the (ut_status input)) (ts_statuses s) = Some m \<and> terminal (tm_category m)"
proof -
  obtain t where t: "find (\<lambda>t. tk_id t = i \<and> sees_task user t) (ts_tasks s) = Some t"
    using r by (auto simp: update_task_def split: option.splits)
  then have mem: "t \<in> set (ts_tasks s)" "tk_id t = i" "sees_task user t"
    by (auto simp: find_Some_iff)
  from find_by_unique [OF u mem(1)] mem(2) have f: "find_by tk_id i (ts_tasks s) = Some t" by simp
  show ?thesis
    by (rule that [OF f mem(3), of "next_category (ts_statuses s) input = Some DONE_TASK \<and> category_of (ts_statuses s) t \<noteq> DONE_TASK"]) (use r t in \<open>auto simp: update_task_def next_category_def Let_def split: if_splits\<close>)
qed

lemma find_by_insert_other:
  "key r \<notin> key ` set rows \<Longrightarrow> find_by key i rows = Some x \<Longrightarrow> find_by key i (insert_row r rows) = Some x"
  by (simp add: find_by_insert_row)

lemma apply_task_update_id [simp]: "tk_id (apply_task_update now c input t) = tk_id t"
  by (simp add: apply_task_update_def)

text \<open>What a step does to the task table: a new row, or one row updated.\<close>

lemma task_step_rows:
  assumes "task_step s s'" and u: "keys_unique tk_id (ts_tasks s)"
  obtains (added) r where "tk_id r \<notin> tk_id ` set (ts_tasks s)" "ts_tasks s' = insert_row r (ts_tasks s)" "ts_statuses s' = ts_statuses s"
  | (updated) t i now c input where "find_by tk_id i (ts_tasks s) = Some t" "ut_status input \<noteq> Some []"
    "ts_tasks s' = update_by tk_id i (apply_task_update now c input) (ts_tasks s)" "ts_statuses s' = ts_statuses s"
    "terminal (category_of (ts_statuses s) t) \<Longrightarrow> truthy (ut_status input) \<Longrightarrow>
       \<exists>m. find_by tm_code (the (ut_status input)) (ts_statuses s) = Some m \<and> terminal (tm_category m)"
  using assms(1)
proof (cases rule: task_step.cases)
  case (step_create i show_due user reference input)
  have "tk_id (new_task i reference user input) \<notin> tk_id ` set (ts_tasks s)"
    using step_create(1) by (simp add: new_task_def)
  then show ?thesis
    by (rule added) (use step_create(2) in \<open>auto simp: create_task_def Let_def split: if_splits\<close>)
next
  case (step_update uinput now user i)
  show ?thesis
    by (rule update_task_row [OF u step_update(2)]) (rule updated [OF _ step_update(1)])
next
  case (step_follow_up i e reference ei et due purpose a b)
  then show ?thesis by (intro added [of "\<lparr>tk_id = i, tk_reference = reference, tk_entityType = Some ei, tk_entityId = Some et,
         tk_title = followUpTaskTitle e purpose, tk_description = None, tk_status = ''OPEN'',
         tk_priority = ''MEDIUM'', tk_dueAt = due, tk_assigneeId = Some a,
         tk_createdById = Some b, tk_completedAt = None, tk_completionNote = None, tk_attendees = [],
         tk_deletedAt = None\<rparr>"]) (simp_all add: createFollowUpTask_def)
qed

lemma closed_update:
  assumes "closed_task ms t" and "ut_status input \<noteq> Some []"
    and "truthy (ut_status input) \<Longrightarrow> \<exists>m. find_by tm_code (the (ut_status input)) ms = Some m \<and> terminal (tm_category m)"
  shows "closed_task ms (apply_task_update now c input t)"
proof (cases "ut_status input")
  case None
  then show ?thesis using assms(1) by (simp add: closed_task_def category_of_def apply_task_update_def sent_def)
next
  case (Some v)
  then have "truthy (ut_status input)" using assms(2) by (cases v) (simp_all add: truthy_def)
  then show ?thesis
    using assms(3) Some by (auto simp: closed_task_def category_of_def apply_task_update_def sent_def)
qed

lemma task_step_keeps:
  assumes st: "task_step s s'" and u: "keys_unique tk_id (ts_tasks s)"
  shows "keys_unique tk_id (ts_tasks s') \<and> ts_statuses s' = ts_statuses s \<and>
    (\<forall>t. find_by tk_id j (ts_tasks s) = Some t \<and> closed_task (ts_statuses s) t \<longrightarrow>
      (\<exists>t'. find_by tk_id j (ts_tasks s') = Some t' \<and> closed_task (ts_statuses s) t'))"
  by (rule task_step_rows [OF st u])
    (use u in \<open>auto simp: find_by_insert_other find_by_update_by closed_task_def [symmetric] intro: closed_update\<close>)

text \<open>
  A task that is done or cancelled is never reopened: through any requests, by anybody, its
  status stays one of a closing class, whatever codes an administrator has added to the classes.
\<close>

theorem closed_task_never_reopens:
  assumes "task_step\<^sup>*\<^sup>* s s'" and "keys_unique tk_id (ts_tasks s)"
    and "find_by tk_id i (ts_tasks s) = Some t" and "closed_task (ts_statuses s) t"
  shows "\<exists>t'. find_by tk_id i (ts_tasks s') = Some t' \<and> closed_task (ts_statuses s') t'"
proof -
  have "keys_unique tk_id (ts_tasks s') \<and> ts_statuses s' = ts_statuses s \<and>
      (\<exists>t'. find_by tk_id i (ts_tasks s') = Some t' \<and> closed_task (ts_statuses s) t')"
    using assms(1)
  proof (induction rule: rtranclp_induct)
    case base
    then show ?case using assms(2-4) by blast
  next
    case (step y z)
    then show ?case using task_step_keeps [OF step(2), of i] by (metis (no_types, lifting))
  qed
  then show ?thesis by metis
qed

definition demo_task_input :: create_task_input where
  "demo_task_input = \<lparr>ct_entityType = Some ''LEAD'', ct_entityId = Some ''l1'', ct_title = ''Call back'', ct_description = None,
     ct_assigneeId = None, ct_dueAt = 500, ct_priority = ''MEDIUM''\<rparr>"

definition demo_status_change :: "string \<Rightarrow> update_task_input" where
  "demo_status_change code = \<lparr>ut_title = None, ut_description = None, ut_assigneeId = None, ut_dueAt = None,
     ut_priority = None, ut_status = Some code, ut_completionNote = None\<rparr>"

definition demo_tasks :: task_state where
  "demo_tasks = \<lparr>ts_tasks = [], ts_statuses = [\<lparr>tm_code = ''OPEN'', tm_category = OPEN_TASK, tm_isActive = True\<rparr>,
      \<lparr>tm_code = ''DONE'', tm_category = DONE_TASK, tm_isActive = True\<rparr>,
      \<lparr>tm_code = ''NO_REPLY'', tm_category = CANCELLED_TASK, tm_isActive = True\<rparr>], ts_crm = demo_lead_state\<rparr>"

definition task_after :: "task_state result \<Rightarrow> task_state" where
  "task_after r = (case r of Inl e \<Rightarrow> demo_tasks | Inr s \<Rightarrow> s)"

definition demo_done :: task_state where
  "demo_done = task_after (update_task 10 demo_rep ''t1'' (demo_status_change ''DONE'')
     (task_after (create_task (\<lambda>t. []) demo_rep ''t1'' ''TK1'' demo_task_input demo_tasks)))"

definition demo_cancelled_after :: task_state where
  "demo_cancelled_after = task_after (update_task 20 demo_rep ''t1'' (demo_status_change ''NO_REPLY'') demo_done)"

lemma closed_task_never_reopens_witness:
  "\<exists>t. find_by tk_id ''t1'' (ts_tasks demo_cancelled_after) = Some t \<and> closed_task (ts_statuses demo_cancelled_after) t"
proof -
  let ?t = "the (find_by tk_id ''t1'' (ts_tasks demo_done))"
  have "update_task 20 demo_rep ''t1'' (demo_status_change ''NO_REPLY'') demo_done = Inr demo_cancelled_after"
    by code_simp
  then have step: "task_step\<^sup>*\<^sup>* demo_done demo_cancelled_after"
    by (intro r_into_rtranclp step_update) (auto simp: demo_status_change_def)
  have u: "keys_unique tk_id (ts_tasks demo_done)" by code_simp
  have t: "find_by tk_id ''t1'' (ts_tasks demo_done) = Some ?t" by code_simp
  have c: "closed_task (ts_statuses demo_done) ?t" by code_simp
  show ?thesis by (rule closed_task_never_reopens [OF step u t c])
qed

end
