(* ===== verification/Visits.thy ===== *)
theory Visits
  imports Tasks
begin

text \<open>
  Field visits: \<open>packages/contracts/src/visit.ts\<close>, \<open>geo.ts\<close> and \<open>attendee.ts\<close>, and the service
  \<open>apps/api/src/modules/visits/visits.service.ts\<close>. Coordinates and accuracies are real numbers;
  what the object store holds is a parameter. Device details are not modelled.
\<close>

section \<open>Geometry\<close>

record coordinates =
  latitude :: real
  longitude :: real

definition EARTH_RADIUS_METRES :: real where
  "EARTH_RADIUS_METRES = 6371008.8"

definition toRadians :: "real \<Rightarrow> real" where
  "toRadians degrees = degrees * pi / 180"

definition haversine_term :: "coordinates \<Rightarrow> coordinates \<Rightarrow> real" where
  "haversine_term a b =
    (let dLat = toRadians (latitude b - latitude a);
         dLon = toRadians (longitude b - longitude a)
     in (sin (dLat / 2))\<^sup>2 + (sin (dLon / 2))\<^sup>2 * cos (toRadians (latitude a)) * cos (toRadians (latitude b)))"

text \<open>\<open>Math.round\<close> rounds halves up.\<close>

definition distanceInMetres :: "coordinates \<Rightarrow> coordinates \<Rightarrow> int" where
  "distanceInMetres a b = \<lfloor>2 * EARTH_RADIUS_METRES * arcsin (sqrt (haversine_term a b)) + 1 / 2\<rfloor>"

lemma haversine_commute: "haversine_term a b = haversine_term b a"
proof -
  have half: "(sin (toRadians (x - y) / 2))\<^sup>2 = (sin (toRadians (y - x) / 2))\<^sup>2" for x y :: real
  proof -
    have "toRadians (x - y) / 2 = - (toRadians (y - x) / 2)" by (simp add: toRadians_def field_simps)
    then show ?thesis by (metis power2_minus sin_minus)
  qed
  show ?thesis
    using half [of "latitude b" "latitude a"] half [of "longitude b" "longitude a"]
    by (simp add: haversine_term_def Let_def mult_ac)
qed

lemma distance_commute: "distanceInMetres a b = distanceInMetres b a"
  by (simp add: distanceInMetres_def haversine_commute [of a b])

lemma distance_same: "distanceInMetres a a = 0"
  by (simp add: distanceInMetres_def haversine_term_def toRadians_def)

datatype location_quality = PRECISE | GOOD | APPROXIMATE | UNRELIABLE

definition locationQuality :: "real option \<Rightarrow> location_quality" where
  "locationQuality accuracyMetres =
    (case accuracyMetres of
       None \<Rightarrow> UNRELIABLE
     | Some a \<Rightarrow> if a \<le> 25 then PRECISE else if a \<le> 100 then GOOD else if a \<le> 1000 then APPROXIMATE else UNRELIABLE)"

definition VISIT_DRIFT_REVIEW_THRESHOLD_METRES :: int where
  "VISIT_DRIFT_REVIEW_THRESHOLD_METRES = 1000"

text \<open>The reasons a manager is shown, without their wording.\<close>

datatype review_reason = Drifted | NoLocation | TooImprecise | UnderTwoMinutes

record visit_integrity =
  vi_driftMetres :: "int option"
  vi_reasons :: "review_reason list"

definition requiresReview :: "visit_integrity \<Rightarrow> bool" where
  "requiresReview v \<longleftrightarrow> vi_reasons v \<noteq> []"

definition assessVisitIntegrity ::
    "coordinates option \<Rightarrow> coordinates option \<Rightarrow> real option \<Rightarrow> real option \<Rightarrow> int option \<Rightarrow> bool \<Rightarrow> bool \<Rightarrow> visit_integrity" where
  "assessVisitIntegrity checkInAt checkOutAt checkInAccuracy checkOutAccuracy durationMinutes hasCheckedIn expectsLocation =
    (let drift = (case (checkInAt, checkOutAt) of (Some a, Some b) \<Rightarrow> Some (distanceInMetres a b) | _ \<Rightarrow> None);
         uncertainty = (case checkInAccuracy of None \<Rightarrow> 0 | Some a \<Rightarrow> a) + (case checkOutAccuracy of None \<Rightarrow> 0 | Some a \<Rightarrow> a);
         drifted = (case drift of None \<Rightarrow> [] | Some d \<Rightarrow>
           if d > VISIT_DRIFT_REVIEW_THRESHOLD_METRES \<and> of_int d > uncertainty then [Drifted] else []);
         placed = (if hasCheckedIn \<and> expectsLocation then
           (if checkInAccuracy = None then [NoLocation]
            else if locationQuality checkInAccuracy = UNRELIABLE then [TooImprecise] else []) else []);
         brief = (case durationMinutes of None \<Rightarrow> [] | Some d \<Rightarrow> if d < 2 then [UnderTwoMinutes] else [])
     in \<lparr>vi_driftMetres = drift, vi_reasons = drifted @ placed @ brief\<rparr>)"

section \<open>Rows\<close>

datatype visit_status = PLANNED | CHECKED_IN | COMPLETED | CANCELLED | MISSED

fun VISIT_STATUS_TRANSITIONS :: "visit_status \<Rightarrow> visit_status list" where
  "VISIT_STATUS_TRANSITIONS PLANNED = [CHECKED_IN, CANCELLED, MISSED]"
| "VISIT_STATUS_TRANSITIONS CHECKED_IN = [COMPLETED]"
| "VISIT_STATUS_TRANSITIONS COMPLETED = []"
| "VISIT_STATUS_TRANSITIONS CANCELLED = []"
| "VISIT_STATUS_TRANSITIONS MISSED = []"

definition canTransitionVisit :: "visit_status \<Rightarrow> visit_status \<Rightarrow> bool" where
  "canTransitionVisit from_status to_status \<longleftrightarrow> to_status \<in> set (VISIT_STATUS_TRANSITIONS from_status)"

definition canRescheduleVisit :: "visit_status \<Rightarrow> bool" where
  "canRescheduleVisit s \<longleftrightarrow> s = PLANNED"

datatype location_failure = DENIED | UNAVAILABLE | TIMEOUT | IMPRECISE | UNSUPPORTED
datatype location_status = VERIFIED | UNVERIFIED

record meeting_mode =
  mm_code :: string
  mm_requiresPhoto :: bool
  mm_requiresGeo :: bool
  mm_requiresLink :: bool
  mm_allowsScreenshot :: bool
  mm_isActive :: bool

record evidence_rules =
  er_photo :: bool
  er_geo :: bool
  er_link :: bool
  er_screenshot :: bool

definition visitEvidenceRules :: "meeting_mode option \<Rightarrow> evidence_rules" where
  "visitEvidenceRules mode =
    (case mode of
       None \<Rightarrow> \<lparr>er_photo = True, er_geo = True, er_link = False, er_screenshot = False\<rparr>
     | Some m \<Rightarrow> \<lparr>er_photo = mm_requiresPhoto m, er_geo = mm_requiresGeo m, er_link = mm_requiresLink m,
                  er_screenshot = mm_allowsScreenshot m\<rparr>)"

record visit_row =
  v_id :: string
  v_reference :: string
  v_entityType :: string
  v_entityId :: string
  v_userId :: string
  v_status :: visit_status
  v_purpose :: string
  v_mode :: string
  v_plannedAt :: "time option"
  v_checkInAt :: "time option"
  v_checkInLatitude :: "real option"
  v_checkInLongitude :: "real option"
  v_checkInAccuracy :: "real option"
  v_locationStatus :: "location_status option"
  v_locationReason :: "location_failure option"
  v_checkInAddress :: "string option"
  v_checkInPhotoKey :: "string option"
  v_checkOutAt :: "time option"
  v_checkOutLatitude :: "real option"
  v_checkOutLongitude :: "real option"
  v_checkOutAccuracy :: "real option"
  v_durationMinutes :: "int option"
  v_meetingNotes :: "string option"
  v_outcome :: "string option"
  v_nextFollowUpAt :: "time option"
  v_voiceNoteKey :: "string option"

record attendee_row =
  at_id :: string
  at_visitId :: string
  at_userId :: string
  at_role :: string
  at_addedById :: string
  at_confirmedAt :: "time option"

record visit_expense =
  xp_id :: string
  xp_visitId :: string
  xp_category :: string
  xp_amount :: rat
  xp_note :: "string option"
  xp_receiptKey :: "string option"
  xp_claimedById :: string

record visit_state =
  vs_visits :: "visit_row list"
  vs_attendees :: "attendee_row list"
  vs_modes :: "meeting_mode list"
  vs_expenses :: "visit_expense list"
  vs_tasks :: task_state

interpretation visit_table: repository "find_by v_id" "update_by v_id" insert_row v_id
  by (rule repository_by)

interpretation mode_table: repository "find_by mm_code" "update_by mm_code" insert_row mm_code
  by (rule repository_by)

interpretation attendee_table: repository "find_by at_id" "update_by at_id" insert_row at_id
  by (rule repository_by)

abbreviation vs_crm :: "visit_state \<Rightarrow> crm" where
  "vs_crm s \<equiv> ts_crm (vs_tasks s)"

definition on_crm :: "(crm \<Rightarrow> crm) \<Rightarrow> visit_state \<Rightarrow> visit_state" where
  "on_crm f s = s\<lparr>vs_tasks := (vs_tasks s)\<lparr>ts_crm := f (vs_crm s)\<rparr>\<rparr>"

definition visit_audit :: "string \<Rightarrow> string \<Rightarrow> string option \<Rightarrow> string \<Rightarrow> visit_state \<Rightarrow> visit_state" where
  "visit_audit action resource reason i s = on_crm (audit_of action resource reason i) s"

text \<open>The check constraints on the visit table.\<close>

definition visit_coherent :: "visit_row \<Rightarrow> bool" where
  "visit_coherent v \<longleftrightarrow>
    (\<not> (v_checkOutAt v \<noteq> None \<and> v_checkInAt v \<noteq> None \<and> the (v_checkOutAt v) < the (v_checkInAt v))) \<and>
    (v_status v \<noteq> COMPLETED \<or> v_checkInAt v \<noteq> None \<and> v_checkOutAt v \<noteq> None)"

definition update_visit :: "string \<Rightarrow> (visit_row \<Rightarrow> visit_row) \<Rightarrow> visit_state \<Rightarrow> visit_state result" where
  "update_visit i f s =
    (let vs = update_by v_id i f (vs_visits s) in
     if list_all visit_coherent vs then Inr (s\<lparr>vs_visits := vs\<rparr>) else Inl (ServerError ''Internal server error''))"

definition attendees_of :: "string \<Rightarrow> visit_state \<Rightarrow> string list" where
  "attendees_of i s = map at_userId (filter (\<lambda>a. at_visitId a = i) (vs_attendees s))"

definition sees_visit :: "principal \<Rightarrow> visit_state \<Rightarrow> visit_row \<Rightarrow> bool" where
  "sees_visit user s v \<longleftrightarrow>
    matches [] (visitScope user)
      \<lparr>sr_id = v_id v, sr_column = (\<lambda>c. if c = UserId then Some (v_userId v) else None), sr_orgUnitId = None,
       sr_attendees = attendees_of (v_id v) s\<rparr>"

definition visit_in_scope :: "principal \<Rightarrow> string \<Rightarrow> visit_state \<Rightarrow> visit_row result" where
  "visit_in_scope user i s =
    (case find (\<lambda>v. v_id v = i \<and> sees_visit user s v) (vs_visits s) of
       None \<Rightarrow> Inl (NotFound ''Visit not found'') | Some v \<Rightarrow> Inr v)"

definition mustFindOwn :: "principal \<Rightarrow> string \<Rightarrow> visit_state \<Rightarrow> visit_row result" where
  "mustFindOwn user i s =
    (case find_by v_id i (vs_visits s) of
       None \<Rightarrow> Inl (NotFound ''Visit not found'')
     | Some v \<Rightarrow>
         (if v_userId v \<noteq> pr_id user \<and> pr_dataScope user \<noteq> ALL_SCOPE then Inl (NotFound ''Visit not found'')
          else if v_userId v \<noteq> pr_id user then Inl (Forbidden ''This is not your visit'')
          else Inr v))"

definition mustFindMode :: "string \<Rightarrow> visit_state \<Rightarrow> meeting_mode result" where
  "mustFindMode code s =
    (case find_by mm_code code (vs_modes s) of
       None \<Rightarrow> Inl (BadRequest ''Unknown meeting mode'')
     | Some m \<Rightarrow> if mm_isActive m then Inr m else Inl (BadRequest ''Meeting mode withdrawn''))"

definition customer_scope_row :: "customer_row \<Rightarrow> scoped_row" where
  "customer_scope_row c =
    \<lparr>sr_id = cu_id c,
     sr_column = (\<lambda>x. case x of RelationshipManagerId \<Rightarrow> cu_relationshipManagerId c | PartnerId \<Rightarrow> cu_partnerId c
                   | Email \<Rightarrow> cu_email c | _ \<Rightarrow> None),
     sr_orgUnitId = cu_orgUnitId c, sr_attendees = []\<rparr>"

definition assertEntityVisible :: "org_unit list \<Rightarrow> principal \<Rightarrow> string \<Rightarrow> string \<Rightarrow> crm \<Rightarrow> unit result" where
  "assertEntityVisible orgs user entityType entityId s =
    (if entityType = ''LEAD'' then
       (if list_ex (\<lambda>l. l_id l = entityId \<and> l_deletedAt l = None \<and> matches orgs (leadScope user) (lead_scope_row l)) (cr_leads s)
        then Inr () else Inl (Forbidden ''Lead not accessible''))
     else if entityType = ''CUSTOMER'' then
       (if list_ex (\<lambda>c. cu_id c = entityId \<and> cu_deletedAt c = None \<and> matches orgs (customerScope user) (customer_scope_row c))
            (cr_customers s)
        then Inr () else Inl (Forbidden ''Customer not accessible''))
     else Inl (BadRequest ''Unsupported visit target''))"

section \<open>Planning\<close>

record plan_visit_input =
  pv_entityType :: string
  pv_entityId :: string
  pv_purpose :: string
  pv_plannedAt :: "time option"
  pv_attendees :: "(string \<times> string) list"
  pv_mode :: string

definition planned_visit :: "principal \<Rightarrow> string \<Rightarrow> string \<Rightarrow> plan_visit_input \<Rightarrow> visit_row" where
  "planned_visit user i reference input =
    \<lparr>v_id = i, v_reference = reference, v_entityType = pv_entityType input, v_entityId = pv_entityId input,
     v_userId = pr_id user, v_status = PLANNED, v_purpose = pv_purpose input, v_mode = pv_mode input,
     v_plannedAt = pv_plannedAt input, v_checkInAt = None, v_checkInLatitude = None, v_checkInLongitude = None,
     v_checkInAccuracy = None, v_locationStatus = None, v_locationReason = None, v_checkInAddress = None,
     v_checkInPhotoKey = None, v_checkOutAt = None, v_checkOutLatitude = None, v_checkOutLongitude = None,
     v_checkOutAccuracy = None, v_durationMinutes = None, v_meetingNotes = None, v_outcome = None,
     v_nextFollowUpAt = None, v_voiceNoteKey = None\<rparr>"

text \<open>\<open>createMany\<close> with \<open>skipDuplicates\<close>: a colleague named twice is added once.\<close>

function first_per_user :: "(string \<times> string) list \<Rightarrow> (string \<times> string) list" where
  "first_per_user [] = []"
| "first_per_user (a # as) = a # first_per_user (filter (\<lambda>b. fst b \<noteq> fst a) as)"
  by pat_completeness auto
termination by (relation "measure length") (auto simp: less_Suc_eq_le)

definition planned_attendees ::
    "account list \<Rightarrow> (string \<Rightarrow> string) \<Rightarrow> principal \<Rightarrow> string \<Rightarrow> plan_visit_input \<Rightarrow> attendee_row list" where
  "planned_attendees users fresh user i input =
    (let wanted = filter (\<lambda>a. fst a \<noteq> pr_id user) (pv_attendees input);
         real = filter (\<lambda>a. list_ex (\<lambda>u. u_id u = fst a \<and> u_deletedAt u = None \<and> u_userType u = INTERNAL_USER) users) wanted
     in map (\<lambda>a. \<lparr>at_id = fresh (fst a), at_visitId = i, at_userId = fst a, at_role = snd a,
                  at_addedById = pr_id user, at_confirmedAt = None\<rparr>) (first_per_user real))"

definition plan ::
    "org_unit list \<Rightarrow> account list \<Rightarrow> (string \<Rightarrow> string) \<Rightarrow> principal \<Rightarrow> string \<Rightarrow> string \<Rightarrow> plan_visit_input \<Rightarrow>
     visit_state \<Rightarrow> visit_state result" where
  "plan orgs users fresh user i reference input s =
    and_then (assertEntityVisible orgs user (pv_entityType input) (pv_entityId input) (vs_crm s)) (\<lambda>_.
    and_then (mustFindMode (pv_mode input) s) (\<lambda>mode.
    let s = s\<lparr>vs_visits := insert_row (planned_visit user i reference input) (vs_visits s),
              vs_attendees := vs_attendees s @ planned_attendees users fresh user i input\<rparr>
    in Inr (visit_audit ''CREATE'' ''visit'' None i s)))"

section \<open>Check-in and check-out\<close>

record check_in_input =
  ci_latitude :: "real option"
  ci_longitude :: "real option"
  ci_accuracy :: "real option"
  ci_locationFailureReason :: "location_failure option"
  ci_photoKey :: "string option"
  ci_address :: "string option"

definition VERIFIED_ACCURACY_METRES :: real where
  "VERIFIED_ACCURACY_METRES = 100"

definition assessCheckInLocation :: "check_in_input \<Rightarrow> location_status \<times> location_failure option" where
  "assessCheckInLocation input =
    (case ci_locationFailureReason input of
       Some r \<Rightarrow> (UNVERIFIED, Some r)
     | None \<Rightarrow>
         (if ci_latitude input = None \<or> ci_longitude input = None then (UNVERIFIED, Some UNAVAILABLE)
          else if ci_accuracy input = None \<or> the (ci_accuracy input) > VERIFIED_ACCURACY_METRES
            then (UNVERIFIED, Some IMPRECISE)
          else (VERIFIED, None)))"

definition record_check_in :: "time \<Rightarrow> check_in_input \<Rightarrow> visit_row \<Rightarrow> visit_row" where
  "record_check_in now input v =
    v\<lparr>v_status := CHECKED_IN, v_checkInAt := Some now, v_checkInLatitude := ci_latitude input,
      v_checkInLongitude := ci_longitude input, v_checkInAccuracy := ci_accuracy input,
      v_locationStatus := Some (fst (assessCheckInLocation input)),
      v_locationReason := snd (assessCheckInLocation input),
      v_checkInAddress := ci_address input, v_checkInPhotoKey := ci_photoKey input\<rparr>"

definition checkIn ::
    "(string \<Rightarrow> bool) \<Rightarrow> time \<Rightarrow> principal \<Rightarrow> string \<Rightarrow> check_in_input \<Rightarrow> visit_state \<Rightarrow> visit_state result" where
  "checkIn stored now user i input s =
    and_then (mustFindOwn user i s) (\<lambda>visit.
    if \<not> canTransitionVisit (v_status visit) CHECKED_IN then Inl (BadRequest ''Cannot check in'')
    else
      let rules = visitEvidenceRules (find_by mm_code (v_mode visit) (vs_modes s)) in
      if er_photo rules \<and> \<not> truthy (ci_photoKey input) then Inl (BadRequest ''Check-in photo required'')
      else if truthy (ci_photoKey input) \<and> \<not> stored (the (ci_photoKey input))
        then Inl (BadRequest ''Check-in photo not found'')
      else and_then (update_visit i (record_check_in now input) s) (\<lambda>s.
        Inr (visit_audit ''UPDATE'' ''visit.check_in'' None i (on_crm (publish i ''visit.checked_in'') s))))"

record check_out_input =
  co_latitude :: "real option"
  co_longitude :: "real option"
  co_accuracy :: "real option"
  co_meetingNotes :: string
  co_outcome :: "string option"
  co_nextFollowUpAt :: "time option"
  co_voiceNoteKey :: "string option"

definition duration_minutes :: "time \<Rightarrow> time \<Rightarrow> int" where
  "duration_minutes started now = max 0 (js_round (of_int (now - started) / 60000))"

definition record_check_out :: "time \<Rightarrow> int \<Rightarrow> check_out_input \<Rightarrow> visit_row \<Rightarrow> visit_row" where
  "record_check_out now duration input v =
    v\<lparr>v_status := COMPLETED, v_checkOutAt := Some now, v_checkOutLatitude := co_latitude input,
      v_checkOutLongitude := co_longitude input, v_checkOutAccuracy := co_accuracy input,
      v_durationMinutes := Some duration, v_meetingNotes := Some (co_meetingNotes input),
      v_outcome := co_outcome input, v_nextFollowUpAt := co_nextFollowUpAt input,
      v_voiceNoteKey := co_voiceNoteKey input\<rparr>"

text \<open>The record the visit is about: its last activity, and for a lead the next follow-up.\<close>

definition touch_entity :: "time \<Rightarrow> visit_row \<Rightarrow> check_out_input \<Rightarrow> crm \<Rightarrow> crm result" where
  "touch_entity now visit input s =
    (if v_entityType visit = ''LEAD'' then
       (if find_by l_id (v_entityId visit) (cr_leads s) = None then Inl (NotFound ''Not found'')
        else update_lead (v_entityId visit) (\<lambda>l. l\<lparr>l_lastActivityAt := Some now,
               l_nextFollowUpAt := or_else (co_nextFollowUpAt input) (l_nextFollowUpAt l)\<rparr>) s)
     else if v_entityType visit = ''CUSTOMER'' then
       (if find_by cu_id (v_entityId visit) (cr_customers s) = None then Inl (NotFound ''Not found'') else Inr s)
     else Inr s)"

definition check_out_tx ::
    "char \<Rightarrow> string \<Rightarrow> string \<Rightarrow> time \<Rightarrow> principal \<Rightarrow> visit_row \<Rightarrow> int \<Rightarrow> check_out_input \<Rightarrow> visit_state \<Rightarrow> visit_state result" where
  "check_out_tx ellipsis task_id task_ref now user visit duration input s =
    and_then (update_visit (v_id visit) (record_check_out now duration input) s) (\<lambda>s.
    let s = on_crm (log_activity (v_entityType visit) (v_entityId visit) ''VISIT'' (Some (co_meetingNotes input))
              (pr_id user) False) s in
    and_then (touch_entity now visit input (vs_crm s)) (\<lambda>c.
    let s = on_crm (\<lambda>_. c) s;
        s = (case co_nextFollowUpAt input of
               None \<Rightarrow> s
             | Some due \<Rightarrow> s\<lparr>vs_tasks := createFollowUpTask ellipsis task_id task_ref (v_entityType visit) (v_entityId visit)
                 due (v_purpose visit) (v_userId visit) (pr_id user) (vs_tasks s)\<rparr>)
    in Inr (on_crm (publish (v_id visit) ''visit.completed'') s)))"

definition position :: "real option \<Rightarrow> real option \<Rightarrow> coordinates option" where
  "position lat lon = (case (lat, lon) of (Some a, Some b) \<Rightarrow> Some \<lparr>latitude = a, longitude = b\<rparr> | _ \<Rightarrow> None)"

text \<open>The evidence assessment of a stored visit, as the screens show it.\<close>

definition integrity_of :: "visit_state \<Rightarrow> visit_row \<Rightarrow> visit_integrity" where
  "integrity_of s v =
    assessVisitIntegrity (position (v_checkInLatitude v) (v_checkInLongitude v))
      (position (v_checkOutLatitude v) (v_checkOutLongitude v)) (v_checkInAccuracy v) (v_checkOutAccuracy v)
      (v_durationMinutes v) (v_checkInAt v \<noteq> None)
      (er_geo (visitEvidenceRules (find_by mm_code (v_mode v) (vs_modes s))))"

definition checkOut ::
    "char \<Rightarrow> string \<Rightarrow> string \<Rightarrow> time \<Rightarrow> principal \<Rightarrow> string \<Rightarrow> check_out_input \<Rightarrow> visit_state \<Rightarrow> visit_state result" where
  "checkOut ellipsis task_id task_ref now user i input s =
    and_then (mustFindOwn user i s) (\<lambda>visit.
    if \<not> canTransitionVisit (v_status visit) COMPLETED then Inl (BadRequest ''Cannot check out'')
    else case v_checkInAt visit of
        None \<Rightarrow> Inl (BadRequest ''Cannot check out'')
      | Some started \<Rightarrow>
          and_then (check_out_tx ellipsis task_id task_ref now user visit (duration_minutes started now) input s) (\<lambda>s.
            Inr (visit_audit ''UPDATE'' ''visit.check_out'' None i s)))"

section \<open>Cancelling and moving\<close>

definition cancel_visit :: "principal \<Rightarrow> string \<Rightarrow> string \<Rightarrow> visit_state \<Rightarrow> visit_state result" where
  "cancel_visit user i reason s =
    and_then (mustFindOwn user i s) (\<lambda>visit.
    if \<not> canTransitionVisit (v_status visit) CANCELLED then Inl (BadRequest ''Cannot cancel'')
    else and_then (update_visit i (\<lambda>v. v\<lparr>v_status := CANCELLED, v_meetingNotes := Some reason\<rparr>) s) (\<lambda>s.
      Inr (visit_audit ''UPDATE'' ''visit.cancel'' (Some reason) i s)))"

definition reschedule :: "principal \<Rightarrow> string \<Rightarrow> time \<Rightarrow> string option \<Rightarrow> visit_state \<Rightarrow> visit_state result" where
  "reschedule user i plannedAt reason s =
    and_then (visit_in_scope user i s) (\<lambda>visit.
    if \<not> canRescheduleVisit (v_status visit) then Inl (BadRequest ''Cannot change the date'')
    else and_then (update_visit i (\<lambda>v. v\<lparr>v_plannedAt := Some plannedAt\<rparr>) s) (\<lambda>s.
      Inr (visit_audit ''UPDATE'' ''visit.reschedule'' reason i s)))"

section \<open>Attendees and expenses\<close>

definition canAddAttendee :: "visit_status \<Rightarrow> string \<Rightarrow> string \<Rightarrow> string list \<Rightarrow> string option" where
  "canAddAttendee visitStatus ownerId candidateUserId existingUserIds =
    (if candidateUserId = ownerId then Some ''The visit already belongs to this person.''
     else if candidateUserId \<in> set existingUserIds then Some ''They are already on this visit.''
     else if visitStatus = COMPLETED \<or> visitStatus = CANCELLED then Some ''This visit is closed.''
     else None)"

definition canConfirmAttendance :: "visit_status \<Rightarrow> bool" where
  "canConfirmAttendance s \<longleftrightarrow> s = CHECKED_IN"

definition addAttendee ::
    "account list \<Rightarrow> string \<Rightarrow> principal \<Rightarrow> string \<Rightarrow> string \<Rightarrow> string \<Rightarrow> visit_state \<Rightarrow> visit_state result" where
  "addAttendee users fresh user i colleague role s =
    and_then (visit_in_scope user i s) (\<lambda>visit.
    if canAddAttendee (v_status visit) (v_userId visit) colleague (attendees_of i s) \<noteq> None
      then Inl (BadRequest ''Cannot add them to this visit'')
    else if \<not> list_ex (\<lambda>u. u_id u = colleague \<and> u_deletedAt u = None \<and> u_userType u = INTERNAL_USER) users
      then Inl (NotFound ''No such colleague'')
    else Inr (visit_audit ''UPDATE'' ''visit.attendee'' None i
      (s\<lparr>vs_attendees := insert_row \<lparr>at_id = fresh, at_visitId = i, at_userId = colleague, at_role = role,
          at_addedById = pr_id user, at_confirmedAt = None\<rparr> (vs_attendees s)\<rparr>)))"

definition removeAttendee :: "principal \<Rightarrow> string \<Rightarrow> string \<Rightarrow> visit_state \<Rightarrow> visit_state result" where
  "removeAttendee user i attendeeId s =
    (if \<not> list_ex (\<lambda>a. at_id a = attendeeId \<and> at_visitId a = i) (vs_attendees s) then Inl (NotFound ''Not on this visit'')
     else case visit_in_scope user i s of
         Inl e \<Rightarrow> Inl (NotFound ''Not on this visit'')
       | Inr visit \<Rightarrow>
           (if v_status visit = COMPLETED \<or> v_status visit = CANCELLED then Inl (BadRequest ''This visit is closed'')
            else Inr (visit_audit ''UPDATE'' ''visit.attendee'' None i
              (s\<lparr>vs_attendees := delete_by at_id attendeeId (vs_attendees s)\<rparr>))))"

definition confirmAttendance :: "time \<Rightarrow> principal \<Rightarrow> string \<Rightarrow> string list \<Rightarrow> visit_state \<Rightarrow> visit_state result" where
  "confirmAttendance now user i present s =
    and_then (visit_in_scope user i s) (\<lambda>visit.
    if \<not> canConfirmAttendance (v_status visit) then Inl (BadRequest ''Not checked in'')
    else
      let present_now = update_where (\<lambda>a. at_visitId a = i \<and> at_userId a \<in> set present)
            (\<lambda>a. a\<lparr>at_confirmedAt := Some now\<rparr>) (vs_attendees s);
          absent = update_where (\<lambda>a. at_visitId a = i \<and> at_userId a \<notin> set present)
            (\<lambda>a. a\<lparr>at_confirmedAt := None\<rparr>) present_now
      in Inr (visit_audit ''UPDATE'' ''visit.attendee'' None i (s\<lparr>vs_attendees := absent\<rparr>)))"

definition addExpense ::
    "string \<Rightarrow> principal \<Rightarrow> string \<Rightarrow> string \<Rightarrow> rat \<Rightarrow> string option \<Rightarrow> string option \<Rightarrow> visit_state \<Rightarrow> visit_state result" where
  "addExpense x user i category amount note receiptKey s =
    and_then (visit_in_scope user i s) (\<lambda>visit.
    if v_userId visit \<noteq> pr_id user then Inl (Forbidden ''Not your visit'')
    else if v_status visit = CANCELLED then Inl (BadRequest ''Visit was cancelled'')
    else if amount \<le> 0 then Inl (ServerError ''Internal server error'')
    else Inr (visit_audit ''CREATE'' ''visit.expense'' None x
      (s\<lparr>vs_expenses := insert_row \<lparr>xp_id = x, xp_visitId = i, xp_category = category, xp_amount = amount, xp_note = note,
          xp_receiptKey = receiptKey, xp_claimedById = pr_id user\<rparr> (vs_expenses s)\<rparr>)))"

text \<open>Claims are added in paise.\<close>

definition totalExpenseClaim :: "rat list \<Rightarrow> rat" where
  "totalExpenseClaim amounts = of_int (foldl (\<lambda>sum amount. sum + js_round (amount * 100)) 0 amounts) / 100"

definition in_progress :: "principal \<Rightarrow> visit_state \<Rightarrow> visit_row option" where
  "in_progress user s = find (\<lambda>v. v_userId v = pr_id user \<and> v_status v = CHECKED_IN) (vs_visits s)"

section \<open>The life of a visit\<close>

text \<open>
  The requests on visits, those of other components on the tables they share, and the cancelling of
  a leaver's planned visits.
\<close>

definition cancel_planned :: "string \<Rightarrow> string \<Rightarrow> visit_row list \<Rightarrow> visit_row list" where
  "cancel_planned userId note vs =
    update_where (\<lambda>v. v_userId v = userId \<and> v_status v = PLANNED)
      (\<lambda>v. v\<lparr>v_status := CANCELLED, v_meetingNotes := Some note\<rparr>) vs"

inductive visit_step :: "visit_state \<Rightarrow> visit_state \<Rightarrow> bool" where
  step_plan: "i \<notin> v_id ` set (vs_visits s) \<Longrightarrow> plan orgs users fresh user i reference pinput s = Inr s' \<Longrightarrow> visit_step s s'"
| step_check_in: "checkIn stored now user i ninput s = Inr s' \<Longrightarrow> visit_step s s'"
| step_check_out: "checkOut e tid tref now user i oinput s = Inr s' \<Longrightarrow> visit_step s s'"
| step_cancel: "cancel_visit user i reason s = Inr s' \<Longrightarrow> visit_step s s'"
| step_move: "reschedule user i due why s = Inr s' \<Longrightarrow> visit_step s s'"
| step_add: "addAttendee users x user i colleague role s = Inr s' \<Longrightarrow> visit_step s s'"
| step_drop: "removeAttendee user i x s = Inr s' \<Longrightarrow> visit_step s s'"
| step_confirm: "confirmAttendance now user i present s = Inr s' \<Longrightarrow> visit_step s s'"
| step_expense: "addExpense x user i category amount note key s = Inr s' \<Longrightarrow> visit_step s s'"
| step_leaver: "visit_step s (s\<lparr>vs_visits := cancel_planned i note (vs_visits s)\<rparr>)"
| step_elsewhere: "visit_step s (s\<lparr>vs_modes := ms, vs_tasks := ts\<rparr>)"

text \<open>What a step does to the visit table.\<close>

datatype visit_change =
    Kept
  | Added visit_row
  | Changed string "visit_row \<Rightarrow> visit_row"
  | Leaver string string

fun apply_change :: "visit_change \<Rightarrow> visit_row list \<Rightarrow> visit_row list" where
  "apply_change Kept vs = vs"
| "apply_change (Added v) vs = insert_row v vs"
| "apply_change (Changed i f) vs = update_by v_id i f vs"
| "apply_change (Leaver i note) vs = cancel_planned i note vs"

text \<open>The edits a request may make, by the row they are made on.\<close>

definition allowed_edit :: "visit_row \<Rightarrow> (visit_row \<Rightarrow> visit_row) \<Rightarrow> bool" where
  "allowed_edit v f \<longleftrightarrow>
    (\<exists>now input. v_status v = PLANNED \<and> f = record_check_in now input) \<or>
    (\<exists>now started input. v_status v = CHECKED_IN \<and> v_checkInAt v = Some started \<and> started \<le> now \<and>
       f = record_check_out now (duration_minutes started now) input) \<or>
    (\<exists>reason. v_status v = PLANNED \<and> f = (\<lambda>v. v\<lparr>v_status := CANCELLED, v_meetingNotes := Some reason\<rparr>)) \<or>
    (\<exists>due. v_status v = PLANNED \<and> f = (\<lambda>v. v\<lparr>v_plannedAt := Some due\<rparr>))"

definition allowed_change :: "visit_row list \<Rightarrow> visit_change \<Rightarrow> bool" where
  "allowed_change vs c =
    (case c of
       Kept \<Rightarrow> True
     | Added v \<Rightarrow> v_id v \<notin> v_id ` set vs \<and> (\<exists>user i reference input. v = planned_visit user i reference input)
     | Changed i f \<Rightarrow> (\<exists>v. find_by v_id i vs = Some v \<and> allowed_edit v f)
     | Leaver i note \<Rightarrow> True)"

lemma on_crm_visits [simp]:
  "vs_visits (on_crm f s) = vs_visits s" "vs_visits (visit_audit a r re i s) = vs_visits s"
  by (simp_all add: on_crm_def visit_audit_def)

lemma update_visit_Inr: "update_visit i f s = Inr s' \<Longrightarrow>
    vs_visits s' = update_by v_id i f (vs_visits s) \<and> list_all visit_coherent (vs_visits s')"
  by (auto simp: update_visit_def Let_def split: if_splits)

lemma mustFindOwn_Inr: "mustFindOwn user i s = Inr v \<Longrightarrow> find_by v_id i (vs_visits s) = Some v \<and> v_userId v = pr_id user"
  by (auto simp: mustFindOwn_def split: option.splits if_splits)

lemma visit_in_scope_Inr:
  "visit_in_scope user i s = Inr v \<Longrightarrow> v \<in> set (vs_visits s) \<and> v_id v = i \<and> sees_visit user s v"
  by (auto simp: visit_in_scope_def find_Some_iff split: option.splits)

lemma planned_cancellable [simp]: "canTransitionVisit s CANCELLED \<longleftrightarrow> s = PLANNED" "canTransitionVisit s CHECKED_IN \<longleftrightarrow> s = PLANNED"
  "canTransitionVisit s COMPLETED \<longleftrightarrow> s = CHECKED_IN"
  by (cases s; simp add: canTransitionVisit_def)+

lemma checkIn_change:
  assumes "checkIn stored now user i input s = Inr s'"
  obtains v where "find_by v_id i (vs_visits s) = Some v" "v_userId v = pr_id user" "v_status v = PLANNED"
    "er_photo (visitEvidenceRules (find_by mm_code (v_mode v) (vs_modes s))) \<Longrightarrow> truthy (ci_photoKey input)"
    "truthy (ci_photoKey input) \<Longrightarrow> stored (the (ci_photoKey input))"
    "vs_visits s' = update_by v_id i (record_check_in now input) (vs_visits s)"
  using assms
  by (auto simp: checkIn_def Let_def and_then_Inr dest!: mustFindOwn_Inr update_visit_Inr split: if_splits)

lemma check_out_tx_visits:
  "check_out_tx e tid tref now user v d input s = Inr s' \<Longrightarrow>
    vs_visits s' = update_by v_id (v_id v) (record_check_out now d input) (vs_visits s) \<and> list_all visit_coherent (vs_visits s')"
  by (auto simp: check_out_tx_def Let_def and_then_Inr dest!: update_visit_Inr split: option.splits)

lemma checkOut_change:
  assumes "checkOut e tid tref now user i input s = Inr s'"
  obtains v started where "find_by v_id i (vs_visits s) = Some v" "v_userId v = pr_id user" "v_status v = CHECKED_IN"
    "v_checkInAt v = Some started" "started \<le> now"
    "vs_visits s' = update_by v_id i (record_check_out now (duration_minutes started now) input) (vs_visits s)"
proof -
  obtain v started t where v: "find_by v_id i (vs_visits s) = Some v" "v_userId v = pr_id user" "v_status v = CHECKED_IN"
      "v_checkInAt v = Some started" and t: "check_out_tx e tid tref now user v (duration_minutes started now) input s = Inr t"
      "vs_visits s' = vs_visits t"
    using assms by (auto simp: checkOut_def and_then_Inr dest!: mustFindOwn_Inr split: if_splits option.splits)
  have i: "v_id v = i" "v \<in> set (vs_visits s)" using v(1) by (auto dest: find_by_SomeD)
  let ?f = "record_check_out now (duration_minutes started now) input"
  note tx = check_out_tx_visits [OF t(1)]
  have "?f v \<in> set (vs_visits t)" using tx i by (auto simp: update_by_def set_update_where)
  then have "visit_coherent (?f v)" using tx by (auto simp: list_all_iff)
  then have "started \<le> now" using v(4) by (auto simp: visit_coherent_def record_check_out_def)
  then show ?thesis using that v tx t(2) i by simp
qed

lemma visit_step_change:
  assumes "visit_step s s'" and u: "keys_unique v_id (vs_visits s)"
  obtains c where "vs_visits s' = apply_change c (vs_visits s)" "allowed_change (vs_visits s) c"
  using assms(1)
proof (cases rule: visit_step.cases)
  case (step_plan i orgs users fresh user reference pinput)
  then show ?thesis
    by (intro that [of "Added (planned_visit user i reference pinput)"])
      (auto simp: plan_def Let_def and_then_Inr allowed_change_def planned_visit_def)
next
  case (step_check_in stored now user i ninput)
  then show ?thesis
    by (elim checkIn_change) (rule that [of "Changed i (record_check_in now ninput)"], auto simp: allowed_change_def allowed_edit_def)
next
  case (step_check_out e tid tref now user i oinput)
  from checkOut_change [OF this] obtain v started where v: "find_by v_id i (vs_visits s) = Some v" "v_status v = CHECKED_IN"
      "v_checkInAt v = Some started" "started \<le> now"
      "vs_visits s' = update_by v_id i (record_check_out now (duration_minutes started now) oinput) (vs_visits s)" by blast
  show ?thesis
    by (rule that [of "Changed i (record_check_out now (duration_minutes started now) oinput)"])
      (use v in \<open>auto simp: allowed_change_def allowed_edit_def\<close>)
next
  case (step_cancel user i reason)
  then show ?thesis
    by (intro that [of "Changed i (\<lambda>v. v\<lparr>v_status := CANCELLED, v_meetingNotes := Some reason\<rparr>)"])
      (auto simp: cancel_visit_def and_then_Inr allowed_change_def allowed_edit_def dest!: mustFindOwn_Inr update_visit_Inr split: if_splits)
next
  case (step_move user i due why)
  then obtain v where v: "visit_in_scope user i s = Inr v" "v_status v = PLANNED"
      "vs_visits s' = update_by v_id i (\<lambda>v. v\<lparr>v_plannedAt := Some due\<rparr>) (vs_visits s)"
    by (auto simp: reschedule_def and_then_Inr canRescheduleVisit_def dest!: update_visit_Inr split: if_splits)
  have "find_by v_id i (vs_visits s) = Some v" using visit_in_scope_Inr [OF v(1)] find_by_unique [OF u] by blast
  then show ?thesis
    by (intro that [of "Changed i (\<lambda>v. v\<lparr>v_plannedAt := Some due\<rparr>)"])
      (use v in \<open>auto simp: allowed_change_def allowed_edit_def\<close>)
next
  case (step_leaver i remark)
  then show ?thesis by (intro that [of "Leaver i remark"]) (simp_all add: allowed_change_def)
qed (rule that [of Kept];
    auto simp: allowed_change_def addAttendee_def removeAttendee_def confirmAttendance_def addExpense_def Let_def
      and_then_Inr split: if_splits sum.splits)+

lemma edit_keeps_id: "allowed_edit v f \<Longrightarrow> v_id (f w) = v_id w"
  by (auto simp: allowed_edit_def record_check_in_def record_check_out_def)

lemma step_keeps_keys:
  assumes "visit_step s s'" and u: "keys_unique v_id (vs_visits s)"
  shows "keys_unique v_id (vs_visits s')"
proof -
  obtain c where c: "vs_visits s' = apply_change c (vs_visits s)" "allowed_change (vs_visits s) c"
    by (rule visit_step_change [OF assms])
  then show ?thesis using u
    by (cases c) (auto simp: allowed_change_def cancel_planned_def edit_keeps_id)
qed

text \<open>What the columns of a visit say together, by its status. No request records a visit as missed.\<close>

definition visit_ok :: "visit_row \<Rightarrow> bool" where
  "visit_ok v =
    (case v_status v of
       PLANNED \<Rightarrow> v_checkInAt v = None \<and> v_checkOutAt v = None \<and> v_durationMinutes v = None
     | CHECKED_IN \<Rightarrow> v_checkInAt v \<noteq> None \<and> v_checkOutAt v = None \<and> v_durationMinutes v = None
     | COMPLETED \<Rightarrow> (case (v_checkInAt v, v_checkOutAt v) of
           (Some a, Some b) \<Rightarrow> a \<le> b \<and> v_durationMinutes v = Some (duration_minutes a b) \<and> v_meetingNotes v \<noteq> None
         | _ \<Rightarrow> False)
     | CANCELLED \<Rightarrow> v_checkInAt v = None \<and> v_checkOutAt v = None \<and> v_meetingNotes v \<noteq> None
     | MISSED \<Rightarrow> False)"

lemma visit_ok_edit: "visit_ok v \<Longrightarrow> allowed_edit v f \<Longrightarrow> visit_ok (f v)"
  by (auto simp: allowed_edit_def visit_ok_def record_check_in_def record_check_out_def)

lemma visit_ok_change:
  assumes u: "keys_unique v_id vs" and ok: "\<forall>v \<in> set vs. visit_ok v" and c: "allowed_change vs c"
  shows "\<forall>v \<in> set (apply_change c vs). visit_ok v"
proof (cases c)
  case (Added v)
  then show ?thesis using ok c
    by (auto simp: allowed_change_def insert_row_def visit_ok_def planned_visit_def)
next
  case (Changed i f)
  then obtain v where v: "find_by v_id i vs = Some v" "allowed_edit v f" using c by (auto simp: allowed_change_def)
  have same: "w = v" if "w \<in> set vs" "v_id w = i" for w by (rule find_by_same [OF u v(1) that])
  have "visit_ok (f w)" if "w \<in> set vs" "v_id w = i" for w
    using same [OF that] ok that v(2) visit_ok_edit by blast
  then show ?thesis using Changed ok by (auto simp: update_by_def set_update_where)
next
  case (Leaver i remark)
  then show ?thesis using ok by (auto simp: cancel_planned_def set_update_where visit_ok_def)
qed (use ok in simp)

inductive visit_reach :: "visit_state \<Rightarrow> bool" where
  reach_start: "vs_visits s = [] \<Longrightarrow> visit_reach s"
| reach_step: "visit_reach s \<Longrightarrow> visit_step s s' \<Longrightarrow> visit_reach s'"

lemma visit_reach_ok: "visit_reach s \<Longrightarrow> keys_unique v_id (vs_visits s) \<and> (\<forall>v \<in> set (vs_visits s). visit_ok v)"
proof (induction rule: visit_reach.induct)
  case (reach_start s)
  then show ?case by (simp add: keys_unique_def)
next
  case (reach_step s s')
  obtain c where "vs_visits s' = apply_change c (vs_visits s)" "allowed_change (vs_visits s) c"
    by (rule visit_step_change [OF reach_step(2)]) (use reach_step(3) in auto)
  then show ?case using reach_step visit_ok_change step_keeps_keys by metis
qed

text \<open>
  The record of a visit is coherent whatever requests led to it: a planned or cancelled visit
  has no times, an open one a check-in and nothing after it, and a completed one was checked out
  after it was checked in, with notes and the length the two times give; no visit is ever missed.
\<close>

theorem visit_record_coherent:
  assumes "visit_reach s" and "v \<in> set (vs_visits s)"
  shows "visit_ok v"
  using visit_reach_ok [OF assms(1)] assms(2) by blast

text \<open>
  A visit that happened cannot un-happen: once completed or cancelled, a visit's row is never
  written again by any request, nor by the offboarding of the person who made it.
\<close>

theorem closed_visit_is_final:
  assumes "visit_step\<^sup>*\<^sup>* s s'" and "keys_unique v_id (vs_visits s)"
    and "find_by v_id i (vs_visits s) = Some v" and "v_status v = COMPLETED \<or> v_status v = CANCELLED"
  shows "find_by v_id i (vs_visits s') = Some v"
proof -
  have "keys_unique v_id (vs_visits s') \<and> find_by v_id i (vs_visits s') = Some v"
    using assms(1)
  proof (induction rule: rtranclp_induct)
    case base
    then show ?case using assms(2,3) by simp
  next
    case (step y z)
    obtain c where c: "vs_visits z = apply_change c (vs_visits y)" "allowed_change (vs_visits y) c"
      by (rule visit_step_change [OF step(2)]) (use step(3) in auto)
    have "find_by v_id i (vs_visits z) = Some v"
    proof (cases c)
      case (Added w)
      then show ?thesis using c step(3) by (simp add: find_by_insert_row)
    next
      case (Changed j f)
      then obtain w where w: "find_by v_id j (vs_visits y) = Some w" "allowed_edit w f"
        using c by (auto simp: allowed_change_def)
      have "j \<noteq> i" using w step(3) assms(4) by (auto simp: allowed_edit_def)
      then show ?thesis using Changed c step(3) by (simp add: find_by_update_by edit_keeps_id [OF w(2)])
    next
      case (Leaver j remark)
      then show ?thesis using c step(3) assms(4) by (auto simp: cancel_planned_def find_by_update_where)
    qed (use c step(3) in simp)
    then show ?case using step_keeps_keys [OF step(2)] step(3) by blast
  qed
  then show ?thesis by blast
qed

text \<open>
  Nothing keeps a person from being in two places: a check-in looks at its own visit only, so
  somebody who is checked in to one visit is checked in to a second, although the home screen
  takes at most one visit to be open.
\<close>

theorem two_visits_open_at_once:
  assumes "visit_reach s" and "checkIn stored now user i input s = Inr s'"
    and "w \<in> set (vs_visits s)" and "v_status w = CHECKED_IN" and "v_userId w = pr_id user"
  shows "\<exists>v \<in> set (vs_visits s'). v_id v = i \<and> v_status v = CHECKED_IN \<and> v_userId v = pr_id user \<and>
    w \<in> set (vs_visits s') \<and> v \<noteq> w"
proof -
  obtain v where v: "find_by v_id i (vs_visits s) = Some v" "v_userId v = pr_id user" "v_status v = PLANNED"
      "vs_visits s' = update_by v_id i (record_check_in now input) (vs_visits s)"
    by (rule checkIn_change [OF assms(2)])
  have u: "keys_unique v_id (vs_visits s)" using visit_reach_ok [OF assms(1)] by blast
  have "v_id w \<noteq> i" using find_by_same [OF u v(1) assms(3)] v(3) assms(4) by auto
  moreover have mem: "v \<in> set (vs_visits s)" "v_id v = i" using v(1) by (auto dest: find_by_SomeD)
  ultimately show ?thesis
    using v assms(3) by (intro bexI [of _ "record_check_in now input v"])
      (auto simp: update_by_def set_update_where record_check_in_def image_iff)
qed

section \<open>A demonstration\<close>

definition visit_after :: "visit_state result \<Rightarrow> visit_state \<Rightarrow> visit_state" where
  "visit_after r s = (case r of Inl e \<Rightarrow> s | Inr s' \<Rightarrow> s')"

lemma reach_after: "visit_reach s \<Longrightarrow> (\<And>s'. r = Inr s' \<Longrightarrow> visit_step s s') \<Longrightarrow> visit_reach (visit_after r s)"
  by (auto simp: visit_after_def split: sum.split intro: reach_step)

definition demo_field :: visit_state where
  "demo_field = \<lparr>vs_visits = [], vs_attendees = [],
     vs_modes = [\<lparr>mm_code = ''CALL'', mm_requiresPhoto = False, mm_requiresGeo = False, mm_requiresLink = False,
       mm_allowsScreenshot = False, mm_isActive = True\<rparr>],
     vs_expenses = [], vs_tasks = demo_tasks\<rparr>"

definition demo_plan :: plan_visit_input where
  "demo_plan = \<lparr>pv_entityType = ''LEAD'', pv_entityId = ''l1'', pv_purpose = ''Portfolio review'', pv_plannedAt = None,
     pv_attendees = [], pv_mode = ''CALL''\<rparr>"

definition demo_no_fix :: check_in_input where
  "demo_no_fix = \<lparr>ci_latitude = None, ci_longitude = None, ci_accuracy = None, ci_locationFailureReason = Some DENIED,
     ci_photoKey = None, ci_address = None\<rparr>"

definition demo_close :: check_out_input where
  "demo_close = \<lparr>co_latitude = None, co_longitude = None, co_accuracy = None, co_meetingNotes = ''Agreed'',
     co_outcome = None, co_nextFollowUpAt = Some 900000, co_voiceNoteKey = None\<rparr>"

definition demo_one_planned :: visit_state where
  "demo_one_planned = visit_after (plan [] [] (\<lambda>u. u) demo_rep ''v1'' ''VS1'' demo_plan demo_field) demo_field"

definition demo_two_planned :: visit_state where
  "demo_two_planned = visit_after (plan [] [] (\<lambda>u. u) demo_rep ''v2'' ''VS2'' demo_plan demo_one_planned) demo_one_planned"

definition demo_one_open :: visit_state where
  "demo_one_open = visit_after (checkIn (\<lambda>k. False) 0 demo_rep ''v1'' demo_no_fix demo_two_planned) demo_two_planned"

definition demo_visited :: visit_state where
  "demo_visited = visit_after (checkOut CHR 0x5F ''t9'' ''TK9'' 600000 demo_rep ''v1'' demo_close demo_one_open) demo_one_open"

lemma demo_one_open_reach: "visit_reach demo_one_open"
proof -
  have one: "visit_reach demo_one_planned"
    unfolding demo_one_planned_def
    by (rule reach_after [OF reach_start]) (simp add: demo_field_def, erule step_plan [rotated], simp add: demo_field_def)
  have fresh: "''v2'' \<notin> v_id ` set (vs_visits demo_one_planned)" by code_simp
  have "visit_reach demo_two_planned"
    unfolding demo_two_planned_def by (rule reach_after [OF one]) (rule step_plan [OF fresh])
  then show ?thesis
    unfolding demo_one_open_def by (rule reach_after) (rule step_check_in)
qed

lemma visit_record_coherent_witness:
  "list_all visit_ok (vs_visits demo_visited) \<and> map v_status (vs_visits demo_visited) = [COMPLETED, PLANNED]"
proof -
  have "visit_reach demo_visited"
    unfolding demo_visited_def by (rule reach_after [OF demo_one_open_reach]) (rule step_check_out)
  then have "list_all visit_ok (vs_visits demo_visited)"
    using visit_record_coherent by (simp add: list_all_iff)
  moreover have "map v_status (vs_visits demo_visited) = [COMPLETED, PLANNED]" by code_simp
  ultimately show ?thesis by blast
qed

lemma two_visits_open_at_once_witness:
  "\<exists>v \<in> set (vs_visits (visit_after (checkIn (\<lambda>k. False) 10 demo_rep ''v2'' demo_no_fix demo_one_open) demo_one_open)).
     v_id v = ''v2'' \<and> v_status v = CHECKED_IN \<and> v \<noteq> hd (vs_visits demo_one_open)"
proof -
  let ?r = "checkIn (\<lambda>k. False) 10 demo_rep ''v2'' demo_no_fix demo_one_open"
  have "isl ?r = False" by code_simp
  then obtain s' where r: "?r = Inr s'" by (cases ?r) auto
  have m: "hd (vs_visits demo_one_open) \<in> set (vs_visits demo_one_open)" by code_simp
  have st: "v_status (hd (vs_visits demo_one_open)) = CHECKED_IN" by code_simp
  have ow: "v_userId (hd (vs_visits demo_one_open)) = pr_id demo_rep" by code_simp
  from two_visits_open_at_once [OF demo_one_open_reach r m st ow] show ?thesis
    unfolding r by (auto simp: visit_after_def)
qed

lemma closed_visit_is_final_witness:
  "find_by v_id ''v1'' (cancel_planned ''rep'' ''Cancelled'' (vs_visits demo_visited)) = find_by v_id ''v1'' (vs_visits demo_visited)"
proof -
  have u: "keys_unique v_id (vs_visits demo_visited)" by code_simp
  let ?v = "the (find_by v_id ''v1'' (vs_visits demo_visited))"
  have f: "find_by v_id ''v1'' (vs_visits demo_visited) = Some ?v" by code_simp
  have c: "v_status ?v = COMPLETED \<or> v_status ?v = CANCELLED" by code_simp
  have "visit_step\<^sup>*\<^sup>* demo_visited (demo_visited\<lparr>vs_visits := cancel_planned ''rep'' ''Cancelled'' (vs_visits demo_visited)\<rparr>)"
    by (rule r_into_rtranclp) (rule step_leaver)
  from closed_visit_is_final [OF this u f c] f show ?thesis by simp
qed

end
