(* ===== verification/Outbox.thy ===== *)
theory Outbox
  imports Prelude
begin

text \<open>
  The outbox relay (\<open>apps/api/src/modules/outbox/outbox-relay.service.ts\<close>): a pass claims a batch
  of pending rows, hands each to the publisher and records the outcome. What lies outside is a
  parameter, asked at every hand-over: whether the publisher takes the event, whether the write
  that marks the row published goes through, and whether the write that records a failure does.
  Marking is a step of its own: an event the publisher took whose mark fails is treated like one it
  refused. \<open>returned\<close> is the order in which \<open>UPDATE ... RETURNING\<close> hands back the claimed rows,
  which the statement leaves open. One clock reading serves a whole pass.
\<close>

record outbox_row =
  ob_id :: string
  ob_aggregateType :: string
  ob_aggregateId :: string
  ob_eventType :: string
  ob_payload :: string
  ob_occurredAt :: time
  ob_publishedAt :: "time option"
  ob_attempts :: nat
  ob_lastError :: "string option"
  ob_nextAttemptAt :: time
  ob_deadLetteredAt :: "time option"

record outbox_config =
  oc_batchSize :: nat
  oc_maxAttempts :: nat

text \<open>
  How one hand-over ended: the publisher refused the event; it took it and the row was marked; it
  took it and the row was not marked. \<open>rl_calls\<close> is the history of the hand-overs.
\<close>

datatype handover = Refused | Marked | Unmarked

record relay =
  rl_rows :: "outbox_row list"
  rl_running :: bool
  rl_stopped :: bool
  rl_publishedCount :: nat
  rl_failedCount :: nat
  rl_deadLetteredCount :: nat
  rl_calls :: "(string \<times> handover) list"

text \<open>
  What the outside answers at the \<open>n\<close>-th hand-over: nothing when it works, the message it throws
  otherwise.
\<close>

record outside =
  os_publish :: "nat \<Rightarrow> outbox_row \<Rightarrow> string option"
  os_mark :: "nat \<Rightarrow> outbox_row \<Rightarrow> string option"
  os_note :: "nat \<Rightarrow> outbox_row \<Rightarrow> string option"

interpretation outbox_table: repository "find_by ob_id" "update_by ob_id" insert_row ob_id
  by (rule repository_by)

section \<open>One pass\<close>

definition pending :: "outbox_row \<Rightarrow> bool" where
  "pending r \<longleftrightarrow> ob_publishedAt r = None \<and> ob_deadLetteredAt r = None"

definition by_occurrence :: "outbox_row \<Rightarrow> outbox_row \<Rightarrow> int" where
  "by_occurrence a b = ob_occurredAt a - ob_occurredAt b"

definition claimable :: "nat \<Rightarrow> time \<Rightarrow> outbox_row list \<Rightarrow> outbox_row list" where
  "claimable batchSize now rows =
    take batchSize (js_sort by_occurrence (filter (\<lambda>r. pending r \<and> ob_nextAttemptAt r \<le> now) rows))"

definition burn_attempt :: "outbox_row \<Rightarrow> outbox_row" where
  "burn_attempt r = r\<lparr>ob_attempts := ob_attempts r + 1\<rparr>"

definition claim ::
    "(outbox_row list \<Rightarrow> outbox_row list) \<Rightarrow> outbox_config \<Rightarrow> time \<Rightarrow> relay \<Rightarrow> outbox_row list \<times> relay" where
  "claim returned cfg now st =
    (let ids = map ob_id (claimable (oc_batchSize cfg) now (rl_rows st));
         rows = update_where (\<lambda>r. ob_id r \<in> set ids) burn_attempt (rl_rows st)
     in (returned (filter (\<lambda>r. ob_id r \<in> set ids) rows), st\<lparr>rl_rows := rows\<rparr>))"

definition backoff_seconds :: "nat \<Rightarrow> int" where
  "backoff_seconds attempts = min (2 ^ attempts) 900"

definition delivered :: "time \<Rightarrow> outbox_row \<Rightarrow> outbox_row" where
  "delivered now r = r\<lparr>ob_publishedAt := Some now, ob_lastError := None\<rparr>"

definition dead_lettered :: "time \<Rightarrow> string \<Rightarrow> outbox_row \<Rightarrow> outbox_row" where
  "dead_lettered now message r = r\<lparr>ob_deadLetteredAt := Some now, ob_lastError := Some (take 500 message)\<rparr>"

definition postponed :: "time \<Rightarrow> nat \<Rightarrow> string \<Rightarrow> outbox_row \<Rightarrow> outbox_row" where
  "postponed now attempts message r =
    r\<lparr>ob_nextAttemptAt := now + backoff_seconds attempts * 1000, ob_lastError := Some (take 500 message)\<rparr>"

text \<open>The body of the \<open>try\<close>: how it ended and the message it threw, if it threw.\<close>

definition hand_over :: "outside \<Rightarrow> nat \<Rightarrow> outbox_row \<Rightarrow> handover \<times> string option" where
  "hand_over w n row =
    (case os_publish w n row of
       Some message \<Rightarrow> (Refused, Some message)
     | None \<Rightarrow> (case os_mark w n row of Some message \<Rightarrow> (Unmarked, Some message) | None \<Rightarrow> (Marked, None)))"

text \<open>The second component is what the delivery itself throws: a failing write of the \<open>catch\<close> block.\<close>

definition deliver :: "outside \<Rightarrow> outbox_config \<Rightarrow> time \<Rightarrow> outbox_row \<Rightarrow> relay \<Rightarrow> relay \<times> string option" where
  "deliver w cfg now row st =
    (let n = length (rl_calls st); (outcome, thrown) = hand_over w n row;
         st = st\<lparr>rl_calls := rl_calls st @ [(ob_id row, outcome)]\<rparr>
     in case thrown of
       None \<Rightarrow>
         (st\<lparr>rl_rows := update_by ob_id (ob_id row) (delivered now) (rl_rows st),
             rl_publishedCount := rl_publishedCount st + 1\<rparr>, None)
     | Some message \<Rightarrow>
         (let st = st\<lparr>rl_failedCount := rl_failedCount st + 1\<rparr>
          in case os_note w n row of
               Some failure \<Rightarrow> (st, Some failure)
             | None \<Rightarrow>
                 (if ob_attempts row \<ge> oc_maxAttempts cfg
                  then st\<lparr>rl_rows := update_by ob_id (ob_id row) (dead_lettered now message) (rl_rows st),
                          rl_deadLetteredCount := rl_deadLetteredCount st + 1\<rparr>
                  else st\<lparr>rl_rows := update_by ob_id (ob_id row) (postponed now (ob_attempts row) message) (rl_rows st)\<rparr>,
                  None)))"

text \<open>A delivery that throws ends the pass; the rest of the batch waits for a later one.\<close>

fun deliver_each :: "outside \<Rightarrow> outbox_config \<Rightarrow> time \<Rightarrow> outbox_row list \<Rightarrow> relay \<Rightarrow> relay \<times> string option" where
  "deliver_each w cfg now [] st = (st, None)"
| "deliver_each w cfg now (row # rows) st =
    (case deliver w cfg now row st of
       (st', None) \<Rightarrow> deliver_each w cfg now rows st'
     | (st', Some failure) \<Rightarrow> (st', Some failure))"

definition tick ::
    "outside \<Rightarrow> (outbox_row list \<Rightarrow> outbox_row list) \<Rightarrow> outbox_config \<Rightarrow> time \<Rightarrow> relay \<Rightarrow> nat \<times> relay" where
  "tick w returned cfg now st =
    (if rl_running st \<or> rl_stopped st then (0, st)
     else
       let (claimed, st) = claim returned cfg now (st\<lparr>rl_running := True\<rparr>);
           (st, thrown) = deliver_each w cfg now claimed st
       in (if thrown = None then length claimed else 0, st\<lparr>rl_running := False\<rparr>))"

record relay_stats =
  rs_pending :: nat
  rs_deadLettered :: nat
  rs_oldestPendingAt :: "time option"

definition stats :: "relay \<Rightarrow> relay_stats" where
  "stats st =
    \<lparr>rs_pending = count_where pending (rl_rows st),
     rs_deadLettered = count_where (\<lambda>r. ob_deadLetteredAt r \<noteq> None) (rl_rows st),
     rs_oldestPendingAt =
       (case js_sort by_occurrence (filter pending (rl_rows st)) of [] \<Rightarrow> None | r # _ \<Rightarrow> Some (ob_occurredAt r))\<rparr>"

text \<open>A row enters the table with the change it announces, ready for the next pass.\<close>

definition publish_row :: "string \<Rightarrow> string \<Rightarrow> string \<Rightarrow> string \<Rightarrow> string \<Rightarrow> time \<Rightarrow> outbox_row" where
  "publish_row i aggregateType aggregateId eventType payload now =
    \<lparr>ob_id = i, ob_aggregateType = aggregateType, ob_aggregateId = aggregateId, ob_eventType = eventType,
     ob_payload = payload, ob_occurredAt = now, ob_publishedAt = None, ob_attempts = 0, ob_lastError = None,
     ob_nextAttemptAt = now, ob_deadLetteredAt = None\<rparr>"

section \<open>What a pass does to a row\<close>

lemma row_ops [simp]:
  "ob_id (burn_attempt r) = ob_id r" "ob_id (delivered now r) = ob_id r"
  "ob_id (dead_lettered now m r) = ob_id r" "ob_id (postponed now k m r) = ob_id r"
  "ob_attempts (burn_attempt r) = ob_attempts r + 1" "ob_attempts (delivered now r) = ob_attempts r"
  "ob_attempts (dead_lettered now m r) = ob_attempts r" "ob_attempts (postponed now k m r) = ob_attempts r"
  "pending (burn_attempt r) = pending r" "\<not> pending (delivered now r)" "\<not> pending (dead_lettered now m r)"
  "pending (postponed now k m r) = pending r"
  "ob_nextAttemptAt (burn_attempt r) = ob_nextAttemptAt r"
  "ob_nextAttemptAt (postponed now k m r) = now + backoff_seconds k * 1000"
  "ob_publishedAt (burn_attempt r) = ob_publishedAt r" "ob_publishedAt (delivered now r) = Some now"
  "ob_publishedAt (dead_lettered now m r) = ob_publishedAt r" "ob_publishedAt (postponed now k m r) = ob_publishedAt r"
  "ob_deadLetteredAt (burn_attempt r) = ob_deadLetteredAt r" "ob_deadLetteredAt (delivered now r) = ob_deadLetteredAt r"
  "ob_deadLetteredAt (dead_lettered now m r) = Some now" "ob_deadLetteredAt (postponed now k m r) = ob_deadLetteredAt r"
  "ob_occurredAt (burn_attempt r) = ob_occurredAt r"
  by (simp_all add: burn_attempt_def delivered_def dead_lettered_def postponed_def pending_def)

text \<open>The outcome of one delivery, on the row it is about.\<close>

definition settle_row :: "outside \<Rightarrow> outbox_config \<Rightarrow> time \<Rightarrow> nat \<Rightarrow> outbox_row \<Rightarrow> outbox_row \<Rightarrow> outbox_row" where
  "settle_row w cfg now n row =
    (case snd (hand_over w n row) of None \<Rightarrow> delivered now
     | Some m \<Rightarrow> if os_note w n row \<noteq> None then (\<lambda>r. r)
         else if ob_attempts row \<ge> oc_maxAttempts cfg then dead_lettered now m else postponed now (ob_attempts row) m)"

lemma update_by_same: "update_by key k (\<lambda>r. r) rows = rows"
  by (induction rows) (simp_all add: update_by_def)

lemma deliver_rows:
  "rl_rows (fst (deliver w cfg now row st)) =
     update_by ob_id (ob_id row) (settle_row w cfg now (length (rl_calls st)) row) (rl_rows st)"
  "rl_calls (fst (deliver w cfg now row st)) =
     rl_calls st @ [(ob_id row, fst (hand_over w (length (rl_calls st)) row))]"
  "rl_running (fst (deliver w cfg now row st)) = rl_running st"
  "rl_stopped (fst (deliver w cfg now row st)) = rl_stopped st"
  by (auto simp: deliver_def settle_row_def Let_def case_prod_beta update_by_same split: option.splits)

lemma settle_row_id [simp]: "ob_id (settle_row w cfg now n row r) = ob_id r"
  by (auto simp: settle_row_def split: option.splits)

lemma find_by_map:
  assumes "\<And>r. key (f r) = key r"
  shows "find_by key k (map f rows) = map_option f (find_by key k rows)"
  by (induction rows) (auto simp: assms)

text \<open>The writes that record a failure all go through; the publisher and the marks may fail at will.\<close>

definition notes_failures :: "outside \<Rightarrow> bool" where
  "notes_failures w \<longleftrightarrow> (\<forall>n row. os_note w n row = None)"

lemma deliver_no_throw: "notes_failures w \<Longrightarrow> snd (deliver w cfg now row st) = None"
  by (auto simp: deliver_def notes_failures_def Let_def case_prod_beta split: option.splits)

lemma deliver_each_Cons_quiet:
  "notes_failures w \<Longrightarrow> deliver_each w cfg now (row # cl) st = deliver_each w cfg now cl (fst (deliver w cfg now row st))"
  using deliver_no_throw [of w cfg now row st] by (auto split: prod.splits)

lemma deliver_each_no_throw: "notes_failures w \<Longrightarrow> snd (deliver_each w cfg now cl st) = None"
  by (induction cl arbitrary: st) (simp_all add: deliver_each_Cons_quiet del: deliver_each.simps(2))

text \<open>Delivering a batch settles each row of the batch by its own outcome and no other.\<close>

lemma deliver_each_rows:
  assumes "distinct (map ob_id cl)" and "notes_failures w"
  shows "\<exists>f. rl_rows (fst (deliver_each w cfg now cl st)) =
    map (\<lambda>r. case find_by ob_id (ob_id r) cl of None \<Rightarrow> r | Some row \<Rightarrow> settle_row w cfg now (f (ob_id r)) row r) (rl_rows st)"
  using assms(1)
proof (induction cl arbitrary: st)
  case (Cons row cl)
  let ?n = "length (rl_calls st)"
  obtain f where f: "rl_rows (fst (deliver_each w cfg now cl (fst (deliver w cfg now row st)))) =
      map (\<lambda>r. case find_by ob_id (ob_id r) cl of None \<Rightarrow> r | Some row \<Rightarrow> settle_row w cfg now (f (ob_id r)) row r)
        (rl_rows (fst (deliver w cfg now row st)))"
    using Cons by auto
  have gone: "find_by ob_id (ob_id row) cl = None"
    using Cons.prems by (simp add: find_by_None_iff)
  show ?case
    by (rule exI [of _ "f(ob_id row := ?n)"])
      (simp add: deliver_each_Cons_quiet [OF assms(2)] f deliver_rows(1) update_by_def update_where_def gone
        del: deliver_each.simps(2) split: option.splits)
qed simp

lemma deliver_each_Cons_fst:
  "fst (deliver_each w cfg now (row # cl) st) =
    (if snd (deliver w cfg now row st) = None then fst (deliver_each w cfg now cl (fst (deliver w cfg now row st)))
     else fst (deliver w cfg now row st))"
  by (auto split: prod.splits option.splits)

lemma deliver_each_flags [simp]:
  "rl_running (fst (deliver_each w cfg now cl st)) = rl_running st"
  "rl_stopped (fst (deliver_each w cfg now cl st)) = rl_stopped st"
  by (induction cl arbitrary: st) (simp_all add: deliver_each_Cons_fst deliver_rows del: deliver_each.simps(2))

lemma claimable_mem: "r \<in> set (claimable b now rows) \<Longrightarrow> r \<in> set rows \<and> pending r \<and> ob_nextAttemptAt r \<le> now"
  unfolding claimable_def by (drule in_set_takeD) simp

lemma claimable_nonempty: "r \<in> set rows \<Longrightarrow> pending r \<Longrightarrow> ob_nextAttemptAt r \<le> now \<Longrightarrow> 0 < b \<Longrightarrow> claimable b now rows \<noteq> []"
  by (auto simp: claimable_def filter_empty_conv)

lemma claimable_id:
  assumes "keys_unique ob_id rows" and "r \<in> set rows"
  shows "ob_id r \<in> set (map ob_id (claimable b now rows)) \<longleftrightarrow> r \<in> set (claimable b now rows)"
proof
  assume "ob_id r \<in> set (map ob_id (claimable b now rows))"
  then obtain q where q: "q \<in> set (claimable b now rows)" "ob_id q = ob_id r" by auto
  have "q \<in> set rows" using claimable_mem [OF q(1)] by blast
  then have "q = r" using find_by_same [OF assms(1) find_by_unique [OF assms]] q(2) by blast
  then show "r \<in> set (claimable b now rows)" using q by simp
qed simp

definition permuting :: "('a list \<Rightarrow> 'a list) \<Rightarrow> bool" where
  "permuting f \<longleftrightarrow> (\<forall>xs. mset (f xs) = mset xs)"

lemma permuting_set: "permuting f \<Longrightarrow> set (f xs) = set xs"
  unfolding permuting_def by (metis set_mset_mset)

lemma permuting_keys: "permuting f \<Longrightarrow> keys_unique key (f xs) = keys_unique key xs"
  unfolding keys_unique_def permuting_def by (intro mset_eq_imp_distinct_iff) (simp add: mset_map)

text \<open>The rows of a batch, as the claim returns them, are the batch with one more attempt burnt.\<close>

lemma claim_find:
  assumes "keys_unique ob_id (rl_rows st)" and "permuting returned" and "r \<in> set (rl_rows st)"
  shows "find_by ob_id (ob_id r) (fst (claim returned cfg now st)) =
    (if r \<in> set (claimable (oc_batchSize cfg) now (rl_rows st)) then Some (burn_attempt r) else None)"
proof -
  let ?ids = "map ob_id (claimable (oc_batchSize cfg) now (rl_rows st))"
  let ?rows = "update_where (\<lambda>r. ob_id r \<in> set ?ids) burn_attempt (rl_rows st)"
  let ?cl = "filter (\<lambda>r. ob_id r \<in> set ?ids) ?rows"
  have u: "keys_unique ob_id ?rows" using assms(1) by simp
  then have cl: "keys_unique ob_id ?cl" by (simp add: keys_unique_def distinct_map_filter)
  have c: "fst (claim returned cfg now st) = returned ?cl" by (simp add: claim_def Let_def)
  have k: "keys_unique ob_id (returned ?cl)" using cl by (simp only: permuting_keys [OF assms(2)])
  show ?thesis
  proof (cases "ob_id r \<in> set ?ids")
    case True
    then have "burn_attempt r \<in> set ?cl" using assms(3) by (auto simp: set_update_where)
    then have "burn_attempt r \<in> set (returned ?cl)" by (simp only: permuting_set [OF assms(2)])
    from find_by_unique [OF k this] show ?thesis
      using claimable_id [OF assms(1,3)] True c by (simp only: row_ops if_True)
  next
    case False
    then have "ob_id r \<notin> ob_id ` set (returned ?cl)"
      by (simp only: permuting_set [OF assms(2)]) auto
    then show ?thesis
      using claimable_id [OF assms(1,3)] False c by (simp add: find_by_None_iff [symmetric])
  qed
qed

lemma claim_keys:
  assumes "keys_unique ob_id (rl_rows st)" and "permuting returned"
  shows "keys_unique ob_id (fst (claim returned cfg now st))" and "keys_unique ob_id (rl_rows (snd (claim returned cfg now st)))"
    and "map ob_id (rl_rows (snd (claim returned cfg now st))) = map ob_id (rl_rows st)"
proof -
  have "keys_unique ob_id (filter p (update_where q burn_attempt (rl_rows st)))" for p q
    using assms(1) keys_unique_update_where [of ob_id burn_attempt q "rl_rows st"]
    by (simp add: keys_unique_def distinct_map_filter)
  then show "keys_unique ob_id (fst (claim returned cfg now st))"
    by (simp add: claim_def Let_def permuting_keys [OF assms(2)])
qed (use assms in \<open>simp_all add: claim_def Let_def\<close>)

lemma claim_rows:
  assumes "keys_unique ob_id (rl_rows st)"
  shows "rl_rows (snd (claim returned cfg now st)) =
    map (\<lambda>r. if r \<in> set (claimable (oc_batchSize cfg) now (rl_rows st)) then burn_attempt r else r) (rl_rows st)"
  using claimable_id [OF assms] by (auto simp: claim_def Let_def update_where_def)

text \<open>A pass on the table: the batch is settled, every other row is left alone.\<close>

definition settle :: "outside \<Rightarrow> outbox_config \<Rightarrow> time \<Rightarrow> nat \<Rightarrow> outbox_row \<Rightarrow> outbox_row" where
  "settle w cfg now n r = settle_row w cfg now n (burn_attempt r) (burn_attempt r)"

lemma tick_rows:
  assumes "keys_unique ob_id (rl_rows st)" and "permuting returned" and "\<not> rl_running st" and "\<not> rl_stopped st"
    and "notes_failures w"
  shows "\<exists>f. rl_rows (snd (tick w returned cfg now st)) =
    map (\<lambda>r. if r \<in> set (claimable (oc_batchSize cfg) now (rl_rows st)) then settle w cfg now (f (ob_id r)) r else r) (rl_rows st)"
proof -
  let ?st = "st\<lparr>rl_running := True\<rparr>"
  let ?c = "claimable (oc_batchSize cfg) now (rl_rows st)"
  have k: "keys_unique ob_id (rl_rows ?st)" using assms(1) by simp
  obtain f where f: "rl_rows (fst (deliver_each w cfg now (fst (claim returned cfg now ?st)) (snd (claim returned cfg now ?st)))) =
      map (\<lambda>r. case find_by ob_id (ob_id r) (fst (claim returned cfg now ?st)) of None \<Rightarrow> r
                | Some row \<Rightarrow> settle_row w cfg now (f (ob_id r)) row r)
        (rl_rows (snd (claim returned cfg now ?st)))"
    using deliver_each_rows [OF _ assms(5)] claim_keys(1) [OF k assms(2)] unfolding keys_unique_def by blast
  have find: "find_by ob_id (ob_id r) (fst (claim returned cfg now ?st)) = (if r \<in> set ?c then Some (burn_attempt r) else None)"
    if "r \<in> set (rl_rows st)" for r
    using claim_find [OF k assms(2)] that by simp
  have "rl_rows (snd (tick w returned cfg now st)) =
      map (\<lambda>r. if r \<in> set ?c then settle w cfg now (f (ob_id r)) r else r) (rl_rows st)"
    using assms(3,4) find
    by (simp add: tick_def case_prod_beta Let_def f claim_rows [OF k] settle_def)
  then show ?thesis by blast
qed

lemma tick_flags:
  assumes "\<not> rl_running st" and "\<not> rl_stopped st"
  shows "\<not> rl_running (snd (tick w returned cfg now st)) \<and> \<not> rl_stopped (snd (tick w returned cfg now st))"
  using assms by (simp add: tick_def claim_def case_prod_beta Let_def)

section \<open>Every event is settled\<close>

text \<open>How many more passes an event can be claimed by: at least one while it is pending.\<close>

definition attempts_left :: "outbox_config \<Rightarrow> outbox_row \<Rightarrow> nat" where
  "attempts_left cfg r = (if pending r then max 1 (oc_maxAttempts cfg - ob_attempts r) else 0)"

definition backlog :: "outbox_config \<Rightarrow> outbox_row list \<Rightarrow> nat" where
  "backlog cfg rows = sum_list (map (attempts_left cfg) rows)"

lemma settle_progress:
  "notes_failures w \<Longrightarrow> pending r \<Longrightarrow> attempts_left cfg (settle w cfg now n r) < attempts_left cfg r"
  by (auto simp: settle_def settle_row_def attempts_left_def notes_failures_def split: option.splits)

lemma settle_next:
  "notes_failures w \<Longrightarrow> pending (settle w cfg now n r) \<Longrightarrow> ob_nextAttemptAt (settle w cfg now n r) \<le> now + 900000"
  by (auto simp: settle_def settle_row_def notes_failures_def backoff_seconds_def min_def split: option.splits if_splits)

lemma settle_id [simp]: "ob_id (settle w cfg now n r) = ob_id r"
  by (simp add: settle_def)

lemma sum_list_less:
  assumes "\<And>x. x \<in> set xs \<Longrightarrow> f x \<le> (g x :: nat)" and "x \<in> set xs" and "f x < g x"
  shows "sum_list (map f xs) < sum_list (map g xs)"
  using assms
proof (induction xs)
  case (Cons y ys)
  show ?case
  proof (cases "x \<in> set ys")
    case True
    then have "sum_list (map f ys) < sum_list (map g ys)" using Cons by simp
    moreover have "f y \<le> g y" using Cons.prems(1) by simp
    ultimately show ?thesis by simp
  next
    case False
    then have "f y < g y" using Cons.prems by simp
    moreover have "sum_list (map f ys) \<le> sum_list (map g ys)"
      using Cons.prems(1) by (intro sum_list_mono) simp
    ultimately show ?thesis by simp
  qed
qed simp

text \<open>What a pass keeps and what it wins, over rows that are all due.\<close>

definition due_by :: "time \<Rightarrow> outbox_row list \<Rightarrow> bool" where
  "due_by t rows \<longleftrightarrow> (\<forall>r \<in> set rows. pending r \<longrightarrow> ob_nextAttemptAt r \<le> t)"

definition idle :: "relay \<Rightarrow> bool" where
  "idle st \<longleftrightarrow> keys_unique ob_id (rl_rows st) \<and> \<not> rl_running st \<and> \<not> rl_stopped st"

lemma tick_progress:
  assumes i: "idle st" and p: "permuting returned" and b: "0 < oc_batchSize cfg" and d: "due_by now (rl_rows st)"
    and q: "notes_failures w" and st'_def: "st' = snd (tick w returned cfg now st)"
  shows "idle st'" and "due_by (now + 900000) (rl_rows st')"
    and "backlog cfg (rl_rows st') = 0 \<or> backlog cfg (rl_rows st') < backlog cfg (rl_rows st)"
proof -
  note st = i [unfolded idle_def]
  let ?c = "claimable (oc_batchSize cfg) now (rl_rows st)"
  obtain f where f: "rl_rows st' = map (\<lambda>r. if r \<in> set ?c then settle w cfg now (f (ob_id r)) r else r) (rl_rows st)"
    unfolding st'_def using tick_rows [of st returned w cfg now] st p q by blast
  have "map ob_id (rl_rows st') = map ob_id (rl_rows st)" by (simp add: f)
  then show "idle st'" using st tick_flags [of st w returned cfg now] by (simp add: idle_def keys_unique_def st'_def)
  show "due_by (now + 900000) (rl_rows st')"
    using d by (fastforce simp: due_by_def f dest: settle_next [OF q])
  show "backlog cfg (rl_rows st') = 0 \<or> backlog cfg (rl_rows st') < backlog cfg (rl_rows st)"
  proof (cases "\<exists>r \<in> set (rl_rows st). pending r")
    case True
    then have "?c \<noteq> []" using d b claimable_nonempty unfolding due_by_def by blast
    then obtain r where r: "r \<in> set ?c" by (cases ?c) auto
    have less: "attempts_left cfg (settle w cfg now (f (ob_id q)) q) < attempts_left cfg q" if "q \<in> set ?c" for q
      using settle_progress [OF q] claimable_mem that by blast
    have "sum_list (map (\<lambda>q. attempts_left cfg (if q \<in> set ?c then settle w cfg now (f (ob_id q)) q else q)) (rl_rows st))
        < sum_list (map (attempts_left cfg) (rl_rows st))"
      by (rule sum_list_less [of _ _ _ r]) (use less r claimable_mem in \<open>auto intro: less_imp_le\<close>)
    then show ?thesis by (simp add: backlog_def f comp_def)
  next
    case False
    then have "?c = []" by (metis claimable_mem hd_in_set)
    then show ?thesis using False by (auto simp: backlog_def f attempts_left_def intro!: sum_list_0)
  qed
qed

fun run_ticks ::
    "outside \<Rightarrow> (outbox_row list \<Rightarrow> outbox_row list) \<Rightarrow> outbox_config \<Rightarrow> time list \<Rightarrow> relay \<Rightarrow> relay" where
  "run_ticks w returned cfg [] st = st"
| "run_ticks w returned cfg (t # ts) st = run_ticks w returned cfg ts (snd (tick w returned cfg t st))"

fun spaced :: "int \<Rightarrow> time list \<Rightarrow> bool" where
  "spaced gap (a # b # ts) = (a + gap \<le> b \<and> spaced gap (b # ts))"
| "spaced gap ts = True"

lemma due_by_mono: "due_by t rows \<Longrightarrow> t \<le> t' \<Longrightarrow> due_by t' rows"
  by (auto simp: due_by_def)

lemma backlog_0_iff: "backlog cfg rows = 0 \<longleftrightarrow> (\<forall>r \<in> set rows. \<not> pending r)"
proof -
  have "attempts_left cfg r = 0 \<longleftrightarrow> \<not> pending r" for r by (auto simp: attempts_left_def)
  then show ?thesis by (simp add: backlog_def sum_list_eq_0_iff)
qed

text \<open>
  C16. Every event is settled, whatever the bus answers and whichever marks fail: passes that run at
  least the longest back-off apart leave no event pending after as many passes as there are
  attempts left in the table, as long as the writes that record a failure go through. Each event is
  then either published or dead-lettered; none waits for ever.
\<close>

theorem relay_settles_every_event:
  assumes "idle st" and "permuting returned" and "0 < oc_batchSize cfg" and "notes_failures w"
    and "spaced 900000 ts" and "ts \<noteq> [] \<Longrightarrow> due_by (hd ts) (rl_rows st)"
    and "backlog cfg (rl_rows st) \<le> length ts"
  shows "\<forall>r \<in> set (rl_rows (run_ticks w returned cfg ts st)). \<not> pending r"
  using assms
proof (induction ts arbitrary: st)
  case Nil
  then show ?case by (simp add: backlog_0_iff)
next
  case (Cons t ts)
  have d: "due_by t (rl_rows st)" using Cons.prems(6) by simp
  note step = tick_progress [OF Cons.prems(1-3) d Cons.prems(4) refl]
  have "due_by (hd ts) (rl_rows (snd (tick w returned cfg t st)))" if "ts \<noteq> []"
    using that Cons.prems(5) step(2) by (cases ts) (auto intro: due_by_mono)
  moreover have "backlog cfg (rl_rows (snd (tick w returned cfg t st))) \<le> length ts"
    using step(3) Cons.prems(7) by auto
  moreover have "spaced 900000 ts" using Cons.prems(5) by (cases ts) auto
  ultimately show ?case using Cons.IH [OF step(1) Cons.prems(2,3,4)] by simp
qed

definition demo_relay :: relay where
  "demo_relay = \<lparr>rl_rows = [publish_row ''e1'' ''lead'' ''l1'' ''lead.created'' ''{}'' 0,
       publish_row ''e2'' ''lead'' ''l1'' ''lead.assigned'' ''{}'' 5],
     rl_running = False, rl_stopped = False, rl_publishedCount = 0, rl_failedCount = 0, rl_deadLetteredCount = 0,
     rl_calls = []\<rparr>"

definition demo_relay_config :: outbox_config where
  "demo_relay_config = \<lparr>oc_batchSize = 10, oc_maxAttempts = 2\<rparr>"

text \<open>A bus that refuses its first call and every third, beside a mark that fails the second time.\<close>

definition demo_outside :: outside where
  "demo_outside = \<lparr>os_publish = (\<lambda>n e. if n = 0 \<or> n mod 3 = 2 then Some ''unavailable'' else None),
     os_mark = (\<lambda>n e. if n = 1 then Some ''connection lost'' else None), os_note = (\<lambda>n e. None)\<rparr>"

lemma permuting_id [simp]: "permuting (\<lambda>xs. xs)"
  by (simp add: permuting_def)

lemma relay_settles_every_event_witness:
  "filter pending (rl_rows (run_ticks demo_outside (\<lambda>xs. xs) demo_relay_config [10, 900010, 1800010, 2700010] demo_relay)) = []"
  unfolding filter_empty_conv
proof (rule relay_settles_every_event)
  show "idle demo_relay" by (simp add: idle_def demo_relay_def keys_unique_def publish_row_def)
  show "due_by (hd [10, 900010, 1800010, 2700010]) (rl_rows demo_relay)"
    by (simp add: due_by_def demo_relay_def publish_row_def)
  show "backlog demo_relay_config (rl_rows demo_relay) \<le> length [10, 900010, 1800010, 2700010 :: time]"
    by code_simp
qed (simp_all add: demo_relay_config_def notes_failures_def demo_outside_def)

section \<open>One relay delivers each event at least once\<close>

text \<open>
  Events enter with fresh ids, and one process at a time runs passes, one after the other. It may be
  stopped, it may die between two deliveries of a batch, and it may die after the publisher took an
  event and before the row was marked; then a new process starts with its counters at nothing.
\<close>

definition restarted :: "relay \<Rightarrow> relay" where
  "restarted st = st\<lparr>rl_running := False, rl_stopped := False, rl_publishedCount := 0, rl_failedCount := 0,
     rl_deadLetteredCount := 0\<rparr>"

definition taken_unmarked :: "string \<Rightarrow> relay \<Rightarrow> relay" where
  "taken_unmarked i st = st\<lparr>rl_calls := rl_calls st @ [(i, Unmarked)]\<rparr>"

inductive relay_reach :: "relay \<Rightarrow> bool" where
  start: "relay_reach \<lparr>rl_rows = [], rl_running = False, rl_stopped = False, rl_publishedCount = 0, rl_failedCount = 0,
    rl_deadLetteredCount = 0, rl_calls = []\<rparr>"
| emit: "relay_reach st \<Longrightarrow> find_by ob_id i (rl_rows st) = None \<Longrightarrow>
    relay_reach (st\<lparr>rl_rows := insert_row (publish_row i a ai t p now) (rl_rows st)\<rparr>)"
| pass: "relay_reach st \<Longrightarrow> permuting returned \<Longrightarrow> relay_reach (snd (tick w returned cfg now st))"
| stop: "relay_reach st \<Longrightarrow> relay_reach (st\<lparr>rl_stopped := True\<rparr>)"
| restart: "relay_reach st \<Longrightarrow> relay_reach (restarted st)"
| die: "relay_reach st \<Longrightarrow> permuting returned \<Longrightarrow> claim returned cfg now st = (batch, s1) \<Longrightarrow>
    relay_reach (restarted (fst (deliver_each w cfg now (take k batch) s1)))"
| die_unmarked: "relay_reach st \<Longrightarrow> permuting returned \<Longrightarrow> claim returned cfg now st = (batch, s1) \<Longrightarrow> k < length batch \<Longrightarrow>
    relay_reach (restarted (taken_unmarked (ob_id (batch ! k)) (fst (deliver_each w cfg now (take k batch) s1))))"

definition handed :: "relay \<Rightarrow> string \<Rightarrow> handover \<Rightarrow> nat" where
  "handed st i h = count_list (rl_calls st) (i, h)"

definition hand_overs :: "relay \<Rightarrow> string \<Rightarrow> nat" where
  "hand_overs st i = length (filter (\<lambda>c. fst c = i) (rl_calls st))"

lemma hand_overs_split: "hand_overs st i = handed st i Refused + handed st i Marked + handed st i Unmarked"
proof -
  have "length (filter (\<lambda>c. fst c = i) cs) = count_list cs (i, Refused) + count_list cs (i, Marked) + count_list cs (i, Unmarked)"
    for cs :: "(string \<times> handover) list"
  proof (induction cs)
    case (Cons c cs)
    then show ?case by (cases c; cases "snd c") auto
  qed simp
  then show ?thesis by (simp add: hand_overs_def handed_def)
qed

text \<open>
  The books of the relay: a row says published exactly when one hand-over marked it, no row is both
  published and dead-lettered, and every hand-over has burnt an attempt, with one to spare for the
  events of the batch still owed.
\<close>

definition row_accounted :: "string set \<Rightarrow> relay \<Rightarrow> outbox_row \<Rightarrow> bool" where
  "row_accounted owed st r \<longleftrightarrow> handed st (ob_id r) Marked = (if ob_publishedAt r = None then 0 else 1) \<and>
     (ob_deadLetteredAt r \<noteq> None \<longrightarrow> ob_publishedAt r = None) \<and>
     hand_overs st (ob_id r) + (if ob_id r \<in> owed then 1 else 0) \<le> ob_attempts r \<and> (ob_id r \<in> owed \<longrightarrow> pending r)"

definition accounted :: "string set \<Rightarrow> relay \<Rightarrow> bool" where
  "accounted owed st \<longleftrightarrow> keys_unique ob_id (rl_rows st) \<and> fst ` set (rl_calls st) \<subseteq> ob_id ` set (rl_rows st) \<and>
     owed \<subseteq> ob_id ` set (rl_rows st) \<and> (\<forall>r \<in> set (rl_rows st). row_accounted owed st r)"

lemma accounted_mono: "accounted owed st \<Longrightarrow> part \<subseteq> owed \<Longrightarrow> accounted part st"
  unfolding accounted_def row_accounted_def by (intro conjI ballI) (auto split: if_splits)

lemma accounted_frame:
  "rl_rows st' = rl_rows st \<Longrightarrow> rl_calls st' = rl_calls st \<Longrightarrow> accounted owed st' = accounted owed st"
  by (simp add: accounted_def row_accounted_def handed_def hand_overs_def)

lemma handed_append: "rl_calls st' = rl_calls st @ [(i, h)] \<Longrightarrow>
    handed st' j k = handed st j k + (if i = j \<and> h = k then 1 else 0) \<and>
    hand_overs st' j = hand_overs st j + (if i = j then 1 else 0)"
  by (auto simp: handed_def hand_overs_def)

lemma hand_over_marks: "fst (hand_over w n row) = Marked \<longleftrightarrow> snd (hand_over w n row) = None"
  by (auto simp: hand_over_def split: option.splits)

text \<open>One hand-over: the row it is about changes by \<open>f\<close>, and the history grows by one entry.\<close>

lemma accounted_hand_over:
  assumes a: "accounted owed st" and i: "i \<in> owed"
    and rows: "rl_rows st' = update_by ob_id i f (rl_rows st)" and calls: "rl_calls st' = rl_calls st @ [(i, h)]"
    and f: "\<And>r. pending r \<Longrightarrow> ob_id (f r) = ob_id r \<and> ob_attempts (f r) = ob_attempts r \<and>
      (ob_publishedAt (f r) = None \<longleftrightarrow> h \<noteq> Marked) \<and> (ob_deadLetteredAt (f r) \<noteq> None \<longrightarrow> ob_publishedAt (f r) = None)"
    and g: "\<And>r. ob_id (f r) = ob_id r"
  shows "accounted (owed - {i}) st'"
proof -
  have "map ob_id (rl_rows st') = map ob_id (rl_rows st)" by (simp add: rows update_by_def update_where_def g)
  then have ids: "ob_id ` set (rl_rows st') = ob_id ` set (rl_rows st)" by (metis set_map)
  have "row_accounted (owed - {i}) st' r'" if r': "r' \<in> set (rl_rows st')" for r'
  proof -
    obtain r where r: "r \<in> set (rl_rows st)" "r' = (if ob_id r = i then f r else r)"
      using r' by (auto simp: rows update_by_def set_update_where)
    have acc: "row_accounted owed st r" using a r(1) by (simp add: accounted_def)
    show ?thesis
    proof (cases "ob_id r = i")
      case True
      then have p: "pending r" using acc i by (simp add: row_accounted_def)
      then have "ob_publishedAt r = None" by (simp add: pending_def)
      then show ?thesis
        using True r(2) f [OF p] acc i handed_append [OF calls, of i Marked]
        by (auto simp: row_accounted_def)
    next
      case False
      then show ?thesis
        using r(2) acc handed_append [OF calls, of "ob_id r" Marked] by (auto simp: row_accounted_def)
    qed
  qed
  moreover have "keys_unique ob_id (rl_rows st')" using a g by (simp add: accounted_def rows)
  moreover have "fst ` set (rl_calls st') \<subseteq> ob_id ` set (rl_rows st')" "owed - {i} \<subseteq> ob_id ` set (rl_rows st')"
    using a i unfolding accounted_def ids calls by auto
  ultimately show ?thesis by (simp add: accounted_def)
qed

lemma accounted_deliver:
  assumes "accounted owed st" and "ob_id row \<in> owed"
  shows "accounted (owed - {ob_id row}) (fst (deliver w cfg now row st))"
proof (rule accounted_hand_over [OF assms deliver_rows(1,2)])
  fix r
  assume p: "pending r"
  let ?n = "length (rl_calls st)"
  show "ob_id (settle_row w cfg now ?n row r) = ob_id r \<and>
      ob_attempts (settle_row w cfg now ?n row r) = ob_attempts r \<and>
      (ob_publishedAt (settle_row w cfg now ?n row r) = None \<longleftrightarrow> fst (hand_over w ?n row) \<noteq> Marked) \<and>
      (ob_deadLetteredAt (settle_row w cfg now ?n row r) \<noteq> None \<longrightarrow> ob_publishedAt (settle_row w cfg now ?n row r) = None)"
    using p unfolding hand_over_marks by (auto simp: settle_row_def pending_def split: option.splits)
qed simp

lemma accounted_taken:
  assumes "accounted owed st" and "i \<in> owed"
  shows "accounted (owed - {i}) (taken_unmarked i st)"
  by (rule accounted_hand_over [OF assms, where f = "\<lambda>r. r" and h = Unmarked])
    (auto simp: taken_unmarked_def update_by_same pending_def)

lemma accounted_deliver_each:
  assumes "accounted owed st" and "distinct (map ob_id cl)" and "ob_id ` set cl \<subseteq> owed"
  shows "accounted (owed - ob_id ` set cl) (fst (deliver_each w cfg now cl st))"
  using assms
proof (induction cl arbitrary: st owed)
  case (Cons row cl)
  have one: "accounted (owed - {ob_id row}) (fst (deliver w cfg now row st))"
    by (rule accounted_deliver [OF Cons.prems(1)]) (use Cons.prems(3) in simp)
  have "ob_id row \<notin> ob_id ` set cl" "ob_id ` set cl \<subseteq> owed" using Cons.prems(2,3) by simp_all
  then have "ob_id ` set cl \<subseteq> owed - {ob_id row}" by blast
  moreover have "distinct (map ob_id cl)" using Cons.prems(2) by simp
  ultimately have "accounted (owed - {ob_id row} - ob_id ` set cl) (fst (deliver_each w cfg now cl (fst (deliver w cfg now row st))))"
    using Cons.IH [OF one] by blast
  moreover have "accounted (owed - {ob_id row} - ob_id ` set cl) (fst (deliver w cfg now row st))"
    by (rule accounted_mono [OF one]) auto
  moreover have "owed - ob_id ` set (row # cl) = owed - {ob_id row} - ob_id ` set cl" by auto
  ultimately show ?case by (simp only: deliver_each_Cons_fst split: if_splits) simp
qed simp

lemma accounted_claim:
  assumes "accounted {} st" and p: "permuting returned" and c: "claim returned cfg now st = (batch, s1)"
  shows "accounted (ob_id ` set batch) s1" and "distinct (map ob_id batch)"
proof -
  let ?c = "claimable (oc_batchSize cfg) now (rl_rows st)"
  have u: "keys_unique ob_id (rl_rows st)" using assms(1) by (simp add: accounted_def)
  have s1: "s1 = snd (claim returned cfg now st)" and b: "batch = fst (claim returned cfg now st)" using c by simp_all
  have calls: "rl_calls s1 = rl_calls st" unfolding s1 by (simp add: claim_def Let_def)
  have ids: "ob_id ` set (rl_rows s1) = ob_id ` set (rl_rows st)"
    unfolding s1 using claim_keys(3) [OF u p, of cfg now] by (metis set_map)
  have batch: "ob_id r \<in> ob_id ` set batch \<longleftrightarrow> r \<in> set ?c" if r: "r \<in> set (rl_rows st)" for r
    using claim_find [OF u p r, of cfg now] find_by_None_iff [of ob_id "ob_id r" batch]
    unfolding b by (auto split: if_splits)
  have sub: "ob_id ` set batch \<subseteq> ob_id ` set (rl_rows st)"
    unfolding ids [symmetric] b s1 by (auto simp: claim_def Let_def permuting_set [OF p])
  have "row_accounted (ob_id ` set batch) s1 r'" if r': "r' \<in> set (rl_rows s1)" for r'
  proof -
    obtain r where r: "r \<in> set (rl_rows st)" "r' = (if r \<in> set ?c then burn_attempt r else r)"
      using r' unfolding s1 claim_rows [OF u] by auto
    have acc: "row_accounted {} st r" using assms(1) r(1) by (simp add: accounted_def)
    have same: "handed s1 i h = handed st i h" "hand_overs s1 i = hand_overs st i" for i h
      by (simp_all add: handed_def hand_overs_def calls)
    show ?thesis
      using acc r(2) batch [OF r(1)] claimable_mem [of r "oc_batchSize cfg" now "rl_rows st"]
      by (cases "r \<in> set ?c") (simp_all add: row_accounted_def same)
  qed
  moreover have "keys_unique ob_id (rl_rows s1)" unfolding s1 by (rule claim_keys(2) [OF u p])
  moreover have "fst ` set (rl_calls s1) \<subseteq> ob_id ` set (rl_rows s1)"
    unfolding ids calls using assms(1) by (simp add: accounted_def)
  moreover have "ob_id ` set batch \<subseteq> ob_id ` set (rl_rows s1)" unfolding ids by (rule sub)
  ultimately show "accounted (ob_id ` set batch) s1" by (simp add: accounted_def)
  show "distinct (map ob_id batch)" using claim_keys(1) [OF u p, of cfg now] by (simp add: b keys_unique_def)
qed

lemma accounted_tick:
  assumes "accounted {} st" and p: "permuting returned"
  shows "accounted {} (snd (tick w returned cfg now st))"
proof (cases "rl_running st \<or> rl_stopped st")
  case False
  obtain batch s1 where c: "claim returned cfg now (st\<lparr>rl_running := True\<rparr>) = (batch, s1)" by fastforce
  have "accounted {} (st\<lparr>rl_running := True\<rparr>)"
    using assms(1) accounted_frame [of "st\<lparr>rl_running := True\<rparr>" st "{}"] by simp
  note claimed = accounted_claim [OF this p c]
  have "accounted {} (fst (deliver_each w cfg now batch s1))"
    by (rule accounted_mono [OF accounted_deliver_each [OF claimed subset_refl]]) simp
  then have "accounted {} ((fst (deliver_each w cfg now batch s1))\<lparr>rl_running := False\<rparr>)"
    by (subst accounted_frame) simp_all
  then show ?thesis using False by (simp add: tick_def c case_prod_beta)
qed (simp add: tick_def assms(1))

lemma accounted_restarted: "accounted {} st \<Longrightarrow> accounted {} (restarted st)"
  by (subst accounted_frame) (simp_all add: restarted_def)

lemma take_ids:
  assumes "distinct (map ob_id batch)"
  shows "distinct (map ob_id (take k batch))" and "ob_id ` set (take k batch) \<subseteq> ob_id ` set batch"
    and "k < length batch \<Longrightarrow> ob_id (batch ! k) \<in> ob_id ` set batch - ob_id ` set (take k batch)"
proof -
  show "distinct (map ob_id (take k batch))" using assms by (simp add: take_map [symmetric])
  show "ob_id ` set (take k batch) \<subseteq> ob_id ` set batch" by (auto dest: in_set_takeD)
  assume k: "k < length batch"
  have "map ob_id batch ! k \<notin> set (take k (map ob_id batch))"
    using assms k id_take_nth_drop [of k "map ob_id batch"] by (metis distinct_append length_map not_distinct_conv_prefix)
  then show "ob_id (batch ! k) \<in> ob_id ` set batch - ob_id ` set (take k batch)"
    using k by (simp add: take_map)
qed

lemma relay_accounts: "relay_reach st \<Longrightarrow> accounted {} st"
proof (induction rule: relay_reach.induct)
  case start
  then show ?case by (simp add: accounted_def keys_unique_def)
next
  case (emit st i a ai t p now)
  let ?s = "st\<lparr>rl_rows := insert_row (publish_row i a ai t p now) (rl_rows st)\<rparr>"
  have new: "i \<notin> ob_id ` set (rl_rows st)" using emit.hyps(2) by (simp add: find_by_None_iff)
  have calls: "fst ` set (rl_calls st) \<subseteq> ob_id ` set (rl_rows st)" using emit.IH by (simp add: accounted_def)
  have same: "handed ?s j h = handed st j h" "hand_overs ?s j = hand_overs st j" for j h
    by (simp_all add: handed_def hand_overs_def)
  have "filter (\<lambda>c. fst c = i) (rl_calls st) = []" using new calls by (auto simp: filter_empty_conv)
  then have "hand_overs st i = 0" by (simp add: hand_overs_def)
  then have "row_accounted {} ?s (publish_row i a ai t p now)"
    using hand_overs_split [of st i] unfolding row_accounted_def same by (simp add: publish_row_def)
  moreover have "row_accounted {} ?s r" if "r \<in> set (rl_rows st)" for r
    using emit.IH that by (simp add: accounted_def row_accounted_def same)
  moreover have "keys_unique ob_id (rl_rows ?s)"
    using emit.IH new by (simp add: accounted_def publish_row_def)
  ultimately show ?case using calls by (auto simp: accounted_def insert_row_def)
next
  case (stop st)
  then show ?case by (subst accounted_frame) simp_all
next
  case (restart st)
  show ?case by (rule accounted_restarted [OF restart.IH])
next
  case (die st returned cfg now batch s1 w k)
  note c = accounted_claim [OF die.IH die.hyps(2,3)]
  show ?case
    by (rule accounted_restarted [OF accounted_mono [OF accounted_deliver_each [OF c(1) take_ids(1,2) [OF c(2)]]]]) simp
next
  case (die_unmarked st returned cfg now batch s1 k w)
  note c = accounted_claim [OF die_unmarked.IH die_unmarked.hyps(2,3)]
  have "accounted (ob_id ` set batch - ob_id ` set (take k batch) - {ob_id (batch ! k)})
      (taken_unmarked (ob_id (batch ! k)) (fst (deliver_each w cfg now (take k batch) s1)))"
    by (rule accounted_taken [OF accounted_deliver_each [OF c(1) take_ids(1,2) [OF c(2)]]])
      (rule take_ids(3) [OF c(2) die_unmarked.hyps(4)])
  then show ?case by (rule accounted_restarted [OF accounted_mono]) simp
qed (rule accounted_tick)

text \<open>A settled event is out of the relay's reach: no pass hands it over again.\<close>

lemma deliver_each_hands:
  "i \<notin> ob_id ` set cl \<Longrightarrow> filter (\<lambda>c. fst c = i) (rl_calls (fst (deliver_each w cfg now cl st))) =
    filter (\<lambda>c. fst c = i) (rl_calls st)"
  by (induction cl arbitrary: st) (auto simp: deliver_each_Cons_fst deliver_rows simp del: deliver_each.simps(2))

lemma tick_leaves_settled:
  assumes u: "keys_unique ob_id (rl_rows st)" and p: "permuting returned" and r: "r \<in> set (rl_rows st)" "\<not> pending r"
  shows "hand_overs (snd (tick w returned cfg now st)) (ob_id r) = hand_overs st (ob_id r)"
proof (cases "rl_running st \<or> rl_stopped st")
  case False
  let ?st = "st\<lparr>rl_running := True\<rparr>"
  have "find_by ob_id (ob_id r) (fst (claim returned cfg now ?st)) = None"
    using claim_find [of ?st returned r cfg now] u p r claimable_mem [of r "oc_batchSize cfg" now "rl_rows st"] by auto
  then have "ob_id r \<notin> ob_id ` set (fst (claim returned cfg now ?st))" unfolding find_by_None_iff .
  from deliver_each_hands [OF this, of w cfg now "snd (claim returned cfg now ?st)"] show ?thesis
    using False by (simp add: tick_def case_prod_beta hand_overs_def claim_def Let_def)
qed (simp add: tick_def)

text \<open>
  C17. Delivery by one relay is at least once and its repetitions are accounted for. In every state
  that stops, failing marks and crashes can lead to, an event whose row says published was taken by
  the bus; the bus took it once more for every hand-over whose mark was lost, and only then, so that
  an event none of whose marks was lost was taken exactly once if its row says published and never
  otherwise; each hand-over, refused ones included, has burnt an attempt of the row; no event is
  both published and dead-lettered, and once it is either, no further pass hands it over.
\<close>

theorem relay_delivers_at_least_once:
  assumes "relay_reach st" and "r \<in> set (rl_rows st)"
  shows "handed st (ob_id r) Marked = (if ob_publishedAt r = None then 0 else 1) \<and>
    handed st (ob_id r) Refused + handed st (ob_id r) Marked + handed st (ob_id r) Unmarked \<le> ob_attempts r \<and>
    (ob_deadLetteredAt r \<noteq> None \<longrightarrow> ob_publishedAt r = None) \<and>
    (\<forall>w returned cfg now. permuting returned \<and> \<not> pending r \<longrightarrow>
       hand_overs (snd (tick w returned cfg now st)) (ob_id r) = hand_overs st (ob_id r))"
proof -
  have "accounted {} st" by (rule relay_accounts [OF assms(1)])
  then have u: "keys_unique ob_id (rl_rows st)" and acc: "row_accounted {} st r"
    using assms(2) by (simp_all add: accounted_def)
  show ?thesis
    using acc tick_leaves_settled [OF u _ assms(2)] hand_overs_split [of st "ob_id r"]
    unfolding row_accounted_def by auto
qed

section \<open>Two relays\<close>

text \<open>A claim locks its rows for the one statement only: the next claim at the same instant selects them again.\<close>

lemma js_sort_burn:
  "js_sort by_occurrence (map burnt xs) = map burnt (js_sort by_occurrence xs)"
  if "\<And>x. ob_occurredAt (burnt x) = ob_occurredAt x"
proof -
  have "insert_cmp by_occurrence (burnt x) (map burnt ys) = map burnt (insert_cmp by_occurrence x ys)" for x ys
    by (induction ys) (auto simp: by_occurrence_def that)
  then show ?thesis by (induction xs) auto
qed

lemma claim_claims_again:
  assumes "keys_unique ob_id (rl_rows st)"
  shows "map ob_id (claimable b now (rl_rows (snd (claim returned cfg now st)))) =
    map ob_id (claimable b now (rl_rows st))"
proof -
  let ?burnt = "\<lambda>r. if r \<in> set (claimable (oc_batchSize cfg) now (rl_rows st)) then burn_attempt r else r"
  have f: "filter (\<lambda>r. pending r \<and> ob_nextAttemptAt r \<le> now) (map ?burnt rows) =
      map ?burnt (filter (\<lambda>r. pending r \<and> ob_nextAttemptAt r \<le> now) rows)" for rows
    by (induction rows) auto
  show ?thesis
    unfolding claim_rows [OF assms] claimable_def [of b]
    by (simp only: f, subst js_sort_burn) (auto simp: take_map)
qed

text \<open>An outside where nothing fails.\<close>

definition all_well :: outside where
  "all_well = \<lparr>os_publish = (\<lambda>n e. None), os_mark = (\<lambda>n e. None), os_note = (\<lambda>n e. None)\<rparr>"

lemma deliver_each_calls:
  "rl_calls (fst (deliver_each all_well cfg now cl st)) = rl_calls st @ map (\<lambda>row. (ob_id row, Marked)) cl"
proof -
  have "hand_over all_well n row = (Marked, None)" for n row by (simp add: hand_over_def all_well_def)
  moreover have "notes_failures all_well" by (simp add: notes_failures_def all_well_def)
  ultimately show ?thesis
    by (induction cl arbitrary: st) (simp_all add: deliver_rows deliver_each_Cons_quiet del: deliver_each.simps(2))
qed

text \<open>
  The claim does not keep two relays apart. When a second relay claims before the first has
  delivered, it is handed the same batch (the lock of the claiming statement ends with the
  statement, and a claimed row stays claimable), so both hand every event of the batch to the bus
  and the bus accepts each of them twice.
\<close>

theorem two_relays_publish_twice:
  assumes u: "keys_unique ob_id (rl_rows st)" and p: "permuting returned"
    and r: "r \<in> set (claimable (oc_batchSize cfg) now (rl_rows st))"
    and one: "claim returned cfg now st = (first_batch, s1)" and two: "claim returned cfg now s1 = (second_batch, s2)"
  shows "handed (fst (deliver_each all_well cfg now second_batch (fst (deliver_each all_well cfg now first_batch s2)))) (ob_id r) Marked =
    handed st (ob_id r) Marked + 2"
proof -
  have s1: "s1 = snd (claim returned cfg now st)" using one by simp
  have u1: "keys_unique ob_id (rl_rows s1)" using claim_keys(2) [OF u p] s1 by simp
  have once: "count_list (map (\<lambda>row. (ob_id row, Marked)) cl) (i, Marked) = 1"
    if "i \<in> ob_id ` set cl" "distinct (map ob_id cl)" for i cl
    using that by (induction cl) (auto simp: count_list_0_iff)
  have ids: "ob_id q \<in> ob_id ` set (fst (claim returned cfg now s))"
    if k: "keys_unique ob_id (rl_rows s)" and q: "q \<in> set (claimable (oc_batchSize cfg) now (rl_rows s))" for s q
  proof -
    have "q \<in> set (rl_rows s)" using claimable_mem [OF q] by blast
    from claim_find [OF k p this, of cfg now] q
    have "find_by ob_id (ob_id q) (fst (claim returned cfg now s)) = Some (burn_attempt q)" by simp
    from find_by_SomeD [OF this] have b: "burn_attempt q \<in> set (fst (claim returned cfg now s))" "ob_id (burn_attempt q) = ob_id q" by blast+
    from imageI [OF b(1), of ob_id] show ?thesis unfolding b(2) .
  qed
  have "ob_id r \<in> set (map ob_id (claimable (oc_batchSize cfg) now (rl_rows s1)))"
    using r unfolding s1 claim_claims_again [OF u] by simp
  then obtain q where q: "q \<in> set (claimable (oc_batchSize cfg) now (rl_rows s1))" "ob_id q = ob_id r" by auto
  have "ob_id r \<in> ob_id ` set first_batch" "ob_id r \<in> ob_id ` set second_batch"
    using ids [OF u r] ids [OF u1 q(1)] one two q(2) by simp_all
  moreover have "distinct (map ob_id first_batch)" "distinct (map ob_id second_batch)"
    using claim_keys(1) [OF u p, of cfg now] claim_keys(1) [OF u1 p, of cfg now] one two
    by (simp_all add: keys_unique_def)
  moreover have "rl_calls s2 = rl_calls st"
    using one two by (auto simp: claim_def Let_def)
  ultimately show ?thesis by (simp add: handed_def deliver_each_calls once)
qed

lemma two_relays_publish_twice_witness:
  "\<exists>b1 s1 b2 s2. claim (\<lambda>xs. xs) demo_relay_config 10 demo_relay = (b1, s1) \<and>
     claim (\<lambda>xs. xs) demo_relay_config 10 s1 = (b2, s2) \<and>
     handed (fst (deliver_each all_well demo_relay_config 10 b2
       (fst (deliver_each all_well demo_relay_config 10 b1 s2)))) ''e1'' Marked = 2"
proof -
  obtain b1 s1 b2 s2 where one: "claim (\<lambda>xs. xs) demo_relay_config 10 demo_relay = (b1, s1)"
      and two: "claim (\<lambda>xs. xs) demo_relay_config 10 s1 = (b2, s2)"
    by (meson surj_pair)
  let ?e = "publish_row ''e1'' ''lead'' ''l1'' ''lead.created'' ''{}'' 0"
  have mem: "?e \<in> set (claimable (oc_batchSize demo_relay_config) 10 (rl_rows demo_relay))"
    by (simp add: claimable_def demo_relay_def demo_relay_config_def publish_row_def pending_def by_occurrence_def)
  have u: "keys_unique ob_id (rl_rows demo_relay)" by (simp add: demo_relay_def keys_unique_def publish_row_def)
  have "handed (fst (deliver_each all_well demo_relay_config 10 b2
      (fst (deliver_each all_well demo_relay_config 10 b1 s2)))) (ob_id ?e) Marked = handed demo_relay (ob_id ?e) Marked + 2"
    by (rule two_relays_publish_twice [OF u permuting_id mem one two])
  then show ?thesis using one two by (auto simp: publish_row_def demo_relay_def handed_def)
qed

definition poisoned :: outbox_row where
  "poisoned = publish_row ''e1'' ''lead'' ''l1'' ''lead.created'' ''{}'' 0"

definition no_events :: relay where
  "no_events = \<lparr>rl_rows = [], rl_running = False, rl_stopped = False, rl_publishedCount = 0, rl_failedCount = 0,
     rl_deadLetteredCount = 0, rl_calls = []\<rparr>"

definition one_event :: relay where
  "one_event = no_events\<lparr>rl_rows := [poisoned]\<rparr>"

lemma one_event_reach: "relay_reach one_event"
proof -
  have "relay_reach no_events" unfolding no_events_def by (rule relay_reach.start)
  from relay_reach.emit [OF this, of "''e1''" "''lead''" "''l1''" "''lead.created''" "''{}''" 0]
  show ?thesis by (simp add: no_events_def one_event_def insert_row_def poisoned_def)
qed

text \<open>The process dies after the bus took the event; the next pass hands it over again and marks it.\<close>

definition crashed_once :: relay where
  "crashed_once = restarted (taken_unmarked ''e1'' (snd (claim (\<lambda>xs. xs) demo_relay_config 10 one_event)))"

lemma crashed_once_reach: "relay_reach crashed_once"
proof -
  have "claim (\<lambda>xs. xs) demo_relay_config 10 one_event =
      ([burn_attempt poisoned], snd (claim (\<lambda>xs. xs) demo_relay_config 10 one_event))"
    by (simp add: claim_def one_event_def no_events_def demo_relay_config_def claimable_def poisoned_def publish_row_def pending_def)
  from relay_reach.die_unmarked [OF one_event_reach permuting_id this, of 0 all_well] show ?thesis
    by (simp add: crashed_once_def poisoned_def publish_row_def)
qed

lemma relay_delivers_at_least_once_witness:
  "let st = snd (tick all_well (\<lambda>xs. xs) demo_relay_config 20 crashed_once)
   in map ob_publishedAt (rl_rows st) = [Some 20] \<and> handed st ''e1'' Marked = 1 \<and> handed st ''e1'' Unmarked = 1"
proof -
  let ?st = "snd (tick all_well (\<lambda>xs. xs) demo_relay_config 20 crashed_once)"
  have reach: "relay_reach ?st" by (rule relay_reach.pass [OF crashed_once_reach permuting_id])
  have rows: "rl_rows ?st = [delivered 20 (burn_attempt (burn_attempt poisoned))]"
    and again: "rl_calls ?st = [(''e1'', Unmarked), (''e1'', Marked)]" by code_simp+
  have i: "ob_id (delivered 20 (burn_attempt (burn_attempt poisoned))) = ''e1''"
    by (simp add: poisoned_def publish_row_def)
  have "handed ?st ''e1'' Marked = 1"
    using relay_delivers_at_least_once [OF reach, of "delivered 20 (burn_attempt (burn_attempt poisoned))"] rows i by simp
  then show ?thesis using rows again by (simp add: Let_def handed_def)
qed

text \<open>
  A mark that fails counts as a failed publish: with every attempt used up, an event the bus took is
  set aside as a dead letter.
\<close>

definition marks_fail :: outside where
  "marks_fail = all_well\<lparr>os_mark := (\<lambda>n e. Some ''connection lost'')\<rparr>"

theorem taken_event_is_dead_lettered:
  "let st = snd (tick marks_fail (\<lambda>xs. xs) (demo_relay_config\<lparr>oc_maxAttempts := 1\<rparr>) 10 one_event)
   in handed st ''e1'' Unmarked = 1 \<and> map ob_deadLetteredAt (rl_rows st) = [Some 10]"
  by code_simp

end
