(* ===== verification/Otp.thy ===== *)
theory Otp
  imports Pipeline
begin

text \<open>
  One-time codes at event registration: \<open>apps/api/src/modules/leads/otp.service.ts\<close>, the two public
  endpoints of \<open>leads.service.ts\<close> over it, and the pass to book a seat it hands out
  (\<open>presentations.service.ts\<close>). The hash, the signature and the SMS provider are parameters; the
  provider's answer is \<open>Inl\<close> the reason it refused and \<open>Inr\<close> the message id it gave. Masked
  numbers in the answers are not modelled.
\<close>

section \<open>State\<close>

definition OTP_LENGTH :: nat where "OTP_LENGTH = 6"
definition OTP_TTL_MINUTES :: int where "OTP_TTL_MINUTES = 10"
definition OTP_MAX_ATTEMPTS :: nat where "OTP_MAX_ATTEMPTS = 5"
definition OTP_MAX_SENDS_PER_HOUR :: nat where "OTP_MAX_SENDS_PER_HOUR = 3"

record mobile_otp =
  mo_id :: string
  mo_mobile :: string
  mo_codeHash :: string
  mo_leadId :: "string option"
  mo_expiresAt :: time
  mo_attempts :: nat
  mo_consumedAt :: "time option"
  mo_sent :: bool
  mo_providerResponse :: "string option"
  mo_ipAddress :: "string option"
  mo_createdAt :: time

record otp_challenge =
  oc_verificationId :: "string option"
  oc_expiresInSeconds :: int
  oc_sent :: bool

record otp_verify_result =
  ov_verified :: bool
  ov_reason :: "string option"
  ov_attemptsRemaining :: nat
  ov_bookingToken :: "string option"

type_synonym sms_provider = "string \<Rightarrow> string \<Rightarrow> string + string option"

text \<open>
  \<open>ot_messages\<close> is what was handed to the SMS provider, in order: a code, with the moment it was
  handed over, the number and the text, or the note about the event's schedule.
\<close>

datatype sms_message = CodeSms time string string | ScheduleSms string string

record otp_state =
  ot_codes :: "mobile_otp list"
  ot_crm :: crm
  ot_messages :: "sms_message list"

interpretation otp_table: repository "find_by mo_id" "update_by mo_id" insert_row mo_id
  by (rule repository_by)

definition renderOtpMessage :: "string \<Rightarrow> string" where
  "renderOtpMessage code =
    code @ '' is your OTP to verify your mobile number for SIHL event registration. '' @
    ''Valid for 10 minutes. Do not share it with anyone. - Shah Investors Home Ltd''"

definition renderEventRegistrationMessage :: "string \<Rightarrow> string \<Rightarrow> string" where
  "renderEventRegistrationMessage eventName link =
    ''Thank you for registering with SIHL at '' @ eventName @ ''. '' @
    ''Event schedule and details: '' @ link @ '' - Shah Investors Home Ltd''"

section \<open>Issuing a code\<close>

text \<open>\<open>draw\<close> is \<open>randomInt(0, 10 ** OTP_LENGTH)\<close>.\<close>

definition generate_code :: "nat \<Rightarrow> string" where
  "generate_code draw = pad_start OTP_LENGTH (show_nat draw)"

definition recent_codes :: "time \<Rightarrow> string \<Rightarrow> mobile_otp list \<Rightarrow> nat" where
  "recent_codes now mobile codes =
    count_where (\<lambda>c. mo_mobile c = mobile \<and> mo_createdAt c \<ge> now - 60 * 60 * 1000) codes"

definition outstanding :: "time \<Rightarrow> string \<Rightarrow> mobile_otp \<Rightarrow> bool" where
  "outstanding now mobile c \<longleftrightarrow> mo_mobile c = mobile \<and> mo_consumedAt c = None \<and> mo_expiresAt c > now"

definition consume_code :: "time \<Rightarrow> mobile_otp \<Rightarrow> mobile_otp" where
  "consume_code now c = c\<lparr>mo_consumedAt := Some now\<rparr>"

definition unavailable :: otp_challenge where
  "unavailable = \<lparr>oc_verificationId = None, oc_expiresInSeconds = 0, oc_sent = False\<rparr>"

text \<open>What follows the count: the writes and the message, on the strength of the count read before.\<close>

definition issue_write ::
    "(string \<Rightarrow> string) \<Rightarrow> sms_provider \<Rightarrow> time \<Rightarrow> nat \<Rightarrow> string \<Rightarrow> string \<Rightarrow> string option \<Rightarrow> string option \<Rightarrow>
     otp_state \<Rightarrow> otp_challenge \<times> otp_state" where
  "issue_write hash sms now draw i mobile leadId ip s =
    (let code = generate_code draw;
         retired = update_where (outstanding now mobile) (consume_code now) (ot_codes s);
         row = \<lparr>mo_id = i, mo_mobile = mobile, mo_codeHash = hash code, mo_leadId = leadId,
                mo_expiresAt = now + OTP_TTL_MINUTES * 60 * 1000, mo_attempts = 0, mo_consumedAt = None,
                mo_sent = False, mo_providerResponse = None, mo_ipAddress = ip, mo_createdAt = now\<rparr>;
         answer = sms mobile (renderOtpMessage code);
         response = map_option (take 200) (case answer of Inl reason \<Rightarrow> Some reason | Inr messageId \<Rightarrow> messageId);
         codes = update_by mo_id i (\<lambda>c. c\<lparr>mo_sent := \<not> isl answer, mo_providerResponse := response\<rparr>)
                   (insert_row row retired);
         s = s\<lparr>ot_codes := codes, ot_messages := ot_messages s @ [CodeSms now mobile (renderOtpMessage code)]\<rparr>
     in if isl answer then (unavailable\<lparr>oc_verificationId := Some i\<rparr>, s)
        else (\<lparr>oc_verificationId = Some i, oc_expiresInSeconds = OTP_TTL_MINUTES * 60, oc_sent = True\<rparr>, s))"

definition issue ::
    "(string \<Rightarrow> string) \<Rightarrow> sms_provider \<Rightarrow> time \<Rightarrow> nat \<Rightarrow> string \<Rightarrow> string \<Rightarrow> string option \<Rightarrow> string option \<Rightarrow>
     otp_state \<Rightarrow> otp_challenge \<times> otp_state" where
  "issue hash sms now draw i mobile leadId ip s =
    (if recent_codes now mobile (ot_codes s) \<ge> OTP_MAX_SENDS_PER_HOUR then (unavailable, s)
     else issue_write hash sms now draw i mobile leadId ip s)"

definition resendCaptureCode ::
    "(string \<Rightarrow> string) \<Rightarrow> sms_provider \<Rightarrow> time \<Rightarrow> nat \<Rightarrow> string \<Rightarrow> string \<Rightarrow> string option \<Rightarrow>
     otp_state \<Rightarrow> otp_challenge \<times> otp_state" where
  "resendCaptureCode hash sms now draw i verificationId ip s =
    (case find_by mo_id verificationId (ot_codes s) of
       None \<Rightarrow> (unavailable, s)
     | Some c \<Rightarrow> issue hash sms now draw i (mo_mobile c) (mo_leadId c) ip s)"

section \<open>Checking a code\<close>

definition bookingTokenFor :: "(string \<Rightarrow> string) \<Rightarrow> string \<Rightarrow> crm \<Rightarrow> string option" where
  "bookingTokenFor sign leadId s =
    (case find_by l_id leadId (cr_leads s) of
       None \<Rightarrow> None
     | Some l \<Rightarrow> if l_mobileVerifiedAt l = None then None else Some (sign leadId))"

text \<open>The event is the one of the newest attendance row, which is the last one written.\<close>

definition sendEventRegistrationSms ::
    "(string \<Rightarrow> string option) \<Rightarrow> string \<Rightarrow> string \<Rightarrow> string \<Rightarrow> otp_state \<Rightarrow> otp_state" where
  "sendEventRegistrationSms eventName link leadId mobile s =
    (case find (\<lambda>a. ea_leadId a = leadId) (rev (cr_attendance (ot_crm s))) of
       None \<Rightarrow> s
     | Some a \<Rightarrow>
         (case eventName (ea_eventId a) of
            None \<Rightarrow> s
          | Some name \<Rightarrow>
              if name = [] then s
              else s\<lparr>ot_messages := ot_messages s @ [ScheduleSms mobile (renderEventRegistrationMessage name link)]\<rparr>))"

definition refused :: "string \<Rightarrow> nat \<Rightarrow> otp_verify_result" where
  "refused reason remaining =
    \<lparr>ov_verified = False, ov_reason = Some reason, ov_attemptsRemaining = remaining, ov_bookingToken = None\<rparr>"

definition stamp_verified :: "time \<Rightarrow> lead_row \<Rightarrow> lead_row" where
  "stamp_verified now l = l\<lparr>l_mobileVerifiedAt := Some now, l_mobileVerificationMethod := Some ''OTP''\<rparr>"

definition confirm_code :: "time \<Rightarrow> mobile_otp \<Rightarrow> otp_state \<Rightarrow> otp_state result" where
  "confirm_code now c s =
    (let codes = update_by mo_id (mo_id c) (consume_code now) (ot_codes s) in
     case mo_leadId c of
       None \<Rightarrow> Inr (s\<lparr>ot_codes := codes\<rparr>)
     | Some leadId \<Rightarrow>
         (if find_by l_id leadId (cr_leads (ot_crm s)) = None then Inl (NotFound ''Not found'')
          else and_then (update_lead leadId (stamp_verified now) (ot_crm s)) (\<lambda>t.
            Inr (s\<lparr>ot_codes := codes, ot_crm := t\<rparr>))))"

definition verify ::
    "(string \<Rightarrow> string) \<Rightarrow> (string \<Rightarrow> string) \<Rightarrow> (string \<Rightarrow> string option) \<Rightarrow> string \<Rightarrow> time \<Rightarrow> string \<Rightarrow> string \<Rightarrow>
     otp_state \<Rightarrow> otp_verify_result result \<times> otp_state" where
  "verify hash sign eventName link now verificationId code s =
    (case find_by mo_id verificationId (ot_codes s) of
       None \<Rightarrow> (Inr (refused ''That code is not valid. Ask for a new one.'' 0), s)
     | Some c \<Rightarrow>
         (if mo_consumedAt c \<noteq> None then (Inr (refused ''That code is not valid. Ask for a new one.'' 0), s)
          else if mo_expiresAt c \<le> now then (Inr (refused ''That code has expired. Ask for a new one.'' 0), s)
          else if mo_attempts c \<ge> OTP_MAX_ATTEMPTS
            then (Inr (refused ''Too many wrong attempts. Ask for a new code.'' 0),
                  s\<lparr>ot_codes := update_by mo_id verificationId (consume_code now) (ot_codes s)\<rparr>)
          else if hash code \<noteq> mo_codeHash c
            then (let remaining = OTP_MAX_ATTEMPTS - (mo_attempts c + 1)
                  in (Inr (refused (if remaining > 0 then ''That code is not right. Try again.''
                             else ''Too many wrong attempts. Ask for a new code.'') remaining),
                      s\<lparr>ot_codes := update_by mo_id verificationId (\<lambda>c. c\<lparr>mo_attempts := mo_attempts c + 1\<rparr>) (ot_codes s)\<rparr>))
          else case confirm_code now c s of
              Inl e \<Rightarrow> (Inl e, s)
            | Inr s' \<Rightarrow>
                (let s'' = (case mo_leadId c of None \<Rightarrow> s'
                            | Some leadId \<Rightarrow> sendEventRegistrationSms eventName link leadId (mo_mobile c) s')
                 in (Inr \<lparr>ov_verified = True, ov_reason = None, ov_attemptsRemaining = OTP_MAX_ATTEMPTS,
                      ov_bookingToken = Option.bind (mo_leadId c) (\<lambda>leadId. bookingTokenFor sign leadId (ot_crm s''))\<rparr>, s''))))"

section \<open>What a registration answers about the number\<close>

text \<open>
  A repeat registration: \<open>verifiedAt\<close> is the verification of the stored lead as it was read before
  the registration was recorded. The answer is the challenge and the pass.
\<close>

definition repeat_verification ::
    "(string \<Rightarrow> string) \<Rightarrow> (string \<Rightarrow> string) \<Rightarrow> sms_provider \<Rightarrow> (string \<Rightarrow> string option) \<Rightarrow> string \<Rightarrow> time \<Rightarrow> nat \<Rightarrow> string \<Rightarrow>
     string option \<Rightarrow> string \<Rightarrow> string \<Rightarrow> time option \<Rightarrow> string option \<Rightarrow> otp_state \<Rightarrow>
     (otp_challenge option \<times> string option) \<times> otp_state" where
  "repeat_verification hash sign sms eventName link now draw i eventId leadId mobile verifiedAt ip s =
    (let (challenge, s) = (if truthy eventId \<and> verifiedAt = None
           then apfst Some (issue hash sms now draw i mobile (Some leadId) ip s) else (None, s));
         s = (if truthy eventId \<and> verifiedAt \<noteq> None then sendEventRegistrationSms eventName link leadId mobile s else s)
     in ((challenge, if verifiedAt \<noteq> None then bookingTokenFor sign leadId (ot_crm s) else None), s))"

definition new_verification ::
    "(string \<Rightarrow> string) \<Rightarrow> sms_provider \<Rightarrow> time \<Rightarrow> nat \<Rightarrow> string \<Rightarrow> string option \<Rightarrow> string \<Rightarrow> string \<Rightarrow>
     string option \<Rightarrow> otp_state \<Rightarrow> otp_challenge option \<times> otp_state" where
  "new_verification hash sms now draw i eventId leadId mobile ip s =
    (if truthy eventId then apfst Some (issue hash sms now draw i mobile (Some leadId) ip s) else (None, s))"

section \<open>The caps\<close>

lemma issue_cases:
  obtains (capped) "recent_codes now mobile (ot_codes s) \<ge> OTP_MAX_SENDS_PER_HOUR"
      "issue hash sms now draw i mobile leadId ip s = (unavailable, s)"
  | (sent) row f where "recent_codes now mobile (ot_codes s) < OTP_MAX_SENDS_PER_HOUR" "mo_id row = i"
      "mo_mobile row = mobile" "mo_createdAt row = now"
      "\<And>c. mo_id (f c) = mo_id c \<and> mo_mobile (f c) = mo_mobile c \<and> mo_createdAt (f c) = mo_createdAt c"
      "ot_codes (snd (issue hash sms now draw i mobile leadId ip s)) =
         update_by mo_id i f (insert_row row (update_where (outstanding now mobile) (consume_code now) (ot_codes s)))"
      "ot_crm (snd (issue hash sms now draw i mobile leadId ip s)) = ot_crm s"
      "\<exists>body. ot_messages (snd (issue hash sms now draw i mobile leadId ip s)) = ot_messages s @ [CodeSms now mobile body]"
proof (cases "recent_codes now mobile (ot_codes s) \<ge> OTP_MAX_SENDS_PER_HOUR")
  case True
  then show ?thesis by (intro capped) (simp_all add: issue_def)
next
  case False
  then show ?thesis
    by (intro sent [of
        "\<lparr>mo_id = i, mo_mobile = mobile, mo_codeHash = hash (generate_code draw), mo_leadId = leadId,
          mo_expiresAt = now + OTP_TTL_MINUTES * 60 * 1000, mo_attempts = 0, mo_consumedAt = None,
          mo_sent = False, mo_providerResponse = None, mo_ipAddress = ip, mo_createdAt = now\<rparr>"
        "\<lambda>c. c\<lparr>mo_sent := \<not> isl (sms mobile (renderOtpMessage (generate_code draw))),
          mo_providerResponse := map_option (take 200) (case sms mobile (renderOtpMessage (generate_code draw)) of
            Inl reason \<Rightarrow> Some reason | Inr messageId \<Rightarrow> messageId)\<rparr>"])
      (simp_all add: issue_def issue_write_def Let_def)
qed

text \<open>
  The requests that write codes or hand messages to the provider, each run to its end before the
  next: a code asked for by a registration, asked for again, or checked, and the message after a
  repeat registration. Every other request changes the leads alone.
\<close>

inductive otp_reach :: "otp_state \<Rightarrow> bool" where
  start: "otp_reach \<lparr>ot_codes = [], ot_crm = c, ot_messages = []\<rparr>"
| issued: "otp_reach s \<Longrightarrow> i \<notin> mo_id ` set (ot_codes s) \<Longrightarrow>
    otp_reach (snd (issue hash sms now draw i mobile leadId ip s))"
| resent: "otp_reach s \<Longrightarrow> i \<notin> mo_id ` set (ot_codes s) \<Longrightarrow>
    otp_reach (snd (resendCaptureCode hash sms now draw i v ip s))"
| registered: "otp_reach s \<Longrightarrow> i \<notin> mo_id ` set (ot_codes s) \<Longrightarrow>
    otp_reach (snd (new_verification hash sms now draw i eventId leadId mobile ip s))"
| repeated: "otp_reach s \<Longrightarrow> i \<notin> mo_id ` set (ot_codes s) \<Longrightarrow>
    otp_reach (snd (repeat_verification hash sign sms eventName link now draw i eventId leadId mobile verifiedAt ip s))"
| checked: "otp_reach s \<Longrightarrow> otp_reach (snd (verify hash sign eventName link now v code s))"
| elsewhere: "otp_reach s \<Longrightarrow> otp_reach (s\<lparr>ot_crm := c\<rparr>)"

text \<open>The codes handed to the provider: the number and the moment.\<close>

fun handed_code :: "sms_message \<Rightarrow> (string \<times> time) option" where
  "handed_code (CodeSms now mobile body) = Some (mobile, now)"
| "handed_code (ScheduleSms mobile body) = None"

definition codes_handed :: "otp_state \<Rightarrow> (string \<times> time) list" where
  "codes_handed s = List.map_filter handed_code (ot_messages s)"

lemma codes_handed_append:
  "ot_messages s' = ot_messages s @ [m] \<Longrightarrow>
   codes_handed s' = codes_handed s @ (case handed_code m of None \<Rightarrow> [] | Some h \<Rightarrow> [h])"
  by (simp add: codes_handed_def List.map_filter_def split: option.split)

text \<open>The columns the hourly cap counts over.\<close>

definition code_stamp :: "mobile_otp \<Rightarrow> string \<times> time" where
  "code_stamp c = (mo_mobile c, mo_createdAt c)"

lemma code_stamp_fields [simp]:
  "code_stamp (consume_code now c) = code_stamp c" "code_stamp (c\<lparr>mo_attempts := n\<rparr>) = code_stamp c"
  by (simp_all add: code_stamp_def consume_code_def)

lemma confirm_codes:
  "confirm_code now c s = Inr s' \<Longrightarrow> ot_codes s' = update_by mo_id (mo_id c) (consume_code now) (ot_codes s)"
  by (auto simp: confirm_code_def Let_def and_then_Inr split: option.splits if_splits)

lemma sendEventRegistrationSms_keeps [simp]:
  "ot_codes (sendEventRegistrationSms eventName link leadId mobile s) = ot_codes s"
  "ot_crm (sendEventRegistrationSms eventName link leadId mobile s) = ot_crm s"
  "codes_handed (sendEventRegistrationSms eventName link leadId mobile s) = codes_handed s"
  by (auto simp: sendEventRegistrationSms_def codes_handed_def List.map_filter_def split: option.splits)

text \<open>What one check does to the codes: nothing, one more attempt, or the code is spent.\<close>

lemma verify_codes:
  "ot_codes (snd (verify hash sign eventName link now v code s)) \<in>
    {ot_codes s, update_by mo_id v (consume_code now) (ot_codes s),
     update_by mo_id v (\<lambda>c. c\<lparr>mo_attempts := mo_attempts c + 1\<rparr>) (ot_codes s)}"
proof (cases "find_by mo_id v (ot_codes s)")
  case (Some c)
  then have "mo_id c = v" by (auto dest: find_by_SomeD)
  then show ?thesis using Some
    by (auto simp: verify_def Let_def confirm_codes split: sum.splits option.splits)
qed (simp add: verify_def)

lemma verify_stamps:
  "map code_stamp (ot_codes (snd (verify hash sign eventName link now v code s))) = map code_stamp (ot_codes s)"
  using verify_codes [of hash sign eventName link now v code s]
  by (auto simp: update_by_def update_where_def)

lemma count_where_stamp:
  "count_where (\<lambda>c. p (mo_mobile c) (mo_createdAt c)) codes = count_where (\<lambda>(m, t). p m t) (map code_stamp codes)"
  by (induction codes) (auto simp: count_where_def code_stamp_def)

lemma confirm_messages: "confirm_code now c s = Inr s' \<Longrightarrow> codes_handed s' = codes_handed s"
  by (auto simp: confirm_code_def Let_def and_then_Inr codes_handed_def split: option.splits if_splits)

lemma verify_hands: "codes_handed (snd (verify hash sign eventName link now v code s)) = codes_handed s"
proof (cases "find_by mo_id v (ot_codes s)")
  case (Some c)
  have frame: "codes_handed (s\<lparr>ot_codes := cs\<rparr>) = codes_handed s" for cs by (simp add: codes_handed_def)
  show ?thesis
    using Some by (auto simp: verify_def Let_def frame confirm_messages split: sum.splits option.splits)
qed (simp add: verify_def)

text \<open>Issuing adds one and the same stamp to the codes and to what the provider was handed, or nothing.\<close>

lemma issue_stamps:
  "\<exists>new. map code_stamp (ot_codes (snd (issue hash sms now draw i mobile leadId ip s))) = map code_stamp (ot_codes s) @ new \<and>
     codes_handed (snd (issue hash sms now draw i mobile leadId ip s)) = codes_handed s @ new \<and>
     (new = [] \<or> new = [(mobile, now)] \<and> recent_codes now mobile (ot_codes s) < OTP_MAX_SENDS_PER_HOUR)"
proof (rule issue_cases [of now mobile s hash sms draw i leadId ip])
  assume "recent_codes now mobile (ot_codes s) \<ge> OTP_MAX_SENDS_PER_HOUR"
    "issue hash sms now draw i mobile leadId ip s = (unavailable, s)"
  then show ?thesis by simp
next
  fix row g
  assume a: "recent_codes now mobile (ot_codes s) < OTP_MAX_SENDS_PER_HOUR" "mo_id row = i"
      "mo_mobile row = mobile" "mo_createdAt row = now"
      "\<And>c. mo_id (g c) = mo_id c \<and> mo_mobile (g c) = mo_mobile c \<and> mo_createdAt (g c) = mo_createdAt c"
      "ot_codes (snd (issue hash sms now draw i mobile leadId ip s)) =
         update_by mo_id i g (insert_row row (update_where (outstanding now mobile) (consume_code now) (ot_codes s)))"
      "\<exists>body. ot_messages (snd (issue hash sms now draw i mobile leadId ip s)) = ot_messages s @ [CodeSms now mobile body]"
  have "map code_stamp (ot_codes (snd (issue hash sms now draw i mobile leadId ip s))) =
      map code_stamp (ot_codes s) @ [(mobile, now)]"
    using a(3,4,5) unfolding a(6) by (simp add: insert_row_def update_by_def update_where_def code_stamp_def consume_code_def)
  moreover have "codes_handed (snd (issue hash sms now draw i mobile leadId ip s)) = codes_handed s @ [(mobile, now)]"
    using a(7) codes_handed_append by fastforce
  ultimately show ?thesis using a(1) by blast
qed

lemma count_where_mono: "(\<And>x. p x \<Longrightarrow> q x) \<Longrightarrow> count_where p xs \<le> count_where q xs"
  by (induction xs) (auto simp: count_where_def)

text \<open>The stamps within an hour from \<open>T\<close> that concern a number.\<close>

definition within_hour :: "string \<Rightarrow> time \<Rightarrow> string \<times> time \<Rightarrow> bool" where
  "within_hour m T = (\<lambda>(mobile, t). mobile = m \<and> T \<le> t \<and> t \<le> T + 60 * 60 * 1000)"

text \<open>The cap on the rows, and that what the provider was handed is what the rows say.\<close>

definition capped_state :: "otp_state \<Rightarrow> bool" where
  "capped_state s \<longleftrightarrow> codes_handed s = map code_stamp (ot_codes s) \<and>
     (\<forall>m T. count_where (within_hour m T) (map code_stamp (ot_codes s)) \<le> OTP_MAX_SENDS_PER_HOUR)"

lemma capped_issue:
  assumes "capped_state s"
  shows "capped_state (snd (issue hash sms now draw i mobile leadId ip s))"
proof -
  obtain new where new: "map code_stamp (ot_codes (snd (issue hash sms now draw i mobile leadId ip s))) = map code_stamp (ot_codes s) @ new"
      "codes_handed (snd (issue hash sms now draw i mobile leadId ip s)) = codes_handed s @ new"
      "new = [] \<or> new = [(mobile, now)] \<and> recent_codes now mobile (ot_codes s) < OTP_MAX_SENDS_PER_HOUR"
    using issue_stamps by blast
  have "count_where (within_hour m T) (map code_stamp (ot_codes s)) \<le> recent_codes now mobile (ot_codes s)"
    if "within_hour m T (mobile, now)" for m T
  proof -
    have "count_where (within_hour m T) (map code_stamp (ot_codes s)) = count_where (within_hour m T \<circ> code_stamp) (ot_codes s)"
      by (simp add: count_where_map comp_def)
    also have "\<dots> \<le> recent_codes now mobile (ot_codes s)"
      unfolding recent_codes_def by (rule count_where_mono) (use that in \<open>auto simp: within_hour_def code_stamp_def\<close>)
    finally show ?thesis .
  qed
  then have "count_where (within_hour m T) (map code_stamp (ot_codes s) @ new) \<le> OTP_MAX_SENDS_PER_HOUR" for m T
    using new(3) assms by (fastforce simp: count_where_def capped_state_def)
  then show ?thesis using new(1,2) assms by (simp add: capped_state_def)
qed

lemma capped_frame:
  "map code_stamp (ot_codes s') = map code_stamp (ot_codes s) \<Longrightarrow> codes_handed s' = codes_handed s \<Longrightarrow>
   capped_state s' = capped_state s"
  by (simp add: capped_state_def)

lemma reach_capped: "otp_reach s \<Longrightarrow> capped_state s"
proof (induction rule: otp_reach.induct)
  case (start c)
  then show ?case by (simp add: capped_state_def codes_handed_def count_where_def List.map_filter_def)
next
  case (issued s i hash sms now draw mobile leadId ip)
  show ?case by (rule capped_issue [OF issued.IH])
next
  case (resent s i hash sms now draw v ip)
  then show ?case using capped_issue by (simp add: resendCaptureCode_def split: option.split)
next
  case (registered s i hash sms now draw eventId leadId mobile ip)
  then show ?case using capped_issue by (simp add: new_verification_def)
next
  case (repeated s i hash sign sms eventName link now draw eventId leadId mobile verifiedAt ip)
  have "capped_state (sendEventRegistrationSms eventName link leadId mobile s) = capped_state s"
    by (rule capped_frame) simp_all
  then show ?case
    using repeated.IH capped_issue [OF repeated.IH] by (auto simp: repeat_verification_def case_prod_beta Let_def)
next
  case (checked s hash sign eventName link now v code)
  then show ?case using capped_frame [OF verify_stamps verify_hands] by blast
next
  case (elsewhere s c)
  then show ?case by (simp add: capped_state_def codes_handed_def)
qed

text \<open>
  C18. For requests run one after the other, the SMS provider is never handed more than three codes
  for one number within any hour, however often the form is submitted, codes are asked for again or
  guessed, and however the clock moves between requests; nor does the table hold more. Two requests
  that count before either writes can exceed it: \<open>otp_cap_race\<close>.
\<close>

theorem otp_sends_bounded:
  assumes "otp_reach s"
  shows "count_where (\<lambda>msg. case msg of CodeSms t mobile body \<Rightarrow> mobile = m \<and> T \<le> t \<and> t \<le> T + 60 * 60 * 1000
        | ScheduleSms mobile body \<Rightarrow> False) (ot_messages s) \<le> OTP_MAX_SENDS_PER_HOUR \<and>
    count_where (\<lambda>c. mo_mobile c = m \<and> T \<le> mo_createdAt c \<and> mo_createdAt c \<le> T + 60 * 60 * 1000) (ot_codes s)
      \<le> OTP_MAX_SENDS_PER_HOUR"
proof -
  have "count_where (within_hour m T) (List.map_filter handed_code ms) =
      count_where (\<lambda>msg. case msg of CodeSms t mobile body \<Rightarrow> mobile = m \<and> T \<le> t \<and> t \<le> T + 60 * 60 * 1000
        | ScheduleSms mobile body \<Rightarrow> False) ms" for ms
  proof (induction ms)
    case (Cons a ms)
    then show ?case by (cases a) (simp_all add: count_where_def List.map_filter_def within_hour_def)
  qed (simp add: count_where_def List.map_filter_def)
  moreover have "count_where (within_hour m T) (map code_stamp (ot_codes s)) =
      count_where (\<lambda>c. mo_mobile c = m \<and> T \<le> mo_createdAt c \<and> mo_createdAt c \<le> T + 60 * 60 * 1000) (ot_codes s)"
    by (simp add: count_where_map comp_def within_hour_def code_stamp_def)
  ultimately show ?thesis
    using reach_capped [OF assms] by (metis capped_state_def codes_handed_def)
qed

definition demo_otp :: otp_state where
  "demo_otp = \<lparr>ot_codes = [], ot_crm = demo_lead_state, ot_messages = []\<rparr>"

definition demo_sms :: sms_provider where
  "demo_sms mobile body = Inr (Some ''id'')"

definition demo_issued :: otp_state where
  "demo_issued = snd (issue (\<lambda>c. c) demo_sms 100 42 ''v1'' ''9876543210'' (Some ''l1'') None demo_otp)"

lemma otp_sends_bounded_witness:
  "count_where (\<lambda>msg. case msg of CodeSms t mobile body \<Rightarrow> mobile = ''9876543210'' \<and> 0 \<le> t \<and> t \<le> 0 + 60 * 60 * 1000
      | ScheduleSms mobile body \<Rightarrow> False) (ot_messages demo_issued) \<le> OTP_MAX_SENDS_PER_HOUR"
proof (rule otp_sends_bounded [THEN conjunct1])
  show "otp_reach demo_issued"
    unfolding demo_issued_def demo_otp_def by (rule otp_reach.issued [OF otp_reach.start]) simp
qed

text \<open>
  The cap does not survive a race: with two codes out in the hour, two requests that both count
  before either writes are both let through, and the fourth code is handed to the provider.
\<close>

definition demo_two_codes :: otp_state where
  "demo_two_codes = snd (issue (\<lambda>c. c) demo_sms 200 43 ''v2'' ''9876543210'' (Some ''l1'') None demo_issued)"

theorem otp_cap_race:
  "recent_codes 300 ''9876543210'' (ot_codes demo_two_codes) < OTP_MAX_SENDS_PER_HOUR \<and>
   length (ot_messages (snd (issue_write (\<lambda>c. c) demo_sms 300 45 ''v4'' ''9876543210'' (Some ''l1'') None
     (snd (issue_write (\<lambda>c. c) demo_sms 300 44 ''v3'' ''9876543210'' (Some ''l1'') None demo_two_codes))))) = 4"
proof
  show "recent_codes 300 ''9876543210'' (ot_codes demo_two_codes) < OTP_MAX_SENDS_PER_HOUR" by code_simp
  have "length (ot_messages (snd (issue_write hash sms now draw i mobile leadId ip s))) = Suc (length (ot_messages s))"
    for hash sms now draw i mobile leadId ip s
    by (simp add: issue_write_def Let_def)
  moreover have "length (ot_messages demo_two_codes) = 2" by code_simp
  ultimately show "length (ot_messages (snd (issue_write (\<lambda>c. c) demo_sms 300 45 ''v4'' ''9876543210'' (Some ''l1'') None
     (snd (issue_write (\<lambda>c. c) demo_sms 300 44 ''v3'' ''9876543210'' (Some ''l1'') None demo_two_codes))))) = 4" by simp
qed

text \<open>A run of guesses at one verification id, each at its own time.\<close>

fun guesses ::
    "(string \<Rightarrow> string) \<Rightarrow> (string \<Rightarrow> string) \<Rightarrow> (string \<Rightarrow> string option) \<Rightarrow> string \<Rightarrow> string \<Rightarrow> (time \<times> string) list \<Rightarrow>
     otp_state \<Rightarrow> otp_verify_result result list" where
  "guesses hash sign eventName link v [] s = []"
| "guesses hash sign eventName link v ((now, code) # gs) s =
    (let (r, s) = verify hash sign eventName link now v code s in r # guesses hash sign eventName link v gs s)"

definition confirmed :: "otp_verify_result result \<Rightarrow> bool" where
  "confirmed r = (case r of Inl e \<Rightarrow> False | Inr v \<Rightarrow> ov_verified v)"

definition wrong :: "(string \<Rightarrow> string) \<Rightarrow> mobile_otp \<Rightarrow> time \<times> string \<Rightarrow> bool" where
  "wrong hash c g \<longleftrightarrow> fst g < mo_expiresAt c \<and> hash (snd g) \<noteq> mo_codeHash c"

definition spent :: "mobile_otp \<Rightarrow> bool" where
  "spent c \<longleftrightarrow> mo_consumedAt c \<noteq> None \<or> mo_attempts c \<ge> OTP_MAX_ATTEMPTS"

lemma find_code_update:
  "find_by mo_id v codes = Some c \<Longrightarrow> (\<And>x. mo_id (f x) = mo_id x) \<Longrightarrow> find_by mo_id v (update_by mo_id v f codes) = Some (f c)"
  by (simp add: find_by_update_by)

lemma verify_spent:
  assumes "find_by mo_id v (ot_codes s) = Some c" and "spent c"
  shows "\<not> confirmed (fst (verify hash sign eventName link now v code s)) \<and>
    (\<exists>c'. find_by mo_id v (ot_codes (snd (verify hash sign eventName link now v code s))) = Some c' \<and> spent c')"
proof -
  have "find_by mo_id v (update_by mo_id v (consume_code now) (ot_codes s)) = Some (consume_code now c)"
    by (rule find_code_update [OF assms(1)]) (simp add: consume_code_def)
  then show ?thesis using assms
    by (auto simp: verify_def confirmed_def refused_def spent_def consume_code_def)
qed

lemma guesses_spent:
  assumes "find_by mo_id v (ot_codes s) = Some c" and "spent c"
  shows "\<forall>r \<in> set (guesses hash sign eventName link v gs s). \<not> confirmed r"
  using assms
proof (induction gs arbitrary: s c)
  case (Cons g gs)
  obtain now code where g: "g = (now, code)" by (cases g)
  show ?case
    using Cons.IH verify_spent [OF Cons.prems, of hash sign eventName link now code]
    by (auto simp: g case_prod_beta Let_def)
qed simp

lemma verify_wrong:
  assumes "find_by mo_id v (ot_codes s) = Some c" and "\<not> spent c" and "wrong hash c (now, code)"
  shows "\<not> confirmed (fst (verify hash sign eventName link now v code s)) \<and>
    find_by mo_id v (ot_codes (snd (verify hash sign eventName link now v code s))) = Some (c\<lparr>mo_attempts := mo_attempts c + 1\<rparr>)"
  using assms by (simp add: verify_def confirmed_def refused_def spent_def wrong_def Let_def find_by_update_by)

lemma verify_confirmed:
  assumes c: "find_by mo_id v (ot_codes s) = Some c" and ok: "confirmed (fst (verify hash sign eventName link now v code s))"
  shows "find_by mo_id v (ot_codes (snd (verify hash sign eventName link now v code s))) = Some (consume_code now c)"
proof -
  have "mo_id c = v" using c by (auto dest: find_by_SomeD)
  then obtain s' where "confirm_code now c s = Inr s'"
      "ot_codes (snd (verify hash sign eventName link now v code s)) = ot_codes s'"
    using c ok by (auto simp: verify_def confirmed_def refused_def Let_def split: if_splits sum.splits option.splits)
  then show ?thesis
    using confirm_codes [of now c s s'] \<open>mo_id c = v\<close> find_code_update [OF c, of "consume_code now"]
    by (simp add: consume_code_def)
qed

lemma five_wrong:
  assumes "find_by mo_id v (ot_codes s) = Some c" and "mo_consumedAt c = None"
    and "mo_attempts c + length ws \<ge> OTP_MAX_ATTEMPTS" and "\<forall>w \<in> set ws. wrong hash c w"
  shows "\<forall>r \<in> set (guesses hash sign eventName link v (ws @ gs) s). \<not> confirmed r"
  using assms
proof (induction ws arbitrary: s c)
  case Nil
  then show ?case using guesses_spent by (simp add: spent_def)
next
  case (Cons w ws)
  obtain now code where w: "w = (now, code)" by (cases w)
  show ?case
  proof (cases "spent c")
    case True
    then show ?thesis using guesses_spent [OF Cons.prems(1)] by blast
  next
    case False
    have step: "wrong hash c (now, code)" using Cons.prems(4) w by simp
    have "\<forall>r \<in> set (guesses hash sign eventName link v (ws @ gs) (snd (verify hash sign eventName link now v code s))). \<not> confirmed r"
      by (rule Cons.IH [of _ "c\<lparr>mo_attempts := mo_attempts c + 1\<rparr>"])
        (use verify_wrong [OF Cons.prems(1) False step] Cons.prems in \<open>auto simp: wrong_def\<close>)
    then show ?thesis using verify_wrong [OF Cons.prems(1) False step] by (auto simp: w case_prod_beta Let_def)
  qed
qed

text \<open>
  C19. A code is good for five guesses: once five wrong codes have been submitted for it while it
  was alive, no later request confirms the number with it, whatever code it brings and whenever.
\<close>

theorem otp_guesses_bounded:
  assumes "find_by mo_id v (ot_codes s) = Some c" and "mo_consumedAt c = None"
    and "mo_attempts c + length ws \<ge> OTP_MAX_ATTEMPTS" and "\<forall>w \<in> set ws. wrong hash c w"
  shows "\<forall>r \<in> set (guesses hash sign eventName link v (ws @ gs) s). \<not> confirmed r"
  using five_wrong [OF assms] by blast

lemma otp_guesses_bounded_witness:
  "\<not> confirmed (last (guesses (\<lambda>c. c) (\<lambda>l. l) (\<lambda>e. None) [] ''v1''
     (map (\<lambda>k. (200, show_nat k)) [0, 1, 2, 3, 4] @ [(300, ''000042'')]) demo_issued))"
proof -
  obtain c where c: "find_by mo_id ''v1'' (ot_codes demo_issued) = Some c" "mo_consumedAt c = None"
      "mo_attempts c + length (map (\<lambda>k. (200 :: int, show_nat k)) [0, 1, 2, 3, 4]) \<ge> OTP_MAX_ATTEMPTS"
      "\<forall>w \<in> set (map (\<lambda>k. (200, show_nat k)) [0, 1, 2, 3, 4]). wrong (\<lambda>c. c) c w"
  proof
    let ?c = "the (find_by mo_id ''v1'' (ot_codes demo_issued))"
    show "find_by mo_id ''v1'' (ot_codes demo_issued) = Some ?c" by code_simp
    show "mo_consumedAt ?c = None" by code_simp
    show "mo_attempts ?c + length (map (\<lambda>k. (200 :: int, show_nat k)) [0, 1, 2, 3, 4]) \<ge> OTP_MAX_ATTEMPTS" by code_simp
    show "\<forall>w \<in> set (map (\<lambda>k. (200, show_nat k)) [0, 1, 2, 3, 4]). wrong (\<lambda>c. c) ?c w" by code_simp
  qed
  note out = otp_guesses_bounded [OF c, of "\<lambda>l. l" "\<lambda>e. None" "[]" "[(300, ''000042'')]"]
  have "guesses (\<lambda>c. c) (\<lambda>l. l) (\<lambda>e. None) [] ''v1''
     (map (\<lambda>k. (200, show_nat k)) [0, 1, 2, 3, 4] @ [(300, ''000042'')]) demo_issued \<noteq> []"
    by (simp add: case_prod_beta Let_def)
  then show ?thesis using out last_in_set by blast
qed

text \<open>
  A code vouches for whatever number the lead has when it is typed in: the check compares the
  code and never the numbers, so after the number of the lead was edited the code sent to the old
  number still marks the new one as verified.
\<close>

theorem code_verifies_another_number:
  assumes c: "find_by mo_id v (ot_codes s) = Some c" "\<not> spent c" "now < mo_expiresAt c" "hash code = mo_codeHash c"
    and l: "mo_leadId c = Some i" "find_by l_id i (cr_leads (ot_crm s)) = Some l" "l_mobile l \<noteq> mo_mobile c"
    and db: "lead_identity_unique (cr_leads (ot_crm s))" "list_all lost_has_reason (cr_leads (ot_crm s))"
  shows "confirmed (fst (verify hash sign eventName link now v code s)) \<and>
    find_by l_id i (cr_leads (ot_crm (snd (verify hash sign eventName link now v code s)))) = Some (stamp_verified now l)"
proof -
  let ?ls = "update_by l_id i (stamp_verified now) (cr_leads (ot_crm s))"
  have "lead_identity_unique ?ls"
    using db(1) identity_same [of "stamp_verified now" i "cr_leads (ot_crm s)"]
    by (simp add: stamp_verified_def live_lead_def)
  moreover have "list_all lost_has_reason ?ls"
    using db(2) by (auto simp: list_all_iff update_by_def set_update_where stamp_verified_def lost_has_reason_def)
  ultimately have "update_lead i (stamp_verified now) (ot_crm s) = Inr (ot_crm s\<lparr>cr_leads := ?ls\<rparr>)"
    by (simp add: update_lead_def store_leads_def)
  moreover have "find_by l_id i ?ls = Some (stamp_verified now l)"
    using l(2) by (simp add: find_by_update_by stamp_verified_def)
  ultimately show ?thesis
    using c l by (simp add: verify_def confirm_code_def spent_def confirmed_def)
qed

text \<open>Asha's code, sent to the number she registered with; a colleague corrects the number before she types it in.\<close>

definition demo_other_number :: update_input where
  "demo_other_number = \<lparr>ui_firstName = None, ui_lastName = None, ui_mobile = Some ''9000000001'', ui_email = None, ui_pan = None,
     ui_city = None, ui_state = None, ui_pincode = None, ui_source = None, ui_productInterest = None, ui_priority = None,
     ui_estimatedValue = None, ui_ownerId = None, ui_partnerId = None, ui_campaignId = None, ui_status = None,
     ui_lostReason = None, ui_lostNote = None, ui_nextFollowUpAt = None\<rparr>"

definition demo_renumbered :: otp_state where
  "demo_renumbered = demo_issued\<lparr>ot_crm :=
     snd (update [] (\<lambda>_ _. 10) (\<lambda>c. c) 150 demo_rep ''l1'' demo_other_number (ot_crm demo_issued))\<rparr>"

lemma code_verifies_another_number_witness:
  "\<exists>l. find_by l_id ''l1'' (cr_leads (ot_crm (snd (verify (\<lambda>c. c) (\<lambda>l. l) (\<lambda>e. None) [] 200 ''v1'' ''000042'' demo_renumbered)))) =
     Some (stamp_verified 200 l) \<and> l_mobile l = ''9000000001''"
proof -
  let ?c = "the (find_by mo_id ''v1'' (ot_codes demo_renumbered))"
  let ?l = "the (find_by l_id ''l1'' (cr_leads (ot_crm demo_renumbered)))"
  have c: "find_by mo_id ''v1'' (ot_codes demo_renumbered) = Some ?c" by code_simp
  have c2: "\<not> spent ?c" by code_simp
  have c3: "200 < mo_expiresAt ?c" by code_simp
  have c4: "(\<lambda>c. c) ''000042'' = mo_codeHash ?c" by code_simp
  have l: "mo_leadId ?c = Some ''l1''" by code_simp
  have l2: "find_by l_id ''l1'' (cr_leads (ot_crm demo_renumbered)) = Some ?l" by code_simp
  have l3: "l_mobile ?l \<noteq> mo_mobile ?c" by code_simp
  have m: "l_mobile ?l = ''9000000001''" by code_simp
  have d: "lead_identity_unique (cr_leads (ot_crm demo_renumbered))" by code_simp
  have d2: "list_all lost_has_reason (cr_leads (ot_crm demo_renumbered))" by code_simp
  from code_verifies_another_number [where hash = "\<lambda>c. c" and code = "''000042''", OF c c2 c3 c4 l l2 l3 d d2] m show ?thesis by blast
qed

end
