(* ===== verification/Offboarding.thy ===== *)
theory Offboarding
  imports Assignment Visits
begin

text \<open>
  Offboarding a salesperson: \<open>apps/api/src/modules/offboarding/offboarding.service.ts\<close> with the
  strategies of \<open>packages/contracts/src/assignment.ts\<close>. It works across the accounts and their
  sessions, the leads and customers, the tasks and the visits, and asks the routing rules for an
  owner. The handover is a sequence of separate writes; each lead moves in a transaction of its own.
\<close>

section \<open>State and input\<close>

datatype offboard_strategy = SINGLE_OWNER | ROUND_ROBIN_POOL | RULES_ENGINE | UNASSIGN

record offboard_input =
  of_strategy :: offboard_strategy
  of_targetUserIds :: "string list"
  of_reason :: string
  of_includeCustomers :: bool
  of_includeTasks :: bool

definition offboardUserSchema :: "offboard_input \<Rightarrow> bool" where
  "offboardUserSchema input \<longleftrightarrow>
    length (of_targetUserIds input) \<le> 50 \<and> 3 \<le> length (js_trim (of_reason input)) \<and> length (js_trim (of_reason input)) \<le> 300 \<and>
    (of_strategy input = UNASSIGN \<or> of_strategy input = RULES_ENGINE \<or> of_targetUserIds input \<noteq> []) \<and>
    (of_strategy input = SINGLE_OWNER \<longrightarrow> length (of_targetUserIds input) = 1)"

record office =
  o_users :: "account list"
  o_sessions :: "session list"
  o_rules :: "assignment_rule list"
  o_noticeFrom :: "(string \<times> time) list"
  o_field :: visit_state

abbreviation o_crm :: "office \<Rightarrow> crm" where
  "o_crm s \<equiv> vs_crm (o_field s)"

abbreviation o_leads :: "office \<Rightarrow> lead_row list" where
  "o_leads s \<equiv> cr_leads (vs_crm (o_field s))"

definition with_crm :: "(crm \<Rightarrow> crm) \<Rightarrow> office \<Rightarrow> office" where
  "with_crm f s = s\<lparr>o_field := on_crm f (o_field s)\<rparr>"

definition open_task_of :: "string \<Rightarrow> visit_state \<Rightarrow> task_row \<Rightarrow> bool" where
  "open_task_of userId s t \<longleftrightarrow> tk_assigneeId t = Some userId \<and> live_task (ts_statuses (vs_tasks s)) t"

definition managed_customer :: "string \<Rightarrow> customer_row \<Rightarrow> bool" where
  "managed_customer userId c \<longleftrightarrow> cu_relationshipManagerId c = Some userId \<and> cu_deletedAt c = None"

definition open_lead_of :: "string \<Rightarrow> lead_row \<Rightarrow> bool" where
  "open_lead_of userId l \<longleftrightarrow> l_ownerId l = Some userId \<and> live_lead l"

section \<open>The preview\<close>

record offboard_preview =
  op_openLeads :: nat
  op_closedLeads :: nat
  op_customers :: nat
  op_openTasks :: nat
  op_plannedVisits :: nat
  op_activeSessions :: nat

definition offboard_preview_of :: "time \<Rightarrow> string \<Rightarrow> office \<Rightarrow> offboard_preview result" where
  "offboard_preview_of now userId s =
    (if find (\<lambda>u. u_id u = userId \<and> u_deletedAt u = None) (o_users s) = None then Inl (NotFound ''User not found'')
     else Inr
       \<lparr>op_openLeads = count_where (open_lead_of userId) (o_leads s),
        op_closedLeads = count_where (\<lambda>l. l_ownerId l = Some userId \<and> l_deletedAt l = None \<and>
          l_status l \<in> set CLOSED_LEAD_STATUSES) (o_leads s),
        op_customers = count_where (managed_customer userId) (cr_customers (o_crm s)),
        op_openTasks = count_where (open_task_of userId (o_field s)) (ts_tasks (vs_tasks (o_field s))),
        op_plannedVisits = count_where (\<lambda>v. v_userId v = userId \<and> v_status v \<in> {PLANNED, CHECKED_IN}) (vs_visits (o_field s)),
        op_activeSessions = count_where (\<lambda>e. se_userId e = userId \<and> se_revokedAt e = None \<and> se_expiresAt e > now) (o_sessions s)\<rparr>)"

definition markNoticePeriod :: "string \<Rightarrow> time \<Rightarrow> office \<Rightarrow> office result" where
  "markNoticePeriod userId from_date s =
    (if find_by u_id userId (o_users s) = None then Inl (NotFound ''Not found'')
     else Inr (with_crm (audit_of ''UPDATE'' ''user.notice_period'' (Some ''Elevated export monitoring enabled'') userId)
       (s\<lparr>o_noticeFrom := (userId, from_date) # filter (\<lambda>n. fst n \<noteq> userId) (o_noticeFrom s)\<rparr>)))"

section \<open>Choosing who receives the work\<close>

definition assertRecipientsAreActive :: "account list \<Rightarrow> string list \<Rightarrow> string \<Rightarrow> unit result" where
  "assertRecipientsAreActive users userIds departing =
    (if userIds = [] then Inr ()
     else if departing \<in> set userIds then Inl (BadRequest ''Cannot hand work back to the departing user'')
     else if count_where (\<lambda>u. u_id u \<in> set userIds \<and> u_status u = ACTIVE \<and> u_deletedAt u = None) users \<noteq> length userIds
       then Inl (BadRequest ''Recipient is not active'')
     else Inr ())"

definition assignable_of :: "lead_row \<Rightarrow> assignable_lead" where
  "assignable_of l =
    \<lparr>al_source = l_source l, al_productInterest = l_productInterest l, al_city = l_city l, al_state = l_state l,
     al_score = Some (l_score l), al_campaignId = l_campaignId l\<rparr>"

definition pickRecipient ::
    "collation \<Rightarrow> time \<Rightarrow> offboard_input \<Rightarrow> lead_row option \<Rightarrow> nat \<Rightarrow> office \<Rightarrow> string option \<times> office" where
  "pickRecipient collate now input lead cursor s =
    (case of_strategy input of
       UNASSIGN \<Rightarrow> (None, s)
     | SINGLE_OWNER \<Rightarrow> (case of_targetUserIds input of [] \<Rightarrow> None | t # _ \<Rightarrow> Some t, s)
     | ROUND_ROBIN_POOL \<Rightarrow>
         (if of_targetUserIds input = [] then None
          else Some (of_targetUserIds input ! (cursor mod length (of_targetUserIds input))), s)
     | RULES_ENGINE \<Rightarrow>
         (case lead of
            None \<Rightarrow> (None, s)
          | Some l \<Rightarrow>
              (let (routed, rules) = resolveOwner collate (o_users s) (o_leads s) now (assignable_of l) (o_rules s)
               in (fst routed, s\<lparr>o_rules := rules\<rparr>))))"

section \<open>The handover\<close>

definition cut_access :: "time \<Rightarrow> string \<Rightarrow> office \<Rightarrow> office" where
  "cut_access now userId s =
    s\<lparr>o_sessions := update_where (\<lambda>e. se_userId e = userId \<and> se_revokedAt e = None)
        (\<lambda>e. e\<lparr>se_revokedAt := Some now, se_revokedReason := Some OFFBOARDED\<rparr>) (o_sessions s),
      o_users := update_by u_id userId (\<lambda>u. u\<lparr>u_status := DISABLED\<rparr>) (o_users s)\<rparr>"

definition move_lead :: "string \<Rightarrow> string option \<Rightarrow> string \<Rightarrow> string \<Rightarrow> office \<Rightarrow> office result" where
  "move_lead actor newOwner leadId reason s =
    (let unit = Option.bind (Option.bind newOwner (\<lambda>i. find_by u_id i (o_users s))) u_orgUnitId in
     and_then (update_lead leadId (\<lambda>l. l\<lparr>l_ownerId := newOwner, l_orgUnitId := or_else unit (l_orgUnitId l),
         l_updatedById := Some actor\<rparr>) (o_crm s)) (\<lambda>c.
     Inr (with_crm (\<lambda>_. log_activity ''LEAD'' leadId ''ASSIGNMENT'' (Some reason) actor True c) s)))"

text \<open>An error in the transaction of a lead aborts the handover; what was written before stays.\<close>

fun move_leads ::
    "collation \<Rightarrow> time \<Rightarrow> string \<Rightarrow> offboard_input \<Rightarrow> lead_row list \<Rightarrow> nat \<Rightarrow> office \<Rightarrow> unit result \<times> office" where
  "move_leads collate now actor input [] cursor s = (Inr (), s)"
| "move_leads collate now actor input (l # ls) cursor s =
    (let (newOwner, s) = pickRecipient collate now input (Some l) cursor s in
     case move_lead actor newOwner (l_id l) (of_reason input) s of
       Inl e \<Rightarrow> (Inl e, s)
     | Inr s' \<Rightarrow> move_leads collate now actor input ls (cursor + 1) s')"

definition move_customers :: "collation \<Rightarrow> time \<Rightarrow> string \<Rightarrow> offboard_input \<Rightarrow> nat \<Rightarrow> office \<Rightarrow> office" where
  "move_customers collate now userId input cursor s =
    (if \<not> of_includeCustomers input then s
     else case pickRecipient collate now input None cursor s of
         (None, s) \<Rightarrow> s
       | (Some owner, s) \<Rightarrow>
           (if owner = [] then s
            else with_crm (\<lambda>c. c\<lparr>cr_customers := update_where (managed_customer userId)
                   (\<lambda>r. r\<lparr>cu_relationshipManagerId := Some owner\<rparr>) (cr_customers c)\<rparr>) s))"

definition move_tasks :: "collation \<Rightarrow> time \<Rightarrow> string \<Rightarrow> offboard_input \<Rightarrow> nat \<Rightarrow> office \<Rightarrow> office" where
  "move_tasks collate now userId input cursor s =
    (if \<not> of_includeTasks input then s
     else case pickRecipient collate now input None (cursor + 1) s of
         (None, s) \<Rightarrow> s
       | (Some owner, s) \<Rightarrow>
           (if owner = [] then s
            else s\<lparr>o_field := (o_field s)\<lparr>vs_tasks := (vs_tasks (o_field s))\<lparr>ts_tasks :=
                   update_where (open_task_of userId (o_field s)) (\<lambda>t. t\<lparr>tk_assigneeId := Some owner\<rparr>)
                     (ts_tasks (vs_tasks (o_field s)))\<rparr>\<rparr>\<rparr>))"

text \<open>\<open>cancel_note\<close> composes the note left on a cancelled visit.\<close>

definition offboard ::
    "collation \<Rightarrow> (string \<Rightarrow> string) \<Rightarrow> time \<Rightarrow> string \<Rightarrow> string \<Rightarrow> offboard_input \<Rightarrow> office \<Rightarrow> unit result \<times> office" where
  "offboard collate cancel_note now actor userId input s =
    (if userId = actor then (Inl (BadRequest ''You cannot offboard yourself''), s)
     else if find (\<lambda>u. u_id u = userId \<and> u_deletedAt u = None) (o_users s) = None then (Inl (NotFound ''User not found''), s)
     else case assertRecipientsAreActive (o_users s) (of_targetUserIds input) userId of
         Inl e \<Rightarrow> (Inl e, s)
       | Inr _ \<Rightarrow>
           (let s = cut_access now userId s;
                openLeads = filter (open_lead_of userId) (o_leads s);
                cursor = length openLeads
            in case move_leads collate now actor input openLeads 0 s of
                (Inl e, s) \<Rightarrow> (Inl e, s)
              | (Inr _, s) \<Rightarrow>
                  (let s = move_customers collate now userId input cursor s;
                       s = move_tasks collate now userId input cursor s;
                       s = s\<lparr>o_field := (o_field s)\<lparr>vs_visits :=
                             cancel_planned userId (cancel_note (of_reason input)) (vs_visits (o_field s))\<rparr>\<rparr>;
                       s = with_crm (audit_of ''UPDATE'' ''user.offboard'' (Some (of_reason input)) userId) s
                   in (Inr (), with_crm (publish userId ''user.offboarded'') s))))"

section \<open>What a handover leaves behind\<close>

lemma with_crm_parts [simp]:
  "o_users (with_crm f s) = o_users s" "o_sessions (with_crm f s) = o_sessions s" "o_rules (with_crm f s) = o_rules s"
  "o_crm (with_crm f s) = f (o_crm s)" "vs_visits (o_field (with_crm f s)) = vs_visits (o_field s)"
  "ts_tasks (vs_tasks (o_field (with_crm f s))) = ts_tasks (vs_tasks (o_field s))"
  by (simp_all add: with_crm_def on_crm_def)

lemma crm_logs [simp]:
  "cr_leads (log_activity t i ty b a g c) = cr_leads c" "cr_customers (log_activity t i ty b a g c) = cr_customers c"
  "cr_leads (audit_of a r re i c) = cr_leads c" "cr_customers (audit_of a r re i c) = cr_customers c"
  "cr_leads (publish i ty c) = cr_leads c" "cr_customers (publish i ty c) = cr_customers c"
  by (simp_all add: log_activity_def audit_of_def publish_def)

text \<open>Choosing a recipient writes the counters of a rule at most.\<close>

lemma pick_keeps:
  assumes "pickRecipient collate now input lead cursor s = (r, s')"
  shows "o_users s' = o_users s" and "o_sessions s' = o_sessions s" and "o_field s' = o_field s"
  using assms by (auto simp: pickRecipient_def case_prod_beta Let_def split: offboard_strategy.splits option.splits)

lemma resolveOwner_serves: "resolveOwner collate users ls now lead rules = ((Some i, r), rules') \<Longrightarrow> serves users i"
  by (auto simp: resolveOwner_def rule_owner_def Let_def activeUserIds_mem split: option.splits if_splits
      dest!: selectOwner_mem)

lemma pick_not_leaver:
  assumes "pickRecipient collate now input lead cursor s = (Some i, s')"
    and "userId \<notin> set (of_targetUserIds input)" and "\<not> serves (o_users s) userId"
  shows "i \<noteq> userId"
proof (cases "of_strategy input")
  case SINGLE_OWNER
  then show ?thesis using assms by (auto simp: pickRecipient_def split: list.splits)
next
  case ROUND_ROBIN_POOL
  then have "of_targetUserIds input \<noteq> []" "i = of_targetUserIds input ! (cursor mod length (of_targetUserIds input))"
    using assms(1) by (auto simp: pickRecipient_def split: if_splits)
  then have "i \<in> set (of_targetUserIds input)" by (simp add: nth_mem)
  then show ?thesis using assms(2) by blast
next
  case RULES_ENGINE
  then show ?thesis
    using assms resolveOwner_serves
    by (auto simp: pickRecipient_def Let_def split: option.splits prod.splits)
next
  case UNASSIGN
  then show ?thesis using assms(1) by (simp add: pickRecipient_def)
qed

lemma move_lead_Inr:
  assumes "move_lead actor newOwner i reason s = Inr s'"
  obtains f where "\<And>l. l_id (f l) = l_id l \<and> l_ownerId (f l) = newOwner"
    "o_leads s' = update_by l_id i f (o_leads s)" "o_users s' = o_users s" "o_sessions s' = o_sessions s"
    "cr_customers (o_crm s') = cr_customers (o_crm s)" "vs_visits (o_field s') = vs_visits (o_field s)"
    "ts_tasks (vs_tasks (o_field s')) = ts_tasks (vs_tasks (o_field s))"
proof -
  let ?unit = "Option.bind (Option.bind newOwner (\<lambda>i. find_by u_id i (o_users s))) u_orgUnitId"
  let ?f = "\<lambda>l. l\<lparr>l_ownerId := newOwner, l_orgUnitId := or_else ?unit (l_orgUnitId l), l_updatedById := Some actor\<rparr>"
  show ?thesis
    by (rule that [of ?f])
      (use assms in \<open>auto simp: move_lead_def Let_def and_then_Inr update_lead_def store_leads_def split: if_splits\<close>)
qed

definition untouched :: "office \<Rightarrow> office \<Rightarrow> bool" where
  "untouched s s' \<longleftrightarrow> o_users s' = o_users s \<and> o_sessions s' = o_sessions s \<and>
    cr_customers (o_crm s') = cr_customers (o_crm s) \<and> vs_visits (o_field s') = vs_visits (o_field s) \<and>
    ts_tasks (vs_tasks (o_field s')) = ts_tasks (vs_tasks (o_field s))"

lemma move_leads_effect:
  assumes "move_leads collate now actor input ls cursor s = (r, s')"
    and "userId \<notin> set (of_targetUserIds input)" and "\<not> serves (o_users s) userId"
  shows "untouched s s' \<and>
    (\<forall>l \<in> set (o_leads s). l_id l \<notin> l_id ` set ls \<longrightarrow> l \<in> set (o_leads s')) \<and>
    (isl r \<or> (\<forall>l \<in> set (o_leads s'). l_ownerId l = Some userId \<longrightarrow> l \<in> set (o_leads s) \<and> l_id l \<notin> l_id ` set ls))"
  using assms
proof (induction ls arbitrary: cursor s)
  case Nil
  then show ?case by (auto simp: untouched_def)
next
  case (Cons l ls)
  obtain newOwner s1 where pick: "pickRecipient collate now input (Some l) cursor s = (newOwner, s1)"
    by (metis surj_pair)
  note keep = pick_keeps [OF pick]
  have new: "newOwner \<noteq> Some userId" using pick_not_leaver [of collate now input "Some l" cursor s] pick Cons.prems(2,3) by auto
  show ?case
  proof (cases "move_lead actor newOwner (l_id l) (of_reason input) s1")
    case (Inl e)
    then show ?thesis using Cons.prems(1) pick keep by (auto simp: untouched_def)
  next
    case (Inr s2)
    obtain f where f: "\<And>l. l_id (f l) = l_id l \<and> l_ownerId (f l) = newOwner"
        "o_leads s2 = update_by l_id (l_id l) f (o_leads s1)" "untouched s1 s2"
      by (rule move_lead_Inr [OF Inr]) (auto simp: untouched_def)
    have rest: "move_leads collate now actor input ls (cursor + 1) s2 = (r, s')"
      using Cons.prems(1) pick Inr by simp
    have "\<not> serves (o_users s2) userId" using Cons.prems(3) keep f(3) by (simp add: untouched_def)
    note IH = Cons.IH [OF rest Cons.prems(2) this]
    have "untouched s s2" using keep f(3) by (simp add: untouched_def)
    then have "untouched s s'" using IH by (simp add: untouched_def)
    moreover have "k \<in> set (o_leads s2)" if "k \<in> set (o_leads s)" "l_id k \<noteq> l_id l" for k
      using that f(2) keep by (force simp: update_by_def set_update_where)
    moreover have "k \<in> set (o_leads s) \<and> l_id k \<noteq> l_id l" if "k \<in> set (o_leads s2)" "l_ownerId k = Some userId" for k
      using that f(1,2) keep new by (auto simp: update_by_def set_update_where split: if_splits)
    ultimately show ?thesis using IH by auto
  qed
qed

lemma move_customers_keeps [simp]:
  "o_users (move_customers collate now userId input cursor s) = o_users s"
  "o_sessions (move_customers collate now userId input cursor s) = o_sessions s"
  "o_leads (move_customers collate now userId input cursor s) = o_leads s"
  "ts_tasks (vs_tasks (o_field (move_customers collate now userId input cursor s))) = ts_tasks (vs_tasks (o_field s))"
proof -
  obtain r s1 where p: "pickRecipient collate now input None cursor s = (r, s1)" by (metis surj_pair)
  note k = pick_keeps [OF p]
  show "o_users (move_customers collate now userId input cursor s) = o_users s"
    "o_sessions (move_customers collate now userId input cursor s) = o_sessions s"
    "o_leads (move_customers collate now userId input cursor s) = o_leads s"
    "ts_tasks (vs_tasks (o_field (move_customers collate now userId input cursor s))) = ts_tasks (vs_tasks (o_field s))"
    using k by (cases r; simp add: move_customers_def p)+
qed

lemma move_tasks_keeps [simp]:
  "o_users (move_tasks collate now userId input cursor s) = o_users s"
  "o_sessions (move_tasks collate now userId input cursor s) = o_sessions s"
  "o_crm (move_tasks collate now userId input cursor s) = o_crm s"
proof -
  obtain r s1 where p: "pickRecipient collate now input None (cursor + 1) s = (r, s1)" by (metis surj_pair)
  note k = pick_keeps [OF p]
  show "o_users (move_tasks collate now userId input cursor s) = o_users s"
    "o_sessions (move_tasks collate now userId input cursor s) = o_sessions s"
    "o_crm (move_tasks collate now userId input cursor s) = o_crm s"
    using k p by (cases r; simp add: move_tasks_def)+
qed

text \<open>The parts of a handover that was not refused.\<close>

lemma offboard_run:
  assumes "offboard collate cancel_note now actor userId input s = (r, s')" and "r = Inr () \<or> s' \<noteq> s"
  obtains s1 where "userId \<notin> set (of_targetUserIds input)"
    "move_leads collate now actor input (filter (open_lead_of userId) (o_leads s)) 0 (cut_access now userId s) = (r, s1)"
    "o_users s' = o_users s1" "o_sessions s' = o_sessions s1" "o_leads s' = o_leads s1"
proof -
  have leads: "o_leads (cut_access now userId s) = o_leads s" by (simp add: cut_access_def)
  have rec: "userId \<notin> set (of_targetUserIds input)" if "assertRecipientsAreActive (o_users s) (of_targetUserIds input) userId = Inr u" for u
    using that by (auto simp: assertRecipientsAreActive_def split: if_splits)
  obtain r1 s1 where m: "move_leads collate now actor input (filter (open_lead_of userId) (o_leads s)) 0 (cut_access now userId s) = (r1, s1)"
    by (metis surj_pair)
  show ?thesis
    using assms m rec leads that
    by (cases r1; cases "assertRecipientsAreActive (o_users s) (of_targetUserIds input) userId")
      (auto simp: offboard_def Let_def split: if_splits)
qed

lemma cut_access_effect:
  "e \<in> set (o_sessions (cut_access now userId s)) \<Longrightarrow> se_userId e = userId \<Longrightarrow> se_revokedAt e \<noteq> None"
  "u \<in> set (o_users (cut_access now userId s)) \<Longrightarrow> u_id u = userId \<Longrightarrow> u_status u = DISABLED"
  "\<not> serves (o_users (cut_access now userId s)) userId"
proof -
  have sessions: "o_sessions (cut_access now userId s) = update_where (\<lambda>e. se_userId e = userId \<and> se_revokedAt e = None)
      (\<lambda>e. e\<lparr>se_revokedAt := Some now, se_revokedReason := Some OFFBOARDED\<rparr>) (o_sessions s)"
    by (simp add: cut_access_def)
  show "se_revokedAt e \<noteq> None" if e: "e \<in> set (o_sessions (cut_access now userId s))" "se_userId e = userId"
  proof -
    obtain d where "e = (if se_userId d = userId \<and> se_revokedAt d = None
        then d\<lparr>se_revokedAt := Some now, se_revokedReason := Some OFFBOARDED\<rparr> else d)"
      using e(1) unfolding sessions set_update_where by blast
    then show ?thesis using e(2) by (cases "se_userId d = userId \<and> se_revokedAt d = None") auto
  qed
  have u: "u_status u = DISABLED" if m: "u \<in> set (o_users (cut_access now userId s))" "u_id u = userId" for u
  proof -
    have users: "o_users (cut_access now userId s) = update_where (\<lambda>u. u_id u = userId) (\<lambda>u. u\<lparr>u_status := DISABLED\<rparr>) (o_users s)"
      by (simp add: cut_access_def update_by_def)
    obtain v where "u = (if u_id v = userId then v\<lparr>u_status := DISABLED\<rparr> else v)"
      using m(1) unfolding users set_update_where by blast
    then show ?thesis using m(2) by (cases "u_id v = userId") auto
  qed
  then show "u \<in> set (o_users (cut_access now userId s)) \<Longrightarrow> u_id u = userId \<Longrightarrow> u_status u = DISABLED" .
  show "\<not> serves (o_users (cut_access now userId s)) userId"
    unfolding serves_def using u by fastforce
qed

text \<open>
  Access is cut first: whenever an offboarding is not refused outright, even when it stops
  half-way, every session of the leaver is revoked and the account disabled.
\<close>

theorem offboarding_cuts_access:
  assumes "offboard collate cancel_note now actor userId input s = (r, s')" and "s' \<noteq> s"
  shows "(\<forall>e \<in> set (o_sessions s'). se_userId e = userId \<longrightarrow> se_revokedAt e \<noteq> None) \<and>
    (\<forall>u \<in> set (o_users s'). u_id u = userId \<longrightarrow> u_status u = DISABLED)"
proof -
  obtain s1 where t: "userId \<notin> set (of_targetUserIds input)"
      and m: "move_leads collate now actor input (filter (open_lead_of userId) (o_leads s)) 0 (cut_access now userId s) = (r, s1)"
      and s1: "o_users s' = o_users s1" "o_sessions s' = o_sessions s1"
    by (rule offboard_run [OF assms(1) disjI2 [OF assms(2)]])
  show ?thesis
    using move_leads_effect [OF m t cut_access_effect(3)] s1 cut_access_effect(1,2)
    by (fastforce simp: untouched_def simp del: not_None_eq)
qed

text \<open>
  C20. A completed offboarding leaves no live lead behind and rewrites no other: no open lead is
  owned by the leaver any more, whichever strategy chose the new owners (the routing rules never
  choose the leaver, who is disabled by then), and every lead that was not an open lead of theirs,
  closed ones included, is exactly as before.
\<close>

theorem offboarding_moves_live_leads:
  assumes "offboard collate cancel_note now actor userId input s = (Inr (), s')"
    and "keys_unique l_id (o_leads s)"
  shows "(\<forall>l \<in> set (o_leads s'). \<not> open_lead_of userId l) \<and>
    (\<forall>l \<in> set (o_leads s). \<not> open_lead_of userId l \<longrightarrow> l \<in> set (o_leads s'))"
proof -
  let ?open = "filter (open_lead_of userId) (o_leads s)"
  obtain s1 where t: "userId \<notin> set (of_targetUserIds input)"
      and m: "move_leads collate now actor input ?open 0 (cut_access now userId s) = (Inr (), s1)"
      and s1: "o_leads s' = o_leads s1"
    by (rule offboard_run [OF assms(1) disjI1 [OF refl]])
  note eff = move_leads_effect [OF m t cut_access_effect(3)]
  have leads: "o_leads (cut_access now userId s) = o_leads s" by (simp add: cut_access_def)
  have gone: "l \<in> set (o_leads s) \<and> l_id l \<notin> l_id ` set ?open"
    if "l \<in> set (o_leads s')" "l_ownerId l = Some userId" for l
    using eff that sum.disc(2) [where ?'a = http_error, of "()"] unfolding leads s1 by blast
  have "\<not> open_lead_of userId l" if "l \<in> set (o_leads s')" for l
  proof
    assume o: "open_lead_of userId l"
    then have "l \<in> set ?open" using gone [OF that] by (simp add: open_lead_of_def)
    then show False using gone [OF that] o by (simp add: open_lead_of_def)
  qed
  moreover have "l \<in> set (o_leads s')" if l: "l \<in> set (o_leads s)" "\<not> open_lead_of userId l" for l
  proof -
    have "l_id l \<notin> l_id ` set ?open"
    proof
      assume "l_id l \<in> l_id ` set ?open"
      then obtain k where k: "k \<in> set (o_leads s)" "open_lead_of userId k" "l_id k = l_id l" by auto
      have "k = l" by (rule find_by_same [OF assms(2) find_by_unique [OF assms(2) l(1)] k(1,3)])
      then show False using k(2) l(2) by simp
    qed
    then show ?thesis using eff l(1) unfolding leads s1 by blast
  qed
  ultimately show ?thesis by blast
qed

text \<open>
  Unassigning, and routing by the rules, leave the leaver's customers and tasks where they are:
  both strategies choose nobody when there is no lead to route, so although the handover was asked
  to include them and the preview announces them as moving, every customer still has the disabled
  account as its relationship manager and every task as its assignee.
\<close>

theorem leaver_keeps_customers_and_tasks:
  assumes "offboard collate cancel_note now actor userId input s = (Inr (), s')"
    and "of_strategy input = UNASSIGN \<or> of_strategy input = RULES_ENGINE"
  shows "cr_customers (o_crm s') = cr_customers (o_crm s) \<and>
    ts_tasks (vs_tasks (o_field s')) = ts_tasks (vs_tasks (o_field s))"
proof -
  have none: "pickRecipient collate now input None k t = (None, t)" for k t
    using assms(2) by (auto simp: pickRecipient_def)
  let ?open = "filter (open_lead_of userId) (o_leads s)"
  have leads: "o_leads (cut_access now userId s) = o_leads s" by (simp add: cut_access_def)
  obtain r1 s1 where m: "move_leads collate now actor input ?open 0 (cut_access now userId s) = (r1, s1)"
    by (metis surj_pair)
  obtain u where rec: "assertRecipientsAreActive (o_users s) (of_targetUserIds input) userId = Inr u"
    using assms(1) by (auto simp: offboard_def split: if_splits sum.splits)
  then have t: "userId \<notin> set (of_targetUserIds input)" by (auto simp: assertRecipientsAreActive_def split: if_splits)
  have same: "cr_customers (o_crm s1) = cr_customers (o_crm s)" "ts_tasks (vs_tasks (o_field s1)) = ts_tasks (vs_tasks (o_field s))"
    using move_leads_effect [OF m t cut_access_effect(3)] by (simp_all add: untouched_def cut_access_def)
  have "move_customers collate now userId input k s1 = s1" "move_tasks collate now userId input k s1 = s1" for k
    by (simp_all add: move_customers_def move_tasks_def none)
  then show ?thesis
    using assms(1) m rec leads same
    by (cases r1) (auto simp: offboard_def Let_def split: if_splits)
qed

definition demo_office :: office where
  "demo_office = \<lparr>o_users = demo_staff, o_sessions = [demo_session ''s1'' ''u1''], o_rules = demo_rules,
     o_noticeFrom = [], o_field = demo_field\<rparr>"

definition demo_leaving :: "offboard_strategy \<Rightarrow> string list \<Rightarrow> offboard_input" where
  "demo_leaving strategy targets = \<lparr>of_strategy = strategy, of_targetUserIds = targets, of_reason = ''Resigned'',
     of_includeCustomers = True, of_includeTasks = True\<rparr>"

definition demo_left :: office where
  "demo_left = snd (offboard code_unit_order (\<lambda>r. r) 100 ''admin'' ''u1'' (demo_leaving SINGLE_OWNER [''u2'']) demo_office)"

lemma demo_office_facts:
  "keys_unique l_id (o_leads demo_office) \<and> map l_ownerId (o_leads demo_office) = [Some ''u1''] \<and>
   map se_revokedAt (o_sessions demo_office) = [None]"
  by code_simp

lemma demo_left_facts:
  "case offboard code_unit_order (\<lambda>r. r) 100 ''admin'' ''u1'' (demo_leaving SINGLE_OWNER [''u2'']) demo_office of (r, s) \<Rightarrow>
     r = Inr () \<and> map l_ownerId (o_leads s) = [Some ''u2''] \<and> map se_revokedAt (o_sessions s) \<noteq> [None]"
  by code_simp

lemma demo_left_run:
  "offboard code_unit_order (\<lambda>r. r) 100 ''admin'' ''u1'' (demo_leaving SINGLE_OWNER [''u2'']) demo_office = (Inr (), demo_left)"
  using demo_left_facts unfolding demo_left_def case_prod_beta by (metis prod.collapse)

lemma demo_left_rows:
  "map l_ownerId (o_leads demo_left) = [Some ''u2'']" "map se_revokedAt (o_sessions demo_left) \<noteq> [None]"
  using demo_left_facts unfolding demo_left_run by simp_all

lemma offboarding_moves_live_leads_witness:
  "map l_ownerId (o_leads demo_office) = [Some ''u1''] \<and> \<not> open_lead_of ''u1'' (hd (o_leads demo_left)) \<and>
   map l_ownerId (o_leads demo_left) = [Some ''u2'']"
proof -
  note run = demo_left_run and u = demo_office_facts [THEN conjunct1]
  have "o_leads demo_left \<noteq> []" using demo_left_rows(1) by (metis list.simps(8) list.distinct(1))
  then have m: "hd (o_leads demo_left) \<in> set (o_leads demo_left)" by (rule hd_in_set)
  show ?thesis using offboarding_moves_live_leads [OF run u] m demo_office_facts demo_left_rows by blast
qed

lemma offboarding_cuts_access_witness:
  "filter (\<lambda>e. se_userId e = ''u1'' \<and> se_revokedAt e = None) (o_sessions demo_left) = []"
proof -
  note run = demo_left_run
  have "demo_left \<noteq> demo_office" using demo_left_rows(2) demo_office_facts by auto
  from offboarding_cuts_access [OF run this] show ?thesis unfolding filter_empty_conv by blast
qed

definition demo_customer :: customer_row where
  "demo_customer = \<lparr>cu_id = ''c1'', cu_reference = ''CU1'', cu_clientCode = Some ''SIHL42'', cu_pan = None, cu_firstName = ''Asha'',
     cu_mobile = ''9876543210'', cu_email = None, cu_status = ''ACTIVE'', cu_productInterest = [],
     cu_relationshipManagerId = Some ''u1'', cu_orgUnitId = None, cu_partnerId = None, cu_deletedAt = None\<rparr>"

definition demo_client_office :: office where
  "demo_client_office = with_crm (\<lambda>c. c\<lparr>cr_customers := [demo_customer]\<rparr>) demo_office"

lemma leaver_keeps_customers_and_tasks_witness:
  "map cu_relationshipManagerId (cr_customers (o_crm (snd (offboard code_unit_order (\<lambda>r. r) 100 ''admin'' ''u1''
     (demo_leaving RULES_ENGINE []) demo_client_office)))) = [Some ''u1'']"
proof -
  let ?run = "offboard code_unit_order (\<lambda>r. r) 100 ''admin'' ''u1'' (demo_leaving RULES_ENGINE []) demo_client_office"
  have "fst ?run = Inr ()" by code_simp
  then have run: "?run = (Inr (), snd ?run)" by (metis prod.collapse)
  have st: "of_strategy (demo_leaving RULES_ENGINE []) = UNASSIGN \<or> of_strategy (demo_leaving RULES_ENGINE []) = RULES_ENGINE"
    by (simp add: demo_leaving_def)
  have "map cu_relationshipManagerId (cr_customers (o_crm demo_client_office)) = [Some ''u1'']"
    by code_simp
  then show ?thesis using leaver_keeps_customers_and_tasks [OF run st] by simp
qed

end
