(* ===== verification/Scoring.thy ===== *)
theory Scoring
  imports Prelude
begin

text \<open>
  Lead scoring: \<open>packages/contracts/src/lead-scoring.ts\<close>. The logarithms are those of the real
  numbers; the labels shown beside a factor and the wording of an action are not modelled.
\<close>

record scoring_features =
  sf_source :: string
  sf_sourceWeight :: "int option"
  sf_productInterest :: "string list"
  sf_hasEmail :: bool
  sf_hasPan :: bool
  sf_hasCity :: bool
  sf_activityCount :: nat
  sf_ageInDays :: int
  sf_daysSinceLastActivity :: "int option"
  sf_estimatedValue :: "real option"
  sf_hasCampaignAttribution :: bool

datatype factor_code =
    SOURCE | PRODUCT_INTEREST | PROFILE_COMPLETENESS | ENGAGEMENT | CAMPAIGN | DEAL_VALUE
  | RECENCY_DECAY | RECENCY_FRESH

record score_factor =
  fa_code :: factor_code
  fa_points :: int

record lead_score =
  sc_score :: int
  sc_factors :: "score_factor list"

definition DEFAULT_SOURCE_WEIGHT :: int where "DEFAULT_SOURCE_WEIGHT = 4"

definition SYSTEM_SOURCE_WEIGHTS :: "(string \<times> int) list" where
  "SYSTEM_SOURCE_WEIGHTS =
    [(''REFERRAL'', 22), (''WALK_IN'', 20), (''PARTNER'', 18), (''INBOUND_CALL'', 18), (''WEBSITE'', 14),
     (''CAMPAIGN'', 12), (''SOCIAL'', 8), (''OUTBOUND_CALL'', 6), (''IMPORT'', 2), (''OTHER'', 4)]"

definition PRODUCT_WEIGHTS :: "(string \<times> int) list" where
  "PRODUCT_WEIGHTS =
    [(''PMS'', 10), (''AIF'', 10), (''DERIVATIVES'', 8), (''ALGO'', 8), (''NRI'', 7), (''EQUITY'', 5),
     (''MUTUAL_FUNDS'', 5), (''COMMODITY'', 4), (''CURRENCY'', 4), (''IPO'', 3), (''BONDS'', 3), (''INSURANCE'', 2)]"

definition or_value :: "'a option \<Rightarrow> 'a \<Rightarrow> 'a" where
  "or_value v d = (case v of None \<Rightarrow> d | Some x \<Rightarrow> x)"

definition round_real :: "real \<Rightarrow> int" where
  "round_real x = \<lfloor>x + 1 / 2\<rfloor>"

definition source_points :: "scoring_features \<Rightarrow> int" where
  "source_points f =
    or_value (sf_sourceWeight f) (or_value (map_of SYSTEM_SOURCE_WEIGHTS (sf_source f)) DEFAULT_SOURCE_WEIGHT)"

definition product_points :: "scoring_features \<Rightarrow> int" where
  "product_points f =
    clamp (foldl (\<lambda>sum product. sum + or_value (map_of PRODUCT_WEIGHTS product) 2) 0 (sf_productInterest f)) 0 20"

definition completeness_points :: "scoring_features \<Rightarrow> int" where
  "completeness_points f =
    (if sf_hasEmail f then 6 else 0) + (if sf_hasPan f then 10 else 0) + (if sf_hasCity f then 3 else 0)"

definition engagement_points :: "scoring_features \<Rightarrow> int" where
  "engagement_points f = clamp (round_real (log 2 (real (sf_activityCount f) + 1) * 8)) 0 20"

definition value_points :: "scoring_features \<Rightarrow> int" where
  "value_points f =
    (case sf_estimatedValue f of
       None \<Rightarrow> 0
     | Some v \<Rightarrow> if v > 0 then clamp (round_real (log 10 v * 2 - 2)) 0 10 else 0)"

definition stale_days :: "scoring_features \<Rightarrow> int" where
  "stale_days f = or_value (sf_daysSinceLastActivity f) (sf_ageInDays f)"

definition decay_points :: "int \<Rightarrow> int" where
  "decay_points stale = clamp (js_round (of_int (stale - 7) * (4 / 5))) 0 25"

definition recency_factors :: "scoring_features \<Rightarrow> score_factor list" where
  "recency_factors f =
    (let stale = stale_days f in
     if stale > 7 then [\<lparr>fa_code = RECENCY_DECAY, fa_points = - decay_points stale\<rparr>]
     else if stale \<le> 2 then [\<lparr>fa_code = RECENCY_FRESH, fa_points = 6\<rparr>]
     else [])"

definition positive_factor :: "factor_code \<Rightarrow> int \<Rightarrow> score_factor list" where
  "positive_factor code points = (if points > 0 then [\<lparr>fa_code = code, fa_points = points\<rparr>] else [])"

definition score_factors :: "scoring_features \<Rightarrow> score_factor list" where
  "score_factors f =
    [\<lparr>fa_code = SOURCE, fa_points = source_points f\<rparr>] @
    positive_factor PRODUCT_INTEREST (product_points f) @
    positive_factor PROFILE_COMPLETENESS (completeness_points f) @
    positive_factor ENGAGEMENT (engagement_points f) @
    (if sf_hasCampaignAttribution f then [\<lparr>fa_code = CAMPAIGN, fa_points = 4\<rparr>] else []) @
    positive_factor DEAL_VALUE (value_points f) @
    recency_factors f"

definition total_points :: "score_factor list \<Rightarrow> int" where
  "total_points fs = foldl (\<lambda>sum factor. sum + fa_points factor) 0 fs"

definition scoreLead :: "scoring_features \<Rightarrow> lead_score" where
  "scoreLead f = \<lparr>sc_score = clamp (total_points (score_factors f)) 0 100, sc_factors = score_factors f\<rparr>"

datatype urgency = LOW | MEDIUM | HIGH

record next_best_action =
  na_code :: string
  na_urgency :: urgency

record action_context =
  nx_status :: string
  nx_hasOwner :: bool
  nx_followUpOverdue :: bool

definition nextBestActions :: "scoring_features \<Rightarrow> action_context \<Rightarrow> next_best_action list" where
  "nextBestActions f c =
    (if \<not> nx_hasOwner c then [\<lparr>na_code = ''ASSIGN_OWNER'', na_urgency = HIGH\<rparr>] else []) @
    (if nx_followUpOverdue c then [\<lparr>na_code = ''OVERDUE_FOLLOW_UP'', na_urgency = HIGH\<rparr>] else []) @
    (if sf_activityCount f = 0 then [\<lparr>na_code = ''FIRST_CALL'', na_urgency = HIGH\<rparr>] else []) @
    (if \<not> sf_hasPan f \<and> nx_status c = ''QUALIFIED'' then [\<lparr>na_code = ''COLLECT_PAN'', na_urgency = MEDIUM\<rparr>] else []) @
    (if \<not> sf_hasEmail f then [\<lparr>na_code = ''COLLECT_EMAIL'', na_urgency = MEDIUM\<rparr>] else []) @
    (if sf_productInterest f = [] then [\<lparr>na_code = ''QUALIFY_INTEREST'', na_urgency = MEDIUM\<rparr>] else []) @
    (if stale_days f > 14 \<and> sf_activityCount f > 0 then [\<lparr>na_code = ''RE_ENGAGE'', na_urgency = LOW\<rparr>] else [])"

section \<open>What the score means\<close>

lemma foldl_sum: "foldl (\<lambda>sum x. sum + g x) (a :: int) xs = a + sum_list (map g xs)"
  by (induction xs arbitrary: a) auto

lemma total_points_append [simp]: "total_points (xs @ ys) = total_points xs + total_points ys"
  and total_points_Cons [simp]: "total_points (x # xs) = fa_points x + total_points xs"
  and total_points_Nil [simp]: "total_points [] = 0"
  by (simp_all add: total_points_def foldl_sum)

lemma total_positive_factor: "0 \<le> points \<Longrightarrow> total_points (positive_factor code points) = points"
  by (simp add: positive_factor_def)

lemma points_nonneg:
  "0 \<le> product_points f" "0 \<le> completeness_points f" "0 \<le> engagement_points f" "0 \<le> value_points f"
  by (simp_all add: product_points_def completeness_points_def engagement_points_def value_points_def split: option.split)

lemma total_score_factors:
  "total_points (score_factors f) = source_points f + product_points f + completeness_points f + engagement_points f +
    (if sf_hasCampaignAttribution f then 4 else 0) + value_points f + total_points (recency_factors f)"
  by (simp add: score_factors_def total_positive_factor points_nonneg)

lemma clamp_mono: "a \<le> b \<Longrightarrow> clamp a lo hi \<le> clamp b lo (hi :: int)"
  by (simp add: clamp_def min_def max_def)

lemma round_real_mono: "x \<le> y \<Longrightarrow> round_real x \<le> round_real y"
  by (simp add: round_real_def floor_mono)

text \<open>Features that dominate others: the same arrival, more known and more done.\<close>

definition dominates :: "scoring_features \<Rightarrow> scoring_features \<Rightarrow> bool" where
  "dominates g f \<longleftrightarrow>
    sf_source g = sf_source f \<and> sf_sourceWeight g = sf_sourceWeight f \<and>
    (\<exists>more. sf_productInterest g = sf_productInterest f @ more) \<and>
    (sf_hasEmail f \<longrightarrow> sf_hasEmail g) \<and> (sf_hasPan f \<longrightarrow> sf_hasPan g) \<and> (sf_hasCity f \<longrightarrow> sf_hasCity g) \<and>
    (sf_hasCampaignAttribution f \<longrightarrow> sf_hasCampaignAttribution g) \<and>
    sf_activityCount f \<le> sf_activityCount g \<and> stale_days g \<le> stale_days f \<and>
    (case sf_estimatedValue f of None \<Rightarrow> True
     | Some v \<Rightarrow> v \<le> 0 \<or> (case sf_estimatedValue g of None \<Rightarrow> False | Some w \<Rightarrow> v \<le> w))"

lemma product_weight_nonneg: "0 \<le> or_value (map_of PRODUCT_WEIGHTS p) 2"
proof -
  have "\<forall>(k, w) \<in> set PRODUCT_WEIGHTS. 0 \<le> w" by (simp add: PRODUCT_WEIGHTS_def)
  then show ?thesis by (auto simp: or_value_def split: option.split dest: map_of_SomeD)
qed

lemma decay_points_nonneg: "0 \<le> decay_points n"
  by (simp add: decay_points_def clamp_def)

lemma decay_points_mono: "m \<le> n \<Longrightarrow> decay_points m \<le> decay_points n"
  unfolding decay_points_def by (intro clamp_mono js_round_mono) simp

lemma recency_mono:
  assumes "stale_days g \<le> stale_days f"
  shows "total_points (recency_factors f) \<le> total_points (recency_factors g)"
  using assms decay_points_mono [OF assms] decay_points_nonneg [of "stale_days f"]
  by (simp add: recency_factors_def Let_def)

lemma engagement_mono: "sf_activityCount f \<le> sf_activityCount g \<Longrightarrow> engagement_points f \<le> engagement_points g"
  unfolding engagement_points_def by (intro clamp_mono round_real_mono) simp

lemma value_mono:
  assumes "case sf_estimatedValue f of None \<Rightarrow> True
     | Some v \<Rightarrow> v \<le> 0 \<or> (case sf_estimatedValue g of None \<Rightarrow> False | Some w \<Rightarrow> v \<le> w)"
  shows "value_points f \<le> value_points g"
proof (cases "\<exists>v. sf_estimatedValue f = Some v \<and> v > 0")
  case True
  then obtain v w where v: "sf_estimatedValue f = Some v" "v > 0" and w: "sf_estimatedValue g = Some w" "v \<le> w"
    using assms by (auto split: option.splits)
  then have "round_real (log 10 v * 2 - 2) \<le> round_real (log 10 w * 2 - 2)"
    by (intro round_real_mono) simp
  then show ?thesis using v w by (simp add: value_points_def clamp_mono)
next
  case False
  then have "value_points f = 0" by (auto simp: value_points_def split: option.splits)
  then show ?thesis using points_nonneg(4) [of g] by simp
qed

text \<open>
  C21. The score explains itself and never punishes progress: it is the sum of the factors it is
  returned with, kept between 0 and 100, and a lead about which more is known, that was contacted
  more often or more recently, or that is worth more, never scores lower.
\<close>

theorem score_is_explained_and_monotone:
  assumes "dominates g f"
  shows "sc_score (scoreLead f) \<le> sc_score (scoreLead g) \<and> 0 \<le> sc_score (scoreLead f) \<and> sc_score (scoreLead g) \<le> 100 \<and>
    sc_score (scoreLead g) = clamp (sum_list (map fa_points (sc_factors (scoreLead g)))) 0 100"
proof -
  note d = assms [unfolded dominates_def]
  obtain more where more: "sf_productInterest g = sf_productInterest f @ more" using d by blast
  have "0 \<le> sum_list (map (\<lambda>p. or_value (map_of PRODUCT_WEIGHTS p) 2) more)"
    by (intro sum_list_nonneg) (auto simp: product_weight_nonneg)
  then have "product_points f \<le> product_points g"
    unfolding product_points_def by (intro clamp_mono) (simp add: foldl_sum more)
  moreover have "source_points f = source_points g" using d by (simp add: source_points_def)
  moreover have "completeness_points f \<le> completeness_points g" using d by (auto simp: completeness_points_def)
  moreover have "value_points f \<le> value_points g" by (rule value_mono) (use d in blast)
  moreover have "engagement_points f \<le> engagement_points g" by (rule engagement_mono) (use d in blast)
  moreover have "total_points (recency_factors f) \<le> total_points (recency_factors g)"
    by (rule recency_mono) (use d in blast)
  moreover have "(if sf_hasCampaignAttribution f then 4 else 0) \<le> (if sf_hasCampaignAttribution g then 4 else (0 :: int))"
    using d by simp
  ultimately have "total_points (score_factors f) \<le> total_points (score_factors g)"
    unfolding total_score_factors by linarith
  then show ?thesis by (simp add: scoreLead_def clamp_mono total_points_def foldl_sum)
qed

section \<open>The score without logarithms\<close>

lemma clamp_floor:
  "clamp \<lfloor>y\<rfloor> 0 (int n) = int (length (filter (\<lambda>k. real k \<le> y) [1..<n + 1]))" for y :: real
proof (induction n)
  case 0
  then show ?case by (simp add: clamp_def)
next
  case (Suc n)
  show ?case
  proof (cases "real (n + 1) \<le> y")
    case True
    then have all: "filter (\<lambda>k. real k \<le> y) [1..<Suc n + 1] = [1..<Suc n + 1]" by (auto simp: filter_id_conv)
    have "int (Suc n) \<le> \<lfloor>y\<rfloor>" using True by (simp add: le_floor_iff)
    then show ?thesis unfolding all by (simp add: clamp_def)
  next
    case False
    then have "\<lfloor>y\<rfloor> < int (Suc n)" by (simp add: floor_less_iff)
    then have "clamp \<lfloor>y\<rfloor> 0 (int (Suc n)) = clamp \<lfloor>y\<rfloor> 0 (int n)" by (auto simp: clamp_def)
    then show ?thesis using Suc False by simp
  qed
qed

definition engagement_steps :: "nat \<Rightarrow> int" where
  "engagement_steps n = int (length (filter (\<lambda>k. (2 :: int) ^ (2 * k - 1) \<le> (int n + 1) ^ 16) [1..<21]))"

definition value_steps :: "real \<Rightarrow> int" where
  "value_steps v = int (length (filter (\<lambda>k. (10 :: real) ^ (2 * k + 3) \<le> v ^ 4) [1..<11]))"

lemma engagement_by_steps: "engagement_points f = engagement_steps (sf_activityCount f)"
proof -
  let ?n = "real (sf_activityCount f) + 1"
  have step: "real k \<le> log 2 ?n * 8 + 1 / 2 \<longleftrightarrow> (2 :: int) ^ (2 * k - 1) \<le> (int (sf_activityCount f) + 1) ^ 16"
    if "k \<in> set [1..<21]" for k
  proof -
    have "real k \<le> log 2 ?n * 8 + 1 / 2 \<longleftrightarrow> real (2 * k - 1) \<le> log 2 (?n ^ 16)"
      using that by (simp add: log_nat_power of_nat_diff) linarith
    also have "\<dots> \<longleftrightarrow> 2 ^ (2 * k - 1) \<le> ?n ^ 16"
      by (subst le_log_iff) (simp_all add: powr_realpow)
    also have "\<dots> \<longleftrightarrow> real_of_int (2 ^ (2 * k - 1)) \<le> real_of_int ((int (sf_activityCount f) + 1) ^ 16)" by simp
    finally show ?thesis unfolding of_int_le_iff .
  qed
  have "engagement_points f = int (length (filter (\<lambda>k. real k \<le> log 2 ?n * 8 + 1 / 2) [1..<20 + 1]))"
    using clamp_floor [of "log 2 ?n * 8 + 1 / 2" 20] by (simp add: engagement_points_def round_real_def)
  also have "filter (\<lambda>k. real k \<le> log 2 ?n * 8 + 1 / 2) [1..<20 + 1] =
      filter (\<lambda>k. (2 :: int) ^ (2 * k - 1) \<le> (int (sf_activityCount f) + 1) ^ 16) [1..<20 + 1]"
    by (rule filter_cong) (use step in simp_all)
  finally show ?thesis by (simp add: engagement_steps_def)
qed

lemma value_by_steps:
  assumes "0 < v"
  shows "clamp (round_real (log 10 v * 2 - 2)) 0 10 = value_steps v"
proof -
  have step: "real k \<le> log 10 v * 2 - 2 + 1 / 2 \<longleftrightarrow> (10 :: real) ^ (2 * k + 3) \<le> v ^ 4" for k
  proof -
    have "real k \<le> log 10 v * 2 - 2 + 1 / 2 \<longleftrightarrow> real (2 * k + 3) \<le> log 10 (v ^ 4)"
      using assms by (simp add: log_nat_power) linarith
    also have "\<dots> \<longleftrightarrow> 10 ^ (2 * k + 3) \<le> v ^ 4"
      using assms by (subst le_log_iff) (simp_all add: powr_realpow del: of_nat_add)
    finally show ?thesis .
  qed
  have "clamp (round_real (log 10 v * 2 - 2)) 0 10 =
      int (length (filter (\<lambda>k. real k \<le> log 10 v * 2 - 2 + 1 / 2) [1..<10 + 1]))"
    using clamp_floor [of "log 10 v * 2 - 2 + 1 / 2" 10] by (simp add: round_real_def)
  also have "\<dots> = value_steps v" unfolding step value_steps_def by simp
  finally show ?thesis .
qed

text \<open>
  The score is decidable in whole numbers: the points for engagement are the number of
  \<open>k \<le> 20\<close> whose threshold \<open>2 ^ (2 k - 1)\<close> the sixteenth power of the interactions plus one
  reaches, and those for the deal the number of \<open>k \<le> 10\<close> whose threshold \<open>10 ^ (2 k + 3)\<close> the
  fourth power of its value reaches; the logarithms decide nothing else.
\<close>

theorem score_needs_no_logarithms:
  "engagement_points f = engagement_steps (sf_activityCount f) \<and>
   value_points f = (case sf_estimatedValue f of None \<Rightarrow> 0 | Some v \<Rightarrow> if v > 0 then value_steps v else 0)"
  by (simp add: engagement_by_steps value_points_def value_by_steps split: option.split)

lemma value_points_steps:
  "value_points f = (case sf_estimatedValue f of None \<Rightarrow> 0 | Some v \<Rightarrow> if v > 0 then value_steps v else 0)"
  by (simp add: value_points_def value_by_steps split: option.split)

declare engagement_by_steps [code] value_points_steps [code]

text \<open>A lakh is worth eight points and ten lakh all ten, not the two and six of the source's comment.\<close>

lemma points_of_a_lakh: "value_steps 100000 = 8" "value_steps 1000000 = 10" "value_steps 10000000 = 10"
  by code_simp+

definition demo_features :: scoring_features where
  "demo_features = \<lparr>sf_source = ''WEBSITE'', sf_sourceWeight = None, sf_productInterest = [], sf_hasEmail = False,
     sf_hasPan = False, sf_hasCity = False, sf_activityCount = 0, sf_ageInDays = 20, sf_daysSinceLastActivity = None,
     sf_estimatedValue = None, sf_hasCampaignAttribution = False\<rparr>"

lemma score_is_explained_and_monotone_witness:
  "sc_score (scoreLead demo_features) \<le>
    sc_score (scoreLead (demo_features\<lparr>sf_hasPan := True, sf_activityCount := 3, sf_daysSinceLastActivity := Some 1\<rparr>))"
  using score_is_explained_and_monotone
    [of "demo_features\<lparr>sf_hasPan := True, sf_activityCount := 3, sf_daysSinceLastActivity := Some 1\<rparr>" demo_features]
  by (simp add: dominates_def demo_features_def stale_days_def or_value_def)

text \<open>The actions come most urgent first, so that a caller may take the head.\<close>

fun urgency_rank :: "urgency \<Rightarrow> nat" where
  "urgency_rank HIGH = 0"
| "urgency_rank MEDIUM = 1"
| "urgency_rank LOW = 2"

lemma actions_by_urgency: "sorted (map (urgency_rank \<circ> na_urgency) (nextBestActions f c))"
  by (simp add: nextBestActions_def)

end
