(* ===== verification/ImportText.thy ===== *)
theory ImportText
  imports Auth Matching
begin

text \<open>
  The text half of an import, \<open>packages/contracts/src/import.ts\<close>: the delimited-text parser, the
  suggested column mapping, products, amounts and names as people type them; and \<open>csvCell\<close> of
  \<open>leads.service.ts\<close>, with which the exports are written. The byte-order mark lies outside the
  code units of the model and is a parameter; so does the rupee sign, which therefore never
  occurs. Amounts are exact rationals where the source has doubles.
\<close>

section \<open>Writing\<close>

abbreviation dquote :: char where "dquote \<equiv> CHR 0x22"
abbreviation tab :: char where "tab \<equiv> CHR 0x09"
abbreviation newline :: char where "newline \<equiv> CHR 0x0A"
abbreviation return :: char where "return \<equiv> CHR 0x0D"
abbreviation apostrophe :: char where "apostrophe \<equiv> CHR 0x27"

definition risky :: "string \<Rightarrow> bool" where
  "risky value \<longleftrightarrow> value \<noteq> [] \<and> hd value \<in> {CHR ''='', CHR ''+'', CHR ''-'', CHR ''@'', tab, return}"

definition guarded :: "string \<Rightarrow> string" where
  "guarded value = (if risky value then apostrophe # value else value)"

definition doubled_quotes :: "string \<Rightarrow> string" where
  "doubled_quotes s = concat (map (\<lambda>c. if c = dquote then [dquote, dquote] else [c]) s)"

definition csvCell :: "string \<Rightarrow> string" where
  "csvCell value = dquote # doubled_quotes (guarded value) @ [dquote]"

definition csv_line :: "string list \<Rightarrow> string" where
  "csv_line cells = join_with '','' (map csvCell cells)"

definition csv_document :: "char \<Rightarrow> string list list \<Rightarrow> string" where
  "csv_document bom rows = bom # join_with [return, newline] (map csv_line rows) @ [return, newline]"

section \<open>Reading\<close>

fun count_char :: "char \<Rightarrow> string \<Rightarrow> nat" where
  "count_char d [] = 0"
| "count_char d (c # cs) = (if c = d then 1 else 0) + count_char d cs"

text \<open>\<open>text.split(/\r?\n/, 1)[0]\<close>: a carriage return is cut only before the line feed.\<close>

fun first_line :: "string \<Rightarrow> string" where
  "first_line [] = []"
| "first_line (c # cs) =
    (if c = newline then []
     else if c = return \<and> cs \<noteq> [] \<and> hd cs = newline then []
     else c # first_line cs)"

definition DELIMITERS :: "char list" where
  "DELIMITERS = [CHR '','', tab, CHR '';'', CHR ''|'']"

definition detectDelimiter :: "string \<Rightarrow> char" where
  "detectDelimiter s =
    (let counts = js_sort (\<lambda>a b. int (snd b) - int (snd a)) (map (\<lambda>d. (d, count_char d (first_line s))) DELIMITERS)
     in if snd (hd counts) > 0 then fst (hd counts) else CHR '','')"

text \<open>The loop over the text: finished rows, the row and field in progress, and the quote state.\<close>

fun csv_scan :: "char \<Rightarrow> string \<Rightarrow> string list list \<Rightarrow> string list \<Rightarrow> string \<Rightarrow> bool \<Rightarrow> string list list" where
  "csv_scan sep [] rows row field inQuotes =
    (if field \<noteq> [] \<or> row \<noteq> [] then rows @ [row @ [field]] else rows)"
| "csv_scan sep (c # cs) rows row field True =
    (if c = dquote
     then (case cs of
             d # ds \<Rightarrow> (if d = dquote then csv_scan sep ds rows row (field @ [dquote]) True
                       else csv_scan sep cs rows row field False)
           | [] \<Rightarrow> csv_scan sep cs rows row field False)
     else csv_scan sep cs rows row (field @ [c]) True)"
| "csv_scan sep (c # cs) rows row field False =
    (if c = dquote then csv_scan sep cs rows row field True
     else if c = sep then csv_scan sep cs rows (row @ [field]) [] False
     else if c = newline then csv_scan sep cs (rows @ [row @ [field]]) [] [] False
     else if c = return then csv_scan sep cs rows row field False
     else csv_scan sep cs rows row (field @ [c]) False)"

definition blank_row :: "string list \<Rightarrow> bool" where
  "blank_row cells \<longleftrightarrow> \<not> list_ex (\<lambda>cell. js_trim cell \<noteq> []) cells"

definition strip_bom :: "char \<Rightarrow> string \<Rightarrow> string" where
  "strip_bom bom s = (case s of c # cs \<Rightarrow> if c = bom then cs else s | [] \<Rightarrow> s)"

definition parseDelimited :: "char \<Rightarrow> string \<Rightarrow> char option \<Rightarrow> string list list" where
  "parseDelimited bom s delimiter =
    (let input = strip_bom bom s;
         sep = (case delimiter of None \<Rightarrow> detectDelimiter input | Some d \<Rightarrow> d)
     in filter (\<lambda>cells. \<not> blank_row cells) (csv_scan sep input [] [] [] False))"

section \<open>What is written is read back\<close>

lemma doubled_quotes_Cons:
  "doubled_quotes (c # s) = (if c = dquote then [dquote, dquote] else [c]) @ doubled_quotes s"
  by (simp add: doubled_quotes_def)

lemma scan_quoted:
  assumes "rest = [] \<or> hd rest \<noteq> dquote"
  shows "csv_scan sep (doubled_quotes s @ dquote # rest) rows row field True = csv_scan sep rest rows row (field @ s) False"
proof (induction s arbitrary: field)
  case Nil
  then show ?case using assms by (auto simp: doubled_quotes_def split: list.split)
next
  case (Cons c s)
  then show ?case by (simp add: doubled_quotes_Cons)
qed

lemma scan_cell:
  assumes "rest = [] \<or> hd rest \<noteq> dquote"
  shows "csv_scan sep (csvCell v @ rest) rows row [] False = csv_scan sep rest rows row (guarded v) False"
  using scan_quoted [OF assms, of sep "guarded v" rows row "[]"] by (simp add: csvCell_def)

lemma scan_line:
  "csv_scan (CHR '','') (csv_line (v # vs) @ return # newline # rest) rows row [] False =
   csv_scan (CHR '','') rest (rows @ [row @ map guarded (v # vs)]) [] [] False"
proof (induction vs arbitrary: v row)
  case Nil
  then show ?case by (simp add: csv_line_def scan_cell)
next
  case (Cons w vs)
  have "csv_scan (CHR '','') (csv_line (v # w # vs) @ return # newline # rest) rows row [] False =
        csv_scan (CHR '','') (csv_line (w # vs) @ return # newline # rest) rows (row @ [guarded v]) [] False"
    by (simp add: csv_line_def scan_cell)
  then show ?case by (simp add: Cons.IH)
qed

lemma csv_line_Nil [simp]: "csv_line [] = []"
  by (simp add: csv_line_def)

text \<open>An empty row leaves an empty line, which is read as a row with one empty cell.\<close>

definition read_cells :: "string list \<Rightarrow> string list" where
  "read_cells cells = (if cells = [] then [[]] else map guarded cells)"

lemma scan_lines:
  assumes "rows \<noteq> []"
  shows "csv_scan (CHR '','') (join_with [return, newline] (map csv_line rows) @ [return, newline]) acc [] [] False =
    acc @ map read_cells rows"
  using assms
proof (induction rows arbitrary: acc)
  case (Cons r rows)
  have one: "csv_scan (CHR '','') (csv_line r @ return # newline # rest) acc [] [] False =
      csv_scan (CHR '','') rest (acc @ [read_cells r]) [] [] False" for rest acc
    by (cases r) (simp_all add: scan_line read_cells_def)
  show ?case
  proof (cases rows)
    case Nil
    then show ?thesis using one [of "[]" acc] by simp
  next
    case (Cons r' rs)
    then show ?thesis using one Cons.IH by simp
  qed
qed simp

lemma js_trim_Nil [simp]: "js_trim [] = []"
  by (simp add: js_trim_def)

lemma read_cells_blank:
  "filter (\<lambda>cells. \<not> blank_row cells) (map read_cells rows) =
   filter (\<lambda>cells. \<not> blank_row cells) (map (map guarded) rows)"
  by (induction rows) (auto simp: read_cells_def blank_row_def)

lemma strip_bom_document:
  "strip_bom bom (csv_document bom rows) = join_with [return, newline] (map csv_line rows) @ [return, newline]"
  by (simp add: strip_bom_def csv_document_def)

lemma parse_document:
  "parseDelimited bom (csv_document bom rows) (Some (CHR '','')) =
    filter (\<lambda>cells. \<not> blank_row cells) (map (map guarded) rows)"
proof (cases "rows = []")
  case True
  then show ?thesis by (simp add: parseDelimited_def strip_bom_document blank_row_def)
next
  case False
  then show ?thesis
    by (simp add: parseDelimited_def strip_bom_document scan_lines read_cells_blank)
qed

lemma first_line_prefix: "newline \<notin> set s \<Longrightarrow> set (first_line (s @ return # newline # rest)) \<subseteq> set s"
  by (induction s) auto

lemma first_line_subset: "set (first_line (s @ return # newline # rest)) \<subseteq> set s"
  by (induction s) auto

lemma count_char_0: "d \<notin> set s \<Longrightarrow> count_char d s = 0"
  by (induction s) auto

lemma detect_comma:
  assumes "\<forall>d \<in> {tab, CHR '';'', CHR ''|''}. d \<notin> set (first_line s)"
  shows "detectDelimiter s = CHR '',''"
proof -
  have "count_char tab (first_line s) = 0" "count_char (CHR '';'') (first_line s) = 0"
    "count_char (CHR ''|'') (first_line s) = 0"
    using assms by (simp_all add: count_char_0)
  then show ?thesis by (simp add: detectDelimiter_def DELIMITERS_def)
qed

lemma set_csvCell: "set (csvCell v) \<subseteq> insert dquote (insert apostrophe (set v))"
  by (auto simp: csvCell_def doubled_quotes_def guarded_def split: if_splits)

lemma set_csv_line: "set (csv_line cells) \<subseteq> {CHR '','', dquote, apostrophe} \<union> (\<Union> (set ` set cells))"
proof (induction cells)
  case Nil
  then show ?case by simp
next
  case (Cons v cells)
  have "set (csv_line (v # cells)) \<subseteq> set (csvCell v) \<union> {CHR '',''} \<union> set (csv_line cells)"
    by (cases cells) (auto simp: csv_line_def)
  then show ?case using Cons set_csvCell [of v] by fastforce
qed

text \<open>
  C22. What the exports write, the importer reads: parsing an exported document gives back its rows,
  cell for cell, whatever quotes, separators and line breaks the cells hold; blank rows are dropped
  and a cell that a spreadsheet would run as a formula comes back with the apostrophe that defuses
  it. Told the delimiter or left to detect it makes no difference as long as the header holds
  none of the other candidates.
\<close>

theorem csv_round_trip:
  assumes "\<forall>cell \<in> set header. \<forall>d \<in> {tab, CHR '';'', CHR ''|''}. d \<notin> set cell"
  shows "parseDelimited bom (csv_document bom (header # rows)) None =
      filter (\<lambda>cells. \<not> blank_row cells) (map (map guarded) (header # rows)) \<and>
    parseDelimited bom (csv_document bom (header # rows)) (Some (CHR '','')) =
      filter (\<lambda>cells. \<not> blank_row cells) (map (map guarded) (header # rows))"
proof -
  obtain rest where "join_with [return, newline] (map csv_line (header # rows)) @ [return, newline] =
      csv_line header @ return # newline # rest"
    by (cases rows) auto
  then have doc: "strip_bom bom (csv_document bom (header # rows)) = csv_line header @ return # newline # rest"
    by (simp add: strip_bom_document)
  have "set (first_line (csv_line header @ return # newline # rest)) \<subseteq> {CHR '','', dquote, apostrophe} \<union> (\<Union> (set ` set header))"
    using first_line_subset set_csv_line by (meson order_trans)
  then have "\<forall>d \<in> {tab, CHR '';'', CHR ''|''}. d \<notin> set (first_line (csv_line header @ return # newline # rest))"
    using assms by fastforce
  from detect_comma [OF this]
  have "parseDelimited bom (csv_document bom (header # rows)) None =
      parseDelimited bom (csv_document bom (header # rows)) (Some (CHR '',''))"
    by (simp add: parseDelimited_def doc)
  then show ?thesis using parse_document [of bom "header # rows"] by simp
qed

lemma csv_round_trip_witness:
  "parseDelimited (CHR 0xFE) (csv_document (CHR 0xFE) [[''Name'', ''Note''], [''Shah, Asha'', [dquote, newline, CHR ''a'']], [[], []]]) None =
    [[''Name'', ''Note''], [''Shah, Asha'', [dquote, newline, CHR ''a'']]]"
proof -
  have h: "\<forall>cell \<in> set [''Name'', ''Note'']. \<forall>d \<in> {tab, CHR '';'', CHR ''|''}. d \<notin> set cell" by simp
  have "filter (\<lambda>cells. \<not> blank_row cells)
      (map (map guarded) [[''Name'', ''Note''], [''Shah, Asha'', [dquote, newline, CHR ''a'']], [[], []]]) =
    [[''Name'', ''Note''], [''Shah, Asha'', [dquote, newline, CHR ''a'']]]"
    by code_simp
  then show ?thesis by (rule trans [OF csv_round_trip [OF h, THEN conjunct1]])
qed

text \<open>The candidates are counted inside quoted cells too, which misleads the detection.\<close>

lemma quoted_separators_mislead:
  "parseDelimited (CHR 0xFE) (csv_document (CHR 0xFE) [[''Name'', ''a;b;c''], [''Asha'', ''x'']]) None =
    [[''Name,a;b;c''], [''Asha,x'']]"
  by code_simp

section \<open>Column mapping\<close>

datatype import_field = FirstNameCol | LastNameCol | MobileCol | EmailCol | PanCol | CityCol | StateCol | PincodeCol
  | ProductInterestCol | EstimatedValueCol | NotesCol

definition IMPORTABLE_FIELDS :: "import_field list" where
  "IMPORTABLE_FIELDS = [FirstNameCol, LastNameCol, MobileCol, EmailCol, PanCol, CityCol, StateCol, PincodeCol, ProductInterestCol,
     EstimatedValueCol, NotesCol]"

fun FIELD_ALIASES :: "import_field \<Rightarrow> string list" where
  "FIELD_ALIASES FirstNameCol = [''first name'', ''firstname'', ''fname'', ''given name'', ''name'', ''full name'',
     ''client name'', ''lead name'', ''customer name'']"
| "FIELD_ALIASES LastNameCol = [''last name'', ''lastname'', ''lname'', ''surname'', ''family name'']"
| "FIELD_ALIASES MobileCol = [''mobile'', ''mobile no'', ''mobile number'', ''phone'', ''phone no'', ''phone number'',
     ''contact'', ''contact no'', ''contact number'', ''cell'', ''whatsapp'']"
| "FIELD_ALIASES EmailCol = [''email'', ''email id'', ''e-mail'', ''email address'', ''mail'']"
| "FIELD_ALIASES PanCol = [''pan'', ''pan no'', ''pan number'', ''pan card'']"
| "FIELD_ALIASES CityCol = [''city'', ''town'', ''location'', ''place'']"
| "FIELD_ALIASES StateCol = [''state'', ''province'', ''region'']"
| "FIELD_ALIASES PincodeCol = [''pincode'', ''pin code'', ''pin'', ''postal code'', ''zip'', ''zipcode'']"
| "FIELD_ALIASES ProductInterestCol = [''product'', ''products'', ''interest'', ''product interest'', ''interested in'',
     ''segment'']"
| "FIELD_ALIASES EstimatedValueCol = [''value'', ''estimated value'', ''potential'', ''aum'', ''investment'', ''amount'',
     ''ticket size'']"
| "FIELD_ALIASES NotesCol = [''notes'', ''note'', ''remarks'', ''comment'', ''comments'', ''description'']"

fun has_part :: "string \<Rightarrow> string \<Rightarrow> bool" where
  "has_part [] alias = (alias = [])"
| "has_part (c # cs) alias = (prefix alias (c # cs) \<or> has_part cs alias)"

text \<open>\<open>replace(/[_-]+/g, ' ').replace(/\s+/g, ' ')\<close>.\<close>

fun squeeze :: "(char \<Rightarrow> bool) \<Rightarrow> string \<Rightarrow> string" where
  "squeeze p [] = []"
| "squeeze p (c # cs) =
    (if \<not> p c then c # squeeze p cs
     else case squeeze p cs of
         d # ds \<Rightarrow> (if cs \<noteq> [] \<and> p (hd cs) then d # ds else CHR '' '' # d # ds)
       | [] \<Rightarrow> [CHR '' ''])"

definition clean_header :: "string \<Rightarrow> string" where
  "clean_header header =
    squeeze is_space (squeeze (\<lambda>c. c = CHR ''_'' \<or> c = CHR ''-'') (to_lower (js_trim header)))"

definition exact_field :: "import_field list \<Rightarrow> string \<Rightarrow> import_field option" where
  "exact_field used cleaned = find (\<lambda>f. f \<notin> set used \<and> cleaned \<in> set (FIELD_ALIASES f)) IMPORTABLE_FIELDS"

definition contained_field :: "import_field list \<Rightarrow> string \<Rightarrow> import_field option" where
  "contained_field used cleaned =
    find (\<lambda>f. f \<notin> set used \<and>
      list_ex (\<lambda>alias. length alias \<ge> 4 \<and> has_part cleaned alias)
        (js_sort (\<lambda>a b. int (length b) - int (length a)) (FIELD_ALIASES f))) IMPORTABLE_FIELDS"

definition field_for :: "import_field list \<Rightarrow> string \<Rightarrow> import_field option" where
  "field_for used header =
    (let cleaned = clean_header header in
     if cleaned = [] then None
     else case exact_field used cleaned of Some f \<Rightarrow> Some f | None \<Rightarrow> contained_field used cleaned)"

fun suggest_columns :: "import_field list \<Rightarrow> string list \<Rightarrow> import_field option list" where
  "suggest_columns used [] = []"
| "suggest_columns used (header # headers) =
    (case field_for used header of
       None \<Rightarrow> None # suggest_columns used headers
     | Some f \<Rightarrow> Some f # suggest_columns (f # used) headers)"

definition suggestMapping :: "string list \<Rightarrow> import_field option list" where
  "suggestMapping headers = suggest_columns [] headers"

lemma field_for_unused: "field_for used header = Some f \<Longrightarrow> f \<notin> set used"
  by (auto simp: field_for_def Let_def exact_field_def contained_field_def find_Some_iff
      split: if_splits option.splits)

definition chosen :: "'a option list \<Rightarrow> 'a list" where
  "chosen columns = concat (map (\<lambda>c. case c of None \<Rightarrow> [] | Some f \<Rightarrow> [f]) columns)"

lemma suggest_columns_distinct:
  "distinct (chosen (suggest_columns used headers)) \<and> set (chosen (suggest_columns used headers)) \<inter> set used = {} \<and>
   length (suggest_columns used headers) = length headers"
proof (induction headers arbitrary: used)
  case Nil
  then show ?case by (simp add: chosen_def)
next
  case (Cons h hs)
  show ?case
  proof (cases "field_for used h")
    case None
    then show ?thesis using Cons [of used] by (simp add: chosen_def)
  next
    case (Some f)
    then show ?thesis using Cons [of "f # used"] field_for_unused [OF Some] by (auto simp: chosen_def)
  qed
qed

section \<open>Products, amounts and names\<close>

definition PRODUCT_ALIASES :: "(string \<times> string) list" where
  "PRODUCT_ALIASES =
    [(''equity'', ''EQUITY''), (''equities'', ''EQUITY''), (''cash'', ''EQUITY''), (''stocks'', ''EQUITY''), (''shares'', ''EQUITY''),
     (''fno'', ''DERIVATIVES''), (''f&o'', ''DERIVATIVES''), (''derivative'', ''DERIVATIVES''), (''derivatives'', ''DERIVATIVES''),
     (''futures'', ''DERIVATIVES''), (''options'', ''DERIVATIVES''),
     (''commodity'', ''COMMODITY''), (''commodities'', ''COMMODITY''), (''mcx'', ''COMMODITY''),
     (''currency'', ''CURRENCY''), (''forex'', ''CURRENCY''),
     (''mf'', ''MUTUAL_FUNDS''), (''mutual fund'', ''MUTUAL_FUNDS''), (''mutual funds'', ''MUTUAL_FUNDS''), (''sip'', ''MUTUAL_FUNDS''),
     (''ipo'', ''IPO''), (''ipos'', ''IPO''), (''pms'', ''PMS''), (''aif'', ''AIF''),
     (''insurance'', ''INSURANCE''), (''bond'', ''BONDS''), (''bonds'', ''BONDS''),
     (''nri'', ''NRI''), (''algo'', ''ALGO''), (''algos'', ''ALGO'')]"

text \<open>
  The separator \<open>/[,;/|+]|\s+&\s+|\s+and\s+/i\<close>: what is left after a match at the start of the
  text, if there is one.
\<close>

definition drop_spaces :: "string \<Rightarrow> string" where
  "drop_spaces s = dropWhile is_space s"

definition after_word :: "string \<Rightarrow> string \<Rightarrow> string option" where
  "after_word w s =
    (let rest = drop_spaces s; tail = drop (length w) rest in
     if s \<noteq> [] \<and> is_space (hd s) \<and> to_lower (take (length w) rest) = w \<and> tail \<noteq> [] \<and> is_space (hd tail)
     then Some (drop_spaces tail) else None)"

definition after_separator :: "string \<Rightarrow> string option" where
  "after_separator s =
    (case s of
       [] \<Rightarrow> None
     | c # cs \<Rightarrow>
         (if c \<in> set '',;/|+'' then Some cs
          else case after_word ''&'' s of Some rest \<Rightarrow> Some rest | None \<Rightarrow> after_word ''and'' s))"

lemma length_drop_spaces: "length (drop_spaces s) \<le> length s"
  by (simp add: drop_spaces_def length_dropWhile_le)

lemma after_word_shorter: "after_word w s = Some rest \<Longrightarrow> length rest < length s"
proof -
  assume a: "after_word w s = Some rest"
  then have "s \<noteq> []" "is_space (hd s)" and r: "rest = drop_spaces (drop (length w) (drop_spaces s))"
    by (auto simp: after_word_def Let_def split: if_splits)
  then have "length (drop_spaces s) < length s"
    using length_dropWhile_le [of is_space "tl s"] by (cases s) (auto simp: drop_spaces_def less_Suc_eq_le)
  then show "length rest < length s"
    using length_drop_spaces [of "drop (length w) (drop_spaces s)"] by (simp add: r)
qed

lemma after_separator_shorter: "after_separator s = Some rest \<Longrightarrow> length rest < length s"
  by (auto simp: after_separator_def dest: after_word_shorter split: list.splits if_splits option.splits)

function product_tokens :: "string \<Rightarrow> string \<Rightarrow> string list" where
  "product_tokens token s =
    (case s of
       [] \<Rightarrow> [token]
     | c # cs \<Rightarrow>
         (case after_separator s of
            Some rest \<Rightarrow> token # product_tokens [] rest
          | None \<Rightarrow> product_tokens (token @ [c]) cs))"
  by pat_completeness auto

termination
  by (relation "measure (\<lambda>(token, s). length s)") (auto dest: after_separator_shorter)

definition parseProductInterest :: "string option \<Rightarrow> string list" where
  "parseProductInterest value =
    (if \<not> truthy value then []
     else js_set (concat (map (\<lambda>token. let cleaned = to_lower (js_trim token) in
            if cleaned = [] then [] else case map_of PRODUCT_ALIASES cleaned of None \<Rightarrow> [] | Some p \<Rightarrow> [p])
            (product_tokens [] (the value)))))"

text \<open>
  \<open>Number(s)\<close> of a text without white space or capitals: a decimal literal with sign and exponent,
  or a hexadecimal, octal or binary one; \<open>None\<close> is \<open>NaN\<close> or an infinity.
\<close>

definition all_digits :: "string \<Rightarrow> bool" where
  "all_digits s \<longleftrightarrow> s \<noteq> [] \<and> list_all is_digit s"

definition digit_value :: "char \<Rightarrow> nat" where
  "digit_value c = (if is_digit c then code_unit c - 48 else if is_lower c then code_unit c - 87 else 36)"

definition read_int :: "int \<Rightarrow> string \<Rightarrow> int" where
  "read_int base s = foldl (\<lambda>n c. base * n + int (digit_value c)) 0 s"

definition unsigned_decimal :: "string \<Rightarrow> rat option" where
  "unsigned_decimal s =
    (case split_on (CHR ''.'') s of
       [w] \<Rightarrow> if all_digits w then Some (of_int (read_int 10 w)) else None
     | [w, f] \<Rightarrow>
         (if list_all is_digit (w @ f) \<and> w @ f \<noteq> []
          then Some (of_int (read_int 10 (w @ f)) / 10 ^ length f) else None)
     | _ \<Rightarrow> None)"

definition signed_exponent :: "string \<Rightarrow> int option" where
  "signed_exponent s =
    (case s of
       [] \<Rightarrow> None
     | c # cs \<Rightarrow>
         (if c = CHR ''-'' then if all_digits cs then Some (- read_int 10 cs) else None
          else let ds = (if c = CHR ''+'' then cs else s) in if all_digits ds then Some (read_int 10 ds) else None))"

definition scale10 :: "rat \<Rightarrow> int \<Rightarrow> rat" where
  "scale10 x e = (if e \<ge> 0 then x * 10 ^ nat e else x / 10 ^ nat (- e))"

definition decimal_literal :: "string \<Rightarrow> rat option" where
  "decimal_literal s =
    (case split_on (CHR ''e'') s of
       [m] \<Rightarrow> unsigned_decimal m
     | [m, e] \<Rightarrow> Option.bind (unsigned_decimal m) (\<lambda>x. map_option (scale10 x) (signed_exponent e))
     | _ \<Rightarrow> None)"

definition radix_literal :: "int \<Rightarrow> string \<Rightarrow> rat option" where
  "radix_literal base s =
    (if s \<noteq> [] \<and> list_all (\<lambda>c. int (digit_value c) < base) s
     then Some (of_int (read_int base s)) else None)"

text \<open>The least whole number that rounds to an infinite double.\<close>

definition double_limit :: int where
  "double_limit = 2 ^ 1024 - 2 ^ 970"

lemma double_limit_code [code]:
  "double_limit =
    179769313486231580793728971405303415079934132710037826936173778980444968292764750946649017977587207096330286416692887910946555547851940402630657488671505820681908902000708383676273854845817711531764475730270069855571366959622842914819860834936475292719074168444365510704342711559699508093042880177904174497792"
  by (simp add: double_limit_def)

definition js_number :: "string \<Rightarrow> rat option" where
  "js_number s =
    (let p = take 2 s; rest = drop 2 s;
         value = (if p = ''0x'' then radix_literal 16 rest
                  else if p = ''0o'' then radix_literal 8 rest
                  else if p = ''0b'' then radix_literal 2 rest
                  else case s of
                      c # cs \<Rightarrow> (if c = CHR ''-'' then map_option uminus (decimal_literal cs)
                                else if c = CHR ''+'' then decimal_literal cs
                                else decimal_literal s)
                    | [] \<Rightarrow> Some 0)
     in case value of
          Some x \<Rightarrow> if \<bar>x\<bar> < of_int double_limit then Some x else None
        | None \<Rightarrow> None)"

text \<open>What a cell comes to: nothing, an amount, or the \<open>NaN\<close> of a text like \<open>1.2.3 lakh\<close>.\<close>

datatype amount = NoAmount | Rupees int | NotANumber

definition dotted :: "string \<Rightarrow> bool" where
  "dotted s \<longleftrightarrow> s \<noteq> [] \<and> list_all (\<lambda>c. is_digit c \<or> c = CHR ''.'') s"

definition before_suffix :: "string list \<Rightarrow> string \<Rightarrow> string option" where
  "before_suffix endings s =
    map_option (\<lambda>w. take (length s - length w) s)
      (find (\<lambda>w. suffix w s \<and> dotted (take (length s - length w) s)) endings)"

definition in_units :: "string \<Rightarrow> rat \<Rightarrow> amount" where
  "in_units digits unit = (case js_number digits of None \<Rightarrow> NotANumber | Some x \<Rightarrow> Rupees (js_round (x * unit)))"

definition parseImportedAmount :: "string option \<Rightarrow> amount" where
  "parseImportedAmount value =
    (if \<not> truthy value then NoAmount
     else let cleaned = filter (\<lambda>c. c \<noteq> CHR '','' \<and> \<not> is_space c) (to_lower (js_trim (the value))) in
     if cleaned = [] then NoAmount
     else case before_suffix [''lakh'', ''lac'', ''l''] cleaned of
       Some digits \<Rightarrow> in_units digits 100000
     | None \<Rightarrow>
         (case before_suffix [''crore'', ''cr''] cleaned of
            Some digits \<Rightarrow> in_units digits 10000000
          | None \<Rightarrow>
              (case js_number cleaned of
                 None \<Rightarrow> NoAmount
               | Some x \<Rightarrow> if x \<ge> 0 then Rupees (js_round x) else NoAmount)))"

definition splitFullName :: "string \<Rightarrow> string \<times> string option" where
  "splitFullName value =
    (let trimmed = js_trim value;
         comma = index_of trimmed (CHR '','');
         surname = js_trim (take (nat comma) trimmed);
         given = js_trim (drop (nat comma + 1) trimmed);
         tokens = words_of (map (\<lambda>c. if c = CHR '','' then CHR '' '' else c) trimmed) in
     if trimmed = [] then ([], None)
     else if comma > 0 \<and> surname \<noteq> [] \<and> given \<noteq> [] then (given, Some surname)
     else case tokens of
       [] \<Rightarrow> ([], None)
     | [t] \<Rightarrow> (t, None)
     | t # ts \<Rightarrow> (t, Some (join_with '' '' ts)))"

text \<open>
  The amounts of the source's comments, and three it does not expect: an exponent and a
  hexadecimal literal are read as numbers, and two dots before a unit make no number at all.
\<close>

lemma imported_amounts:
  "parseImportedAmount (Some ''12,50,000'') = Rupees 1250000"
  "parseImportedAmount (Some ''12.5 lakh'') = Rupees 1250000"
  "parseImportedAmount (Some ''2 Cr'') = Rupees 20000000"
  "parseImportedAmount (Some ''1e3'') = Rupees 1000"
  "parseImportedAmount (Some ''0x10'') = Rupees 16"
  "parseImportedAmount (Some ''1.2.3 lakh'') = NotANumber"
  "parseImportedAmount (Some ''-5'') = NoAmount"
  by code_simp+

lemma imported_products:
  "parseProductInterest (Some ''Equity, F&O and mutual funds & MF/gold'') = [''EQUITY'', ''DERIVATIVES'', ''MUTUAL_FUNDS'']"
  by code_simp

lemma imported_names:
  "splitFullName ''Shah, Nirav'' = (''Nirav'', Some ''Shah'')"
  "splitFullName ''  Asha  R Patel '' = (''Asha'', Some ''R Patel'')"
  by code_simp+

end
