(* ===== verification/Imports.thy ===== *)
theory Imports
  imports ImportText Pipeline Assignment Scoring
begin

text \<open>
  The import service: \<open>apps/api/src/modules/imports/imports.service.ts\<close>. A file is parsed and staged,
  validated against a confirmed mapping, and committed row by row. The state is the batches and
  their rows beside the tables of the lead pipeline, the assignment rules and the accounts. Ids and
  references are parameters, and so are the order in which the database returns an unordered
  query, what the limits of the column types let through, and what the database client makes of a
  \<open>NaN\<close> amount. \<open>importBatchId\<close> is kept beside the lead table. Signal labels and the wording of a
  row's errors are left out.
\<close>

section \<open>Batches and rows\<close>

datatype row_status = VALID | INVALID | DUPLICATE | IMPORTED | SKIPPED
datatype batch_status = PARSED | VALIDATED | COMMITTED

datatype row_error = NameMissing | MobileMissing | MobileInvalid string | CouldNotImport http_error

record import_declaration =
  de_origin :: string
  de_suppliedBy :: string
  de_description :: string
  de_lawfulBasisConfirmed :: bool

definition importDeclarationSchema :: "import_declaration \<Rightarrow> bool" where
  "importDeclarationSchema d \<longleftrightarrow>
    de_origin d \<in> {''PERSONAL_NETWORK'', ''EVENT_OR_EXHIBITION'', ''PURCHASED_LIST'', ''REFERRAL_PARTNER'',
      ''EXISTING_SIHL_RECORDS'', ''PUBLIC_DIRECTORY'', ''OTHER''} \<and>
    2 \<le> length (js_trim (de_suppliedBy d)) \<and> length (js_trim (de_suppliedBy d)) \<le> 160 \<and>
    10 \<le> length (js_trim (de_description d)) \<and> length (js_trim (de_description d)) \<le> 500 \<and>
    de_lawfulBasisConfirmed d"

record import_mapping =
  im_columns :: "import_field option list"
  im_hasHeaderRow :: bool
  im_source :: string
  im_campaignId :: "string option"
  im_ownerId :: "string option"

type_synonym mapped_row = "import_field \<Rightarrow> string option"

record import_row =
  ir_id :: string
  ir_batchId :: string
  ir_rowNumber :: nat
  ir_status :: row_status
  ir_raw :: "string list"
  ir_mapped :: mapped_row
  ir_errors :: "row_error list"
  ir_duplicateOfLeadId :: "string option"
  ir_matchScore :: "int option"
  ir_createdLeadId :: "string option"

record import_batch =
  ib_id :: string
  ib_reference :: string
  ib_fileName :: string
  ib_status :: batch_status
  ib_declaration :: import_declaration
  ib_confirmedAt :: time
  ib_mapping :: "import_mapping option"
  ib_totalRows :: nat
  ib_validRows :: nat
  ib_invalidRows :: nat
  ib_duplicateRows :: nat
  ib_importedRows :: nat
  ib_skippedRows :: nat
  ib_importedById :: string
  ib_committedAt :: "time option"

record import_state =
  is_batches :: "import_batch list"
  is_rows :: "import_row list"
  is_users :: "account list"
  is_rules :: "assignment_rule list"
  is_crm :: crm
  is_importBatch :: "(string \<times> string) list"

interpretation import_row_table: repository "find_by ir_id" "update_by ir_id" insert_row ir_id
  by (rule repository_by)

interpretation import_batch_table: repository "find_by ib_id" "update_by ib_id" insert_row ib_id
  by (rule repository_by)

definition import_audit :: "string \<Rightarrow> string \<Rightarrow> string \<Rightarrow> import_state \<Rightarrow> import_state" where
  "import_audit action resource i s =
    s\<lparr>is_crm := (is_crm s)\<lparr>cr_audit := insert_row (audit_entry action resource i) (cr_audit (is_crm s))\<rparr>\<rparr>"

definition mustFindBatch :: "principal \<Rightarrow> string \<Rightarrow> import_state \<Rightarrow> import_batch result" where
  "mustFindBatch user batchId s =
    (case find (\<lambda>b. ib_id b = batchId \<and> (pr_dataScope user = ALL_SCOPE \<or> ib_importedById b = pr_id user)) (is_batches s) of
       None \<Rightarrow> Inl (NotFound ''Import not found'')
     | Some b \<Rightarrow> Inr b)"

section \<open>Parsing and staging\<close>

definition MAX_IMPORT_ROWS :: nat where
  "MAX_IMPORT_ROWS = 5000"

record staged =
  sg_headers :: "string list"
  sg_suggestedMapping :: "import_field option list"
  sg_sampleRows :: "string list list"

definition staged_row :: "(nat \<Rightarrow> string) \<Rightarrow> string \<Rightarrow> nat \<Rightarrow> string list \<Rightarrow> import_row" where
  "staged_row row_id batchId k cells =
    \<lparr>ir_id = row_id k, ir_batchId = batchId, ir_rowNumber = k, ir_status = VALID, ir_raw = cells,
     ir_mapped = (\<lambda>_. None), ir_errors = [], ir_duplicateOfLeadId = None, ir_matchScore = None,
     ir_createdLeadId = None\<rparr>"

fun staged_rows :: "(nat \<Rightarrow> string) \<Rightarrow> string \<Rightarrow> nat \<Rightarrow> string list list \<Rightarrow> import_row list" where
  "staged_rows row_id batchId k [] = []"
| "staged_rows row_id batchId k (cells # rest) =
    staged_row row_id batchId k cells # staged_rows row_id batchId (k + 1) rest"

definition parse_file ::
    "char \<Rightarrow> time \<Rightarrow> principal \<Rightarrow> string \<Rightarrow> string \<Rightarrow> import_declaration \<Rightarrow> string \<Rightarrow> string \<Rightarrow> (nat \<Rightarrow> string) \<Rightarrow>
     import_state \<Rightarrow> (staged \<times> import_state) result" where
  "parse_file bom now user fileName body declaration batchId reference row_id s =
    (case parseDelimited bom body None of
       [] \<Rightarrow> Inl (BadRequest ''Nothing to import'')
     | headers # rows \<Rightarrow>
         (if length rows > MAX_IMPORT_ROWS then Inl (BadRequest ''File is too large'')
          else
            let batch = \<lparr>ib_id = batchId, ib_reference = reference, ib_fileName = fileName, ib_status = PARSED,
                  ib_declaration = declaration, ib_confirmedAt = now, ib_mapping = None, ib_totalRows = length rows,
                  ib_validRows = 0, ib_invalidRows = 0, ib_duplicateRows = 0, ib_importedRows = 0, ib_skippedRows = 0,
                  ib_importedById = pr_id user, ib_committedAt = None\<rparr>
            in Inr (\<lparr>sg_headers = headers, sg_suggestedMapping = suggestMapping headers, sg_sampleRows = take 5 rows\<rparr>,
                 import_audit ''CREATE'' ''lead_import'' batchId
                   (s\<lparr>is_batches := insert_row batch (is_batches s),
                      is_rows := is_rows s @ staged_rows row_id batchId 1 rows\<rparr>))))"

section \<open>Mapping and validating a row\<close>

definition cell_at :: "string list \<Rightarrow> nat \<Rightarrow> string" where
  "cell_at cells k = js_trim (if k < length cells then cells ! k else [])"

fun map_columns :: "import_field option list \<Rightarrow> nat \<Rightarrow> string list \<Rightarrow> mapped_row \<Rightarrow> mapped_row" where
  "map_columns [] k cells m = m"
| "map_columns (column # columns) k cells m =
    map_columns columns (k + 1) cells
      (case column of
         None \<Rightarrow> m
       | Some f \<Rightarrow> if cell_at cells k = [] then m else m(f := Some (cell_at cells k)))"

definition email_like :: "string \<Rightarrow> bool" where
  "email_like s \<longleftrightarrow> \<not> list_ex is_space s \<and>
    (case split_on (CHR ''@'') s of
       [name, domain] \<Rightarrow> name \<noteq> [] \<and> domain \<noteq> [] \<and> CHR ''.'' \<in> set (butlast (tl domain))
     | _ \<Rightarrow> False)"

definition pan_of :: "string \<Rightarrow> string option" where
  "pan_of v = (let p = to_upper (js_trim v) in if is_pan p then Some p else None)"

definition is_pincode :: "string \<Rightarrow> bool" where
  "is_pincode s \<longleftrightarrow> length s = 6 \<and> list_all is_digit s \<and> CHR ''1'' \<le> hd s"

definition split_name :: "mapped_row \<Rightarrow> mapped_row" where
  "split_name m =
    (if truthy (m FirstNameCol) \<and> \<not> truthy (m LastNameCol) \<and> CHR '' '' \<in> set (the (m FirstNameCol))
     then let (first, surname) = splitFullName (the (m FirstNameCol)) in m(FirstNameCol := Some first, LastNameCol := surname)
     else m)"

definition keep_valid :: "import_field \<Rightarrow> (string \<Rightarrow> string option) \<Rightarrow> mapped_row \<Rightarrow> mapped_row" where
  "keep_valid f parse m = (if truthy (m f) then m(f := parse (the (m f))) else m)"

definition mapAndValidate :: "string list \<Rightarrow> import_mapping \<Rightarrow> mapped_row \<times> row_error list" where
  "mapAndValidate cells mapping =
    (let m = split_name (map_columns (im_columns mapping) 0 cells (\<lambda>_. None));
         name_errors = (if truthy (m FirstNameCol) then [] else [NameMissing]);
         mobile_errors = (if \<not> truthy (m MobileCol) then [MobileMissing]
                          else if indianMobile (the (m MobileCol)) = None then [MobileInvalid (the (m MobileCol))] else []);
         m = (if truthy (m MobileCol) \<and> indianMobile (the (m MobileCol)) \<noteq> None
              then m(MobileCol := indianMobile (the (m MobileCol))) else m);
         m = keep_valid EmailCol (\<lambda>v. if email_like v then Some v else None) m;
         m = keep_valid PanCol pan_of m;
         m = keep_valid PincodeCol (\<lambda>v. if is_pincode v then Some v else None) m
     in (m, name_errors @ mobile_errors))"

section \<open>The candidate pool\<close>

definition cells_of :: "import_field list \<Rightarrow> import_mapping \<Rightarrow> string list \<Rightarrow> string list" where
  "cells_of wanted mapping cells =
    concat (map (\<lambda>k. case im_columns mapping ! k of
        None \<Rightarrow> []
      | Some f \<Rightarrow> if f \<in> set wanted \<and> cell_at cells k \<noteq> [] then [cell_at cells k] else [])
      [0..<length (im_columns mapping)])"

definition pool_mobiles :: "import_mapping \<Rightarrow> string list list \<Rightarrow> string list" where
  "pool_mobiles mapping raws =
    filter (\<lambda>d. length d = 10)
      (map (\<lambda>v. slice_last 10 (filter is_digit v)) (concat (map (cells_of [MobileCol] mapping) raws)))"

definition pool_pans :: "import_mapping \<Rightarrow> string list list \<Rightarrow> string list" where
  "pool_pans mapping raws = map to_upper (concat (map (cells_of [PanCol] mapping) raws))"

definition pool_names :: "import_mapping \<Rightarrow> string list list \<Rightarrow> string list" where
  "pool_names mapping raws =
    take 40 (js_set (map to_lower (filter (\<lambda>t. length t \<ge> 3)
      (concat (map words_of (concat (map (cells_of [FirstNameCol, LastNameCol] mapping) raws)))))))"

definition in_pool :: "import_mapping \<Rightarrow> string list list \<Rightarrow> lead_row \<Rightarrow> bool" where
  "in_pool mapping raws l \<longleftrightarrow>
    l_deletedAt l = None \<and>
    (l_mobile l \<in> set (pool_mobiles mapping raws) \<or>
     (\<exists>p \<in> set (pool_pans mapping raws). l_pan l = Some p) \<or>
     (\<exists>t \<in> set (pool_names mapping raws).
        has_part (to_lower (l_firstName l)) t \<or>
        (case l_lastName l of None \<Rightarrow> False | Some n \<Rightarrow> has_part (to_lower n) t)))"

definition candidate_of :: "lead_row \<Rightarrow> match_candidate" where
  "candidate_of l =
    \<lparr>mi_firstName = l_firstName l, mi_lastName = l_lastName l, mi_mobile = Some (l_mobile l), mi_email = l_email l,
     mi_pan = l_pan l, mi_city = l_city l, mc_id = l_id l\<rparr>"

definition loadCandidatePool ::
    "(lead_row list \<Rightarrow> lead_row list) \<Rightarrow> import_mapping \<Rightarrow> string list list \<Rightarrow> lead_row list \<Rightarrow> match_candidate list" where
  "loadCandidatePool returned mapping raws leads =
    map candidate_of (take 5000 (returned (filter (in_pool mapping raws) leads)))"

section \<open>Validating a batch\<close>

record assessment =
  va_rowNumber :: nat
  va_status :: row_status
  va_mapped :: mapped_row
  va_errors :: "row_error list"
  va_duplicateOf :: "string option"
  va_matchScore :: "int option"
  va_suggestedDecision :: import_decision

definition match_input_of :: "mapped_row \<Rightarrow> match_input" where
  "match_input_of m =
    \<lparr>mi_firstName = (case m FirstNameCol of None \<Rightarrow> [] | Some n \<Rightarrow> n), mi_lastName = m LastNameCol, mi_mobile = m MobileCol,
     mi_email = m EmailCol, mi_pan = m PanCol, mi_city = m CityCol\<rparr>"

definition assess_row ::
    "import_mapping \<Rightarrow> match_candidate list \<Rightarrow> string list \<Rightarrow> import_row \<Rightarrow> assessment \<times> string list" where
  "assess_row mapping candidates seen row =
    (let (m, errors) = mapAndValidate (ir_raw row) mapping;
         answer = \<lparr>va_rowNumber = ir_rowNumber row, va_status = VALID, va_mapped = m, va_errors = errors,
           va_duplicateOf = None, va_matchScore = None, va_suggestedDecision = CREATE_ROW\<rparr> in
     if errors \<noteq> [] then (answer\<lparr>va_status := INVALID, va_suggestedDecision := SKIP_ROW\<rparr>, seen)
     else if truthy (m MobileCol) \<and> the (m MobileCol) \<in> set seen
       then (answer\<lparr>va_status := DUPLICATE, va_suggestedDecision := SKIP_ROW\<rparr>, seen)
     else
       let seen = (if truthy (m MobileCol) then the (m MobileCol) # seen else seen) in
       case findMatches (match_input_of m) candidates 1 of
         [] \<Rightarrow> (answer, seen)
       | best # _ \<Rightarrow>
           (if mr_confidence best = DEFINITE \<or> mr_confidence best = PROBABLE
            then (answer\<lparr>va_status := DUPLICATE, va_duplicateOf := Some (mc_id (mr_candidate best)),
                    va_matchScore := Some (mr_score best), va_suggestedDecision := suggestDecision (Some best)\<rparr>, seen)
            else (answer, seen)))"

fun assess_rows ::
    "import_mapping \<Rightarrow> match_candidate list \<Rightarrow> string list \<Rightarrow> import_row list \<Rightarrow> assessment list" where
  "assess_rows mapping candidates seen [] = []"
| "assess_rows mapping candidates seen (row # rows) =
    (let (answer, seen) = assess_row mapping candidates seen row
     in answer # assess_rows mapping candidates seen rows)"

definition store_assessment :: "assessment \<Rightarrow> import_row \<Rightarrow> import_row" where
  "store_assessment a row =
    row\<lparr>ir_status := va_status a, ir_mapped := va_mapped a,
        ir_errors := (if va_errors a = [] then ir_errors row else va_errors a),
        ir_duplicateOfLeadId := va_duplicateOf a, ir_matchScore := va_matchScore a\<rparr>"

definition rows_of :: "string \<Rightarrow> import_state \<Rightarrow> import_row list" where
  "rows_of batchId s =
    js_sort (\<lambda>a b. int (ir_rowNumber a) - int (ir_rowNumber b)) (filter (\<lambda>r. ir_batchId r = batchId) (is_rows s))"

definition store_assessments :: "import_row list \<Rightarrow> assessment list \<Rightarrow> import_row list \<Rightarrow> import_row list" where
  "store_assessments rows answers table =
    foldl (\<lambda>table (row, a). update_by ir_id (ir_id row) (store_assessment a) table) table (zip rows answers)"

definition validate_batch ::
    "(lead_row list \<Rightarrow> lead_row list) \<Rightarrow> principal \<Rightarrow> string \<Rightarrow> import_mapping \<Rightarrow> import_state \<Rightarrow>
     (assessment list \<times> import_state) result" where
  "validate_batch returned user batchId mapping s =
    and_then (mustFindBatch user batchId s) (\<lambda>batch.
    if ib_status batch = COMMITTED then Inl (BadRequest ''Already imported'')
    else
      let rows = rows_of batchId s;
          candidates = loadCandidatePool returned mapping (map ir_raw rows) (cr_leads (is_crm s));
          answers = assess_rows mapping candidates [] rows
      in Inr (answers,
           s\<lparr>is_rows := store_assessments rows answers (is_rows s),
             is_batches := update_by ib_id batchId
               (\<lambda>b. b\<lparr>ib_status := VALIDATED, ib_mapping := Some mapping,
                       ib_validRows := count_where (\<lambda>a. va_status a = VALID) answers,
                       ib_invalidRows := count_where (\<lambda>a. va_status a = INVALID) answers,
                       ib_duplicateRows := count_where (\<lambda>a. va_status a = DUPLICATE) answers\<rparr>)
               (is_batches s)\<rparr>))"

section \<open>Committing\<close>

record commit_input =
  cm_decisions :: "(nat \<times> bool) list"
  cm_markMobileVerified :: bool
  cm_assignToUserId :: "string option"

text \<open>A decision is true for CREATE; of two decisions on one row the later counts.\<close>

definition decision_for :: "commit_input \<Rightarrow> import_row \<Rightarrow> bool" where
  "decision_for input row =
    (case map_of (rev (cm_decisions input)) (ir_rowNumber row) of
       Some d \<Rightarrow> d
     | None \<Rightarrow> ir_status row \<noteq> DUPLICATE)"

record import_world =
  iw_collate :: collation
  iw_fits :: "lead_row \<Rightarrow> bool"
  iw_nan :: "rat option result"
  iw_fresh :: "nat \<Rightarrow> string \<times> string"

definition imported_features :: "import_mapping \<Rightarrow> string list \<Rightarrow> amount \<Rightarrow> mapped_row \<Rightarrow> scoring_features" where
  "imported_features mapping products amount m =
    \<lparr>sf_source = im_source mapping, sf_sourceWeight = None, sf_productInterest = products,
     sf_hasEmail = truthy (m EmailCol), sf_hasPan = truthy (m PanCol), sf_hasCity = truthy (m CityCol),
     sf_activityCount = 0, sf_ageInDays = 0, sf_daysSinceLastActivity = None,
     sf_estimatedValue = (case amount of Rupees n \<Rightarrow> Some (of_int n) | _ \<Rightarrow> None),
     sf_hasCampaignAttribution = truthy (im_campaignId mapping)\<rparr>"

definition stored_amount :: "rat option result \<Rightarrow> amount \<Rightarrow> rat option result" where
  "stored_amount nan amount =
    (case amount of NoAmount \<Rightarrow> Inr None | Rupees n \<Rightarrow> Inr (Some (of_int n)) | NotANumber \<Rightarrow> nan)"

definition route_row ::
    "import_world \<Rightarrow> time \<Rightarrow> principal \<Rightarrow> import_mapping \<Rightarrow> commit_input \<Rightarrow> mapped_row \<Rightarrow> import_state \<Rightarrow>
     string \<times> assignment_rule list" where
  "route_row w now user mapping input m s =
    (if truthy (cm_assignToUserId input) then (the (cm_assignToUserId input), is_rules s)
     else if truthy (im_ownerId mapping) then (the (im_ownerId mapping), is_rules s)
     else
       let (routed, rules) = resolveOwner (iw_collate w) (is_users s) (cr_leads (is_crm s)) now
             \<lparr>al_source = im_source mapping, al_productInterest = parseProductInterest (m ProductInterestCol),
              al_city = m CityCol, al_state = m StateCol, al_score = None, al_campaignId = im_campaignId mapping\<rparr> (is_rules s)
       in (case fst routed of None \<Rightarrow> pr_id user | Some i \<Rightarrow> i, rules))"

definition imported_lead ::
    "time \<Rightarrow> principal \<Rightarrow> import_mapping \<Rightarrow> commit_input \<Rightarrow> mapped_row \<Rightarrow> string \<Rightarrow> string option \<Rightarrow> rat option \<Rightarrow>
     string \<times> string \<Rightarrow> lead_row" where
  "imported_lead now user mapping input m ownerId unit amount ids =
    (blank_lead now (fst ids) (snd ids) (the (m FirstNameCol)) (the (m MobileCol)) (im_source mapping))
      \<lparr>l_lastName := m LastNameCol, l_email := m EmailCol, l_pan := m PanCol, l_city := m CityCol, l_state := m StateCol,
       l_pincode := m PincodeCol, l_productInterest := parseProductInterest (m ProductInterestCol),
       l_estimatedValue := amount, l_ownerId := Some ownerId, l_orgUnitId := unit,
       l_campaignId := im_campaignId mapping,
       l_mobileVerifiedAt := (if cm_markMobileVerified input then Some now else None),
       l_mobileVerificationMethod := (if cm_markMobileVerified input then Some ''CALL'' else None),
       l_mobileVerifiedById := (if cm_markMobileVerified input then Some (pr_id user) else None),
       l_createdById := Some (pr_id user), l_updatedById := Some (pr_id user)\<rparr>"

definition note_imported :: "string \<Rightarrow> mapped_row \<Rightarrow> string \<Rightarrow> crm \<Rightarrow> crm" where
  "note_imported leadId m actor c = (if truthy (m NotesCol) then add_activity leadId ''NOTE'' (m NotesCol) actor c else c)"

text \<open>The statements run one by one, outside any transaction: what was done before a failure stays.\<close>

definition createLeadFromRow ::
    "import_world \<Rightarrow> time \<Rightarrow> principal \<Rightarrow> string \<Rightarrow> import_row \<Rightarrow> import_mapping \<Rightarrow> commit_input \<Rightarrow> import_state \<Rightarrow>
     string result \<times> import_state" where
  "createLeadFromRow w now user batchId row mapping input s =
    (let m = ir_mapped row;
         amount = parseImportedAmount (m EstimatedValueCol);
         (ownerId, rules) = route_row w now user mapping input m s;
         s = s\<lparr>is_rules := rules\<rparr>;
         unit = or_else (Option.bind (find_by u_id ownerId (is_users s)) u_orgUnitId) (pr_orgUnitId user);
         i = fst (iw_fresh w (ir_rowNumber row)) in
     case stored_amount (iw_nan w) amount of
       Inl e \<Rightarrow> (Inl e, s)
     | Inr stored \<Rightarrow>
         let lead = imported_lead now user mapping input m ownerId unit stored (iw_fresh w (ir_rowNumber row)) in
         (if \<not> iw_fits w lead then (Inl (ServerError ''value too long''), s)
          else case insert_lead lead (is_crm s) of
            Inl e \<Rightarrow> (Inl e, s)
          | Inr c \<Rightarrow>
              let s = s\<lparr>is_crm := c, is_importBatch := is_importBatch s @ [(i, batchId)]\<rparr>;
                  score = sc_score (scoreLead (imported_features mapping (l_productInterest lead) amount m)) in
              case update_lead i (\<lambda>l. l\<lparr>l_score := score\<rparr>) c of
                Inl e \<Rightarrow> (Inl e, s)
              | Inr c \<Rightarrow> (Inr i, s\<lparr>is_crm := note_imported i m (pr_id user)
                                        (first_history now i (Some (pr_id user)) c)\<rparr>)))"

definition mark_row :: "string \<Rightarrow> (import_row \<Rightarrow> import_row) \<Rightarrow> import_state \<Rightarrow> import_state" where
  "mark_row i f s = s\<lparr>is_rows := update_by ir_id i f (is_rows s)\<rparr>"

definition commit_row ::
    "import_world \<Rightarrow> time \<Rightarrow> principal \<Rightarrow> string \<Rightarrow> import_mapping \<Rightarrow> commit_input \<Rightarrow> import_row \<Rightarrow> import_state \<Rightarrow>
     bool \<times> import_state" where
  "commit_row w now user batchId mapping input row s =
    (if \<not> decision_for input row then (False, mark_row (ir_id row) (\<lambda>r. r\<lparr>ir_status := SKIPPED\<rparr>) s)
     else case createLeadFromRow w now user batchId row mapping input s of
         (Inr leadId, s) \<Rightarrow> (True, mark_row (ir_id row) (\<lambda>r. r\<lparr>ir_status := IMPORTED, ir_createdLeadId := Some leadId\<rparr>) s)
       | (Inl e, s) \<Rightarrow> (False, mark_row (ir_id row) (\<lambda>r. r\<lparr>ir_status := INVALID, ir_errors := [CouldNotImport e]\<rparr>) s))"

fun commit_rows ::
    "import_world \<Rightarrow> time \<Rightarrow> principal \<Rightarrow> string \<Rightarrow> import_mapping \<Rightarrow> commit_input \<Rightarrow> import_row list \<Rightarrow> import_state \<Rightarrow>
     (nat \<times> nat) \<times> import_state" where
  "commit_rows w now user batchId mapping input [] s = ((0, 0), s)"
| "commit_rows w now user batchId mapping input (row # rows) s =
    (let (imported_row, s) = commit_row w now user batchId mapping input row s;
         ((imported, skipped), s) = commit_rows w now user batchId mapping input rows s
     in ((if imported_row then imported + 1 else imported, if imported_row then skipped else skipped + 1), s))"

definition commit ::
    "import_world \<Rightarrow> time \<Rightarrow> principal \<Rightarrow> string \<Rightarrow> commit_input \<Rightarrow> import_state \<Rightarrow>
     (nat \<times> nat) result \<times> import_state" where
  "commit w now user batchId input s =
    (case mustFindBatch user batchId s of
       Inl e \<Rightarrow> (Inl e, s)
     | Inr batch \<Rightarrow>
         (if ib_status batch \<noteq> VALIDATED then (Inl (BadRequest ''Not ready to import''), s)
          else case ib_mapping batch of
            None \<Rightarrow> (Inl (BadRequest ''No column mapping recorded''), s)
          | Some mapping \<Rightarrow>
              let rows = filter (\<lambda>r. ir_status r = VALID \<or> ir_status r = DUPLICATE) (rows_of batchId s);
                  ((imported, skipped), s) = commit_rows w now user batchId mapping input rows s;
                  s = s\<lparr>is_batches := update_by ib_id batchId
                        (\<lambda>b. b\<lparr>ib_status := COMMITTED, ib_importedRows := imported, ib_skippedRows := skipped,
                                ib_committedAt := Some now\<rparr>) (is_batches s)\<rparr>;
                  s = import_audit ''CREATE'' ''lead_import.commit'' batchId s
              in (Inr (imported, skipped), s\<lparr>is_crm := publish batchId ''lead.import.committed'' (is_crm s)\<rparr>)))"

section \<open>What an accepted row holds\<close>

definition well_typed :: "mapped_row \<Rightarrow> bool" where
  "well_typed m \<longleftrightarrow>
    truthy (m FirstNameCol) \<and> (\<exists>d. m MobileCol = Some d \<and> is_indian_mobile d) \<and>
    (\<forall>e. m EmailCol = Some e \<longrightarrow> email_like e) \<and>
    (\<forall>p. m PanCol = Some p \<longrightarrow> is_pan p) \<and>
    (\<forall>p. m PincodeCol = Some p \<longrightarrow> is_pincode p) \<and>
    (\<forall>f v. m f = Some v \<longrightarrow> v \<noteq> [])"

lemma indianMobile_Some: "indianMobile v = Some d \<Longrightarrow> is_indian_mobile d"
  by (auto simp: indianMobile_def Let_def split: if_splits)

lemma indian_mobile_not_Nil: "is_indian_mobile d \<Longrightarrow> d \<noteq> []"
  by (auto simp: is_indian_mobile_def)

lemma keep_valid_same: "keep_valid f parse m f = (if truthy (m f) then parse (the (m f)) else m f)"
  by (simp add: keep_valid_def)

lemma keep_valid_other: "g \<noteq> f \<Longrightarrow> keep_valid f parse m g = m g"
  by (simp add: keep_valid_def)

definition non_blank :: "mapped_row \<Rightarrow> bool" where
  "non_blank m \<longleftrightarrow> (\<forall>f v. f \<noteq> FirstNameCol \<longrightarrow> m f = Some v \<longrightarrow> v \<noteq> [])"

lemma map_columns_non_blank: "non_blank m \<Longrightarrow> non_blank (map_columns columns k cells m)"
proof (induction columns arbitrary: k m)
  case (Cons column columns)
  have "non_blank (case column of None \<Rightarrow> m
       | Some f \<Rightarrow> if cell_at cells k = [] then m else m(f := Some (cell_at cells k)))"
    using Cons.prems by (cases column) (simp_all add: non_blank_def)
  then show ?case by (simp add: Cons.IH)
qed simp

lemma words_of_not_Nil: "[] \<notin> set (words_of s)"
proof (induction s)
  case (Cons c cs)
  then show ?case
    by (cases cs; cases "words_of cs") (simp_all del: words_of.simps(2) add: words_of.simps(2) [of c])
qed simp

lemma join_with_Nil_iff: "ts \<noteq> [] \<Longrightarrow> [] \<notin> set ts \<Longrightarrow> join_with sep ts \<noteq> []"
  by (induction sep ts rule: join_with.induct) auto

lemma splitFullName_surname:
  assumes "splitFullName v = (first, Some n)"
  shows "n \<noteq> []"
proof -
  define tokens where "tokens = words_of (map (\<lambda>c. if c = CHR '','' then CHR '' '' else c) (js_trim v))"
  have "[] \<notin> set tokens" unfolding tokens_def by (rule words_of_not_Nil)
  then have "join_with '' '' ts \<noteq> []" if "tokens = t # ts" "ts \<noteq> []" for t ts
    using that by (intro join_with_Nil_iff) auto
  then show ?thesis
    using assms unfolding splitFullName_def Let_def tokens_def [symmetric] by (auto split: if_splits list.splits)
qed

lemma split_name_non_blank: "non_blank m \<Longrightarrow> non_blank (split_name m)"
  using splitFullName_surname by (fastforce simp: split_name_def non_blank_def split: prod.splits)

lemma keep_valid_non_blank:
  assumes "non_blank m" and "\<And>v w. parse v = Some w \<Longrightarrow> v \<noteq> [] \<Longrightarrow> w \<noteq> []"
  shows "non_blank (keep_valid f parse m)"
  unfolding non_blank_def
proof (intro allI impI)
  fix g v assume "g \<noteq> FirstNameCol" "keep_valid f parse m g = Some v"
  then show "v \<noteq> []" using assms by (auto simp: keep_valid_def non_blank_def truthy_def split: if_splits)
qed

lemma pan_of_Some: "pan_of v = Some p \<Longrightarrow> is_pan p"
  by (auto simp: pan_of_def Let_def split: if_splits)

lemma is_pan_not_Nil: "is_pan p \<Longrightarrow> p \<noteq> []"
  by (auto simp: is_pan_def)

text \<open>
  C23. A row the importer accepts is well typed: it has a name and a ten-digit Indian mobile, and an
  email, PAN or PIN code it carries is well formed; anything malformed has been left out, and no
  field holds an empty text.
\<close>

theorem accepted_row_well_typed:
  assumes "mapAndValidate cells mapping = (m, [])"
  shows "well_typed m"
proof -
  let ?a = "split_name (map_columns (im_columns mapping) 0 cells (\<lambda>_. None))"
  let ?b = "?a(MobileCol := indianMobile (the (?a MobileCol)))"
  let ?c = "keep_valid EmailCol (\<lambda>v. if email_like v then Some v else None) ?b"
  let ?d = "keep_valid PanCol pan_of ?c"
  let ?e = "keep_valid PincodeCol (\<lambda>v. if is_pincode v then Some v else None) ?d"
  have name: "truthy (?a FirstNameCol)" and mob: "truthy (?a MobileCol)" "indianMobile (the (?a MobileCol)) \<noteq> None"
      and m: "m = ?e"
    using assms by (auto simp: mapAndValidate_def Let_def split: if_splits)
  obtain d where d: "indianMobile (the (?a MobileCol)) = Some d" "is_indian_mobile d"
    using mob(2) indianMobile_Some by blast
  have "non_blank (\<lambda>_. None)" by (simp add: non_blank_def)
  then have "non_blank ?a" by (intro split_name_non_blank map_columns_non_blank)
  then have "non_blank ?b" using d indian_mobile_not_Nil by (auto simp: non_blank_def)
  then have nb: "non_blank m" unfolding m
    by (intro keep_valid_non_blank) (auto dest: pan_of_Some is_pan_not_Nil split: if_splits)
  have fields: "m FirstNameCol = ?a FirstNameCol" "m MobileCol = Some d" "m EmailCol = ?c EmailCol" "m PanCol = ?d PanCol"
    by (simp_all add: m d keep_valid_other)
  have "\<forall>e. m EmailCol = Some e \<longrightarrow> email_like e"
    using nb by (auto simp: fields keep_valid_same non_blank_def truthy_def split: if_splits)
  moreover have "\<forall>p. m PanCol = Some p \<longrightarrow> is_pan p"
    using nb by (auto simp: fields keep_valid_same truthy_def dest!: pan_of_Some split: if_splits) (auto simp: non_blank_def fields keep_valid_same truthy_def split: if_splits)
  moreover have "\<forall>p. m PincodeCol = Some p \<longrightarrow> is_pincode p"
    using nb by (auto simp: m keep_valid_same truthy_def non_blank_def split: if_splits)
  moreover have "\<forall>f v. m f = Some v \<longrightarrow> v \<noteq> []"
  proof (intro allI impI)
    fix f v assume "m f = Some v"
    then show "v \<noteq> []" using nb name fields(1) by (cases "f = FirstNameCol") (auto simp: non_blank_def truthy_def)
  qed
  ultimately show ?thesis using name d(2) fields by (auto simp: well_typed_def)
qed

definition demo_mapping :: import_mapping where
  "demo_mapping = \<lparr>im_columns = [Some FirstNameCol, Some MobileCol, Some EmailCol, None, Some EstimatedValueCol],
     im_hasHeaderRow = True, im_source = ''IMPORT'', im_campaignId = None, im_ownerId = None\<rparr>"

lemma accepted_row_well_typed_witness:
  "well_typed (fst (mapAndValidate [''Shah, Asha'', ''+91 98765-43210'', ''asha@home''] demo_mapping))"
proof -
  let ?r = "mapAndValidate [''Shah, Asha'', ''+91 98765-43210'', ''asha@home''] demo_mapping"
  have "snd ?r = []" by code_simp
  then have "?r = (fst ?r, [])" by (metis prod.collapse)
  then show ?thesis by (rule accepted_row_well_typed)
qed

section \<open>Rows put forward for creation are new people\<close>

lemma map_columns_source:
  "map_columns columns k cells m f = Some v \<Longrightarrow>
    m f = Some v \<or> (\<exists>j < length columns. columns ! j = Some f \<and> cell_at cells (k + j) = v \<and> v \<noteq> [])"
proof (induction columns arbitrary: k m)
  case (Cons column columns)
  let ?m = "case column of None \<Rightarrow> m
       | Some g \<Rightarrow> if cell_at cells k = [] then m else m(g := Some (cell_at cells k))"
  from Cons.prems have "map_columns columns (k + 1) cells ?m f = Some v" by simp
  from Cons.IH [OF this] consider (here) "?m f = Some v"
    | (later) j where "j < length columns" "columns ! j = Some f" "cell_at cells (k + 1 + j) = v" "v \<noteq> []" by blast
  then show ?case
  proof cases
    case here
    then have "m f = Some v \<or> column = Some f \<and> cell_at cells k = v \<and> v \<noteq> []"
      by (auto split: option.splits if_splits)
    then show ?thesis by (force intro: exI [of _ 0])
  next
    case later
    then show ?thesis by (intro disjI2 exI [of _ "Suc j"]) simp
  qed
qed simp

lemma filter_digits: "list_all is_digit s \<Longrightarrow> filter is_digit s = s"
  by (simp add: list_all_iff filter_id_conv)

lemma indianMobile_digits:
  assumes "indianMobile v = Some d"
  shows "slice_last 10 (filter is_digit v) = d"
proof -
  define bare where "bare = filter (\<lambda>c. \<not> is_space c \<and> c \<noteq> CHR ''-'') (js_trim v)"
  define digits where "digits = (if prefix ''+'' bare then drop 1 bare else bare)"
  have d: "is_indian_mobile d" by (rule indianMobile_Some [OF assms])
  have "filter is_digit bare = filter is_digit (js_trim v)"
    unfolding bare_def filter_filter by (rule filter_cong) (auto simp: is_digit_def is_space_def)
  also have "\<dots> = filter is_digit v" by (rule filter_trim_noop) (rule is_digit_not_space)
  also have "filter is_digit bare = filter is_digit digits"
    by (auto simp: digits_def is_digit_def elim!: prefixE)
  finally have v: "filter is_digit v = filter is_digit digits" by simp
  have "\<exists>w. digits = w @ d \<and> list_all is_digit w"
  proof -
    define number where "number = (if length digits = 12 \<and> prefix ''91'' digits then drop 2 digits
                   else if length digits = 11 \<and> prefix ''0'' digits then drop 1 digits else digits)"
    have "indianMobile v = (if is_indian_mobile number then Some number else None)"
      by (simp only: indianMobile_def Let_def bare_def digits_def number_def)
    then have n: "d = number" using assms by (simp split: if_splits)
    consider "prefix ''91'' digits" "d = drop 2 digits" | "prefix ''0'' digits" "d = drop 1 digits" | "d = digits"
      using n unfolding number_def by (auto split: if_splits)
    then show ?thesis
    proof cases
      case 1
      then show ?thesis by (intro exI [of _ "''91''"]) (auto simp: is_digit_def elim!: prefixE)
    next
      case 2
      then show ?thesis by (intro exI [of _ "''0''"]) (auto simp: is_digit_def elim!: prefixE)
    next
      case 3
      then show ?thesis by (intro exI [of _ "[]"]) simp
    qed
  qed
  then obtain w where w: "digits = w @ d" "list_all is_digit w" by blast
  then have "filter is_digit digits = digits" using d by (simp add: filter_digits is_indian_mobile_def)
  then show ?thesis using d by (simp add: v w slice_last_def is_indian_mobile_def)
qed

lemma normalise_indian: "is_indian_mobile d \<Longrightarrow> normaliseMobile (Some d) = Some d"
  by (auto simp: normaliseMobile_def truthy_def filter_digits is_indian_mobile_def)

lemma mapped_mobile:
  assumes "mapAndValidate cells mapping = (m, [])"
  shows "\<exists>d. m MobileCol = Some d \<and> is_indian_mobile d \<and>
    d \<in> set (pool_mobiles mapping [cells])"
proof -
  let ?c = "map_columns (im_columns mapping) 0 cells (\<lambda>_. None)"
  let ?a = "split_name ?c"
  have "?a MobileCol = ?c MobileCol" by (simp add: split_name_def split: prod.split)
  then have mob: "truthy (?c MobileCol)" and md: "m MobileCol = indianMobile (the (?c MobileCol))"
      and ok: "indianMobile (the (?c MobileCol)) \<noteq> None"
    using assms by (auto simp: mapAndValidate_def Let_def keep_valid_other split: if_splits)
  then obtain v d where v: "?c MobileCol = Some v" and d: "indianMobile v = Some d" "m MobileCol = Some d"
    by (auto simp: truthy_def)
  from map_columns_source [OF v] obtain j where j: "j < length (im_columns mapping)"
    "im_columns mapping ! j = Some MobileCol" "cell_at cells j = v" "v \<noteq> []" by auto
  then have "v \<in> set (cells_of [MobileCol] mapping cells)"
    unfolding cells_of_def by (auto intro!: bexI [of _ j])
  moreover have "length d = 10" using indianMobile_Some [OF d(1)] by (simp add: is_indian_mobile_def)
  ultimately have "d \<in> set (pool_mobiles mapping [cells])"
    using indianMobile_digits [OF d(1)] by (auto simp: pool_mobiles_def intro!: image_eqI [of _ _ v])
  then show ?thesis using d indianMobile_Some by blast
qed

lemma pool_mobiles_mem: "raw \<in> set raws \<Longrightarrow> d \<in> set (pool_mobiles mapping [raw]) \<Longrightarrow> d \<in> set (pool_mobiles mapping raws)"
  by (auto simp: pool_mobiles_def)

definition likely_match :: "match_input \<Rightarrow> match_candidate \<Rightarrow> bool" where
  "likely_match i c \<longleftrightarrow> mr_confidence (scoreMatch i c) \<in> {DEFINITE, PROBABLE}"

lemma likely_match_score: "likely_match i c \<longleftrightarrow> MATCH_PROBABLE \<le> mr_score (scoreMatch i c)"
  by (simp add: likely_match_def scoreMatch_confidence confidenceFor_def MATCH_DEFINITE_def MATCH_PROBABLE_def)

lemma likely_never_valid:
  assumes "assess_row mapping candidates seen row = (a, seen')" and "va_status a = VALID" and c: "c \<in> set candidates"
  shows "\<not> likely_match (match_input_of (va_mapped a)) c"
proof
  obtain m errors where me: "mapAndValidate (ir_raw row) mapping = (m, errors)" by (metis surj_pair)
  have e: "errors = []" and am: "va_mapped a = m"
    using assms(1,2) me by (auto simp: assess_row_def Let_def split: if_splits list.splits)
  assume "likely_match (match_input_of (va_mapped a)) c"
  then have s: "MATCH_PROBABLE \<le> mr_score (scoreMatch (match_input_of m) c)" by (simp add: likely_match_score am)
  then have "mr_confidence (scoreMatch (match_input_of m) c) \<noteq> NONE"
    by (simp add: scoreMatch_confidence confidenceFor_def MATCH_PROBABLE_def MATCH_POSSIBLE_def)
  from findMatches_head [OF _ c this, of 1] obtain r where
      r: "hd (findMatches (match_input_of m) candidates 1) = scoreMatch (match_input_of m) r"
        "findMatches (match_input_of m) candidates 1 \<noteq> []"
        "mr_score (scoreMatch (match_input_of m) c) \<le> mr_score (scoreMatch (match_input_of m) r)" by auto
  then have "likely_match (match_input_of m) r" using s by (simp add: likely_match_score)
  then have conf: "mr_confidence (hd (findMatches (match_input_of m) candidates 1)) \<in> {DEFINITE, PROBABLE}"
    using r(1) by (simp add: likely_match_def)
  obtain best rest where "findMatches (match_input_of m) candidates 1 = best # rest"
    using r(2) by (cases "findMatches (match_input_of m) candidates 1") auto
  then show False
    using assms(1,2) me e conf by (auto simp: assess_row_def Let_def split: if_splits)
qed

lemma definite_never_valid:
  assumes "assess_row mapping candidates seen row = (a, seen')" and "va_status a = VALID"
  shows "mapAndValidate (ir_raw row) mapping = (va_mapped a, []) \<and>
    the (va_mapped a MobileCol) \<notin> set seen \<and> seen' = the (va_mapped a MobileCol) # seen \<and>
    (\<forall>c \<in> set candidates. \<not> same_identity (match_input_of (va_mapped a)) c)"
proof -
  obtain m errors where me: "mapAndValidate (ir_raw row) mapping = (m, errors)" by (metis surj_pair)
  have e: "errors = []" and am: "va_mapped a = m"
    using assms me by (auto simp: assess_row_def Let_def split: if_splits list.splits)
  obtain d where d: "m MobileCol = Some d" "is_indian_mobile d" using mapped_mobile me e by blast
  then have t: "truthy (m MobileCol)" using indian_mobile_not_Nil by (simp add: truthy_def)
  have parts: "d \<notin> set seen" "seen' = d # seen"
    using assms me e d t by (auto simp: assess_row_def Let_def split: if_splits list.splits)
  have weak: "\<not> same_identity (match_input_of m) c" if c: "c \<in> set candidates" for c
  proof
    assume "same_identity (match_input_of m) c"
    then have s: "MATCH_DEFINITE \<le> mr_score (scoreMatch (match_input_of m) c)" by (simp add: scoreMatch_definite)
    then have "mr_confidence (scoreMatch (match_input_of m) c) \<noteq> NONE"
      by (simp add: scoreMatch_confidence confidenceFor_def)
    from findMatches_head [OF _ c this, of 1] obtain r where
        r: "hd (findMatches (match_input_of m) candidates 1) = scoreMatch (match_input_of m) r"
          "findMatches (match_input_of m) candidates 1 \<noteq> []"
          "mr_score (scoreMatch (match_input_of m) c) \<le> mr_score (scoreMatch (match_input_of m) r)" by auto
    then have "mr_confidence (hd (findMatches (match_input_of m) candidates 1)) = DEFINITE"
      using s by (simp add: scoreMatch_confidence confidenceFor_def)
    then show False
      using assms me e d t parts r(2) by (auto simp: assess_row_def Let_def split: if_splits list.splits)
  qed
  then show ?thesis using me e am d parts by auto
qed

lemma seen_grows: "assess_row mapping candidates seen row = (a, seen') \<Longrightarrow> set seen \<subseteq> set seen'"
  by (auto simp: assess_row_def Let_def split: if_splits list.splits prod.splits)

definition fresh_mobiles :: "assessment list \<Rightarrow> string list" where
  "fresh_mobiles answers = map (\<lambda>a. the (va_mapped a MobileCol)) (filter (\<lambda>a. va_status a = VALID) answers)"

lemma assess_rows_fresh:
  "distinct (fresh_mobiles (assess_rows mapping candidates seen rows)) \<and>
   set (fresh_mobiles (assess_rows mapping candidates seen rows)) \<inter> set seen = {}"
proof (induction rows arbitrary: seen)
  case Nil
  then show ?case by (simp add: fresh_mobiles_def)
next
  case (Cons row rows)
  obtain a seen' where a: "assess_row mapping candidates seen row = (a, seen')" by (metis surj_pair)
  show ?case
  proof (cases "va_status a = VALID")
    case True
    then show ?thesis using Cons [of seen'] definite_never_valid [OF a True] by (auto simp: a fresh_mobiles_def)
  next
    case False
    then show ?thesis using Cons [of seen'] seen_grows [OF a] by (auto simp: a fresh_mobiles_def)
  qed
qed

lemma assess_rows_source:
  "a \<in> set (assess_rows mapping candidates seen rows) \<Longrightarrow>
    \<exists>row \<in> set rows. \<exists>seen seen'. assess_row mapping candidates seen row = (a, seen')"
proof (induction rows arbitrary: seen)
  case (Cons row rows)
  obtain b seen' where b: "assess_row mapping candidates seen row = (b, seen')" by (metis surj_pair)
  show ?case using Cons.prems Cons.IH [of seen'] b by auto
qed simp

text \<open>
  C24. A row the validation puts forward for creation is a new person: of the leads the pool query
  selects for the file none is a definite or a probable match for it, no lead on the book that has
  not been deleted has its mobile number, no two such rows of the file share one, and validating
  touches neither the leads nor anything else of the pipeline. The pool query is cut at 5,000 leads,
  which is where the bound comes from.
\<close>

theorem validated_rows_are_new:
  assumes "validate_batch returned user batchId mapping s = Inr (answers, s')"
    and "\<And>xs. mset (returned xs) = mset xs"
    and "length (filter (in_pool mapping (map ir_raw (rows_of batchId s))) (cr_leads (is_crm s))) \<le> 5000"
  shows "distinct (fresh_mobiles answers) \<and>
    (\<forall>a \<in> set answers. \<forall>l \<in> set (cr_leads (is_crm s)).
       va_status a = VALID \<longrightarrow> l_deletedAt l = None \<longrightarrow> va_mapped a MobileCol \<noteq> Some (l_mobile l)) \<and>
    (\<forall>a \<in> set answers. \<forall>l \<in> set (cr_leads (is_crm s)).
       va_status a = VALID \<longrightarrow> in_pool mapping (map ir_raw (rows_of batchId s)) l \<longrightarrow>
       mr_confidence (scoreMatch (match_input_of (va_mapped a)) (candidate_of l)) \<notin> {DEFINITE, PROBABLE}) \<and>
    is_crm s' = is_crm s"
proof -
  let ?rows = "rows_of batchId s"
  let ?raws = "map ir_raw ?rows"
  let ?pool = "filter (in_pool mapping ?raws) (cr_leads (is_crm s))"
  let ?cs = "loadCandidatePool returned mapping ?raws (cr_leads (is_crm s))"
  have answers: "answers = assess_rows mapping ?cs [] ?rows" and crm: "is_crm s' = is_crm s"
    using assms(1) by (auto simp: validate_batch_def and_then_Inr Let_def split: if_splits)
  have "length (returned ?pool) \<le> 5000" using assms(2,3) by (metis size_mset)
  moreover have "set (returned ?pool) = set ?pool" using assms(2) by (metis set_mset_mset)
  ultimately have cs: "set ?cs = candidate_of ` set ?pool" by (simp add: loadCandidatePool_def)
  have "va_mapped a MobileCol \<noteq> Some (l_mobile l)"
    if a: "a \<in> set answers" "va_status a = VALID" and l: "l \<in> set (cr_leads (is_crm s))" "l_deletedAt l = None" for a l
  proof
    assume same: "va_mapped a MobileCol = Some (l_mobile l)"
    obtain row seen seen' where row: "row \<in> set ?rows" "assess_row mapping ?cs seen row = (a, seen')"
      using assess_rows_source a(1) unfolding answers by blast
    note v = definite_never_valid [OF row(2) a(2)]
    then obtain d where d: "va_mapped a MobileCol = Some d" "is_indian_mobile d" "d \<in> set (pool_mobiles mapping [ir_raw row])"
      using mapped_mobile by blast
    then have "l_mobile l \<in> set (pool_mobiles mapping ?raws)" using row(1) same pool_mobiles_mem [of "ir_raw row" ?raws d mapping] by simp
    then have "candidate_of l \<in> set ?cs" unfolding cs using l by (auto simp: in_pool_def)
    moreover have "same_identity (match_input_of (va_mapped a)) (candidate_of l)"
      using same d by (simp add: same_identity_def match_input_of_def candidate_of_def normalise_indian same_key_def truthy_def indian_mobile_not_Nil)
    ultimately show False using v by blast
  qed
  moreover have "mr_confidence (scoreMatch (match_input_of (va_mapped a)) (candidate_of l)) \<notin> {DEFINITE, PROBABLE}"
    if a: "a \<in> set answers" "va_status a = VALID" and l: "l \<in> set (cr_leads (is_crm s))" "in_pool mapping ?raws l" for a l
  proof -
    obtain row seen seen' where row: "assess_row mapping ?cs seen row = (a, seen')"
      using assess_rows_source a(1) unfolding answers by blast
    have "candidate_of l \<in> set ?cs" unfolding cs using l by simp
    from likely_never_valid [OF row a(2) this] show ?thesis by (simp add: likely_match_def)
  qed
  ultimately show ?thesis using assess_rows_fresh crm unfolding answers by blast
qed

section \<open>A commit only adds\<close>

definition from_import :: "principal \<Rightarrow> commit_input \<Rightarrow> lead_row \<Rightarrow> bool" where
  "from_import user input l \<longleftrightarrow>
    l_status l = NEW \<and> l_createdById l = Some (pr_id user) \<and> l_ownerId l \<noteq> None \<and>
    l_mobileVerifiedById l = (if cm_markMobileVerified input then Some (pr_id user) else None) \<and>
    (l_mobileVerifiedAt l \<noteq> None) = cm_markMobileVerified input"

lemma from_import_lead: "from_import user input (imported_lead now user mapping input m ownerId unit amount ids)"
  by (simp add: from_import_def imported_lead_def blank_lead_def)

lemma note_imported_leads [simp]: "cr_leads (note_imported i m actor c) = cr_leads c"
  by (simp add: note_imported_def add_activity_def)

lemma first_history_leads [simp]: "cr_leads (first_history now i actor c) = cr_leads c"
  by (simp add: first_history_def add_history_def)

text \<open>The score is written without trouble once the row is in.\<close>

lemma createLeadFromRow_effect:
  assumes r: "createLeadFromRow w now user batchId row mapping input s = (r, s1)"
    and fresh: "fst (iw_fresh w (ir_rowNumber row)) \<notin> l_id ` set (cr_leads (is_crm s))"
  shows "is_batches s1 = is_batches s \<and>
    (case r of Inl e \<Rightarrow> cr_leads (is_crm s1) = cr_leads (is_crm s)
     | Inr i \<Rightarrow> \<exists>l. cr_leads (is_crm s1) = cr_leads (is_crm s) @ [l] \<and> from_import user input l \<and>
         l_id l = fst (iw_fresh w (ir_rowNumber row)))"
proof -
  obtain ownerId rules where route: "route_row w now user mapping input (ir_mapped row) s = (ownerId, rules)" by (metis surj_pair)
  define i where "i = fst (iw_fresh w (ir_rowNumber row))"
  define amt where "amt = parseImportedAmount (ir_mapped row EstimatedValueCol)"
  show ?thesis
  proof (cases "stored_amount (iw_nan w) amt")
    case (Inl e)
    then show ?thesis using r by (auto simp: createLeadFromRow_def Let_def route amt_def)
  next
    case (Inr stored)
    define lead where "lead = imported_lead now user mapping input (ir_mapped row) ownerId
      (or_else (Option.bind (find_by u_id ownerId (is_users s)) u_orgUnitId) (pr_orgUnitId user)) stored
      (iw_fresh w (ir_rowNumber row))"
    have idl: "l_id lead = i" by (simp add: lead_def imported_lead_def blank_lead_def i_def)
    show ?thesis
    proof (cases "iw_fits w lead")
      case False
      then show ?thesis using r Inr by (auto simp: createLeadFromRow_def Let_def route amt_def lead_def)
    next
      case fits: True
      show ?thesis
      proof (cases "insert_lead lead (is_crm s)")
        case (Inl e)
        then show ?thesis using r Inr fits by (auto simp: createLeadFromRow_def Let_def route amt_def lead_def)
      next
        case ins: (Inr c1)
        note up = rescored_lead [OF ins fresh [folded i_def, folded idl] idl]
        have "from_import user input lead" unfolding lead_def by (rule from_import_lead)
        then have ok: "from_import user input (lead\<lparr>l_score := n\<rparr>)" for n by (simp add: from_import_def)
        have "r = Inr i \<and> is_batches s1 = is_batches s \<and> (\<exists>n. cr_leads (is_crm s1) = cr_leads (is_crm s) @ [lead\<lparr>l_score := n\<rparr>])"
          using r Inr fits ins
          by (auto simp: createLeadFromRow_def Let_def route amt_def [symmetric] lead_def [symmetric] i_def [symmetric] up)
        then show ?thesis using ok idl by (auto simp: i_def)
      qed
    qed
  qed
qed

lemma mark_row_keeps [simp]: "is_crm (mark_row i f s) = is_crm s" "is_batches (mark_row i f s) = is_batches s"
  by (simp_all add: mark_row_def)

lemma commit_rows_effect:
  assumes "commit_rows w now user batchId mapping input rows s = ((imported, skipped), s')"
    and "distinct (map ir_rowNumber rows)" and "inj (\<lambda>k. fst (iw_fresh w k))"
    and "\<And>row. row \<in> set rows \<Longrightarrow> fst (iw_fresh w (ir_rowNumber row)) \<notin> l_id ` set (cr_leads (is_crm s))"
  shows "is_batches s' = is_batches s \<and> imported + skipped = length rows \<and>
    (\<exists>new. cr_leads (is_crm s') = cr_leads (is_crm s) @ new \<and> length new = imported \<and> (\<forall>l \<in> set new. from_import user input l))"
  using assms
proof (induction rows arbitrary: s imported skipped)
  case Nil
  then show ?case by simp
next
  case (Cons row rows)
  obtain done1 s1 where step: "commit_row w now user batchId mapping input row s = (done1, s1)" by (metis surj_pair)
  obtain i2 k2 s2 where rest: "commit_rows w now user batchId mapping input rows s1 = ((i2, k2), s2)" by (metis surj_pair)
  have out: "imported = (if done1 then i2 + 1 else i2)" "skipped = (if done1 then k2 else k2 + 1)" "s' = s2"
    using Cons.prems(1) step rest by (auto simp: Let_def split: if_splits)
  obtain r s0 where c: "createLeadFromRow w now user batchId row mapping input s = (r, s0)" by (metis surj_pair)
  have one: "is_batches s1 = is_batches s \<and> (\<exists>new. cr_leads (is_crm s1) = cr_leads (is_crm s) @ new \<and>
      length new = (if done1 then 1 else 0) \<and> (\<forall>l \<in> set new. from_import user input l \<and> l_id l = fst (iw_fresh w (ir_rowNumber row))))"
  proof (cases "decision_for input row")
    case False
    then have "done1 = False" "s1 = mark_row (ir_id row) (\<lambda>r. r\<lparr>ir_status := SKIPPED\<rparr>) s" using step by (simp_all add: commit_row_def)
    then show ?thesis by simp
  next
    case True
    note eff = createLeadFromRow_effect [OF c Cons.prems(4) [OF list.set_intros(1)]]
    show ?thesis
    proof (cases r)
      case (Inl e)
      then have "done1 = False" "s1 = mark_row (ir_id row) (\<lambda>r. r\<lparr>ir_status := INVALID, ir_errors := [CouldNotImport e]\<rparr>) s0"
        using step True c by (simp_all add: commit_row_def)
      then show ?thesis using eff Inl by simp
    next
      case (Inr i)
      then have "done1 = True"
          "s1 = mark_row (ir_id row) (\<lambda>r. r\<lparr>ir_status := IMPORTED, ir_createdLeadId := Some i\<rparr>) s0"
        using step True c by (simp_all add: commit_row_def)
      moreover from Inr eff obtain l where "cr_leads (is_crm s0) = cr_leads (is_crm s) @ [l]" "from_import user input l"
        "l_id l = fst (iw_fresh w (ir_rowNumber row))" by auto
      moreover have "is_batches s0 = is_batches s" using eff by blast
      ultimately show ?thesis by simp
    qed
  qed
  then obtain new1 where new1: "cr_leads (is_crm s1) = cr_leads (is_crm s) @ new1" "length new1 = (if done1 then 1 else 0)"
    "\<forall>l \<in> set new1. from_import user input l \<and> l_id l = fst (iw_fresh w (ir_rowNumber row))" by blast
  have fresh: "fst (iw_fresh w (ir_rowNumber r)) \<notin> l_id ` set (cr_leads (is_crm s1))" if "r \<in> set rows" for r
  proof -
    have "ir_rowNumber r \<in> ir_rowNumber ` set rows" using that by (rule imageI)
    then have "ir_rowNumber r \<noteq> ir_rowNumber row" using Cons.prems(2) by auto
    then have "fst (iw_fresh w (ir_rowNumber r)) \<noteq> fst (iw_fresh w (ir_rowNumber row))"
      using injD [OF Cons.prems(3)] by blast
    then show ?thesis using Cons.prems(4) [of r] that new1 by auto
  qed
  have "distinct (map ir_rowNumber rows)" using Cons.prems(2) by simp
  from Cons.IH [OF rest [folded out(3)] this Cons.prems(3) fresh] obtain new2 where
      two: "is_batches s' = is_batches s1" "i2 + k2 = length rows" "cr_leads (is_crm s') = cr_leads (is_crm s1) @ new2"
        "length new2 = i2" "\<forall>l \<in> set new2. from_import user input l" by blast
  show ?case
    using one two new1 out by (auto intro!: exI [of _ "new1 @ new2"])
qed

text \<open>
  A commit only adds to the book, and only once: the leads that were there stay exactly as they
  are, in particular with their owners; one new lead appears for each row counted as imported,
  unverified unless the importer vouched for the numbers; imported and skipped rows add up to the
  rows that were up for decision; and committing the same batch again is refused.
\<close>

theorem import_only_adds:
  assumes "commit w now user batchId input s = (Inr (imported, skipped), s')"
    and "distinct (map ir_rowNumber (rows_of batchId s))" and "inj (\<lambda>k. fst (iw_fresh w k))"
    and "\<And>k. fst (iw_fresh w k) \<notin> l_id ` set (cr_leads (is_crm s))"
  shows "(\<exists>new. cr_leads (is_crm s') = cr_leads (is_crm s) @ new \<and> length new = imported \<and>
      (\<forall>l \<in> set new. from_import user input l)) \<and>
    imported + skipped = count_where (\<lambda>r. ir_status r = VALID \<or> ir_status r = DUPLICATE) (rows_of batchId s) \<and>
    (\<exists>e. commit w' now' user batchId input' s' = (Inl e, s'))"
proof -
  let ?rows = "filter (\<lambda>r. ir_status r = VALID \<or> ir_status r = DUPLICATE) (rows_of batchId s)"
  obtain batch mapping where b: "mustFindBatch user batchId s = Inr batch" "ib_status batch = VALIDATED" "ib_mapping batch = Some mapping"
    using assms(1) by (auto simp: commit_def split: sum.splits if_splits option.splits)
  obtain s1 where loop: "commit_rows w now user batchId mapping input ?rows s = ((imported, skipped), s1)"
      and s': "is_batches s' = update_by ib_id batchId (\<lambda>b. b\<lparr>ib_status := COMMITTED, ib_importedRows := imported,
          ib_skippedRows := skipped, ib_committedAt := Some now\<rparr>) (is_batches s1)"
        "cr_leads (is_crm s') = cr_leads (is_crm s1)"
    using assms(1) b by (auto simp: commit_def Let_def import_audit_def publish_def split: prod.splits)
  have "distinct (map ir_rowNumber ?rows)" using assms(2) by (rule distinct_map_filter)
  note effect = commit_rows_effect [OF loop this assms(3,4)]
  obtain b' where "mustFindBatch user batchId s' = Inr b'" "ib_status b' = COMMITTED"
  proof -
    let ?p = "\<lambda>b. ib_id b = batchId \<and> (pr_dataScope user = ALL_SCOPE \<or> ib_importedById b = pr_id user)"
    let ?f = "\<lambda>b. b\<lparr>ib_status := COMMITTED, ib_importedRows := imported, ib_skippedRows := skipped, ib_committedAt := Some now\<rparr>"
    have f: "find ?p (is_batches s) = Some batch" using b(1) by (auto simp: mustFindBatch_def split: option.splits)
    have "find ?p (update_by ib_id batchId ?f (is_batches s)) = map_option (\<lambda>b. if ib_id b = batchId then ?f b else b) (find ?p (is_batches s))"
      unfolding update_by_def update_where_def by (rule find_map_same) auto
    moreover have "ib_id batch = batchId" using f by (auto simp: find_Some_iff)
    ultimately show thesis using that s' effect f by (auto simp: mustFindBatch_def)
  qed
  then have "\<exists>e. commit w' now' user batchId input' s' = (Inl e, s')" by (simp add: commit_def)
  then show ?thesis using effect s'(2) by (auto simp: count_where_def)
qed

text \<open>A file of three rows: a new person, the same number again, no usable number.\<close>

definition demo_importer :: principal where
  "demo_importer = demo_rep"

definition demo_book :: import_state where
  "demo_book = \<lparr>is_batches = [], is_rows = [], is_users = demo_staff, is_rules = [], is_crm = demo_lead_state,
     is_importBatch = []\<rparr>"

definition demo_world :: import_world where
  "demo_world = \<lparr>iw_collate = code_unit_order, iw_fits = (\<lambda>_. True), iw_nan = Inr None,
     iw_fresh = (\<lambda>k. (''imp'' @ show_nat k, ''LD'' @ show_nat k))\<rparr>"

definition demo_declaration :: import_declaration where
  "demo_declaration = \<lparr>de_origin = ''REFERRAL_PARTNER'', de_suppliedBy = ''Asha'', de_description = ''Club members'',
     de_lawfulBasisConfirmed = True\<rparr>"

definition demo_file :: string where
  "demo_file = csv_document (CHR 0xFE)
     [[''Name'', ''Mobile'', ''Email'', ''Notes'', ''Value''],
      [''Shah, Asha'', ''98765 11111'', ''asha@home.in'', ''met at club'', ''12.5 lakh''],
      [''Asha Shah'', ''09876511111'', [], [], []],
      [''Rahul'', ''12345'', [], [], []]]"

definition demo_staged :: import_state where
  "demo_staged = snd (projr (parse_file (CHR 0xFE) 5 demo_importer ''club.csv'' demo_file demo_declaration ''b1'' ''IM1''
     (\<lambda>k. ''r'' @ show_nat k) demo_book))"

definition demo_checked :: import_state where
  "demo_checked = snd (projr (validate_batch (\<lambda>xs. xs) demo_importer ''b1'' demo_mapping demo_staged))"

lemma validated_rows_are_new_witness:
  "map va_status (fst (projr (validate_batch (\<lambda>xs. xs) demo_importer ''b1'' demo_mapping demo_staged))) =
     [VALID, DUPLICATE, INVALID] \<and>
   distinct (fresh_mobiles (fst (projr (validate_batch (\<lambda>xs. xs) demo_importer ''b1'' demo_mapping demo_staged)))) \<and>
   is_crm demo_checked = is_crm demo_staged"
proof -
  let ?r = "validate_batch (\<lambda>xs. xs) demo_importer ''b1'' demo_mapping demo_staged"
  have ok: "case ?r of Inl _ \<Rightarrow> False | Inr (assessed, s) \<Rightarrow> map va_status assessed = [VALID, DUPLICATE, INVALID]" by code_simp
  then have run: "?r = Inr (fst (projr ?r), snd (projr ?r))" by (cases ?r) auto
  have "length (filter (in_pool demo_mapping (map ir_raw (rows_of ''b1'' demo_staged))) (cr_leads (is_crm demo_staged))) \<le> 5000"
    by code_simp
  moreover have "map va_status (fst (projr ?r)) = [VALID, DUPLICATE, INVALID]"
    using ok by (subst (asm) run) (simp add: case_prod_beta)
  ultimately show ?thesis using validated_rows_are_new [OF run refl] by (simp add: demo_checked_def)
qed

definition demo_person :: mapped_row where
  "demo_person = (\<lambda>f. if f = FirstNameCol then Some ''Asha'' else if f = MobileCol then Some ''9876511111'' else None)"

definition demo_ready :: import_state where
  "demo_ready = demo_book\<lparr>
     is_batches := [\<lparr>ib_id = ''b1'', ib_reference = ''IM1'', ib_fileName = ''club.csv'', ib_status = VALIDATED,
       ib_declaration = demo_declaration, ib_confirmedAt = 5, ib_mapping = Some demo_mapping, ib_totalRows = 2,
       ib_validRows = 1, ib_invalidRows = 0, ib_duplicateRows = 1, ib_importedRows = 0, ib_skippedRows = 0,
       ib_importedById = pr_id demo_importer, ib_committedAt = None\<rparr>],
     is_rows := [(staged_row (\<lambda>_. ''r1'') ''b1'' 1 [])\<lparr>ir_mapped := demo_person\<rparr>,
       (staged_row (\<lambda>_. ''r2'') ''b1'' 2 [])\<lparr>ir_status := DUPLICATE, ir_mapped := demo_person\<rparr>]\<rparr>"

definition demo_commit :: commit_input where
  "demo_commit = \<lparr>cm_decisions = [], cm_markMobileVerified = False, cm_assignToUserId = Some ''u2''\<rparr>"

lemma import_only_adds_witness:
  "fst (commit demo_world 9 demo_importer ''b1'' demo_commit demo_ready) = Inr (1, 1) \<and>
   (\<exists>l. cr_leads (is_crm (snd (commit demo_world 9 demo_importer ''b1'' demo_commit demo_ready))) =
     cr_leads (is_crm demo_ready) @ [l])"
proof -
  let ?run = "commit demo_world 9 demo_importer ''b1'' demo_commit demo_ready"
  have f: "fst ?run = Inr (1, 1)" by code_simp
  then have run: "?run = (Inr (1, 1), snd ?run)" by (metis prod.collapse)
  have book: "distinct (map ir_rowNumber (rows_of ''b1'' demo_ready)) \<and> map l_id (cr_leads (is_crm demo_ready)) = [''l1'']" by code_simp
  note rows = book [THEN conjunct1]
  have inj: "inj (\<lambda>k. fst (iw_fresh demo_world k))"
    by (rule injI) (simp add: demo_world_def, metis read_show_nat)
  from book have "l_id ` set (cr_leads (is_crm demo_ready)) = {''l1''}" by (metis list.set_map list.simps(15) set_empty2 empty_set)
  then have fresh: "fst (iw_fresh demo_world k) \<notin> l_id ` set (cr_leads (is_crm demo_ready))" for k
    by (simp add: demo_world_def)
  from import_only_adds [OF run rows inj fresh] obtain new where
    "cr_leads (is_crm (snd ?run)) = cr_leads (is_crm demo_ready) @ new" "length new = 1" by blast
  then show ?thesis using f by (auto simp: length_Suc_conv)
qed

text \<open>
  Validating again does not clear what an earlier mapping reported: a row that had no usable number
  keeps that error once another mapping has made it valid.
\<close>

definition demo_row :: import_row where
  "demo_row = staged_row (\<lambda>k. ''r'') ''b1'' 1 [''Rahul'', ''12345'', ''9876522222'']"

definition demo_columns :: "import_field option list \<Rightarrow> import_mapping" where
  "demo_columns columns = demo_mapping\<lparr>im_columns := columns\<rparr>"

lemma revalidation_keeps_errors:
  "let first = store_assessment (fst (assess_row (demo_columns [Some FirstNameCol, Some MobileCol]) [] [] demo_row)) demo_row;
       second = store_assessment (fst (assess_row (demo_columns [Some FirstNameCol, None, Some MobileCol]) [] [] first)) first
   in ir_status second = VALID \<and> ir_errors second = [MobileInvalid ''12345'']"
  by code_simp

end
