(* ===== verification/Partners.thy ===== *)
theory Partners
  imports Pipeline
begin

text \<open>
  Associate partners and the codes that bring them business: referral codes, capture links and the
  figures of a partner's page (\<open>modules/partners/partners.service.ts\<close>, the capture part of
  \<open>packages/contracts/src/event.ts\<close>). \<open>pick k n\<close> is what the k-th call of \<open>randomInt(n)\<close> returns,
  some number below \<open>n\<close>. A link is the origin of the public site followed by a path; percent signs
  and UTF-8 bytes are those of \<open>encodeURIComponent\<close>.
\<close>

section \<open>Codes in links\<close>

definition unreserved :: "char \<Rightarrow> bool" where
  "unreserved c \<longleftrightarrow> is_upper c \<or> is_lower c \<or> is_digit c \<or> c \<in> set ''-_.!~*()'' \<or> c = CHR 0x27"

definition hex_digit :: "nat \<Rightarrow> char" where
  "hex_digit n = (if n < 10 then char_of (48 + n) else char_of (55 + n))"

definition percent :: "nat \<Rightarrow> string" where
  "percent byte = [CHR 0x25, hex_digit (byte div 16), hex_digit (byte mod 16)]"

definition utf8_bytes :: "char \<Rightarrow> nat list" where
  "utf8_bytes c =
    (let n = code_unit c in if n < 128 then [n] else [192 + n div 64, 128 + n mod 64])"

definition encode_char :: "char \<Rightarrow> string" where
  "encode_char c = (if unreserved c then [c] else concat (map percent (utf8_bytes c)))"

definition encodeURIComponent :: "string \<Rightarrow> string" where
  "encodeURIComponent s = concat (map encode_char s)"

datatype capture_kind = PARTNER_LINK | EVENT_LINK

definition captureUrl :: "string \<Rightarrow> capture_kind \<Rightarrow> string \<Rightarrow> string" where
  "captureUrl origin kind code =
    origin @ ''/join/'' @ (if kind = PARTNER_LINK then ''p'' else ''e'') @ ''/'' @ encodeURIComponent code"

text \<open>\<open>URLSearchParams\<close> writes a space as a plus sign and leaves fewer characters as they are.\<close>

definition form_char :: "char \<Rightarrow> string" where
  "form_char c =
    (if is_upper c \<or> is_lower c \<or> is_digit c \<or> c \<in> set ''*-._'' then [c]
     else if c = CHR '' '' then ''+''
     else concat (map percent (utf8_bytes c)))"

definition REP_CAPTURE_PARAM :: string where
  "REP_CAPTURE_PARAM = ''utm_content''"

definition repCaptureUrl :: "string \<Rightarrow> string \<Rightarrow> string \<Rightarrow> string" where
  "repCaptureUrl origin eventCode employeeCode =
    captureUrl origin EVENT_LINK eventCode @ ''?'' @ REP_CAPTURE_PARAM @ ''='' @ concat (map form_char employeeCode)"

section \<open>Referral codes\<close>

definition CODE_ALPHABET :: string where
  "CODE_ALPHABET = ''ABCDEFGHJKMNPQRSTUVWXYZ23456789''"

definition REFERRAL_CODE_LENGTH :: nat where
  "REFERRAL_CODE_LENGTH = 8"

definition generateReferralCode :: "(nat \<Rightarrow> nat \<Rightarrow> nat) \<Rightarrow> nat \<Rightarrow> string" where
  "generateReferralCode pick n =
    map (\<lambda>k. CODE_ALPHABET ! pick k (length CODE_ALPHABET)) [0..<n]"

definition referralCodeSchema :: "string \<Rightarrow> string option" where
  "referralCodeSchema raw =
    (let code = to_upper (js_trim raw)
     in if list_all (\<lambda>c. c \<in> set CODE_ALPHABET) code \<and> 4 \<le> length code \<and> length code \<le> 24 then Some code else None)"

datatype partner_status = PENDING_PARTNER | ACTIVE_PARTNER | SUSPENDED_PARTNER | TERMINATED_PARTNER

record partner_row =
  pt_id :: string
  pt_name :: string
  pt_status :: partner_status
  pt_referralCode :: "string option"
  pt_commissionRate :: "rat option"
  pt_deletedAt :: "time option"

record partner_state =
  ps_partners :: "partner_row list"
  ps_crm :: crm

interpretation partner_table: repository "find_by pt_id" "update_by pt_id" insert_row pt_id
  by (rule repository_by)

definition partner_audit :: "string \<Rightarrow> string option \<Rightarrow> string \<Rightarrow> 'a partner_state_scheme \<Rightarrow> 'a partner_state_scheme" where
  "partner_audit action reason i s =
    s\<lparr>ps_crm := (ps_crm s)\<lparr>cr_audit :=
      insert_row ((audit_entry action ''partner'' i)\<lparr>au_reason := reason\<rparr>) (cr_audit (ps_crm s))\<rparr>\<rparr>"

definition live_partner :: "string \<Rightarrow> 'a partner_state_scheme \<Rightarrow> partner_row result" where
  "live_partner i s =
    (case find (\<lambda>p. pt_id p = i \<and> pt_deletedAt p = None) (ps_partners s) of
       None \<Rightarrow> Inl (NotFound ''Partner not found'')
     | Some p \<Rightarrow> Inr p)"

text \<open>
  A code is drawn up to five times. The column is unique over all partners, deleted ones included, and
  so is the check before the write.
\<close>

definition CODE_ATTEMPTS :: nat where
  "CODE_ATTEMPTS = 5"

fun issue_attempts ::
    "(nat \<Rightarrow> nat \<Rightarrow> nat) \<Rightarrow> nat \<Rightarrow> nat \<Rightarrow> string \<Rightarrow> 'a partner_state_scheme \<Rightarrow> (string \<times> 'a partner_state_scheme) result" where
  "issue_attempts pick k 0 i s = Inl (Forbidden ''Could not issue a referral code'')"
| "issue_attempts pick k (Suc left) i s =
    (let code = generateReferralCode (\<lambda>j. pick (k + j)) REFERRAL_CODE_LENGTH
     in if list_ex (\<lambda>p. pt_referralCode p = Some code) (ps_partners s)
        then issue_attempts pick (k + REFERRAL_CODE_LENGTH) left i s
        else Inr (code, s\<lparr>ps_partners := update_by pt_id i (\<lambda>p. p\<lparr>pt_referralCode := Some code\<rparr>) (ps_partners s)\<rparr>))"

definition issueCode ::
    "(nat \<Rightarrow> nat \<Rightarrow> nat) \<Rightarrow> string \<Rightarrow> 'a partner_state_scheme \<Rightarrow> (string \<times> 'a partner_state_scheme) result" where
  "issueCode pick i s = issue_attempts pick 0 CODE_ATTEMPTS i s"

record referral_link =
  rl_code :: string
  rl_url :: string
  rl_partnerName :: string
  rl_active :: bool

definition referralLink ::
    "(nat \<Rightarrow> nat \<Rightarrow> nat) \<Rightarrow> string \<Rightarrow> principal \<Rightarrow> string option \<Rightarrow> 'a partner_state_scheme \<Rightarrow>
     (referral_link \<times> 'a partner_state_scheme) result" where
  "referralLink pick origin user partnerId s =
    (let wanted = or_else partnerId (pr_partnerId user) in
     if \<not> truthy wanted then Inl (Forbidden ''Not a partner'')
     else if truthy (pr_partnerId user) \<and> pr_partnerId user \<noteq> wanted
       then Inl (Forbidden ''Not your partner organisation'')
     else and_then (live_partner (the wanted) s) (\<lambda>p.
       and_then (case pt_referralCode p of Some code \<Rightarrow> Inr (code, s) | None \<Rightarrow> issueCode pick (pt_id p) s) (\<lambda>(code, s).
         Inr (\<lparr>rl_code = code, rl_url = captureUrl origin PARTNER_LINK code, rl_partnerName = pt_name p,
               rl_active = (pt_status p = ACTIVE_PARTNER)\<rparr>, s))))"

definition rotateReferralCode ::
    "(nat \<Rightarrow> nat \<Rightarrow> nat) \<Rightarrow> string \<Rightarrow> string \<Rightarrow> string \<Rightarrow> 'a partner_state_scheme \<Rightarrow>
     ((string \<times> string) \<times> 'a partner_state_scheme) result" where
  "rotateReferralCode pick origin partnerId reason s =
    and_then (live_partner partnerId s) (\<lambda>p.
    and_then (issueCode pick (pt_id p) s) (\<lambda>(code, s).
      Inr ((code, captureUrl origin PARTNER_LINK code), partner_audit ''UPDATE'' (Some reason) (pt_id p) s)))"

section \<open>The partner page\<close>

definition DAY_MS :: int where
  "DAY_MS = 86400000"

record partner_360 =
  p3_leadsSourced :: nat
  p3_leadsOpen :: nat
  p3_leadsConverted :: nat
  p3_conversionRate :: rat
  p3_clientsTotal :: nat
  p3_clientsActive :: nat
  p3_clientsOnboarding :: nat
  p3_attributedBusinessValue :: rat
  p3_estimatedCommission :: "int option"
  p3_leadsLast30 :: nat
  p3_conversionsLast30 :: nat
  p3_lastLeadAt :: "time option"

text \<open>\<open>Number(x.toFixed(1))\<close> of a number that is not negative.\<close>

definition one_decimal :: "rat \<Rightarrow> rat" where
  "one_decimal x = of_int (js_round (x * 10)) / 10"

definition sourced_by :: "string \<Rightarrow> lead_row \<Rightarrow> bool" where
  "sourced_by i l \<longleftrightarrow> l_partnerId l = Some i \<and> l_deletedAt l = None"

definition client_of :: "string \<Rightarrow> customer_row \<Rightarrow> bool" where
  "client_of i c \<longleftrightarrow> cu_partnerId c = Some i \<and> cu_deletedAt c = None"

definition attributed_value :: "string \<Rightarrow> lead_row list \<Rightarrow> rat" where
  "attributed_value i leads =
    sum_list (map (\<lambda>l. case l_estimatedValue l of None \<Rightarrow> 0 | Some v \<Rightarrow> v) (filter (\<lambda>l. sourced_by i l \<and> l_status l = CONVERTED) leads))"

definition find360 :: "time \<Rightarrow> principal \<Rightarrow> string \<Rightarrow> 'a partner_state_scheme \<Rightarrow> (partner_360 \<times> 'a partner_state_scheme) result" where
  "find360 now user i s =
    (if truthy (pr_partnerId user) \<and> pr_partnerId user \<noteq> Some i then Inl (Forbidden ''Not your partner record'')
     else and_then (live_partner i s) (\<lambda>p.
       let leads = cr_leads (ps_crm s); customers = cr_customers (ps_crm s); since = now - 30 * DAY_MS;
           sourced = count_where (sourced_by i) leads;
           converted = count_where (\<lambda>l. sourced_by i l \<and> l_status l = CONVERTED) leads;
           attributed = attributed_value i leads
       in Inr (\<lparr>p3_leadsSourced = sourced,
             p3_leadsOpen = count_where (\<lambda>l. sourced_by i l \<and> l_status l \<notin> set CLOSED_LEAD_STATUSES) leads,
             p3_leadsConverted = converted,
             p3_conversionRate = (if sourced > 0 then one_decimal (of_nat converted / of_nat sourced * 100) else 0),
             p3_clientsTotal = count_where (client_of i) customers,
             p3_clientsActive = count_where (\<lambda>c. client_of i c \<and> cu_status c = ''ACTIVE'') customers,
             p3_clientsOnboarding = count_where (\<lambda>c. client_of i c \<and> cu_status c = ''ONBOARDING'') customers,
             p3_attributedBusinessValue = attributed,
             p3_estimatedCommission = map_option (\<lambda>rate. js_round (attributed * rate / 100)) (pt_commissionRate p),
             p3_leadsLast30 = count_where (\<lambda>l. sourced_by i l \<and> since \<le> l_createdAt l) leads,
             p3_conversionsLast30 = count_where (\<lambda>l. sourced_by i l \<and>
               (case l_convertedAt l of None \<Rightarrow> False | Some t \<Rightarrow> since \<le> t)) leads,
             p3_lastLeadAt = map_option l_createdAt (case js_sort (\<lambda>a b. l_createdAt b - l_createdAt a) (filter (sourced_by i) leads)
               of [] \<Rightarrow> None | l # _ \<Rightarrow> Some l)\<rparr>,
           partner_audit ''READ'' None i s)))"

definition me :: "time \<Rightarrow> principal \<Rightarrow> 'a partner_state_scheme \<Rightarrow> (partner_360 \<times> 'a partner_state_scheme) result" where
  "me now user s =
    (if \<not> truthy (pr_partnerId user) then Inl (Forbidden ''Not a partner account'')
     else find360 now user (the (pr_partnerId user)) s)"

section \<open>Links lead back to their codes\<close>

text \<open>How a browser and the router read a path segment: percent triples are bytes, bytes are UTF-8.\<close>

definition hex_value :: "char \<Rightarrow> nat" where
  "hex_value c = (if is_digit c then code_unit c - 48 else code_unit c - 55)"

fun byte_list :: "string \<Rightarrow> nat list" where
  "byte_list (c # a # b # s) = (if c = CHR 0x25 then (16 * hex_value a + hex_value b) # byte_list s else code_unit c # byte_list (a # b # s))"
| "byte_list (c # s) = code_unit c # byte_list s"
| "byte_list [] = []"

fun from_utf8 :: "nat list \<Rightarrow> string" where
  "from_utf8 (n # m # s) = (if n < 128 then char_of n # from_utf8 (m # s) else char_of ((n - 192) * 64 + (m - 128)) # from_utf8 s)"
| "from_utf8 [n] = [char_of n]"
| "from_utf8 [] = []"

definition decodeURIComponent :: "string \<Rightarrow> string" where
  "decodeURIComponent s = from_utf8 (byte_list s)"

lemma hex_value_digit: "n < 16 \<Longrightarrow> hex_value (hex_digit n) = n"
  by (auto simp: hex_value_def hex_digit_def is_digit_def)

lemma byte_list_percent: "n < 256 \<Longrightarrow> byte_list (percent n @ s) = n # byte_list s"
  by (simp add: percent_def hex_value_digit)

lemma byte_list_plain: "c \<noteq> CHR 0x25 \<Longrightarrow> byte_list (c # s) = code_unit c # byte_list s"
  by (cases s rule: byte_list.cases) auto

lemma code_unit_limit: "code_unit c < 256"
  by (rule nat_of_char_less_256)

lemma byte_list_encode_char: "byte_list (encode_char c @ s) = (if unreserved c then [code_unit c] else utf8_bytes c) @ byte_list s"
proof (cases "unreserved c")
  case True
  then have "c \<noteq> CHR 0x25" by (auto simp: unreserved_def is_upper_def is_lower_def is_digit_def)
  then show ?thesis using True by (simp add: encode_char_def byte_list_plain)
next
  case False
  have "192 + code_unit c div 64 < 256" "128 + code_unit c mod 64 < 256"
    using div_le_mono [of "code_unit c" 255 64] code_unit_limit [of c] mod_less_divisor [of 64 "code_unit c"] by simp_all
  then show ?thesis using False by (auto simp: encode_char_def utf8_bytes_def Let_def byte_list_percent)
qed

lemma from_utf8_char: "from_utf8 (utf8_bytes c @ ns) = c # from_utf8 ns"
proof (cases "code_unit c < 128")
  case True
  then show ?thesis by (cases ns) (simp_all add: utf8_bytes_def)
next
  case False
  then show ?thesis by (simp add: utf8_bytes_def Let_def)
qed

lemma unreserved_ascii: "unreserved c \<Longrightarrow> [code_unit c] = utf8_bytes c"
  by (auto simp: unreserved_def utf8_bytes_def is_upper_def is_lower_def is_digit_def)

lemma decode_encode: "decodeURIComponent (encodeURIComponent s) = s"
proof -
  have "byte_list (encodeURIComponent s) = concat (map utf8_bytes s)"
    by (induction s) (simp_all add: encodeURIComponent_def byte_list_encode_char unreserved_ascii)
  moreover have "from_utf8 (concat (map utf8_bytes s)) = s"
    by (induction s) (simp_all add: from_utf8_char)
  ultimately show ?thesis by (simp add: decodeURIComponent_def)
qed

lemma capture_links_distinct:
  "captureUrl origin kind code = captureUrl origin kind' code' \<longleftrightarrow> kind = kind' \<and> code = code'"
proof -
  have "encodeURIComponent code = encodeURIComponent code' \<Longrightarrow> code = code'" by (metis decode_encode)
  then show ?thesis by (cases kind; cases kind') (auto simp: captureUrl_def)
qed

section \<open>One code, one partner\<close>

text \<open>How a submission finds the partner of a code: without regard to case, deleted partners left out.\<close>

definition has_code :: "string \<Rightarrow> partner_row \<Rightarrow> bool" where
  "has_code code p \<longleftrightarrow> (case pt_referralCode p of None \<Rightarrow> False | Some c \<Rightarrow> to_lower c = to_lower code)"

definition partner_by_code :: "string \<Rightarrow> partner_row list \<Rightarrow> partner_row option" where
  "partner_by_code code partners = find (\<lambda>p. has_code code p \<and> pt_deletedAt p = None) partners"

definition well_coded :: "partner_row list \<Rightarrow> bool" where
  "well_coded ps \<longleftrightarrow> keys_unique pt_id ps \<and>
    distinct (map pt_referralCode (filter (\<lambda>p. pt_referralCode p \<noteq> None) ps)) \<and>
    (\<forall>p \<in> set ps. \<forall>c. pt_referralCode p = Some c \<longrightarrow> referralCodeSchema c = Some c)"

lemma upper_not_lower: "to_upper c = c \<Longrightarrow> to_upper d = d \<Longrightarrow> to_lower c = to_lower d \<Longrightarrow> c = d"
proof (induction c arbitrary: d)
  case Nil
  then show ?case by (simp add: to_lower_def)
next
  case (Cons x c)
  then obtain y e where d: "d = y # e" by (cases d) (auto simp: to_lower_def)
  have "lower_char x = lower_char y" "upper_char x = x" "upper_char y = y"
    using Cons.prems by (auto simp: d to_lower_def to_upper_def)
  then have "x = y"
    by (auto simp: lower_char_def upper_char_def is_upper_def is_lower_def split: if_splits)
  then show ?case using Cons by (auto simp: d to_lower_def to_upper_def)
qed

lemma trim_no_space: "\<forall>x \<in> set w. \<not> is_space x \<Longrightarrow> js_trim w = w"
proof -
  assume w: "\<forall>x \<in> set w. \<not> is_space x"
  have "dropWhile is_space v = v" if "set v \<subseteq> set w" for v using w that by (cases v) auto
  then show ?thesis by (simp add: js_trim_def)
qed

lemma to_upper_id: "list_all (\<lambda>c. c \<in> set CODE_ALPHABET) c \<Longrightarrow> to_upper c = c \<and> js_trim c = c"
proof -
  assume c: "list_all (\<lambda>c. c \<in> set CODE_ALPHABET) c"
  have "upper_char x = x \<and> \<not> is_space x" if "x \<in> set CODE_ALPHABET" for x
    using that by (auto simp: CODE_ALPHABET_def upper_char_def is_lower_def is_space_def)
  then have "\<forall>x \<in> set c. upper_char x = x \<and> \<not> is_space x" using c by (auto simp: list_all_iff)
  then show ?thesis by (simp add: to_upper_def map_idI trim_no_space)
qed

lemma well_coded_upper: "well_coded ps \<Longrightarrow> p \<in> set ps \<Longrightarrow> pt_referralCode p = Some c \<Longrightarrow> to_upper c = c"
proof -
  assume "well_coded ps" "p \<in> set ps" "pt_referralCode p = Some c"
  then have "referralCodeSchema c = Some c" by (auto simp: well_coded_def)
  then have "list_all (\<lambda>c. c \<in> set CODE_ALPHABET) c" by (auto simp: referralCodeSchema_def Let_def split: if_splits)
  then show ?thesis by (simp add: to_upper_id)
qed

lemma generated_code_ok:
  assumes "\<And>k n. 0 < n \<Longrightarrow> pick k n < n"
  shows "referralCodeSchema (generateReferralCode pick REFERRAL_CODE_LENGTH) = Some (generateReferralCode pick REFERRAL_CODE_LENGTH)"
proof -
  let ?c = "generateReferralCode pick REFERRAL_CODE_LENGTH"
  have "CODE_ALPHABET ! pick k (length CODE_ALPHABET) \<in> set CODE_ALPHABET" for k
    using assms [of "length CODE_ALPHABET" k] by (intro nth_mem) (simp add: CODE_ALPHABET_def)
  then have a: "list_all (\<lambda>c. c \<in> set CODE_ALPHABET) ?c" by (simp add: generateReferralCode_def list_all_iff)
  then show ?thesis
    using to_upper_id [OF a] by (simp add: referralCodeSchema_def Let_def) (simp add: generateReferralCode_def REFERRAL_CODE_LENGTH_def)
qed

lemma issue_attempts_Inr:
  assumes "issue_attempts pick k n i s = Inr (code, s')" and "\<And>k n. 0 < n \<Longrightarrow> pick k n < n"
  shows "referralCodeSchema code = Some code \<and> Some code \<notin> pt_referralCode ` set (ps_partners s) \<and>
    s' = s\<lparr>ps_partners := update_by pt_id i (\<lambda>p. p\<lparr>pt_referralCode := Some code\<rparr>) (ps_partners s)\<rparr>"
  using assms(1)
proof (induction n arbitrary: k)
  case 0
  then show ?case by simp
next
  case (Suc n)
  let ?c = "generateReferralCode (\<lambda>j. pick (k + j)) REFERRAL_CODE_LENGTH"
  have "referralCodeSchema ?c = Some ?c" by (rule generated_code_ok) (rule assms(2))
  then show ?case using Suc by (auto simp: Let_def list_ex_iff split: if_splits)
qed

lemma distinct_update_code:
  assumes "keys_unique pt_id ps" and "distinct (map pt_referralCode (filter (\<lambda>p. pt_referralCode p \<noteq> None) ps))"
    and "Some code \<notin> pt_referralCode ` set ps"
  shows "distinct (map pt_referralCode (filter (\<lambda>p. pt_referralCode p \<noteq> None)
    (update_by pt_id i (\<lambda>p. p\<lparr>pt_referralCode := Some code\<rparr>) ps)))"
  using assms
proof (induction ps)
  case Nil
  then show ?case by (simp add: update_by_def)
next
  case (Cons p ps)
  have ks: "keys_unique pt_id ps" "pt_id p \<notin> pt_id ` set ps" using Cons.prems(1) by (auto simp: keys_unique_def)
  show ?case
  proof (cases "pt_id p = i")
    case True
    then have "update_by pt_id i (\<lambda>p. p\<lparr>pt_referralCode := Some code\<rparr>) ps = ps" using ks(2) by (simp add: update_by_absent)
    then show ?thesis using True Cons.prems by (auto simp: update_by_def split: if_splits)
  next
    case False
    have old: "pt_referralCode q = Some code \<or> (\<exists>r \<in> set ps. pt_referralCode q = pt_referralCode r)"
      if "q \<in> set (update_by pt_id i (\<lambda>p. p\<lparr>pt_referralCode := Some code\<rparr>) ps)" for q
      using that by (auto simp: update_by_def set_update_where split: if_splits)
    have ih: "distinct (map pt_referralCode (filter (\<lambda>p. pt_referralCode p \<noteq> None)
        (update_by pt_id i (\<lambda>p. p\<lparr>pt_referralCode := Some code\<rparr>) ps)))"
      using Cons.IH Cons.prems ks by (auto split: if_splits)
    have "pt_referralCode p \<notin> pt_referralCode ` set (filter (\<lambda>p. pt_referralCode p \<noteq> None)
        (update_by pt_id i (\<lambda>p. p\<lparr>pt_referralCode := Some code\<rparr>) ps))" if "pt_referralCode p \<noteq> None"
    proof
      assume "pt_referralCode p \<in> pt_referralCode ` set (filter (\<lambda>p. pt_referralCode p \<noteq> None)
        (update_by pt_id i (\<lambda>p. p\<lparr>pt_referralCode := Some code\<rparr>) ps))"
      then obtain q where "q \<in> set (update_by pt_id i (\<lambda>p. p\<lparr>pt_referralCode := Some code\<rparr>) ps)"
        "pt_referralCode q = pt_referralCode p" by auto
      then show False using old [of q] Cons.prems(2,3) that by force
    qed
    then show ?thesis using False ih by (auto simp: update_by_def)
  qed
qed

lemma issueCode_keeps_well_coded:
  assumes "issueCode pick i s = Inr (code, s')" and "\<And>k n. 0 < n \<Longrightarrow> pick k n < n" and "well_coded (ps_partners s)"
  shows "well_coded (ps_partners s')"
proof -
  have new: "referralCodeSchema code = Some code" "Some code \<notin> pt_referralCode ` set (ps_partners s)"
    "ps_partners s' = update_by pt_id i (\<lambda>p. p\<lparr>pt_referralCode := Some code\<rparr>) (ps_partners s)"
    using issue_attempts_Inr [OF assms(1) [unfolded issueCode_def] assms(2)] by simp_all
  then show ?thesis
    using assms(3) distinct_update_code [OF _ _ new(2)]
    by (auto simp: well_coded_def update_by_def set_update_where split: if_splits)
qed

lemma well_coded_same:
  assumes w: "well_coded ps" and p: "p \<in> set ps" "pt_referralCode p = Some c"
    and q: "q \<in> set ps" "pt_referralCode q = Some d" and "to_lower d = to_lower c"
  shows "q = p"
proof -
  have "d = c" using assms(6) by (rule upper_not_lower [OF well_coded_upper [OF w q] well_coded_upper [OF w p]])
  then have eq: "pt_referralCode q = pt_referralCode p" using p q by simp
  have inj: "inj_on pt_referralCode {x \<in> set ps. pt_referralCode x \<noteq> None}"
    using w by (simp add: well_coded_def distinct_map)
  show ?thesis by (rule inj_onD [OF inj eq]) (use p q in simp_all)
qed

lemma partner_by_code_exact:
  assumes w: "well_coded ps" and p: "p \<in> set ps" "pt_referralCode p = Some c" "pt_deletedAt p = None"
  shows "partner_by_code c ps = Some p"
proof -
  have one: "q = p" if q: "q \<in> set ps" "has_code c q" for q
    using well_coded_same [OF w p(1,2) q(1)] q(2) by (auto simp: has_code_def split: option.splits)
  have "has_code c p \<and> pt_deletedAt p = None" using p by (simp add: has_code_def)
  then obtain q where "partner_by_code c ps = Some q" using p(1) unfolding partner_by_code_def
    by (metis (mono_tags, lifting) find_None_iff not_None_eq)
  moreover have "q = p" by (rule one) (use calculation in \<open>auto simp: partner_by_code_def find_Some_iff\<close>)
  ultimately show ?thesis by simp
qed

lemma rotated_code_is_dead:
  assumes "rotateReferralCode pick origin i reason s = Inr ((code, url), s')" and "well_coded (ps_partners s)"
    and "\<And>k n. 0 < n \<Longrightarrow> pick k n < n"
    and "find_by pt_id i (ps_partners s) = Some p" "pt_referralCode p = Some old"
  shows "partner_by_code old (ps_partners s') = None \<and> old \<noteq> code"
proof -
  obtain s1 where issue: "issueCode pick i s = Inr (code, s1)" and s': "s' = partner_audit ''UPDATE'' (Some reason) i s1"
    using assms(1) by (auto simp: rotateReferralCode_def live_partner_def and_then_Inr find_Some_iff split: option.splits)
  note new = issue_attempts_Inr [OF issue [unfolded issueCode_def] assms(3)]
  have p: "p \<in> set (ps_partners s)" "pt_id p = i" using assms(4) by (auto dest: find_by_SomeD)
  have ps: "ps_partners s' = update_by pt_id i (\<lambda>p. p\<lparr>pt_referralCode := Some code\<rparr>) (ps_partners s)"
    using new by (simp add: s' partner_audit_def)
  have w: "well_coded (ps_partners s')" using issueCode_keeps_well_coded [OF issue assms(3,2)] by (simp add: s' partner_audit_def)
  have ne: "old \<noteq> code" using new p(1) assms(5) by force
  have up: "to_upper old = old" "to_upper code = code"
    using well_coded_upper [OF assms(2) p(1) assms(5)] well_coded_upper [OF w, of "p\<lparr>pt_referralCode := Some code\<rparr>" code] p
    by (auto simp: ps update_by_def set_update_where image_iff)
  have "\<not> has_code old q" if q: "q \<in> set (ps_partners s')" for q
  proof
    assume "has_code old q"
    then obtain d where d: "pt_referralCode q = Some d" "to_lower d = to_lower old" by (auto simp: has_code_def split: option.splits)
    obtain r where r: "r \<in> set (ps_partners s)" "q = (if pt_id r = i then r\<lparr>pt_referralCode := Some code\<rparr> else r)"
      using q by (auto simp: ps update_by_def set_update_where)
    show False
    proof (cases "pt_id r = i")
      case True
      then have "d = code" using d(1) r(2) by simp
      then have "code = old" using d(2) by (intro upper_not_lower [OF up(2,1)]) simp
      then show False using ne by simp
    next
      case False
      then have "r = p" using well_coded_same [OF assms(2) p(1) assms(5) r(1)] d r(2) by simp
      then show False using False p(2) by simp
    qed
  qed
  then show ?thesis using ne by (auto simp: partner_by_code_def find_None_iff)
qed

lemma code_encodes_itself:
  assumes "referralCodeSchema code = Some code"
  shows "encodeURIComponent code = code" and "CHR ''/'' \<notin> set code"
proof -
  have code: "set code \<subseteq> set CODE_ALPHABET"
    using assms by (auto simp: referralCodeSchema_def Let_def list_all_iff split: if_splits)
  have safe: "list_all (\<lambda>c. unreserved c \<and> c \<noteq> CHR ''/'') CODE_ALPHABET" by code_simp
  have "encode_char c = [c] \<and> c \<noteq> CHR ''/''" if "c \<in> set code" for c
    using that code safe by (auto simp: list_all_iff encode_char_def)
  then show "encodeURIComponent code = code" and "CHR ''/'' \<notin> set code"
    by (induction code) (auto simp: encodeURIComponent_def)
qed

text \<open>
  C25. Links are stable and lead to their partner. Suppose codes are apart, as they are in every table
  the service has written. When a partner's link is handed out, the codes are still apart; the link
  is the partner path of the site followed by one segment that decodes to the code; the code leads
  from the form to exactly that partner and to no other, passes the schema that reads it back, and
  asking again gives the same link and changes nothing.
\<close>

theorem referral_link_leads_home:
  assumes "referralLink pick origin user who s = Inr (link, s')" and "well_coded (ps_partners s)"
    and "\<And>k n. 0 < n \<Longrightarrow> pick k n < n"
  shows "well_coded (ps_partners s') \<and>
    (\<exists>p segment. rl_url link = origin @ ''/join/p/'' @ segment \<and> CHR ''/'' \<notin> set segment \<and>
       decodeURIComponent segment = rl_code link \<and>
       partner_by_code (decodeURIComponent segment) (ps_partners s') = Some p \<and>
       or_else who (pr_partnerId user) = Some (pt_id p)) \<and>
    referralCodeSchema (rl_code link) = Some (rl_code link) \<and>
    referralLink pick' origin user who s' = Inr (link, s')"
proof -
  obtain i where i: "or_else who (pr_partnerId user) = Some i" "i \<noteq> []"
    "truthy (pr_partnerId user) \<longrightarrow> pr_partnerId user = Some i"
    using assms(1) by (auto simp: referralLink_def truthy_def Let_def split: if_splits)
  obtain p where p: "find (\<lambda>p. pt_id p = i \<and> pt_deletedAt p = None) (ps_partners s) = Some p"
    using assms(1) i by (auto simp: referralLink_def truthy_def Let_def live_partner_def split: if_splits option.splits)
  have in_p: "p \<in> set (ps_partners s)" "pt_id p = i" "pt_deletedAt p = None" using p by (auto simp: find_Some_iff)
  obtain code where link: "link = \<lparr>rl_code = code, rl_url = captureUrl origin PARTNER_LINK code, rl_partnerName = pt_name p,
      rl_active = (pt_status p = ACTIVE_PARTNER)\<rparr>"
    and code: "(pt_referralCode p = Some code \<and> s' = s) \<or> (pt_referralCode p = None \<and> issueCode pick i s = Inr (code, s'))"
    using assms(1) i p in_p
    by (auto simp: referralLink_def truthy_def Let_def live_partner_def and_then_Inr split: if_splits option.splits)
  let ?p = "p\<lparr>pt_referralCode := Some code\<rparr>"
  have w: "well_coded (ps_partners s')"
    using code assms(2) issueCode_keeps_well_coded [OF _ assms(3,2)] by auto
  have after: "ps_partners s' = update_by pt_id i (\<lambda>p. p\<lparr>pt_referralCode := Some code\<rparr>) (ps_partners s) \<or>
      (pt_referralCode p = Some code \<and> s' = s)"
    using code issue_attempts_Inr [of pick 0 CODE_ATTEMPTS i s code s'] assms(3) by (auto simp: issueCode_def)
  have same: "?p = p" if "pt_referralCode p = Some code" using that by simp
  have mem: "?p \<in> set (ps_partners s')"
    using after
  proof
    assume "ps_partners s' = update_by pt_id i (\<lambda>p. p\<lparr>pt_referralCode := Some code\<rparr>) (ps_partners s)"
    then show ?thesis using in_p by (auto simp: update_by_def set_update_where image_iff)
  next
    assume "pt_referralCode p = Some code \<and> s' = s"
    then show ?thesis using in_p(1) by (subst same) simp_all
  qed
  have found: "find (\<lambda>p. pt_id p = i \<and> pt_deletedAt p = None) (ps_partners s') = Some ?p"
  proof (cases "pt_referralCode p = Some code \<and> s' = s")
    case True
    then show ?thesis using p same by simp
  next
    case False
    then have eq: "ps_partners s' = update_by pt_id i (\<lambda>p. p\<lparr>pt_referralCode := Some code\<rparr>) (ps_partners s)" using after by blast
    show ?thesis unfolding eq update_by_def update_where_def
      by (subst find_map_same) (simp_all add: p in_p)
  qed
  have "partner_by_code code (ps_partners s') = Some ?p"
    by (rule partner_by_code_exact [OF w mem]) (simp_all add: in_p)
  moreover have schema: "referralCodeSchema code = Some code"
    using w mem by (auto simp: well_coded_def)
  moreover have "rl_url link = origin @ ''/join/p/'' @ code"
    by (simp add: link captureUrl_def code_encodes_itself [OF schema])
  moreover have "decodeURIComponent code = code"
    using decode_encode [of code] by (simp add: code_encodes_itself [OF schema])
  moreover note code_encodes_itself(2) [OF schema]
  moreover have "referralLink pick' origin user who s' = Inr (link, s')"
    using i found by (auto simp: referralLink_def truthy_def live_partner_def link Let_def)
  ultimately show ?thesis
    using w i in_p by (intro conjI exI [of _ ?p] exI [of _ code]) (simp_all add: link)
qed

definition demo_partners :: partner_state where
  "demo_partners = \<lparr>ps_partners = [
     \<lparr>pt_id = ''p1'', pt_name = ''Trinetra'', pt_status = ACTIVE_PARTNER, pt_referralCode = Some ''KM7QPR42'',
      pt_commissionRate = Some (5 / 2), pt_deletedAt = None\<rparr>,
     \<lparr>pt_id = ''p2'', pt_name = ''Navkar'', pt_status = ACTIVE_PARTNER, pt_referralCode = None,
      pt_commissionRate = None, pt_deletedAt = None\<rparr>], ps_crm = demo_lead_state\<rparr>"

definition demo_pick :: "nat \<Rightarrow> nat \<Rightarrow> nat" where
  "demo_pick k n = (3 * k) mod n"

definition demo_admin :: principal where
  "demo_admin = demo_rep\<lparr>pr_partnerId := None\<rparr>"

lemma referral_link_leads_home_witness:
  "(case referralLink demo_pick ''https://sihl.in'' demo_admin (Some ''p2'') demo_partners of
      Inl _ \<Rightarrow> False
    | Inr (link, s) \<Rightarrow> rl_url link = ''https://sihl.in/join/p/ADGKPSVY'' \<and>
        map pt_id (filter (has_code (rl_code link)) (ps_partners s)) = [''p2''] \<and>
        referralLink demo_pick ''https://sihl.in'' demo_admin (Some ''p2'') s = Inr (link, s))"
proof -
  let ?r = "referralLink demo_pick ''https://sihl.in'' demo_admin (Some ''p2'') demo_partners"
  have "\<not> isl ?r" by code_simp
  then obtain link s where run: "?r = Inr (link, s)" by (cases ?r) auto
  have "rl_url (fst (projr ?r)) = ''https://sihl.in/join/p/ADGKPSVY''" by code_simp
  then have url: "rl_url link = ''https://sihl.in/join/p/ADGKPSVY''" by (simp add: run)
  have "map pt_id (filter (has_code (rl_code (fst (projr ?r)))) (ps_partners (snd (projr ?r)))) = [''p2'']" by code_simp
  then have one: "map pt_id (filter (has_code (rl_code link)) (ps_partners s)) = [''p2'']" by (simp add: run)
  have "keys_unique pt_id (ps_partners demo_partners)" by code_simp
  moreover have "distinct (map pt_referralCode (filter (\<lambda>p. pt_referralCode p \<noteq> None) (ps_partners demo_partners)))" by code_simp
  moreover have "referralCodeSchema ''KM7QPR42'' = Some ''KM7QPR42''" by code_simp
  ultimately have w: "well_coded (ps_partners demo_partners)" by (auto simp: well_coded_def demo_partners_def)
  have "demo_pick k n < n" if "0 < n" for k n using that by (simp add: demo_pick_def)
  from referral_link_leads_home [OF run w this, of demo_pick] show ?thesis
    using url one by (simp add: run)
qed

end
