(* ===== verification/Events.thy ===== *)
theory Events
  imports Partners
begin

text \<open>
  Events and the codes on their banners: \<open>modules/events/events.service.ts\<close>, the resolver of the codes
  on a public form (\<open>modules/events/capture-code.service.ts\<close>) and \<open>packages/contracts/src/event.ts\<close>.
  An event that is being looked at is summed up in the numbers of its page; names, venues and labels
  of the page are left out.
\<close>

section \<open>The event and its states\<close>

datatype event_status = PLANNED_EVENT | RUNNING_EVENT | COMPLETED_EVENT | CANCELLED_EVENT

fun EVENT_STATUS_TRANSITIONS :: "event_status \<Rightarrow> event_status list" where
  "EVENT_STATUS_TRANSITIONS PLANNED_EVENT = [RUNNING_EVENT, CANCELLED_EVENT]"
| "EVENT_STATUS_TRANSITIONS RUNNING_EVENT = [COMPLETED_EVENT, CANCELLED_EVENT]"
| "EVENT_STATUS_TRANSITIONS COMPLETED_EVENT = []"
| "EVENT_STATUS_TRANSITIONS CANCELLED_EVENT = []"

definition canTransitionEvent :: "event_status \<Rightarrow> event_status \<Rightarrow> bool" where
  "canTransitionEvent origin target \<longleftrightarrow> target \<in> set (EVENT_STATUS_TRANSITIONS origin)"

definition event_end :: "time \<Rightarrow> time option \<Rightarrow> time" where
  "event_end startsAt endsAt = (case endsAt of None \<Rightarrow> startsAt + DAY_MS | Some t \<Rightarrow> t)"

definition eventAcceptsCaptures :: "event_status \<Rightarrow> (time \<times> time option) option \<Rightarrow> time \<Rightarrow> bool" where
  "eventAcceptsCaptures status schedule now =
    (if status = COMPLETED_EVENT \<or> status = CANCELLED_EVENT then False
     else if status = RUNNING_EVENT then True
     else case schedule of None \<Rightarrow> False
       | Some (startsAt, endsAt) \<Rightarrow> startsAt \<le> now \<and> now \<le> event_end startsAt endsAt)"

text \<open>\<open>eventCodeSchema\<close>: trimmed, lower case, three to sixty letters, digits and hyphens.\<close>

definition event_code_char :: "char \<Rightarrow> bool" where
  "event_code_char c \<longleftrightarrow> is_lower c \<or> is_digit c"

definition eventCodeSchema :: "string \<Rightarrow> string option" where
  "eventCodeSchema raw =
    (let code = to_lower (js_trim raw)
     in if 3 \<le> length code \<and> length code \<le> 60 \<and> event_code_char (hd code) \<and>
           list_all (\<lambda>c. event_code_char c \<or> c = CHR ''-'') (tl code)
        then Some code else None)"

record event_row =
  ew_id :: string
  ew_reference :: string
  ew_name :: string
  ew_code :: string
  ew_status :: event_status
  ew_venue :: "string option"
  ew_city :: "string option"
  ew_startsAt :: time
  ew_endsAt :: "time option"
  ew_expectedFootfall :: "int option"
  ew_ownerId :: "string option"
  ew_orgUnitId :: "string option"
  ew_campaignId :: "string option"
  ew_allowsPresentationBooking :: bool
  ew_createdById :: "string option"
  ew_deletedAt :: "time option"

record event_state = partner_state +
  es_events :: "event_row list"

interpretation event_table: repository "find_by ew_id" "update_by ew_id" insert_row ew_id
  by (rule repository_by)

definition event_audit :: "string \<Rightarrow> string \<Rightarrow> string \<Rightarrow> 'a event_state_scheme \<Rightarrow> 'a event_state_scheme" where
  "event_audit action resource i s =
    s\<lparr>ps_crm := (ps_crm s)\<lparr>cr_audit := insert_row (audit_entry action resource i) (cr_audit (ps_crm s))\<rparr>\<rparr>"

definition live_event :: "string \<Rightarrow> 'a event_state_scheme \<Rightarrow> event_row result" where
  "live_event i s =
    (case find (\<lambda>e. ew_id e = i \<and> ew_deletedAt e = None) (es_events s) of
       None \<Rightarrow> Inl (NotFound ''Event not found'')
     | Some e \<Rightarrow> Inr e)"

section \<open>Who sees an event\<close>

definition seesEverything :: "principal \<Rightarrow> bool" where
  "seesEverything user \<longleftrightarrow> ''campaign:read'' \<in> set (pr_permissions user)"

definition repEventFilter :: "principal \<Rightarrow> event_row \<Rightarrow> bool" where
  "repEventFilter user e \<longleftrightarrow>
    (case ew_orgUnitId e of None \<Rightarrow> True
     | Some unit \<Rightarrow> unit \<in> set (pathIds (case pr_orgUnitPath user of None \<Rightarrow> [] | Some p \<Rightarrow> p))) \<and>
    (ew_status e = PLANNED_EVENT \<or> ew_status e = RUNNING_EVENT)"

definition event_in_reach :: "principal \<Rightarrow> event_row \<Rightarrow> bool" where
  "event_in_reach user e \<longleftrightarrow> ew_deletedAt e = None \<and> (seesEverything user \<or> repEventFilter user e)"

section \<open>The page of an event\<close>

definition own_capture :: "principal \<Rightarrow> lead_row \<Rightarrow> bool" where
  "own_capture user l \<longleftrightarrow> seesEverything user \<or> l_capturedById l = Some (pr_id user)"

definition event_lead :: "principal \<Rightarrow> string \<Rightarrow> lead_row \<Rightarrow> bool" where
  "event_lead user i l \<longleftrightarrow> l_eventId l = Some i \<and> l_deletedAt l = None \<and> own_capture user l"

definition UNCONTACTED :: "lead_status list" where
  "UNCONTACTED = [NEW]"

text \<open>\<open>groupBy\<close> one column with a count of the rows, in the order the database returns the groups.\<close>

definition group_counts :: "('r \<Rightarrow> 'k) \<Rightarrow> 'r list \<Rightarrow> ('k \<times> nat) list" where
  "group_counts key rows = map (\<lambda>k. (k, count_where (\<lambda>r. key r = k) rows)) (js_set (map key rows))"

definition sum_counts :: "('k \<times> nat) list \<Rightarrow> nat" where
  "sum_counts groups = foldl (\<lambda>total (k, n). total + n) 0 groups"

record event_detail =
  ed_id :: string
  ed_code :: string
  ed_leads :: nat
  ed_converted :: nat
  ed_allowedTransitions :: "event_status list"
  ed_pipeline :: "(lead_status \<times> nat) list"
  ed_uncontacted :: nat
  ed_assignedLeads :: nat
  ed_unassignedLeads :: nat
  ed_scopedToViewer :: bool
  ed_captureUrl :: string
  ed_myCaptureUrl :: "string option"
  ed_attended :: nat
  ed_returningAttendees :: nat
  ed_conversionRate :: rat

definition employee_code_of :: "account list \<Rightarrow> principal \<Rightarrow> string option" where
  "employee_code_of users user =
    (if pr_isService user then None else Option.bind (find_by u_id (pr_id user) users) u_employeeCode)"

definition attended_event :: "principal \<Rightarrow> crm \<Rightarrow> string \<Rightarrow> lead_row \<Rightarrow> bool" where
  "attended_event user s i l \<longleftrightarrow> l_deletedAt l = None \<and> own_capture user l \<and>
    (l_eventId l = Some i \<or> list_ex (\<lambda>a. ea_leadId a = l_id l \<and> ea_eventId a = i) (cr_attendance s))"

definition event_numbers :: "string \<Rightarrow> account list \<Rightarrow> principal \<Rightarrow> event_row \<Rightarrow> crm \<Rightarrow> event_detail" where
  "event_numbers origin users user e s =
    (let i = ew_id e; byStatus = group_counts l_status (filter (event_lead user i) (cr_leads s));
         total = sum_counts byStatus;
         converted = sum_counts (filter (\<lambda>(status, n). status = CONVERTED) byStatus);
         everyone = (\<lambda>l. l_eventId l = Some i \<and> l_deletedAt l = None);
         employeeCode = employee_code_of users user
     in \<lparr>ed_id = i, ed_code = ew_code e, ed_leads = total, ed_converted = converted,
         ed_allowedTransitions = EVENT_STATUS_TRANSITIONS (ew_status e),
         ed_pipeline = js_sort (\<lambda>a b. int (snd b) - int (snd a)) byStatus,
         ed_uncontacted = sum_counts (filter (\<lambda>(status, n). status \<in> set UNCONTACTED) byStatus),
         ed_assignedLeads = (if seesEverything user then count_where (\<lambda>l. everyone l \<and> l_capturedById l \<noteq> None) (cr_leads s) else total),
         ed_unassignedLeads = (if seesEverything user then count_where (\<lambda>l. everyone l \<and> l_capturedById l = None) (cr_leads s) else 0),
         ed_scopedToViewer = (\<not> seesEverything user),
         ed_captureUrl = captureUrl origin EVENT_LINK (ew_code e),
         ed_myCaptureUrl = (if truthy employeeCode then Some (repCaptureUrl origin (ew_code e) (the employeeCode)) else None),
         ed_attended = count_where (attended_event user s i) (cr_leads s),
         ed_returningAttendees = (if seesEverything user
           then count_where (\<lambda>a. ea_eventId a = i \<and> ea_returning a) (cr_attendance s) else 0),
         ed_conversionRate = (if total > 0 then of_int (js_round (of_nat converted / of_nat total * 1000)) / 10 else 0)\<rparr>)"

definition findOne_event :: "string \<Rightarrow> account list \<Rightarrow> principal \<Rightarrow> string \<Rightarrow> 'a event_state_scheme \<Rightarrow> event_detail result" where
  "findOne_event origin users user i s =
    (case find (\<lambda>e. ew_id e = i \<and> event_in_reach user e) (es_events s) of
       None \<Rightarrow> Inl (NotFound ''Event not found'')
     | Some e \<Rightarrow> Inr (event_numbers origin users user e (ps_crm s)))"

record rep_breakdown =
  rb_userId :: "string option"
  rb_fullName :: string
  rb_employeeCode :: "string option"
  rb_verified :: nat
  rb_unverified :: int
  rb_total :: nat

definition person_name :: "account \<Rightarrow> string" where
  "person_name u = js_trim (u_firstName u @ '' '' @ u_lastName u)"

text \<open>
  The rows of a map keyed by the rep, the empty string standing for nobody (no user has it as id). \<open>verifiedBy\<close> is a second
  grouped count, over the leads whose number has been proven.
\<close>

definition breakdown_row :: "account list \<Rightarrow> (string option \<times> nat) list \<Rightarrow> string option \<times> nat \<Rightarrow> rep_breakdown" where
  "breakdown_row users verifiedBy entry =
    (let (rep, total) = entry;
         person = (if truthy rep then find_by u_id (the rep) users else None);
         verified = (case map_of (rev (map (\<lambda>(k, n). (case k of None \<Rightarrow> [] | Some i \<Rightarrow> i, n)) verifiedBy)) (case rep of None \<Rightarrow> [] | Some i \<Rightarrow> i)
           of None \<Rightarrow> 0 | Some n \<Rightarrow> n)
     in \<lparr>rb_userId = rep,
         rb_fullName = (case person of Some u \<Rightarrow> person_name u
           | None \<Rightarrow> if truthy rep then ''Removed user'' else ''Unassigned Leads''),
         rb_employeeCode = Option.bind person u_employeeCode,
         rb_verified = verified, rb_unverified = int total - int verified, rb_total = total\<rparr>)"

definition busiest_first :: "rep_breakdown \<Rightarrow> rep_breakdown \<Rightarrow> int" where
  "busiest_first a b =
    (if \<not> truthy (rb_userId a) then 1 else if \<not> truthy (rb_userId b) then -1
     else int (rb_total b) - int (rb_total a))"

definition byRep :: "account list \<Rightarrow> principal \<Rightarrow> string \<Rightarrow> 'a event_state_scheme \<Rightarrow> rep_breakdown list result" where
  "byRep users user i s =
    (if find (\<lambda>e. ew_id e = i \<and> event_in_reach user e) (es_events s) = None then Inl (NotFound ''Event not found'')
     else
       let leads = filter (event_lead user i) (cr_leads (ps_crm s));
           grouped = group_counts l_capturedById leads;
           verifiedBy = group_counts l_capturedById (filter (\<lambda>l. l_mobileVerifiedAt l \<noteq> None) leads)
       in Inr (js_sort busiest_first (map (breakdown_row users verifiedBy) grouped)))"

section \<open>Creating, editing and moving an event\<close>

record create_event_input =
  ce_name :: string
  ce_code :: string
  ce_venue :: "string option"
  ce_city :: "string option"
  ce_startsAt :: time
  ce_endsAt :: "time option"
  ce_expectedFootfall :: "int option"
  ce_ownerId :: "string option"
  ce_orgUnitId :: "string option"
  ce_campaignId :: "string option"

text \<open>What the schemas let through, the code already trimmed and lowered by its own.\<close>

definition ends_after :: "time \<Rightarrow> time option \<Rightarrow> bool" where
  "ends_after startsAt endsAt \<longleftrightarrow> (case endsAt of None \<Rightarrow> True | Some t \<Rightarrow> startsAt \<le> t)"

definition createEventSchema :: "create_event_input \<Rightarrow> bool" where
  "createEventSchema input \<longleftrightarrow>
    3 \<le> length (ce_name input) \<and> length (ce_name input) \<le> 160 \<and> eventCodeSchema (ce_code input) = Some (ce_code input) \<and>
    (case ce_expectedFootfall input of None \<Rightarrow> True | Some n \<Rightarrow> 0 \<le> n \<and> n \<le> 1000000) \<and>
    ends_after (ce_startsAt input) (ce_endsAt input)"

definition assertCodeIsFree :: "string \<Rightarrow> 'a event_state_scheme \<Rightarrow> unit result" where
  "assertCodeIsFree code s =
    (if find_by ew_code code (es_events s) \<noteq> None then Inl (Conflict ''That event code is taken'')
     else if list_ex (\<lambda>p. case pt_referralCode p of None \<Rightarrow> False | Some c \<Rightarrow> to_lower c = to_lower code) (ps_partners s)
       then Inl (Conflict ''That code is taken'')
     else Inr ())"

definition new_event :: "principal \<Rightarrow> string \<Rightarrow> string \<Rightarrow> create_event_input \<Rightarrow> event_row" where
  "new_event user i reference input =
    \<lparr>ew_id = i, ew_reference = reference, ew_name = ce_name input, ew_code = ce_code input, ew_status = PLANNED_EVENT,
     ew_venue = ce_venue input, ew_city = ce_city input, ew_startsAt = ce_startsAt input, ew_endsAt = ce_endsAt input,
     ew_expectedFootfall = ce_expectedFootfall input, ew_ownerId = or_else (ce_ownerId input) (Some (pr_id user)),
     ew_orgUnitId = or_else (ce_orgUnitId input) (pr_orgUnitId user), ew_campaignId = ce_campaignId input,
     ew_allowsPresentationBooking = False, ew_createdById = Some (pr_id user), ew_deletedAt = None\<rparr>"

definition on_event_crm :: "(crm \<Rightarrow> crm) \<Rightarrow> 'a event_state_scheme \<Rightarrow> 'a event_state_scheme" where
  "on_event_crm f s = s\<lparr>ps_crm := f (ps_crm s)\<rparr>"

definition create_event ::
    "principal \<Rightarrow> string \<Rightarrow> string \<Rightarrow> create_event_input \<Rightarrow> 'a event_state_scheme \<Rightarrow> 'a event_state_scheme result" where
  "create_event user i reference input s =
    and_then (assertCodeIsFree (ce_code input) s) (\<lambda>_.
      Inr (event_audit ''CREATE'' ''event'' i (on_event_crm (publish i ''event.created'')
        (s\<lparr>es_events := insert_row (new_event user i reference input) (es_events s)\<rparr>))))"

text \<open>A field that is absent is \<open>None\<close>; one that may be cleared carries the new value or nothing inside.\<close>

record update_event_input =
  ue_name :: "string option"
  ue_venue :: "string option option"
  ue_city :: "string option option"
  ue_startsAt :: "time option"
  ue_endsAt :: "time option option"
  ue_expectedFootfall :: "int option option"
  ue_ownerId :: "string option option"
  ue_campaignId :: "string option option"

definition given :: "'a option \<Rightarrow> 'a \<Rightarrow> 'a" where
  "given new old = (case new of None \<Rightarrow> old | Some v \<Rightarrow> v)"

definition edit_event :: "update_event_input \<Rightarrow> event_row \<Rightarrow> event_row" where
  "edit_event input e =
    e\<lparr>ew_name := given (ue_name input) (ew_name e), ew_venue := given (ue_venue input) (ew_venue e),
      ew_city := given (ue_city input) (ew_city e), ew_startsAt := given (ue_startsAt input) (ew_startsAt e),
      ew_endsAt := given (ue_endsAt input) (ew_endsAt e),
      ew_expectedFootfall := given (ue_expectedFootfall input) (ew_expectedFootfall e),
      ew_ownerId := given (ue_ownerId input) (ew_ownerId e), ew_campaignId := given (ue_campaignId input) (ew_campaignId e)\<rparr>"

definition update_event :: "string \<Rightarrow> update_event_input \<Rightarrow> 'a event_state_scheme \<Rightarrow> 'a event_state_scheme result" where
  "update_event i input s =
    and_then (live_event i s) (\<lambda>before.
    let startsAt = given (ue_startsAt input) (ew_startsAt before); endsAt = given (ue_endsAt input) (ew_endsAt before) in
    if \<not> ends_after startsAt endsAt then Inl (BadRequest ''Invalid times'')
    else Inr (event_audit ''UPDATE'' ''event'' i (s\<lparr>es_events := update_by ew_id i (edit_event input) (es_events s)\<rparr>)))"

fun event_type_of :: "event_status \<Rightarrow> string" where
  "event_type_of PLANNED_EVENT = ''event.planned''"
| "event_type_of RUNNING_EVENT = ''event.running''"
| "event_type_of COMPLETED_EVENT = ''event.completed''"
| "event_type_of CANCELLED_EVENT = ''event.cancelled''"

definition changeStatus_event :: "string \<Rightarrow> event_status \<Rightarrow> 'a event_state_scheme \<Rightarrow> 'a event_state_scheme result" where
  "changeStatus_event i status s =
    and_then (live_event i s) (\<lambda>e.
    if ew_status e = status then Inr s
    else if \<not> canTransitionEvent (ew_status e) status then Inl (BadRequest ''Status change not allowed'')
    else Inr (event_audit ''STATUS_CHANGE'' ''event'' i (on_event_crm (publish i (event_type_of status))
      (s\<lparr>es_events := update_by ew_id i (\<lambda>e. e\<lparr>ew_status := status\<rparr>) (es_events s)\<rparr>))))"

text \<open>The switch that opens the talks of an event to visitors, in \<open>presentations.service.ts\<close>.\<close>

definition setBookingEnabled :: "string \<Rightarrow> bool \<Rightarrow> 'a event_state_scheme \<Rightarrow> 'a event_state_scheme result" where
  "setBookingEnabled i enabled s =
    (case find (\<lambda>e. ew_id e = i \<and> ew_deletedAt e = None) (es_events s) of
       None \<Rightarrow> Inl (NotFound ''No such event'')
     | Some _ \<Rightarrow> Inr (event_audit ''UPDATE'' ''event.presentationBooking'' i
         (s\<lparr>es_events := update_by ew_id i (\<lambda>e. e\<lparr>ew_allowsPresentationBooking := enabled\<rparr>) (es_events s)\<rparr>)))"

section \<open>What the codes on a public form resolve to\<close>

record capture_codes =
  cc_partnerCode :: "string option"
  cc_eventCode :: "string option"
  cc_repCode :: "string option"

text \<open>The directory of people and units is the one the guard reads; only its accounts and switches matter here.\<close>

definition resolveRep :: "directory \<Rightarrow> string option \<Rightarrow> string option \<Rightarrow> string option" where
  "resolveRep d repCode eventOrgUnitId =
    (let code = map_option js_trim repCode in
     if \<not> truthy code then None
     else case find (\<lambda>u. map_option to_lower (u_employeeCode u) = Some (to_lower (the code)) \<and> u_deletedAt u = None \<and>
                         u_status u = ACTIVE) (dir_users d) of
         None \<Rightarrow> None
       | Some rep \<Rightarrow>
           (if \<not> hasEventAccess (dir_levels d) (dir_units d) (u_designationId rep) (u_orgUnitId rep) then None
            else if truthy eventOrgUnitId \<and>
                the eventOrgUnitId \<notin> set (pathIds (case Option.bind (u_orgUnitId rep) (\<lambda>i. find_by ou_id i (dir_units d)) of
                  None \<Rightarrow> [] | Some r \<Rightarrow> ou_path r)) then None
            else Some (u_id rep)))"

definition unresolved :: coded_link where
  "unresolved = \<lparr>cl_campaignId = None, cl_partnerId = None, cl_eventId = None, cl_suggestedOwnerId = None,
     cl_capturedById = None, cl_orgUnitId = None\<rparr>"

definition resolve_partner :: "string option \<Rightarrow> 'a event_state_scheme \<Rightarrow> partner_row option" where
  "resolve_partner code s =
    (if \<not> truthy code then None
     else find (\<lambda>p. has_code (the code) p \<and> pt_deletedAt p = None \<and> pt_status p = ACTIVE_PARTNER) (ps_partners s))"

definition resolve_event :: "time \<Rightarrow> string option \<Rightarrow> 'a event_state_scheme \<Rightarrow> event_row option" where
  "resolve_event now code s =
    (if \<not> truthy code then None
     else case find (\<lambda>e. ew_code e = to_lower (the code) \<and> ew_deletedAt e = None) (es_events s) of
         None \<Rightarrow> None
       | Some e \<Rightarrow> (if eventAcceptsCaptures (ew_status e) (Some (ew_startsAt e, ew_endsAt e)) now then Some e else None))"

definition resolve_codes ::
    "directory \<Rightarrow> time \<Rightarrow> capture_codes \<Rightarrow> 'a event_state_scheme \<Rightarrow> coded_link \<times> string option" where
  "resolve_codes d now codes s =
    (case resolve_partner (cc_partnerCode codes) s of
       Some p \<Rightarrow> (unresolved\<lparr>cl_partnerId := Some (pt_id p)\<rparr>, Some ''PARTNER'')
     | None \<Rightarrow>
         (case resolve_event now (cc_eventCode codes) s of
            None \<Rightarrow> (unresolved, None)
          | Some e \<Rightarrow>
              let rep = resolveRep d (cc_repCode codes) (ew_orgUnitId e)
              in (unresolved\<lparr>cl_eventId := Some (ew_id e), cl_campaignId := ew_campaignId e, cl_capturedById := rep,
                     cl_suggestedOwnerId := rep, cl_orgUnitId := ew_orgUnitId e\<rparr>, Some ''BRANCH_EVENT'')))"

text \<open>
  What the public page is told before anybody types: whether the link takes submissions, and if not
  whether it is too early or too late. The products offered come from the master list.
\<close>

datatype closed_reason = NoLongerActive | NotStartedYet | HasEnded

record capture_context =
  cx_attributedTo :: string
  cx_acceptingSubmissions :: bool
  cx_closedReason :: "closed_reason option"

definition capture_context_of :: "time \<Rightarrow> capture_kind \<Rightarrow> string \<Rightarrow> 'a event_state_scheme \<Rightarrow> capture_context result" where
  "capture_context_of now kind code s =
    (if kind = PARTNER_LINK then
       (case partner_by_code code (ps_partners s) of
          None \<Rightarrow> Inl (NotFound ''Unknown referral code'')
        | Some p \<Rightarrow>
            let active = (pt_status p = ACTIVE_PARTNER)
            in Inr \<lparr>cx_attributedTo = pt_name p, cx_acceptingSubmissions = active,
                 cx_closedReason = (if active then None else Some NoLongerActive)\<rparr>)
     else
       (case find (\<lambda>e. ew_code e = to_lower code \<and> ew_deletedAt e = None) (es_events s) of
          None \<Rightarrow> Inl (NotFound ''Unknown event code'')
        | Some e \<Rightarrow>
            let accepting = eventAcceptsCaptures (ew_status e) (Some (ew_startsAt e, ew_endsAt e)) now
            in Inr \<lparr>cx_attributedTo = ew_name e, cx_acceptingSubmissions = accepting,
                 cx_closedReason = (if accepting then None
                   else if ew_status e = PLANNED_EVENT \<and> now < ew_startsAt e then Some NotStartedYet
                   else Some HasEnded)\<rparr>))"

section \<open>The numbers of an event add up\<close>

lemma sum_counts_sum: "sum_counts groups = sum_list (map snd groups)"
proof -
  have "foldl (\<lambda>total (k, n). total + n) a groups = a + sum_list (map snd groups)" for a :: nat
    by (induction groups arbitrary: a) auto
  then show ?thesis by (simp add: sum_counts_def)
qed

lemma sum_over_groups:
  assumes "distinct ks"
  shows "sum_list (map (\<lambda>k. count_where (\<lambda>r. key r = k) rows) ks) = count_where (\<lambda>r. key r \<in> set ks) rows"
  using assms
proof (induction ks)
  case Nil
  then show ?case by (simp add: count_where_def)
next
  case (Cons k ks)
  have "count_where (\<lambda>r. key r = k) rows + count_where (\<lambda>r. key r \<in> set ks) rows = count_where (\<lambda>r. key r = k \<or> key r \<in> set ks) rows"
    using Cons.prems by (induction rows) (auto simp: count_where_def)
  then show ?case using Cons by simp
qed

lemma sum_filtered_groups:
  "sum_counts (filter (\<lambda>(k, n). P k) (group_counts key rows)) = count_where (\<lambda>r. P (key r)) rows"
proof -
  let ?ks = "filter P (js_set (map key rows))"
  have "sum_counts (filter (\<lambda>(k, n). P k) (group_counts key rows)) = sum_list (map (\<lambda>k. count_where (\<lambda>r. key r = k) rows) ?ks)"
    by (simp add: sum_counts_sum group_counts_def filter_map o_def)
  also have "\<dots> = count_where (\<lambda>r. key r \<in> set ?ks) rows" by (rule sum_over_groups) simp
  also have "\<dots> = count_where (\<lambda>r. P (key r)) rows" by (auto simp: count_where_def intro!: arg_cong [where f = length] filter_cong)
  finally show ?thesis .
qed

lemma sum_groups: "sum_counts (group_counts key rows) = length rows"
  using sum_filtered_groups [of "\<lambda>_. True" key rows] by (simp add: count_where_def)

lemma count_where_le: "(\<And>r. r \<in> set rows \<Longrightarrow> p r \<Longrightarrow> q r) \<Longrightarrow> count_where p rows \<le> count_where q rows"
  by (induction rows) (auto simp: count_where_def)

lemma count_where_split: "count_where p rows = count_where (\<lambda>r. p r \<and> q r) rows + count_where (\<lambda>r. p r \<and> \<not> q r) rows"
  by (induction rows) (auto simp: count_where_def)

lemma js_round_share:
  assumes "a \<le> b" "0 < b"
  shows "0 \<le> js_round (of_nat a / of_nat b * 1000) \<and> js_round (of_nat a / of_nat b * 1000) \<le> 1000"
proof -
  have "0 \<le> (of_nat a / of_nat b * 1000 :: rat)" "(of_nat a / of_nat b * 1000 :: rat) \<le> 1000"
    using assms by (simp_all add: field_simps)
  then show ?thesis using js_round_lower [of 0 "of_nat a / of_nat b * 1000"] js_round_upper [of "of_nat a / of_nat b * 1000" 1000] by simp
qed

lemma map_of_rev_distinct: "distinct (map fst xs) \<Longrightarrow> map_of (rev xs) = map_of xs"
  by (subst map_of_inject_set) (simp_all add: rev_map [symmetric])

lemma map_of_keyed:
  assumes "distinct ks" "inj_on f (insert c (set ks))"
  shows "map_of (rev (map (\<lambda>k. (f k, g k)) ks)) (f c) = (if c \<in> set ks then Some (g c) else None)"
proof -
  have "distinct (map fst (map (\<lambda>k. (f k, g k)) ks))"
    using assms by (auto simp: distinct_map o_def intro: inj_on_subset)
  moreover have "map_of (map (\<lambda>k. (f k, g k)) ks) (f c) = (if c \<in> set ks then Some (g c) else None)"
    using assms by (induction ks) (auto simp: inj_on_def)
  ultimately show ?thesis by (simp add: map_of_rev_distinct)
qed

lemma sum_list_js_sort: "sum_list (map f (js_sort c xs)) = (sum_list (map f xs) :: nat)"
proof -
  have "mset (map f (js_sort c xs)) = mset (map f xs)" by simp
  then show ?thesis by (metis sum_mset_sum_list)
qed

lemma inj_key: "Some [] \<notin> K \<Longrightarrow> inj_on (\<lambda>k :: string option. case k of None \<Rightarrow> [] | Some i \<Rightarrow> i) K"
  by (rule inj_onI) (auto split: option.splits)

lemma counted_event_leads:
  "event_numbers origin users user e s = d \<Longrightarrow>
    ed_leads d = count_where (event_lead user (ew_id e)) (cr_leads s) \<and>
    ed_converted d = count_where (\<lambda>l. event_lead user (ew_id e) l \<and> l_status l = CONVERTED) (cr_leads s) \<and>
    ed_uncontacted d = count_where (\<lambda>l. event_lead user (ew_id e) l \<and> l_status l = NEW) (cr_leads s) \<and>
    sum_counts (ed_pipeline d) = ed_leads d"
proof -
  assume d: "event_numbers origin users user e s = d"
  have f: "count_where p (filter (event_lead user (ew_id e)) (cr_leads s)) = count_where (\<lambda>l. event_lead user (ew_id e) l \<and> p l) (cr_leads s)" for p
    by (simp add: count_where_def conj_commute)
  have "sum_counts (js_sort c g) = sum_counts g" for c and g :: "(lead_status \<times> nat) list"
    by (simp add: sum_counts_sum sum_list_js_sort)
  then show ?thesis
    using d sum_filtered_groups [of "\<lambda>st. st = CONVERTED" l_status "filter (event_lead user (ew_id e)) (cr_leads s)"]
      sum_filtered_groups [of "\<lambda>st. st \<in> set UNCONTACTED" l_status "filter (event_lead user (ew_id e)) (cr_leads s)"]
    by (auto simp: event_numbers_def Let_def sum_groups f UNCONTACTED_def count_where_def)
qed

lemma breakdown_totals:
  "sum_list (map rb_total (map (breakdown_row users verifiedBy) groups)) = sum_counts groups"
  by (induction groups) (auto simp: sum_counts_sum breakdown_row_def Let_def)

lemma breakdown_verified:
  assumes "\<And>l. l \<in> set leads \<Longrightarrow> l_capturedById l \<noteq> Some []" and "entry \<in> set (group_counts l_capturedById leads)"
  shows "rb_verified (breakdown_row users (group_counts l_capturedById (filter p leads)) entry) =
      count_where (\<lambda>l. l_capturedById l = fst entry) (filter p leads)"
    and "0 \<le> rb_unverified (breakdown_row users (group_counts l_capturedById (filter p leads)) entry)"
proof -
  let ?f = "\<lambda>k :: string option. case k of None \<Rightarrow> [] | Some i \<Rightarrow> i"
  obtain c n where entry: "entry = (c, n)" "c \<in> l_capturedById ` set leads" "n = count_where (\<lambda>l. l_capturedById l = c) leads"
    using assms(2) by (auto simp: group_counts_def)
  let ?ks = "js_set (map l_capturedById (filter p leads))"
  have "Some [] \<notin> l_capturedById ` set leads" using assms(1) by (metis imageE)
  then have "Some [] \<notin> insert c (set ?ks)" using entry(2) by auto
  then have inj: "inj_on ?f (insert c (set ?ks))" by (rule inj_key)
  have found: "map_of (rev (map (\<lambda>(k, n). (?f k, n)) (group_counts l_capturedById (filter p leads)))) (?f c) =
      (if c \<in> set ?ks then Some (count_where (\<lambda>l. l_capturedById l = c) (filter p leads)) else None)"
    using map_of_keyed [OF _ inj, of "\<lambda>k. count_where (\<lambda>l. l_capturedById l = k) (filter p leads)"]
    by (simp add: group_counts_def o_def)
  moreover have "count_where (\<lambda>l. l_capturedById l = c) (filter p leads) = 0" if "c \<notin> set ?ks"
    using that by (auto simp: count_where_0_iff)
  ultimately show v: "rb_verified (breakdown_row users (group_counts l_capturedById (filter p leads)) entry) =
      count_where (\<lambda>l. l_capturedById l = fst entry) (filter p leads)"
    by (auto simp: breakdown_row_def Let_def entry(1))
  have "count_where (\<lambda>l. l_capturedById l = c) (filter p leads) \<le> n"
    unfolding entry(3) by (induction leads) (auto simp: count_where_def)
  moreover have "rb_unverified (breakdown_row users (group_counts l_capturedById (filter p leads)) entry) =
      int n - int (rb_verified (breakdown_row users (group_counts l_capturedById (filter p leads)) entry))"
    by (simp add: breakdown_row_def Let_def entry(1))
  ultimately show "0 \<le> rb_unverified (breakdown_row users (group_counts l_capturedById (filter p leads)) entry)"
    by (simp add: v [unfolded entry(1)] entry(1))
qed

text \<open>
  What the figures are figures of, said of the book alone: the leads of the event that are not
  deleted, all of them for somebody who sees every event and else those the viewer captured.
\<close>

definition event_book :: "principal \<Rightarrow> string \<Rightarrow> crm \<Rightarrow> lead_row list" where
  "event_book user i s = filter (\<lambda>l. l_eventId l = Some i \<and> l_deletedAt l = None \<and>
     (''campaign:read'' \<in> set (pr_permissions user) \<or> l_capturedById l = Some (pr_id user))) (cr_leads s)"

lemma event_book_leads: "filter (event_lead user i) (cr_leads s) = event_book user i s"
  unfolding event_book_def by (intro filter_cong) (auto simp: event_lead_def own_capture_def seesEverything_def)

lemma count_in_book: "count_where (\<lambda>l. event_lead user i l \<and> p l) (cr_leads s) = count_where p (event_book user i s)"
  by (simp add: event_book_leads [symmetric] count_where_def conj_commute)

lemma count_book: "count_where (event_lead user i) (cr_leads s) = length (event_book user i s)"
  by (simp add: event_book_leads [symmetric] count_where_def)

lemma numbers_of_book:
  assumes "event_numbers origin users user e s = d"
  shows "ed_leads d = length (event_book user (ew_id e) s)"
    and "ed_converted d = count_where (\<lambda>l. l_status l = CONVERTED) (event_book user (ew_id e) s)"
    and "ed_uncontacted d = count_where (\<lambda>l. l_status l = NEW) (event_book user (ew_id e) s)"
    and "ed_unassignedLeads d = count_where (\<lambda>l. l_capturedById l = None) (event_book user (ew_id e) s)"
    and "(st, n) \<in> set (ed_pipeline d) \<Longrightarrow> n = count_where (\<lambda>l. l_status l = st) (event_book user (ew_id e) s)"
    and "st \<in> l_status ` set (event_book user (ew_id e) s) \<Longrightarrow> st \<in> fst ` set (ed_pipeline d)"
proof -
  let ?book = "event_book user (ew_id e) s"
  note n = counted_event_leads [OF assms]
  show "ed_leads d = length ?book" "ed_converted d = count_where (\<lambda>l. l_status l = CONVERTED) ?book"
    "ed_uncontacted d = count_where (\<lambda>l. l_status l = NEW) ?book"
    using n by (simp_all add: count_in_book count_book)
  have pipe: "set (ed_pipeline d) = set (group_counts l_status ?book)"
    by (simp add: assms [symmetric] event_numbers_def Let_def event_book_leads)
  show "(st, n) \<in> set (ed_pipeline d) \<Longrightarrow> n = count_where (\<lambda>l. l_status l = st) ?book"
    by (auto simp: pipe group_counts_def)
  show "st \<in> l_status ` set ?book \<Longrightarrow> st \<in> fst ` set (ed_pipeline d)"
    by (force simp: pipe group_counts_def)
  show "ed_unassignedLeads d = count_where (\<lambda>l. l_capturedById l = None) ?book"
  proof (cases "seesEverything user")
    case True
    then have "(\<lambda>l. (l_eventId l = Some (ew_id e) \<and> l_deletedAt l = None) \<and> l_capturedById l = None) =
        (\<lambda>l. event_lead user (ew_id e) l \<and> l_capturedById l = None)"
      by (auto simp: event_lead_def own_capture_def)
    then show ?thesis using True by (simp add: assms [symmetric] event_numbers_def Let_def flip: count_in_book)
  next
    case False
    then have "l_capturedById l \<noteq> None" if "l \<in> set ?book" for l
      using that by (auto simp: event_book_def seesEverything_def)
    then have "count_where (\<lambda>l. l_capturedById l = None) ?book = 0" by (simp add: count_where_0_iff)
    then show ?thesis using False by (simp add: assms [symmetric] event_numbers_def Let_def)
  qed
qed

lemma rows_of_book:
  assumes "byRep users user i s = Inr rows" and "\<And>l. l \<in> set (cr_leads (ps_crm s)) \<Longrightarrow> l_capturedById l \<noteq> Some []"
    and "row \<in> set rows"
  shows "rb_total row = count_where (\<lambda>l. l_capturedById l = rb_userId row) (event_book user i (ps_crm s))"
    and "rb_verified row = count_where (\<lambda>l. l_capturedById l = rb_userId row \<and> l_mobileVerifiedAt l \<noteq> None)
      (event_book user i (ps_crm s))"
    and "0 \<le> rb_unverified row"
proof -
  let ?book = "event_book user i (ps_crm s)"
  let ?verified = "group_counts l_capturedById (filter (\<lambda>l. l_mobileVerifiedAt l \<noteq> None) ?book)"
  have rows: "rows = js_sort busiest_first (map (breakdown_row users ?verified) (group_counts l_capturedById ?book))"
    using assms(1) by (auto simp: byRep_def Let_def event_book_leads split: if_splits)
  obtain entry where entry: "row = breakdown_row users ?verified entry" "entry \<in> set (group_counts l_capturedById ?book)"
    using assms(3) unfolding rows set_js_sort by auto
  have id: "rb_userId row = fst entry" "rb_total row = snd entry"
    by (simp_all add: entry(1) breakdown_row_def Let_def case_prod_beta)
  have "l_capturedById l \<noteq> Some []" if "l \<in> set ?book" for l using that assms(2) by (simp add: event_book_def)
  note v = breakdown_verified [OF this entry(2), of users "\<lambda>l. l_mobileVerifiedAt l \<noteq> None"]
  show "0 \<le> rb_unverified row" using v(2) entry(1) by simp
  show "rb_total row = count_where (\<lambda>l. l_capturedById l = rb_userId row) ?book"
    using entry(2) by (auto simp: id group_counts_def)
  show "rb_verified row = count_where (\<lambda>l. l_capturedById l = rb_userId row \<and> l_mobileVerifiedAt l \<noteq> None) ?book"
    using v(1) unfolding entry(1) [symmetric] id(1) by (simp add: count_where_def conj_commute)
qed

text \<open>
  C26. The figures of an event agree with the book and with each other, whoever looks. They are those
  of the event's undeleted leads, all of them for a viewer who sees every event and else those the
  viewer captured: leads, converted, uncontacted, assigned and unassigned ones and every stage of the
  pipeline are counted there, and so are the total and the verified leads of each rep. Assigned and
  unassigned leads add up to the leads, so do the stages and the rows of the breakdown; nobody is
  counted as a lead who was not counted as met; the conversion rate is a percentage; and no rep has
  more verified leads than leads.
\<close>

theorem event_numbers_add_up:
  assumes "findOne_event origin users user i s = Inr d" and "byRep users user i s = Inr rows"
    and "\<And>l. l \<in> set (cr_leads (ps_crm s)) \<Longrightarrow> l_capturedById l \<noteq> Some []"
  shows "(let book = event_book user i (ps_crm s) in
      ed_leads d = length book \<and>
      ed_converted d = count_where (\<lambda>l. l_status l = CONVERTED) book \<and>
      ed_uncontacted d = count_where (\<lambda>l. l_status l = NEW) book \<and>
      ed_unassignedLeads d = count_where (\<lambda>l. l_capturedById l = None) book \<and>
      (\<forall>(st, n) \<in> set (ed_pipeline d). n = count_where (\<lambda>l. l_status l = st) book) \<and>
      (\<forall>row \<in> set rows. rb_total row = count_where (\<lambda>l. l_capturedById l = rb_userId row) book \<and>
         rb_verified row = count_where (\<lambda>l. l_capturedById l = rb_userId row \<and> l_mobileVerifiedAt l \<noteq> None) book)) \<and>
    ed_converted d \<le> ed_leads d \<and> ed_uncontacted d \<le> ed_leads d \<and>
    ed_assignedLeads d + ed_unassignedLeads d = ed_leads d \<and> sum_counts (ed_pipeline d) = ed_leads d \<and>
    sum_list (map rb_total rows) = ed_leads d \<and> ed_leads d \<le> ed_attended d \<and>
    0 \<le> ed_conversionRate d \<and> ed_conversionRate d \<le> 100 \<and> list_all (\<lambda>row. 0 \<le> rb_unverified row) rows"
proof -
  let ?ls = "cr_leads (ps_crm s)"
  obtain e where e: "d = event_numbers origin users user e (ps_crm s)" "ew_id e = i"
    using assms(1) by (auto simp: findOne_event_def find_Some_iff split: option.splits)
  note n = counted_event_leads [OF e(1) [symmetric]]
  have le: "ed_converted d \<le> ed_leads d" "ed_uncontacted d \<le> ed_leads d"
    using n by (auto intro: count_where_le)
  have parts: "ed_assignedLeads d + ed_unassignedLeads d = ed_leads d"
  proof (cases "seesEverything user")
    case True
    then have "event_lead user i = (\<lambda>l. l_eventId l = Some i \<and> l_deletedAt l = None)" by (auto simp: event_lead_def own_capture_def)
    then show ?thesis
      using True n count_where_split [of "event_lead user i" ?ls "\<lambda>l. l_capturedById l \<noteq> None"]
      by (simp add: e event_numbers_def Let_def)
  next
    case False
    then show ?thesis by (simp add: e event_numbers_def Let_def)
  qed
  have "event_lead user i l \<Longrightarrow> attended_event user (ps_crm s) i l" for l
    by (simp add: event_lead_def attended_event_def)
  then have met: "ed_leads d \<le> ed_attended d"
    using n e(2) count_where_le [of ?ls "event_lead user i" "attended_event user (ps_crm s) i"]
    by (simp add: e event_numbers_def Let_def)
  have rate: "ed_conversionRate d = (if ed_leads d > 0 then of_int (js_round (of_nat (ed_converted d) / of_nat (ed_leads d) * 1000)) / 10 else 0)"
    by (simp add: e event_numbers_def Let_def)
  have "0 \<le> ed_conversionRate d \<and> ed_conversionRate d \<le> 100"
    using js_round_share [OF le(1)] by (simp add: rate)
  moreover have rows: "rows = js_sort busiest_first (map (breakdown_row users (group_counts l_capturedById
      (filter (\<lambda>l. l_mobileVerifiedAt l \<noteq> None) (filter (event_lead user i) ?ls)))) (group_counts l_capturedById (filter (event_lead user i) ?ls)))"
    using assms(2) by (auto simp: byRep_def Let_def split: if_splits)
  have "sum_list (map rb_total rows) = sum_counts (group_counts l_capturedById (filter (event_lead user i) ?ls))"
    unfolding rows sum_list_js_sort by (rule breakdown_totals)
  then have "sum_list (map rb_total rows) = ed_leads d"
    using n e(2) by (simp add: sum_groups count_where_def)
  moreover have "list_all (\<lambda>row. 0 \<le> rb_unverified row) rows"
    using rows_of_book(3) [OF assms(2,3)] by (simp add: list_all_iff)
  moreover have "let book = event_book user i (ps_crm s) in
      ed_leads d = length book \<and>
      ed_converted d = count_where (\<lambda>l. l_status l = CONVERTED) book \<and>
      ed_uncontacted d = count_where (\<lambda>l. l_status l = NEW) book \<and>
      ed_unassignedLeads d = count_where (\<lambda>l. l_capturedById l = None) book \<and>
      (\<forall>(st, n) \<in> set (ed_pipeline d). n = count_where (\<lambda>l. l_status l = st) book) \<and>
      (\<forall>row \<in> set rows. rb_total row = count_where (\<lambda>l. l_capturedById l = rb_userId row) book \<and>
         rb_verified row = count_where (\<lambda>l. l_capturedById l = rb_userId row \<and> l_mobileVerifiedAt l \<noteq> None) book)"
    unfolding Let_def
    using numbers_of_book [OF e(1) [symmetric], unfolded e(2)] rows_of_book(1,2) [OF assms(2,3)]
    by (intro conjI ballI) auto
  ultimately show ?thesis using le parts met n [THEN conjunct2, THEN conjunct2, THEN conjunct2] by blast
qed

definition demo_event :: "string \<Rightarrow> string \<Rightarrow> event_status \<Rightarrow> event_row" where
  "demo_event i code status =
    \<lparr>ew_id = i, ew_reference = ''EV1'', ew_name = ''Expo'', ew_code = code, ew_status = status, ew_venue = None,
     ew_city = None, ew_startsAt = 100, ew_endsAt = Some 200, ew_expectedFootfall = None, ew_ownerId = None,
     ew_orgUnitId = Some ''b1'', ew_campaignId = None, ew_allowsPresentationBooking = True, ew_createdById = None,
     ew_deletedAt = None\<rparr>"

definition demo_stall :: event_state where
  "demo_stall = \<lparr>ps_partners = ps_partners demo_partners,
     ps_crm = demo_lead_state\<lparr>cr_leads := map (\<lambda>l. l\<lparr>l_eventId := Some ''e1'', l_capturedById := Some ''u1''\<rparr>) (cr_leads demo_lead_state)\<rparr>,
     es_events = [demo_event ''e1'' ''expo'' RUNNING_EVENT, demo_event ''e2'' ''gala'' COMPLETED_EVENT]\<rparr>"

definition demo_manager :: principal where
  "demo_manager = demo_rep\<lparr>pr_permissions := [''campaign:read'']\<rparr>"

lemma event_numbers_add_up_witness:
  "(case (findOne_event [] [] demo_manager ''e1'' demo_stall, byRep [] demo_manager ''e1'' demo_stall) of
      (Inr d, Inr rows) \<Rightarrow> ed_leads d = 1 \<and> ed_attended d = 1 \<and> sum_list (map rb_total rows) = 1
    | _ \<Rightarrow> False)"
proof -
  let ?d = "findOne_event [] [] demo_manager ''e1'' demo_stall" and ?r = "byRep [] demo_manager ''e1'' demo_stall"
  have "\<not> isl ?d" "\<not> isl ?r" by code_simp+
  then obtain d rows where run: "?d = Inr d" "?r = Inr rows" by (cases ?d; cases ?r) auto
  have "list_all (\<lambda>l. l_capturedById l \<noteq> Some []) (cr_leads (ps_crm demo_stall))" by code_simp
  then have "l_capturedById l \<noteq> Some []" if "l \<in> set (cr_leads (ps_crm demo_stall))" for l
    using that by (simp add: list_all_iff)
  note all = event_numbers_add_up [OF run this]
  have "ed_leads (projr ?d) = 1" "ed_attended (projr ?d) = 1" by code_simp+
  then show ?thesis using all by (simp add: run)
qed

section \<open>The life of an event\<close>

inductive event_step :: "event_state \<Rightarrow> event_state \<Rightarrow> bool" where
  created: "i \<notin> ew_id ` set (es_events s) \<Longrightarrow> createEventSchema cinput \<Longrightarrow>
    create_event user i reference cinput s = Inr s' \<Longrightarrow> event_step s s'"
| edited: "update_event i uinput s = Inr s' \<Longrightarrow> event_step s s'"
| moved: "changeStatus_event i status s = Inr s' \<Longrightarrow> event_step s s'"
| switched: "setBookingEnabled i enabled s = Inr s' \<Longrightarrow> event_step s s'"
| elsewhere: "es_events s' = es_events s \<Longrightarrow> event_step s s'"

inductive event_reach :: "event_state \<Rightarrow> bool" where
  none_yet: "es_events s = [] \<Longrightarrow> event_reach s"
| one_more: "event_reach s \<Longrightarrow> event_step s s' \<Longrightarrow> event_reach s'"

definition event_ok :: "event_row \<Rightarrow> bool" where
  "event_ok e \<longleftrightarrow> ends_after (ew_startsAt e) (ew_endsAt e) \<and> eventCodeSchema (ew_code e) = Some (ew_code e)"

definition events_ok :: "event_row list \<Rightarrow> bool" where
  "events_ok es \<longleftrightarrow> keys_unique ew_id es \<and> keys_unique ew_code es \<and> (\<forall>e \<in> set es. event_ok e)"

text \<open>What one request does to the table: an insert, or one row rewritten with id and code kept.\<close>

definition status_moves :: "event_row \<Rightarrow> event_row \<Rightarrow> bool" where
  "status_moves e e' \<longleftrightarrow> ew_id e' = ew_id e \<and> ew_code e' = ew_code e \<and>
    (ew_status e' = ew_status e \<or> canTransitionEvent (ew_status e) (ew_status e'))"

lemma live_event_Inr: "live_event i s = Inr e \<longleftrightarrow> find (\<lambda>e. ew_id e = i \<and> ew_deletedAt e = None) (es_events s) = Some e"
  by (auto simp: live_event_def split: option.splits)

lemma live_event_same:
  assumes "keys_unique ew_id es" and "find (\<lambda>e. ew_id e = i \<and> ew_deletedAt e = None) es = Some e"
    and "q \<in> set es" "ew_id q = i"
  shows "q = e"
proof -
  have "e \<in> set es" "ew_id e = i" using assms(2) by (auto simp: find_Some_iff)
  then show ?thesis using find_by_unique [OF assms(1)] assms(3,4) by (metis option.inject)
qed

lemma changeStatus_event_cases:
  assumes "changeStatus_event i status s = Inr s'"
  obtains "s' = s" | e where "live_event i s = Inr e" "canTransitionEvent (ew_status e) status"
    "es_events s' = update_by ew_id i (\<lambda>e. e\<lparr>ew_status := status\<rparr>) (es_events s)"
proof (cases "live_event i s")
  case (Inl e)
  then show ?thesis using assms by (simp add: changeStatus_event_def)
next
  case (Inr e)
  show ?thesis
  proof (cases "ew_status e = status")
    case True
    then show ?thesis using assms Inr that(1) by (simp add: changeStatus_event_def)
  next
    case False
    then have "canTransitionEvent (ew_status e) status" using assms Inr by (auto simp: changeStatus_event_def split: if_splits)
    moreover from this False have "es_events s' = update_by ew_id i (\<lambda>e. e\<lparr>ew_status := status\<rparr>) (es_events s)"
      using assms Inr by (auto simp: changeStatus_event_def event_audit_def on_event_crm_def)
    ultimately show ?thesis using Inr that(2) by blast
  qed
qed

lemma edit_event_simps [simp]:
  "ew_id (edit_event input e) = ew_id e" "ew_code (edit_event input e) = ew_code e"
  "ew_status (edit_event input e) = ew_status e"
  "ew_startsAt (edit_event input e) = given (ue_startsAt input) (ew_startsAt e)"
  "ew_endsAt (edit_event input e) = given (ue_endsAt input) (ew_endsAt e)"
  by (simp_all add: edit_event_def)

lemma update_by_id: "update_by key i id rows = rows"
  by (simp add: update_by_def update_where_def map_idI)

lemma event_step_table:
  assumes "event_step s s'" and "keys_unique ew_id (es_events s)"
  shows "(\<exists>e. es_events s' = insert_row e (es_events s) \<and> event_ok e \<and> ew_id e \<notin> ew_id ` set (es_events s) \<and>
      ew_code e \<notin> ew_code ` set (es_events s)) \<or>
    (\<exists>i f. es_events s' = update_by ew_id i f (es_events s) \<and> (\<forall>e. ew_id (f e) = ew_id e \<and> ew_code (f e) = ew_code e) \<and>
      (\<forall>e \<in> set (es_events s). ew_id e = i \<longrightarrow> status_moves e (f e) \<and> (event_ok e \<longrightarrow> event_ok (f e))))"
  using assms(1)
proof cases
  case (created i cinput user reference)
  then show ?thesis
    by (auto simp: create_event_def assertCodeIsFree_def and_then_Inr event_audit_def on_event_crm_def new_event_def event_ok_def
        createEventSchema_def find_by_None_iff split: if_splits intro!: exI [of _ "new_event user i reference cinput"])
next
  case (edited i uinput)
  then obtain e where e: "find (\<lambda>e. ew_id e = i \<and> ew_deletedAt e = None) (es_events s) = Some e"
    "ends_after (given (ue_startsAt uinput) (ew_startsAt e)) (given (ue_endsAt uinput) (ew_endsAt e))"
    "es_events s' = update_by ew_id i (edit_event uinput) (es_events s)"
    by (auto simp: update_event_def and_then_Inr live_event_Inr Let_def event_audit_def split: if_splits)
  have same: "q = e" if "q \<in> set (es_events s)" "ew_id q = i" for q
    by (rule live_event_same [OF assms(2) e(1) that]) 
  show ?thesis
  proof (intro disjI2 exI conjI allI ballI impI)
    show "es_events s' = update_by ew_id i (edit_event uinput) (es_events s)" by (rule e(3))
    fix q assume "q \<in> set (es_events s)" "ew_id q = i"
    then have "q = e" by (rule same)
    then show "status_moves q (edit_event uinput q)" by (simp add: status_moves_def)
    assume "event_ok q"
    then show "event_ok (edit_event uinput q)" using e(2) \<open>q = e\<close> by (simp add: event_ok_def)
  qed simp_all
next
  case (moved i status)
  from moved(1) show ?thesis
  proof (cases rule: changeStatus_event_cases)
    case 1
    then show ?thesis by (intro disjI2 exI [of _ i] exI [of _ id]) (auto simp: update_by_id status_moves_def)
  next
    case (2 e)
    have same: "q = e" if "q \<in> set (es_events s)" "ew_id q = i" for q
      by (rule live_event_same [OF assms(2) 2(1) [unfolded live_event_Inr] that])
    show ?thesis
    proof (intro disjI2 exI conjI allI ballI impI)
      show "es_events s' = update_by ew_id i (\<lambda>e. e\<lparr>ew_status := status\<rparr>) (es_events s)" by (rule 2(3))
      fix q assume "q \<in> set (es_events s)" "ew_id q = i"
      then have "q = e" by (rule same)
      then show "status_moves q (q\<lparr>ew_status := status\<rparr>)" using 2(2) by (simp add: status_moves_def)
    qed (simp_all add: event_ok_def)
  qed
next
  case (switched i enabled)
  then show ?thesis
    by (intro disjI2 exI [of _ i] exI [of _ "\<lambda>e. e\<lparr>ew_allowsPresentationBooking := enabled\<rparr>"])
      (auto simp: setBookingEnabled_def event_audit_def status_moves_def event_ok_def split: option.splits)
next
  case elsewhere
  then show ?thesis by (intro disjI2 exI [of _ "[]"] exI [of _ id]) (auto simp: update_by_id status_moves_def)
qed

lemma keys_unique_update_same:
  "(\<And>r. key (f r) = key r) \<Longrightarrow> keys_unique key (update_by ident i f rows) = keys_unique key rows"
  by simp

lemma event_step_keeps:
  assumes "event_step s s'" and "events_ok (es_events s)"
  shows "events_ok (es_events s') \<and> (\<forall>e \<in> set (es_events s). \<exists>e' \<in> set (es_events s'). status_moves e e')"
proof -
  have u: "keys_unique ew_id (es_events s)" "keys_unique ew_code (es_events s)" "\<forall>e \<in> set (es_events s). event_ok e"
    using assms(2) by (auto simp: events_ok_def)
  have stay: "status_moves e e" for e by (simp add: status_moves_def)
  from event_step_table [OF assms(1) u(1)] show ?thesis
  proof
    assume "\<exists>e. es_events s' = insert_row e (es_events s) \<and> event_ok e \<and> ew_id e \<notin> ew_id ` set (es_events s) \<and>
      ew_code e \<notin> ew_code ` set (es_events s)"
    then obtain e where e: "es_events s' = insert_row e (es_events s)" "event_ok e" "ew_id e \<notin> ew_id ` set (es_events s)"
      "ew_code e \<notin> ew_code ` set (es_events s)" by blast
    have "\<forall>q \<in> set (es_events s). q \<in> set (es_events s')" by (simp add: e(1) insert_row_def)
    then show ?thesis using u stay e by (auto simp: events_ok_def keys_unique_insert_row) (auto simp: insert_row_def)
  next
    assume "\<exists>i f. es_events s' = update_by ew_id i f (es_events s) \<and> (\<forall>e. ew_id (f e) = ew_id e \<and> ew_code (f e) = ew_code e) \<and>
      (\<forall>e \<in> set (es_events s). ew_id e = i \<longrightarrow> status_moves e (f e) \<and> (event_ok e \<longrightarrow> event_ok (f e)))"
    then obtain i f where f: "es_events s' = update_by ew_id i f (es_events s)" "\<And>e. ew_id (f e) = ew_id e" "\<And>e. ew_code (f e) = ew_code e"
      "\<And>e. e \<in> set (es_events s) \<Longrightarrow> ew_id e = i \<Longrightarrow> status_moves e (f e) \<and> (event_ok e \<longrightarrow> event_ok (f e))" by blast
    have rows: "set (es_events s') = (\<lambda>e. if ew_id e = i then f e else e) ` set (es_events s)"
      by (simp add: f(1) update_by_def set_update_where)
    have "keys_unique ew_id (es_events s')" "keys_unique ew_code (es_events s')"
      unfolding f(1) using u f(2,3) by simp_all
    moreover have "\<forall>e \<in> set (es_events s'). event_ok e" using u(3) f(4) rows by auto
    moreover have "\<exists>e' \<in> set (es_events s'). status_moves e e'" if "e \<in> set (es_events s)" for e
      unfolding rows using that f(4) stay by (cases "ew_id e = i") auto
    ultimately show ?thesis by (simp add: events_ok_def)
  qed
qed

lemma event_reach_ok: "event_reach s \<Longrightarrow> events_ok (es_events s)"
proof (induction rule: event_reach.induct)
  case (none_yet s)
  then show ?case by (simp add: events_ok_def keys_unique_def)
next
  case (one_more s s')
  then show ?case using event_step_keeps by blast
qed

text \<open>
  C27. Whatever is created, edited and moved, the book of events stays sound: identifiers and banner
  codes are unique, every code is in the form the schema produces, so that a scanned code finds its
  event, and no event ends before it starts.
\<close>

theorem event_book_sound:
  assumes "event_reach s"
  shows "distinct (map ew_id (es_events s)) \<and> distinct (map ew_code (es_events s)) \<and>
    (\<forall>e \<in> set (es_events s). eventCodeSchema (ew_code e) = Some (ew_code e) \<and> ends_after (ew_startsAt e) (ew_endsAt e))"
  using event_reach_ok [OF assms] by (simp add: events_ok_def keys_unique_def event_ok_def)

definition closed_event :: "event_row \<Rightarrow> bool" where
  "closed_event e \<longleftrightarrow> ew_status e = COMPLETED_EVENT \<or> ew_status e = CANCELLED_EVENT"

lemma closed_moves: "status_moves e e' \<Longrightarrow> closed_event e \<Longrightarrow> closed_event e' \<and> ew_status e' = ew_status e"
  by (auto simp: status_moves_def closed_event_def canTransitionEvent_def)

lemma closed_stays:
  assumes "event_step\<^sup>*\<^sup>* s s'" and "events_ok (es_events s)" and "e \<in> set (es_events s)" "closed_event e"
  shows "events_ok (es_events s') \<and> (\<exists>e' \<in> set (es_events s'). ew_id e' = ew_id e \<and> ew_code e' = ew_code e \<and>
    ew_status e' = ew_status e \<and> closed_event e')"
  using assms(1)
proof (induction rule: rtranclp_induct)
  case base
  then show ?case using assms by blast
next
  case (step t t')
  then obtain e1 where e1: "e1 \<in> set (es_events t)" "ew_id e1 = ew_id e" "ew_code e1 = ew_code e" "ew_status e1 = ew_status e"
    "closed_event e1" "events_ok (es_events t)" by blast
  from event_step_keeps [OF step(2) e1(6)] e1(1) obtain e2 where
      e2: "events_ok (es_events t')" "e2 \<in> set (es_events t')" "status_moves e1 e2" by blast
  have "ew_id e2 = ew_id e" "ew_code e2 = ew_code e" using e2(3) e1(2,3) by (simp_all add: status_moves_def)
  moreover have "closed_event e2" "ew_status e2 = ew_status e" using closed_moves [OF e2(3) e1(5)] e1(4) by simp_all
  ultimately show ?case using e2(1,2) by blast
qed

lemma resolve_event_SomeD:
  "resolve_event now code s = Some e \<Longrightarrow> e \<in> set (es_events s) \<and> ew_deletedAt e = None \<and> ew_code e = to_lower (the code) \<and>
    eventAcceptsCaptures (ew_status e) (Some (ew_startsAt e, ew_endsAt e)) now"
  by (auto simp: resolve_event_def find_Some_iff split: if_splits option.splits)

text \<open>
  Closing an event is for good. Once an event is completed or cancelled, then whatever is done to
  this or any other event afterwards, it is still there with its code and status, and no submission,
  whatever codes it carries and whenever it comes, is attributed to it.
\<close>

theorem closed_event_gains_no_leads:
  assumes "event_reach s" and "e \<in> set (es_events s)" and "closed_event e" and "event_step\<^sup>*\<^sup>* s s'"
  shows "(\<exists>e' \<in> set (es_events s'). ew_id e' = ew_id e \<and> ew_code e' = ew_code e \<and> ew_status e' = ew_status e) \<and>
    cl_eventId (fst (resolve_codes d now codes s')) \<noteq> Some (ew_id e)"
proof -
  obtain e' where e': "e' \<in> set (es_events s')" "ew_id e' = ew_id e" "ew_code e' = ew_code e" "ew_status e' = ew_status e" "closed_event e'"
    and ok: "events_ok (es_events s')"
    using closed_stays [OF assms(4) event_reach_ok [OF assms(1)] assms(2,3)] by blast
  have "cl_eventId (fst (resolve_codes d now codes s')) \<noteq> Some (ew_id e)"
  proof
    assume "cl_eventId (fst (resolve_codes d now codes s')) = Some (ew_id e)"
    then obtain q where q: "resolve_event now (cc_eventCode codes) s' = Some q" "ew_id q = ew_id e"
      by (auto simp: resolve_codes_def unresolved_def Let_def split: option.splits)
    have u: "keys_unique ew_id (es_events s')" using ok by (simp add: events_ok_def)
    have "find_by ew_id (ew_id e) (es_events s') = Some e'" using find_by_unique [OF u e'(1)] e'(2) by simp
    moreover have "find_by ew_id (ew_id e) (es_events s') = Some q"
      using find_by_unique [OF u, of q] resolve_event_SomeD [OF q(1)] q(2) by simp
    ultimately have "q = e'" by simp
    then show False using resolve_event_SomeD [OF q(1)] e'(5) by (auto simp: closed_event_def eventAcceptsCaptures_def)
  qed
  then show ?thesis using e' by blast
qed
section \<open>What a submission is credited to\<close>

definition rightful_rep :: "directory \<Rightarrow> string option \<Rightarrow> string option \<Rightarrow> string \<Rightarrow> bool" where
  "rightful_rep d repCode unit r \<longleftrightarrow> (\<exists>u \<in> set (dir_users d). u_id u = r \<and> u_status u = ACTIVE \<and> u_deletedAt u = None \<and>
     (\<exists>code. repCode = Some code \<and> map_option to_lower (u_employeeCode u) = Some (to_lower (js_trim code))) \<and>
     hasEventAccess (dir_levels d) (dir_units d) (u_designationId u) (u_orgUnitId u) \<and>
     (truthy unit \<longrightarrow> (\<exists>o'. Option.bind (u_orgUnitId u) (\<lambda>i. find_by ou_id i (dir_units d)) = Some o' \<and>
        the unit \<in> set (pathIds (ou_path o')))))"

lemma resolveRep_rightful: "resolveRep d repCode unit = Some r \<Longrightarrow> rightful_rep d repCode unit r"
proof -
  assume r: "resolveRep d repCode unit = Some r"
  then obtain code where code: "repCode = Some code" by (cases repCode) (auto simp: resolveRep_def truthy_def)
  obtain u where u: "find (\<lambda>u. map_option to_lower (u_employeeCode u) = Some (to_lower (js_trim code)) \<and> u_deletedAt u = None \<and>
      u_status u = ACTIVE) (dir_users d) = Some u" "u_id u = r"
    "hasEventAccess (dir_levels d) (dir_units d) (u_designationId u) (u_orgUnitId u)"
    "truthy unit \<longrightarrow> the unit \<in> set (pathIds (case Option.bind (u_orgUnitId u) (\<lambda>i. find_by ou_id i (dir_units d)) of
       None \<Rightarrow> [] | Some o' \<Rightarrow> ou_path o'))"
    using r by (auto simp: resolveRep_def code Let_def split: if_splits option.splits)
  have "u \<in> set (dir_users d)" "map_option to_lower (u_employeeCode u) = Some (to_lower (js_trim code))" "u_deletedAt u = None"
    "u_status u = ACTIVE" using u(1) by (auto simp: find_Some_iff)
  moreover have "truthy unit \<longrightarrow> (\<exists>o'. Option.bind (u_orgUnitId u) (\<lambda>i. find_by ou_id i (dir_units d)) = Some o' \<and>
        the unit \<in> set (pathIds (ou_path o')))"
    using u(4) by (auto simp: pathIds_def split: option.splits)
  ultimately show ?thesis using u(2,3) code unfolding rightful_rep_def by blast
qed

definition rightful_partner :: "string option \<Rightarrow> 'a event_state_scheme \<Rightarrow> string \<Rightarrow> bool" where
  "rightful_partner code s i \<longleftrightarrow> (\<exists>p \<in> set (ps_partners s). pt_id p = i \<and> has_code (the code) p \<and> pt_deletedAt p = None \<and>
     pt_status p = ACTIVE_PARTNER)"

definition rightful_event :: "time \<Rightarrow> string option \<Rightarrow> 'a event_state_scheme \<Rightarrow> event_row \<Rightarrow> bool" where
  "rightful_event now code s e \<longleftrightarrow> e \<in> set (es_events s) \<and> ew_deletedAt e = None \<and> ew_code e = to_lower (the code) \<and>
     eventAcceptsCaptures (ew_status e) (Some (ew_startsAt e, ew_endsAt e)) now"

text \<open>
  The three outcomes of the resolver: a partner, an event perhaps with the rep whose code it was, or nothing.
\<close>

definition rightful_link :: "directory \<Rightarrow> time \<Rightarrow> capture_codes \<Rightarrow> 'a event_state_scheme \<Rightarrow> coded_link \<Rightarrow> bool" where
  "rightful_link d now codes s c \<longleftrightarrow>
    c = unresolved \<or>
    (\<exists>i. c = unresolved\<lparr>cl_partnerId := Some i\<rparr> \<and> rightful_partner (cc_partnerCode codes) s i) \<or>
    (\<exists>e rep. c = unresolved\<lparr>cl_eventId := Some (ew_id e), cl_campaignId := ew_campaignId e, cl_capturedById := rep,
         cl_suggestedOwnerId := rep, cl_orgUnitId := ew_orgUnitId e\<rparr> \<and> rightful_event now (cc_eventCode codes) s e \<and>
       (rep = None \<or> rightful_rep d (cc_repCode codes) (ew_orgUnitId e) (the rep)))"

lemma resolve_codes_rightful: "rightful_link d now codes s (fst (resolve_codes d now codes s))"
proof (cases "resolve_partner (cc_partnerCode codes) s")
  case (Some p)
  then have "rightful_partner (cc_partnerCode codes) s (pt_id p)"
    by (auto simp: resolve_partner_def rightful_partner_def find_Some_iff split: if_splits)
  moreover have "fst (resolve_codes d now codes s) = unresolved\<lparr>cl_partnerId := Some (pt_id p)\<rparr>" using Some by (simp add: resolve_codes_def)
  ultimately show ?thesis unfolding rightful_link_def by blast
next
  case None
  show ?thesis
  proof (cases "resolve_event now (cc_eventCode codes) s")
    case None
    then show ?thesis using \<open>resolve_partner (cc_partnerCode codes) s = None\<close> by (simp add: resolve_codes_def rightful_link_def)
  next
    case (Some e)
    have "rightful_event now (cc_eventCode codes) s e" using resolve_event_SomeD [OF Some] by (simp add: rightful_event_def)
    moreover have "resolveRep d (cc_repCode codes) (ew_orgUnitId e) = None \<or>
        rightful_rep d (cc_repCode codes) (ew_orgUnitId e) (the (resolveRep d (cc_repCode codes) (ew_orgUnitId e)))"
      using resolveRep_rightful by (cases "resolveRep d (cc_repCode codes) (ew_orgUnitId e)") auto
    moreover have "fst (resolve_codes d now codes s) = unresolved\<lparr>cl_eventId := Some (ew_id e), cl_campaignId := ew_campaignId e,
        cl_capturedById := resolveRep d (cc_repCode codes) (ew_orgUnitId e),
        cl_suggestedOwnerId := resolveRep d (cc_repCode codes) (ew_orgUnitId e), cl_orgUnitId := ew_orgUnitId e\<rparr>"
      using None Some by (simp add: resolve_codes_def Let_def)
    ultimately show ?thesis unfolding rightful_link_def by blast
  qed
qed

definition link_of :: "lead_row \<Rightarrow> coded_link" where
  "link_of l = \<lparr>cl_campaignId = l_campaignId l, cl_partnerId = l_partnerId l, cl_eventId = l_eventId l,
     cl_suggestedOwnerId = l_ownerId l, cl_capturedById = l_capturedById l, cl_orgUnitId = l_orgUnitId l\<rparr>"

lemma capture_new_leads:
  assumes "capture_new campaigns masters rescore now input src0 coded known src i reference s = Inr c"
    and "i \<notin> l_id ` set (cr_leads s)"
  shows "\<exists>n. cr_leads c = cr_leads s @ [(capture_row campaigns now input coded src i reference)\<lparr>l_score := n\<rparr>]"
proof -
  let ?row = "capture_row campaigns now input coded src i reference"
  have idl: "l_id ?row = i" by (simp add: capture_row_def blank_lead_def)
  define side where "side s2 = (let s = first_history now i None s2;
        s = (if truthy (pi_message input) then note_activity i (pi_message input) None s else s);
        s = publish i ''lead.captured'' (consent i s);
        s = attend (cl_eventId coded) i known s;
        s = (if known then s\<lparr>cr_activities := insert_row
               \<lparr>el_entityType = ''LEAD'', el_entityId = i, ac_type = ''NOTE'', ac_body = None,
                ac_actorId = None, ac_isSystemGenerated = True\<rparr> (cr_activities s)\<rparr> else s)
      in s\<lparr>cr_audit := insert_row (audit_entry ''CREATE'' ''lead.capture'' i) (cr_audit s)\<rparr>)" for s2
  have side: "cr_leads (side s2) = cr_leads s2" for s2 by (simp add: side_def Let_def)
  have eq: "capture_new campaigns masters rescore now input src0 coded known src i reference s =
      and_then (masters src0 (pi_productInterest input)) (\<lambda>_. and_then (insert_lead ?row s) (\<lambda>s.
        and_then (update_lead i (\<lambda>l. l\<lparr>l_score := rescore ?row 0\<rparr>) s) (\<lambda>s. Inr (side s))))"
    by (simp add: capture_new_def side_def Let_def)
  from assms(1) [unfolded eq] obtain c1 c2 where
    c: "insert_lead ?row s = Inr c1" "update_lead i (\<lambda>l. l\<lparr>l_score := rescore ?row 0\<rparr>) c1 = Inr c2" "side c2 = c"
    by (simp only: and_then_Inr sum.inject) (elim exE conjE)
  have "l_id ?row \<notin> l_id ` set (cr_leads s)" using assms(2) by (simp only: idl not_False_eq_True)
  from rescored_lead [OF c(1) this idl, of "rescore ?row 0"] c(2)
  have "c2 = c1\<lparr>cr_leads := cr_leads s @ [?row\<lparr>l_score := rescore ?row 0\<rparr>]\<rparr>" by (simp only: sum.inject)
  then have "cr_leads (side c2) = cr_leads s @ [?row\<lparr>l_score := rescore ?row 0\<rparr>]" unfolding side by simp
  then show ?thesis unfolding c(3) by (rule exI)
qed

text \<open>
  C28. What a public submission is credited to. The form carries codes, never identifiers. When it
  opens a lead, the partner, event and rep on it are what its codes entitle it to: a live active
  partner with that code; or a live event with that code that takes captures at that moment, at that
  event's unit, in the name of nobody or of an active person with that employee code and event access
  whose own chain of units contains the event's; the owner is the credited rep, and partner and event
  exclude each other. When it repeats an open enquiry, no lead changes hands, event, partner or unit.
\<close>

theorem submission_is_credited_by_code:
  assumes "capture campaigns masters rescore now input src0 (fst (resolve_codes d now codes s)) known src i reference (ps_crm s) =
      Inr (repeat, ref, c)"
    and "i \<notin> l_id ` set (cr_leads (ps_crm s))"
  shows "if repeat then map link_of (cr_leads c) = map link_of (cr_leads (ps_crm s))
    else \<exists>l link. cr_leads c = cr_leads (ps_crm s) @ [l] \<and> l_id l = i \<and> rightful_link d now codes s link \<and>
      l_partnerId l = cl_partnerId link \<and> l_eventId l = cl_eventId link \<and> l_capturedById l = cl_capturedById link \<and>
      l_ownerId l = l_capturedById l \<and> l_orgUnitId l = cl_orgUnitId link \<and> (l_partnerId l = None \<or> l_eventId l = None)"
proof (cases "find (\<lambda>l. l_mobile l = pi_mobile input \<and> live_lead l) (cr_leads (ps_crm s))")
  case (Some existing)
  then have r: "repeat" "capture_repeat now input (fst (resolve_codes d now codes s)) existing (ps_crm s) = Inr c"
    using assms(1) by (auto simp: capture_def and_then_Inr)
  from r(2) have "cr_leads c = update_by l_id (l_id existing) (\<lambda>l. l\<lparr>l_lastActivityAt := Some now, l_priority := ''HIGH''\<rparr>) (cr_leads (ps_crm s))"
    by (auto simp: capture_repeat_def Let_def and_then_Inr update_lead_Inr)
  then show ?thesis using r(1) by (simp add: update_by_def update_where_def link_of_def)
next
  case None
  then have r: "\<not> repeat" "capture_new campaigns masters rescore now input src0 (fst (resolve_codes d now codes s)) known src i reference
      (ps_crm s) = Inr c"
    using assms(1) by (auto simp: capture_def and_then_Inr)
  note new = capture_new_leads [OF r(2) assms(2)]
  note ok = resolve_codes_rightful [of d now codes s]
  have "l_ownerId (capture_row campaigns now input link src i reference) = l_capturedById (capture_row campaigns now input link src i reference) \<and>
      (cl_partnerId link = None \<or> cl_eventId link = None)" if "rightful_link d now codes s link" for link
    using that by (auto simp: rightful_link_def capture_row_def unresolved_def)
  then show ?thesis using new ok r(1) by (auto simp: capture_row_def blank_lead_def)
qed

definition demo_badge :: capture_codes where
  "demo_badge = \<lparr>cc_partnerCode = None, cc_eventCode = Some ''EXPO'', cc_repCode = Some '' sihl-0007 ''\<rparr>"

definition demo_team :: directory where
  "demo_team = demo_directory\<lparr>dir_users := [(demo_account ''u1'')\<lparr>u_employeeCode := Some ''SIHL-0007''\<rparr>]\<rparr>"

definition demo_visitor :: capture_input where
  "demo_visitor = \<lparr>pi_firstName = ''Ravi'', pi_lastName = None, pi_mobile = ''9811111111'', pi_email = None,
     pi_city = None, pi_productInterest = [], pi_message = None, pi_utmCampaign = None\<rparr>"

lemma submission_is_credited_by_code_witness:
  "\<exists>c l. capture [] (\<lambda>_ _. Inr ()) (\<lambda>_ _. 10) 150 demo_visitor ''WEBSITE'' (fst (resolve_codes demo_team 150 demo_badge demo_stall))
      False ''BRANCH_EVENT'' ''l2'' ''LD2'' (ps_crm demo_stall) = Inr (False, ''LD2'', c) \<and>
    cr_leads c = cr_leads (ps_crm demo_stall) @ [l] \<and> l_ownerId l = Some ''u1'' \<and> l_eventId l = Some ''e1''"
proof -
  let ?link = "fst (resolve_codes demo_team 150 demo_badge demo_stall)"
  let ?r = "capture [] (\<lambda>_ _. Inr ()) (\<lambda>_ _. 10) 150 demo_visitor ''WEBSITE'' ?link False ''BRANCH_EVENT'' ''l2'' ''LD2'' (ps_crm demo_stall)"
  have "\<not> isl ?r" "fst (projr ?r) = False" "fst (snd (projr ?r)) = ''LD2''" by code_simp+
  then obtain c where run: "?r = Inr (False, ''LD2'', c)" by (cases ?r) auto
  have "list_all (\<lambda>l. l_id l \<noteq> ''l2'') (cr_leads (ps_crm demo_stall))" by code_simp
  then have "''l2'' \<notin> l_id ` set (cr_leads (ps_crm demo_stall))" by (auto simp: list_all_iff)
  from submission_is_credited_by_code [OF run this] obtain l where l: "cr_leads c = cr_leads (ps_crm demo_stall) @ [l]"
    "l_ownerId l = l_capturedById l" by auto
  have "l_ownerId (last (cr_leads (snd (snd (projr ?r))))) = Some ''u1'' \<and> l_eventId (last (cr_leads (snd (snd (projr ?r))))) = Some ''e1''"
    by code_simp
  then have "l_ownerId l = Some ''u1'' \<and> l_eventId l = Some ''e1''" by (simp add: run l(1))
  then show ?thesis using run l(1) by blast
qed

definition demo_nothing :: event_state where
  "demo_nothing = \<lparr>ps_partners = [], ps_crm = crm_empty, es_events = []\<rparr>"

definition demo_plan_event :: create_event_input where
  "demo_plan_event = \<lparr>ce_name = ''Expo'', ce_code = ''expo-26'', ce_venue = None, ce_city = None, ce_startsAt = 100, ce_endsAt = Some 200,
     ce_expectedFootfall = None, ce_ownerId = None, ce_orgUnitId = None, ce_campaignId = None\<rparr>"

definition demo_planned :: event_state where
  "demo_planned = projr (create_event demo_rep ''e9'' ''EV9'' demo_plan_event demo_nothing)"

definition demo_cancelled :: event_state where
  "demo_cancelled = projr (changeStatus_event ''e9'' CANCELLED_EVENT demo_planned)"

lemma demo_event_reach: "event_reach demo_planned" "event_reach demo_cancelled"
proof -
  have none: "event_reach demo_nothing" by (rule none_yet) (simp add: demo_nothing_def)
  have "\<not> isl (create_event demo_rep ''e9'' ''EV9'' demo_plan_event demo_nothing)" by code_simp
  then have c: "create_event demo_rep ''e9'' ''EV9'' demo_plan_event demo_nothing = Inr demo_planned" by (simp add: demo_planned_def)
  have "createEventSchema demo_plan_event" by code_simp
  then show p: "event_reach demo_planned"
    by (intro one_more [OF none] event_step.created [OF _ _ c]) (simp_all add: demo_nothing_def)
  have "\<not> isl (changeStatus_event ''e9'' CANCELLED_EVENT demo_planned)" by code_simp
  then have "changeStatus_event ''e9'' CANCELLED_EVENT demo_planned = Inr demo_cancelled" by (simp add: demo_cancelled_def)
  then show "event_reach demo_cancelled" by (rule one_more [OF p event_step.moved])
qed

lemma event_book_sound_witness:
  "map ew_code (es_events demo_cancelled) = [''expo-26''] \<and> distinct (map ew_code (es_events demo_cancelled))"
proof -
  have "map ew_code (es_events demo_cancelled) = [''expo-26'']" by code_simp
  then show ?thesis using event_book_sound [OF demo_event_reach(2)] by simp
qed

lemma closed_event_gains_no_leads_witness:
  "cl_eventId (fst (resolve_codes demo_team 150 \<lparr>cc_partnerCode = None, cc_eventCode = Some ''expo-26'', cc_repCode = None\<rparr> demo_cancelled))
     \<noteq> Some ''e9''"
proof -
  obtain e where e: "es_events demo_cancelled = [e]" "ew_id e = ''e9''" "ew_status e = CANCELLED_EVENT"
  proof -
    have "map (\<lambda>e. (ew_id e, ew_status e)) (es_events demo_cancelled) = [(''e9'', CANCELLED_EVENT)]" by code_simp
    then show ?thesis using that by auto
  qed
  have "e \<in> set (es_events demo_cancelled)" "closed_event e" using e by (simp_all add: closed_event_def)
  from closed_event_gains_no_leads [OF demo_event_reach(2) this rtranclp.rtrancl_refl] show ?thesis
    using e(2) by simp
qed

text \<open>
  The check of a new event's code goes one way. An event may not take a partner's code, but a code
  issued to a partner is compared with the codes of partners only.
\<close>

lemma partner_may_take_event_code:
  "let s = demo_nothing\<lparr>ps_partners := [\<lparr>pt_id = ''p1'', pt_name = ''A'', pt_status = ACTIVE_PARTNER, pt_referralCode = None,
             pt_commissionRate = None, pt_deletedAt = None\<rparr>],
           es_events := [demo_event ''e1'' ''adgkpsvy'' RUNNING_EVENT]\<rparr>;
       r = rotateReferralCode demo_pick [] ''p1'' ''card lost'' s
   in \<not> isl r \<and> to_lower (fst (fst (projr r))) = ''adgkpsvy''"
  by code_simp

end
