(* ===== verification/Masking.thy ===== *)
theory Masking
  imports Prelude
begin

text \<open>
  What a screen shows of a number that is not its reader's to copy: \<open>packages/contracts/src/masking.ts\<close>.
  The bullet is a character beyond the code units of the model and a parameter.
\<close>

definition maskMobile :: "char \<Rightarrow> string option \<Rightarrow> string" where
  "maskMobile bullet mobile =
    (if \<not> truthy mobile then []
     else let digits = filter is_digit (the mobile)
          in if length digits < 4 then replicate 4 bullet
             else replicate (length digits - 4) bullet @ slice_last 4 digits)"

text \<open>\<open>email.split('@')\<close> with the first two pieces; a missing second piece is empty.\<close>

definition maskEmail :: "char \<Rightarrow> string option \<Rightarrow> string" where
  "maskEmail bullet email =
    (if \<not> truthy email then []
     else let pieces = split_on (CHR ''@'') (the email); name = hd pieces;
              domain = (case tl pieces of [] \<Rightarrow> [] | d # _ \<Rightarrow> d)
          in if domain = [] then replicate 4 bullet
             else let kept = take (min 2 (length name)) name
                  in kept @ replicate (max 2 (length name - length kept)) bullet @ ''@'' @ domain)"

definition maskPan :: "char \<Rightarrow> string option \<Rightarrow> string" where
  "maskPan bullet pan =
    (if \<not> truthy pan \<or> length (the pan) \<noteq> 10 then []
     else take 3 (the pan) @ replicate 4 bullet @ slice_last 1 (the pan))"

definition maskAccountNumber :: "char \<Rightarrow> string option \<Rightarrow> string" where
  "maskAccountNumber bullet value =
    (if \<not> truthy value then []
     else if length (the value) \<le> 4 then replicate 4 bullet
     else replicate 4 bullet @ slice_last 4 (the value))"

text \<open>
  A mask depends on what it may show and on nothing else: numbers with as many digits and the same
  last four look the same, and so do addresses with the same domain, the same first two characters and
  as long a name, PANs with the same first three characters and the same last, and account numbers
  with the same last four characters.
\<close>

theorem masks_hide_the_rest:
  fixes m m' e e' p p' a a' :: string
  assumes "length (filter is_digit m) = length (filter is_digit m')"
    and "slice_last 4 (filter is_digit m) = slice_last 4 (filter is_digit m')" and "m \<noteq> []" "m' \<noteq> []"
    and "take 2 n = take 2 n'" "length n = length n'" "CHR ''@'' \<notin> set n" "CHR ''@'' \<notin> set n'"
    and "length p = 10" "length p' = 10" "take 3 p = take 3 p'" "last p = last p'"
    and "4 < length a" "4 < length a'" "slice_last 4 a = slice_last 4 a'"
  shows "maskMobile bullet (Some m) = maskMobile bullet (Some m') \<and>
    maskEmail bullet (Some (n @ CHR ''@'' # d)) = maskEmail bullet (Some (n' @ CHR ''@'' # d)) \<and>
    maskPan bullet (Some p) = maskPan bullet (Some p') \<and>
    maskAccountNumber bullet (Some a) = maskAccountNumber bullet (Some a')"
proof -
  have "maskMobile bullet (Some m) = maskMobile bullet (Some m')"
    using assms(1-4) by (simp add: maskMobile_def truthy_def Let_def)
  moreover have "maskEmail bullet (Some (n @ CHR ''@'' # d)) = maskEmail bullet (Some (n' @ CHR ''@'' # d))"
  proof -
    have "take (min 2 (length w)) w = take 2 w" for w :: string by (simp add: min_def)
    then have "take (min 2 (length n)) n = take (min 2 (length n')) n'" using assms(5) by simp
    then show ?thesis using assms(6-8) by (simp add: maskEmail_def truthy_def Let_def split_on_append split: list.split)
  qed
  moreover have "slice_last 1 w = [last w]" if "w \<noteq> []" for w :: string
    using that by (cases w rule: rev_cases) (simp_all add: slice_last_def)
  then have "maskPan bullet (Some p) = maskPan bullet (Some p')"
    using assms(9-12) by (cases p; cases p') (auto simp: maskPan_def truthy_def)
  moreover have "maskAccountNumber bullet (Some a) = maskAccountNumber bullet (Some a')"
    using assms(13-15) by (auto simp: maskAccountNumber_def truthy_def)
  ultimately show ?thesis by simp
qed

lemma masks_hide_the_rest_witness:
  "maskMobile (CHR ''*'') (Some ''+91 98765 43210'') = maskMobile (CHR ''*'') (Some ''911234543210'') \<and>
   maskEmail (CHR ''*'') (Some ''asha@home.in'') = ''as**@home.in''"
proof -
  have "maskMobile (CHR ''*'') (Some ''+91 98765 43210'') = maskMobile (CHR ''*'') (Some ''911234543210'') \<and>
      maskEmail (CHR ''*'') (Some (''asha'' @ CHR ''@'' # ''home.in'')) = maskEmail (CHR ''*'') (Some (''ashi'' @ CHR ''@'' # ''home.in''))"
    using masks_hide_the_rest [of "''+91 98765 43210''" "''911234543210''" "''asha''" "''ashi''" "''ABCDE1234F''" "''ABCXY9876F''"
        "''123456789''" "''55556789''" "CHR ''*''" "''home.in''"]
    by (simp add: slice_last_def is_digit_def)
  moreover have "maskEmail (CHR ''*'') (Some ''asha@home.in'') = ''as**@home.in''" by code_simp
  ultimately show ?thesis by simp
qed

text \<open>\<open>maskEmail\<close> always shows at least two bullets, so a two-letter name gains two, and a longer one shows its length.\<close>

lemma mask_keeps_length: "length name = k \<Longrightarrow> 4 \<le> k \<Longrightarrow> CHR ''@'' \<notin> set name \<Longrightarrow> d \<noteq> [] \<Longrightarrow> CHR ''@'' \<notin> set d \<Longrightarrow>
    length (maskEmail bullet (Some (name @ CHR ''@'' # d))) = k + 1 + length d"
  by (simp add: maskEmail_def truthy_def split_on_append)

end
