(* ===== verification/Presentations.thy ===== *)
theory Presentations
  imports Events Masking ImportText Otp
begin

text \<open>
  Talks at an event and the seats visitors book: \<open>modules/presentations/presentations.service.ts\<close> with
  \<open>common/ist-day.ts\<close>. The booking token is verified outside the model, the mailer answers or throws,
  and a calendar day is the number of the day on which an instant falls in India; for years of four
  digits the order of the numbers is the order of the dates as text. The confirmation mail is left out.
\<close>

section \<open>Days\<close>

definition IST_OFFSET_MS :: int where
  "IST_OFFSET_MS = 330 * 60000"

definition istDayKey :: "time \<Rightarrow> int" where
  "istDayKey t = (t + IST_OFFSET_MS) div DAY_MS"

definition istDayStart :: "time \<Rightarrow> time" where
  "istDayStart t = istDayKey t * DAY_MS - IST_OFFSET_MS"

definition istDayEnd :: "time \<Rightarrow> time" where
  "istDayEnd t = istDayKey t * DAY_MS - IST_OFFSET_MS + DAY_MS - 1"

lemma div_range: "0 < n \<Longrightarrow> x div n = k \<longleftrightarrow> k * n \<le> x \<and> x < k * n + n" for x :: int
proof
  assume n: "0 < n" and k: "x div n = k"
  have "k * n + x mod n = x" using div_mult_mod_eq [of x n] by (simp only: k)
  then show "k * n \<le> x \<and> x < k * n + n"
    using pos_mod_bound [OF n, of x] pos_mod_sign [OF n, of x] by linarith
next
  assume "0 < n" "k * n \<le> x \<and> x < k * n + n"
  then show "x div n = k" by (intro int_div_pos_eq [of x n k "x - k * n"]) (auto simp: algebra_simps)
qed

lemma ist_day_iff: "istDayKey u = istDayKey t \<longleftrightarrow> istDayStart t \<le> u \<and> u \<le> istDayEnd t"
  using div_range [of DAY_MS "u + IST_OFFSET_MS" "istDayKey t"]
  by (auto simp: istDayStart_def istDayEnd_def istDayKey_def [of u] DAY_MS_def)

lemma ist_day_bounds: "istDayStart t \<le> t \<and> t \<le> istDayEnd t"
  using ist_day_iff [of t t] by simp

section \<open>Talks and seats\<close>

record slot_row =
  sl_id :: string
  sl_eventId :: string
  sl_startsAt :: time
  sl_durationMinutes :: int
  sl_topic :: string
  sl_presenterName :: "string option"
  sl_capacity :: "int option"
  sl_isActive :: bool
  sl_createdById :: "string option"

record booking_row =
  bk_slotId :: string
  bk_leadId :: string
  bk_createdAt :: time

record talk_state = event_state +
  ts_slots :: "slot_row list"
  ts_bookings :: "booking_row list"

interpretation slot_table: repository "find_by sl_id" "update_by sl_id" insert_row sl_id
  by (rule repository_by)

record slot_summary =
  sy_id :: string
  sy_startsAt :: time
  sy_durationMinutes :: int
  sy_topic :: string
  sy_presenterName :: "string option"
  sy_capacity :: "int option"
  sy_isActive :: bool
  sy_registered :: nat

definition toSummary :: "booking_row list \<Rightarrow> slot_row \<Rightarrow> slot_summary" where
  "toSummary bookings slot =
    \<lparr>sy_id = sl_id slot, sy_startsAt = sl_startsAt slot, sy_durationMinutes = sl_durationMinutes slot, sy_topic = sl_topic slot,
     sy_presenterName = sl_presenterName slot, sy_capacity = sl_capacity slot, sy_isActive = sl_isActive slot,
     sy_registered = count_where (\<lambda>b. bk_slotId b = sl_id slot) bookings\<rparr>"

text \<open>A \<open>Map\<close> from days to slots keeps its days in the order of their first slot; the days are then sorted.\<close>

fun push_day :: "int \<Rightarrow> slot_summary \<Rightarrow> (int \<times> slot_summary list) list \<Rightarrow> (int \<times> slot_summary list) list" where
  "push_day date slot [] = [(date, [slot])]"
| "push_day date slot ((d, entries) # days) =
    (if d = date then (d, entries @ [slot]) # days else (d, entries) # push_day date slot days)"

definition groupByDay :: "slot_summary list \<Rightarrow> (int \<times> slot_summary list) list" where
  "groupByDay slots =
    js_sort (\<lambda>a b. fst a - fst b) (foldl (\<lambda>days slot. push_day (istDayKey (sy_startsAt slot)) slot days) [] slots)"

definition by_start :: "slot_row list \<Rightarrow> slot_row list" where
  "by_start slots = js_sort (\<lambda>a b. sl_startsAt a - sl_startsAt b) slots"

definition schedule :: "string \<Rightarrow> 'a talk_state_scheme \<Rightarrow> (int \<times> slot_summary list) list" where
  "schedule eventId s = groupByDay (map (toSummary (ts_bookings s)) (by_start (filter (\<lambda>l. sl_eventId l = eventId) (ts_slots s))))"

definition bookable :: "time \<Rightarrow> string \<Rightarrow> 'a talk_state_scheme \<Rightarrow> (int \<times> slot_summary list) list" where
  "bookable now eventId s =
    groupByDay (map (toSummary (ts_bookings s))
      (by_start (filter (\<lambda>l. sl_eventId l = eventId \<and> sl_isActive l \<and> now < sl_startsAt l) (ts_slots s))))"

definition bookableByCode :: "time \<Rightarrow> string \<Rightarrow> 'a talk_state_scheme \<Rightarrow> (int \<times> slot_summary list) list" where
  "bookableByCode now eventCode s =
    (case find (\<lambda>e. ew_code e = eventCode \<and> ew_deletedAt e = None) (es_events s) of
       None \<Rightarrow> []
     | Some e \<Rightarrow> (if \<not> ew_allowsPresentationBooking e then [] else bookable now (ew_id e) s))"

record attendee =
  at_leadId :: string
  at_reference :: string
  at_fullName :: string
  at_mobileMasked :: string
  at_email :: "string option"
  at_bookedAt :: time

definition lead_full_name :: "lead_row \<Rightarrow> string" where
  "lead_full_name l = js_trim (l_firstName l @ '' '' @ (case l_lastName l of None \<Rightarrow> [] | Some n \<Rightarrow> n))"

definition bookings_of :: "string \<Rightarrow> 'a talk_state_scheme \<Rightarrow> (booking_row \<times> lead_row) list" where
  "bookings_of slotId s =
    List.map_filter (\<lambda>b. map_option (\<lambda>l. (b, l)) (find_by l_id (bk_leadId b) (cr_leads (ps_crm s))))
      (js_sort (\<lambda>a b. bk_createdAt a - bk_createdAt b) (filter (\<lambda>b. bk_slotId b = slotId) (ts_bookings s)))"

definition attendees :: "char \<Rightarrow> string \<Rightarrow> 'a talk_state_scheme \<Rightarrow> attendee list" where
  "attendees bullet slotId s =
    map (\<lambda>(b, l). \<lparr>at_leadId = l_id l, at_reference = l_reference l, at_fullName = lead_full_name l,
      at_mobileMasked = maskMobile bullet (Some (l_mobile l)), at_email = l_email l, at_bookedAt = bk_createdAt b\<rparr>)
      (bookings_of slotId s)"

definition attendeesCsv :: "char \<Rightarrow> (time \<Rightarrow> string) \<Rightarrow> string \<Rightarrow> 'a talk_state_scheme \<Rightarrow> (string \<times> nat) result" where
  "attendeesCsv bom isoText slotId s =
    (case find_by sl_id slotId (ts_slots s) of
       None \<Rightarrow> Inl (NotFound ''No such talk'')
     | Some slot \<Rightarrow>
         let rows = bookings_of slotId s in
         Inr (csv_document bom
           ([''Reference'', ''Name'', ''Mobile'', ''Email'', ''City'', ''Booked at'', ''Talk''] #
            map (\<lambda>(b, l). [l_reference l, lead_full_name l, l_mobile l, given (l_email l) [], given (l_city l) [],
              isoText (bk_createdAt b), sl_topic slot]) rows), length rows))"

section \<open>The desk\<close>

record create_slot_input =
  cs_startsAt :: time
  cs_durationMinutes :: int
  cs_topic :: string
  cs_presenterName :: "string option"
  cs_capacity :: "int option"

definition SLOT_MAX_DURATION_MINUTES :: int where
  "SLOT_MAX_DURATION_MINUTES = 600"

definition presentationSlotDurationSchema :: "int \<Rightarrow> bool" where
  "presentationSlotDurationSchema n \<longleftrightarrow> 1 \<le> n \<and> n \<le> SLOT_MAX_DURATION_MINUTES"

definition createPresentationSlotSchema :: "create_slot_input \<Rightarrow> bool" where
  "createPresentationSlotSchema input \<longleftrightarrow> presentationSlotDurationSchema (cs_durationMinutes input) \<and>
    1 \<le> length (cs_topic input) \<and> length (cs_topic input) \<le> 160 \<and>
    (case cs_presenterName input of None \<Rightarrow> True | Some n \<Rightarrow> length n \<le> 120) \<and>
    (case cs_capacity input of None \<Rightarrow> True | Some n \<Rightarrow> 0 < n \<and> n \<le> 100000)"

definition mustFindEvent :: "string \<Rightarrow> 'a event_state_scheme \<Rightarrow> event_row result" where
  "mustFindEvent i s =
    (case find (\<lambda>e. ew_id e = i \<and> ew_deletedAt e = None) (es_events s) of
       None \<Rightarrow> Inl (NotFound ''No such event'')
     | Some e \<Rightarrow> Inr e)"

definition assertWithinEvent :: "event_row \<Rightarrow> time \<Rightarrow> unit result" where
  "assertWithinEvent e startsAt =
    (if istDayKey startsAt < istDayKey (ew_startsAt e) \<or> istDayKey (event_end (ew_startsAt e) (ew_endsAt e)) < istDayKey startsAt
     then Inl (BadRequest ''That time is outside the event'') else Inr ())"

definition new_slot :: "string \<Rightarrow> string \<Rightarrow> string \<Rightarrow> create_slot_input \<Rightarrow> slot_row" where
  "new_slot i userId eventId input =
    \<lparr>sl_id = i, sl_eventId = eventId, sl_startsAt = cs_startsAt input, sl_durationMinutes = cs_durationMinutes input,
     sl_topic = cs_topic input, sl_presenterName = cs_presenterName input, sl_capacity = cs_capacity input,
     sl_isActive = True, sl_createdById = Some userId\<rparr>"

definition createSlot ::
    "string \<Rightarrow> string \<Rightarrow> string \<Rightarrow> create_slot_input \<Rightarrow> 'a talk_state_scheme \<Rightarrow> (slot_summary \<times> 'a talk_state_scheme) result" where
  "createSlot i userId eventId input s =
    and_then (mustFindEvent eventId s) (\<lambda>e.
    and_then (assertWithinEvent e (cs_startsAt input)) (\<lambda>_.
    let slot = new_slot i userId eventId input
    in Inr (toSummary (ts_bookings s) slot,
         event_audit ''CREATE'' ''event.slot'' i (s\<lparr>ts_slots := insert_row slot (ts_slots s)\<rparr>))))"

record update_slot_input =
  us_startsAt :: "time option"
  us_durationMinutes :: "int option"
  us_topic :: "string option"
  us_presenterName :: "string option"
  us_capacity :: "int option"
  us_isActive :: "bool option"

definition edit_slot :: "update_slot_input \<Rightarrow> slot_row \<Rightarrow> slot_row" where
  "edit_slot input l =
    l\<lparr>sl_startsAt := given (us_startsAt input) (sl_startsAt l), sl_durationMinutes := given (us_durationMinutes input) (sl_durationMinutes l),
      sl_topic := given (us_topic input) (sl_topic l), sl_presenterName := or_else (us_presenterName input) (sl_presenterName l),
      sl_capacity := or_else (us_capacity input) (sl_capacity l), sl_isActive := given (us_isActive input) (sl_isActive l)\<rparr>"

definition updateSlot ::
    "string \<Rightarrow> update_slot_input \<Rightarrow> 'a talk_state_scheme \<Rightarrow> (slot_summary \<times> 'a talk_state_scheme) result" where
  "updateSlot i input s =
    (case find_by sl_id i (ts_slots s) of
       None \<Rightarrow> Inl (NotFound ''No such talk'')
     | Some existing \<Rightarrow>
         and_then (case us_startsAt input of None \<Rightarrow> Inr ()
           | Some t \<Rightarrow> and_then (mustFindEvent (sl_eventId existing) s) (\<lambda>e. assertWithinEvent e t)) (\<lambda>_.
         Inr (toSummary (ts_bookings s) (edit_slot input existing),
           event_audit ''UPDATE'' ''event.slot'' i (s\<lparr>ts_slots := update_by sl_id i (edit_slot input) (ts_slots s)\<rparr>))))"

section \<open>The visitor\<close>

record book_input =
  bi_bookingToken :: string
  bi_slotIds :: "string list"
  bi_email :: "string option"

record booking_result =
  br_booked :: "slot_row list"
  br_skipped :: int
  br_emailed :: bool

text \<open>\<open>verify_token\<close> gives the subject and the purpose of a token that is genuine and has not expired.\<close>

definition leadFromToken :: "(string \<Rightarrow> (string \<times> string option) option) \<Rightarrow> string \<Rightarrow> string result" where
  "leadFromToken verify_token token =
    (case verify_token token of
       None \<Rightarrow> Inl (Unauthorized ''That booking session has expired'')
     | Some (sub, purpose) \<Rightarrow>
         (if purpose \<noteq> Some ''presentation_booking'' \<or> sub = []
          then Inl (Unauthorized ''That booking session has expired'') else Inr sub))"

definition open_slot :: "time \<Rightarrow> event_row list \<Rightarrow> string list \<Rightarrow> slot_row \<Rightarrow> bool" where
  "open_slot now events asked l \<longleftrightarrow> sl_id l \<in> set asked \<and> sl_isActive l \<and> now < sl_startsAt l \<and>
     list_ex (\<lambda>e. ew_id e = sl_eventId l \<and> ew_allowsPresentationBooking e) events"

text \<open>\<open>createMany\<close> with \<open>skipDuplicates\<close> on the unique pair of slot and lead.\<close>

definition hold_seat :: "time \<Rightarrow> string \<Rightarrow> booking_row list \<Rightarrow> slot_row \<Rightarrow> booking_row list" where
  "hold_seat now leadId bookings slot =
    (if list_ex (\<lambda>b. bk_slotId b = sl_id slot \<and> bk_leadId b = leadId) bookings then bookings
     else insert_row \<lparr>bk_slotId = sl_id slot, bk_leadId = leadId, bk_createdAt = now\<rparr> bookings)"

definition hold_seats :: "time \<Rightarrow> string \<Rightarrow> slot_row list \<Rightarrow> booking_row list \<Rightarrow> booking_row list" where
  "hold_seats now leadId slots bookings = foldl (hold_seat now leadId) bookings slots"

definition keep_email :: "string option \<Rightarrow> lead_row \<Rightarrow> 'a talk_state_scheme \<Rightarrow> 'a talk_state_scheme result" where
  "keep_email email lead s =
    (if truthy email \<and> email \<noteq> l_email lead
     then and_then (update_lead (l_id lead) (\<lambda>l. l\<lparr>l_email := email\<rparr>) (ps_crm s)) (\<lambda>c. Inr (s\<lparr>ps_crm := c\<rparr>))
     else Inr s)"

text \<open>\<open>send address\<close> is what the mailer reports, nothing when it throws.\<close>

definition book ::
    "(string \<Rightarrow> (string \<times> string option) option) \<Rightarrow> (string \<Rightarrow> bool option) \<Rightarrow> time \<Rightarrow> book_input \<Rightarrow> 'a talk_state_scheme \<Rightarrow>
     booking_result result \<times> 'a talk_state_scheme" where
  "book verify_token send now input s =
    (case leadFromToken verify_token (bi_bookingToken input) of
       Inl e \<Rightarrow> (Inl e, s)
     | Inr leadId \<Rightarrow>
         (case find_by l_id leadId (cr_leads (ps_crm s)) of
            None \<Rightarrow> (Inl (NotFound ''No such registration''), s)
          | Some lead \<Rightarrow>
              (if l_mobileVerifiedAt lead = None then (Inl (BadRequest ''Confirm your mobile number first''), s)
               else
                 let slots = by_start (filter (open_slot now (es_events s) (bi_slotIds input)) (ts_slots s));
                     s = s\<lparr>ts_bookings := hold_seats now (l_id lead) slots (ts_bookings s)\<rparr>;
                     email = or_else (bi_email input) (l_email lead)
                 in case keep_email (bi_email input) lead s of
                     Inl e \<Rightarrow> (Inl e, s)
                   | Inr s \<Rightarrow>
                       (Inr \<lparr>br_booked = slots, br_skipped = int (length (bi_slotIds input)) - int (length slots),
                          br_emailed = (truthy email \<and> slots \<noteq> [] \<and> send (the email) = Some True)\<rparr>, s))))"

section \<open>The schedule by day\<close>

lemma js_sort_sorted: "sorted_wrt (\<lambda>x y. c x y \<le> 0) xs \<Longrightarrow> js_sort c xs = xs"
proof (induction xs)
  case (Cons x xs)
  then show ?case by (cases xs) auto
qed simp

lemma push_day_last:
  assumes "sorted_wrt (<) (map fst days)" and "\<forall>d \<in> set days. fst d \<le> date"
  shows "push_day date slot days =
    (if days \<noteq> [] \<and> fst (last days) = date then butlast days @ [(date, snd (last days) @ [slot])] else days @ [(date, [slot])])"
  using assms
proof (induction days)
  case Nil
  then show ?case by simp
next
  case (Cons x days)
  obtain d entries where x: "x = (d, entries)" by (metis surj_pair)
  show ?case
  proof (cases "days = []")
    case True
    then show ?thesis by (simp add: x)
  next
    case False
    then have "d < fst (last days)" using Cons.prems(1) by (auto simp: x)
    then have "d \<noteq> date" using Cons.prems(2) False last_in_set by fastforce
    then show ?thesis using Cons False by (simp add: x)
  qed
qed

definition days_ok :: "(int \<times> slot_summary list) list \<Rightarrow> slot_summary list \<Rightarrow> bool" where
  "days_ok days slots \<longleftrightarrow> concat (map snd days) = slots \<and> sorted_wrt (<) (map fst days) \<and>
    (\<forall>d \<in> set days. snd d \<noteq> [] \<and> (\<forall>e \<in> set (snd d). istDayKey (sy_startsAt e) = fst d))"

lemma push_day_ok:
  assumes ok: "days_ok days slots" and later: "\<And>e. e \<in> set slots \<Longrightarrow> istDayKey (sy_startsAt e) \<le> istDayKey (sy_startsAt x)"
  shows "days_ok (push_day (istDayKey (sy_startsAt x)) x days) (slots @ [x])"
proof -
  let ?d = "istDayKey (sy_startsAt x)"
  have sorted: "sorted_wrt (<) (map fst days)" using ok by (simp add: days_ok_def)
  have le: "\<forall>d \<in> set days. fst d \<le> ?d"
  proof
    fix d assume d: "d \<in> set days"
    then obtain e where e: "e \<in> set (snd d)" "istDayKey (sy_startsAt e) = fst d" using ok by (fastforce simp: days_ok_def neq_Nil_conv)
    have "e \<in> set slots" using d e(1) ok by (auto simp: days_ok_def)
    then show "fst d \<le> ?d" using later e(2) by fastforce
  qed
  show ?thesis
  proof (cases days rule: rev_cases)
    case Nil
    then show ?thesis using ok by (simp add: days_ok_def)
  next
    case (snoc h l)
    show ?thesis
    proof (cases "fst l = ?d")
      case True
      then have "push_day ?d x days = h @ [(?d, snd l @ [x])]" using push_day_last [OF sorted le] snoc by simp
      then show ?thesis using ok True by (auto simp: days_ok_def snoc sorted_wrt_append)
    next
      case False
      then have eq: "push_day ?d x days = days @ [(?d, [x])]" using push_day_last [OF sorted le] snoc by simp
      have "fst l < ?d" using False le snoc by fastforce
      then have "\<forall>d \<in> set days. fst d < ?d" using sorted by (auto simp: snoc sorted_wrt_append)
      then show ?thesis using ok unfolding eq by (auto simp: days_ok_def sorted_wrt_append)
    qed
  qed
qed

lemma push_days_ok:
  assumes "sorted_wrt (\<lambda>a b. istDayKey (sy_startsAt a) \<le> istDayKey (sy_startsAt b)) slots"
  shows "days_ok (foldl (\<lambda>days slot. push_day (istDayKey (sy_startsAt slot)) slot days) [] slots) slots"
  using assms
proof (induction slots rule: rev_induct)
  case Nil
  then show ?case by (simp add: days_ok_def)
next
  case (snoc x xs)
  then show ?case using push_day_ok [of _ xs x] by (simp add: sorted_wrt_append)
qed

interpretation slot_starts: comparator "\<lambda>a b. sl_startsAt a - sl_startsAt (b :: slot_row)"
  by unfold_locales auto

lemma by_start_sorted: "sorted_wrt (\<lambda>a b. sl_startsAt a \<le> sl_startsAt b) (by_start slots)"
  using slot_starts.sorted_js_sort [of slots] by (simp add: by_start_def)

text \<open>
  C29. The schedule is the talks in the order they begin, cut where a day ends in India. Joining the
  days of a schedule gives every talk of the event once, sorted by its start; the days ascend and none
  is repeated; each holds at least one talk, and exactly those that begin between its two midnights.
\<close>

theorem schedule_cuts_at_midnight:
  "concat (map snd (schedule eventId s)) = map (toSummary (ts_bookings s)) (by_start (filter (\<lambda>l. sl_eventId l = eventId) (ts_slots s))) \<and>
   sorted_wrt (\<lambda>a b. sy_startsAt a \<le> sy_startsAt b) (concat (map snd (schedule eventId s))) \<and>
   mset (map sy_id (concat (map snd (schedule eventId s)))) = mset (map sl_id (filter (\<lambda>l. sl_eventId l = eventId) (ts_slots s))) \<and>
   sorted_wrt (<) (map fst (schedule eventId s)) \<and>
   list_all (\<lambda>(day, talks). talks \<noteq> [] \<and> list_all (\<lambda>t. day * 86400000 \<le> sy_startsAt t + 19800000 \<and>
     sy_startsAt t + 19800000 < (day + 1) * 86400000) talks) (schedule eventId s)"
proof -
  let ?slots = "by_start (filter (\<lambda>l. sl_eventId l = eventId) (ts_slots s))"
  let ?sy = "map (toSummary (ts_bookings s)) ?slots"
  let ?g = "foldl (\<lambda>days slot. push_day (istDayKey (sy_startsAt slot)) slot days) [] ?sy"
  have starts: "sorted_wrt (\<lambda>a b. sy_startsAt a \<le> sy_startsAt b) ?sy"
    using by_start_sorted by (simp add: sorted_wrt_map toSummary_def)
  then have "sorted_wrt (\<lambda>a b. istDayKey (sy_startsAt a) \<le> istDayKey (sy_startsAt b)) ?sy"
    by (rule sorted_wrt_mono_rel [rotated]) (simp add: istDayKey_def DAY_MS_def zdiv_mono1)
  then have g: "days_ok ?g ?sy" by (rule push_days_ok)
  then have "sorted_wrt (\<lambda>a b. fst a - fst b \<le> 0) ?g"
    by (auto simp: days_ok_def sorted_wrt_map elim: sorted_wrt_mono_rel [rotated])
  then have sched: "schedule eventId s = ?g" by (simp add: schedule_def groupByDay_def js_sort_sorted)
  have day: "k * 86400000 \<le> x + 19800000 \<and> x + 19800000 < (k + 1) * 86400000" if "istDayKey x = k" for x k
    using div_range [of DAY_MS "x + IST_OFFSET_MS" k] that by (simp add: istDayKey_def DAY_MS_def IST_OFFSET_MS_def algebra_simps)
  have "list_all (\<lambda>(day, talks). talks \<noteq> [] \<and> list_all (\<lambda>t. day * 86400000 \<le> sy_startsAt t + 19800000 \<and>
     sy_startsAt t + 19800000 < (day + 1) * 86400000) talks) ?g"
    unfolding list_all_iff
  proof
    fix d assume d: "d \<in> set ?g"
    obtain k talks where k: "d = (k, talks)" by (metis surj_pair)
    have "talks \<noteq> []" "\<forall>t \<in> set talks. istDayKey (sy_startsAt t) = k" using g d k by (auto simp: days_ok_def)
    then show "case d of (day, talks) \<Rightarrow> talks \<noteq> [] \<and> (\<forall>t \<in> set talks. day * 86400000 \<le> sy_startsAt t + 19800000 \<and>
        sy_startsAt t + 19800000 < (day + 1) * 86400000)"
      unfolding k prod.case using day by blast
  qed
  moreover have "mset (map sy_id ?sy) = mset (map sl_id (filter (\<lambda>l. sl_eventId l = eventId) (ts_slots s)))"
  proof -
    have "sy_id \<circ> toSummary (ts_bookings s) = sl_id" by (simp add: fun_eq_iff toSummary_def)
    then show ?thesis by (simp add: by_start_def)
  qed
  ultimately show ?thesis using g starts unfolding sched by (simp add: days_ok_def)
qed
section \<open>Seats\<close>

definition seat :: "booking_row \<Rightarrow> string \<times> string" where
  "seat b = (bk_slotId b, bk_leadId b)"

lemma held_iff: "list_ex (\<lambda>b. bk_slotId b = i \<and> bk_leadId b = leadId) bookings \<longleftrightarrow> (i, leadId) \<in> seat ` set bookings"
  by (auto simp: seat_def list_ex_iff image_iff)

lemma hold_seat_seats:
  "seat ` set (hold_seat now leadId bookings slot) = insert (sl_id slot, leadId) (seat ` set bookings)"
proof (cases "(sl_id slot, leadId) \<in> seat ` set bookings")
  case True
  then show ?thesis by (auto simp: hold_seat_def held_iff)
next
  case False
  then show ?thesis by (simp add: hold_seat_def held_iff insert_row_def) (simp add: seat_def)
qed

lemma hold_seat_adds:
  "\<exists>new. hold_seat now leadId bookings slot = bookings @ new \<and> (\<forall>b \<in> set new. seat b = (sl_id slot, leadId) \<and> seat b \<notin> seat ` set bookings) \<and>
     distinct (map seat new)"
  by (auto simp: hold_seat_def insert_row_def seat_def list_ex_iff image_iff)

lemma hold_seats_adds:
  "\<exists>new. hold_seats now leadId slots bookings = bookings @ new \<and>
     (\<forall>b \<in> set new. bk_leadId b = leadId \<and> bk_slotId b \<in> sl_id ` set slots \<and> seat b \<notin> seat ` set bookings) \<and> distinct (map seat new)"
proof (induction slots arbitrary: bookings)
  case Nil
  then show ?case by (simp add: hold_seats_def)
next
  case (Cons x slots)
  obtain n1 where n1: "hold_seat now leadId bookings x = bookings @ n1" "\<forall>b \<in> set n1. seat b = (sl_id x, leadId) \<and> seat b \<notin> seat ` set bookings"
    "distinct (map seat n1)" using hold_seat_adds by blast
  obtain n2 where n2: "hold_seats now leadId slots (bookings @ n1) = bookings @ n1 @ n2"
    "\<forall>b \<in> set n2. bk_leadId b = leadId \<and> bk_slotId b \<in> sl_id ` set slots \<and> seat b \<notin> seat ` set (bookings @ n1)" "distinct (map seat n2)"
    using Cons.IH [of "bookings @ n1"] by auto
  have "hold_seats now leadId (x # slots) bookings = bookings @ n1 @ n2" using n1(1) n2(1) by (simp add: hold_seats_def)
  moreover have "distinct (map seat (n1 @ n2))" using n1(3) n2(2,3) by (auto simp: image_iff)
  moreover have "\<forall>b \<in> set (n1 @ n2). bk_leadId b = leadId \<and> bk_slotId b \<in> sl_id ` set (x # slots) \<and> seat b \<notin> seat ` set bookings"
    using n1(2) n2(2) by (auto simp: seat_def)
  ultimately show ?case by blast
qed

lemma hold_seats_seats: "seat ` set (hold_seats now leadId slots bookings) = (\<lambda>l. (sl_id l, leadId)) ` set slots \<union> seat ` set bookings"
proof (induction slots arbitrary: bookings)
  case Nil
  then show ?case by (simp add: hold_seats_def)
next
  case (Cons x slots)
  then show ?case using hold_seat_seats [of now leadId bookings x] by (simp add: hold_seats_def)
qed

lemma leadFromToken_Inr: "leadFromToken verify_token token = Inr leadId \<longleftrightarrow>
    verify_token token = Some (leadId, Some ''presentation_booking'') \<and> leadId \<noteq> []"
  by (auto simp: leadFromToken_def split: option.splits)

text \<open>
  C30. A seat is held exactly where one may be. When a booking goes through, the token was a genuine
  booking token for a lead whose number is proven; the talks booked are those asked for that are
  still on, have not begun and belong to an event whose booking is open, each of them once; booked and
  skipped add up to what was asked; the lead holds a seat at each, nobody else's seat changes, no seat
  is ever given up, none is held twice, and the talks themselves stay as they are.
\<close>

theorem booking_holds_open_talks:
  assumes "book verify_token send now input s = (Inr r, s')" and "distinct (map sl_id (ts_slots s))"
  shows "\<exists>l \<in> set (cr_leads (ps_crm s)).
    verify_token (bi_bookingToken input) = Some (l_id l, Some ''presentation_booking'') \<and> l_mobileVerifiedAt l \<noteq> None \<and>
    (\<forall>slot. slot \<in> set (br_booked r) \<longleftrightarrow> slot \<in> set (ts_slots s) \<and> sl_id slot \<in> set (bi_slotIds input) \<and> sl_isActive slot \<and>
       now < sl_startsAt slot \<and> (\<exists>e \<in> set (es_events s). ew_id e = sl_eventId slot \<and> ew_allowsPresentationBooking e)) \<and>
    distinct (map sl_id (br_booked r)) \<and>
    int (length (br_booked r)) + br_skipped r = int (length (bi_slotIds input)) \<and>
    seat ` set (ts_bookings s') = (\<lambda>slot. (sl_id slot, l_id l)) ` set (br_booked r) \<union> seat ` set (ts_bookings s) \<and>
    (\<exists>new. ts_bookings s' = ts_bookings s @ new \<and> list_all (\<lambda>b. bk_leadId b = l_id l) new) \<and>
    (distinct (map seat (ts_bookings s)) \<longrightarrow> distinct (map seat (ts_bookings s'))) \<and>
    ts_slots s' = ts_slots s \<and> es_events s' = es_events s"
proof -
  obtain leadId where t: "leadFromToken verify_token (bi_bookingToken input) = Inr leadId"
    using assms(1) by (cases "leadFromToken verify_token (bi_bookingToken input)") (auto simp: book_def)
  obtain l where l: "find_by l_id leadId (cr_leads (ps_crm s)) = Some l"
    using assms(1) t by (cases "find_by l_id leadId (cr_leads (ps_crm s))") (auto simp: book_def)
  have v: "l_mobileVerifiedAt l \<noteq> None"
  proof
    assume "l_mobileVerifiedAt l = None"
    then show False using assms(1) t l by (simp add: book_def)
  qed
  have lid: "l_id l = leadId" "l \<in> set (cr_leads (ps_crm s))" using find_by_SomeD [OF l] by simp_all
  let ?slots = "by_start (filter (open_slot now (es_events s) (bi_slotIds input)) (ts_slots s))"
  let ?t = "s\<lparr>ts_bookings := hold_seats now (l_id l) ?slots (ts_bookings s)\<rparr>"
  obtain u where u: "keep_email (bi_email input) l ?t = Inr u"
    using assms(1) t l v by (cases "keep_email (bi_email input) l ?t") (auto simp: book_def Let_def)
  have r: "br_booked r = ?slots" "br_skipped r = int (length (bi_slotIds input)) - int (length ?slots)" "s' = u"
    using assms(1) t l v u by (auto simp: book_def Let_def)
  have kept: "ts_bookings u = ts_bookings ?t" "ts_slots u = ts_slots s" "es_events u = es_events s"
    using u by (auto simp: keep_email_def and_then_Inr split: if_splits)
  obtain new where new: "hold_seats now (l_id l) ?slots (ts_bookings s) = ts_bookings s @ new"
    "\<forall>b \<in> set new. bk_leadId b = l_id l \<and> bk_slotId b \<in> sl_id ` set ?slots \<and> seat b \<notin> seat ` set (ts_bookings s)" "distinct (map seat new)"
    using hold_seats_adds by blast
  have slots: "set ?slots = {slot \<in> set (ts_slots s). open_slot now (es_events s) (bi_slotIds input) slot}" by (auto simp: by_start_def)
  have "distinct (map sl_id (filter (open_slot now (es_events s) (bi_slotIds input)) (ts_slots s)))"
    using assms(2) by (rule distinct_map_filter)
  then have "distinct (map sl_id ?slots)" by (metis by_start_def mset_eq_imp_distinct_iff mset_js_sort mset_map)
  moreover have "distinct (map seat (ts_bookings s)) \<longrightarrow> distinct (map seat (ts_bookings s @ new))"
    using new(2,3) by auto
  moreover have "seat ` set (ts_bookings s @ new) = (\<lambda>slot. (sl_id slot, l_id l)) ` set ?slots \<union> seat ` set (ts_bookings s)"
    using hold_seats_seats [of now "l_id l" ?slots "ts_bookings s"] new(1) by simp
  moreover have "list_all (\<lambda>b. bk_leadId b = l_id l) new" using new(2) by (simp add: list_all_iff)
  ultimately show ?thesis
    using t v lid kept slots r(2) new(1) unfolding r(1,3)
    by (intro bexI [OF _ lid(2)]) (auto simp: leadFromToken_Inr open_slot_def list_ex_iff)
qed
definition demo_slot :: "string \<Rightarrow> time \<Rightarrow> bool \<Rightarrow> slot_row" where
  "demo_slot i t active =
    \<lparr>sl_id = i, sl_eventId = ''e1'', sl_startsAt = t, sl_durationMinutes = 30, sl_topic = ''Bonds'', sl_presenterName = None,
     sl_capacity = Some 1, sl_isActive = active, sl_createdById = None\<rparr>"

definition demo_talks :: talk_state where
  "demo_talks =
    \<lparr>ps_partners = [], ps_crm = demo_lead_state\<lparr>cr_leads := map (\<lambda>l. l\<lparr>l_mobileVerifiedAt := Some 1\<rparr>) (cr_leads demo_lead_state)\<rparr>,
     es_events = [demo_event ''e1'' ''expo'' RUNNING_EVENT],
     ts_slots = [demo_slot ''t1'' 190 True, demo_slot ''t2'' 120 False, demo_slot ''t3'' 110 True, demo_slot ''t4'' 180 True],
     ts_bookings = [\<lparr>bk_slotId = ''t1'', bk_leadId = ''l7'', bk_createdAt = 5\<rparr>]\<rparr>"

definition demo_token :: "string \<Rightarrow> (string \<times> string option) option" where
  "demo_token token = (if token = ''pass'' then Some (''l1'', Some ''presentation_booking'') else None)"

definition demo_booking :: book_input where
  "demo_booking = \<lparr>bi_bookingToken = ''pass'', bi_slotIds = [''t1'', ''t2'', ''t3'', ''t4''], bi_email = Some ''a@b.in''\<rparr>"

lemma booking_holds_open_talks_witness:
  "(case book demo_token (\<lambda>_. None) 115 demo_booking demo_talks of
      (Inl e, s) \<Rightarrow> False
    | (Inr r, s) \<Rightarrow> map sl_id (br_booked r) = [''t4'', ''t1''] \<and> br_skipped r = 2 \<and> \<not> br_emailed r \<and>
        distinct (map seat (ts_bookings s)))"
proof -
  let ?r = "book demo_token (\<lambda>_. None) 115 demo_booking demo_talks"
  have "\<not> isl (fst ?r)" by code_simp
  then obtain r s where run: "?r = (Inr r, s)" by (cases ?r; cases "fst ?r") auto
  have "distinct (map sl_id (ts_slots demo_talks))" by code_simp
  note b = booking_holds_open_talks [OF run this]
  have "distinct (map seat (ts_bookings demo_talks))" by code_simp
  then have "distinct (map seat (ts_bookings s))" using b by blast
  moreover have "map sl_id (br_booked (projr (fst ?r))) = [''t4'', ''t1''] \<and> br_skipped (projr (fst ?r)) = 2 \<and> \<not> br_emailed (projr (fst ?r))"
    by code_simp
  ultimately show ?thesis by (simp add: run)
qed

text \<open>
  Cancelling an event does not close its talks: the capture form says the event has ended, the picker
  still offers the talk and the seat is given.
\<close>

lemma cancelled_event_takes_bookings:
  "let s = demo_talks\<lparr>es_events := [demo_event ''e1'' ''expo'' CANCELLED_EVENT]\<rparr>
   in map (map sy_id \<circ> snd) (bookableByCode 115 ''expo'' s) = [[''t4'', ''t1'']] \<and>
      map sl_id (br_booked (projr (fst (book demo_token (\<lambda>_. None) 115 demo_booking s)))) = [''t4'', ''t1'']"
  by code_simp

text \<open>
  A talk is checked against the event's days when it is created or moved; moving the event checks
  nothing, and leaves the talk on a day on which there is no event.
\<close>

lemma talk_left_outside_event:
  "let day = 86400000;
       s = projr (update_event ''e1'' \<lparr>ue_name = None, ue_venue = None, ue_city = None, ue_startsAt = Some (9 * day),
             ue_endsAt = Some (Some (10 * day)), ue_expectedFootfall = None, ue_ownerId = None, ue_campaignId = None\<rparr> demo_talks)
   in map sl_startsAt (ts_slots s) = [190, 120, 110, 180] \<and>
      assertWithinEvent (hd (es_events s)) 190 = Inl (BadRequest ''That time is outside the event'')"
  by code_simp

end
