(* ===== verification/Performance.thy ===== *)
theory Performance
  imports Scoring Partners
begin

text \<open>
  The rating of a salesperson: \<open>packages/contracts/src/performance.ts\<close> and
  \<open>modules/performance/performance.service.ts\<close>. Shares, hours and rates are real numbers, the
  fractional power and the logarithm are those of the reals. Sentences shown to the reader become
  constructors; the figures quoted inside them are those of the record beside them.
\<close>

section \<open>What leads should have produced\<close>

definition expectedConversionRate :: "int \<Rightarrow> real" where
  "expectedConversionRate leadScore =
    (let score = clamp leadScore 0 100 in 2 / 100 + (of_int score / 100) powr (3 / 2) * (4 / 10))"

record rated_lead =
  rt_scoreAtAssignment :: int
  rt_converted :: bool

section \<open>Behaviour\<close>

record behaviour_inputs =
  bh_medianFirstResponseHours :: "real option"
  bh_followUpCoverage :: real
  bh_overdueRate :: real
  bh_activitiesPerLead :: real
  bh_lostReasonCoverage :: real

datatype metric_code = FIRST_RESPONSE | FOLLOW_UP_COVERAGE | OVERDUE_METRIC | ENGAGEMENT_METRIC | LOST_REASONS

record behaviour_metric =
  bm_code :: metric_code
  bm_score :: int

definition points :: "real \<Rightarrow> int" where
  "points x = round_real (clamp x 0 100)"

definition response_points :: "real option \<Rightarrow> int" where
  "response_points hours = (case hours of None \<Rightarrow> 0 | Some h \<Rightarrow> points (100 - (h - 1) * 8))"

definition behaviour_metrics :: "behaviour_inputs \<Rightarrow> behaviour_metric list" where
  "behaviour_metrics b =
    [\<lparr>bm_code = FIRST_RESPONSE, bm_score = response_points (bh_medianFirstResponseHours b)\<rparr>,
     \<lparr>bm_code = FOLLOW_UP_COVERAGE, bm_score = points (bh_followUpCoverage b * 100)\<rparr>,
     \<lparr>bm_code = OVERDUE_METRIC, bm_score = points (100 - bh_overdueRate b * 200)\<rparr>,
     \<lparr>bm_code = ENGAGEMENT_METRIC, bm_score = points (log 2 (bh_activitiesPerLead b + 1) * 40)\<rparr>,
     \<lparr>bm_code = LOST_REASONS, bm_score = points (bh_lostReasonCoverage b * 100)\<rparr>]"

fun metric_weight :: "metric_code \<Rightarrow> real" where
  "metric_weight FIRST_RESPONSE = 30 / 100"
| "metric_weight FOLLOW_UP_COVERAGE = 25 / 100"
| "metric_weight OVERDUE_METRIC = 25 / 100"
| "metric_weight ENGAGEMENT_METRIC = 15 / 100"
| "metric_weight LOST_REASONS = 5 / 100"

definition scoreBehaviour :: "behaviour_inputs \<Rightarrow> int \<times> behaviour_metric list" where
  "scoreBehaviour b =
    (let metrics = behaviour_metrics b
     in (round_real (foldl (\<lambda>total m. total + of_int (bm_score m) * metric_weight (bm_code m)) 0 metrics), metrics))"

section \<open>The rating\<close>

datatype rating_band = DEVELOPING | ON_TRACK | STRONG_BAND | EXCEPTIONAL
datatype rating_confidence = LOW_CONFIDENCE | MEDIUM_CONFIDENCE | HIGH_CONFIDENCE

datatype explanation =
    NothingToMeasure | ConvertedOf nat nat real | AboveExpectation | BelowExpectation | InLine
  | SmallSample | BiggestGap metric_code

record rating =
  ra_outcomeIndex :: real
  ra_behaviourScore :: int
  ra_overall :: int
  ra_band :: rating_band
  ra_confidence :: rating_confidence
  ra_leadsAssessed :: nat
  ra_actualConversions :: nat
  ra_expectedConversions :: real
  ra_targetAttainment :: "real option"
  ra_behaviourMetrics :: "behaviour_metric list"
  ra_explanation :: "explanation list"

record rating_input =
  rg_leads :: "rated_lead list"
  rg_behaviour :: behaviour_inputs
  rg_achievedValue :: real
  rg_targetValue :: "real option"

definition SHRINKAGE_PSEUDO_LEADS :: nat where
  "SHRINKAGE_PSEUDO_LEADS = 12"

text \<open>\<open>Number(x.toFixed(k))\<close> of a number that is not negative.\<close>

definition to_fixed :: "nat \<Rightarrow> real \<Rightarrow> real" where
  "to_fixed k x = of_int (round_real (x * 10 ^ k)) / 10 ^ k"

definition actual_conversions :: "rated_lead list \<Rightarrow> nat" where
  "actual_conversions leads = length (filter rt_converted leads)"

definition expected_conversions :: "rated_lead list \<Rightarrow> real" where
  "expected_conversions leads = foldl (\<lambda>total l. total + expectedConversionRate (rt_scoreAtAssignment l)) 0 leads"

definition prior_weight :: real where
  "prior_weight = of_nat SHRINKAGE_PSEUDO_LEADS * (15 / 100)"

definition outcome_index :: "rated_lead list \<Rightarrow> real" where
  "outcome_index leads =
    (let below = expected_conversions leads + prior_weight
     in (of_nat (actual_conversions leads) + prior_weight) / (if below = 0 then 1 else below))"

definition overall_of :: "real \<Rightarrow> int \<Rightarrow> int" where
  "overall_of index behaviour = round_real (clamp (60 * index) 0 100 * (55 / 100) + of_int behaviour * (45 / 100))"

definition confidence_of :: "nat \<Rightarrow> rating_confidence" where
  "confidence_of n = (if n \<ge> 40 then HIGH_CONFIDENCE else if n \<ge> 15 then MEDIUM_CONFIDENCE else LOW_CONFIDENCE)"

definition band_of :: "int \<Rightarrow> rating_band" where
  "band_of overall =
    (if overall \<ge> 80 then EXCEPTIONAL else if overall \<ge> 62 then STRONG_BAND else if overall \<ge> 45 then ON_TRACK else DEVELOPING)"

definition explain :: "nat \<Rightarrow> nat \<Rightarrow> real \<Rightarrow> real \<Rightarrow> rating_confidence \<Rightarrow> behaviour_metric list \<Rightarrow> explanation list" where
  "explain assessed actual expected index confidence metrics =
    (if assessed = 0 then [NothingToMeasure]
     else [ConvertedOf actual assessed (to_fixed 1 expected),
           if index \<ge> 115 / 100 then AboveExpectation else if index \<le> 85 / 100 then BelowExpectation else InLine]) @
    (if confidence = LOW_CONFIDENCE then [SmallSample] else []) @
    (case js_sort (\<lambda>a b. bm_score a - bm_score b) metrics of
       [] \<Rightarrow> []
     | weakest # _ \<Rightarrow> (if bm_score weakest < 70 then [BiggestGap (bm_code weakest)] else []))"

definition computeRating :: "rating_input \<Rightarrow> rating" where
  "computeRating input =
    (let assessed = length (rg_leads input); actual = actual_conversions (rg_leads input);
         expected = expected_conversions (rg_leads input); index = outcome_index (rg_leads input);
         (behaviour, metrics) = scoreBehaviour (rg_behaviour input);
         overall = overall_of index behaviour; confidence = confidence_of assessed
     in \<lparr>ra_outcomeIndex = to_fixed 2 index, ra_behaviourScore = behaviour, ra_overall = overall,
         ra_band = band_of overall, ra_confidence = confidence, ra_leadsAssessed = assessed,
         ra_actualConversions = actual, ra_expectedConversions = to_fixed 1 expected,
         ra_targetAttainment = (case rg_targetValue input of None \<Rightarrow> None
           | Some t \<Rightarrow> if t > 0 then Some (to_fixed 1 (rg_achievedValue input / t * 100)) else None),
         ra_behaviourMetrics = metrics,
         ra_explanation = explain assessed actual expected index confidence metrics\<rparr>)"

section \<open>Coaching\<close>

datatype nudge_code = SPEED_UP_FIRST_CONTACT | CLEAR_OVERDUE | SCHEDULE_FOLLOW_UPS | LOG_INTERACTIONS | RECORD_LOST_REASONS | MAINTAIN
datatype nudge_priority = HIGH_NUDGE | MEDIUM_NUDGE | LOW_NUDGE

definition metric_below :: "behaviour_metric list \<Rightarrow> metric_code \<Rightarrow> int \<Rightarrow> bool" where
  "metric_below metrics code bar =
    (case find (\<lambda>m. bm_code m = code) metrics of None \<Rightarrow> False | Some m \<Rightarrow> bm_score m < bar)"

definition coachingNudges :: "rating \<Rightarrow> (nudge_code \<times> nudge_priority) list" where
  "coachingNudges r =
    (let m = ra_behaviourMetrics r;
         nudges =
           (if metric_below m FIRST_RESPONSE 60 then [(SPEED_UP_FIRST_CONTACT, HIGH_NUDGE)] else []) @
           (if metric_below m OVERDUE_METRIC 60 then [(CLEAR_OVERDUE, HIGH_NUDGE)] else []) @
           (if metric_below m FOLLOW_UP_COVERAGE 70 then [(SCHEDULE_FOLLOW_UPS, MEDIUM_NUDGE)] else []) @
           (if metric_below m ENGAGEMENT_METRIC 55 then [(LOG_INTERACTIONS, MEDIUM_NUDGE)] else []) @
           (if metric_below m LOST_REASONS 70 then [(RECORD_LOST_REASONS, LOW_NUDGE)] else [])
     in if nudges = [] \<and> ra_leadsAssessed r > 0 then [(MAINTAIN, LOW_NUDGE)] else nudges)"

section \<open>Gathering the facts\<close>

datatype target_period = MONTH | QUARTER | YEAR

record sales_target =
  tg_userId :: string
  tg_period :: target_period
  tg_periodStart :: time
  tg_conversionTarget :: "nat option"
  tg_valueTarget :: "rat option"
  tg_setById :: string

text \<open>An interaction with the time it happened; the rows are those of the activity table.\<close>

record contact =
  ct_entityType :: string
  ct_entityId :: string
  ct_occurredAt :: time
  ct_isSystemGenerated :: bool

record performance_state =
  pf_leads :: "lead_row list"
  pf_contacts :: "contact list"
  pf_users :: "account list"
  pf_targets :: "sales_target list"
  pf_audit :: "audit_entry list"

definition HOUR_MS :: int where
  "HOUR_MS = 3600000"

definition currentTarget :: "time \<Rightarrow> string \<Rightarrow> performance_state \<Rightarrow> sales_target option" where
  "currentTarget now userId s =
    (case js_sort (\<lambda>a b. tg_periodStart b - tg_periodStart a)
        (filter (\<lambda>t. tg_userId t = userId \<and> tg_periodStart t \<le> now) (pf_targets s)) of
       [] \<Rightarrow> None
     | t # _ \<Rightarrow> Some t)"

definition first_contact :: "contact list \<Rightarrow> string \<Rightarrow> time option" where
  "first_contact contacts leadId = map_option ct_occurredAt (find (\<lambda>c. ct_entityId c = leadId) contacts)"

definition response_hours :: "contact list \<Rightarrow> lead_row list \<Rightarrow> real list" where
  "response_hours contacts leads =
    filter (\<lambda>h. 0 \<le> h) (List.map_filter (\<lambda>l. map_option (\<lambda>t. of_int (t - l_createdAt l) / of_int HOUR_MS)
      (first_contact contacts (l_id l))) leads)"

fun insert_real :: "real \<Rightarrow> real list \<Rightarrow> real list" where
  "insert_real x [] = [x]"
| "insert_real x (y # ys) = (if x \<le> y then x # y # ys else y # insert_real x ys)"

definition sort_real :: "real list \<Rightarrow> real list" where
  "sort_real xs = foldr insert_real xs []"

definition upper_median :: "'a list \<Rightarrow> 'a option" where
  "upper_median xs = (if xs = [] then None else Some (xs ! (length xs div 2)))"

definition share :: "('r \<Rightarrow> bool) \<Rightarrow> real \<Rightarrow> 'r list \<Rightarrow> real" where
  "share p none_yet rows = (if rows = [] then none_yet else of_nat (length (filter p rows)) / of_nat (length rows))"

definition value_since :: "string \<Rightarrow> time \<Rightarrow> lead_row list \<Rightarrow> rat" where
  "value_since userId t leads =
    sum_list (map (\<lambda>l. case l_estimatedValue l of None \<Rightarrow> 0 | Some v \<Rightarrow> v)
      (filter (\<lambda>l. l_ownerId l = Some userId \<and> l_deletedAt l = None \<and>
        (case l_convertedAt l of None \<Rightarrow> False | Some c \<Rightarrow> t \<le> c)) leads))"

definition human_contacts :: "lead_row list \<Rightarrow> contact list \<Rightarrow> contact list" where
  "human_contacts leads contacts =
    js_sort (\<lambda>a b. ct_occurredAt a - ct_occurredAt b)
      (filter (\<lambda>c. ct_entityType c = ''LEAD'' \<and> list_ex (\<lambda>l. l_id l = ct_entityId c) leads \<and> \<not> ct_isSystemGenerated c) contacts)"

definition behaviour_of :: "time \<Rightarrow> lead_row list \<Rightarrow> contact list \<Rightarrow> behaviour_inputs" where
  "behaviour_of now leads contacts =
    (let openLeads = filter (\<lambda>l. l_status l \<notin> set CLOSED_LEAD_STATUSES) leads;
         lostLeads = filter (\<lambda>l. l_status l = LOST) leads
     in \<lparr>bh_medianFirstResponseHours = upper_median (sort_real (response_hours contacts leads)),
         bh_followUpCoverage = share (\<lambda>l. l_nextFollowUpAt l \<noteq> None) 1 openLeads,
         bh_overdueRate = share (\<lambda>l. case l_nextFollowUpAt l of None \<Rightarrow> False | Some t \<Rightarrow> t < now) 0 openLeads,
         bh_activitiesPerLead = (if leads = [] then 0 else of_nat (length contacts) / of_nat (length leads)),
         bh_lostReasonCoverage = share (\<lambda>l. l_lostReason l \<noteq> None) 1 lostLeads\<rparr>)"

definition ratingFor :: "time \<Rightarrow> string \<Rightarrow> time \<Rightarrow> performance_state \<Rightarrow> rating" where
  "ratingFor now userId since s =
    (let leads = filter (\<lambda>l. l_ownerId l = Some userId \<and> l_deletedAt l = None \<and> since \<le> l_createdAt l) (pf_leads s);
         contacts = human_contacts leads (pf_contacts s)
     in computeRating
       \<lparr>rg_leads = map (\<lambda>l. \<lparr>rt_scoreAtAssignment = l_score l, rt_converted = (l_convertedAt l \<noteq> None)\<rparr>) leads,
        rg_behaviour = behaviour_of now leads contacts,
        rg_achievedValue = real_of_rat (value_since userId since (pf_leads s)),
        rg_targetValue = Option.bind (currentTarget now userId s) (\<lambda>t. map_option real_of_rat (tg_valueTarget t))\<rparr>)"

definition ratingsFor :: "time \<Rightarrow> string list \<Rightarrow> time \<Rightarrow> performance_state \<Rightarrow> (string \<times> rating) list" where
  "ratingsFor now userIds since s = map (\<lambda>i. (i, ratingFor now i since s)) userIds"

record target_view =
  tv_conversionTarget :: "nat option"
  tv_valueTarget :: "rat option"
  tv_achievedConversions :: nat
  tv_achievedValue :: rat
  tv_expectedPacePercent :: int

fun period_days :: "target_period \<Rightarrow> rat" where
  "period_days MONTH = 30"
| "period_days QUARTER = 91"
| "period_days YEAR = 365"

definition targetFor :: "time \<Rightarrow> string \<Rightarrow> performance_state \<Rightarrow> target_view option" where
  "targetFor now userId s =
    map_option (\<lambda>t.
      \<lparr>tv_conversionTarget = tg_conversionTarget t, tv_valueTarget = tg_valueTarget t,
       tv_achievedConversions = count_where (\<lambda>l. l_ownerId l = Some userId \<and> l_deletedAt l = None \<and>
         (case l_convertedAt l of None \<Rightarrow> False | Some c \<Rightarrow> tg_periodStart t \<le> c)) (pf_leads s),
       tv_achievedValue = value_since userId (tg_periodStart t) (pf_leads s),
       tv_expectedPacePercent =
         js_round (clamp (of_int (now - tg_periodStart t) / of_int DAY_MS / period_days (tg_period t) * 100) 0 100)\<rparr>)
      (currentTarget now userId s)"

record standing =
  sg_percentile :: "int option"
  sg_teamMedianOverall :: "int option"
  sg_topPerformerOverall :: "int option"
  sg_peersAssessed :: nat

definition is_peer :: "account \<Rightarrow> account \<Rightarrow> bool" where
  "is_peer subject u \<longleftrightarrow> u_deletedAt u = None \<and> u_status u = ACTIVE \<and> u_userType u = INTERNAL_USER \<and> u_id u \<noteq> u_id subject \<and>
    (if truthy (u_managerId subject) then u_managerId u = u_managerId subject
     else truthy (u_orgUnitId subject) \<and> u_orgUnitId u = u_orgUnitId subject)"

definition standing_among :: "int \<Rightarrow> int list \<Rightarrow> standing" where
  "standing_among overall scores =
    (if scores = [] then \<lparr>sg_percentile = None, sg_teamMedianOverall = None, sg_topPerformerOverall = None, sg_peersAssessed = 0\<rparr>
     else
       let sorted = js_sort int_asc scores
       in \<lparr>sg_percentile = Some (js_round (of_nat (length (filter (\<lambda>x. x < overall) sorted)) / of_nat (length sorted) * 100)),
           sg_teamMedianOverall = upper_median sorted, sg_topPerformerOverall = Some (last sorted),
           sg_peersAssessed = length sorted\<rparr>)"

definition standingFor :: "time \<Rightarrow> string \<Rightarrow> int \<Rightarrow> time \<Rightarrow> performance_state \<Rightarrow> standing" where
  "standingFor now userId overall since s =
    (case find_by u_id userId (pf_users s) of
       None \<Rightarrow> standing_among overall []
     | Some subject \<Rightarrow>
         standing_among overall (map (\<lambda>u. ra_overall (ratingFor now (u_id u) since s)) (take 50 (filter (is_peer subject) (pf_users s)))))"

record scorecard =
  sk_userId :: string
  sk_rating :: rating
  sk_nudges :: "(nudge_code \<times> nudge_priority) list"
  sk_target :: "target_view option"
  sk_standing :: standing

definition oversees :: "principal \<Rightarrow> string \<Rightarrow> bool" where
  "oversees actor userId \<longleftrightarrow> userId = pr_id actor \<or> pr_dataScope actor = ALL_SCOPE \<or> userId \<in> set (pr_teamUserIds actor)"

definition scorecard_of :: "time \<Rightarrow> principal \<Rightarrow> string \<Rightarrow> int \<Rightarrow> performance_state \<Rightarrow> (scorecard \<times> performance_state) result" where
  "scorecard_of now actor userId days s =
    (if \<not> oversees actor userId then Inl (Forbidden ''Not your team'')
     else case find (\<lambda>u. u_id u = userId \<and> u_deletedAt u = None) (pf_users s) of
         None \<Rightarrow> Inl (NotFound ''User not found'')
       | Some user \<Rightarrow>
           let since = now - days * DAY_MS; r = ratingFor now userId since s
           in Inr (\<lparr>sk_userId = u_id user, sk_rating = r, sk_nudges = coachingNudges r, sk_target = targetFor now userId s,
                    sk_standing = standingFor now userId (ra_overall r) since s\<rparr>,
                if userId \<noteq> pr_id actor
                then s\<lparr>pf_audit := insert_row (audit_entry ''READ'' ''performance.scorecard'' userId) (pf_audit s)\<rparr> else s))"

record target_input =
  ti_userId :: string
  ti_period :: target_period
  ti_periodStart :: time
  ti_conversionTarget :: "nat option"
  ti_valueTarget :: "rat option"

definition target_key :: "sales_target \<Rightarrow> string \<times> target_period \<times> time" where
  "target_key t = (tg_userId t, tg_period t, tg_periodStart t)"

definition upsertTarget :: "principal \<Rightarrow> string \<Rightarrow> target_input \<Rightarrow> performance_state \<Rightarrow> performance_state result" where
  "upsertTarget actor i input s =
    (if ti_userId input \<noteq> pr_id actor \<and> pr_dataScope actor \<noteq> ALL_SCOPE \<and> ti_userId input \<notin> set (pr_teamUserIds actor)
     then Inl (Forbidden ''Not your team'')
     else
       let key = (ti_userId input, ti_period input, ti_periodStart input);
           row = \<lparr>tg_userId = ti_userId input, tg_period = ti_period input, tg_periodStart = ti_periodStart input,
             tg_conversionTarget = ti_conversionTarget input, tg_valueTarget = ti_valueTarget input, tg_setById = pr_id actor\<rparr>
       in Inr (s\<lparr>pf_targets := (if find_by target_key key (pf_targets s) \<noteq> None
                  then update_by target_key key (\<lambda>t. t\<lparr>tg_conversionTarget := ti_conversionTarget input,
                         tg_valueTarget := ti_valueTarget input, tg_setById := pr_id actor\<rparr>) (pf_targets s)
                  else insert_row row (pf_targets s)),
               pf_audit := insert_row (audit_entry ''UPDATE'' ''sales_target'' i) (pf_audit s)\<rparr>))"

section \<open>The rating is fair\<close>

lemma foldl_plus: "foldl (\<lambda>total x. total + g x) (a :: real) xs = a + sum_list (map g xs)"
  by (induction xs arbitrary: a) auto

lemma round_real_int [simp]: "round_real (of_int k) = k"
  by (simp add: round_real_def floor_eq_iff)

lemma round_real_within: "of_int a \<le> x \<Longrightarrow> x \<le> of_int b \<Longrightarrow> a \<le> round_real x \<and> round_real x \<le> b"
  using round_real_mono [of "of_int a" x] round_real_mono [of x "of_int b"] by simp

lemma points_within: "0 \<le> points x \<and> points x \<le> 100"
  unfolding points_def by (rule round_real_within) simp_all

lemma metrics_within: "m \<in> set (behaviour_metrics b) \<Longrightarrow> 0 \<le> bm_score m \<and> bm_score m \<le> 100"
  using points_within by (auto simp: behaviour_metrics_def response_points_def split: option.splits)

lemma behaviour_within: "0 \<le> fst (scoreBehaviour b) \<and> fst (scoreBehaviour b) \<le> 100"
proof -
  let ?p = "\<lambda>k. of_int (bm_score (behaviour_metrics b ! k)) :: real"
  have each: "0 \<le> ?p k \<and> ?p k \<le> 100" if "k < 5" for k
  proof -
    have "behaviour_metrics b ! k \<in> set (behaviour_metrics b)" by (rule nth_mem) (use that in \<open>simp add: behaviour_metrics_def\<close>)
    from metrics_within [OF this] show ?thesis by simp
  qed
  have "fst (scoreBehaviour b) = round_real (?p 0 * (30 / 100) + ?p 1 * (25 / 100) + ?p 2 * (25 / 100) + ?p 3 * (15 / 100) + ?p 4 * (5 / 100))"
    by (simp add: scoreBehaviour_def Let_def behaviour_metrics_def)
  moreover have "0 \<le> ?p 0 * (30 / 100) + ?p 1 * (25 / 100) + ?p 2 * (25 / 100) + ?p 3 * (15 / 100) + ?p 4 * (5 / 100)"
    "?p 0 * (30 / 100) + ?p 1 * (25 / 100) + ?p 2 * (25 / 100) + ?p 3 * (15 / 100) + ?p 4 * (5 / 100) \<le> 100"
    using each [of 0] each [of 1] each [of 2] each [of 3] each [of 4] by linarith+
  ultimately show ?thesis using round_real_within [of 0 _ 100] by simp
qed

lemma expected_rate_pos: "0 < expectedConversionRate n"
  by (simp add: expectedConversionRate_def Let_def add_pos_nonneg)

lemma expected_rate_mono: "m \<le> n \<Longrightarrow> expectedConversionRate m \<le> expectedConversionRate n"
proof -
  assume "m \<le> n"
  then have "clamp m 0 100 \<le> clamp n 0 100" by (rule clamp_mono)
  then have "(of_int (clamp m 0 100) / 100 :: real) powr (3 / 2) \<le> (of_int (clamp n 0 100) / 100) powr (3 / 2)"
    by (intro powr_mono2) simp_all
  then show ?thesis by (simp add: expectedConversionRate_def Let_def)
qed

lemma expected_conversions_sum: "expected_conversions ls = sum_list (map (\<lambda>l. expectedConversionRate (rt_scoreAtAssignment l)) ls)"
  by (simp add: expected_conversions_def foldl_plus)

lemma expected_conversions_nonneg: "0 \<le> expected_conversions ls"
  unfolding expected_conversions_sum by (rule sum_list_nonneg) (auto intro: less_imp_le expected_rate_pos)

lemma outcome_index_eq:
  "outcome_index ls = 1 + (of_nat (actual_conversions ls) - expected_conversions ls) / (expected_conversions ls + prior_weight)"
proof -
  have "0 < expected_conversions ls + prior_weight"
    using expected_conversions_nonneg [of ls] by (simp add: prior_weight_def SHRINKAGE_PSEUDO_LEADS_def)
  then show ?thesis by (simp add: outcome_index_def Let_def field_simps)
qed

definition no_worse :: "rated_lead \<Rightarrow> rated_lead \<Rightarrow> bool" where
  "no_worse l m \<longleftrightarrow> rt_scoreAtAssignment m \<le> rt_scoreAtAssignment l \<and> (rt_converted l \<longrightarrow> rt_converted m)"

lemma no_worse_counts:
  "list_all2 no_worse xs ys \<Longrightarrow> actual_conversions xs \<le> actual_conversions ys \<and> expected_conversions ys \<le> expected_conversions xs"
  unfolding expected_conversions_sum actual_conversions_def
  by (induction rule: list_all2_induct) (auto simp: no_worse_def intro: add_mono expected_rate_mono)

lemma outcome_index_mono:
  assumes "list_all2 no_worse xs ys"
  shows "outcome_index xs \<le> outcome_index ys"
proof -
  let ?w = prior_weight
  have w: "0 < ?w" by (simp add: prior_weight_def SHRINKAGE_PSEUDO_LEADS_def)
  have e: "0 \<le> expected_conversions ys" "expected_conversions ys \<le> expected_conversions xs"
    "of_nat (actual_conversions xs) \<le> (of_nat (actual_conversions ys) :: real)"
    using no_worse_counts [OF assms] expected_conversions_nonneg by simp_all
  have "(of_nat (actual_conversions xs) + ?w) / (expected_conversions xs + ?w) \<le> (of_nat (actual_conversions ys) + ?w) / (expected_conversions ys + ?w)"
    by (rule frac_le) (use e w in auto)
  then show ?thesis using e w expected_conversions_nonneg [of xs] by (simp add: outcome_index_def Let_def)
qed

lemma overall_mono: "x \<le> y \<Longrightarrow> overall_of x b \<le> overall_of y b"
  unfolding overall_of_def by (intro round_real_mono add_mono mult_right_mono) (auto simp: clamp_def)

lemma overall_within:
  assumes "0 \<le> b" "b \<le> 100"
  shows "0 \<le> overall_of x b \<and> overall_of x b \<le> 100"
proof -
  have c: "0 \<le> clamp (60 * x) 0 100" "clamp (60 * x) 0 100 \<le> 100" by simp_all
  have "0 \<le> (of_int b :: real)" "(of_int b :: real) \<le> 100" using assms by simp_all
  then have "0 \<le> clamp (60 * x) 0 100 * (55 / 100) + of_int b * (45 / 100)" "clamp (60 * x) 0 100 * (55 / 100) + of_int b * (45 / 100) \<le> 100"
    using c by linarith+
  then show ?thesis unfolding overall_of_def using round_real_within [of 0 _ 100] by simp
qed

text \<open>
  C31. The rating measures selling, not the quality of the leads. Every score lies between nothing and
  a hundred; whoever was given leads no better, lead by lead, and converted all those the other did is
  rated no lower at equal behaviour; without any lead the outcome is exactly par; and with leads it is
  above par exactly when more were converted than such leads should yield, and never further from par
  than the raw ratio of the two.
\<close>

theorem rating_is_fair:
  assumes "list_all2 no_worse xs ys"
  shows "ra_overall (computeRating (input\<lparr>rg_leads := xs\<rparr>)) \<le> ra_overall (computeRating (input\<lparr>rg_leads := ys\<rparr>)) \<and>
    0 \<le> ra_overall (computeRating input) \<and> ra_overall (computeRating input) \<le> 100 \<and>
    0 \<le> ra_behaviourScore (computeRating input) \<and> ra_behaviourScore (computeRating input) \<le> 100 \<and>
    list_all (\<lambda>m. 0 \<le> bm_score m \<and> bm_score m \<le> 100) (ra_behaviourMetrics (computeRating input)) \<and>
    outcome_index [] = 1 \<and> (1 < outcome_index xs \<longleftrightarrow> expected_conversions xs < of_nat (actual_conversions xs)) \<and>
    (xs \<noteq> [] \<longrightarrow> \<bar>outcome_index xs - 1\<bar> \<le> \<bar>of_nat (actual_conversions xs) / expected_conversions xs - 1\<bar>)"
proof -
  have overall: "ra_overall (computeRating i) = overall_of (outcome_index (rg_leads i)) (fst (scoreBehaviour (rg_behaviour i)))" for i
    by (simp add: computeRating_def Let_def split: prod.split)
  have behaviour: "ra_behaviourScore (computeRating input) = fst (scoreBehaviour (rg_behaviour input))"
    "ra_behaviourMetrics (computeRating input) = behaviour_metrics (rg_behaviour input)"
    by (simp_all add: computeRating_def Let_def scoreBehaviour_def)
  have pos: "0 < expected_conversions xs + prior_weight" "0 < prior_weight"
    using expected_conversions_nonneg [of xs] by (simp_all add: prior_weight_def SHRINKAGE_PSEUDO_LEADS_def)
  have "1 < outcome_index xs \<longleftrightarrow> expected_conversions xs < of_nat (actual_conversions xs)"
    unfolding outcome_index_eq using pos by (simp add: zero_less_divide_iff)
  moreover have "\<bar>outcome_index xs - 1\<bar> \<le> \<bar>of_nat (actual_conversions xs) / expected_conversions xs - 1\<bar>" if "xs \<noteq> []"
  proof -
    have e: "0 < expected_conversions xs"
    proof (cases xs)
      case (Cons l ls)
      then show ?thesis
        using expected_rate_pos [of "rt_scoreAtAssignment l"] expected_conversions_nonneg [of ls]
        by (simp add: expected_conversions_sum)
    qed (use that in simp)
    have "\<bar>outcome_index xs - 1\<bar> = \<bar>of_nat (actual_conversions xs) - expected_conversions xs\<bar> / (expected_conversions xs + prior_weight)"
      unfolding outcome_index_eq using pos by (simp add: abs_divide)
    also have "\<dots> \<le> \<bar>of_nat (actual_conversions xs) - expected_conversions xs\<bar> / expected_conversions xs"
      using e pos by (intro divide_left_mono) auto
    also have "\<dots> = \<bar>of_nat (actual_conversions xs) / expected_conversions xs - 1\<bar>"
    proof -
      have "of_nat (actual_conversions xs) / expected_conversions xs - 1 = (of_nat (actual_conversions xs) - expected_conversions xs) / expected_conversions xs"
        using e by (simp add: diff_divide_distrib)
      then show ?thesis using e by (simp only: abs_divide abs_of_pos)
    qed
    finally show ?thesis .
  qed
  moreover have "outcome_index [] = 1" by (simp add: outcome_index_eq actual_conversions_def expected_conversions_def)
  moreover have "ra_overall (computeRating (input\<lparr>rg_leads := xs\<rparr>)) \<le> ra_overall (computeRating (input\<lparr>rg_leads := ys\<rparr>))"
    unfolding overall by (simp add: overall_mono [OF outcome_index_mono [OF assms]])
  moreover have "0 \<le> ra_overall (computeRating input)" "ra_overall (computeRating input) \<le> 100"
    unfolding overall using overall_within behaviour_within by blast+
  moreover have "0 \<le> ra_behaviourScore (computeRating input)" "ra_behaviourScore (computeRating input) \<le> 100"
    unfolding behaviour using behaviour_within by blast+
  moreover have "list_all (\<lambda>m. 0 \<le> bm_score m \<and> bm_score m \<le> 100) (ra_behaviourMetrics (computeRating input))"
    unfolding behaviour list_all_iff using metrics_within by blast
  ultimately show ?thesis by blast
qed
definition demo_habits :: behaviour_inputs where
  "demo_habits = \<lparr>bh_medianFirstResponseHours = Some 3, bh_followUpCoverage = 1, bh_overdueRate = 0,
     bh_activitiesPerLead = 3, bh_lostReasonCoverage = 1\<rparr>"

lemma rating_is_fair_witness:
  "ra_overall (computeRating \<lparr>rg_leads = [\<lparr>rt_scoreAtAssignment = 80, rt_converted = False\<rparr>], rg_behaviour = demo_habits,
       rg_achievedValue = 0, rg_targetValue = None\<rparr>) \<le>
   ra_overall (computeRating \<lparr>rg_leads = [\<lparr>rt_scoreAtAssignment = 20, rt_converted = True\<rparr>], rg_behaviour = demo_habits,
       rg_achievedValue = 0, rg_targetValue = None\<rparr>)"
proof -
  let ?i = "\<lparr>rg_leads = [], rg_behaviour = demo_habits, rg_achievedValue = 0, rg_targetValue = None\<rparr>"
  have "list_all2 no_worse [\<lparr>rt_scoreAtAssignment = 80, rt_converted = False\<rparr>] [\<lparr>rt_scoreAtAssignment = 20, rt_converted = True\<rparr>]"
    by (simp add: no_worse_def)
  from rating_is_fair [OF this, of ?i] show ?thesis by simp
qed

section \<open>A newcomer\<close>

text \<open>
  Nobody's leads and nobody's contacts: no evidence reads as slow to respond and not engaged, yet the
  rating comes out at 58, above the ceiling below which somebody counts as still developing.
\<close>

definition newcomer_habits :: behaviour_inputs where
  "newcomer_habits = behaviour_of 0 [] []"

lemma log2_numbers [simp]: "log 2 1 = (0 :: real)" "log 2 4 = (2 :: real)"
  using log_nat_power [of 2 2 2] by (simp_all add: log_def)

lemma newcomer_rating:
  "ra_behaviourScore (computeRating \<lparr>rg_leads = [], rg_behaviour = newcomer_habits, rg_achievedValue = v, rg_targetValue = t\<rparr>) = 55"
  "ra_overall (computeRating \<lparr>rg_leads = [], rg_behaviour = newcomer_habits, rg_achievedValue = v, rg_targetValue = t\<rparr>) = 58"
proof -
  have r: "round_real 0 = 0" "round_real 100 = 100" "round_real 55 = 55"
    using round_real_int [of 0] round_real_int [of 100] round_real_int [of 55] by simp_all
  have metrics: "map bm_score (behaviour_metrics newcomer_habits) = [0, 100, 100, 0, 100]"
    by (simp add: behaviour_metrics_def newcomer_habits_def behaviour_of_def response_hours_def sort_real_def upper_median_def
        share_def response_points_def points_def clamp_def r map_filter_simps)
  have score: "fst (scoreBehaviour newcomer_habits) = 55"
    using metrics by (simp add: scoreBehaviour_def Let_def behaviour_metrics_def r)
  then show "ra_behaviourScore (computeRating \<lparr>rg_leads = [], rg_behaviour = newcomer_habits, rg_achievedValue = v, rg_targetValue = t\<rparr>) = 55"
    by (simp add: computeRating_def Let_def case_prod_beta)
  have "outcome_index [] = 1" by (simp add: outcome_index_eq actual_conversions_def expected_conversions_def)
  moreover have "overall_of 1 55 = 58" by (simp add: overall_of_def clamp_def round_real_def floor_eq_iff)
  ultimately show "ra_overall (computeRating \<lparr>rg_leads = [], rg_behaviour = newcomer_habits, rg_achievedValue = v, rg_targetValue = t\<rparr>) = 58"
    using score by (simp add: computeRating_def Let_def case_prod_beta)
qed

section \<open>Targets and standing\<close>

lemma js_sort_asc: "js_sort int_asc xs = sort xs"
proof -
  have "sorted (js_sort int_asc xs)"
    using asc.sorted_js_sort [of xs] by (simp add: int_asc_def)
  then show ?thesis by (metis properties_for_sort mset_js_sort)
qed

lemma last_is_greatest: "sorted ys \<Longrightarrow> (x :: int) \<in> set ys \<Longrightarrow> x \<le> last ys"
  by (induction ys) auto

text \<open>
  Standing is anonymous. It is made of three numbers about the peers' scores that do not depend on
  who has which: any permutation of the scores gives the same standing, with a percentile between
  nothing and a hundred that never falls when the person's own rating rises, and a top score that is
  one of the scores and the greatest.
\<close>

theorem standing_is_anonymous:
  assumes "mset xs = mset ys" and "xs \<noteq> []" and "a \<le> b"
  shows "standing_among a xs = standing_among a ys \<and>
    (\<exists>p q. sg_percentile (standing_among a xs) = Some p \<and> sg_percentile (standing_among b xs) = Some q \<and>
      0 \<le> p \<and> p \<le> q \<and> q \<le> 100) \<and>
    sg_topPerformerOverall (standing_among a xs) = Some (Max (set xs))"
proof -
  let ?s = "sort xs" and ?n = "length (sort xs)"
  have "sort ys = sort xs" using assms(1) by (metis properties_for_sort mset_sort sorted_sort)
  moreover have "ys \<noteq> []" using assms(1,2) by auto
  ultimately have same: "standing_among a xs = standing_among a ys" using assms(2) by (simp add: standing_among_def Let_def js_sort_asc)
  define below where "below c = length (filter (\<lambda>x. x < c) ?s)" for c
  have n: "0 < ?n" using assms(2) by simp
  have "length (filter (\<lambda>x. x < a) zs) \<le> length (filter (\<lambda>x. x < b) zs)" for zs
    by (induction zs) (use assms(3) in auto)
  then have "below a \<le> below b" by (simp add: below_def)
  moreover have "below b \<le> ?n" unfolding below_def by (rule length_filter_le)
  ultimately have "(0 :: rat) \<le> of_nat (below a) / of_nat ?n * 100" "(of_nat (below a) / of_nat ?n * 100 :: rat) \<le> of_nat (below b) / of_nat ?n * 100"
    "(of_nat (below b) / of_nat ?n * 100 :: rat) \<le> 100"
    using n by (simp_all add: divide_right_mono field_simps)
  then have "0 \<le> js_round (of_nat (below a) / of_nat ?n * 100)" "js_round (of_nat (below a) / of_nat ?n * 100) \<le> js_round (of_nat (below b) / of_nat ?n * 100)"
    "js_round (of_nat (below b) / of_nat ?n * 100) \<le> 100"
    using js_round_lower [of 0] js_round_upper [of _ 100] js_round_mono by simp_all
  moreover have "sg_percentile (standing_among c xs) = Some (js_round (of_nat (below c) / of_nat ?n * 100))" for c
    using assms(2) by (simp add: standing_among_def Let_def js_sort_asc below_def)
  moreover have "sg_topPerformerOverall (standing_among a xs) = Some (Max (set xs))"
  proof -
    have "x \<le> last ?s" if "x \<in> set ?s" for x using that by (rule last_is_greatest [OF sorted_sort])
    moreover have "last ?s \<in> set ?s" by (rule last_in_set) (metis n length_greater_0_conv)
    ultimately have "last ?s = Max (set ?s)" by (intro Max_eqI [symmetric]) simp_all
    then show ?thesis using assms(2) by (simp add: standing_among_def Let_def js_sort_asc)
  qed
  ultimately show ?thesis using same by (intro conjI exI [of _ "js_round (of_nat (below a) / of_nat ?n * 100)"]
    exI [of _ "js_round (of_nat (below b) / of_nat ?n * 100)"]) assumption+
qed

lemma standing_is_anonymous_witness:
  "standing_among 60 [70, 40, 55] = standing_among 60 [40, 55, 70] \<and> sg_percentile (standing_among 60 [70, 40, 55]) = Some 67"
proof -
  have "standing_among 60 [70, 40, 55] = standing_among 60 [40, 55, 70]"
    using standing_is_anonymous [of "[70, 40, 55]" "[40, 55, 70]" 60 60] by simp
  moreover have "sg_percentile (standing_among 60 [70, 40, 55]) = Some 67" by code_simp
  ultimately show ?thesis by simp
qed

text \<open>Targets: one row for each person, period and start; setting it again replaces it.\<close>

lemma upsertTarget_sets:
  assumes "upsertTarget actor i input s = Inr s'" and "keys_unique target_key (pf_targets s)"
  shows "oversees actor (ti_userId input) \<and> keys_unique target_key (pf_targets s') \<and>
    (\<exists>t. find_by target_key (ti_userId input, ti_period input, ti_periodStart input) (pf_targets s') = Some t \<and>
      tg_conversionTarget t = ti_conversionTarget input \<and> tg_valueTarget t = ti_valueTarget input \<and> tg_setById t = pr_id actor) \<and>
    (\<forall>k. k \<noteq> (ti_userId input, ti_period input, ti_periodStart input) \<longrightarrow>
      find_by target_key k (pf_targets s') = find_by target_key k (pf_targets s))"
proof -
  let ?k = "(ti_userId input, ti_period input, ti_periodStart input)"
  let ?f = "\<lambda>t. t\<lparr>tg_conversionTarget := ti_conversionTarget input, tg_valueTarget := ti_valueTarget input, tg_setById := pr_id actor\<rparr>"
  have key: "target_key (?f t) = target_key t" for t by (simp add: target_key_def)
  have o: "oversees actor (ti_userId input)" using assms(1) by (auto simp: upsertTarget_def oversees_def split: if_splits)
  have t: "pf_targets s' = (if find_by target_key ?k (pf_targets s) \<noteq> None then update_by target_key ?k ?f (pf_targets s)
      else insert_row \<lparr>tg_userId = ti_userId input, tg_period = ti_period input, tg_periodStart = ti_periodStart input,
             tg_conversionTarget = ti_conversionTarget input, tg_valueTarget = ti_valueTarget input, tg_setById = pr_id actor\<rparr> (pf_targets s))"
    using assms(1) by (auto simp: upsertTarget_def Let_def split: if_splits)
  show ?thesis
  proof (cases "find_by target_key ?k (pf_targets s)")
    case None
    let ?r = "\<lparr>tg_userId = ti_userId input, tg_period = ti_period input, tg_periodStart = ti_periodStart input,
             tg_conversionTarget = ti_conversionTarget input, tg_valueTarget = ti_valueTarget input, tg_setById = pr_id actor\<rparr>"
    have r: "target_key ?r = ?k" by (simp add: target_key_def)
    have t': "pf_targets s' = insert_row ?r (pf_targets s)" using t None by simp
    have "keys_unique target_key (pf_targets s')"
      unfolding t' keys_unique_insert_row using assms(2) None by (simp add: r find_by_None_iff)
    moreover have "find_by target_key k (pf_targets s') = (if k = ?k then Some ?r else find_by target_key k (pf_targets s))" for k
      unfolding t' using None r by (auto simp: find_by_insert_row split: option.splits)
    ultimately show ?thesis using o by simp
  next
    case (Some q)
    then show ?thesis using assms(2) o by (auto simp: t find_by_update_by [where f = ?f and key = target_key, OF key] keys_unique_update_by [where f = ?f and key = target_key, OF key])
  qed
qed
end
