(* ===== verification/Allocation.thy ===== *)
theory Allocation
  imports Performance
begin

text \<open>
  Advice on who should own a lead: \<open>recommendOwners\<close> of packages/contracts/src/allocation.ts, and
  apps/api/src/modules/performance/allocation.service.ts, which feeds it with the sellers the actor
  can see, their ratings and their open leads. The fractions of the fit score are exact rationals,
  the collation of \<open>localeCompare\<close> is a parameter, and the sentences of a reason are constructors
  with the numbers they quote.
\<close>

section \<open>Weighing a candidate\<close>

definition DEVELOPMENT_FLOOR_SHARE :: rat where
  "DEVELOPMENT_FLOOR_SHARE = 1 / 4"

definition DEVELOPING_RATING_CEILING :: int where
  "DEVELOPING_RATING_CEILING = 55"

definition MIN_BEHAVIOUR_FOR_STRONG_LEADS :: int where
  "MIN_BEHAVIOUR_FOR_STRONG_LEADS = 55"

definition DEFAULT_CAPACITY :: int where
  "DEFAULT_CAPACITY = 60"

record candidate =
  ac_userId :: string
  ac_fullName :: string
  ac_overall :: int
  ac_behaviourScore :: int
  ac_confidence :: rating_confidence
  ac_openLeads :: int
  ac_capacity :: "int option"
  ac_isAvailable :: "bool option"
  ac_unavailableReason :: "string option"

datatype advice_reason =
    BriefFirst int | FewLeads | ConvertsAbove int | AsExpected int | StrongDiscipline
  | RoomToTake int int | FairlyLoaded int int | BuildTheirRecord

datatype passed_over =
    Unavailable string | AtCapacity int int | BelowBar int

record recommendation =
  re_userId :: string
  re_fullName :: string
  re_fitScore :: int
  re_rank :: nat
  re_reasons :: "advice_reason list"
  re_isDevelopmentPick :: bool
  re_openLeads :: int
  re_capacity :: int

record scored = recommendation +
  sc_candidate :: candidate

record exclusion =
  ex_userId :: string
  ex_fullName :: string
  ex_reason :: passed_over

datatype lead_band = STRONG_LEAD | STANDARD_LEAD
datatype advice_note = NobodyAvailable | SuggestionsOnly

record advice =
  ad_leadBand :: lead_band
  ad_leadScore :: int
  ad_recommendations :: "recommendation list"
  ad_excluded :: "exclusion list"
  ad_developmentFloorApplied :: bool
  ad_note :: advice_note

definition trustedRating :: "candidate \<Rightarrow> rat" where
  "trustedRating c =
    (let weight = (case ac_confidence c of HIGH_CONFIDENCE \<Rightarrow> 1 | MEDIUM_CONFIDENCE \<Rightarrow> 3 / 5 | LOW_CONFIDENCE \<Rightarrow> 3 / 10)
     in 50 + of_int (ac_overall c - 50) * weight)"

definition capacityOf :: "candidate \<Rightarrow> int" where
  "capacityOf c = (case ac_capacity c of Some n \<Rightarrow> n | None \<Rightarrow> DEFAULT_CAPACITY)"

definition headroom :: "candidate \<Rightarrow> rat" where
  "headroom c =
    (if capacityOf c \<le> 0 then 0
     else max 0 (min 1 (1 - of_int (ac_openLeads c) / of_int (capacityOf c))))"

definition fit_score :: "bool \<Rightarrow> candidate \<Rightarrow> int" where
  "fit_score isStrong c =
    (let ratingWeight = (if isStrong then 13 / 20 else 2 / 5)
     in js_round (trustedRating c * ratingWeight + headroom c * 100 * (1 - ratingWeight)))"

definition fit_reasons :: "string list \<Rightarrow> candidate \<Rightarrow> advice_reason list" where
  "fit_reasons reinstated c =
    (if ac_userId c \<in> set reinstated then [BriefFirst (ac_behaviourScore c)] else []) @
    (if ac_confidence c = LOW_CONFIDENCE then [FewLeads]
     else if 70 \<le> ac_overall c then [ConvertsAbove (ac_overall c)]
     else if DEVELOPING_RATING_CEILING \<le> ac_overall c then [AsExpected (ac_overall c)] else []) @
    (if 75 \<le> ac_behaviourScore c then [StrongDiscipline] else []) @
    [if 1 / 2 \<le> headroom c then RoomToTake (ac_openLeads c) (capacityOf c) else FairlyLoaded (ac_openLeads c) (capacityOf c)]"

definition score_candidate :: "bool \<Rightarrow> string list \<Rightarrow> candidate \<Rightarrow> scored" where
  "score_candidate isStrong reinstated c =
    \<lparr>re_userId = ac_userId c, re_fullName = ac_fullName c, re_fitScore = fit_score isStrong c, re_rank = 0,
     re_reasons = fit_reasons reinstated c, re_isDevelopmentPick = False,
     re_openLeads = ac_openLeads c, re_capacity = capacityOf c, sc_candidate = c\<rparr>"

section \<open>The three piles\<close>

text \<open>The loop over the candidates: those passed over, those eligible, and those the behaviour gate caught.\<close>

definition excluded_as :: "candidate \<Rightarrow> passed_over \<Rightarrow> exclusion" where
  "excluded_as c r = \<lparr>ex_userId = ac_userId c, ex_fullName = ac_fullName c, ex_reason = r\<rparr>"

fun sift :: "bool \<Rightarrow> candidate list \<Rightarrow> exclusion list \<times> candidate list \<times> candidate list" where
  "sift isStrong [] = ([], [], [])"
| "sift isStrong (c # cs) =
    (let (excluded, eligible, gated) = sift isStrong cs
     in if ac_isAvailable c = Some False then
          (excluded_as c (Unavailable (case ac_unavailableReason c of Some r \<Rightarrow> r | None \<Rightarrow> ''Not available for new leads'')) # excluded,
           eligible, gated)
        else if capacityOf c \<le> ac_openLeads c then
          (excluded_as c (AtCapacity (ac_openLeads c) (capacityOf c)) # excluded, eligible, gated)
        else if isStrong \<and> ac_behaviourScore c < MIN_BEHAVIOUR_FOR_STRONG_LEADS then
          (excluded_as c (BelowBar (ac_behaviourScore c)) # excluded, eligible, c # gated)
        else (excluded, c # eligible, gated))"

definition remove_first :: "('a \<Rightarrow> bool) \<Rightarrow> 'a list \<Rightarrow> 'a list" where
  "remove_first P xs = takeWhile (Not \<circ> P) xs @ drop 1 (dropWhile (Not \<circ> P) xs)"

definition by_discipline :: "collation \<Rightarrow> candidate \<Rightarrow> candidate \<Rightarrow> int" where
  "by_discipline coll a b = cmp_or (ac_behaviourScore b - ac_behaviourScore a) (coll (ac_fullName a) (ac_fullName b))"

text \<open>When the gate left nobody, the most disciplined of those it caught comes back.\<close>

definition reinstate :: "collation \<Rightarrow> exclusion list \<times> candidate list \<times> candidate list \<Rightarrow> exclusion list \<times> candidate list \<times> string list" where
  "reinstate coll piles =
    (case piles of (excluded, eligible, gated) \<Rightarrow>
       if eligible = [] \<and> gated \<noteq> []
       then (let best = hd (js_sort (by_discipline coll) gated)
             in (remove_first (\<lambda>e. ex_userId e = ac_userId best) excluded, [best], [ac_userId best]))
       else (excluded, eligible, []))"

section \<open>The advice\<close>

definition by_fit :: "collation \<Rightarrow> scored \<Rightarrow> scored \<Rightarrow> int" where
  "by_fit coll a b = cmp_or (re_fitScore b - re_fitScore a) (coll (re_fullName a) (re_fullName b))"

definition due_for_development :: "nat \<Rightarrow> bool" where
  "due_for_development cursor = (int cursor mod js_round (1 / DEVELOPMENT_FLOOR_SHARE) = 0)"

definition developing :: "scored \<Rightarrow> bool" where
  "developing e = (ac_overall (sc_candidate e) < DEVELOPING_RATING_CEILING)"

definition development_floor :: "bool \<Rightarrow> nat \<Rightarrow> scored list \<Rightarrow> scored list \<times> bool" where
  "development_floor isStrong cursor xs =
    (if isStrong \<and> 1 < length xs \<and> due_for_development cursor then
       (let before = takeWhile (Not \<circ> developing) xs
        in case dropWhile (Not \<circ> developing) xs of
             [] \<Rightarrow> (xs, False)
           | pick # behind \<Rightarrow>
               if before = [] then (xs, False)
               else (pick\<lparr>re_isDevelopmentPick := True, re_reasons := BuildTheirRecord # re_reasons pick\<rparr> # before @ behind, True))
     else (xs, False))"

definition ranked :: "collation \<Rightarrow> int \<Rightarrow> candidate list \<Rightarrow> nat \<Rightarrow> exclusion list \<times> scored list \<times> bool" where
  "ranked coll score candidates cursor =
    (let isStrong = (STRONG_LEAD_SCORE \<le> score);
         (excluded, eligible, reinstated) = reinstate coll (sift isStrong candidates)
     in (excluded, development_floor isStrong cursor
           (js_sort (by_fit coll) (map (score_candidate isStrong reinstated) eligible))))"

definition recommendOwners :: "collation \<Rightarrow> int \<Rightarrow> candidate list \<Rightarrow> nat option \<Rightarrow> nat option \<Rightarrow> advice" where
  "recommendOwners coll score candidates developmentCursor maxRecommendations =
    (let (excluded, scored, applied) = ranked coll score candidates (case developmentCursor of Some n \<Rightarrow> n | None \<Rightarrow> 0);
         limit = (case maxRecommendations of Some n \<Rightarrow> n | None \<Rightarrow> 3);
         recommendations = map (\<lambda>(position, e). (recommendation.truncate e)\<lparr>re_rank := position + 1\<rparr>) (enumerate 0 (take limit scored))
     in \<lparr>ad_leadBand = (if STRONG_LEAD_SCORE \<le> score then STRONG_LEAD else STANDARD_LEAD), ad_leadScore = score,
         ad_recommendations = recommendations, ad_excluded = excluded, ad_developmentFloorApplied = applied,
         ad_note = (if recommendations = [] then NobodyAvailable else SuggestionsOnly)\<rparr>)"

section \<open>The service\<close>

record seller_row = account +
  su_noticePeriodFrom :: "time option"
  su_offboardedAt :: "time option"

record allocation_state =
  al_users :: "seller_row list"
  al_performance :: performance_state
  al_cursor :: "nat option"

definition OPEN_LEAD_STATUSES :: "lead_status list" where
  "OPEN_LEAD_STATUSES = [NEW, CONTACTED, QUALIFIED, PROPOSAL]"

definition RATING_WINDOW_DAYS :: int where
  "RATING_WINDOW_DAYS = 90"

definition sells :: "seller_row \<Rightarrow> bool" where
  "sells u = list_ex (\<lambda>r. r = SALES_EXECUTIVE \<or> r = SALES_MANAGER) (map rr_code (u_roles u))"

definition availability :: "string option \<Rightarrow> seller_row \<Rightarrow> bool \<times> string option" where
  "availability currentOwnerId u =
    (if u_status u \<noteq> ACTIVE \<or> su_offboardedAt u \<noteq> None then (False, Some ''Not an active user'')
     else if su_noticePeriodFrom u \<noteq> None then (False, Some ''Serving notice period'')
     else if currentOwnerId = Some (u_id u) then (False, Some ''Already owns this lead'')
     else (True, None))"

definition candidate_of :: "string option \<Rightarrow> lead_row list \<Rightarrow> rating option \<Rightarrow> seller_row \<Rightarrow> candidate" where
  "candidate_of currentOwnerId leads r u =
    \<lparr>ac_userId = u_id u, ac_fullName = js_trim (u_firstName u @ '' '' @ u_lastName u),
     ac_overall = (case r of Some r \<Rightarrow> ra_overall r | None \<Rightarrow> 50),
     ac_behaviourScore = (case r of Some r \<Rightarrow> ra_behaviourScore r | None \<Rightarrow> 50),
     ac_confidence = (case r of Some r \<Rightarrow> ra_confidence r | None \<Rightarrow> LOW_CONFIDENCE),
     ac_openLeads = int (count_where (\<lambda>l. l_ownerId l = Some (u_id u) \<and> l_deletedAt l = None \<and> l_status l \<in> set OPEN_LEAD_STATUSES) leads),
     ac_capacity = Some DEFAULT_CAPACITY,
     ac_isAvailable = Some (fst (availability currentOwnerId u)),
     ac_unavailableReason = snd (availability currentOwnerId u)\<rparr>"

definition candidates :: "time \<Rightarrow> principal \<Rightarrow> string option \<Rightarrow> allocation_state \<Rightarrow> candidate list" where
  "candidates now actor currentOwnerId s =
    (let users = take 100 (filter (\<lambda>u. u_deletedAt u = None \<and> u_userType u = INTERNAL_USER \<and>
           (pr_dataScope actor = ALL_SCOPE \<or> u_id u \<in> set (pr_id actor # pr_teamUserIds actor))) (al_users s));
         sellers = filter sells users;
         ratings = ratingsFor now (map u_id sellers) (now - RATING_WINDOW_DAYS * DAY_MS) (al_performance s)
     in map (\<lambda>u. candidate_of currentOwnerId (pf_leads (al_performance s)) (map_of ratings (u_id u)) u) sellers)"

definition recommendForLead :: "collation \<Rightarrow> org_unit list \<Rightarrow> time \<Rightarrow> principal \<Rightarrow> string \<Rightarrow> allocation_state \<Rightarrow> (advice \<times> lead_row) result" where
  "recommendForLead coll orgs now actor leadId s =
    (case find (\<lambda>l. l_id l = leadId \<and> l_deletedAt l = None \<and> matches orgs (leadScope actor) (lead_scope_row l))
        (pf_leads (al_performance s)) of
       None \<Rightarrow> Inl (NotFound ''Lead not found'')
     | Some lead \<Rightarrow>
         Inr (recommendOwners coll (l_score lead) (candidates now actor (l_ownerId lead) s)
                (Some (case al_cursor s of Some n \<Rightarrow> n | None \<Rightarrow> 0)) None, lead))"

definition recordStrongAllocation :: "allocation_state \<Rightarrow> allocation_state" where
  "recordStrongAllocation s = s\<lparr>al_cursor := Some (case al_cursor s of None \<Rightarrow> 1 | Some n \<Rightarrow> n + 1)\<rparr>"

definition demo_candidate :: "string \<Rightarrow> int \<Rightarrow> int \<Rightarrow> candidate" where
  "demo_candidate i overall behaviour =
    \<lparr>ac_userId = i, ac_fullName = i, ac_overall = overall, ac_behaviourScore = behaviour, ac_confidence = HIGH_CONFIDENCE,
     ac_openLeads = 10, ac_capacity = None, ac_isAvailable = None, ac_unavailableReason = None\<rparr>"

section \<open>Who is considered\<close>

definition can_take :: "candidate \<Rightarrow> bool" where
  "can_take c \<longleftrightarrow> ac_isAvailable c \<noteq> Some False \<and> ac_openLeads c < capacityOf c"

definition clears_bar :: "bool \<Rightarrow> candidate \<Rightarrow> bool" where
  "clears_bar isStrong c \<longleftrightarrow> (isStrong \<longrightarrow> MIN_BEHAVIOUR_FOR_STRONG_LEADS \<le> ac_behaviourScore c)"

lemma sift_eligible: "fst (snd (sift b cs)) = filter (\<lambda>c. can_take c \<and> clears_bar b c) cs"
  by (induction cs) (auto simp: can_take_def clears_bar_def split: prod.splits)

lemma sift_gated: "snd (snd (sift b cs)) = filter (\<lambda>c. can_take c \<and> \<not> clears_bar b c) cs"
  by (induction cs) (auto simp: can_take_def clears_bar_def split: prod.splits)

lemma sift_excluded: "map ex_userId (fst (sift b cs)) = map ac_userId (filter (\<lambda>c. \<not> (can_take c \<and> clears_bar b c)) cs)"
  by (induction cs) (auto simp: can_take_def clears_bar_def excluded_as_def split: prod.splits)

lemma mset_remove_first:
  "v \<in> f ` set xs \<Longrightarrow> add_mset v (mset (map f (remove_first (\<lambda>e. f e = v) xs))) = mset (map f xs)"
  by (induction xs) (auto simp: remove_first_def)

lemma reinstate_accounts:
  assumes "reinstate coll (sift b cs) = (excluded, eligible, again)"
  shows "mset (map ac_userId eligible) + mset (map ex_userId excluded) = mset (map ac_userId cs) \<and>
    set eligible \<subseteq> {c \<in> set cs. can_take c} \<and> (eligible = [] \<longleftrightarrow> (\<forall>c\<in>set cs. \<not> can_take c)) \<and>
    ((\<exists>c\<in>set cs. can_take c \<and> clears_bar b c) \<longrightarrow> eligible = filter (\<lambda>c. can_take c \<and> clears_bar b c) cs)"
proof -
  let ?P = "\<lambda>c. can_take c \<and> clears_bar b c"
  let ?gated = "filter (\<lambda>c. can_take c \<and> \<not> clears_bar b c) cs"
  obtain ex where piles: "sift b cs = (ex, filter ?P cs, ?gated)"
    using sift_eligible [of b cs] sift_gated [of b cs] by (metis prod.collapse)
  have ex: "map ex_userId ex = map ac_userId (filter (\<lambda>c. \<not> ?P c) cs)" using sift_excluded [of b cs] by (simp add: piles)
  have all: "mset (map ac_userId (filter ?P cs)) + mset (map ex_userId ex) = mset (map ac_userId cs)"
    unfolding ex by (induction cs) auto
  show ?thesis
  proof (cases "filter ?P cs = [] \<and> ?gated \<noteq> []")
    case True
    let ?best = "hd (js_sort (by_discipline coll) ?gated)"
    have "?best \<in> set (js_sort (by_discipline coll) ?gated)" by (rule hd_in_set) (use True in simp)
    then have best: "?best \<in> set ?gated" by simp
    have res: "excluded = remove_first (\<lambda>e. ex_userId e = ac_userId ?best) ex" "eligible = [?best]"
      using assms True unfolding piles by (auto simp: reinstate_def Let_def)
    have "ac_userId ?best \<in> ac_userId ` set (filter (\<lambda>c. \<not> ?P c) cs)" using best by auto
    then have "ac_userId ?best \<in> set (map ex_userId ex)" unfolding ex by simp
    then have "ac_userId ?best \<in> ex_userId ` set ex" by simp
    from mset_remove_first [OF this] all True
    have "mset (map ac_userId eligible) + mset (map ex_userId excluded) = mset (map ac_userId cs)" by (simp add: res)
    moreover have "?best \<in> set cs" "can_take ?best" using best by auto
    moreover have "\<not> (\<exists>c\<in>set cs. ?P c)" using True by (auto simp: filter_empty_conv)
    ultimately show ?thesis by (auto simp: res)
  next
    case False
    then have res: "excluded = ex" "eligible = filter ?P cs"
      using assms unfolding piles by (auto simp: reinstate_def)
    have "(filter ?P cs = []) \<longleftrightarrow> (\<forall>c\<in>set cs. \<not> can_take c)" using False by (auto simp: filter_empty_conv)
    then show ?thesis using all by (auto simp: res)
  qed
qed

lemma floor_permutes:
  fixes f :: "scored \<Rightarrow> 'x"
  assumes f: "\<And>x d r. f (x\<lparr>re_isDevelopmentPick := d, re_reasons := r\<rparr>) = f x"
  shows "mset (map f (fst (development_floor b n xs))) = mset (map f xs)"
proof (cases "dropWhile (Not \<circ> developing) xs")
  case Nil
  then show ?thesis by (simp add: development_floor_def Let_def del: dropWhile_eq_Nil_conv)
next
  case (Cons p q)
  have xs: "takeWhile (Not \<circ> developing) xs @ dropWhile (Not \<circ> developing) xs = xs" by simp
  have "mset (map f xs) = mset (map f (takeWhile (Not \<circ> developing) xs)) + mset (map f (p # q))"
    using arg_cong [OF xs, of "\<lambda>l. mset (map f l)"] Cons by simp
  then show ?thesis using Cons f by (simp add: development_floor_def Let_def)
qed

lemma ranked_permutes:
  assumes "ranked coll score cs n = (excluded, pool, applied)"
    and "reinstate coll (sift (STRONG_LEAD_SCORE \<le> score) cs) = (excluded', eligible, again)"
  shows "excluded = excluded'"
    "mset (map (\<lambda>e. (re_userId e, sc_candidate e)) pool) = mset (map (\<lambda>c. (ac_userId c, c)) eligible)"
proof -
  let ?b = "STRONG_LEAD_SCORE \<le> score"
  let ?xs = "js_sort (by_fit coll) (map (score_candidate ?b again) eligible)"
  have "(excluded', development_floor ?b n ?xs) = (excluded, pool, applied)"
    using assms(1) unfolding ranked_def Let_def assms(2) prod.case .
  then have "development_floor ?b n ?xs = (pool, applied)" and ex: "excluded = excluded'" unfolding prod.inject by blast+
  from arg_cong [OF this(1), of fst] have p: "pool = fst (development_floor ?b n ?xs)" unfolding fst_conv by (rule sym)
  from ex show "excluded = excluded'" .
  have "mset (map (\<lambda>e. (re_userId e, sc_candidate e)) pool) = mset (map (\<lambda>e. (re_userId e, sc_candidate e)) ?xs)"
    unfolding p by (rule floor_permutes) simp
  also have "\<dots> = mset (map (\<lambda>c. (ac_userId c, c)) eligible)"
    by (simp add: image_mset.compositionality comp_def score_candidate_def)
  finally show "mset (map (\<lambda>e. (re_userId e, sc_candidate e)) pool) = mset (map (\<lambda>c. (ac_userId c, c)) eligible)" .
qed

lemma ranked_accounts:
  assumes "ranked coll score cs n = (excluded, pool, applied)" and b: "b = (STRONG_LEAD_SCORE \<le> score)"
  shows "mset (map re_userId pool) + mset (map ex_userId excluded) = mset (map ac_userId cs)"
    "\<forall>e \<in> set pool. sc_candidate e \<in> set cs \<and> can_take (sc_candidate e) \<and> re_userId e = ac_userId (sc_candidate e)"
    "pool = [] \<longleftrightarrow> (\<forall>c\<in>set cs. \<not> can_take c)"
    "(\<exists>c\<in>set cs. can_take c \<and> clears_bar b c) \<longrightarrow> (\<forall>e \<in> set pool. clears_bar b (sc_candidate e))"
proof -
  obtain excluded' eligible again where r: "reinstate coll (sift b cs) = (excluded', eligible, again)" by (metis prod_cases3)
  note acc = reinstate_accounts [OF r]
  have eq: "excluded = excluded'"
    and perm: "mset (map (\<lambda>e. (re_userId e, sc_candidate e)) pool) = mset (map (\<lambda>c. (ac_userId c, c)) eligible)"
    using ranked_permutes [OF assms(1) r [unfolded b]] by auto
  have "mset (map fst (map (\<lambda>e. (re_userId e, sc_candidate e)) pool)) = mset (map fst (map (\<lambda>c. (ac_userId c, c)) eligible))"
    using arg_cong [OF perm, of "image_mset fst"] by (simp only: mset_map)
  then show "mset (map re_userId pool) + mset (map ex_userId excluded) = mset (map ac_userId cs)"
    using acc by (simp add: comp_def eq)
  have mem: "(\<lambda>e. (re_userId e, sc_candidate e)) ` set pool = (\<lambda>c. (ac_userId c, c)) ` set eligible"
    using arg_cong [OF perm, of set_mset] by simp
  have pairs: "sc_candidate e \<in> set eligible \<and> re_userId e = ac_userId (sc_candidate e)" if "e \<in> set pool" for e
  proof -
    have "(re_userId e, sc_candidate e) \<in> (\<lambda>c. (ac_userId c, c)) ` set eligible" unfolding mem [symmetric] using that by simp
    then show ?thesis by auto
  qed
  then show "\<forall>e \<in> set pool. sc_candidate e \<in> set cs \<and> can_take (sc_candidate e) \<and> re_userId e = ac_userId (sc_candidate e)"
    using acc by blast
  have "pool = [] \<longleftrightarrow> eligible = []" using arg_cong [OF perm, of size] by auto
  then show "pool = [] \<longleftrightarrow> (\<forall>c\<in>set cs. \<not> can_take c)" using acc by simp
  show "(\<exists>c\<in>set cs. can_take c \<and> clears_bar b c) \<longrightarrow> (\<forall>e \<in> set pool. clears_bar b (sc_candidate e))"
    using acc pairs by fastforce
qed

lemma enumerate_take: "enumerate m (take k xs) = take k (enumerate m xs)"
  by (induction xs arbitrary: m k) (auto simp: take_Cons split: nat.splits)

lemma recommendations_ranked:
  assumes "ranked coll score cs (case cursor of Some n \<Rightarrow> n | None \<Rightarrow> 0) = (excluded, pool, applied)"
  shows "ad_recommendations (recommendOwners coll score cs cursor (Some k)) =
      map (\<lambda>(position, e). (recommendation.truncate e)\<lparr>re_rank := position + 1\<rparr>) (enumerate 0 (take k pool))"
    "ad_excluded (recommendOwners coll score cs cursor (Some k)) = excluded"
  using assms by (simp_all add: recommendOwners_def Let_def)

text \<open>
  C32. The advice accounts for everybody: each candidate considered is either recommendable or passed
  over with a reason, exactly once; a shorter list is the head of the longer one; whoever is
  recommended is available and has room, and clears the follow-up bar of a strong lead whenever
  somebody does; and the list is empty only when nobody at all is available with room.
\<close>

theorem advice_accounts_for_everyone:
  assumes "0 < k"
  shows "(let full = recommendOwners coll score cs cursor (Some (length cs));
              advice = recommendOwners coll score cs cursor (Some k)
    in mset (map re_userId (ad_recommendations full)) + mset (map ex_userId (ad_excluded full)) = mset (map ac_userId cs) \<and>
       ad_recommendations advice = take k (ad_recommendations full) \<and>
       (\<forall>r \<in> set (ad_recommendations advice). \<exists>c \<in> set cs. re_userId r = ac_userId c \<and> can_take c \<and>
          ((\<exists>d \<in> set cs. can_take d \<and> clears_bar (STRONG_LEAD_SCORE \<le> score) d) \<longrightarrow> clears_bar (STRONG_LEAD_SCORE \<le> score) c)) \<and>
       (ad_recommendations advice = [] \<longleftrightarrow> (\<forall>c \<in> set cs. \<not> can_take c)))"
proof -
  let ?n = "case cursor of Some n \<Rightarrow> n | None \<Rightarrow> 0" and ?b = "STRONG_LEAD_SCORE \<le> score"
  let ?f = "\<lambda>(position, e). (recommendation.truncate e)\<lparr>re_rank := position + 1\<rparr>"
  obtain excluded pool applied where r: "ranked coll score cs ?n = (excluded, pool, applied)" by (metis prod_cases3)
  note acc = ranked_accounts [OF r refl]
  have len: "length pool \<le> length cs" using arg_cong [OF acc(1), of size] by simp
  have ids: "map re_userId (map ?f (enumerate m xs)) = map re_userId xs" for m and xs :: "scored list"
    by (induction xs arbitrary: m) (simp_all add: recommendation.truncate_def)
  have full: "take (length cs) pool = pool" using len by simp
  have cut: "map ?f (enumerate 0 (take k pool)) = take k (map ?f (enumerate 0 (take (length cs) pool)))"
    unfolding full by (simp add: take_map enumerate_take)
  have all: "mset (map re_userId (map ?f (enumerate 0 (take (length cs) pool)))) + mset (map ex_userId excluded) = mset (map ac_userId cs)"
    unfolding ids full by (rule acc(1))
  have who: "\<exists>c \<in> set cs. re_userId x = ac_userId c \<and> can_take c \<and> ((\<exists>d \<in> set cs. can_take d \<and> clears_bar ?b d) \<longrightarrow> clears_bar ?b c)"
    if "x \<in> set (map ?f (enumerate 0 (take k pool)))" for x
  proof -
    have "re_userId x \<in> set (map re_userId (map ?f (enumerate 0 (take k pool))))" using that by (metis image_eqI list.set_map)
    then obtain e where "e \<in> set pool" "re_userId x = re_userId e" unfolding ids by (auto dest: in_set_takeD)
    then show ?thesis using acc(2,4) by metis
  qed
  have "map ?f (enumerate 0 (take k pool)) = [] \<longleftrightarrow> (\<forall>c \<in> set cs. \<not> can_take c)"
  proof -
    have "length (map ?f (enumerate 0 (take k pool))) = min k (length pool)" by simp
    then have "map ?f (enumerate 0 (take k pool)) = [] \<longleftrightarrow> min k (length pool) = 0" by (metis length_0_conv)
    also have "\<dots> \<longleftrightarrow> pool = []" using assms by (cases pool) auto
    finally show ?thesis using acc(3) by blast
  qed
  with all cut who show ?thesis
    unfolding Let_def recommendations_ranked [OF r] by blast
qed

lemma advice_accounts_for_everyone_witness:
  "ad_recommendations (recommendOwners code_unit_order 80 [demo_candidate ''u1'' 40 90, demo_candidate ''u2'' 80 20] None (Some 1)) \<noteq> []"
proof -
  have "can_take (demo_candidate ''u1'' 40 90)" by code_simp
  then show ?thesis
    using advice_accounts_for_everyone [of 1 code_unit_order 80 "[demo_candidate ''u1'' 40 90, demo_candidate ''u2'' 80 20]" None]
    unfolding Let_def by auto
qed

section \<open>The development floor\<close>

lemma due_iff: "due_for_development n \<longleftrightarrow> n mod 4 = 0"
proof -
  have "js_round (1 / DEVELOPMENT_FLOOR_SHARE) = 4" by code_simp
  then show ?thesis by (simp add: due_for_development_def) presburger
qed

lemma one_in_four_due: "\<exists>!d. d < 4 \<and> due_for_development (n + d)"
proof (rule ex_ex1I)
  have "n mod 4 = 0 \<or> n mod 4 = 1 \<or> n mod 4 = 2 \<or> n mod 4 = 3" by presburger
  then have "(n + 0) mod 4 = 0 \<or> (n + 3) mod 4 = 0 \<or> (n + 2) mod 4 = 0 \<or> (n + 1) mod 4 = 0" by presburger
  then show "\<exists>d. d < 4 \<and> due_for_development (n + d)"
    unfolding due_iff by (elim disjE) (rule exI, erule conjI [rotated], simp)+
  show "d = e" if "d < 4 \<and> due_for_development (n + d)" "e < 4 \<and> due_for_development (n + e)" for d e
    using that unfolding due_iff by presburger
qed

lemma comparator_by_fit: "comparator coll \<Longrightarrow> comparator (by_fit coll)"
proof -
  assume "comparator coll"
  then have "comparator (\<lambda>a b. cmp_or (int_desc (re_fitScore a) (re_fitScore b)) (coll (re_fullName a) (re_fullName b)))"
    using comparator_cmp_or [OF comparator_on [OF desc.comparator_axioms, of re_fitScore] comparator_on [of coll re_fullName]] by simp
  then show ?thesis by (simp add: by_fit_def [abs_def] int_desc_def)
qed

lemma by_fit_descends: "by_fit coll a b \<le> 0 \<Longrightarrow> re_fitScore b \<le> re_fitScore a"
  by (auto simp: by_fit_def cmp_or_def split: if_splits)

lemma floor_cases:
  obtains (kept) "development_floor b n xs = (xs, False)"
      and "b \<and> due_for_development n \<and> (\<exists>e \<in> set xs. developing e) \<longrightarrow> developing (hd xs)"
    | (promoted) before pick behind where "xs = before @ pick # behind" and "developing pick" and "b" and "due_for_development n"
      and "development_floor b n xs =
        (pick\<lparr>re_isDevelopmentPick := True, re_reasons := BuildTheirRecord # re_reasons pick\<rparr> # before @ behind, True)"
proof (cases "dropWhile (Not \<circ> developing) xs")
  case Nil
  then have "\<not> (\<exists>e \<in> set xs. developing e)" by auto
  moreover have "development_floor b n xs = (xs, False)"
    using Nil by (simp add: development_floor_def Let_def del: dropWhile_eq_Nil_conv)
  ultimately show ?thesis by (intro that(1)) blast+
next
  case (Cons pick behind)
  let ?before = "takeWhile (Not \<circ> developing) xs"
  have xs: "xs = ?before @ pick # behind" by (metis Cons takeWhile_dropWhile_id)
  have pick: "developing pick" using hd_dropWhile [of "Not \<circ> developing" xs] Cons by simp
  show ?thesis
  proof (cases "b \<and> 1 < length xs \<and> due_for_development n \<and> ?before \<noteq> []")
    case True
    then show ?thesis using Cons pick by (intro that(2) [OF xs pick]) (simp_all add: development_floor_def Let_def)
  next
    case False
    have keep: "development_floor b n xs = (xs, False)" using False Cons by (auto simp: development_floor_def Let_def)
    have hd: "developing (hd xs)" if "?before = []" using xs pick that by (metis append_Nil list.sel(1))
    have one: "?before = []" if "\<not> 1 < length xs" using arg_cong [OF xs, of length] that by simp
    show ?thesis using keep hd one False by (intro that(1)) blast+
  qed
qed

text \<open>
  The development floor reserves one strong lead in four and otherwise leaves the order of fit
  alone. Of any four consecutive values of the rotation exactly one is due; apart from a development
  pick the advice descends by fit; a development pick stands first, and only on a strong lead whose
  turn is due; and on such a lead somebody still developing stands first whenever one of the people
  advised is still developing.
\<close>

theorem development_floor_is_one_in_four:
  assumes "comparator coll" and "distinct (map ac_userId cs)"
  shows "(let recs = ad_recommendations (recommendOwners coll score cs (Some n) (Some (length cs)))
    in (\<exists>!d. d < 4 \<and> due_for_development (n + d)) \<and>
       sorted_wrt (\<lambda>a b. re_fitScore b \<le> re_fitScore a) (filter (\<lambda>r. \<not> re_isDevelopmentPick r) recs) \<and>
       (\<forall>r \<in> set recs. re_isDevelopmentPick r \<longrightarrow> re_rank r = 1 \<and> STRONG_LEAD_SCORE \<le> score \<and> due_for_development n) \<and>
       (STRONG_LEAD_SCORE \<le> score \<and> due_for_development n \<and>
          (\<exists>c \<in> set cs. ac_userId c \<in> re_userId ` set recs \<and> ac_overall c < DEVELOPING_RATING_CEILING) \<longrightarrow>
          (\<exists>c \<in> set cs. ac_userId c = re_userId (hd recs) \<and> ac_overall c < DEVELOPING_RATING_CEILING)))"
proof -
  let ?f = "\<lambda>(position, e). (recommendation.truncate e)\<lparr>re_rank := position + 1\<rparr>"
  let ?b = "STRONG_LEAD_SCORE \<le> score"
  obtain excluded eligible again where re: "reinstate coll (sift ?b cs) = (excluded, eligible, again)" by (metis prod_cases3)
  define xs where "xs = js_sort (by_fit coll) (map (score_candidate ?b again) eligible)"
  obtain pool applied where fl: "development_floor ?b n xs = (pool, applied)" by fastforce
  have r: "ranked coll score cs (case Some n of Some n \<Rightarrow> n | None \<Rightarrow> 0) = (excluded, pool, applied)"
    unfolding ranked_def Let_def re prod.case option.case xs_def [symmetric] fl ..
  note acc = ranked_accounts [OF r refl]
  have "length pool \<le> length cs" using arg_cong [OF acc(1), of size] by simp
  then have recs: "ad_recommendations (recommendOwners coll score cs (Some n) (Some (length cs))) = map ?f (enumerate 0 pool)"
    unfolding recommendations_ranked(1) [OF r] by simp
  have fresh: "\<not> re_isDevelopmentPick e" if "e \<in> set xs" for e using that by (auto simp: xs_def score_candidate_def)
  have sorted: "sorted_wrt (\<lambda>a b. re_fitScore b \<le> re_fitScore a) xs"
    using comparator.sorted_js_sort [OF comparator_by_fit [OF assms(1)], of "map (score_candidate ?b again) eligible"]
    unfolding xs_def by (rule sorted_wrt_mono_rel [rotated]) (rule by_fit_descends)
  have ids: "map re_userId (map ?f (enumerate m ys)) = map re_userId ys" for m and ys :: "scored list"
    by (induction ys arbitrary: m) (simp_all add: recommendation.truncate_def)
  have fits: "map re_fitScore (filter (\<lambda>r. \<not> re_isDevelopmentPick r) (map ?f (enumerate m ys))) =
      map re_fitScore (filter (\<lambda>r. \<not> re_isDevelopmentPick r) ys)" for m and ys :: "scored list"
    by (induction ys arbitrary: m) (simp_all add: recommendation.truncate_def)
  have no_pick: "\<not> re_isDevelopmentPick r" if "r \<in> set (map ?f (enumerate m ys))" "\<forall>e \<in> set ys. \<not> re_isDevelopmentPick e"
    for r m and ys :: "scored list"
  proof -
    have "map re_isDevelopmentPick (map ?f (enumerate m ys)) = map re_isDevelopmentPick ys"
      by (induction ys arbitrary: m) (simp_all add: recommendation.truncate_def)
    moreover have "re_isDevelopmentPick r \<in> set (map re_isDevelopmentPick (map ?f (enumerate m ys)))"
      unfolding set_map [of re_isDevelopmentPick] by (rule imageI) (rule that(1))
    ultimately show ?thesis using that(2) by auto
  qed
  have shape: "sorted_wrt (\<lambda>a b. re_fitScore b \<le> re_fitScore a) (filter (\<lambda>r. \<not> re_isDevelopmentPick r) pool) \<and>
      (\<forall>r \<in> set (map ?f (enumerate 0 pool)). re_isDevelopmentPick r \<longrightarrow> re_rank r = 1 \<and> ?b \<and> due_for_development n) \<and>
      (?b \<and> due_for_development n \<and> (\<exists>e \<in> set pool. developing e) \<longrightarrow> developing (hd pool))"
  proof (rule floor_cases [of ?b n xs])
    assume kept: "development_floor ?b n xs = (xs, False)"
      "?b \<and> due_for_development n \<and> (\<exists>e \<in> set xs. developing e) \<longrightarrow> developing (hd xs)"
    then have pool: "pool = xs" using fl by simp
    have "filter (\<lambda>r. \<not> re_isDevelopmentPick r) xs = xs" using fresh by (simp add: filter_id_conv)
    then show ?thesis using sorted kept(2) no_pick [of _ 0 xs] fresh unfolding pool by auto
  next
    fix before pick behind
    assume p: "xs = before @ pick # behind" "developing pick" "?b" "due_for_development n"
      and eq: "development_floor ?b n xs =
        (pick\<lparr>re_isDevelopmentPick := True, re_reasons := BuildTheirRecord # re_reasons pick\<rparr> # before @ behind, True)"
    let ?p = "pick\<lparr>re_isDevelopmentPick := True, re_reasons := BuildTheirRecord # re_reasons pick\<rparr>"
    have pool: "pool = ?p # before @ behind" using fl eq by simp
    have rest: "\<forall>e \<in> set (before @ behind). \<not> re_isDevelopmentPick e" using fresh p(1) by auto
    then have f: "filter (\<lambda>r. \<not> re_isDevelopmentPick r) pool = before @ behind" by (simp add: pool filter_id_conv)
    have "sorted_wrt (\<lambda>a b. re_fitScore b \<le> re_fitScore a) (before @ behind)"
      using sorted unfolding p(1) by (simp add: sorted_wrt_append)
    moreover have "re_rank r = 1" if "r \<in> set (map ?f (enumerate 0 pool))" "re_isDevelopmentPick r" for r
    proof -
      have "r = ?f (0, ?p) \<or> r \<in> set (map ?f (enumerate 1 (before @ behind)))" using that(1) unfolding pool by simp
      then show ?thesis using no_pick [of r 1 "before @ behind"] rest that(2) by fastforce
    qed
    moreover have "developing (hd pool)" using p(2) by (simp add: pool developing_def)
    ultimately show ?thesis using p(3,4) by (simp only: f) blast
  qed
  have desc: "sorted_wrt (\<lambda>a b. re_fitScore b \<le> re_fitScore a) (filter (\<lambda>r. \<not> re_isDevelopmentPick r) (map ?f (enumerate 0 pool)))"
  proof -
    have "sorted_wrt (\<lambda>a b. b \<le> a) (map re_fitScore (filter (\<lambda>r. \<not> re_isDevelopmentPick r) pool))"
      using shape unfolding sorted_wrt_map by blast
    then show ?thesis unfolding fits [of 0 pool, symmetric] sorted_wrt_map .
  qed
  have first: "\<exists>c \<in> set cs. ac_userId c = re_userId (hd (map ?f (enumerate 0 pool))) \<and> ac_overall c < DEVELOPING_RATING_CEILING"
    if "?b" "due_for_development n" "c \<in> set cs" "ac_userId c \<in> re_userId ` set (map ?f (enumerate 0 pool))"
      "ac_overall c < DEVELOPING_RATING_CEILING" for c
  proof -
    have "ac_userId c \<in> set (map re_userId (map ?f (enumerate 0 pool)))" unfolding set_map [of re_userId] by (rule that(4))
    then obtain e where e: "e \<in> set pool" "re_userId e = ac_userId c" unfolding ids by auto
    then have "sc_candidate e \<in> set cs" "ac_userId (sc_candidate e) = ac_userId c" using acc(2) by auto
    then have "sc_candidate e = c" using assms(2) that(3) by (metis inj_on_eq_iff distinct_map)
    then have "developing e" using that(5) by (simp add: developing_def)
    then have h: "developing (hd pool)" "hd pool \<in> set pool" using shape that(1,2) e(1) by (auto intro: hd_in_set)
    have "re_userId (hd (map ?f (enumerate 0 pool))) = re_userId (hd pool)"
      using e(1) by (cases pool) (auto simp: recommendation.truncate_def)
    then show ?thesis using h acc(2) by (auto simp: developing_def intro!: bexI [of _ "sc_candidate (hd pool)"])
  qed
  show ?thesis unfolding Let_def recs using one_in_four_due [of n] desc shape first by blast
qed

lemma development_floor_is_one_in_four_witness:
  "re_userId (hd (ad_recommendations (recommendOwners code_unit_order 80
     [demo_candidate ''u1'' 90 90, demo_candidate ''u2'' 40 60] (Some 4) (Some 2)))) = ''u2''"
proof -
  let ?cs = "[demo_candidate ''u1'' 90 90, demo_candidate ''u2'' 40 60]"
  let ?recs = "ad_recommendations (recommendOwners code_unit_order 80 ?cs (Some 4) (Some 2))"
  have two: "length ?cs = 2" by simp
  have hyp: "STRONG_LEAD_SCORE \<le> 80 \<and> due_for_development 4 \<and>
      (\<exists>c \<in> set ?cs. ac_userId c \<in> re_userId ` set ?recs \<and> ac_overall c < DEVELOPING_RATING_CEILING)" by code_simp
  have "distinct (map ac_userId ?cs)" by code_simp
  from development_floor_is_one_in_four [OF code_units.comparator_axioms this, of 80 4] hyp
  have "\<exists>c \<in> set ?cs. ac_userId c = re_userId (hd ?recs) \<and> ac_overall c < DEVELOPING_RATING_CEILING"
    unfolding Let_def two by blast
  then obtain c where c: "c \<in> set ?cs" "ac_userId c = re_userId (hd ?recs)" "ac_overall c < DEVELOPING_RATING_CEILING" by blast
  have "\<not> ac_overall (demo_candidate ''u1'' 90 90) < DEVELOPING_RATING_CEILING" by code_simp
  then have "c = demo_candidate ''u2'' 40 60" using c(1,3) unfolding list.set by blast
  moreover have "ac_userId (demo_candidate ''u2'' 40 60) = ''u2''" by (simp add: demo_candidate_def)
  ultimately show ?thesis using c(2) by metis
qed

text \<open>The fit score of somebody whose rating is a score lies between nothing and a hundred.\<close>

lemma fit_score_bounds:
  assumes "0 \<le> ac_overall c" and "ac_overall c \<le> 100"
  shows "0 \<le> fit_score b c \<and> fit_score b c \<le> 100"
proof -
  have room: "0 \<le> headroom c" "headroom c \<le> 1" by (auto simp: headroom_def)
  have "(0 :: rat) \<le> of_int (ac_overall c)" "of_int (ac_overall c) \<le> (100 :: rat)" using assms by simp_all
  then have trust: "0 \<le> trustedRating c" "trustedRating c \<le> 100"
    by (auto simp: trustedRating_def Let_def field_simps split: rating_confidence.splits)
  have "0 \<le> trustedRating c * w + headroom c * 100 * (1 - w) \<and> trustedRating c * w + headroom c * 100 * (1 - w) \<le> 100"
    if "0 \<le> w" "w \<le> 1" for w
  proof
    show "0 \<le> trustedRating c * w + headroom c * 100 * (1 - w)" using that room trust by simp
    have "trustedRating c * w \<le> 100 * w" using that trust by (intro mult_right_mono)
    moreover have "headroom c * 100 * (1 - w) \<le> 100 * (1 - w)" using that room by (intro mult_right_mono) auto
    ultimately show "trustedRating c * w + headroom c * 100 * (1 - w) \<le> 100" by (simp add: algebra_simps)
  qed
  from this [of "13 / 20"] this [of "2 / 5"] show ?thesis
    by (auto simp: fit_score_def Let_def intro: js_round_lower [of 0, simplified] js_round_upper)
qed

text \<open>
  Somebody with no record at all rates fifty, which is below the ceiling only while the rating says
  so: the advice never reads the number of leads, so a newcomer whose rating stands above the ceiling
  is not counted as developing.
\<close>

lemma floor_ignores_rating_above_ceiling:
  assumes "\<forall>c \<in> set cs. DEVELOPING_RATING_CEILING \<le> ac_overall c"
  shows "\<not> ad_developmentFloorApplied (recommendOwners coll score cs cursor limit)"
proof -
  let ?n = "case cursor of Some n \<Rightarrow> n | None \<Rightarrow> 0" and ?b = "STRONG_LEAD_SCORE \<le> score"
  obtain excluded eligible again where re: "reinstate coll (sift ?b cs) = (excluded, eligible, again)" by (metis prod_cases3)
  define xs where "xs = js_sort (by_fit coll) (map (score_candidate ?b again) eligible)"
  have "set eligible \<subseteq> set cs" using reinstate_accounts [OF re] by auto
  then have none: "\<not> developing e" if "e \<in> set xs" for e
    using that assms by (fastforce simp: xs_def developing_def score_candidate_def)
  have "\<not> snd (development_floor ?b ?n xs)" by (rule floor_cases [of ?b ?n xs]) (use none in auto)
  moreover have "ranked coll score cs ?n = (excluded, development_floor ?b ?n xs)"
    unfolding ranked_def Let_def re prod.case xs_def ..
  ultimately show ?thesis by (cases "development_floor ?b ?n xs") (simp add: recommendOwners_def Let_def)
qed
end
