(* ===== verification/TreeOrder.thy ===== *)
theory TreeOrder
  imports OrgTree
begin

text \<open>
  The organisation screen: \<open>tree\<close> of apps/api/src/modules/org-units/org-units.service.ts and
  \<open>toTreeOrder\<close> of packages/contracts/src/org-unit.ts. The depth-first walk is an unrestricted
  recursion in the source, so it is a partial function here, and that it returns is a theorem. The
  collation of \<open>localeCompare\<close> is a parameter.
\<close>

section \<open>The nodes\<close>

record org_unit_node = org_unit +
  on_eventsInherited :: bool
  on_depth :: int
  on_userCount :: nat
  on_leadCount :: nat
  on_childCount :: nat

definition inherits_events :: "org_unit list \<Rightarrow> org_unit \<Rightarrow> bool" where
  "inherits_events rows row =
    list_ex (\<lambda>i. i \<noteq> ou_id row \<and> i \<in> set (map ou_id (filter ou_canAccessEvents rows))) (pathIds (ou_path row))"

definition node_of :: "org_state \<Rightarrow> org_unit \<Rightarrow> org_unit_node" where
  "node_of s row = org_unit.extend row
    \<lparr>on_eventsInherited = inherits_events (units s) row, on_depth = depthOf (ou_path row),
     on_userCount = org_users_in s (ou_id row), on_leadCount = org_leads_in s (ou_id row), on_childCount = children_of s (ou_id row)\<rparr>"

section \<open>The walk\<close>

text \<open>The siblings of one entry of \<open>byParent\<close>, in the order of the sort.\<close>

definition by_type_and_name :: "collation \<Rightarrow> org_unit_node \<Rightarrow> org_unit_node \<Rightarrow> int" where
  "by_type_and_name coll a b = cmp_or (typeRank (ou_type a) - typeRank (ou_type b)) (coll (ou_name a) (ou_name b))"

definition siblings :: "collation \<Rightarrow> org_unit_node list \<Rightarrow> string option \<Rightarrow> org_unit_node list" where
  "siblings coll nodes parentId = js_sort (by_type_and_name coll) (filter (\<lambda>n. ou_parentId n = parentId) nodes)"

partial_function (option) walk :: "collation \<Rightarrow> org_unit_node list \<Rightarrow> org_unit_node list \<Rightarrow> org_unit_node list option" where
  "walk coll nodes pending =
    (case pending of
       [] \<Rightarrow> Some []
     | n # rest \<Rightarrow>
         Option.bind (walk coll nodes (siblings coll nodes (Some (ou_id n)))) (\<lambda>below.
         Option.bind (walk coll nodes rest) (\<lambda>after. Some (n # below @ after))))"

definition toTreeOrder :: "collation \<Rightarrow> org_unit_node list \<Rightarrow> org_unit_node list option" where
  "toTreeOrder coll nodes =
    map_option (\<lambda>ordered.
      if length ordered < length nodes
      then ordered @ filter (\<lambda>n. ou_id n \<notin> ou_id ` set ordered) nodes
      else ordered)
    (walk coll nodes (siblings coll nodes None))"

definition tree :: "collation \<Rightarrow> org_state \<Rightarrow> org_unit_node list option" where
  "tree coll s = toTreeOrder coll (map (node_of s) (units s))"

section \<open>The walk returns\<close>

text \<open>A node \<open>k\<close> steps below a root, by the parent links.\<close>

fun rooted :: "org_unit_node list \<Rightarrow> nat \<Rightarrow> org_unit_node \<Rightarrow> bool" where
  "rooted nodes 0 n \<longleftrightarrow> n \<in> set nodes \<and> ou_parentId n = None"
| "rooted nodes (Suc k) n \<longleftrightarrow> n \<in> set nodes \<and> (\<exists>p \<in> set nodes. ou_parentId n = Some (ou_id p) \<and> rooted nodes k p)"

lemma rooted_mem: "rooted nodes k n \<Longrightarrow> n \<in> set nodes"
  by (cases k) auto

lemma set_siblings [simp]: "set (siblings coll nodes p) = {n \<in> set nodes. ou_parentId n = p}"
  by (auto simp: siblings_def)

lemma distinct_siblings: "distinct nodes \<Longrightarrow> distinct (siblings coll nodes p)"
  by (simp add: siblings_def)

lemma same_node:
  "distinct (map ou_id nodes) \<Longrightarrow> p \<in> set nodes \<Longrightarrow> q \<in> set nodes \<Longrightarrow> ou_id p = ou_id q \<Longrightarrow> p = q"
  by (metis distinct_map inj_onD)

lemma rooted_unique:
  assumes ids: "distinct (map ou_id nodes)"
  shows "rooted nodes k n \<Longrightarrow> rooted nodes j n \<Longrightarrow> k = j"
proof (induction k arbitrary: j n)
  case 0
  then show ?case by (cases j) auto
next
  case (Suc k)
  then obtain i where j: "j = Suc i" by (cases j) auto
  from Suc.prems obtain p q where "p \<in> set nodes" "q \<in> set nodes" "rooted nodes k p" "rooted nodes i q"
    "ou_id p = ou_id q" by (auto simp: j)
  then show ?case using Suc.IH same_node [OF ids] j by metis
qed

lemma rooted_above: "rooted nodes k n \<Longrightarrow> j \<le> k \<Longrightarrow> \<exists>m. rooted nodes j m"
proof (induction k arbitrary: n)
  case (Suc k)
  then show ?case by (cases "j = Suc k") auto
qed auto

lemma rooted_bound:
  assumes ids: "distinct (map ou_id nodes)" and "rooted nodes k n"
  shows "k < length nodes"
proof -
  define f where "f j = (SOME m. rooted nodes j m)" for j
  have f: "rooted nodes j (f j)" if "j \<le> k" for j
    unfolding f_def using rooted_above [OF assms(2) that] by (rule someI_ex)
  have "inj_on f {..k}" by (rule inj_onI) (metis atMost_iff f rooted_unique [OF ids])
  moreover have "f ` {..k} \<subseteq> set nodes" using f by (auto intro: rooted_mem)
  ultimately have "card {..k} \<le> card (set nodes)" by (metis card_inj_on_le List.finite_set)
  then show ?thesis using card_length [of nodes] by simp
qed

inductive descends :: "org_unit_node list \<Rightarrow> org_unit_node \<Rightarrow> org_unit_node \<Rightarrow> bool" for nodes where
  descends_self: "n \<in> set nodes \<Longrightarrow> descends nodes n n"
| descends_child: "descends nodes n p \<Longrightarrow> m \<in> set nodes \<Longrightarrow> ou_parentId m = Some (ou_id p) \<Longrightarrow> descends nodes n m"

lemma descends_mem: "descends nodes n m \<Longrightarrow> n \<in> set nodes \<and> m \<in> set nodes"
  by (induction rule: descends.induct) auto

lemma descends_depth:
  "descends nodes n m \<Longrightarrow> rooted nodes k n \<Longrightarrow> \<exists>d. rooted nodes (k + d) m \<and> (d = 0 \<longrightarrow> m = n)"
proof (induction rule: descends.induct)
  case (descends_self n)
  then show ?case by (auto intro: exI [of _ 0])
next
  case (descends_child n p m)
  then obtain d where "rooted nodes (k + d) p" by auto
  then have "rooted nodes (Suc (k + d)) m" using descends_child rooted_mem by auto
  then show ?case by (intro exI [of _ "Suc d"]) simp
qed

lemma descends_first: "descends nodes n m \<longleftrightarrow> n \<in> set nodes \<and> m = n \<or>
    n \<in> set nodes \<and> (\<exists>c \<in> set nodes. ou_parentId c = Some (ou_id n) \<and> descends nodes c m)"
proof
  show "descends nodes n m \<Longrightarrow> n \<in> set nodes \<and> m = n \<or>
    n \<in> set nodes \<and> (\<exists>c \<in> set nodes. ou_parentId c = Some (ou_id n) \<and> descends nodes c m)"
    by (induction rule: descends.induct) (auto intro: descends.intros)
  have "descends nodes n m" if "descends nodes c m" "n \<in> set nodes" "ou_parentId c = Some (ou_id n)" for c
    using that by (induction rule: descends.induct) (auto intro: descends.intros)
  then show "n \<in> set nodes \<and> m = n \<or>
    n \<in> set nodes \<and> (\<exists>c \<in> set nodes. ou_parentId c = Some (ou_id n) \<and> descends nodes c m) \<Longrightarrow> descends nodes n m"
    by (auto intro: descends.intros)
qed

lemma descends_disjoint:
  assumes ids: "distinct (map ou_id nodes)" and r: "rooted nodes k r"
  shows "descends nodes n m \<Longrightarrow> rooted nodes k n \<Longrightarrow> descends nodes r m \<Longrightarrow> n = r"
proof (induction rule: descends.induct)
  case (descends_self n)
  then obtain d where d: "rooted nodes (k + d) n" "d = 0 \<longrightarrow> n = r" using descends_depth [OF _ r] by blast
  then have "d = 0" using rooted_unique [OF ids d(1) descends_self(2)] by simp
  then show ?case using d by simp
next
  case (descends_child n p m)
  from descends_child.prems(2) show ?case
  proof cases
    case descends_self
    obtain d where "rooted nodes (k + d) p" using descends_depth [OF descends_child.hyps(1) descends_child.prems(1)] by blast
    then have "rooted nodes (Suc (k + d)) m" using descends_child.hyps rooted_mem by auto
    then have False using rooted_unique [OF ids _ r] descends_self by fastforce
    then show ?thesis ..
  next
    case (descends_child q)
    then have "q = p" using same_node [OF ids] \<open>ou_parentId m = Some (ou_id p)\<close> descends_mem \<open>descends nodes n p\<close> by (metis option.inject)
    then show ?thesis using descends_child descends_child.IH descends_child.prems(1) by blast
  qed
qed

text \<open>
  What the walk over the nodes of one depth returns: every node below them exactly once, and of each
  parent in the answer the children in the order of the sort, and in no other place.
\<close>

lemma walk_spec:
  assumes ids: "distinct (map ou_id nodes)" and "\<forall>n \<in> set pending. rooted nodes k n" and "distinct pending"
  shows "\<exists>ys. walk coll nodes pending = Some ys \<and> distinct ys \<and> set ys = {m. \<exists>n \<in> set pending. descends nodes n m} \<and>
    (\<forall>q. filter (\<lambda>m. ou_parentId m = q) ys =
      (if q \<in> (\<lambda>p. Some (ou_id p)) ` set ys then siblings coll nodes q else filter (\<lambda>m. ou_parentId m = q) pending)) \<and>
    (\<forall>us m vs. ys = us @ m # vs \<longrightarrow> m \<in> set pending \<or> (\<exists>p \<in> set us. ou_parentId m = Some (ou_id p)))"
  using assms(2,3)
proof (induction "length nodes - k" arbitrary: k pending rule: less_induct)
  case less
  from less.prems show ?case
  proof (induction pending)
    case Nil
    then show ?case by (subst walk.simps) simp
  next
    case (Cons n rest)
    let ?kids = "siblings coll nodes (Some (ou_id n))"
    have n: "rooted nodes k n" and n': "n \<in> set nodes" using Cons.prems rooted_mem by auto
    have kids: "\<forall>m \<in> set ?kids. rooted nodes (Suc k) m" using n n' by auto
    have dk: "distinct ?kids" by (rule distinct_siblings) (use ids in \<open>simp add: distinct_map\<close>)
    have "length nodes - Suc k < length nodes - k" using rooted_bound [OF ids n] by simp
    from less.hyps [OF this kids dk] obtain B where B: "walk coll nodes ?kids = Some B" "distinct B"
      "set B = {m. \<exists>c \<in> set ?kids. descends nodes c m}"
      "\<And>q. filter (\<lambda>m. ou_parentId m = q) B =
        (if q \<in> (\<lambda>p. Some (ou_id p)) ` set B then siblings coll nodes q else filter (\<lambda>m. ou_parentId m = q) ?kids)"
      "\<And>us m vs. B = us @ m # vs \<Longrightarrow> m \<in> set ?kids \<or> (\<exists>p \<in> set us. ou_parentId m = Some (ou_id p))" by blast
    have rest: "\<forall>r \<in> set rest. rooted nodes k r" "distinct rest" "n \<notin> set rest" using Cons.prems by auto
    from Cons.IH [OF rest(1,2)] obtain A where A: "walk coll nodes rest = Some A" "distinct A"
      "set A = {m. \<exists>r \<in> set rest. descends nodes r m}"
      "\<And>q. filter (\<lambda>m. ou_parentId m = q) A =
        (if q \<in> (\<lambda>p. Some (ou_id p)) ` set A then siblings coll nodes q else filter (\<lambda>m. ou_parentId m = q) rest)"
      "\<And>us m vs. A = us @ m # vs \<Longrightarrow> m \<in> set rest \<or> (\<exists>p \<in> set us. ou_parentId m = Some (ou_id p))" by blast
    have run: "walk coll nodes (n # rest) = Some (n # B @ A)" by (subst walk.simps) (simp add: A(1) B(1))
    have inB: "descends nodes n m \<and> (\<exists>d. rooted nodes (Suc k + d) m)" if m: "m \<in> set B" for m
    proof -
      obtain c where c: "c \<in> set ?kids" "descends nodes c m" using m unfolding B(3) by blast
      from c(1) have "c \<in> set nodes" "ou_parentId c = Some (ou_id n)" by simp_all
      with c(2) n' have "descends nodes n m" using descends_first [of nodes n m] by blast
      then show ?thesis using descends_depth [OF c(2)] kids c(1) by blast
    qed
    have inA: "(\<exists>r \<in> set rest. descends nodes r m) \<and> (\<exists>d. rooted nodes (k + d) m)" if m: "m \<in> set A" for m
    proof -
      obtain r where r: "r \<in> set rest" "descends nodes r m" using m unfolding A(3) by blast
      then show ?thesis using descends_depth [OF r(2)] rest(1) by blast
    qed
    have one: "Some (ou_id p) \<notin> (\<lambda>p. Some (ou_id p)) ` set X" if "p \<in> set nodes" "p \<notin> set X" "set X \<subseteq> set nodes" for p X
      using that same_node [OF ids] by blast
    have memB: "set B \<subseteq> set nodes" and memA: "set A \<subseteq> set nodes" using inB inA descends_mem by blast+
    have nB: "n \<notin> set B"
    proof
      assume "n \<in> set B"
      then obtain d where "rooted nodes (Suc k + d) n" using inB by blast
      from rooted_unique [OF ids n this] show False by simp
    qed
    have notA: "m \<notin> set A" if "descends nodes n m" for m
    proof
      assume "m \<in> set A"
      then obtain r where r: "r \<in> set rest" "descends nodes r m" using inA by blast
      then have "rooted nodes k r" using rest(1) by blast
      from descends_disjoint [OF ids this that n r(2)] show False using r(1) rest(3) by simp
    qed
    have nA: "n \<notin> set A" using notA descends_self n' by blast
    have all: "set (n # B @ A) = {m. \<exists>r \<in> set (n # rest). descends nodes r m}"
    proof -
      have "m \<in> {n} \<union> set B \<longleftrightarrow> descends nodes n m" for m
        unfolding B(3) using n' by (auto simp: descends_first [of nodes n m])
      then show ?thesis unfolding set_append list.set A(3) by blast
    qed
    have dist: "distinct (n # B @ A)" 
    proof -
      have "set B \<inter> set A = {}" using inB notA by blast
      then show ?thesis using A(2) B(2) nA nB by simp
    qed
    have up: "ou_parentId r \<noteq> Some (ou_id p)" if "r \<in> set (n # rest)" "rooted nodes (k + d) p" for r p d
    proof
      assume "ou_parentId r = Some (ou_id p)"
      moreover have r: "rooted nodes k r" using that(1) rest(1) n by auto
      ultimately have "rooted nodes (Suc (k + d)) r" using that(2) rooted_mem [OF r] rooted_mem [OF that(2)] by auto
      from rooted_unique [OF ids r this] show False by simp
    qed
    have none: "filter (\<lambda>m. ou_parentId m = Some (ou_id p)) (n # rest) = []" if "rooted nodes (k + d) p" for p d
      using up [OF _ that] by (auto simp: filter_empty_conv)
    have order: "filter (\<lambda>m. ou_parentId m = q) (n # B @ A) =
        (if q \<in> (\<lambda>p. Some (ou_id p)) ` set (n # B @ A) then siblings coll nodes q
         else filter (\<lambda>m. ou_parentId m = q) (n # rest))" for q
    proof -
      have kq: "filter (\<lambda>m. ou_parentId m = q) ?kids = (if q = Some (ou_id n) then ?kids else [])"
        by (auto simp: filter_empty_conv filter_id_conv)
      show ?thesis
      proof (cases "q \<in> (\<lambda>p. Some (ou_id p)) ` set (n # B @ A)")
        case True
        then obtain p where p: "p \<in> set (n # B @ A)" "q = Some (ou_id p)" by blast
        then consider "p = n" | "p \<in> set B" | "p \<in> set A" by auto
        then show ?thesis
        proof cases
          case 1
          have "q \<notin> (\<lambda>p. Some (ou_id p)) ` set B" "q \<notin> (\<lambda>p. Some (ou_id p)) ` set A"
            using one [OF n' nB memB] one [OF n' nA memA] p(2) 1 by simp_all
          then have parts: "filter (\<lambda>m. ou_parentId m = q) B = ?kids" "filter (\<lambda>m. ou_parentId m = q) A = filter (\<lambda>m. ou_parentId m = q) rest"
            unfolding A(4) B(4) kq p(2) 1 by simp_all
          have "filter (\<lambda>m. ou_parentId m = q) (n # rest) = []" unfolding p(2) 1 by (rule none [of 0]) (use n in simp)
          then have "ou_parentId n \<noteq> q" "filter (\<lambda>m. ou_parentId m = q) rest = []" by (simp_all split: if_splits)
          then show ?thesis unfolding if_P [OF True] filter_append filter.simps parts by (simp add: p(2) 1)
        next
          case 2
          then obtain d where d: "rooted nodes (k + Suc d) p" using inB [of p] by auto
          have pA: "p \<notin> set A" by (rule notA) (use inB [OF 2] in blast)
          have "q \<notin> (\<lambda>p. Some (ou_id p)) ` set A" unfolding p(2) by (rule one [OF _ pA memA]) (use memB 2 in blast)
          moreover have qB: "q \<in> (\<lambda>p. Some (ou_id p)) ` set B" using 2 p(2) by blast
          ultimately have parts: "filter (\<lambda>m. ou_parentId m = q) B = siblings coll nodes q"
            "filter (\<lambda>m. ou_parentId m = q) A = filter (\<lambda>m. ou_parentId m = q) rest"
            unfolding A(4) B(4) by simp_all
          have "filter (\<lambda>m. ou_parentId m = q) (n # rest) = []" unfolding p(2) by (rule none [OF d])
          then have "ou_parentId n \<noteq> q" "filter (\<lambda>m. ou_parentId m = q) rest = []" by (simp_all split: if_splits)
          then show ?thesis unfolding if_P [OF True] filter_append filter.simps parts by simp
        next
          case 3
          then obtain d where d: "rooted nodes (k + d) p" using inA [of p] by auto
          have pB: "p \<notin> set B" using notA 3 inB by metis
          have "q \<notin> (\<lambda>p. Some (ou_id p)) ` set B" unfolding p(2) by (rule one [OF _ pB memB]) (use memA 3 in blast)
          moreover have "p \<noteq> n" using 3 nA by metis
          then have "q \<noteq> Some (ou_id n)" using p(2) same_node [OF ids _ n', of p] memA 3 by auto
          moreover have qA: "q \<in> (\<lambda>p. Some (ou_id p)) ` set A" using 3 p(2) by blast
          ultimately have parts: "filter (\<lambda>m. ou_parentId m = q) A = siblings coll nodes q" "filter (\<lambda>m. ou_parentId m = q) B = []"
            unfolding A(4) B(4) kq by simp_all
          have "filter (\<lambda>m. ou_parentId m = q) (n # rest) = []" unfolding p(2) by (rule none [OF d])
          then have "ou_parentId n \<noteq> q" by (simp split: if_splits)
          then show ?thesis unfolding if_P [OF True] filter_append filter.simps parts by simp
        qed
      next
        case False
        then have "q \<notin> (\<lambda>p. Some (ou_id p)) ` set B" "q \<notin> (\<lambda>p. Some (ou_id p)) ` set A" "q \<noteq> Some (ou_id n)" by auto
        then have parts: "filter (\<lambda>m. ou_parentId m = q) B = []" "filter (\<lambda>m. ou_parentId m = q) A = filter (\<lambda>m. ou_parentId m = q) rest"
          unfolding A(4) B(4) kq by simp_all
        show ?thesis unfolding if_not_P [OF False] filter_append filter.simps parts by simp
      qed
    qed
    have first: "m \<in> set (n # rest) \<or> (\<exists>p \<in> set us. ou_parentId m = Some (ou_id p))" if "n # B @ A = us @ m # vs" for us m vs
    proof (cases us)
      case Nil
      then show ?thesis using that by simp
    next
      case (Cons x us')
      then have e: "x = n" "B @ A = us' @ m # vs" using that by auto
      from append_eq_append_conv2 [THEN iffD1, OF e(2)] consider (inA) w where "us' = B @ w" "A = w @ m # vs"
        | (inB) w where "B = us' @ w" "w @ A = m # vs" by blast
      then show ?thesis
      proof cases
        case inA
        then show ?thesis using A(5) [OF inA(2)] Cons by auto
      next
        case inB
        show ?thesis
        proof (cases w)
          case Nil
          then have "A = [] @ m # vs" "us' = B" using inB by auto
          from A(5) [OF this(1)] show ?thesis by simp
        next
          case w: (Cons y w')
          then have "B = us' @ m # w'" using inB by simp
          from B(5) [OF this] show ?thesis using Cons e(1) by auto
        qed
      qed
    qed
    show ?case using run dist all order first by blast
  qed
qed


section \<open>The order of the screen\<close>

lemma rooted_iff_descends:
  "(\<exists>k. rooted nodes k m) \<longleftrightarrow> (\<exists>r \<in> set nodes. ou_parentId r = None \<and> descends nodes r m)"
proof
  have "rooted nodes k m \<Longrightarrow> \<exists>r \<in> set nodes. ou_parentId r = None \<and> descends nodes r m" for k
    by (induction k arbitrary: m) (auto intro: descends.intros)
  then show "\<exists>k. rooted nodes k m \<Longrightarrow> \<exists>r \<in> set nodes. ou_parentId r = None \<and> descends nodes r m" by blast
next
  assume "\<exists>r \<in> set nodes. ou_parentId r = None \<and> descends nodes r m"
  then obtain r where "rooted nodes 0 r" "descends nodes r m" by auto
  then show "\<exists>k. rooted nodes k m" using descends_depth by blast
qed

lemma tree_order_shape:
  assumes "distinct (map ou_id nodes)"
  shows "\<exists>hung orphans. toTreeOrder coll nodes = Some (hung @ orphans) \<and> mset (hung @ orphans) = mset nodes \<and>
    set hung = {m. \<exists>k. rooted nodes k m} \<and>
    filter (\<lambda>m. ou_parentId m = None) hung = siblings coll nodes None \<and>
    (\<forall>p \<in> set hung. filter (\<lambda>m. ou_parentId m = Some (ou_id p)) hung = siblings coll nodes (Some (ou_id p))) \<and>
    (\<forall>before m after. hung = before @ m # after \<longrightarrow>
      ou_parentId m = None \<or> (\<exists>p \<in> set before. ou_parentId m = Some (ou_id p)))"
proof -
  let ?roots = "siblings coll nodes None"
  have d: "distinct nodes" using assms by (simp add: distinct_map)
  have "\<forall>n \<in> set ?roots. rooted nodes 0 n" by simp
  from walk_spec [OF assms this distinct_siblings [OF d], of coll]
  obtain ys where ys: "walk coll nodes ?roots = Some ys" "distinct ys" "set ys = {m. \<exists>n \<in> set ?roots. descends nodes n m}"
    "\<And>q. filter (\<lambda>m. ou_parentId m = q) ys =
      (if q \<in> (\<lambda>p. Some (ou_id p)) ` set ys then siblings coll nodes q else filter (\<lambda>m. ou_parentId m = q) ?roots)"
    "\<And>us m vs. ys = us @ m # vs \<Longrightarrow> m \<in> set ?roots \<or> (\<exists>p \<in> set us. ou_parentId m = Some (ou_id p))" by blast
  let ?os = "filter (\<lambda>n. ou_id n \<notin> ou_id ` set ys) nodes"
  have sub: "set ys \<subseteq> set nodes" unfolding ys(3) using descends_mem by blast
  have os: "set ?os = set nodes - set ys" using sub same_node [OF assms] by auto
  have "distinct (ys @ ?os)" using ys(2) d os by auto
  moreover have "set (ys @ ?os) = set nodes" using os sub by auto
  ultimately have perm: "mset (ys @ ?os) = mset nodes" using d by (metis set_eq_iff_mset_eq_distinct)
  have "?os = []" if "\<not> length ys < length nodes"
    using that by (metis length_append perm size_mset less_add_same_cancel1 length_greater_0_conv)
  then have order: "toTreeOrder coll nodes = Some (ys @ ?os)" by (simp add: toTreeOrder_def ys(1))
  have hung: "set ys = {m. \<exists>k. rooted nodes k m}"
    unfolding ys(3) rooted_iff_descends by auto
  have none: "filter (\<lambda>m. ou_parentId m = None) ys = ?roots"
    unfolding ys(4) by (auto simp: filter_id_conv)
  have kids: "filter (\<lambda>m. ou_parentId m = Some (ou_id p)) ys = siblings coll nodes (Some (ou_id p))" if "p \<in> set ys" for p
    unfolding ys(4) using that by auto
  have first: "ou_parentId m = None \<or> (\<exists>p \<in> set us. ou_parentId m = Some (ou_id p))" if "ys = us @ m # vs" for us m vs
    using ys(5) [OF that] by auto
  show ?thesis using order perm hung none kids first by blast
qed

text \<open>
  C40. The tree order of the organisation screen always exists: on any list of nodes with distinct
  ids, cyclic parent links included, the depth-first walk returns. The answer lists every node once.
  It begins with the nodes that hang from a root, each after its parent, the roots and the children of
  each parent in the order of type and name; the nodes on a cycle or below a missing parent follow.
\<close>

theorem tree_order_terminates:
  assumes "distinct (map ou_id nodes)"
  shows "\<exists>hung orphans. toTreeOrder coll nodes = Some (hung @ orphans) \<and> mset (hung @ orphans) = mset nodes \<and>
    set hung = {m. \<exists>k. rooted nodes k m} \<and>
    filter (\<lambda>m. ou_parentId m = None) hung = siblings coll nodes None \<and>
    (\<forall>p \<in> set hung. filter (\<lambda>m. ou_parentId m = Some (ou_id p)) hung = siblings coll nodes (Some (ou_id p))) \<and>
    (\<forall>before m after. hung = before @ m # after \<longrightarrow>
      ou_parentId m = None \<or> (\<exists>p \<in> set before. ou_parentId m = Some (ou_id p)))"
  using assms by (rule tree_order_shape)

definition demo_node :: "string \<Rightarrow> org_unit_type \<Rightarrow> string option \<Rightarrow> org_unit_node" where
  "demo_node i t p =
    \<lparr>ou_id = i, ou_code = i, ou_name = i, ou_type = t, ou_parentId = p, ou_path = [], ou_isActive = True,
     ou_canAccessEvents = False, on_eventsInherited = False, on_depth = 0, on_userCount = 0, on_leadCount = 0, on_childCount = 0\<rparr>"

lemma tree_order_terminates_witness:
  "(let nodes = [demo_node ''b'' BRANCH_UNIT (Some ''c''), demo_node ''x'' TEAM_UNIT (Some ''y''), demo_node ''c'' COMPANY None,
      demo_node ''y'' TEAM_UNIT (Some ''x'')]
    in distinct (map ou_id nodes) \<and> toTreeOrder code_unit_order nodes \<noteq> None)"
proof -
  let ?nodes = "[demo_node ''b'' BRANCH_UNIT (Some ''c''), demo_node ''x'' TEAM_UNIT (Some ''y''), demo_node ''c'' COMPANY None,
      demo_node ''y'' TEAM_UNIT (Some ''x'')]"
  have d: "distinct (map ou_id ?nodes)" by (simp add: demo_node_def)
  then show ?thesis using tree_order_terminates [OF d, of code_unit_order] unfolding Let_def by auto
qed

text \<open>
  The ids have to be distinct: of two rows with one id, one a root and the other its own parent, the
  walk would never come to an end. The primary key of the table is what rules them out.
\<close>

lemma walk_needs_distinct_ids:
  assumes "n \<in> set nodes" and "ou_parentId n = Some (ou_id n)" and "n \<in> set pending"
  shows "walk coll nodes pending = None"
proof -
  have "ns = nodes \<longrightarrow> n \<notin> set ps" if "walk c ns ps = Some ys" for c ns ps ys
    using that
  proof (rule walk.raw_induct [rotated])
    fix W c ns ps y
    assume IH: "\<And>c ns ps y. W c ns ps = Some y \<Longrightarrow> ns = nodes \<longrightarrow> n \<notin> set ps"
      and run: "(case ps of [] \<Rightarrow> Some [] | m # rest \<Rightarrow>
        Option.bind (W c ns (siblings c ns (Some (ou_id m)))) (\<lambda>below.
        Option.bind (W c ns rest) (\<lambda>after. Some (m # below @ after)))) = Some y"
    show "ns = nodes \<longrightarrow> n \<notin> set ps"
    proof (cases ps)
      case (Cons m rest)
      then obtain B A where "W c ns (siblings c ns (Some (ou_id m))) = Some B" "W c ns rest = Some A"
        using run by (auto split: bind_splits)
      from IH [OF this(1)] IH [OF this(2)] show ?thesis using Cons assms(1,2) by auto
    qed simp
  qed
  then show ?thesis using assms(3) by (cases "walk coll nodes pending") auto
qed


text \<open>
  On the trees the service itself builds there are no orphans: every unit hangs from a root, and the
  depth shown is one more than the depth shown for its parent.
\<close>

lemma node_of_fields [simp]:
  "ou_id (node_of s u) = ou_id u" "ou_parentId (node_of s u) = ou_parentId u" "ou_name (node_of s u) = ou_name u"
  "on_depth (node_of s u) = depthOf (ou_path u)"
  by (simp_all add: node_of_def org_unit.extend_def)

lemma org_screen_complete:
  assumes "org_reach s"
  shows "\<exists>ys. tree coll s = Some ys \<and> mset (map ou_id ys) = mset (map ou_id (units s)) \<and>
    (\<forall>before m after. ys = before @ m # after \<longrightarrow>
      ou_parentId m = None \<or> (\<exists>p \<in> set before. ou_parentId m = Some (ou_id p)))"
proof -
  let ?nodes = "map (node_of s) (units s)"
  have ok: "tree_ok (units s)" using assms by (rule org_reach_tree_ok)
  then have ids: "distinct (map ou_id ?nodes)" by (simp add: tree_ok_def keys_unique_def comp_def)
  have hangs: "\<exists>k. rooted ?nodes k (node_of s u)" if "u \<in> set (units s)" for u
    using ok that
  proof (induction rule: tree_ok_induct)
    case (root u)
    then show ?case by (intro exI [of _ 0]) simp
  next
    case (child u p)
    then obtain k where "rooted ?nodes k (node_of s p)" by auto
    then show ?case using child by (intro exI [of _ "Suc k"]) auto
  qed
  from tree_order_shape [OF ids, of coll] obtain hung orphans where o: "toTreeOrder coll ?nodes = Some (hung @ orphans)"
    "mset (hung @ orphans) = mset ?nodes" "set hung = {m. \<exists>k. rooted ?nodes k m}"
    "\<forall>before m after. hung = before @ m # after \<longrightarrow>
      ou_parentId m = None \<or> (\<exists>p \<in> set before. ou_parentId m = Some (ou_id p))" by blast
  have "set ?nodes \<subseteq> set hung" unfolding o(3) using hangs by auto
  moreover have "distinct (hung @ orphans)" using ids o(2) by (metis distinct_map mset_eq_imp_distinct_iff)
  moreover have "set orphans \<subseteq> set ?nodes" using arg_cong [OF o(2), of set_mset] by auto
  ultimately have none: "orphans = []" by (cases orphans) auto
  have "mset (map ou_id (hung @ orphans)) = mset (map ou_id ?nodes)"
    using arg_cong [OF o(2), of "image_mset ou_id"] by (simp only: mset_map)
  then show ?thesis using o(1,4) none by (auto simp: tree_def comp_def)
qed

end
