(* ===== verification/Messaging.thy ===== *)
theory Messaging
  imports Leads Masking
begin

text \<open>
  Outbound messages: the templates, the gate and the sending of \<open>packages/contracts/src/messaging.ts\<close>
  and \<open>apps/api/src/modules/messaging/messaging.service.ts\<close>. The provider is a parameter that may
  accept, refuse or fail; the sentences of a refusal are represented by their code.
\<close>

section \<open>Templates\<close>

datatype message_channel = EMAIL_CHANNEL | SMS_CHANNEL | WHATSAPP_CHANNEL
datatype message_purpose = TRANSACTIONAL | SERVICE | PROMOTIONAL
datatype message_status = QUEUED | SENT | DELIVERED | READ_MESSAGE | FAILED_MESSAGE | SUPPRESSED

definition is_letter :: "char \<Rightarrow> bool" where
  "is_letter c \<longleftrightarrow> is_upper c \<or> is_lower c"

definition word_char :: "char \<Rightarrow> bool" where
  "word_char c \<longleftrightarrow> is_letter c \<or> is_digit c \<or> c = CHR ''_''"

text \<open>
  \<open>VARIABLE_PATTERN\<close> at the head of a text: the name and what follows the placeholder. The pieces of the
  expression do not overlap in characters, so taking each as long as it goes is what the engine does.
\<close>

definition placeholder :: "string \<Rightarrow> (string \<times> string) option" where
  "placeholder s =
    (if take 2 s \<noteq> ''{{'' then None
     else
       let inner = dropWhile is_space (drop 2 s);
           name = takeWhile word_char inner;
           rest = dropWhile is_space (dropWhile word_char inner)
       in if name \<noteq> [] \<and> is_letter (hd name) \<and> take 2 rest = ''}}'' then Some (name, drop 2 rest) else None)"

lemma placeholder_shorter:
  assumes "placeholder s = Some (name, rest)"
  shows "length rest < length s"
proof -
  have "length (dropWhile is_space (dropWhile word_char (dropWhile is_space (drop 2 s)))) \<le> length s - 2"
    using length_dropWhile_le [of is_space] length_dropWhile_le [of word_char] by (metis le_trans length_drop)
  moreover have "0 < length s" using assms by (cases s) (auto simp: placeholder_def)
  moreover have "rest = drop 2 (dropWhile is_space (dropWhile word_char (dropWhile is_space (drop 2 s))))"
    using assms by (auto simp: placeholder_def Let_def split: if_splits)
  ultimately show ?thesis by (simp del: length_greater_0_conv)
qed

text \<open>The matches of the pattern from left to right, and the characters between them.\<close>

datatype piece = Literal char | Variable string

function pieces :: "string \<Rightarrow> piece list" where
  "pieces [] = []"
| "pieces (c # s) =
    (case placeholder (c # s) of
       Some (name, rest) \<Rightarrow> Variable name # pieces rest
     | None \<Rightarrow> Literal c # pieces s)"
  by pat_completeness auto
termination
  by (relation "measure length") (auto dest: placeholder_shorter)

fun names_in :: "piece list \<Rightarrow> string list" where
  "names_in [] = []"
| "names_in (Variable n # ps) = n # names_in ps"
| "names_in (Literal c # ps) = names_in ps"

definition extractVariables :: "string \<Rightarrow> string list" where
  "extractVariables body = js_set (names_in (pieces body))"

text \<open>
  Reading a property of the object of values also finds what every object inherits, whose functions
  print as their native source.
\<close>

definition OBJECT_PROTOTYPE :: "string list" where
  "OBJECT_PROTOTYPE = [''constructor'', ''hasOwnProperty'', ''isPrototypeOf'', ''propertyIsEnumerable'',
    ''toLocaleString'', ''toString'', ''valueOf'']"

definition property_of :: "(string \<times> string) list \<Rightarrow> string \<Rightarrow> string option" where
  "property_of vals name =
    (case map_of vals name of
       Some v \<Rightarrow> Some v
     | None \<Rightarrow>
         if name \<in> set OBJECT_PROTOTYPE
         then Some (''function '' @ (if name = ''constructor'' then ''Object'' else name) @ ''() { [native code] }'')
         else None)"

definition value_missing :: "(string \<times> string) list \<Rightarrow> string \<Rightarrow> bool" where
  "value_missing vals name \<longleftrightarrow> property_of vals name = None \<or> property_of vals name = Some []"

definition placed :: "(string \<times> string) list \<Rightarrow> piece \<Rightarrow> string" where
  "placed vals p =
    (case p of
       Literal c \<Rightarrow> [c]
     | Variable name \<Rightarrow> if value_missing vals name then ''{{'' @ name @ ''}}'' else the (property_of vals name))"

definition renderTemplate :: "string \<Rightarrow> (string \<times> string) list \<Rightarrow> string \<times> string list" where
  "renderTemplate body vals =
    (concat (map (placed vals) (pieces body)), js_set (filter (value_missing vals) (names_in (pieces body))))"

definition SMS_SEGMENT_LENGTH :: nat where
  "SMS_SEGMENT_LENGTH = 160"

definition smsSegments :: "string \<Rightarrow> nat" where
  "smsSegments text = (if length text = 0 then 0 else (length text + SMS_SEGMENT_LENGTH - 1) div SMS_SEGMENT_LENGTH)"

section \<open>The gate\<close>

definition QUIET_HOURS_START :: int where
  "QUIET_HOURS_START = 21"

definition QUIET_HOURS_END :: int where
  "QUIET_HOURS_END = 9"

record recipient_state =
  rs_channel :: message_channel
  rs_destination :: "string option"
  rs_isDndRegistered :: bool
  rs_hasMarketingConsent :: bool
  rs_hasOptedOut :: bool
  rs_isCustomer :: bool

datatype send_decision = ALLOWED | NO_DESTINATION | OPTED_OUT | NO_CONSENT | DND_REGISTERED | IN_QUIET_HOURS | NOT_A_CUSTOMER

definition isQuietHour :: "int \<Rightarrow> bool" where
  "isQuietHour hour \<longleftrightarrow> QUIET_HOURS_START \<le> hour \<or> hour < QUIET_HOURS_END"

definition canSend :: "message_purpose \<Rightarrow> recipient_state \<Rightarrow> int \<Rightarrow> send_decision" where
  "canSend purpose r hour =
    (if \<not> truthy (rs_destination r) then NO_DESTINATION
     else if rs_hasOptedOut r then OPTED_OUT
     else if purpose = TRANSACTIONAL then ALLOWED
     else if purpose = SERVICE then
       (if \<not> rs_isCustomer r then NOT_A_CUSTOMER else if isQuietHour hour then IN_QUIET_HOURS else ALLOWED)
     else if \<not> rs_hasMarketingConsent r then NO_CONSENT
     else if rs_isDndRegistered r then DND_REGISTERED
     else if isQuietHour hour then IN_QUIET_HOURS
     else ALLOWED)"

definition istHour :: "time \<Rightarrow> int" where
  "istHour now = (now + 330 * 60000) div 3600000 mod 24"

section \<open>The service\<close>

record template_row =
  mt_id :: string
  mt_code :: string
  mt_name :: string
  mt_channel :: message_channel
  mt_purpose :: message_purpose
  mt_subject :: "string option"
  mt_body :: string
  mt_providerTemplateId :: "string option"
  mt_isActive :: bool
  mt_createdById :: string

datatype message_entity = LEAD_ENTITY | CUSTOMER_ENTITY

record opt_out_row =
  oo_entityType :: message_entity
  oo_entityId :: string
  oo_channel :: message_channel
  oo_reason :: "string option"

definition opt_out_key :: "opt_out_row \<Rightarrow> message_entity \<times> string \<times> message_channel" where
  "opt_out_key o_row = (oo_entityType o_row, oo_entityId o_row, oo_channel o_row)"

text \<open>The ledger row of a consent with the time it was captured.\<close>

record consent_entry = consent_row +
  co_capturedAt :: time

text \<open>The columns of a lead or a customer that the service selects.\<close>

record addressee =
  ad_id :: string
  ad_firstName :: string
  ad_email :: "string option"
  ad_mobile :: "string option"
  ad_dndRegistered :: bool
  ad_deletedAt :: "time option"

datatype message_failure = Refused send_decision | ProviderSaid string

record message_log_row =
  ml_id :: string
  ml_templateCode :: string
  ml_channel :: message_channel
  ml_purpose :: message_purpose
  ml_leadId :: "string option"
  ml_customerId :: "string option"
  ml_destination :: string
  ml_subject :: "string option"
  ml_body :: string
  ml_status :: message_status
  ml_decisionCode :: send_decision
  ml_failureReason :: "message_failure option"
  ml_providerMessageId :: "string option"
  ml_requestedById :: string
  ml_sentAt :: "time option"

record outbound_message =
  om_channel :: message_channel
  om_destination :: string
  om_subject :: "string option"
  om_body :: string
  om_providerTemplateId :: "string option"

record send_result =
  sr_accepted :: bool
  sr_providerMessageId :: "string option"
  sr_failureReason :: "string option"

record messaging_state =
  ms_templates :: "template_row list"
  ms_optOuts :: "opt_out_row list"
  ms_consents :: "consent_entry list"
  ms_leads :: "addressee list"
  ms_customers :: "addressee list"
  ms_log :: "message_log_row list"
  ms_handed :: "(string \<times> outbound_message) list"
  ms_audit :: "audit_entry list"

text \<open>\<open>ms_handed\<close> is what reached the provider, each message with the id of its log row.\<close>

record create_template_input =
  ct_code :: string
  ct_name :: string
  ct_channel :: message_channel
  ct_purpose :: message_purpose
  ct_subject :: "string option"
  ct_body :: string
  ct_providerTemplateId :: "string option"

definition codeSchema :: "string \<Rightarrow> string option" where
  "codeSchema input =
    (let code = to_upper (js_trim input)
     in if 2 \<le> length code \<and> length code \<le> 40 \<and> is_upper (hd code) \<and>
           list_all (\<lambda>c. is_upper c \<or> is_digit c \<or> c = CHR ''_'') (tl code)
        then Some code else None)"

definition between :: "nat \<Rightarrow> nat \<Rightarrow> string \<Rightarrow> bool" where
  "between low high text \<longleftrightarrow> low \<le> length text \<and> length text \<le> high"

text \<open>The schema answers the trimmed input, and refuses an email template without a subject.\<close>

definition createTemplateSchema :: "create_template_input \<Rightarrow> create_template_input option" where
  "createTemplateSchema i =
    (case codeSchema (ct_code i) of
       None \<Rightarrow> None
     | Some code \<Rightarrow>
         let parsed = i\<lparr>ct_code := code, ct_name := js_trim (ct_name i), ct_subject := map_option js_trim (ct_subject i),
               ct_body := js_trim (ct_body i), ct_providerTemplateId := map_option js_trim (ct_providerTemplateId i)\<rparr>
         in if between 3 120 (ct_name parsed) \<and> pred_option (between 0 200) (ct_subject parsed) \<and>
               between 5 4000 (ct_body parsed) \<and> pred_option (between 0 120) (ct_providerTemplateId parsed) \<and>
               (ct_channel parsed \<noteq> EMAIL_CHANNEL \<or> truthy (ct_subject parsed))
            then Some parsed else None)"

definition createTemplate :: "string \<Rightarrow> string \<Rightarrow> create_template_input \<Rightarrow> messaging_state \<Rightarrow> messaging_state result" where
  "createTemplate newId userId i s =
    (if find_by mt_code (ct_code i) (ms_templates s) \<noteq> None then Inl (Conflict ''That code is taken'')
     else Inr (s\<lparr>ms_templates := insert_row
         \<lparr>mt_id = newId, mt_code = ct_code i, mt_name = ct_name i, mt_channel = ct_channel i, mt_purpose = ct_purpose i,
          mt_subject = ct_subject i, mt_body = ct_body i, mt_providerTemplateId = ct_providerTemplateId i,
          mt_isActive = True, mt_createdById = userId\<rparr> (ms_templates s),
       ms_audit := insert_row (audit_entry ''CREATE'' ''message_template'' newId) (ms_audit s)\<rparr>))"

text \<open>An absent field is \<open>None\<close>; a field sent as null is \<open>Some None\<close>.\<close>

record update_template_input =
  ut_name :: "string option"
  ut_subject :: "string option option"
  ut_body :: "string option"
  ut_providerTemplateId :: "string option option"
  ut_isActive :: "bool option"

definition updateTemplateSchema :: "update_template_input \<Rightarrow> update_template_input option" where
  "updateTemplateSchema i =
    (let parsed = i\<lparr>ut_name := map_option js_trim (ut_name i), ut_subject := map_option (map_option js_trim) (ut_subject i),
           ut_body := map_option js_trim (ut_body i), ut_providerTemplateId := map_option (map_option js_trim) (ut_providerTemplateId i)\<rparr>
     in if pred_option (between 3 120) (ut_name parsed) \<and> pred_option (pred_option (between 0 200)) (ut_subject parsed) \<and>
           pred_option (between 5 4000) (ut_body parsed) \<and> pred_option (pred_option (between 0 120)) (ut_providerTemplateId parsed)
        then Some parsed else None)"

definition edit_template :: "update_template_input \<Rightarrow> template_row \<Rightarrow> template_row" where
  "edit_template i t = t\<lparr>
     mt_name := (case ut_name i of Some n \<Rightarrow> n | None \<Rightarrow> mt_name t),
     mt_subject := (case ut_subject i of Some x \<Rightarrow> x | None \<Rightarrow> mt_subject t),
     mt_body := (case ut_body i of Some b \<Rightarrow> b | None \<Rightarrow> mt_body t),
     mt_providerTemplateId := (case ut_providerTemplateId i of Some x \<Rightarrow> x | None \<Rightarrow> mt_providerTemplateId t),
     mt_isActive := (case ut_isActive i of Some b \<Rightarrow> b | None \<Rightarrow> mt_isActive t)\<rparr>"

definition updateTemplate :: "string \<Rightarrow> update_template_input \<Rightarrow> messaging_state \<Rightarrow> messaging_state result" where
  "updateTemplate i input s =
    (if find_by mt_id i (ms_templates s) = None then Inl (NotFound ''Template not found'')
     else Inr (s\<lparr>ms_templates := update_by mt_id i (edit_template input) (ms_templates s),
       ms_audit := insert_row (audit_entry ''UPDATE'' ''message_template'' i) (ms_audit s)\<rparr>))"

definition optOut :: "message_entity \<Rightarrow> string \<Rightarrow> message_channel \<Rightarrow> string option \<Rightarrow> messaging_state \<Rightarrow> messaging_state" where
  "optOut entityType entityId channel reason s =
    (if find_by opt_out_key (entityType, entityId, channel) (ms_optOuts s) \<noteq> None then s
     else s\<lparr>ms_optOuts := insert_row
       \<lparr>oo_entityType = entityType, oo_entityId = entityId, oo_channel = channel, oo_reason = reason\<rparr> (ms_optOuts s)\<rparr>)"

text \<open>\<open>orderBy: capturedAt desc\<close>: of rows captured at the same time, the first in the table is taken.\<close>

definition latest_consent :: "string \<Rightarrow> consent_entry list \<Rightarrow> consent_entry option" where
  "latest_consent entityId rows =
    (case js_sort (\<lambda>a b. co_capturedAt b - co_capturedAt a)
        (filter (\<lambda>c. el_entityId c = entityId \<and> co_purpose c = ''MARKETING_CONTACT'') rows) of
       [] \<Rightarrow> None
     | c # _ \<Rightarrow> Some c)"

definition recipient_of :: "message_entity \<Rightarrow> message_channel \<Rightarrow> addressee \<Rightarrow> messaging_state \<Rightarrow> recipient_state" where
  "recipient_of entityType channel p s =
    \<lparr>rs_channel = channel, rs_destination = (if channel = EMAIL_CHANNEL then ad_email p else ad_mobile p),
     rs_isDndRegistered = ad_dndRegistered p,
     rs_hasMarketingConsent = (case latest_consent (ad_id p) (ms_consents s) of Some c \<Rightarrow> co_granted c | None \<Rightarrow> False),
     rs_hasOptedOut = (find_by opt_out_key (entityType, ad_id p, channel) (ms_optOuts s) \<noteq> None),
     rs_isCustomer = (entityType = CUSTOMER_ENTITY)\<rparr>"

record send_message_input =
  sm_templateCode :: string
  sm_leadId :: "string option"
  sm_customerId :: "string option"
  sm_variables :: "(string \<times> string) list"

definition loadRecipient :: "message_channel \<Rightarrow> string option \<Rightarrow> string option \<Rightarrow> messaging_state \<Rightarrow> (string \<times> recipient_state) result" where
  "loadRecipient channel leadId customerId s =
    (let entityType = (if truthy customerId then CUSTOMER_ENTITY else LEAD_ENTITY);
         wanted = (if truthy customerId then customerId else leadId);
         rows = (if truthy customerId then ms_customers s else ms_leads s)
     in case find (\<lambda>p. Some (ad_id p) = wanted \<and> ad_deletedAt p = None) rows of
          None \<Rightarrow> Inl (NotFound ''Recipient not found'')
        | Some p \<Rightarrow> Inr (ad_firstName p, recipient_of entityType channel p s))"

definition message_log :: "string \<Rightarrow> string \<Rightarrow> template_row \<Rightarrow> send_message_input \<Rightarrow> recipient_state \<Rightarrow> string \<Rightarrow> send_decision \<Rightarrow> message_log_row" where
  "message_log newId userId t input r body decision =
    \<lparr>ml_id = newId, ml_templateCode = mt_code t, ml_channel = mt_channel t, ml_purpose = mt_purpose t,
     ml_leadId = sm_leadId input, ml_customerId = sm_customerId input,
     ml_destination = (case rs_destination r of Some d \<Rightarrow> d | None \<Rightarrow> ''(none)''), ml_subject = mt_subject t, ml_body = body,
     ml_status = (if decision = ALLOWED then QUEUED else SUPPRESSED), ml_decisionCode = decision,
     ml_failureReason = (if decision = ALLOWED then None else Some (Refused decision)),
     ml_providerMessageId = None, ml_requestedById = userId, ml_sentAt = None\<rparr>"

definition settle_log :: "time \<Rightarrow> send_result \<Rightarrow> message_log_row \<Rightarrow> message_log_row" where
  "settle_log now result l = l\<lparr>
     ml_status := (if sr_accepted result then SENT else FAILED_MESSAGE),
     ml_providerMessageId := sr_providerMessageId result,
     ml_failureReason := map_option ProviderSaid (sr_failureReason result),
     ml_sentAt := (if sr_accepted result then Some now else None)\<rparr>"

text \<open>
  A provider that throws leaves the row queued: nothing catches the exception, and the row was written
  before the message was handed over.
\<close>

definition send_message ::
    "(outbound_message \<Rightarrow> send_result option) \<Rightarrow> string \<Rightarrow> time \<Rightarrow> string \<Rightarrow> send_message_input \<Rightarrow> messaging_state \<Rightarrow>
     message_status result \<times> messaging_state" where
  "send_message provider newId now userId input s =
    (if truthy (sm_leadId input) = truthy (sm_customerId input) then (Inl (BadRequest ''Choose one recipient''), s)
     else case find (\<lambda>t. mt_code t = sm_templateCode input \<and> mt_isActive t) (ms_templates s) of
       None \<Rightarrow> (Inl (NotFound ''Template not found''), s)
     | Some t \<Rightarrow>
         (case loadRecipient (mt_channel t) (sm_leadId input) (sm_customerId input) s of
            Inl e \<Rightarrow> (Inl e, s)
          | Inr (name, r) \<Rightarrow>
              let decision = canSend (mt_purpose t) r (istHour now);
                  (body, missing) = renderTemplate (mt_body t) ((''name'', name) # sm_variables input)
              in if missing \<noteq> [] then (Inl (BadRequest ''Missing template values''), s)
                 else
                   let logged = s\<lparr>ms_log := insert_row (message_log newId userId t input r body decision) (ms_log s)\<rparr>
                   in if decision \<noteq> ALLOWED
                      then (Inr SUPPRESSED, logged\<lparr>ms_audit := insert_row (audit_entry ''CREATE'' ''message.suppressed'' newId) (ms_audit s)\<rparr>)
                      else
                        let message = \<lparr>om_channel = mt_channel t, om_destination = the (rs_destination r), om_subject = mt_subject t,
                                       om_body = body, om_providerTemplateId = mt_providerTemplateId t\<rparr>;
                            handed = logged\<lparr>ms_handed := ms_handed s @ [(newId, message)]\<rparr>
                        in case provider message of
                             None \<Rightarrow> (Inl (ServerError ''Provider failed''), handed)
                           | Some result \<Rightarrow>
                               (Inr (if sr_accepted result then SENT else FAILED_MESSAGE),
                                handed\<lparr>ms_log := update_by ml_id newId (settle_log now result) (ms_log handed)\<rparr>)))"

definition maskDestination :: "char \<Rightarrow> string \<Rightarrow> string" where
  "maskDestination bullet destination =
    (if CHR ''@'' \<in> set destination
     then take 2 (split_on CHR ''@'' destination ! 0) @ ''***@'' @ split_on CHR ''@'' destination ! 1
     else maskMobile bullet (Some destination))"


section \<open>What a template renders to\<close>

text \<open>
  The values a rendering lacks are the variables of the template without a value, each once; and when
  it lacks none, every placeholder has been replaced by its value and nothing else has changed.
\<close>

definition filled :: "(string \<times> string) list \<Rightarrow> piece \<Rightarrow> string" where
  "filled vals p = (case p of Literal c \<Rightarrow> [c] | Variable name \<Rightarrow> (case property_of vals name of Some v \<Rightarrow> v | None \<Rightarrow> []))"

lemma names_in_iff: "name \<in> set (names_in ps) \<longleftrightarrow> Variable name \<in> set ps"
  by (induction ps rule: names_in.induct) auto

lemma render_missing:
  "set (snd (renderTemplate body vals)) = {v \<in> set (extractVariables body). value_missing vals v}"
  by (auto simp: renderTemplate_def extractVariables_def)

lemma render_complete:
  assumes "snd (renderTemplate body vals) = []"
  shows "fst (renderTemplate body vals) = concat (map (filled vals) (pieces body))"
proof -
  have "\<not> value_missing vals n" if "Variable n \<in> set (pieces body)" for n
    using render_missing [of body vals] assms that by (auto simp: extractVariables_def names_in_iff)
  then have "map (placed vals) (pieces body) = map (filled vals) (pieces body)"
    by (fastforce simp: placed_def filled_def value_missing_def split: piece.splits option.splits)
  then show ?thesis by (simp add: renderTemplate_def del: map_eq_conv)
qed

text \<open>
  A template that names one of the properties every object inherits is rendered with the source of a
  function, and nothing is reported as missing.
\<close>

lemma inherited_value_is_sent:
  "renderTemplate ''Dear {{ constructor }},'' [(''name'', ''Asha'')] = (''Dear function Object() { [native code] },'', [])"
  by code_simp

lemma smsSegments_bounds: "smsSegments text * SMS_SEGMENT_LENGTH < length text + SMS_SEGMENT_LENGTH \<and>
    length text \<le> smsSegments text * SMS_SEGMENT_LENGTH"
  by (auto simp: smsSegments_def SMS_SEGMENT_LENGTH_def)

section \<open>What leaves\<close>

text \<open>The window from nine to twenty-one o'clock in India, in milliseconds of its day.\<close>

definition daytime :: "time \<Rightarrow> bool" where
  "daytime now \<longleftrightarrow> 9 * 3600000 \<le> (now + 19800000) mod 86400000 \<and> (now + 19800000) mod 86400000 < 21 * 3600000"

lemma quiet_iff: "isQuietHour (istHour now) \<longleftrightarrow> \<not> daytime now"
proof -
  have "(now + 19800000) div 3600000 mod 24 = (now + 19800000) mod 86400000 div 3600000"
    using zmod_zmult2_eq [of 24 "now + 19800000" 3600000] by simp
  then show ?thesis
    unfolding isQuietHour_def istHour_def daytime_def QUIET_HOURS_START_def QUIET_HOURS_END_def by simp linarith
qed

text \<open>Who may receive a message of a purpose on a channel, as the two regimes put it.\<close>

definition may_receive :: "time \<Rightarrow> message_purpose \<Rightarrow> message_entity \<Rightarrow> message_channel \<Rightarrow> addressee \<Rightarrow> messaging_state \<Rightarrow> bool" where
  "may_receive now purpose entityType channel p s \<longleftrightarrow>
    truthy (if channel = EMAIL_CHANNEL then ad_email p else ad_mobile p) \<and>
    (entityType, ad_id p, channel) \<notin> opt_out_key ` set (ms_optOuts s) \<and>
    (case purpose of
       TRANSACTIONAL \<Rightarrow> True
     | SERVICE \<Rightarrow> entityType = CUSTOMER_ENTITY \<and> daytime now
     | PROMOTIONAL \<Rightarrow> daytime now \<and> \<not> ad_dndRegistered p \<and> (\<exists>c. latest_consent (ad_id p) (ms_consents s) = Some c \<and> co_granted c))"

lemma canSend_iff: "canSend purpose (recipient_of e ch p s) (istHour now) = ALLOWED \<longleftrightarrow> may_receive now purpose e ch p s"
  by (cases purpose) (auto simp: canSend_def recipient_of_def may_receive_def quiet_iff find_by_None_iff split: option.splits)

definition addressed :: "send_message_input \<Rightarrow> message_entity" where
  "addressed input = (if truthy (sm_customerId input) then CUSTOMER_ENTITY else LEAD_ENTITY)"

definition addressees :: "message_entity \<Rightarrow> messaging_state \<Rightarrow> addressee list" where
  "addressees e s = (if e = CUSTOMER_ENTITY then ms_customers s else ms_leads s)"

definition addressed_id :: "send_message_input \<Rightarrow> string option" where
  "addressed_id input = (if truthy (sm_customerId input) then sm_customerId input else sm_leadId input)"

lemma loadRecipient_cases:
  assumes "loadRecipient ch (sm_leadId input) (sm_customerId input) s = Inr (name, r)"
  obtains p where "p \<in> set (addressees (addressed input) s)" "Some (ad_id p) = addressed_id input" "ad_deletedAt p = None"
    "name = ad_firstName p" "r = recipient_of (addressed input) ch p s"
proof -
  let ?P = "\<lambda>p. Some (ad_id p) = addressed_id input \<and> ad_deletedAt p = None"
  from assms obtain p where p: "find ?P (addressees (addressed input) s) = Some p"
    "name = ad_firstName p" "r = recipient_of (addressed input) ch p s"
    by (auto simp: loadRecipient_def Let_def addressees_def addressed_def addressed_id_def split: option.splits if_splits)
  from p(1) have "p \<in> set (addressees (addressed input) s)" "?P p" by (auto simp: find_Some_iff)
  then show thesis using that p(2,3) by blast
qed


text \<open>
  A request to send either changes nothing, records a refusal, or hands one message to the provider
  and records it; whether it is refused is the decision of the gate.
\<close>

lemma send_cases:
  assumes "send_message provider newId now userId input s = (r, s')"
  obtains (error) e where "r = Inl e" "s' = s"
    | (suppressed) t p where "t \<in> set (ms_templates s)" "p \<in> set (addressees (addressed input) s)"
        "Some (ad_id p) = addressed_id input" "ad_deletedAt p = None"
        "\<not> may_receive now (mt_purpose t) (addressed input) (mt_channel t) p s" "r = Inr SUPPRESSED"
        "\<exists>l. ms_log s' = insert_row l (ms_log s) \<and> ml_id l = newId \<and> ml_status l = SUPPRESSED \<and> ml_decisionCode l \<noteq> ALLOWED"
        "ms_handed s' = ms_handed s" "ms_optOuts s' = ms_optOuts s" "ms_templates s' = ms_templates s"
    | (handed) t p m l where "t \<in> set (ms_templates s)" "mt_code t = sm_templateCode input" "mt_isActive t"
        "p \<in> set (addressees (addressed input) s)" "Some (ad_id p) = addressed_id input" "ad_deletedAt p = None"
        "may_receive now (mt_purpose t) (addressed input) (mt_channel t) p s"
        "m = \<lparr>om_channel = mt_channel t, om_destination = the (if mt_channel t = EMAIL_CHANNEL then ad_email p else ad_mobile p),
              om_subject = mt_subject t,
              om_body = concat (map (filled ((''name'', ad_firstName p) # sm_variables input)) (pieces (mt_body t))),
              om_providerTemplateId = mt_providerTemplateId t\<rparr>"
        "r \<noteq> Inr SUPPRESSED" "ms_handed s' = ms_handed s @ [(newId, m)]" "ml_id l = newId" "ml_leadId l = sm_leadId input" "ml_customerId l = sm_customerId input"
        "ml_decisionCode l = ALLOWED"
        "ms_log s' = insert_row l (ms_log s) \<and> ml_status l = QUEUED \<or>
         (\<exists>result. ms_log s' = update_by ml_id newId (settle_log now result) (insert_row l (ms_log s)))"
        "ms_optOuts s' = ms_optOuts s" "ms_templates s' = ms_templates s"
proof (cases "truthy (sm_leadId input) = truthy (sm_customerId input)")
  case True
  then show ?thesis using assms error by (auto simp: send_message_def)
next
  case one: False
  show ?thesis
  proof (cases "find (\<lambda>t. mt_code t = sm_templateCode input \<and> mt_isActive t) (ms_templates s)")
    case None
    then show ?thesis using assms one error by (auto simp: send_message_def)
  next
    case t: (Some t)
    then have t': "t \<in> set (ms_templates s)" "mt_code t = sm_templateCode input" "mt_isActive t" by (auto simp: find_Some_iff)
    show ?thesis
    proof (cases "loadRecipient (mt_channel t) (sm_leadId input) (sm_customerId input) s")
      case (Inl e)
      then show ?thesis using assms one t error by (auto simp: send_message_def)
    next
      case (Inr b)
      obtain name rc where b: "b = (name, rc)" by fastforce
      from loadRecipient_cases [OF Inr [unfolded b]] obtain p where p: "p \<in> set (addressees (addressed input) s)"
        "Some (ad_id p) = addressed_id input" "ad_deletedAt p = None" "name = ad_firstName p"
        "rc = recipient_of (addressed input) (mt_channel t) p s" .
      let ?vals = "(''name'', name) # sm_variables input"
      let ?d = "canSend (mt_purpose t) rc (istHour now)"
      obtain body missing where rt: "renderTemplate (mt_body t) ?vals = (body, missing)" by fastforce
      let ?l = "message_log newId userId t input rc body ?d"
      let ?m = "\<lparr>om_channel = mt_channel t, om_destination = the (rs_destination rc), om_subject = mt_subject t,
        om_body = body, om_providerTemplateId = mt_providerTemplateId t\<rparr>"
      let ?logged = "s\<lparr>ms_log := insert_row ?l (ms_log s)\<rparr>"
      let ?handed = "?logged\<lparr>ms_handed := ms_handed s @ [(newId, ?m)]\<rparr>"
      have run: "(r, s') =
        (if missing \<noteq> [] then (Inl (BadRequest ''Missing template values''), s)
         else if ?d \<noteq> ALLOWED
         then (Inr SUPPRESSED, ?logged\<lparr>ms_audit := insert_row (audit_entry ''CREATE'' ''message.suppressed'' newId) (ms_audit s)\<rparr>)
         else case provider ?m of
             None \<Rightarrow> (Inl (ServerError ''Provider failed''), ?handed)
           | Some result \<Rightarrow> (Inr (if sr_accepted result then SENT else FAILED_MESSAGE),
               ?handed\<lparr>ms_log := update_by ml_id newId (settle_log now result) (ms_log ?handed)\<rparr>))"
        using assms [symmetric] unfolding send_message_def Let_def if_not_P [OF one] t option.case Inr sum.case b prod.case rt .
      show ?thesis
      proof (cases "missing \<noteq> []")
        case True
        then show ?thesis using run error by simp
      next
        case complete: False
        have gate: "?d = ALLOWED \<longleftrightarrow> may_receive now (mt_purpose t) (addressed input) (mt_channel t) p s"
          unfolding p(5) by (rule canSend_iff)
        show ?thesis
        proof (cases "?d = ALLOWED")
          case False
          then have s': "r = Inr SUPPRESSED" "s' = ?logged\<lparr>ms_audit := insert_row (audit_entry ''CREATE'' ''message.suppressed'' newId) (ms_audit s)\<rparr>"
            using run complete by auto
          have "\<exists>l. ms_log s' = insert_row l (ms_log s) \<and> ml_id l = newId \<and> ml_status l = SUPPRESSED \<and> ml_decisionCode l \<noteq> ALLOWED"
            using False by (intro exI [of _ ?l]) (simp add: s' message_log_def)
          then show ?thesis using False gate t' p s' by (intro suppressed [of t p]) simp_all
        next
          case True
          have body: "body = concat (map (filled ?vals) (pieces (mt_body t)))"
            using render_complete [of "mt_body t" ?vals] complete by (simp add: rt)
          have m: "?m = \<lparr>om_channel = mt_channel t, om_destination = the (if mt_channel t = EMAIL_CHANNEL then ad_email p else ad_mobile p),
              om_subject = mt_subject t,
              om_body = concat (map (filled ((''name'', ad_firstName p) # sm_variables input)) (pieces (mt_body t))),
              om_providerTemplateId = mt_providerTemplateId t\<rparr>"
            unfolding body p(4) p(5) by (simp add: recipient_of_def)
          have l: "ml_id ?l = newId" "ml_leadId ?l = sm_leadId input" "ml_customerId ?l = sm_customerId input"
            "ml_decisionCode ?l = ALLOWED" "ml_status ?l = QUEUED" using True by (simp_all add: message_log_def)
          have s': "r \<noteq> Inr SUPPRESSED" "ms_handed s' = ms_handed s @ [(newId, ?m)]" "ms_optOuts s' = ms_optOuts s" "ms_templates s' = ms_templates s"
            "ms_log s' = insert_row ?l (ms_log s) \<or> (\<exists>result. ms_log s' = update_by ml_id newId (settle_log now result) (insert_row ?l (ms_log s)))"
            using run complete True by (auto split: option.splits)
          show ?thesis by (rule handed [of t p ?m ?l]) (use t' p gate True m l s' in blast)+
        qed
      qed
    qed
  qed
qed


text \<open>
  C33. A message leaves only when it may. A request to send hands over at most one message, made from an
  active template for a living recipient on record, every placeholder filled; and it does so only when
  the recipient has an address on the channel, has not opted out of it, and, for a service message, is
  a client in the daytime, or, for a promotion, has a granted latest consent and is not registered
  against being disturbed, in the daytime. A suppressed request hands nothing over and leaves a row
  with the reason.
\<close>

theorem messages_leave_only_when_permitted:
  assumes "send_message provider newId now userId input s = (r, s')"
  shows "(ms_handed s' = ms_handed s \<or>
      (\<exists>t p m. t \<in> set (ms_templates s) \<and> mt_code t = sm_templateCode input \<and> mt_isActive t \<and>
        p \<in> set (addressees (addressed input) s) \<and> Some (ad_id p) = addressed_id input \<and> ad_deletedAt p = None \<and>
        may_receive now (mt_purpose t) (addressed input) (mt_channel t) p s \<and>
        ms_handed s' = ms_handed s @ [(newId, m)] \<and> om_channel m = mt_channel t \<and>
        om_destination m = the (if mt_channel t = EMAIL_CHANNEL then ad_email p else ad_mobile p) \<and>
        om_body m = concat (map (filled ((''name'', ad_firstName p) # sm_variables input)) (pieces (mt_body t))))) \<and>
    (r = Inr SUPPRESSED \<longrightarrow> ms_handed s' = ms_handed s \<and>
      (\<exists>l. ms_log s' = insert_row l (ms_log s) \<and> ml_id l = newId \<and> ml_status l = SUPPRESSED \<and> ml_decisionCode l \<noteq> ALLOWED))"
  using assms
proof (cases rule: send_cases)
  case (handed t p m l)
  then show ?thesis by (intro conjI disjI2 exI [of _ t] exI [of _ p] exI [of _ m]) simp_all
qed auto

section \<open>Opting out\<close>

text \<open>
  The requests of the component, and any change the rest of the program makes to the people and
  their consents. Rows of the log get fresh ids.
\<close>

inductive message_step :: "messaging_state \<Rightarrow> messaging_state \<Rightarrow> bool" where
  step_create: "createTemplate newId u i s = Inr s' \<Longrightarrow> message_step s s'"
| step_update: "updateTemplate tid input s = Inr s' \<Longrightarrow> message_step s s'"
| step_opt_out: "message_step s (optOut e i ch reason s)"
| step_send: "send_message provider newId now u input s = (r, s') \<Longrightarrow> newId \<notin> ml_id ` set (ms_log s) \<Longrightarrow> message_step s s'"
| step_people: "message_step s (s\<lparr>ms_leads := ls, ms_customers := cs, ms_consents := consents\<rparr>)"

inductive message_reach :: "messaging_state \<Rightarrow> bool" where
  reach_start: "ms_log s = [] \<Longrightarrow> ms_handed s = [] \<Longrightarrow> message_reach s"
| reach_step: "message_reach s \<Longrightarrow> message_step s s' \<Longrightarrow> message_reach s'"

definition recorded :: "messaging_state \<Rightarrow> bool" where
  "recorded s \<longleftrightarrow> fst ` set (ms_handed s) \<subseteq> ml_id ` set (ms_log s)"

lemma settle_log_keeps [simp]:
  "ml_id (settle_log now result l) = ml_id l" "ml_leadId (settle_log now result l) = ml_leadId l"
  "ml_customerId (settle_log now result l) = ml_customerId l"
  by (simp_all add: settle_log_def)

lemma desk_keeps:
  "createTemplate newId u input s = Inr s' \<Longrightarrow> ms_log s' = ms_log s \<and> ms_handed s' = ms_handed s \<and> ms_optOuts s' = ms_optOuts s"
  "updateTemplate tid changes s = Inr s' \<Longrightarrow> ms_log s' = ms_log s \<and> ms_handed s' = ms_handed s \<and> ms_optOuts s' = ms_optOuts s"
  "ms_log (optOut e i ch reason s) = ms_log s" "ms_handed (optOut e i ch reason s) = ms_handed s"
  by (auto simp: createTemplate_def updateTemplate_def optOut_def split: if_splits)

lemma opt_out_adds: "k \<in> opt_out_key ` set (ms_optOuts s) \<Longrightarrow> k \<in> opt_out_key ` set (ms_optOuts (optOut e i ch reason s))"
  by (auto simp: optOut_def insert_row_def)

lemma recorded_step: "message_step s s' \<Longrightarrow> recorded s \<Longrightarrow> recorded s'"
proof (induction rule: message_step.induct)
  case (step_send provider newId now u input s r s')
  from step_send(1) show ?case
  proof (cases rule: send_cases)
    case (error e)
    then show ?thesis using step_send(3) by simp
  next
    case (suppressed t p)
    then show ?thesis using step_send(3) by (auto simp: recorded_def insert_row_def)
  next
    case (handed t p m l)
    have "ml_id ` set (ms_log s') = insert newId (ml_id ` set (ms_log s))"
      using handed(15) handed(11) by (auto simp: insert_row_def update_by_def update_where_def image_iff)
    then show ?thesis using step_send(3) handed(10) by (auto simp: recorded_def)
  qed
qed (simp_all add: recorded_def desk_keeps)

lemma recorded_reach: "message_reach s \<Longrightarrow> recorded s"
proof (induction rule: message_reach.induct)
  case (reach_start s)
  then show ?case by (simp add: recorded_def)
qed (rule recorded_step)

text \<open>The messages handed over for one person on one channel, by the rows of the log they belong to.\<close>

definition row_for :: "message_entity \<Rightarrow> string \<Rightarrow> message_log_row \<Rightarrow> bool" where
  "row_for e i l \<longleftrightarrow>
    (if truthy (ml_customerId l) then e = CUSTOMER_ENTITY \<and> ml_customerId l = Some i
     else e = LEAD_ENTITY \<and> ml_leadId l = Some i)"

lemma row_for_settle [simp]: "row_for e i (settle_log now result l) = row_for e i l"
  by (simp add: row_for_def)

lemma list_ex_update_by:
  "(\<And>x. P (f x) = P x) \<Longrightarrow> list_ex P (update_by key k f rows) = list_ex P rows"
  by (induction rows) (auto simp: update_by_def update_where_def)

definition handed_to :: "message_entity \<Rightarrow> string \<Rightarrow> message_channel \<Rightarrow> messaging_state \<Rightarrow> (string \<times> outbound_message) list" where
  "handed_to e i ch s =
    filter (\<lambda>(lid, m). om_channel m = ch \<and> list_ex (\<lambda>l. ml_id l = lid \<and> row_for e i l) (ms_log s)) (ms_handed s)"

lemma opted_out_step:
  assumes "message_step s s'" and "recorded s" and "(e, i, ch) \<in> opt_out_key ` set (ms_optOuts s)"
  shows "(e, i, ch) \<in> opt_out_key ` set (ms_optOuts s') \<and> handed_to e i ch s' = handed_to e i ch s"
  using assms
proof (induction rule: message_step.induct)
  case (step_send provider newId now u input s r s')
  have old: "list_ex (\<lambda>l'. ml_id l' = lid \<and> row_for e i l') (insert_row l (ms_log s)) \<longleftrightarrow>
      list_ex (\<lambda>l'. ml_id l' = lid \<and> row_for e i l') (ms_log s)"
    if "(lid, m) \<in> set (ms_handed s)" "ml_id l = newId" for lid m l
  proof -
    have "lid \<in> ml_id ` set (ms_log s)" using that(1) step_send(3) unfolding recorded_def by force
    then have "lid \<noteq> ml_id l" using that(2) step_send(2) by blast
    then show ?thesis by (simp add: insert_row_def)
  qed
  from step_send(1) show ?case
  proof (cases rule: send_cases)
    case (error e')
    then show ?thesis using step_send(4) by simp
  next
    case (suppressed t p)
    then obtain l where l: "ms_log s' = insert_row l (ms_log s)" "ml_id l = newId" by blast
    have "handed_to e i ch s' = handed_to e i ch s"
      unfolding handed_to_def suppressed l(1) by (rule filter_cong [OF refl]) (use old [OF _ l(2)] in auto)
    then show ?thesis using step_send(4) suppressed by simp
  next
    case (handed t p m l)
    have log: "list_ex (\<lambda>l'. ml_id l' = lid \<and> row_for e i l') (ms_log s') \<longleftrightarrow>
      list_ex (\<lambda>l'. ml_id l' = lid \<and> row_for e i l') (insert_row l (ms_log s))" for lid
      using handed(15) by (auto simp: list_ex_update_by)
    have "\<not> (om_channel m = ch \<and> list_ex (\<lambda>l'. ml_id l' = newId \<and> row_for e i l') (insert_row l (ms_log s)))"
    proof
      assume a: "om_channel m = ch \<and> list_ex (\<lambda>l'. ml_id l' = newId \<and> row_for e i l') (insert_row l (ms_log s))"
      then have "row_for e i l" using step_send(2) by (auto simp: insert_row_def list_ex_iff)
      then have "e = addressed input" "Some i = addressed_id input"
        using handed(12,13) by (auto simp: row_for_def addressed_def addressed_id_def split: if_splits)
      moreover from this(2) have "i = ad_id p" using handed(5) by (metis option.inject)
      moreover have "ch = mt_channel t" using a handed(8) by simp
      ultimately show False using handed(5,7) step_send(4) by (simp add: may_receive_def)
    qed
    then have none: "filter (\<lambda>(lid, m). om_channel m = ch \<and> list_ex (\<lambda>l'. ml_id l' = lid \<and> row_for e i l') (insert_row l (ms_log s)))
        [(newId, m)] = []" by simp
    have same: "filter (\<lambda>(lid, m). om_channel m = ch \<and> list_ex (\<lambda>l'. ml_id l' = lid \<and> row_for e i l') (insert_row l (ms_log s))) (ms_handed s) =
        filter (\<lambda>(lid, m). om_channel m = ch \<and> list_ex (\<lambda>l'. ml_id l' = lid \<and> row_for e i l') (ms_log s)) (ms_handed s)"
      by (rule filter_cong [OF refl]) (use old [OF _ handed(11)] in auto)
    have "handed_to e i ch s' = handed_to e i ch s"
      unfolding handed_to_def handed(10) filter_append log none same by simp
    then show ?thesis using step_send(4) handed by simp
  qed
qed (simp_all add: handed_to_def desk_keeps opt_out_adds)

text \<open>
  C34. Stop means stop, for the record it was said of. Once an opt-out is stored for one lead or one
  customer and a channel, no sequence of requests hands the provider another message addressed to
  that record on that channel, transactional ones included: whatever templates are made or edited, at
  whatever hour, and whatever happens to the consents. It says nothing of a person with another
  record: the customer a lead becomes has its own id and starts without the opt-out,
  \<open>opt_out_lost_on_conversion\<close>.
\<close>

theorem opt_out_is_forever:
  assumes "message_reach s" and "message_step\<^sup>*\<^sup>* (optOut e i ch reason s) s'"
  shows "handed_to e i ch s' = handed_to e i ch s"
proof -
  have "recorded s' \<and> (e, i, ch) \<in> opt_out_key ` set (ms_optOuts s') \<and> handed_to e i ch s' = handed_to e i ch s"
    using assms(2)
  proof (induction rule: rtranclp_induct)
    case base
    have "(e, i, ch) \<in> opt_out_key ` set (ms_optOuts s)" if "find_by opt_out_key (e, i, ch) (ms_optOuts s) \<noteq> None"
      using that unfolding find_by_None_iff by simp
    then show ?case using recorded_reach [OF assms(1)]
      by (auto simp: optOut_def handed_to_def recorded_def insert_row_def opt_out_key_def)
  next
    case (step y z)
    from opted_out_step [OF step(2), of e i ch] recorded_step [OF step(2)] step(3) show ?case by simp
  qed
  then show ?thesis by blast
qed


section \<open>Examples\<close>

definition demo_template :: "message_purpose \<Rightarrow> template_row" where
  "demo_template purpose =
    \<lparr>mt_id = ''t1'', mt_code = ''OFFER'', mt_name = ''Offer'', mt_channel = SMS_CHANNEL, mt_purpose = purpose, mt_subject = None,
     mt_body = ''Dear {{name}}'', mt_providerTemplateId = None, mt_isActive = True, mt_createdById = ''u1''\<rparr>"

definition demo_addressee :: "string \<Rightarrow> addressee" where
  "demo_addressee i = \<lparr>ad_id = i, ad_firstName = ''Asha'', ad_email = None, ad_mobile = Some ''9876543210'', ad_dndRegistered = False, ad_deletedAt = None\<rparr>"

definition demo_consent :: "string \<Rightarrow> bool \<Rightarrow> time \<Rightarrow> consent_entry" where
  "demo_consent i granted t =
    \<lparr>el_entityType = ''LEAD'', el_entityId = i, co_leadId = None, co_customerId = None, co_purpose = ''MARKETING_CONTACT'',
     co_granted = granted, co_capturedAt = t\<rparr>"

definition demo_messaging :: "message_purpose \<Rightarrow> messaging_state" where
  "demo_messaging purpose =
    \<lparr>ms_templates = [demo_template purpose], ms_optOuts = [], ms_consents = [demo_consent ''l1'' True 5], ms_leads = [demo_addressee ''l1''],
     ms_customers = [demo_addressee ''c1''], ms_log = [], ms_handed = [], ms_audit = []\<rparr>"

definition demo_send :: "string option \<Rightarrow> string option \<Rightarrow> send_message_input" where
  "demo_send leadId customerId = \<lparr>sm_templateCode = ''OFFER'', sm_leadId = leadId, sm_customerId = customerId, sm_variables = []\<rparr>"

definition accepting :: "outbound_message \<Rightarrow> send_result option" where
  "accepting m = Some \<lparr>sr_accepted = True, sr_providerMessageId = Some ''p1'', sr_failureReason = None\<rparr>"

text \<open>Noon and eleven at night in India.\<close>

lemma messages_leave_only_when_permitted_witness:
  "fst (send_message accepting ''m1'' 23400000 ''u1'' (demo_send (Some ''l1'') None) (demo_messaging PROMOTIONAL)) = Inr SENT \<and>
   fst (send_message accepting ''m1'' 63000000 ''u1'' (demo_send (Some ''l1'') None) (demo_messaging PROMOTIONAL)) = Inr SUPPRESSED \<and>
   ms_handed (snd (send_message accepting ''m1'' 63000000 ''u1'' (demo_send (Some ''l1'') None) (demo_messaging PROMOTIONAL))) = []"
proof -
  let ?night = "send_message accepting ''m1'' 63000000 ''u1'' (demo_send (Some ''l1'') None) (demo_messaging PROMOTIONAL)"
  have both: "fst (send_message accepting ''m1'' 23400000 ''u1'' (demo_send (Some ''l1'') None) (demo_messaging PROMOTIONAL)) = Inr SENT \<and>
    fst ?night = Inr SUPPRESSED" by code_simp
  have "?night = (Inr SUPPRESSED, snd ?night)" using both by (metis prod.collapse)
  from messages_leave_only_when_permitted [OF this] have "ms_handed (snd ?night) = ms_handed (demo_messaging PROMOTIONAL)" by simp
  then show ?thesis using both by (simp add: demo_messaging_def)
qed

definition demo_stopped :: messaging_state where
  "demo_stopped = snd (send_message accepting ''m1'' 23400000 ''u1'' (demo_send (Some ''l1'') None)
     (optOut LEAD_ENTITY ''l1'' SMS_CHANNEL None (demo_messaging TRANSACTIONAL)))"

lemma opt_out_is_forever_witness:
  "message_step\<^sup>*\<^sup>* (optOut LEAD_ENTITY ''l1'' SMS_CHANNEL None (demo_messaging TRANSACTIONAL)) demo_stopped \<and>
   handed_to LEAD_ENTITY ''l1'' SMS_CHANNEL demo_stopped = [] \<and> length (ms_log demo_stopped) = 1"
proof -
  let ?s = "optOut LEAD_ENTITY ''l1'' SMS_CHANNEL None (demo_messaging TRANSACTIONAL)"
  have "message_step ?s demo_stopped"
    unfolding demo_stopped_def by (rule step_send [OF prod.collapse [symmetric]]) (simp add: desk_keeps demo_messaging_def)
  then have steps: "message_step\<^sup>*\<^sup>* ?s demo_stopped" by blast
  have "message_reach (demo_messaging TRANSACTIONAL)" by (rule reach_start) (simp_all add: demo_messaging_def)
  from opt_out_is_forever [OF this steps] have "handed_to LEAD_ENTITY ''l1'' SMS_CHANNEL demo_stopped = []"
    by (simp add: handed_to_def demo_messaging_def)
  moreover have "length (ms_log demo_stopped) = 1" by code_simp
  ultimately show ?thesis using steps by blast
qed

text \<open>
  The refusal does not follow the person: it is recorded against the lead, the row of the customer the
  lead becomes has another id, and conversion copies the consents but not the refusals.
\<close>

lemma opt_out_lost_on_conversion:
  "fst (send_message accepting ''m1'' 23400000 ''u1'' (demo_send (Some ''l1'') None)
     (optOut LEAD_ENTITY ''l1'' SMS_CHANNEL None (demo_messaging TRANSACTIONAL))) = Inr SUPPRESSED \<and>
   fst (send_message accepting ''m1'' 23400000 ''u1'' (demo_send None (Some ''c1''))
     (optOut LEAD_ENTITY ''l1'' SMS_CHANNEL None (demo_messaging TRANSACTIONAL))) = Inr SENT"
  by code_simp

text \<open>
  Conversion copies the consents of a lead to the customer without the time they were captured, so all
  copies carry the time of the conversion. Which of a grant and its later withdrawal is the latest is
  then decided by the order in which the table answers.
\<close>

definition carry_consent :: "string \<Rightarrow> time \<Rightarrow> consent_entry \<Rightarrow> consent_entry" where
  "carry_consent customerId now c = c\<lparr>el_entityType := ''CUSTOMER'', el_entityId := customerId, co_leadId := None,
     co_customerId := Some customerId, co_capturedAt := now\<rparr>"

lemma withdrawal_lost_on_conversion:
  "let ledger = [demo_consent ''l1'' True 5, demo_consent ''l1'' False 8]; copies = map (carry_consent ''c1'' 20) ledger
   in map_option co_granted (latest_consent ''l1'' ledger) = Some False \<and>
      map_option co_granted (latest_consent ''l1'' (rev ledger)) = Some False \<and>
      map_option co_granted (latest_consent ''c1'' copies) = Some True \<and>
      map_option co_granted (latest_consent ''c1'' (rev copies)) = Some False"
  by code_simp

end
