(* ===== verification/LeadBook.thy ===== *)
theory LeadBook
  imports Presentations
begin

text \<open>
  What people see of the lead book: the reading half of
  \<open>apps/api/src/modules/leads/leads.service.ts\<close> with \<open>lead.mapper.ts\<close> and \<open>leadQuerySchema\<close> of
  \<open>packages/contracts/src/lead.ts\<close>. The list and its filters, the export, the boards, the closed
  column, the owner filter and the check of a number that is being typed. The database's text search,
  its order of the rows of a list and its collation are parameters, and so are the texts of dates and
  amounts.
\<close>

section \<open>Asking for leads\<close>

datatype presence = ANY_SET | NONE_SET

record lead_query =
  q_q :: "string option"
  q_status :: "lead_status list"
  q_source :: "string list"
  q_productInterest :: "string list"
  q_priority :: "string option"
  q_ownerId :: "string option"
  q_partnerId :: "string option"
  q_campaignId :: "string option"
  q_eventId :: "string option"
  q_attendedEventId :: "string option"
  q_capturedById :: "string option"
  q_owned :: "presence option"
  q_captured :: "presence option"
  q_returningAtEventId :: "string option"
  q_overdueOnly :: bool
  q_createdFrom :: "time option"
  q_createdTo :: "time option"
  q_minScore :: "int option"
  q_mobileVerified :: "bool option"
  q_page :: nat
  q_pageSize :: nat
  q_sortBy :: "string option"
  q_descending :: bool

text \<open>
  An absent list and an empty one are both \<open>[]\<close>: the code asks for the length. \<open>overdueOnly\<close> is what
  \<open>z.coerce.boolean\<close> makes of the text in the address.
\<close>

definition coerce_boolean :: "string option \<Rightarrow> bool" where
  "coerce_boolean v = truthy v"

record product_row =
  pd_code :: string
  pd_name :: string
  pd_parentCode :: "string option"

record masters =
  ma_people :: "account list"
  ma_products :: "product_row list"
  ma_campaigns :: "(string \<times> string) list"

definition withSubProducts :: "product_row list \<Rightarrow> lead_query \<Rightarrow> lead_query" where
  "withSubProducts products q =
    (if q_productInterest q = [] then q
     else
       let children = filter (\<lambda>p. list_ex (\<lambda>code. pd_parentCode p = Some code) (q_productInterest q)) products
       in if children = [] then q
          else q\<lparr>q_productInterest := js_set (q_productInterest q @ map pd_code children)\<rparr>)"

text \<open>\<open>like insensitive term text\<close> is the database's \<open>contains\<close>; a null column never matches.\<close>

type_synonym text_search = "bool \<Rightarrow> string \<Rightarrow> string \<Rightarrow> bool"

definition column_like :: "text_search \<Rightarrow> bool \<Rightarrow> string \<Rightarrow> string option \<Rightarrow> bool" where
  "column_like like insensitive term column = (case column of None \<Rightarrow> False | Some text \<Rightarrow> like insensitive term text)"

definition term_matches :: "text_search \<Rightarrow> masters \<Rightarrow> 'a event_state_scheme \<Rightarrow> string \<Rightarrow> lead_row \<Rightarrow> bool" where
  "term_matches like ms s term l =
    (let event = Option.bind (l_eventId l) (\<lambda>i. find_by ew_id i (es_events s))
     in column_like like True term (Some (l_firstName l)) \<or>
        column_like like True term (l_lastName l) \<or>
        column_like like False term (Some (l_mobile l)) \<or>
        column_like like True term (l_email l) \<or>
        column_like like True term (Some (l_reference l)) \<or>
        column_like like True term (map_option ew_code event) \<or>
        column_like like True term (map_option ew_name event) \<or>
        column_like like True term (Option.bind (l_campaignId l) (map_of (ma_campaigns ms))))"

definition given_is :: "string option \<Rightarrow> string option \<Rightarrow> bool" where
  "given_is wanted column \<longleftrightarrow> \<not> truthy wanted \<or> column = wanted"

definition presence_is :: "presence option \<Rightarrow> string option \<Rightarrow> bool" where
  "presence_is wanted column = (case wanted of None \<Rightarrow> True | Some ANY_SET \<Rightarrow> column \<noteq> None | Some NONE_SET \<Rightarrow> column = None)"

definition at_event :: "crm \<Rightarrow> string \<Rightarrow> (event_attendance \<Rightarrow> bool) \<Rightarrow> lead_row \<Rightarrow> bool" where
  "at_event s eventId P l \<longleftrightarrow> list_ex (\<lambda>a. ea_leadId a = l_id l \<and> ea_eventId a = eventId \<and> P a) (cr_attendance s)"

definition asked_for :: "text_search \<Rightarrow> masters \<Rightarrow> time \<Rightarrow> lead_query \<Rightarrow> 'a event_state_scheme \<Rightarrow> lead_row \<Rightarrow> bool" where
  "asked_for like ms now q s l \<longleftrightarrow>
    (\<not> truthy (q_q q) \<or> term_matches like ms s (js_trim (the (q_q q))) l) \<and>
    (q_status q = [] \<or> l_status l \<in> set (q_status q)) \<and>
    (q_source q = [] \<or> l_source l \<in> set (q_source q)) \<and>
    (q_productInterest q = [] \<or> list_ex (\<lambda>p. p \<in> set (l_productInterest l)) (q_productInterest q)) \<and>
    given_is (q_priority q) (Some (l_priority l)) \<and>
    given_is (q_ownerId q) (l_ownerId l) \<and>
    given_is (q_partnerId q) (l_partnerId l) \<and>
    given_is (q_campaignId q) (l_campaignId l) \<and>
    given_is (q_eventId q) (l_eventId l) \<and>
    given_is (q_capturedById q) (l_capturedById l) \<and>
    presence_is (q_captured q) (l_capturedById l) \<and>
    presence_is (q_owned q) (l_ownerId l) \<and>
    (\<not> truthy (q_returningAtEventId q) \<or> at_event (ps_crm s) (the (q_returningAtEventId q)) ea_returning l) \<and>
    (\<not> truthy (q_attendedEventId q) \<or> l_eventId l = q_attendedEventId q \<or>
       at_event (ps_crm s) (the (q_attendedEventId q)) (\<lambda>a. True) l) \<and>
    (case q_minScore q of None \<Rightarrow> True | Some least \<Rightarrow> least \<le> l_score l) \<and>
    (\<not> q_overdueOnly q \<or>
       (case l_nextFollowUpAt l of None \<Rightarrow> False | Some t \<Rightarrow> t < now) \<and> l_status l \<notin> set CLOSED_LEAD_STATUSES) \<and>
    (case q_mobileVerified q of None \<Rightarrow> True | Some wanted \<Rightarrow> (l_mobileVerifiedAt l \<noteq> None) = wanted) \<and>
    (case q_createdFrom q of None \<Rightarrow> True | Some t \<Rightarrow> t \<le> l_createdAt l) \<and>
    (case q_createdTo q of None \<Rightarrow> True | Some t \<Rightarrow> l_createdAt l \<le> t)"

definition in_lead_scope :: "org_unit list \<Rightarrow> principal \<Rightarrow> lead_row \<Rightarrow> bool" where
  "in_lead_scope orgs user l \<longleftrightarrow> matches orgs (leadScope user) (lead_scope_row l)"

definition buildWhere ::
    "text_search \<Rightarrow> masters \<Rightarrow> org_unit list \<Rightarrow> principal \<Rightarrow> time \<Rightarrow> lead_query \<Rightarrow> 'a event_state_scheme \<Rightarrow> lead_row \<Rightarrow> bool" where
  "buildWhere like ms orgs user now q s l \<longleftrightarrow>
    l_deletedAt l = None \<and> in_lead_scope orgs user l \<and> asked_for like ms now q s l"

definition leads_found ::
    "text_search \<Rightarrow> masters \<Rightarrow> org_unit list \<Rightarrow> principal \<Rightarrow> time \<Rightarrow> lead_query \<Rightarrow> 'a event_state_scheme \<Rightarrow> lead_row list" where
  "leads_found like ms orgs user now q s =
    filter (buildWhere like ms orgs user now (withSubProducts (ma_products ms) q) s) (cr_leads (ps_crm s))"

section \<open>The list\<close>

definition SORTABLE_COLUMNS :: "string list" where
  "SORTABLE_COLUMNS = [''createdAt'', ''updatedAt'', ''score'', ''nextFollowUpAt'', ''lastActivityAt'', ''priority'', ''status'', ''firstName'']"

definition sort_column :: "lead_query \<Rightarrow> string" where
  "sort_column q = (case q_sortBy q of
       Some c \<Rightarrow> if c \<noteq> [] \<and> c \<in> set SORTABLE_COLUMNS then c else ''createdAt''
     | None \<Rightarrow> ''createdAt'')"

definition page_of :: "nat \<Rightarrow> nat \<Rightarrow> 'r list \<Rightarrow> 'r list" where
  "page_of page pageSize rows = take pageSize (drop ((page - 1) * pageSize) rows)"

record 'r paginated =
  pg_items :: "'r list"
  pg_page :: nat
  pg_pageSize :: nat
  pg_total :: nat
  pg_totalPages :: nat

definition paginate :: "'r list \<Rightarrow> nat \<Rightarrow> nat \<Rightarrow> nat \<Rightarrow> 'r paginated" where
  "paginate items rowCount page pageSize =
    \<lparr>pg_items = items, pg_page = page, pg_pageSize = pageSize, pg_total = rowCount,
     pg_totalPages = (if 0 < pageSize then (rowCount + pageSize - 1) div pageSize else 0)\<rparr>"

record lead_list_item =
  li_id :: string
  li_reference :: string
  li_fullName :: string
  li_mobileMasked :: string
  li_email :: "string option"
  li_city :: "string option"
  li_status :: lead_status
  li_source :: string
  li_priority :: string
  li_productInterest :: "string list"
  li_score :: int
  li_scoreBand :: score_band
  li_estimatedValue :: "rat option"
  li_owner :: "(string \<times> string) option"
  li_partner :: "(string \<times> string) option"
  li_nextFollowUpAt :: "time option"
  li_isOverdue :: bool
  li_lastActivityAt :: "time option"
  li_mobileVerifiedAt :: "time option"
  li_mobileVerificationMethod :: "string option"
  li_createdAt :: time

definition toLeadListItem :: "char \<Rightarrow> masters \<Rightarrow> time \<Rightarrow> 'a event_state_scheme \<Rightarrow> lead_row \<Rightarrow> lead_list_item" where
  "toLeadListItem bullet ms now s l =
    \<lparr>li_id = l_id l, li_reference = l_reference l, li_fullName = lead_full_name l, li_mobileMasked = maskMobile bullet (Some (l_mobile l)),
     li_email = l_email l, li_city = l_city l, li_status = l_status l, li_source = l_source l, li_priority = l_priority l,
     li_productInterest = l_productInterest l, li_score = l_score l, li_scoreBand = scoreBandFor (l_score l),
     li_estimatedValue = l_estimatedValue l,
     li_owner = map_option (\<lambda>u. (u_id u, person_name u)) (Option.bind (l_ownerId l) (\<lambda>i. find_by u_id i (ma_people ms))),
     li_partner = map_option (\<lambda>p. (pt_id p, pt_name p)) (Option.bind (l_partnerId l) (\<lambda>i. find_by pt_id i (ps_partners s))),
     li_nextFollowUpAt = l_nextFollowUpAt l,
     li_isOverdue = (case l_nextFollowUpAt l of None \<Rightarrow> False | Some t \<Rightarrow> t < now),
     li_lastActivityAt = l_lastActivityAt l, li_mobileVerifiedAt = l_mobileVerifiedAt l,
     li_mobileVerificationMethod = l_mobileVerificationMethod l, li_createdAt = l_createdAt l\<rparr>"

text \<open>
  \<open>order column descending rows\<close> is the order in which the database returns the rows to one query. It
  sorts by the column and may put rows that agree there in any order, another one for the next query.
\<close>

type_synonym row_order = "string \<Rightarrow> bool \<Rightarrow> lead_row list \<Rightarrow> lead_row list"

definition list_leads ::
    "row_order \<Rightarrow> text_search \<Rightarrow> char \<Rightarrow> masters \<Rightarrow> org_unit list \<Rightarrow> principal \<Rightarrow> time \<Rightarrow> lead_query \<Rightarrow> 'a event_state_scheme \<Rightarrow>
     lead_list_item paginated" where
  "list_leads order like bullet ms orgs user now q s =
    (let rows = leads_found like ms orgs user now q s
     in paginate (map (toLeadListItem bullet ms now s) (page_of (q_page q) (q_pageSize q) (order (sort_column q) (q_descending q) rows)))
          (length rows) (q_page q) (q_pageSize q))"

section \<open>The export\<close>

definition LEAD_EXPORT_MAX_ROWS :: nat where
  "LEAD_EXPORT_MAX_ROWS = 20000"

fun status_text :: "lead_status \<Rightarrow> string" where
  "status_text NEW = ''NEW''"
| "status_text CONTACTED = ''CONTACTED''"
| "status_text QUALIFIED = ''QUALIFIED''"
| "status_text PROPOSAL = ''PROPOSAL''"
| "status_text CONVERTED = ''CONVERTED''"
| "status_text LOST = ''LOST''"
| "status_text DISQUALIFIED = ''DISQUALIFIED''"

definition text_or_empty :: "string option \<Rightarrow> string" where
  "text_or_empty v = (case v of None \<Rightarrow> [] | Some t \<Rightarrow> t)"

definition export_header :: "string list" where
  "export_header = [''Reference'', ''First name'', ''Last name'', ''Mobile'', ''Mobile verified'', ''Email'', ''City'', ''Status'',
    ''Source'', ''Priority'', ''Products'', ''Estimated value'', ''Owner'', ''Owner code'', ''Event'', ''Captured by'', ''Created'',
    ''Last activity'', ''Next follow-up'']"

definition export_cells ::
    "(int \<Rightarrow> string) \<Rightarrow> (rat \<Rightarrow> string) \<Rightarrow> masters \<Rightarrow> 'a event_state_scheme \<Rightarrow> lead_row \<Rightarrow> string list" where
  "export_cells dayText decimalText ms s l =
    (let owner = Option.bind (l_ownerId l) (\<lambda>i. find_by u_id i (ma_people ms));
         event = Option.bind (l_eventId l) (\<lambda>i. find_by ew_id i (es_events s));
         capturer = Option.bind (l_capturedById l) (\<lambda>i. find_by u_id i (ma_people ms));
         asDate = (\<lambda>t. case t of None \<Rightarrow> [] | Some t \<Rightarrow> dayText (istDayKey t))
     in [l_reference l, l_firstName l, text_or_empty (l_lastName l), l_mobile l,
         if l_mobileVerifiedAt l \<noteq> None then ''Yes'' else ''No'', text_or_empty (l_email l), text_or_empty (l_city l),
         status_text (l_status l), l_source l, l_priority l, join_with ''; '' (l_productInterest l),
         (case l_estimatedValue l of None \<Rightarrow> [] | Some v \<Rightarrow> decimalText v),
         (case owner of None \<Rightarrow> [] | Some u \<Rightarrow> person_name u), text_or_empty (Option.bind owner u_employeeCode),
         (case event of None \<Rightarrow> [] | Some e \<Rightarrow> ew_name e), (case capturer of None \<Rightarrow> [] | Some u \<Rightarrow> person_name u),
         asDate (Some (l_createdAt l)), asDate (l_lastActivityAt l), asDate (l_nextFollowUpAt l)])"

definition exportCsv ::
    "row_order \<Rightarrow> text_search \<Rightarrow> char \<Rightarrow> (int \<Rightarrow> string) \<Rightarrow> (rat \<Rightarrow> string) \<Rightarrow> masters \<Rightarrow> org_unit list \<Rightarrow> principal \<Rightarrow> time \<Rightarrow>
     lead_query \<Rightarrow> 'a event_state_scheme \<Rightarrow> string \<times> nat" where
  "exportCsv order like bom dayText decimalText ms orgs user now q s =
    (let leads = take LEAD_EXPORT_MAX_ROWS (order ''createdAt'' True (leads_found like ms orgs user now q s))
     in (csv_document bom (export_header # map (export_cells dayText decimalText ms s) leads), length leads))"

section \<open>The boards\<close>

definition BOARD_STATUSES :: "lead_status list" where
  "BOARD_STATUSES = [NEW, CONTACTED, QUALIFIED, PROPOSAL, CONVERTED, LOST, DISQUALIFIED]"

definition any_status :: "lead_query \<Rightarrow> lead_query" where
  "any_status q = q\<lparr>q_status := []\<rparr>"

definition value_of :: "lead_row list \<Rightarrow> rat" where
  "value_of ls = sum_list (List.map_filter l_estimatedValue ls)"

definition pipeline ::
    "text_search \<Rightarrow> masters \<Rightarrow> org_unit list \<Rightarrow> principal \<Rightarrow> time \<Rightarrow> lead_query \<Rightarrow> 'a event_state_scheme \<Rightarrow>
     (lead_status \<times> nat \<times> rat) list \<times> nat" where
  "pipeline like ms orgs user now q s =
    (let rows = leads_found like ms orgs user now (any_status q) s;
         counts = group_counts l_status rows
     in (map (\<lambda>status. (status, (case map_of counts status of None \<Rightarrow> 0 | Some n \<Rightarrow> n),
                        value_of (filter (\<lambda>l. l_status l = status) rows))) BOARD_STATUSES,
         sum_counts counts))"

text \<open>Products whose lead satisfies the filter, and leads without products, each under its own status.\<close>

definition products_found ::
    "text_search \<Rightarrow> masters \<Rightarrow> org_unit list \<Rightarrow> principal \<Rightarrow> time \<Rightarrow> lead_query \<Rightarrow> 'a event_state_scheme \<Rightarrow> lead_product list" where
  "products_found like ms orgs user now q s =
    (let rows = leads_found like ms orgs user now (any_status q) s
     in filter (\<lambda>p. list_ex (\<lambda>l. l_id l = lp_leadId p) rows) (cr_products (ps_crm s)))"

definition without_products ::
    "text_search \<Rightarrow> masters \<Rightarrow> org_unit list \<Rightarrow> principal \<Rightarrow> time \<Rightarrow> lead_query \<Rightarrow> 'a event_state_scheme \<Rightarrow> lead_row list" where
  "without_products like ms orgs user now q s =
    filter (\<lambda>l. \<not> list_ex (\<lambda>p. lp_leadId p = l_id l) (cr_products (ps_crm s))) (leads_found like ms orgs user now (any_status q) s)"

definition productPipeline ::
    "text_search \<Rightarrow> masters \<Rightarrow> org_unit list \<Rightarrow> principal \<Rightarrow> time \<Rightarrow> lead_query \<Rightarrow> 'a event_state_scheme \<Rightarrow>
     (lead_status \<times> nat) list \<times> nat" where
  "productPipeline like ms orgs user now q s =
    (let groups = group_counts lp_status (products_found like ms orgs user now q s) @
                  group_counts l_status (without_products like ms orgs user now q s);
         count = (\<lambda>status. sum_counts (filter (\<lambda>(k, n). k = status) groups))
     in (map (\<lambda>status. (status, count status)) BOARD_STATUSES, sum_counts groups))"

text \<open>The columns themselves also ask for the product, when the filter names products.\<close>

definition product_asked :: "lead_query \<Rightarrow> lead_product \<Rightarrow> bool" where
  "product_asked q p \<longleftrightarrow> q_productInterest q = [] \<or> lp_code p \<in> set (q_productInterest q)"

definition productBoardColumn ::
    "(lead_product list \<Rightarrow> lead_product list) \<Rightarrow> text_search \<Rightarrow> masters \<Rightarrow> org_unit list \<Rightarrow> principal \<Rightarrow> time \<Rightarrow> lead_status \<Rightarrow>
     lead_query \<Rightarrow> 'a event_state_scheme \<Rightarrow> lead_product list \<times> nat" where
  "productBoardColumn order like ms orgs user now status q s =
    (let rows = filter (\<lambda>p. lp_status p = status \<and> product_asked (withSubProducts (ma_products ms) q) p)
                  (products_found like ms orgs user now q s)
     in (page_of (q_page q) (q_pageSize q) (order rows), length rows))"

datatype closed_period = DAYS_30 | DAYS_60 | DAYS_90

fun PERIOD_DAYS :: "closed_period \<Rightarrow> int" where
  "PERIOD_DAYS DAYS_30 = 30"
| "PERIOD_DAYS DAYS_60 = 60"
| "PERIOD_DAYS DAYS_90 = 90"

definition closedSince :: "closed_period \<Rightarrow> time \<Rightarrow> time" where
  "closedSince period now = now - PERIOD_DAYS period * 24 * 60 * 60 * 1000"

definition closedColumn ::
    "(lead_product list \<Rightarrow> lead_product list) \<Rightarrow> text_search \<Rightarrow> masters \<Rightarrow> org_unit list \<Rightarrow> principal \<Rightarrow> time \<Rightarrow> closed_period \<Rightarrow>
     lead_query \<Rightarrow> 'a event_state_scheme \<Rightarrow> lead_product list \<times> nat \<times> (lead_status \<times> nat) list" where
  "closedColumn order like ms orgs user now period q s =
    (let rows = filter (\<lambda>p. lp_status p \<in> set CLOSED_LEAD_STATUSES \<and>
                    (case lp_closedAt p of None \<Rightarrow> False | Some t \<Rightarrow> closedSince period now \<le> t) \<and>
                    product_asked (withSubProducts (ma_products ms) q) p)
                  (products_found like ms orgs user now q s)
     in (page_of (q_page q) (q_pageSize q) (order rows), length rows, group_counts lp_status rows))"

section \<open>Reading one lead, owners, and a number being typed\<close>

text \<open>\<open>findOne\<close> finds the lead in scope and records the read before it shapes the answer.\<close>

definition read_lead :: "org_unit list \<Rightarrow> principal \<Rightarrow> string \<Rightarrow> crm \<Rightarrow> (lead_row \<times> crm) result" where
  "read_lead orgs user i s = and_then (mustFindInScope orgs user i s) (\<lambda>l. Inr (l, audited ''READ'' None i s))"

record lead_owner_options =
  lo_items :: "(string \<times> string \<times> string option) list"
  lo_hasUnassigned :: bool

definition owners :: "collation \<Rightarrow> masters \<Rightarrow> org_unit list \<Rightarrow> principal \<Rightarrow> crm \<Rightarrow> lead_owner_options" where
  "owners collate ms orgs user s =
    (let grouped = js_set (map l_ownerId (filter (\<lambda>l. in_lead_scope orgs user l \<and> l_deletedAt l = None) (cr_leads s)));
         ids = filter (\<lambda>i. i \<noteq> []) (List.map_filter id grouped);
         people = js_sort (\<lambda>a b. cmp_or (collate (u_firstName a) (u_firstName b)) (collate (u_lastName a) (u_lastName b)))
                    (filter (\<lambda>u. u_id u \<in> set ids) (ma_people ms))
     in \<lparr>lo_items = (if ids = [] then [] else map (\<lambda>u. (u_id u, person_name u, u_employeeCode u)) people),
         lo_hasUnassigned = (None \<in> set grouped)\<rparr>)"

record check_mobile_input =
  cm_mobile :: string
  cm_excludeLeadId :: "string option"

record known_lead =
  kl_id :: string
  kl_reference :: string
  kl_name :: string
  kl_status :: lead_status
  kl_ownerName :: "string option"
  kl_createdAt :: time
  kl_productInterest :: "string list"
  kl_isOpen :: bool

record duplicate_match =
  dm_exists :: bool
  dm_visible :: bool
  dm_lead :: "known_lead option"

text \<open>The order of the enum in the database: \<open>orderBy status asc, createdAt desc\<close>.\<close>

definition status_rank :: "lead_status \<Rightarrow> int" where
  "status_rank status = index_of BOARD_STATUSES status"

definition open_first :: "lead_row \<Rightarrow> lead_row \<Rightarrow> int" where
  "open_first a b = cmp_or (int_asc (status_rank (l_status a)) (status_rank (l_status b))) (int_desc (l_createdAt a) (l_createdAt b))"

interpretation open_first: comparator open_first
  unfolding open_first_def
  by (rule comparator_cmp_or [OF comparator_on [OF asc.comparator_axioms] comparator_on [OF desc.comparator_axioms]])

definition same_number :: "check_mobile_input \<Rightarrow> lead_row \<Rightarrow> bool" where
  "same_number input l \<longleftrightarrow> l_mobile l = cm_mobile input \<and> l_deletedAt l = None \<and>
    (\<not> truthy (cm_excludeLeadId input) \<or> Some (l_id l) \<noteq> cm_excludeLeadId input)"

definition given_name :: "lead_row \<Rightarrow> string" where
  "given_name l = js_trim (join_with '' '' (filter (\<lambda>n. n \<noteq> []) [l_firstName l, text_or_empty (l_lastName l)]))"

definition known_lead_of :: "masters \<Rightarrow> lead_row \<Rightarrow> known_lead" where
  "known_lead_of ms l =
    \<lparr>kl_id = l_id l, kl_reference = l_reference l, kl_name = given_name l, kl_status = l_status l,
     kl_ownerName = map_option person_name (Option.bind (l_ownerId l) (\<lambda>i. find_by u_id i (ma_people ms))),
     kl_createdAt = l_createdAt l, kl_productInterest = l_productInterest l,
     kl_isOpen = (l_status l \<notin> set CLOSED_LEAD_STATUSES)\<rparr>"

definition checkMobile :: "masters \<Rightarrow> org_unit list \<Rightarrow> principal \<Rightarrow> check_mobile_input \<Rightarrow> crm \<Rightarrow> duplicate_match" where
  "checkMobile ms orgs user input s =
    (case js_sort open_first (filter (same_number input) (cr_leads s)) of
       [] \<Rightarrow> \<lparr>dm_exists = False, dm_visible = False, dm_lead = None\<rparr>
     | existing # _ \<Rightarrow>
         if \<not> in_lead_scope orgs user existing then \<lparr>dm_exists = True, dm_visible = False, dm_lead = None\<rparr>
         else \<lparr>dm_exists = True, dm_visible = True, dm_lead = Some (known_lead_of ms existing)\<rparr>)"

record lead_product_view =
  pv_productCode :: string
  pv_productName :: "string option"
  pv_status :: lead_status
  pv_isOpen :: bool
  pv_lostReason :: "string option"
  pv_closedAt :: "time option"
  pv_note :: "string option"
  pv_finalAmount :: "rat option"
  pv_conversionRef :: "string option"
  pv_conversionRefKind :: "string option"

text \<open>Rows are kept in the order in which they were created.\<close>

definition productsFor :: "product_row list \<Rightarrow> org_unit list \<Rightarrow> principal \<Rightarrow> string \<Rightarrow> crm \<Rightarrow> lead_product_view list result" where
  "productsFor products orgs user i s =
    and_then (mustFindInScope orgs user i s) (\<lambda>_.
      Inr (map (\<lambda>p. \<lparr>pv_productCode = lp_code p, pv_productName = map_option pd_name (find_by pd_code (lp_code p) products),
             pv_status = lp_status p, pv_isOpen = isOpenLeadProductStatus (lp_status p), pv_lostReason = lp_lostReason p,
             pv_closedAt = lp_closedAt p, pv_note = lp_note p, pv_finalAmount = lp_finalAmount p,
             pv_conversionRef = lp_conversionRef p, pv_conversionRefKind = lp_conversionRefKind p\<rparr>)
        (filter (\<lambda>p. lp_leadId p = i) (cr_products s))))"


section \<open>Pages\<close>

lemma pages_upto: "concat (map (\<lambda>n. page_of n k rows) [1..<Suc n]) = take (n * k) rows"
proof (induction n)
  case 0
  then show ?case by simp
next
  case (Suc n)
  have range: "[1..<Suc (Suc n)] = [1..<Suc n] @ [Suc n]" by simp
  have "take (Suc n * k) rows = take (n * k) rows @ take k (drop (n * k) rows)" by (metis take_add mult_Suc add.commute)
  then show ?case unfolding range map_append concat_append Suc by (simp only: page_of_def list.map concat.simps append_Nil2 diff_Suc_1)
qed

lemma enough_pages:
  assumes "0 < (k::nat)"
  shows "n \<le> (n + k - 1) div k * k"
proof -
  have "(n + k - 1) mod k < k" using assms by simp
  moreover have "(n + k - 1) div k * k + (n + k - 1) mod k = n + k - 1" by simp
  ultimately show ?thesis by linarith
qed

lemma pages_are_all:
  assumes "0 < k"
  shows "concat (map (\<lambda>n. page_of n k rows) [1..<Suc ((length rows + k - 1) div k)]) = rows"
  unfolding pages_upto using enough_pages [OF assms, of "length rows"] by (simp only: take_all)

section \<open>What a filter selects\<close>

lemma withSubProducts_keeps [simp]:
  "withSubProducts products (q\<lparr>q_page := n\<rparr>) = (withSubProducts products q)\<lparr>q_page := n\<rparr>"
  "withSubProducts products (q\<lparr>q_status := st\<rparr>) = (withSubProducts products q)\<lparr>q_status := st\<rparr>"
  by (simp_all add: withSubProducts_def Let_def)

lemma buildWhere_page: "buildWhere like ms orgs user now (q\<lparr>q_page := n\<rparr>) s = buildWhere like ms orgs user now q s"
  by (rule ext) (simp add: buildWhere_def asked_for_def)

lemma leads_found_page [simp]: "leads_found like ms orgs user now (q\<lparr>q_page := n\<rparr>) s = leads_found like ms orgs user now q s"
  by (simp add: leads_found_def buildWhere_page)

lemma sort_column_page [simp]: "sort_column (q\<lparr>q_page := n\<rparr>) = sort_column q"
  by (simp add: sort_column_def)

lemma asked_for_status:
  "asked_for like ms now (q\<lparr>q_status := [status]\<rparr>) s l \<longleftrightarrow> l_status l = status \<and> asked_for like ms now (q\<lparr>q_status := []\<rparr>) s l"
  by (simp add: asked_for_def) blast

lemma leads_found_status:
  "leads_found like ms orgs user now (q\<lparr>q_status := [status]\<rparr>) s =
   filter (\<lambda>l. l_status l = status) (leads_found like ms orgs user now (any_status q) s)"
proof -
  have "buildWhere like ms orgs user now (q'\<lparr>q_status := [status]\<rparr>) s l \<longleftrightarrow>
      l_status l = status \<and> buildWhere like ms orgs user now (q'\<lparr>q_status := []\<rparr>) s l" for q' l
    unfolding buildWhere_def asked_for_status by blast
  then show ?thesis unfolding leads_found_def any_status_def withSubProducts_keeps filter_filter by (intro filter_cong refl) blast
qed

lemma in_leads_found:
  "l \<in> set (leads_found like ms orgs user now q s) \<longleftrightarrow>
   l \<in> set (cr_leads (ps_crm s)) \<and> l_deletedAt l = None \<and> in_lead_scope orgs user l \<and>
   asked_for like ms now (withSubProducts (ma_products ms) q) s l"
  by (auto simp: leads_found_def buildWhere_def)

section \<open>Lists and exports show the scope\<close>

lemma distinct_of_map: "distinct (map f xs) \<Longrightarrow> distinct xs"
  by (simp add: distinct_map)

lemma sorted_once:
  assumes "inj_on key (set xs)" and "distinct xs" and "mset ys = mset xs"
    and "sorted (map key (if descending then rev xs else xs))" and "sorted (map key (if descending then rev ys else ys))"
  shows "ys = xs"
proof -
  have same: "set ys = set xs" "distinct ys" using assms(2,3) by (metis set_mset_mset, metis mset_eq_imp_distinct_iff)
  have d: "distinct (map key xs)" "distinct (map key ys)" using assms(1,2) same by (simp_all add: distinct_map)
  show ?thesis
  proof (cases descending)
    case True
    have "rev ys = rev xs"
      by (rule map_sorted_distinct_set_unique [of key]) (use assms True same d in \<open>simp_all add: rev_map [symmetric]\<close>)
    then show ?thesis by simp
  next
    case False
    show ?thesis
      by (rule map_sorted_distinct_set_unique [of key]) (use assms False same d in simp_all)
  qed
qed

lemma page_of_part:
  "distinct (map f rows) \<Longrightarrow> distinct (map f (page_of n k rows))" "set (page_of n k rows) \<subseteq> set rows"
  "length (page_of n k rows) = min k (length rows - (n - 1) * k)"
  by (auto simp: page_of_def take_map [symmetric] drop_map [symmetric] dest!: in_set_takeD in_set_dropD)

text \<open>
  C35. The pages of a list show the live leads in the caller's scope that the filter asks for. Every
  page holds such leads only, none of them twice, as many as the page has room for and the book still
  has, and says the right total, whatever order the database chooses for each query. Where no two of
  the leads agree in the column they are sorted by, the pages put together are all of them, each
  exactly once. Rows that agree there may come in another order for each page: for them nothing more
  than the first half is promised, and a lead may then show up on two pages or on none.
\<close>

theorem pages_are_the_scope:
  fixes key :: "lead_row \<Rightarrow> 'k :: linorder"
  assumes "\<And>n. mset (order n (sort_column q) (q_descending q) (leads_found like ms orgs user now q s)) =
      mset (leads_found like ms orgs user now q s)"
    and "\<And>n. sorted (map key (if q_descending q
      then rev (order n (sort_column q) (q_descending q) (leads_found like ms orgs user now q s))
      else order n (sort_column q) (q_descending q) (leads_found like ms orgs user now q s)))"
    and "0 < q_pageSize q" and "distinct (map l_id (cr_leads (ps_crm s)))"
  shows "let answer = (\<lambda>n. list_leads (order n) like bullet ms orgs user now (q\<lparr>q_page := n\<rparr>) s);
             wanted = {l \<in> set (cr_leads (ps_crm s)). l_deletedAt l = None \<and> in_lead_scope orgs user l \<and>
                         asked_for like ms now (withSubProducts (ma_products ms) q) s l};
             ids = map li_id (concat (map (\<lambda>n. pg_items (answer n)) [1..<Suc (pg_totalPages (answer 1))]))
         in (\<forall>n. distinct (map li_id (pg_items (answer n))) \<and> set (map li_id (pg_items (answer n))) \<subseteq> l_id ` wanted \<and>
               length (pg_items (answer n)) = min (q_pageSize q) (card wanted - (n - 1) * q_pageSize q) \<and>
               pg_total (answer n) = card wanted) \<and>
            (inj_on key wanted \<longrightarrow> distinct ids \<and> set ids = l_id ` wanted)"
proof -
  let ?rows = "leads_found like ms orgs user now q s"
  let ?sorted = "\<lambda>n. order n (sort_column q) (q_descending q) ?rows"
  let ?answer = "\<lambda>n. list_leads (order n) like bullet ms orgs user now (q\<lparr>q_page := n\<rparr>) s"
  let ?wanted = "{l \<in> set (cr_leads (ps_crm s)). l_deletedAt l = None \<and> in_lead_scope orgs user l \<and>
      asked_for like ms now (withSubProducts (ma_products ms) q) s l}"
  let ?item = "toLeadListItem bullet ms now s"
  have wanted: "set ?rows = ?wanted" by (simp add: leads_found_def buildWhere_def)
  have d: "distinct (map l_id ?rows)" unfolding leads_found_def by (rule distinct_map_filter [OF assms(4)])
  have size: "length ?rows = card ?wanted"
    unfolding wanted [symmetric] using distinct_card [OF distinct_of_map [OF d]] by simp
  have len: "length (?sorted n) = length ?rows" and set: "set (?sorted n) = set ?rows"
    and ds: "distinct (map l_id (?sorted n))" for n
  proof -
    show "length (?sorted n) = length ?rows" using assms(1) by (metis size_mset)
    show "set (?sorted n) = set ?rows" using assms(1) by (metis set_mset_mset)
    show "distinct (map l_id (?sorted n))" using d assms(1) by (metis mset_map mset_eq_imp_distinct_iff)
  qed
  have ids: "map li_id (map ?item xs) = map l_id xs" for xs by (simp add: toLeadListItem_def)
  have items: "pg_items (?answer n) = map ?item (page_of n (q_pageSize q) (?sorted n))" for n
    by (simp add: list_leads_def paginate_def Let_def)
  have pages: "pg_totalPages (?answer 1) = (length ?rows + q_pageSize q - 1) div q_pageSize q"
    using assms(3) by (simp add: list_leads_def paginate_def Let_def)
  have each: "distinct (map li_id (pg_items (?answer n))) \<and> set (map li_id (pg_items (?answer n))) \<subseteq> l_id ` ?wanted \<and>
      length (pg_items (?answer n)) = min (q_pageSize q) (card ?wanted - (n - 1) * q_pageSize q) \<and>
      pg_total (?answer n) = card ?wanted" for n
  proof (intro conjI)
    show "distinct (map li_id (pg_items (?answer n)))" unfolding items ids by (rule page_of_part(1) [OF ds])
    show "set (map li_id (pg_items (?answer n))) \<subseteq> l_id ` ?wanted"
      unfolding items ids set_map wanted [symmetric] set [of n, symmetric] by (rule image_mono [OF page_of_part(2)])
    show "length (pg_items (?answer n)) = min (q_pageSize q) (card ?wanted - (n - 1) * q_pageSize q)"
      unfolding items length_map page_of_part(3) len size ..
    show "pg_total (?answer n) = card ?wanted" by (simp add: list_leads_def paginate_def Let_def size)
  qed
  have whole: "distinct ids \<and> set ids = l_id ` ?wanted"
    if inj: "inj_on key ?wanted" and ids_def: "ids = map li_id (concat (map (\<lambda>n. pg_items (?answer n)) [1..<Suc (pg_totalPages (?answer 1))]))" for ids
  proof -
    have one: "?sorted n = ?sorted 1" for n
      by (rule sorted_once [where key = key and descending = "q_descending q"])
        (use inj assms(1,2) distinct_of_map [OF ds] in \<open>simp_all add: set wanted\<close>)
    have first: "pg_items (?answer n) = map ?item (page_of n (q_pageSize q) (?sorted 1))" for n
      by (simp only: items one [of n])
    have "concat (map (\<lambda>n. pg_items (?answer n)) [1..<Suc (pg_totalPages (?answer 1))]) =
        map ?item (concat (map (\<lambda>n. page_of n (q_pageSize q) (?sorted 1)) [1..<Suc (pg_totalPages (?answer 1))]))"
      unfolding first map_concat map_map o_def ..
    also have "\<dots> = map ?item (?sorted 1)"
      unfolding pages len [of 1, symmetric] pages_are_all [OF assms(3)] ..
    finally have "ids = map l_id (?sorted 1)" unfolding ids_def ids [symmetric] by simp
    then show ?thesis using ds [of 1] set [of 1] wanted by simp
  qed
  show ?thesis unfolding Let_def using each whole by blast
qed

lemma group_count: "map_of (group_counts key rows) k = (if k \<in> key ` set rows then Some (count_where (\<lambda>r. key r = k) rows) else None)"
  by (simp add: group_counts_def map_of_map_restrict restrict_map_def)

lemma group_count_or_zero:
  "(case map_of (group_counts key rows) k of None \<Rightarrow> 0 | Some n \<Rightarrow> n) = count_where (\<lambda>r. key r = k) rows"
  by (auto simp: group_count count_where_0_iff)

lemma statuses_sum: "sum_list (map (\<lambda>status. count_where (\<lambda>r. f r = status) rows) BOARD_STATUSES) = length rows"
proof (induction rows)
  case Nil
  then show ?case by (simp add: BOARD_STATUSES_def count_where_def)
next
  case (Cons r rows)
  then show ?case by (cases "f r") (simp_all add: BOARD_STATUSES_def count_where_def)
qed



section \<open>The board of products\<close>

lemma sum_counts_append: "sum_counts (xs @ ys) = sum_counts xs + sum_counts ys"
  by (simp add: sum_counts_sum)

lemma product_headers:
  "productPipeline like ms orgs user now q s =
    (map (\<lambda>status. (status, count_where (\<lambda>p. lp_status p = status) (products_found like ms orgs user now q s) +
                            count_where (\<lambda>l. l_status l = status) (without_products like ms orgs user now q s))) BOARD_STATUSES,
     length (products_found like ms orgs user now q s) + length (without_products like ms orgs user now q s))"
  by (simp add: productPipeline_def Let_def sum_counts_append sum_filtered_groups sum_groups)

text \<open>
  Without a product in the filter the header of a column exceeds the column by the leads that have no
  products: they are counted under their own status, and no column shows them.
\<close>

lemma product_header_and_column:
  assumes "q_productInterest q = []" and "(status, n) \<in> set (fst (productPipeline like ms orgs user now q s))"
  shows "n = snd (productBoardColumn order like ms orgs user now status q s) +
    count_where (\<lambda>l. l_status l = status) (without_products like ms orgs user now q s)"
proof -
  have "product_asked (withSubProducts (ma_products ms) q) p" for p
    using assms(1) by (simp add: product_asked_def withSubProducts_def)
  then show ?thesis using assms(2) by (auto simp: product_headers productBoardColumn_def Let_def count_where_def)
qed

section \<open>A number being typed\<close>

lemma ranks: "status_rank NEW = 0" "status_rank CONTACTED = 1" "status_rank QUALIFIED = 2" "status_rank PROPOSAL = 3"
  "status_rank CONVERTED = 4" "status_rank LOST = 5" "status_rank DISQUALIFIED = 6"
  by (simp_all add: status_rank_def BOARD_STATUSES_def)

lemma open_ranks: "l_status l \<notin> set CLOSED_LEAD_STATUSES \<longleftrightarrow> status_rank (l_status l) \<le> 3"
  by (cases "l_status l") (simp_all add: ranks CLOSED_LEAD_STATUSES_def)

lemma open_first_rank: "open_first a b \<le> 0 \<Longrightarrow> status_rank (l_status a) \<le> status_rank (l_status b)"
  by (auto simp: open_first_def cmp_or_def int_asc_def split: if_splits)

lemma first_is_open:
  assumes "js_sort open_first ls = l # rest" and "x \<in> set ls" "l_status x \<notin> set CLOSED_LEAD_STATUSES"
  shows "l_status l \<notin> set CLOSED_LEAD_STATUSES"
  using open_first_rank [OF open_first.hd_js_sort_least [OF assms(2)]] assms(1,3) unfolding open_ranks by simp

text \<open>
  C37. The check of a number says no more than it may. It says that the number is on the book exactly
  when a live lead other than the one being edited carries it; it describes a lead only when that lead
  is in the caller's scope, and then an open one if any is open; and to somebody who may see none of
  the leads with the number it answers the same whoever they belong to.
\<close>

theorem check_says_no_more:
  "let a = checkMobile ms orgs user input s; same = filter (same_number input) (cr_leads s)
   in (dm_exists a \<longleftrightarrow> same \<noteq> []) \<and>
      (dm_visible a \<longleftrightarrow> dm_lead a \<noteq> None) \<and>
      (\<forall>k. dm_lead a = Some k \<longrightarrow> (\<exists>l \<in> set same. in_lead_scope orgs user l \<and> k = known_lead_of ms l) \<and>
         ((\<exists>l \<in> set same. l_status l \<notin> set CLOSED_LEAD_STATUSES) \<longrightarrow> kl_isOpen k)) \<and>
      ((\<forall>l \<in> set same. \<not> in_lead_scope orgs user l) \<longrightarrow>
         a = \<lparr>dm_exists = (same \<noteq> []), dm_visible = False, dm_lead = None\<rparr>)"
proof -
  let ?same = "filter (same_number input) (cr_leads s)"
  show ?thesis
  proof (cases "js_sort open_first ?same")
    case Nil
    then have "?same = []" by (metis js_sort_Nil_iff)
    then show ?thesis using Nil unfolding checkMobile_def Let_def by simp
  next
    case (Cons l rest)
    have l: "l \<in> set ?same" using set_js_sort [of open_first ?same] Cons by (metis list.set_intros(1))
    then have ne: "?same \<noteq> []" by (metis empty_iff list.set(1))
    have opened: "kl_isOpen (known_lead_of ms l)" if "x \<in> set ?same" "l_status x \<notin> set CLOSED_LEAD_STATUSES" for x
      using first_is_open [OF Cons that] by (simp add: known_lead_of_def)
    have answer: "checkMobile ms orgs user input s =
        (if \<not> in_lead_scope orgs user l then \<lparr>dm_exists = True, dm_visible = False, dm_lead = None\<rparr>
         else \<lparr>dm_exists = True, dm_visible = True, dm_lead = Some (known_lead_of ms l)\<rparr>)"
      unfolding checkMobile_def Cons list.case ..
    show ?thesis
    proof (cases "in_lead_scope orgs user l")
      case True
      then have a: "checkMobile ms orgs user input s = \<lparr>dm_exists = True, dm_visible = True, dm_lead = Some (known_lead_of ms l)\<rparr>"
        unfolding answer by simp
      show ?thesis unfolding a Let_def using True l ne opened by (auto simp del: set_filter filter_empty_conv)
    next
      case False
      then have a: "checkMobile ms orgs user input s = \<lparr>dm_exists = True, dm_visible = False, dm_lead = None\<rparr>"
        unfolding answer by simp
      show ?thesis unfolding a Let_def using ne by (simp del: set_filter filter_empty_conv)
    qed
  qed
qed


section \<open>Examples\<close>

definition demo_query :: lead_query where
  "demo_query = \<lparr>q_q = None, q_status = [], q_source = [], q_productInterest = [], q_priority = None, q_ownerId = None, q_partnerId = None,
     q_campaignId = None, q_eventId = None, q_attendedEventId = None, q_capturedById = None, q_owned = None, q_captured = None,
     q_returningAtEventId = None, q_overdueOnly = False, q_createdFrom = None, q_createdTo = None, q_minScore = None,
     q_mobileVerified = None, q_page = 1, q_pageSize = 1, q_sortBy = Some ''score'', q_descending = True\<rparr>"

definition demo_masters :: masters where
  "demo_masters = \<lparr>ma_people = [demo_account ''u1''], ma_products = [], ma_campaigns = []\<rparr>"

definition demo_row :: "string \<Rightarrow> string \<Rightarrow> string \<Rightarrow> lead_status \<Rightarrow> lead_row" where
  "demo_row i owner mobile status = (hd (cr_leads demo_lead_state))\<lparr>l_id := i, l_ownerId := Some owner, l_mobile := mobile, l_status := status\<rparr>"

definition demo_book :: event_state where
  "demo_book = demo_stall\<lparr>ps_crm := demo_lead_state\<lparr>cr_leads :=
     [demo_row ''l1'' ''u1'' ''9811111111'' NEW, demo_row ''l2'' ''u1'' ''9822222222'' LOST, demo_row ''l3'' ''u9'' ''9822222222'' LOST,
      demo_row ''l4'' ''u9'' ''9833333333'' QUALIFIED]\<rparr>\<rparr>"

definition exact_search :: text_search where
  "exact_search insensitive term text \<longleftrightarrow> term = text"

definition demo_pages :: "nat \<Rightarrow> lead_list_item paginated" where
  "demo_pages n = list_leads (\<lambda>_ _ rows. rows) exact_search CHR ''*'' demo_masters [] demo_rep 0 (demo_query\<lparr>q_page := n\<rparr>) demo_book"

lemma demo_pages_run:
  "map li_id (concat (map (\<lambda>n. pg_items (demo_pages n)) [1..<Suc (pg_totalPages (demo_pages 1))])) = [''l1'', ''l2''] \<and>
   distinct (map l_id (cr_leads (ps_crm demo_book)))"
  by code_simp

lemma pages_are_the_scope_witness:
  "pg_total (demo_pages 7) = 2 \<and> {l_id l |l. l \<in> set (cr_leads (ps_crm demo_book)) \<and> in_lead_scope [] demo_rep l \<and>
     l_deletedAt l = None \<and> asked_for exact_search demo_masters 0 (withSubProducts [] demo_query) demo_book l} = {''l1'', ''l2''}"
proof -
  let ?key = "\<lambda>l. if l_id l = ''l1'' then (if q_descending demo_query then 1 else 0) else (if q_descending demo_query then 0 else 1 :: nat)"
  let ?wanted = "{l \<in> set (cr_leads (ps_crm demo_book)). l_deletedAt l = None \<and> in_lead_scope [] demo_rep l \<and>
      asked_for exact_search demo_masters 0 (withSubProducts (ma_products demo_masters) demo_query) demo_book l}"
  have size: "0 < q_pageSize demo_query" by (simp add: demo_query_def)
  have m: "ma_products demo_masters = []" by (simp add: demo_masters_def)
  have found: "map l_id (leads_found exact_search demo_masters [] demo_rep 0 demo_query demo_book) = [''l1'', ''l2'']" by code_simp
  then obtain a b where two: "leads_found exact_search demo_masters [] demo_rep 0 demo_query demo_book = [a, b]"
    "l_id a = ''l1''" "l_id b = ''l2''" by auto
  have sorted: "sorted (map ?key (if q_descending demo_query
      then rev (leads_found exact_search demo_masters [] demo_rep 0 demo_query demo_book)
      else leads_found exact_search demo_masters [] demo_rep 0 demo_query demo_book))"
    by (simp add: two)
  have "?wanted = set (leads_found exact_search demo_masters [] demo_rep 0 demo_query demo_book)"
    by (simp add: leads_found_def buildWhere_def)
  then have pair: "?wanted = {a, b}" unfolding two(1) by simp
  have inj: "inj_on ?key ?wanted" unfolding pair by (auto simp: two inj_on_def)
  note all = pages_are_the_scope [of "\<lambda>_ _ _ rows. rows", OF refl sorted size demo_pages_run [THEN conjunct2], of "CHR ''*''",
      folded demo_pages_def, unfolded Let_def demo_pages_run [THEN conjunct1]]
  have ids: "set [''l1'', ''l2''] = l_id ` ?wanted" using all inj by blast
  then have "{l_id l |l. l \<in> set (cr_leads (ps_crm demo_book)) \<and> in_lead_scope [] demo_rep l \<and>
     l_deletedAt l = None \<and> asked_for exact_search demo_masters 0 (withSubProducts [] demo_query) demo_book l} = {''l1'', ''l2''}"
    unfolding m by auto
  moreover have "pg_total (demo_pages 7) = card ?wanted" using all by blast
  moreover have "card ?wanted = 2" unfolding pair using two(2,3) by (cases "a = b") auto
  ultimately show ?thesis by simp
qed


lemma check_says_no_more_witness:
  "dm_lead (checkMobile demo_masters [] demo_rep \<lparr>cm_mobile = ''9833333333'', cm_excludeLeadId = None\<rparr> (ps_crm demo_book)) = None \<and>
   dm_exists (checkMobile demo_masters [] demo_rep \<lparr>cm_mobile = ''9833333333'', cm_excludeLeadId = None\<rparr> (ps_crm demo_book)) \<and>
   dm_lead (checkMobile demo_masters [] demo_rep \<lparr>cm_mobile = ''9822222222'', cm_excludeLeadId = None\<rparr> (ps_crm demo_book)) \<noteq> None"
proof -
  let ?hidden = "\<lparr>cm_mobile = ''9833333333'', cm_excludeLeadId = None\<rparr>"
  have hidden: "filter (same_number ?hidden) (cr_leads (ps_crm demo_book)) \<noteq> [] \<and>
      list_all (\<lambda>l. \<not> in_lead_scope [] demo_rep l) (filter (same_number ?hidden) (cr_leads (ps_crm demo_book)))" by code_simp
  then have none: "\<forall>l \<in> set (filter (same_number ?hidden) (cr_leads (ps_crm demo_book))). \<not> in_lead_scope [] demo_rep l"
    unfolding list_all_iff by (rule conjunct2)
  note answer = check_says_no_more [of demo_masters "[]" demo_rep ?hidden "ps_crm demo_book", unfolded Let_def,
      THEN conjunct2, THEN conjunct2, THEN conjunct2, THEN mp, OF none]
  have "dm_lead (checkMobile demo_masters [] demo_rep ?hidden (ps_crm demo_book)) = None \<and> dm_exists (checkMobile demo_masters [] demo_rep ?hidden (ps_crm demo_book))"
    unfolding answer using hidden [THEN conjunct1] by (simp only: duplicate_match.simps simp_thms)
  moreover have "dm_lead (checkMobile demo_masters [] demo_rep \<lparr>cm_mobile = ''9822222222'', cm_excludeLeadId = None\<rparr> (ps_crm demo_book)) \<noteq> None"
    by code_simp
  ultimately show ?thesis by blast
qed

text \<open>
  With a product in the filter, the header of a column counts every product of the leads that ask for
  it, and the column shows only the product asked for.
\<close>

definition demo_asking :: lead_query where
  "demo_asking = demo_query\<lparr>q_productInterest := [''EQ'']\<rparr>"

lemma product_header_exceeds_column:
  "map_of (fst (productPipeline exact_search demo_masters [] demo_rep 0 demo_asking demo_book)) NEW = Some 2"
  "snd (productBoardColumn (\<lambda>rows. rows) exact_search demo_masters [] demo_rep 0 NEW demo_asking demo_book) = 1"
  by code_simp+

text \<open>\<open>overdueOnly=false\<close> in the address asks for overdue leads only: every text but the empty one is true.\<close>

lemma overdue_false_is_true: "coerce_boolean (Some ''false'')"
  by code_simp

end
