(* ===== verification/Masters.thy ===== *)
theory Masters
  imports LeadBook Visits
begin

text \<open>
  The lists an administrator edits, and the check of meeting links: \<open>packages/contracts/src/masters.ts\<close>
  and \<open>apps/api/src/modules/masters/masters.service.ts\<close>. Sources and products are read through a cache
  that every write drops; the cache is part of the state, and a read that loads it is split where the
  code waits for the database, so that reads and writes can interleave.
\<close>

section \<open>Rows\<close>

record source_entry =
  so_id :: string
  so_code :: string
  so_label :: string
  so_description :: "string option"
  so_scoringWeight :: int
  so_isActive :: bool
  so_isSystem :: bool
  so_sortOrder :: int

record product_entry =
  pe_id :: string
  pe_code :: string
  pe_name :: string
  pe_parentId :: "string option"
  pe_summary :: "string option"
  pe_description :: "string option"
  pe_keyBenefits :: "string list"
  pe_chargesSummary :: "string option"
  pe_eligibility :: "string option"
  pe_riskNote :: "string option"
  pe_brochureKey :: "string option"
  pe_isActive :: bool
  pe_isSystem :: bool
  pe_sortOrder :: int

record status_entry = task_status_master +
  te_id :: string
  te_label :: string
  te_meaning :: "string option"
  te_isSystem :: bool
  te_sortOrder :: int

record mode_entry = meeting_mode +
  me_id :: string
  me_label :: string
  me_meaning :: "string option"
  me_createsVisit :: bool
  me_isSystem :: bool
  me_sortOrder :: int

record masters_state =
  xs_sources :: "source_entry list"
  xs_products :: "product_entry list"
  xs_statuses :: "status_entry list"
  xs_modes :: "mode_entry list"
  xs_productValues :: "string list"
  xs_crm :: crm
  xs_sourceWeights :: "(string \<times> int) list option"
  xs_activeProductCodes :: "string list option"
  xs_activeSourceCodes :: "string list option"

text \<open>\<open>xs_productValues\<close> are the product codes that activities refer to.\<close>

interpretation source_table: repository "find_by so_id" "update_by so_id" insert_row so_id
  by (rule repository_by)

interpretation product_rows: repository "find_by pe_id" "update_by pe_id" insert_row pe_id
  by (rule repository_by)

interpretation status_table: repository "find_by te_id" "update_by te_id" insert_row te_id
  by (rule repository_by)

interpretation mode_table: repository "find_by me_id" "update_by me_id" insert_row me_id
  by (rule repository_by)

definition master_audit :: "string \<Rightarrow> string \<Rightarrow> string \<Rightarrow> masters_state \<Rightarrow> masters_state" where
  "master_audit action resource i s =
    s\<lparr>xs_crm := (xs_crm s)\<lparr>cr_audit := insert_row (audit_entry action resource i) (cr_audit (xs_crm s))\<rparr>\<rparr>"

definition invalidate :: "masters_state \<Rightarrow> masters_state" where
  "invalidate s = s\<lparr>xs_sourceWeights := None, xs_activeProductCodes := None, xs_activeSourceCodes := None\<rparr>"

section \<open>The cached reads\<close>

definition weights_of :: "source_entry list \<Rightarrow> (string \<times> int) list" where
  "weights_of rows = map (\<lambda>r. (so_code r, so_scoringWeight r)) rows"

definition active_sources :: "source_entry list \<Rightarrow> string list" where
  "active_sources rows = map so_code (filter so_isActive rows)"

definition active_products :: "product_entry list \<Rightarrow> string list" where
  "active_products rows = map pe_code (filter pe_isActive rows)"

text \<open>\<open>new Map(pairs)\<close> keeps the last value of a key.\<close>

definition weightFor :: "string \<Rightarrow> masters_state \<Rightarrow> int option \<times> masters_state" where
  "weightFor code s =
    (let s = (if xs_sourceWeights s = None then s\<lparr>xs_sourceWeights := Some (weights_of (xs_sources s))\<rparr> else s)
     in (map_of (rev (the (xs_sourceWeights s))) code, s))"

definition load_sources :: "masters_state \<Rightarrow> masters_state" where
  "load_sources s = (if xs_activeSourceCodes s = None then s\<lparr>xs_activeSourceCodes := Some (active_sources (xs_sources s))\<rparr> else s)"

definition load_products :: "masters_state \<Rightarrow> masters_state" where
  "load_products s = (if xs_activeProductCodes s = None then s\<lparr>xs_activeProductCodes := Some (active_products (xs_products s))\<rparr> else s)"

definition firstUsableSource :: "string option list \<Rightarrow> masters_state \<Rightarrow> string option \<times> masters_state" where
  "firstUsableSource preferred s =
    (let s = load_sources s
     in (case find (\<lambda>code. truthy code \<and> the code \<in> set (the (xs_activeSourceCodes s))) preferred of None \<Rightarrow> None | Some code \<Rightarrow> code, s))"

definition assertValid :: "string option \<Rightarrow> string list \<Rightarrow> masters_state \<Rightarrow> unit result \<times> masters_state" where
  "assertValid source products s =
    (let s = (if truthy source then load_sources s else s)
     in if truthy source \<and> the source \<notin> set (the (xs_activeSourceCodes s)) then (Inl (BadRequest ''Unknown source''), s)
        else if products = [] then (Inr (), s)
        else
          let s = load_products s
          in (if filter (\<lambda>code. code \<notin> set (the (xs_activeProductCodes s))) products = [] then Inr ()
              else Inl (BadRequest ''Unknown product''), s))"

section \<open>Sources\<close>

definition canDeleteMasterRow :: "bool \<Rightarrow> nat \<Rightarrow> bool" where
  "canDeleteMasterRow isSystem users \<longleftrightarrow> \<not> isSystem \<and> \<not> 0 < users"

record create_source_input =
  nso_code :: string
  nso_label :: string
  nso_description :: "string option"
  nso_scoringWeight :: int
  nso_sortOrder :: int

definition MAX_SOURCE_WEIGHT :: int where
  "MAX_SOURCE_WEIGHT = 25"

definition source_weight_ok :: "int \<Rightarrow> bool" where
  "source_weight_ok w \<longleftrightarrow> 0 \<le> w \<and> w \<le> MAX_SOURCE_WEIGHT"

definition createSource :: "string \<Rightarrow> create_source_input \<Rightarrow> masters_state \<Rightarrow> masters_state result" where
  "createSource newId i s =
    (if find_by so_code (nso_code i) (xs_sources s) \<noteq> None then Inl (Conflict ''That code is taken'')
     else Inr (master_audit ''CREATE'' ''master.lead_source'' newId (invalidate (s\<lparr>xs_sources := insert_row
       \<lparr>so_id = newId, so_code = nso_code i, so_label = nso_label i, so_description = nso_description i,
        so_scoringWeight = nso_scoringWeight i, so_isActive = True, so_isSystem = False, so_sortOrder = nso_sortOrder i\<rparr>
       (xs_sources s)\<rparr>))))"

record update_source_input =
  uso_label :: "string option"
  uso_description :: "string option option"
  uso_scoringWeight :: "int option"
  uso_isActive :: "bool option"
  uso_sortOrder :: "int option"

definition edit_source :: "update_source_input \<Rightarrow> source_entry \<Rightarrow> source_entry" where
  "edit_source i r = r\<lparr>so_label := given (uso_label i) (so_label r), so_description := given (uso_description i) (so_description r),
     so_scoringWeight := given (uso_scoringWeight i) (so_scoringWeight r), so_isActive := given (uso_isActive i) (so_isActive r),
     so_sortOrder := given (uso_sortOrder i) (so_sortOrder r)\<rparr>"

definition updateSource :: "string \<Rightarrow> update_source_input \<Rightarrow> masters_state \<Rightarrow> masters_state result" where
  "updateSource i input s =
    (if find_by so_id i (xs_sources s) = None then Inl (NotFound ''Source not found'')
     else Inr (master_audit ''UPDATE'' ''master.lead_source'' i
       (invalidate (s\<lparr>xs_sources := update_by so_id i (edit_source input) (xs_sources s)\<rparr>))))"

definition deleteSource :: "string \<Rightarrow> masters_state \<Rightarrow> masters_state result" where
  "deleteSource i s =
    (case find_by so_id i (xs_sources s) of
       None \<Rightarrow> Inl (NotFound ''Source not found'')
     | Some row \<Rightarrow>
         if \<not> canDeleteMasterRow (so_isSystem row) (count_where (\<lambda>l. l_source l = so_code row) (cr_leads (xs_crm s)))
         then Inl (BadRequest ''Cannot delete'')
         else Inr (master_audit ''DELETE'' ''master.lead_source'' i (invalidate (s\<lparr>xs_sources := delete_by so_id i (xs_sources s)\<rparr>))))"

section \<open>Products\<close>

record create_product_input =
  npe_code :: string
  npe_name :: string
  npe_parentId :: "string option"
  npe_summary :: "string option"
  npe_description :: "string option"
  npe_keyBenefits :: "string list"
  npe_chargesSummary :: "string option"
  npe_eligibility :: "string option"
  npe_riskNote :: "string option"
  npe_sortOrder :: int

definition new_product :: "string \<Rightarrow> create_product_input \<Rightarrow> product_entry" where
  "new_product newId i =
    \<lparr>pe_id = newId, pe_code = npe_code i, pe_name = npe_name i, pe_parentId = npe_parentId i,
     pe_summary = npe_summary i, pe_description = npe_description i, pe_keyBenefits = npe_keyBenefits i,
     pe_chargesSummary = npe_chargesSummary i, pe_eligibility = npe_eligibility i, pe_riskNote = npe_riskNote i,
     pe_brochureKey = None, pe_isActive = True, pe_isSystem = False, pe_sortOrder = npe_sortOrder i\<rparr>"

definition createProduct :: "string \<Rightarrow> create_product_input \<Rightarrow> masters_state \<Rightarrow> masters_state result" where
  "createProduct newId i s =
    (if find_by pe_code (npe_code i) (xs_products s) \<noteq> None then Inl (Conflict ''That code is taken'')
     else
       let parent = (if truthy (npe_parentId i) then find_by pe_id (the (npe_parentId i)) (xs_products s) else None)
       in if truthy (npe_parentId i) \<and> parent = None then Inl (NotFound ''Parent product not found'')
          else if truthy (npe_parentId i) \<and> truthy (pe_parentId (the parent)) then Inl (Conflict ''Only two levels are supported'')
          else Inr (master_audit ''CREATE'' ''master.product'' newId (invalidate (s\<lparr>xs_products := insert_row (new_product newId i) (xs_products s)\<rparr>))))"

record update_product_input =
  upe_name :: "string option"
  upe_summary :: "string option option"
  upe_description :: "string option option"
  upe_keyBenefits :: "string list option"
  upe_chargesSummary :: "string option option"
  upe_eligibility :: "string option option"
  upe_riskNote :: "string option option"
  upe_brochureKey :: "string option option"
  upe_isActive :: "bool option"
  upe_sortOrder :: "int option"

definition edit_product :: "update_product_input \<Rightarrow> product_entry \<Rightarrow> product_entry" where
  "edit_product i r = r\<lparr>pe_name := given (upe_name i) (pe_name r), pe_summary := given (upe_summary i) (pe_summary r),
     pe_description := given (upe_description i) (pe_description r), pe_keyBenefits := given (upe_keyBenefits i) (pe_keyBenefits r),
     pe_chargesSummary := given (upe_chargesSummary i) (pe_chargesSummary r), pe_eligibility := given (upe_eligibility i) (pe_eligibility r),
     pe_riskNote := given (upe_riskNote i) (pe_riskNote r), pe_brochureKey := given (upe_brochureKey i) (pe_brochureKey r),
     pe_isActive := given (upe_isActive i) (pe_isActive r), pe_sortOrder := given (upe_sortOrder i) (pe_sortOrder r)\<rparr>"

definition updateProduct :: "string \<Rightarrow> update_product_input \<Rightarrow> masters_state \<Rightarrow> masters_state result" where
  "updateProduct i input s =
    (if find_by pe_id i (xs_products s) = None then Inl (NotFound ''Product not found'')
     else Inr (master_audit ''UPDATE'' ''master.product'' i
       (invalidate (s\<lparr>xs_products := update_by pe_id i (edit_product input) (xs_products s)\<rparr>))))"

text \<open>What the foreign keys restrict: rows of a lead's products, values on activities, and sub-products.\<close>

definition product_in_use :: "product_entry \<Rightarrow> masters_state \<Rightarrow> bool" where
  "product_in_use row s \<longleftrightarrow> list_ex (\<lambda>p. lp_code p = pe_code row) (cr_products (xs_crm s)) \<or> pe_code row \<in> set (xs_productValues s) \<or>
     list_ex (\<lambda>p. pe_parentId p = Some (pe_id row)) (xs_products s)"

definition deleteProduct :: "string \<Rightarrow> masters_state \<Rightarrow> masters_state result" where
  "deleteProduct i s =
    (case find_by pe_id i (xs_products s) of
       None \<Rightarrow> Inl (NotFound ''Product not found'')
     | Some row \<Rightarrow>
         if \<not> canDeleteMasterRow (pe_isSystem row)
              (count_where (\<lambda>l. l_deletedAt l = None \<and> pe_code row \<in> set (l_productInterest l)) (cr_leads (xs_crm s)))
         then Inl (BadRequest ''Cannot delete'')
         else if product_in_use row s then Inl (Conflict ''Related record missing or still in use'')
         else Inr (master_audit ''DELETE'' ''master.product'' i (invalidate (s\<lparr>xs_products := delete_by pe_id i (xs_products s)\<rparr>))))"

text \<open>The filter of the client, over the items the service lists.\<close>

definition childCodes :: "product_entry list \<Rightarrow> product_entry \<Rightarrow> string list" where
  "childCodes rows p = map pe_code (filter (\<lambda>c. pe_parentId c = Some (pe_id p)) rows)"

definition product_items :: "product_entry list \<Rightarrow> (string \<times> string list) list" where
  "product_items rows = map (\<lambda>p. (pe_code p, childCodes rows p)) rows"

definition expandProductCodes :: "string list \<Rightarrow> (string \<times> string list) list \<Rightarrow> string list" where
  "expandProductCodes selected products =
    js_set (concat (map (\<lambda>code. code # (case map_of (rev products) code of None \<Rightarrow> [] | Some children \<Rightarrow> children)) selected))"

section \<open>Task statuses and meeting modes\<close>

record create_status_input =
  nte_code :: string
  nte_label :: string
  nte_meaning :: "string option"
  nte_category :: task_category
  nte_sortOrder :: int

definition createTaskStatus :: "string \<Rightarrow> create_status_input \<Rightarrow> masters_state \<Rightarrow> masters_state result" where
  "createTaskStatus newId i s =
    (if find_by tm_code (nte_code i) (xs_statuses s) \<noteq> None then Inl (Conflict ''That code is taken'')
     else Inr (master_audit ''CREATE'' ''master.taskStatus'' newId (invalidate (s\<lparr>xs_statuses := insert_row
       \<lparr>tm_code = nte_code i, tm_category = nte_category i, tm_isActive = True, te_id = newId, te_label = nte_label i,
        te_meaning = nte_meaning i, te_isSystem = False, te_sortOrder = nte_sortOrder i\<rparr> (xs_statuses s)\<rparr>))))"

definition canDeactivateTaskStatus :: "string \<Rightarrow> task_category \<Rightarrow> bool \<Rightarrow> status_entry list \<Rightarrow> bool" where
  "canDeactivateTaskStatus code category isActive everyone \<longleftrightarrow>
    (if \<not> isActive then True
     else filter (\<lambda>t. tm_category t = category \<and> tm_code t \<noteq> code \<and> tm_isActive t) everyone \<noteq> [])"

record update_status_input =
  ute_label :: "string option"
  ute_meaning :: "string option option"
  ute_isActive :: "bool option"
  ute_sortOrder :: "int option"

definition edit_status :: "update_status_input \<Rightarrow> status_entry \<Rightarrow> status_entry" where
  "edit_status i r = r\<lparr>te_label := given (ute_label i) (te_label r), te_meaning := given (ute_meaning i) (te_meaning r),
     tm_isActive := given (ute_isActive i) (tm_isActive r), te_sortOrder := given (ute_sortOrder i) (te_sortOrder r)\<rparr>"

definition updateTaskStatus :: "string \<Rightarrow> update_status_input \<Rightarrow> masters_state \<Rightarrow> masters_state result" where
  "updateTaskStatus i input s =
    (case find_by te_id i (xs_statuses s) of
       None \<Rightarrow> Inl (NotFound ''Status not found'')
     | Some before \<Rightarrow>
         if ute_isActive input = Some False \<and> tm_isActive before \<and>
            \<not> canDeactivateTaskStatus (tm_code before) (tm_category before) True (xs_statuses s)
         then Inl (Conflict ''Cannot switch that off'')
         else Inr (master_audit ''UPDATE'' ''master.taskStatus'' i
           (invalidate (s\<lparr>xs_statuses := update_by te_id i (edit_status input) (xs_statuses s)\<rparr>))))"

record create_mode_input =
  nme_code :: string
  nme_label :: string
  nme_meaning :: "string option"
  nme_requiresPhoto :: bool
  nme_requiresGeo :: bool
  nme_createsVisit :: bool
  nme_requiresLink :: bool
  nme_allowsScreenshot :: bool
  nme_sortOrder :: int

definition createMeetingMode :: "string \<Rightarrow> create_mode_input \<Rightarrow> masters_state \<Rightarrow> masters_state result" where
  "createMeetingMode newId i s =
    (if find_by mm_code (nme_code i) (xs_modes s) \<noteq> None then Inl (Conflict ''That code is taken'')
     else Inr (master_audit ''CREATE'' ''master.meetingMode'' newId (invalidate (s\<lparr>xs_modes := insert_row
       \<lparr>mm_code = nme_code i, mm_requiresPhoto = nme_requiresPhoto i, mm_requiresGeo = nme_requiresGeo i,
        mm_requiresLink = nme_requiresLink i, mm_allowsScreenshot = nme_allowsScreenshot i, mm_isActive = True,
        me_id = newId, me_label = nme_label i, me_meaning = nme_meaning i, me_createsVisit = nme_createsVisit i,
        me_isSystem = False, me_sortOrder = nme_sortOrder i\<rparr> (xs_modes s)\<rparr>))))"

record update_mode_input =
  ume_label :: "string option"
  ume_meaning :: "string option"
  ume_requiresPhoto :: "bool option"
  ume_requiresGeo :: "bool option"
  ume_createsVisit :: "bool option"
  ume_requiresLink :: "bool option"
  ume_allowsScreenshot :: "bool option"
  ume_isActive :: "bool option"
  ume_sortOrder :: "int option"

definition edit_mode :: "update_mode_input \<Rightarrow> mode_entry \<Rightarrow> mode_entry" where
  "edit_mode i r = r\<lparr>me_label := given (ume_label i) (me_label r),
     me_meaning := (case ume_meaning i of None \<Rightarrow> me_meaning r | Some m \<Rightarrow> Some m),
     mm_requiresPhoto := given (ume_requiresPhoto i) (mm_requiresPhoto r), mm_requiresGeo := given (ume_requiresGeo i) (mm_requiresGeo r),
     me_createsVisit := given (ume_createsVisit i) (me_createsVisit r), mm_requiresLink := given (ume_requiresLink i) (mm_requiresLink r),
     mm_allowsScreenshot := given (ume_allowsScreenshot i) (mm_allowsScreenshot r), mm_isActive := given (ume_isActive i) (mm_isActive r),
     me_sortOrder := given (ume_sortOrder i) (me_sortOrder r)\<rparr>"

definition updateMeetingMode :: "string \<Rightarrow> update_mode_input \<Rightarrow> masters_state \<Rightarrow> masters_state result" where
  "updateMeetingMode i input s =
    (case find_by me_id i (xs_modes s) of
       None \<Rightarrow> Inl (NotFound ''Meeting mode not found'')
     | Some before \<Rightarrow>
         if ume_isActive input = Some False \<and> mm_isActive before \<and>
            count_where (\<lambda>m. mm_isActive m \<and> me_id m \<noteq> i) (xs_modes s) = 0
         then Inl (Conflict ''Cannot switch that off'')
         else Inr (master_audit ''UPDATE'' ''master.meetingMode'' i
           (invalidate (s\<lparr>xs_modes := update_by me_id i (edit_mode input) (xs_modes s)\<rparr>))))"

section \<open>Meeting links\<close>

definition ALLOWED_MEETING_HOSTS :: "string list" where
  "ALLOWED_MEETING_HOSTS = [''meet.google.com'', ''zoom.us'', ''teams.microsoft.com'', ''teams.live.com'', ''webex.com'', ''gotomeeting.com'']"

datatype link_verdict = LINK_ALLOWED | LINK_EMPTY | NOT_A_LINK | NOT_HTTPS | HOST_NOT_ALLOWED

text \<open>The parser of URLs is the platform's: the protocol and the host name of a text, if it is one.\<close>

definition checkMeetingLink :: "(string \<Rightarrow> (string \<times> string) option) \<Rightarrow> string \<Rightarrow> link_verdict" where
  "checkMeetingLink url raw =
    (let trimmed = js_trim raw
     in if trimmed = [] then LINK_EMPTY
        else case url trimmed of
          None \<Rightarrow> NOT_A_LINK
        | Some (protocol, hostname) \<Rightarrow>
            if protocol \<noteq> ''https:'' then NOT_HTTPS
            else
              let host = to_lower hostname
              in if list_ex (\<lambda>allowed. host = allowed \<or> suffix (CHR ''.'' # allowed) host) ALLOWED_MEETING_HOSTS
                 then LINK_ALLOWED else HOST_NOT_ALLOWED)"


section \<open>The cache\<close>

text \<open>Each cache is empty or says what the table says.\<close>

definition coherent :: "masters_state \<Rightarrow> bool" where
  "coherent s \<longleftrightarrow>
    xs_sourceWeights s \<in> {None, Some (weights_of (xs_sources s))} \<and>
    xs_activeProductCodes s \<in> {None, Some (active_products (xs_products s))} \<and>
    xs_activeSourceCodes s \<in> {None, Some (active_sources (xs_sources s))}"

inductive master_read :: "masters_state \<Rightarrow> masters_state \<Rightarrow> bool" where
  read_weight: "master_read s (snd (weightFor code s))"
| read_first: "master_read s (snd (firstUsableSource preferred s))"
| read_valid: "master_read s (snd (assertValid source products s))"

inductive master_write :: "masters_state \<Rightarrow> masters_state \<Rightarrow> bool" where
  write_new_source: "createSource newId ci s = Inr s' \<Longrightarrow> newId \<notin> so_id ` set (xs_sources s) \<Longrightarrow> source_weight_ok (nso_scoringWeight ci) \<Longrightarrow>
    master_write s s'"
| write_source: "updateSource i ui s = Inr s' \<Longrightarrow> pred_option source_weight_ok (uso_scoringWeight ui) \<Longrightarrow> master_write s s'"
| delete_source: "deleteSource i s = Inr s' \<Longrightarrow> master_write s s'"
| write_new_product: "createProduct newId cp s = Inr s' \<Longrightarrow> newId \<notin> pe_id ` set (xs_products s) \<Longrightarrow> npe_parentId cp \<noteq> Some [] \<Longrightarrow> master_write s s'"
| write_product: "updateProduct i up s = Inr s' \<Longrightarrow> master_write s s'"
| delete_product: "deleteProduct i s = Inr s' \<Longrightarrow> master_write s s'"
| write_new_status: "createTaskStatus newId ct s = Inr s' \<Longrightarrow> newId \<notin> te_id ` set (xs_statuses s) \<Longrightarrow> master_write s s'"
| write_status: "updateTaskStatus i ut s = Inr s' \<Longrightarrow> master_write s s'"
| write_new_mode: "createMeetingMode newId cm s = Inr s' \<Longrightarrow> newId \<notin> me_id ` set (xs_modes s) \<Longrightarrow> master_write s s'"
| write_mode: "updateMeetingMode i um s = Inr s' \<Longrightarrow> master_write s s'"

text \<open>
  The rest of the program changes leads and activities as it likes, within the foreign keys of the
  database. The products a lead asks for are an array column no key constrains, and imports write it
  without asking the list: what is promised of it is promised of the edits of the list, below.
\<close>

definition referenced :: "masters_state \<Rightarrow> bool" where
  "referenced s \<longleftrightarrow>
    l_source ` set (cr_leads (xs_crm s)) \<subseteq> so_code ` set (xs_sources s) \<and>
    lp_code ` set (cr_products (xs_crm s)) \<subseteq> pe_code ` set (xs_products s) \<and>
    set (xs_productValues s) \<subseteq> pe_code ` set (xs_products s)"

inductive master_step :: "masters_state \<Rightarrow> masters_state \<Rightarrow> bool" where
  step_read: "master_read s s' \<Longrightarrow> master_step s s'"
| step_write: "master_write s s' \<Longrightarrow> master_step s s'"
| step_rest: "referenced (s\<lparr>xs_crm := c, xs_productValues := vs\<rparr>) \<Longrightarrow> master_step s (s\<lparr>xs_crm := c, xs_productValues := vs\<rparr>)"

lemmas write_defs = createSource_def updateSource_def deleteSource_def createProduct_def updateProduct_def deleteProduct_def
  createTaskStatus_def updateTaskStatus_def createMeetingMode_def updateMeetingMode_def

lemma audit_keeps [simp]:
  "xs_sources (master_audit a r i s) = xs_sources s" "xs_products (master_audit a r i s) = xs_products s"
  "xs_statuses (master_audit a r i s) = xs_statuses s" "xs_modes (master_audit a r i s) = xs_modes s"
  "xs_productValues (master_audit a r i s) = xs_productValues s"
  "cr_leads (xs_crm (master_audit a r i s)) = cr_leads (xs_crm s)" "cr_products (xs_crm (master_audit a r i s)) = cr_products (xs_crm s)"
  "xs_sourceWeights (master_audit a r i s) = xs_sourceWeights s" "xs_activeProductCodes (master_audit a r i s) = xs_activeProductCodes s"
  "xs_activeSourceCodes (master_audit a r i s) = xs_activeSourceCodes s"
  by (simp_all add: master_audit_def)

lemma invalidate_keeps [simp]:
  "xs_sources (invalidate s) = xs_sources s" "xs_products (invalidate s) = xs_products s"
  "xs_statuses (invalidate s) = xs_statuses s" "xs_modes (invalidate s) = xs_modes s"
  "xs_productValues (invalidate s) = xs_productValues s" "xs_crm (invalidate s) = xs_crm s"
  "xs_sourceWeights (invalidate s) = None" "xs_activeProductCodes (invalidate s) = None" "xs_activeSourceCodes (invalidate s) = None"
  by (simp_all add: invalidate_def)

lemma write_drops_cache:
  "master_write s s' \<Longrightarrow> xs_sourceWeights s' = None \<and> xs_activeProductCodes s' = None \<and> xs_activeSourceCodes s' = None"
  by (induction rule: master_write.induct) (auto simp: write_defs Let_def split: if_splits option.splits)

lemma read_keeps:
  assumes "master_read s s'"
  shows "xs_sources s' = xs_sources s \<and> xs_products s' = xs_products s \<and> xs_statuses s' = xs_statuses s \<and> xs_modes s' = xs_modes s \<and>
    xs_productValues s' = xs_productValues s \<and> xs_crm s' = xs_crm s \<and> (coherent s \<longrightarrow> coherent s')"
  using assms
proof (induction rule: master_read.induct)
  case (read_weight s code)
  then show ?case by (simp add: weightFor_def coherent_def Let_def)
next
  case (read_first s preferred)
  then show ?case by (simp add: firstUsableSource_def load_sources_def coherent_def Let_def)
next
  case (read_valid s source products)
  then show ?case
    by (cases "truthy source"; cases "products = []")
       (simp_all add: assertValid_def load_sources_def load_products_def coherent_def Let_def)
qed

lemma coherent_step: "master_step s s' \<Longrightarrow> coherent s \<Longrightarrow> coherent s'"
proof (induction rule: master_step.induct)
  case (step_read s s')
  then show ?case using read_keeps by blast
next
  case (step_write s s')
  then show ?case using write_drops_cache [OF step_write(1)] by (simp add: coherent_def)
qed (simp add: coherent_def)


section \<open>The tables\<close>

definition sources_ok :: "source_entry list \<Rightarrow> bool" where
  "sources_ok rows \<longleftrightarrow> keys_unique so_id rows \<and> keys_unique so_code rows \<and> (\<forall>r \<in> set rows. source_weight_ok (so_scoringWeight r))"

definition top_level :: "product_entry list \<Rightarrow> string \<Rightarrow> bool" where
  "top_level rows i \<longleftrightarrow> (\<exists>p \<in> set rows. pe_id p = i \<and> pe_parentId p = None)"

definition two_levels :: "product_entry list \<Rightarrow> bool" where
  "two_levels rows \<longleftrightarrow> (\<forall>p \<in> set rows. \<forall>i. pe_parentId p = Some i \<longrightarrow> i \<noteq> [] \<and> top_level rows i)"

definition products_ok :: "product_entry list \<Rightarrow> bool" where
  "products_ok rows \<longleftrightarrow> keys_unique pe_id rows \<and> keys_unique pe_code rows \<and> two_levels rows"

definition masters_ok :: "masters_state \<Rightarrow> bool" where
  "masters_ok s \<longleftrightarrow> sources_ok (xs_sources s) \<and> products_ok (xs_products s) \<and>
    (keys_unique te_id (xs_statuses s) \<and> keys_unique tm_code (xs_statuses s)) \<and>
    (keys_unique me_id (xs_modes s) \<and> keys_unique mm_code (xs_modes s)) \<and> referenced s"

definition active_status :: "masters_state \<Rightarrow> task_category \<Rightarrow> bool" where
  "active_status s c \<longleftrightarrow> (\<exists>t \<in> set (xs_statuses s). tm_category t = c \<and> tm_isActive t)"

definition active_mode :: "masters_state \<Rightarrow> bool" where
  "active_mode s \<longleftrightarrow> (\<exists>m \<in> set (xs_modes s). mm_isActive m)"

text \<open>The shipped rows and the ways to go on that a state has are those a later state still has.\<close>

definition keeps_essentials :: "masters_state \<Rightarrow> masters_state \<Rightarrow> bool" where
  "keeps_essentials s s' \<longleftrightarrow>
    (\<forall>r \<in> set (xs_sources s). so_isSystem r \<longrightarrow> (\<exists>r' \<in> set (xs_sources s'). so_id r' = so_id r \<and> so_code r' = so_code r \<and> so_isSystem r')) \<and>
    (\<forall>r \<in> set (xs_products s). pe_isSystem r \<longrightarrow> (\<exists>r' \<in> set (xs_products s'). pe_id r' = pe_id r \<and> pe_code r' = pe_code r \<and> pe_isSystem r')) \<and>
    (\<forall>c. active_status s c \<longrightarrow> active_status s' c) \<and> (active_mode s \<longrightarrow> active_mode s')"

lemma essentials_refl: "keeps_essentials s s"
  by (auto simp: keeps_essentials_def)

lemma essentials_trans: "keeps_essentials s t \<Longrightarrow> keeps_essentials t u \<Longrightarrow> keeps_essentials s u"
  unfolding keeps_essentials_def by metis

lemma essentials_same:
  "xs_sources s' = xs_sources s \<Longrightarrow> xs_products s' = xs_products s \<Longrightarrow> xs_statuses s' = xs_statuses s \<Longrightarrow> xs_modes s' = xs_modes s \<Longrightarrow>
   keeps_essentials s s'"
  by (auto simp: keeps_essentials_def active_status_def active_mode_def)

lemma edit_source_keys [simp]:
  "so_id (edit_source i r) = so_id r" "so_code (edit_source i r) = so_code r" "so_isSystem (edit_source i r) = so_isSystem r"
  "so_scoringWeight (edit_source i r) = given (uso_scoringWeight i) (so_scoringWeight r)"
  by (simp_all add: edit_source_def)

lemma edit_product_keys [simp]:
  "pe_id (edit_product i r) = pe_id r" "pe_code (edit_product i r) = pe_code r" "pe_isSystem (edit_product i r) = pe_isSystem r"
  "pe_parentId (edit_product i r) = pe_parentId r"
  by (simp_all add: edit_product_def)

lemma edit_status_keys [simp]:
  "te_id (edit_status i r) = te_id r" "tm_code (edit_status i r) = tm_code r" "tm_category (edit_status i r) = tm_category r"
  "tm_isActive (edit_status i r) = given (ute_isActive i) (tm_isActive r)"
  by (simp_all add: edit_status_def)

lemma edit_mode_keys [simp]:
  "me_id (edit_mode i r) = me_id r" "mm_code (edit_mode i r) = mm_code r"
  "mm_isActive (edit_mode i r) = given (ume_isActive i) (mm_isActive r)"
  by (simp_all add: edit_mode_def)

lemma keys_update: "(\<And>r. key' (f r) = key' r) \<Longrightarrow> key' ` set (update_by key k f rows) = key' ` set rows"
  unfolding update_by_def set_update_where image_image by (rule image_cong [OF refl]) simp

lemma in_update_by: "r \<in> set rows \<Longrightarrow> (if key r = k then f r else r) \<in> set (update_by key k f rows)"
  by (auto simp: update_by_def set_update_where)

lemma of_update_by: "r' \<in> set (update_by key k f rows) \<Longrightarrow> \<exists>r \<in> set rows. r' = (if key r = k then f r else r)"
  by (auto simp: update_by_def set_update_where)

lemma set_delete_by: "set (delete_by key k rows) = {r \<in> set rows. key r \<noteq> k}"
  by (auto simp: delete_by_def)

lemma two_levels_update: "two_levels rows \<Longrightarrow> two_levels (update_by pe_id i (edit_product up) rows)"
proof -
  assume ok: "two_levels rows"
  have top: "top_level (update_by pe_id i (edit_product up) rows) j" if tl: "top_level rows j" for j
  proof -
    obtain p where p: "p \<in> set rows" "pe_id p = j" "pe_parentId p = None" using tl by (auto simp: top_level_def)
    show ?thesis unfolding top_level_def
      by (rule bexI [OF _ in_update_by [OF p(1), of pe_id i "edit_product up"]]) (simp add: p)
  qed
  show ?thesis
    unfolding two_levels_def
  proof (intro ballI allI impI)
    fix p' j assume p': "p' \<in> set (update_by pe_id i (edit_product up) rows)" "pe_parentId p' = Some j"
    obtain p where "p \<in> set rows" "pe_parentId p = pe_parentId p'" using of_update_by [OF p'(1)] by (auto split: if_splits)
    then show "j \<noteq> [] \<and> top_level (update_by pe_id i (edit_product up) rows) j"
      using ok p'(2) top unfolding two_levels_def by metis
  qed
qed

lemma two_levels_insert:
  assumes "two_levels rows" and "\<And>i. pe_parentId p = Some i \<Longrightarrow> i \<noteq> [] \<and> top_level rows i"
  shows "two_levels (insert_row p rows)"
  using assms unfolding two_levels_def top_level_def insert_row_def by fastforce

lemma two_levels_delete:
  assumes ok: "two_levels rows" and free: "\<not> list_ex (\<lambda>p. pe_parentId p = Some i) rows"
  shows "two_levels (delete_by pe_id i rows)"
  unfolding two_levels_def set_delete_by
proof (intro ballI allI impI)
  fix p j assume p: "p \<in> {r \<in> set rows. pe_id r \<noteq> i}" "pe_parentId p = Some j"
  have "j \<noteq> i" using free p by (auto simp: list_ex_iff)
  moreover have "j \<noteq> [] \<and> top_level rows j" using ok p unfolding two_levels_def by blast
  ultimately show "j \<noteq> [] \<and> top_level (delete_by pe_id i rows) j" by (auto simp: top_level_def set_delete_by)
qed

lemma referenced_more:
  assumes "referenced s" and "so_code ` set (xs_sources s) \<subseteq> so_code ` set (xs_sources s')"
    and "pe_code ` set (xs_products s) \<subseteq> pe_code ` set (xs_products s')"
    and "cr_leads (xs_crm s') = cr_leads (xs_crm s)" "cr_products (xs_crm s') = cr_products (xs_crm s)" "xs_productValues s' = xs_productValues s"
  shows "referenced s'"
  using assms(1-3) unfolding referenced_def assms(4-6) by (meson order_trans)

lemma system_update:
  assumes "r \<in> set rows" and "sys r" and "\<And>r. idf (f r) = idf r" "\<And>r. codef (f r) = codef r" "\<And>r. sys (f r) = sys r"
  shows "\<exists>r' \<in> set (update_by key k f rows). idf r' = idf r \<and> codef r' = codef r \<and> sys r'"
  by (rule bexI [OF _ in_update_by [OF assms(1)]]) (simp add: assms)

lemma source_writes:
  "createSource newId ci s = Inr s' \<Longrightarrow> newId \<notin> so_id ` set (xs_sources s) \<Longrightarrow> source_weight_ok (nso_scoringWeight ci) \<Longrightarrow>
     masters_ok s \<Longrightarrow> masters_ok s' \<and> keeps_essentials s s'"
  "updateSource i ui s = Inr s' \<Longrightarrow> pred_option source_weight_ok (uso_scoringWeight ui) \<Longrightarrow>
     masters_ok s \<Longrightarrow> masters_ok s' \<and> keeps_essentials s s'"
  "deleteSource i s = Inr s' \<Longrightarrow> masters_ok s \<Longrightarrow> masters_ok s' \<and> keeps_essentials s s'"
proof -
  assume r: "createSource newId ci s = Inr s'" and new: "newId \<notin> so_id ` set (xs_sources s)" and w: "source_weight_ok (nso_scoringWeight ci)"
    and ok: "masters_ok s"
  have free: "nso_code ci \<notin> so_code ` set (xs_sources s)"
    using r by (auto simp: createSource_def find_by_None_iff split: if_splits)
  let ?row = "\<lparr>so_id = newId, so_code = nso_code ci, so_label = nso_label ci, so_description = nso_description ci,
    so_scoringWeight = nso_scoringWeight ci, so_isActive = True, so_isSystem = False, so_sortOrder = nso_sortOrder ci\<rparr>"
  have s': "xs_sources s' = insert_row ?row (xs_sources s)" "xs_products s' = xs_products s" "xs_statuses s' = xs_statuses s" "xs_modes s' = xs_modes s"
      "xs_productValues s' = xs_productValues s" "cr_leads (xs_crm s') = cr_leads (xs_crm s)" "cr_products (xs_crm s') = cr_products (xs_crm s)"
    using r by (auto simp: createSource_def split: if_splits)
  have "referenced s'" using ok unfolding masters_ok_def by (elim conjE) (erule referenced_more; auto simp: s' insert_row_def)
  then have "masters_ok s'"
    using ok new w free unfolding masters_ok_def sources_ok_def s' by (auto simp: keys_unique_def insert_row_def)
  moreover have "keeps_essentials s s'"
    unfolding keeps_essentials_def active_status_def active_mode_def s' by (auto simp: insert_row_def)
  ultimately show "masters_ok s' \<and> keeps_essentials s s'" ..
next
  assume r: "updateSource i ui s = Inr s'" and w: "pred_option source_weight_ok (uso_scoringWeight ui)" and ok: "masters_ok s"
  let ?rows = "update_by so_id i (edit_source ui) (xs_sources s)"
  have s': "xs_sources s' = ?rows" "xs_products s' = xs_products s" "xs_statuses s' = xs_statuses s" "xs_modes s' = xs_modes s"
      "xs_productValues s' = xs_productValues s" "cr_leads (xs_crm s') = cr_leads (xs_crm s)" "cr_products (xs_crm s') = cr_products (xs_crm s)"
    using r by (auto simp: updateSource_def split: if_splits)
  have "source_weight_ok (so_scoringWeight r')" if r': "r' \<in> set ?rows" for r'
    using of_update_by [OF r'] w ok by (cases "uso_scoringWeight ui") (auto simp: masters_ok_def sources_ok_def given_def)
  then have "masters_ok s'"
    using ok unfolding masters_ok_def sources_ok_def referenced_def s' by (simp add: keys_update)
  moreover have "keeps_essentials s s'"
    unfolding keeps_essentials_def active_status_def active_mode_def s'
    using system_update [of _ "xs_sources s" so_isSystem so_id "edit_source ui" so_code so_id i] by auto
  ultimately show "masters_ok s' \<and> keeps_essentials s s'" ..
next
  assume r: "deleteSource i s = Inr s'" and ok: "masters_ok s"
  from r obtain row where row: "find_by so_id i (xs_sources s) = Some row" "\<not> so_isSystem row"
      "count_where (\<lambda>l. l_source l = so_code row) (cr_leads (xs_crm s)) = 0"
    and s': "xs_sources s' = delete_by so_id i (xs_sources s)" "xs_products s' = xs_products s" "xs_statuses s' = xs_statuses s"
      "xs_modes s' = xs_modes s" "xs_productValues s' = xs_productValues s" "cr_leads (xs_crm s') = cr_leads (xs_crm s)"
      "cr_products (xs_crm s') = cr_products (xs_crm s)"
    by (auto simp: deleteSource_def canDeleteMasterRow_def split: option.splits if_splits)
  have only: "r \<in> set (xs_sources s) \<Longrightarrow> so_id r = i \<Longrightarrow> r = row" for r
    using find_by_SomeD [OF row(1)] ok unfolding masters_ok_def sources_ok_def keys_unique_def by (auto dest: inj_onD simp: distinct_map)
  have "l_source l \<in> so_code ` {r \<in> set (xs_sources s). so_id r \<noteq> i}" if l: "l \<in> set (cr_leads (xs_crm s))" for l
  proof -
    have "l_source l \<in> so_code ` set (xs_sources s)" using ok l unfolding masters_ok_def referenced_def by blast
    then obtain r where rr: "r \<in> set (xs_sources s)" "so_code r = l_source l" by force
    have "l_source l \<noteq> so_code row" using row(3) l by (auto simp: count_where_0_iff)
    then have "so_id r \<noteq> i" using only rr by metis
    then show ?thesis using rr by force
  qed
  then have "masters_ok s'"
    using ok unfolding masters_ok_def sources_ok_def referenced_def s' by (auto simp: set_delete_by)
  moreover have "keeps_essentials s s'"
    unfolding keeps_essentials_def active_status_def active_mode_def s' set_delete_by using only row(2) by blast
  ultimately show "masters_ok s' \<and> keeps_essentials s s'" ..
qed


lemma product_writes:
  "createProduct newId cp s = Inr s' \<Longrightarrow> newId \<notin> pe_id ` set (xs_products s) \<Longrightarrow> npe_parentId cp \<noteq> Some [] \<Longrightarrow>
     masters_ok s \<Longrightarrow> masters_ok s' \<and> keeps_essentials s s'"
  "updateProduct i up s = Inr s' \<Longrightarrow> masters_ok s \<Longrightarrow> masters_ok s' \<and> keeps_essentials s s'"
  "deleteProduct i s = Inr s' \<Longrightarrow> masters_ok s \<Longrightarrow> masters_ok s' \<and> keeps_essentials s s'"
proof -
  assume r: "createProduct newId cp s = Inr s'" and new: "newId \<notin> pe_id ` set (xs_products s)" and p: "npe_parentId cp \<noteq> Some []"
    and ok: "masters_ok s"
  have free: "npe_code cp \<notin> pe_code ` set (xs_products s)"
    using r by (auto simp: createProduct_def find_by_None_iff split: if_splits)
  let ?row = "new_product newId cp"
  have row: "pe_id ?row = newId" "pe_code ?row = npe_code cp" "pe_parentId ?row = npe_parentId cp" by (simp_all add: new_product_def)
  have s': "xs_products s' = insert_row ?row (xs_products s)" "xs_sources s' = xs_sources s" "xs_statuses s' = xs_statuses s" "xs_modes s' = xs_modes s"
      "xs_productValues s' = xs_productValues s" "cr_leads (xs_crm s') = cr_leads (xs_crm s)" "cr_products (xs_crm s') = cr_products (xs_crm s)"
    using r by (auto simp: createProduct_def Let_def split: if_splits)
  have parent: "j \<noteq> [] \<and> top_level (xs_products s) j" if j: "pe_parentId ?row = Some j" for j
  proof -
    have ne: "j \<noteq> []" using j p row(3) by simp
    then have t: "truthy (npe_parentId cp)" "the (npe_parentId cp) = j" using j row(3) by (auto simp: truthy_def)
    obtain q where q: "find_by pe_id j (xs_products s) = Some q" "\<not> truthy (pe_parentId q)"
      using r t by (auto simp: createProduct_def Let_def split: if_splits)
    have q': "q \<in> set (xs_products s)" "pe_id q = j" using find_by_SomeD [OF q(1)] by auto
    have "pe_parentId q = None"
    proof (cases "pe_parentId q")
      case (Some k)
      then have "k \<noteq> []" using ok q'(1) unfolding masters_ok_def products_ok_def two_levels_def by blast
      then show ?thesis using q(2) Some by (simp add: truthy_def)
    qed simp
    then show ?thesis using ne q' unfolding top_level_def by blast
  qed
  have "two_levels (insert_row ?row (xs_products s))"
    using ok parent unfolding masters_ok_def products_ok_def by (intro two_levels_insert) auto
  then have "masters_ok s'"
    using ok new free row unfolding masters_ok_def products_ok_def referenced_def s'
    by (auto simp: keys_unique_def insert_row_def)
  moreover have "keeps_essentials s s'"
    unfolding keeps_essentials_def active_status_def active_mode_def s' by (auto simp: insert_row_def)
  ultimately show "masters_ok s' \<and> keeps_essentials s s'" ..
next
  assume r: "updateProduct i up s = Inr s'" and ok: "masters_ok s"
  have s': "xs_products s' = update_by pe_id i (edit_product up) (xs_products s)" "xs_sources s' = xs_sources s" "xs_statuses s' = xs_statuses s"
      "xs_modes s' = xs_modes s" "xs_productValues s' = xs_productValues s" "cr_leads (xs_crm s') = cr_leads (xs_crm s)"
      "cr_products (xs_crm s') = cr_products (xs_crm s)"
    using r by (auto simp: updateProduct_def split: if_splits)
  have "masters_ok s'"
    using ok unfolding masters_ok_def products_ok_def referenced_def s' by (simp add: keys_update two_levels_update)
  moreover have "keeps_essentials s s'"
    unfolding keeps_essentials_def active_status_def active_mode_def s'
    using system_update [of _ "xs_products s" pe_isSystem pe_id "edit_product up" pe_code pe_id i] by auto
  ultimately show "masters_ok s' \<and> keeps_essentials s s'" ..
next
  assume r: "deleteProduct i s = Inr s'" and ok: "masters_ok s"
  from r obtain row where row: "find_by pe_id i (xs_products s) = Some row" "\<not> pe_isSystem row" "\<not> product_in_use row s"
    and s': "xs_products s' = delete_by pe_id i (xs_products s)" "xs_sources s' = xs_sources s" "xs_statuses s' = xs_statuses s"
      "xs_modes s' = xs_modes s" "xs_productValues s' = xs_productValues s" "cr_leads (xs_crm s') = cr_leads (xs_crm s)"
      "cr_products (xs_crm s') = cr_products (xs_crm s)"
    by (auto simp: deleteProduct_def canDeleteMasterRow_def split: option.splits if_splits)
  have rid: "pe_id row = i" using find_by_SomeD [OF row(1)] by simp
  have only: "r \<in> set (xs_products s) \<Longrightarrow> pe_id r = i \<Longrightarrow> r = row" for r
    using find_by_SomeD [OF row(1)] ok unfolding masters_ok_def products_ok_def keys_unique_def by (auto dest: inj_onD simp: distinct_map)
  have stays: "c \<in> pe_code ` {r \<in> set (xs_products s). pe_id r \<noteq> i}" if c: "c \<in> pe_code ` set (xs_products s)" "c \<noteq> pe_code row" for c
    using c only by blast
  have "lp_code p \<noteq> pe_code row" if "p \<in> set (cr_products (xs_crm s))" for p
    using row(3) that by (auto simp: product_in_use_def list_ex_iff)
  moreover have "v \<noteq> pe_code row" if "v \<in> set (xs_productValues s)" for v
    using row(3) that by (auto simp: product_in_use_def)
  moreover have "two_levels (delete_by pe_id i (xs_products s))"
    using ok row(3) rid unfolding masters_ok_def products_ok_def product_in_use_def by (intro two_levels_delete) auto
  ultimately have "masters_ok s'"
    using ok stays unfolding masters_ok_def products_ok_def referenced_def s' set_delete_by by (auto simp: image_subset_iff subset_iff)
  moreover have "keeps_essentials s s'"
    unfolding keeps_essentials_def active_status_def active_mode_def s' set_delete_by using only row(2) by blast
  ultimately show "masters_ok s' \<and> keeps_essentials s s'" ..
qed

lemma status_writes:
  "createTaskStatus newId ct s = Inr s' \<Longrightarrow> newId \<notin> te_id ` set (xs_statuses s) \<Longrightarrow> masters_ok s \<Longrightarrow> masters_ok s' \<and> keeps_essentials s s'"
  "updateTaskStatus i ut s = Inr s' \<Longrightarrow> masters_ok s \<Longrightarrow> masters_ok s' \<and> keeps_essentials s s'"
proof -
  assume r: "createTaskStatus newId ct s = Inr s'" and new: "newId \<notin> te_id ` set (xs_statuses s)" and ok: "masters_ok s"
  have free: "nte_code ct \<notin> tm_code ` set (xs_statuses s)"
    using r by (auto simp: createTaskStatus_def find_by_None_iff split: if_splits)
  let ?row = "\<lparr>tm_code = nte_code ct, tm_category = nte_category ct, tm_isActive = True, te_id = newId, te_label = nte_label ct,
    te_meaning = nte_meaning ct, te_isSystem = False, te_sortOrder = nte_sortOrder ct\<rparr>"
  have s': "xs_statuses s' = insert_row ?row (xs_statuses s)" "xs_products s' = xs_products s" "xs_sources s' = xs_sources s" "xs_modes s' = xs_modes s"
      "xs_productValues s' = xs_productValues s" "cr_leads (xs_crm s') = cr_leads (xs_crm s)" "cr_products (xs_crm s') = cr_products (xs_crm s)"
    using r by (auto simp: createTaskStatus_def split: if_splits)
  have "referenced s'" using ok unfolding masters_ok_def by (elim conjE) (erule referenced_more; simp add: s')
  then have "masters_ok s'"
    using ok new free unfolding masters_ok_def s' by (auto simp: keys_unique_def insert_row_def)
  moreover have "keeps_essentials s s'"
    unfolding keeps_essentials_def active_status_def active_mode_def s' by (auto simp: insert_row_def)
  ultimately show "masters_ok s' \<and> keeps_essentials s s'" ..
next
  assume r: "updateTaskStatus i ut s = Inr s'" and ok: "masters_ok s"
  let ?rows = "update_by te_id i (edit_status ut) (xs_statuses s)"
  from r obtain before where before: "find_by te_id i (xs_statuses s) = Some before"
      "ute_isActive ut = Some False \<Longrightarrow> tm_isActive before \<Longrightarrow> canDeactivateTaskStatus (tm_code before) (tm_category before) True (xs_statuses s)"
    and s': "xs_statuses s' = ?rows" "xs_products s' = xs_products s" "xs_sources s' = xs_sources s"
      "xs_modes s' = xs_modes s" "xs_productValues s' = xs_productValues s" "cr_leads (xs_crm s') = cr_leads (xs_crm s)"
      "cr_products (xs_crm s') = cr_products (xs_crm s)"
    by (auto simp: updateTaskStatus_def split: option.splits if_splits)
  have b: "before \<in> set (xs_statuses s)" "te_id before = i" using find_by_SomeD [OF before(1)] by auto
  have only: "t \<in> set (xs_statuses s) \<Longrightarrow> te_id t = i \<Longrightarrow> t = before" for t
    using b ok unfolding masters_ok_def keys_unique_def by (auto dest: inj_onD simp: distinct_map)
  have "active_status s' c" if a: "active_status s c" for c
  proof -
    obtain t where t: "t \<in> set (xs_statuses s)" "tm_category t = c" "tm_isActive t" using a by (auto simp: active_status_def)
    show ?thesis
    proof (cases "te_id t = i \<and> ute_isActive ut = Some False")
      case True
      then have "t = before" using only t(1) by blast
      then obtain o' where o': "o' \<in> set (xs_statuses s)" "tm_category o' = c" "tm_code o' \<noteq> tm_code before" "tm_isActive o'"
        using before(2) True t by (auto simp: canDeactivateTaskStatus_def filter_empty_conv)
      then have "te_id o' \<noteq> i" using only by blast
      then have "o' \<in> set ?rows" using in_update_by [OF o'(1), of te_id i "edit_status ut"] by simp
      then show ?thesis using o' unfolding active_status_def s' by blast
    next
      case False
      have "(if te_id t = i then edit_status ut t else t) \<in> set ?rows" by (rule in_update_by [OF t(1)])
      moreover have "tm_isActive (if te_id t = i then edit_status ut t else t)"
        using False t(3) by (cases "ute_isActive ut") (auto simp: given_def)
      moreover have "tm_category (if te_id t = i then edit_status ut t else t) = c" using t(2) by simp
      ultimately show ?thesis unfolding active_status_def s' by blast
    qed
  qed
  then have "keeps_essentials s s'" unfolding keeps_essentials_def active_mode_def s' by blast
  moreover have "masters_ok s'" using ok unfolding masters_ok_def referenced_def s' by simp
  ultimately show "masters_ok s' \<and> keeps_essentials s s'" by blast
qed

lemma mode_writes:
  "createMeetingMode newId cm s = Inr s' \<Longrightarrow> newId \<notin> me_id ` set (xs_modes s) \<Longrightarrow> masters_ok s \<Longrightarrow> masters_ok s' \<and> keeps_essentials s s'"
  "updateMeetingMode i um s = Inr s' \<Longrightarrow> masters_ok s \<Longrightarrow> masters_ok s' \<and> keeps_essentials s s'"
proof -
  assume r: "createMeetingMode newId cm s = Inr s'" and new: "newId \<notin> me_id ` set (xs_modes s)" and ok: "masters_ok s"
  have free: "nme_code cm \<notin> mm_code ` set (xs_modes s)"
    using r by (auto simp: createMeetingMode_def find_by_None_iff split: if_splits)
  let ?row = "\<lparr>mm_code = nme_code cm, mm_requiresPhoto = nme_requiresPhoto cm, mm_requiresGeo = nme_requiresGeo cm,
    mm_requiresLink = nme_requiresLink cm, mm_allowsScreenshot = nme_allowsScreenshot cm, mm_isActive = True, me_id = newId,
    me_label = nme_label cm, me_meaning = nme_meaning cm, me_createsVisit = nme_createsVisit cm, me_isSystem = False,
    me_sortOrder = nme_sortOrder cm\<rparr>"
  have s': "xs_modes s' = insert_row ?row (xs_modes s)" "xs_products s' = xs_products s" "xs_sources s' = xs_sources s" "xs_statuses s' = xs_statuses s"
      "xs_productValues s' = xs_productValues s" "cr_leads (xs_crm s') = cr_leads (xs_crm s)" "cr_products (xs_crm s') = cr_products (xs_crm s)"
    using r by (auto simp: createMeetingMode_def split: if_splits)
  have "referenced s'" using ok unfolding masters_ok_def by (elim conjE) (erule referenced_more; simp add: s')
  then have "masters_ok s'"
    using ok new free unfolding masters_ok_def s' by (auto simp: keys_unique_def insert_row_def)
  moreover have "keeps_essentials s s'"
    unfolding keeps_essentials_def active_status_def active_mode_def s' by (auto simp: insert_row_def)
  ultimately show "masters_ok s' \<and> keeps_essentials s s'" ..
next
  assume r: "updateMeetingMode i um s = Inr s'" and ok: "masters_ok s"
  let ?rows = "update_by me_id i (edit_mode um) (xs_modes s)"
  from r obtain before where before: "find_by me_id i (xs_modes s) = Some before"
      "ume_isActive um = Some False \<Longrightarrow> mm_isActive before \<Longrightarrow> count_where (\<lambda>m. mm_isActive m \<and> me_id m \<noteq> i) (xs_modes s) \<noteq> 0"
    and s': "xs_modes s' = ?rows" "xs_products s' = xs_products s" "xs_sources s' = xs_sources s"
      "xs_statuses s' = xs_statuses s" "xs_productValues s' = xs_productValues s" "cr_leads (xs_crm s') = cr_leads (xs_crm s)"
      "cr_products (xs_crm s') = cr_products (xs_crm s)"
    by (auto simp: updateMeetingMode_def split: option.splits if_splits)
  have b: "before \<in> set (xs_modes s)" "me_id before = i" using find_by_SomeD [OF before(1)] by auto
  have only: "t \<in> set (xs_modes s) \<Longrightarrow> me_id t = i \<Longrightarrow> t = before" for t
    using b ok unfolding masters_ok_def keys_unique_def by (auto dest: inj_onD simp: distinct_map)
  have "active_mode s'" if a: "active_mode s"
  proof -
    obtain t where t: "t \<in> set (xs_modes s)" "mm_isActive t" using a by (auto simp: active_mode_def)
    show ?thesis
    proof (cases "me_id t = i \<and> ume_isActive um = Some False")
      case True
      then have "t = before" using only t(1) by blast
      then obtain o' where o': "o' \<in> set (xs_modes s)" "me_id o' \<noteq> i" "mm_isActive o'"
        using before(2) True t unfolding count_where_0_iff by blast
      then have "o' \<in> set ?rows" using in_update_by [OF o'(1), of me_id i "edit_mode um"] by simp
      then show ?thesis using o' unfolding active_mode_def s' by blast
    next
      case False
      have "(if me_id t = i then edit_mode um t else t) \<in> set ?rows" by (rule in_update_by [OF t(1)])
      moreover have "mm_isActive (if me_id t = i then edit_mode um t else t)"
        using False t(2) by (cases "ume_isActive um") (auto simp: given_def)
      ultimately show ?thesis unfolding active_mode_def s' by blast
    qed
  qed
  then have "keeps_essentials s s'" unfolding keeps_essentials_def active_status_def s' by blast
  moreover have "masters_ok s'" using ok unfolding masters_ok_def referenced_def s' by simp
  ultimately show "masters_ok s' \<and> keeps_essentials s s'" by blast
qed

text \<open>The product codes that leads ask for, the ones that are not deleted.\<close>

definition asked_products :: "masters_state \<Rightarrow> string set" where
  "asked_products s = {c. \<exists>l \<in> set (cr_leads (xs_crm s)). l_deletedAt l = None \<and> c \<in> set (l_productInterest l)}"

lemma products_same:
  "createSource newId ci s = Inr s' \<Longrightarrow> xs_products s' = xs_products s"
  "updateSource i ui s = Inr s' \<Longrightarrow> xs_products s' = xs_products s"
  "deleteSource i s = Inr s' \<Longrightarrow> xs_products s' = xs_products s"
  "createTaskStatus newId ct s = Inr s' \<Longrightarrow> xs_products s' = xs_products s"
  "updateTaskStatus i ut s = Inr s' \<Longrightarrow> xs_products s' = xs_products s"
  "createMeetingMode newId cm s = Inr s' \<Longrightarrow> xs_products s' = xs_products s"
  "updateMeetingMode i um s = Inr s' \<Longrightarrow> xs_products s' = xs_products s"
  by (auto simp: createSource_def updateSource_def deleteSource_def createTaskStatus_def updateTaskStatus_def
      createMeetingMode_def updateMeetingMode_def Let_def split: if_splits option.splits)

lemma products_grow:
  "createProduct newId cp s = Inr s' \<Longrightarrow> pe_code ` set (xs_products s) \<subseteq> pe_code ` set (xs_products s')"
  "updateProduct i up s = Inr s' \<Longrightarrow> pe_code ` set (xs_products s) \<subseteq> pe_code ` set (xs_products s')"
proof -
  assume "createProduct newId cp s = Inr s'"
  then show "pe_code ` set (xs_products s) \<subseteq> pe_code ` set (xs_products s')"
    by (auto simp: createProduct_def Let_def insert_row_def split: if_splits)
next
  assume "updateProduct i up s = Inr s'"
  then have "xs_products s' = update_by pe_id i (edit_product up) (xs_products s)"
    by (auto simp: updateProduct_def split: if_splits)
  then have "map pe_code (xs_products s') = map pe_code (xs_products s)"
    by (simp add: update_by_def update_where_def edit_product_def)
  then show "pe_code ` set (xs_products s) \<subseteq> pe_code ` set (xs_products s')" by (metis set_map order_refl)
qed

lemma deleted_product_not_asked:
  assumes "deleteProduct i s = Inr s'" and "c \<in> asked_products s" and "c \<in> pe_code ` set (xs_products s)" and ok: "masters_ok s"
  shows "c \<in> pe_code ` set (xs_products s')"
proof -
  obtain row where row: "find_by pe_id i (xs_products s) = Some row"
      "count_where (\<lambda>l. l_deletedAt l = None \<and> pe_code row \<in> set (l_productInterest l)) (cr_leads (xs_crm s)) = 0"
    and s': "xs_products s' = delete_by pe_id i (xs_products s)"
    using assms(1) by (auto simp: deleteProduct_def canDeleteMasterRow_def split: option.splits if_splits)
  have ne: "c \<noteq> pe_code row" using row(2) assms(2) unfolding count_where_0_iff asked_products_def by blast
  have only: "r \<in> set (xs_products s) \<Longrightarrow> pe_id r = i \<Longrightarrow> r = row" for r
    using find_by_SomeD [OF row(1)] ok unfolding masters_ok_def products_ok_def keys_unique_def by (auto dest: inj_onD simp: distinct_map)
  obtain r where r: "r \<in> set (xs_products s)" "pe_code r = c" using assms(3) by blast
  then have "pe_id r \<noteq> i" using only ne by blast
  then show ?thesis using r unfolding s' set_delete_by by blast
qed

lemma write_keeps_asked:
  "master_write s s' \<Longrightarrow> masters_ok s \<Longrightarrow> asked_products s \<inter> pe_code ` set (xs_products s) \<subseteq> pe_code ` set (xs_products s')"
proof (induction rule: master_write.induct)
  case (write_new_product newId cp s s')
  then show ?case using products_grow(1) by blast
next
  case (write_product i up s s')
  then show ?case using products_grow(2) by blast
next
  case (delete_product i s s')
  then show ?case using deleted_product_not_asked by blast
qed (simp_all add: products_same)

lemma master_write_ok: "master_write s s' \<Longrightarrow> masters_ok s \<Longrightarrow> masters_ok s' \<and> keeps_essentials s s'"
  by (induction rule: master_write.induct) (rule source_writes product_writes status_writes mode_writes; assumption)+

lemma master_step_ok:
  assumes "master_step s s'" and "masters_ok s"
  shows "masters_ok s' \<and> keeps_essentials s s'"
  using assms
proof (induction rule: master_step.induct)
  case (step_read s s')
  then have k: "xs_sources s' = xs_sources s" "xs_products s' = xs_products s" "xs_statuses s' = xs_statuses s" "xs_modes s' = xs_modes s"
    "xs_productValues s' = xs_productValues s" "xs_crm s' = xs_crm s" using read_keeps by blast+
  have "masters_ok s'" using step_read(2) unfolding masters_ok_def referenced_def k .
  then show ?case using essentials_same [OF k(1-4)] by blast
next
  case (step_write s s')
  then show ?case using master_write_ok by blast
next
  case (step_rest vs c s)
  then have "masters_ok (s\<lparr>xs_crm := c, xs_productValues := vs\<rparr>)" by (simp add: masters_ok_def)
  then show ?case using essentials_same [of "s\<lparr>xs_crm := c, xs_productValues := vs\<rparr>" s] by simp
qed

inductive master_reach :: "masters_state \<Rightarrow> bool" where
  reach_start: "masters_ok s \<Longrightarrow> xs_sourceWeights s = None \<Longrightarrow> xs_activeProductCodes s = None \<Longrightarrow> xs_activeSourceCodes s = None \<Longrightarrow> master_reach s"
| reach_step: "master_reach s \<Longrightarrow> master_step s s' \<Longrightarrow> master_reach s'"

lemma master_reach_ok: "master_reach s \<Longrightarrow> masters_ok s \<and> coherent s"
proof (induction rule: master_reach.induct)
  case (reach_start s)
  then show ?case by (simp add: coherent_def)
next
  case (reach_step s s')
  then show ?case using master_step_ok coherent_step by blast
qed


section \<open>What the lists promise\<close>

text \<open>
  C38. The edited lists stay usable. Whatever administrators change and however leads and activities
  change in between, every reachable state has unique ids and codes and weights within bounds, and
  products at most two levels deep under an existing parent; every lead's source is in the list, and
  so is the product of every product row of a lead and of every product value; an edit of the lists
  never removes a product that an undeleted lead asks for; and what a state has of shipped rows, of
  active statuses in a category and of active meeting modes, every later state still has.
\<close>

theorem lists_stay_usable:
  assumes "master_reach s" and "master_step\<^sup>*\<^sup>* s s'"
  shows "sources_ok (xs_sources s') \<and> products_ok (xs_products s') \<and> referenced s' \<and>
    (\<forall>later. master_write s' later \<longrightarrow>
       asked_products s' \<inter> pe_code ` set (xs_products s') \<subseteq> pe_code ` set (xs_products later)) \<and>
    keys_unique tm_code (xs_statuses s') \<and> keys_unique mm_code (xs_modes s') \<and> keeps_essentials s s'"
proof -
  have "masters_ok s' \<and> keeps_essentials s s'"
    using assms(2)
  proof (induction rule: rtranclp_induct)
    case base
    then show ?case using master_reach_ok [OF assms(1)] essentials_refl by blast
  next
    case (step y z)
    then show ?case using master_step_ok [OF step(2)] essentials_trans by blast
  qed
  then show ?thesis using write_keeps_asked unfolding masters_ok_def by blast
qed

lemma map_of_rev_weights:
  "distinct (map so_code rows) \<Longrightarrow> map_of (rev (weights_of rows)) code = map_option so_scoringWeight (find_by so_code code rows)"
proof -
  assume d: "distinct (map so_code rows)"
  have "map fst (weights_of rows) = map so_code rows" by (simp add: weights_of_def)
  then have "map_of (rev (weights_of rows)) = map_of (weights_of rows)" using d by (intro map_of_rev_distinct) simp
  moreover have "map_of (weights_of rows) code = map_option so_scoringWeight (find_by so_code code rows)"
    by (induction rows) (simp_all add: weights_of_def find_by_Cons)
  ultimately show ?thesis by simp
qed

text \<open>
  C39. Reading through the cache is reading the table. While requests run one after the other, in every
  reachable state the weight of a source, the first usable source and the verdict on the codes of a
  lead are those the tables give at that moment.
\<close>

theorem cache_answers_the_table:
  assumes "master_reach s"
  shows "fst (weightFor code s) = map_option so_scoringWeight (find_by so_code code (xs_sources s)) \<and>
    fst (firstUsableSource preferred s) = Option.bind (find (\<lambda>c. truthy c \<and> the c \<in> set (active_sources (xs_sources s))) preferred) id \<and>
    (fst (assertValid source products s) = Inr () \<longleftrightarrow>
      (\<not> truthy source \<or> the source \<in> set (active_sources (xs_sources s))) \<and> set products \<subseteq> set (active_products (xs_products s)))"
proof -
  note ok = master_reach_ok [OF assms]
  have d: "distinct (map so_code (xs_sources s))" using ok by (simp add: masters_ok_def sources_ok_def keys_unique_def)
  have w: "xs_sourceWeights s = None \<or> xs_sourceWeights s = Some (weights_of (xs_sources s))"
    and p: "xs_activeProductCodes s = None \<or> xs_activeProductCodes s = Some (active_products (xs_products s))"
    and c: "xs_activeSourceCodes s = None \<or> xs_activeSourceCodes s = Some (active_sources (xs_sources s))"
    using ok by (auto simp: coherent_def)
  have 1: "fst (weightFor code s) = map_option so_scoringWeight (find_by so_code code (xs_sources s))"
    using w by (auto simp: weightFor_def Let_def map_of_rev_weights [OF d])
  have sources: "xs_activeSourceCodes (load_sources s) = Some (active_sources (xs_sources s))"
    "xs_products (load_sources s) = xs_products s" "xs_activeProductCodes (load_sources s) = xs_activeProductCodes s"
    using c by (auto simp: load_sources_def)
  have products: "xs_activeProductCodes (load_products s) = Some (active_products (xs_products s))"
    "xs_activeProductCodes (load_products (load_sources s)) = Some (active_products (xs_products s))"
    using p sources by (auto simp: load_products_def)
  have 2: "fst (firstUsableSource preferred s) = Option.bind (find (\<lambda>c. truthy c \<and> the c \<in> set (active_sources (xs_sources s))) preferred) id"
    by (simp add: firstUsableSource_def Let_def sources split: option.split)
  have 3: "fst (assertValid source products s) = Inr () \<longleftrightarrow>
      (\<not> truthy source \<or> the source \<in> set (active_sources (xs_sources s))) \<and> set products \<subseteq> set (active_products (xs_products s))"
    by (auto simp: assertValid_def Let_def sources products filter_empty_conv split: if_splits)
  show ?thesis using 1 2 3 by blast
qed

text \<open>
  When the load of the cache waits for the database while another request writes, the stale rows are
  stored after the write has dropped the cache, and stay until the next write.
\<close>

definition store_loaded :: "source_entry list \<Rightarrow> masters_state \<Rightarrow> masters_state" where
  "store_loaded rows s = s\<lparr>xs_sourceWeights := Some (weights_of rows)\<rparr>"

lemma stale_weights:
  assumes "updateSource i input s = Inr s'" and "find_by so_code code (xs_sources s) = Some row" "so_id row = i"
    and "uso_scoringWeight input = Some w" "w \<noteq> so_scoringWeight row" and "masters_ok s"
  shows "fst (weightFor code (store_loaded (xs_sources s) s')) = Some (so_scoringWeight row) \<and>
    map_option so_scoringWeight (find_by so_code code (xs_sources s')) = Some w"
proof -
  have d: "distinct (map so_code (xs_sources s))" using assms(6) by (simp add: masters_ok_def sources_ok_def keys_unique_def)
  have r: "row \<in> set (xs_sources s)" "so_code row = code" using find_by_SomeD [OF assms(2)] by auto
  have s': "xs_sources s' = update_by so_id i (edit_source input) (xs_sources s)" using assms(1) by (auto simp: updateSource_def split: if_splits)
  have "edit_source input row \<in> set (xs_sources s')" using in_update_by [OF r(1), of so_id i "edit_source input"] assms(3) unfolding s' by simp
  moreover have "keys_unique so_code (xs_sources s')" using d unfolding s' by (simp add: keys_unique_def [symmetric])
  ultimately have "find_by so_code code (xs_sources s') = Some (edit_source input row)"
    using find_by_unique [of so_code "xs_sources s'" "edit_source input row"] r(2) by simp
  moreover have "so_scoringWeight (edit_source input row) = w" using assms(4) by (simp add: given_def)
  moreover have "fst (weightFor code (store_loaded (xs_sources s) s')) = Some (so_scoringWeight row)"
    using map_of_rev_weights [OF d, of code] assms(2) by (simp add: weightFor_def store_loaded_def Let_def)
  ultimately show ?thesis by simp
qed

definition product_row_of :: "product_entry list \<Rightarrow> product_entry \<Rightarrow> product_row" where
  "product_row_of rows p = \<lparr>pd_code = pe_code p, pd_name = pe_name p,
     pd_parentCode = Option.bind (pe_parentId p) (\<lambda>i. map_option pe_code (find_by pe_id i rows))\<rparr>"

lemma asked_products: "q_productInterest (q\<lparr>q_productInterest := codes\<rparr>) = codes"
  by simp

text \<open>
  Asking for a product means the same on both sides. For a catalogue of distinct codes the codes
  the client's filter expands a selection to are those the server widens it to.
\<close>

theorem expansions_agree:
  assumes "products_ok rows"
  shows "set (expandProductCodes (q_productInterest q) (product_items rows)) =
    set (q_productInterest (withSubProducts (map (product_row_of rows) rows) q))"
proof -
  have ids: "distinct (map pe_id rows)" and codes: "distinct (map pe_code rows)" and two: "two_levels rows"
    using assms by (simp_all add: products_ok_def keys_unique_def)
  have items: "map_of (rev (product_items rows)) code = map_option (childCodes rows) (find_by pe_code code rows)" for code
  proof -
    have "map fst (product_items rows) = map pe_code rows" by (simp add: product_items_def)
    then have "map_of (rev (product_items rows)) = map_of (product_items rows)" using codes by (intro map_of_rev_distinct) simp
    moreover have "map_of (map (\<lambda>p. (pe_code p, g p)) xs) code = map_option g (find_by pe_code code xs)" for g and xs :: "product_entry list"
      by (induction xs) (simp_all add: find_by_Cons)
    ultimately show ?thesis by (simp add: product_items_def)
  qed
  have parent: "pd_parentCode (product_row_of rows p) = Some code \<longleftrightarrow>
      (\<exists>parent \<in> set rows. pe_code parent = code \<and> pe_parentId p = Some (pe_id parent))" for p code
  proof -
    have "find_by pe_id (pe_id parent) rows = Some parent" if "parent \<in> set rows" for parent
      using find_by_unique [of pe_id rows parent] ids that by (simp add: keys_unique_def)
    then show ?thesis using find_by_SomeD [of pe_id _ rows] by (auto simp: product_row_of_def bind_eq_Some_conv)
  qed
  have child: "c \<in> set (case map_of (rev (product_items rows)) code of None \<Rightarrow> [] | Some children \<Rightarrow> children) \<longleftrightarrow>
      (\<exists>p \<in> set rows. pe_code p = c \<and> pd_parentCode (product_row_of rows p) = Some code)" for c code
  proof (cases "find_by pe_code code rows")
    case None
    then have "code \<notin> pe_code ` set rows" by (simp add: find_by_None_iff)
    then show ?thesis using None by (auto simp: items parent)
  next
    case (Some row)
    have row: "row \<in> set rows" "pe_code row = code" using find_by_SomeD [OF Some] by auto
    have same: "parent = row" if "parent \<in> set rows" "pe_code parent = code" for parent
      using that row codes by (auto dest: inj_onD simp: distinct_map)
    have of_row: "pd_parentCode (product_row_of rows p) = Some code \<longleftrightarrow> pe_parentId p = Some (pe_id row)" for p
      unfolding parent using same row by blast
    have "map_of (rev (product_items rows)) code = Some (childCodes rows row)" unfolding items Some by simp
    then show ?thesis unfolding of_row childCodes_def by (simp only: option.case set_map set_filter) blast
  qed
  let ?widened = "withSubProducts (map (product_row_of rows) rows) q"
  have "set (q_productInterest ?widened) = set (q_productInterest q) \<union>
      {c. \<exists>code \<in> set (q_productInterest q). \<exists>p \<in> set rows. pe_code p = c \<and> pd_parentCode (product_row_of rows p) = Some code}"
  proof -
    let ?asked = "\<lambda>p. list_ex (\<lambda>code. pd_parentCode p = Some code) (q_productInterest q)"
    let ?children = "filter ?asked (map (product_row_of rows) rows)"
    have code: "pd_code (product_row_of rows p) = pe_code p" for p by (simp add: product_row_of_def)
    have kids: "set (map pd_code ?children) =
        {c. \<exists>code \<in> set (q_productInterest q). \<exists>p \<in> set rows. pe_code p = c \<and> pd_parentCode (product_row_of rows p) = Some code}"
      unfolding filter_map set_map image_image code set_filter comp_def list_ex_iff by blast
    show ?thesis
    proof (cases "q_productInterest q = [] \<or> ?children = []")
      case True
      then have "?widened = q" unfolding withSubProducts_def Let_def by (elim disjE) (simp_all only: if_True if_cancel simp_thms)
      moreover have "?children = []" using True by (elim disjE) simp_all
      then have "set (map pd_code ?children) = {}" by (simp only: list.map list.set)
      ultimately show ?thesis unfolding kids [symmetric] by simp
    next
      case False
      then have "q_productInterest ?widened = js_set (q_productInterest q @ map pd_code ?children)"
        unfolding withSubProducts_def Let_def by (simp only: de_Morgan_disj if_False asked_products)
      then show ?thesis unfolding kids [symmetric] by (simp only: set_js_set set_append)
    qed
  qed
  also have "\<dots> = set (expandProductCodes (q_productInterest q) (product_items rows))"
    unfolding expandProductCodes_def set_js_set set_concat set_map image_image list.set child [symmetric] by blast
  finally show ?thesis ..
qed

lemma split_on_suffix:
  assumes "suffix (d # t) h"
  shows "suffix (split_on d t) (split_on d h)"
proof -
  from assms obtain w where h: "h = w @ d # t" by (auto simp: suffix_def)
  have "split_on d (w @ d # t) = split_on d w @ split_on d t"
  proof (induction w)
    case (Cons c w)
    then show ?case by (cases "split_on d w") auto
  qed simp
  then show ?thesis unfolding h suffix_def by blast
qed

text \<open>
  Only links to approved hosts pass: an accepted link is https, and the last labels of its host
  are those of an approved host, so no other domain can be made to look like one.
\<close>

theorem approved_hosts_only:
  assumes "checkMeetingLink url raw = LINK_ALLOWED"
  shows "\<exists>hostname allowed. url (js_trim raw) = Some (''https:'', hostname) \<and> allowed \<in> set ALLOWED_MEETING_HOSTS \<and>
    suffix (split_on CHR ''.'' allowed) (split_on CHR ''.'' (to_lower hostname))"
proof -
  from assms obtain hostname allowed where h: "url (js_trim raw) = Some (''https:'', hostname)" "allowed \<in> set ALLOWED_MEETING_HOSTS"
      "to_lower hostname = allowed \<or> suffix (CHR ''.'' # allowed) (to_lower hostname)"
    unfolding checkMeetingLink_def Let_def by (auto simp: list_ex_iff split: if_splits option.splits)
  then have "suffix (split_on CHR ''.'' allowed) (split_on CHR ''.'' (to_lower hostname))"
    using split_on_suffix by (metis suffix_order.refl)
  then show ?thesis using h(1,2) by blast
qed


section \<open>Examples\<close>

definition demo_lists :: masters_state where
  "demo_lists = \<lparr>xs_sources = [\<lparr>so_id = ''s1'', so_code = ''WEBSITE'', so_label = ''Website'', so_description = None, so_scoringWeight = 8,
       so_isActive = True, so_isSystem = True, so_sortOrder = 1\<rparr>],
     xs_products = [], xs_statuses = [\<lparr>tm_code = ''TODO'', tm_category = OPEN_TASK, tm_isActive = True, te_id = ''t1'', te_label = ''To do'',
       te_meaning = None, te_isSystem = True, te_sortOrder = 1\<rparr>],
     xs_modes = [], xs_productValues = [], xs_crm = crm_empty, xs_sourceWeights = None, xs_activeProductCodes = None, xs_activeSourceCodes = None\<rparr>"

definition demo_heavier :: update_source_input where
  "demo_heavier = \<lparr>uso_label = None, uso_description = None, uso_scoringWeight = Some 20, uso_isActive = None, uso_sortOrder = None\<rparr>"

definition demo_changed :: masters_state where
  "demo_changed = projr (updateSource ''s1'' demo_heavier demo_lists)"

lemma demo_lists_reach: "master_reach demo_lists"
  by (rule reach_start)
    (simp_all add: demo_lists_def masters_ok_def sources_ok_def products_ok_def two_levels_def referenced_def keys_unique_def source_weight_ok_def
      MAX_SOURCE_WEIGHT_def crm_empty_def)

lemma demo_update: "updateSource ''s1'' demo_heavier demo_lists = Inr demo_changed"
  by (simp add: demo_changed_def updateSource_def demo_lists_def)

lemma demo_changed_step: "master_step demo_lists demo_changed"
  by (intro step_write write_source [OF demo_update]) (simp add: demo_heavier_def source_weight_ok_def MAX_SOURCE_WEIGHT_def)

lemma lists_stay_usable_witness:
  "keeps_essentials demo_lists demo_changed \<and> active_status demo_lists OPEN_TASK \<and> active_status demo_changed OPEN_TASK"
proof -
  have k: "keeps_essentials demo_lists demo_changed"
    using lists_stay_usable [OF demo_lists_reach r_into_rtranclp [of master_step, OF demo_changed_step]] by blast
  have "active_status demo_lists OPEN_TASK" by (simp add: active_status_def demo_lists_def)
  then show ?thesis using k unfolding keeps_essentials_def by blast
qed

lemma cache_answers_the_table_witness:
  "fst (weightFor ''WEBSITE'' demo_changed) = Some 20 \<and> fst (assertValid (Some ''WEBSITE'') [''EQ''] demo_changed) \<noteq> Inr ()"
proof -
  have r: "master_reach demo_changed" by (rule reach_step [OF demo_lists_reach demo_changed_step])
  have rows: "map_option so_scoringWeight (find_by so_code ''WEBSITE'' (xs_sources demo_changed)) = Some 20 \<and> active_products (xs_products demo_changed) = []"
    by code_simp
  show ?thesis using cache_answers_the_table [OF r, of "''WEBSITE''" "[]" "Some ''WEBSITE''" "[''EQ'']"] rows by simp
qed

lemma expansions_agree_witness:
  "products_ok [] \<and> set (expandProductCodes [''EQ''] (product_items [])) = {''EQ''}"
proof -
  have ok: "products_ok []" by (simp add: products_ok_def two_levels_def keys_unique_def)
  have "set (expandProductCodes (q_productInterest demo_asking) (product_items [])) = set (q_productInterest demo_asking)"
    unfolding expansions_agree [OF ok] by (simp add: withSubProducts_def)
  then show ?thesis using ok by (simp add: demo_asking_def)
qed

lemma approved_hosts_only_witness:
  "checkMeetingLink (\<lambda>t. Some (''https:'', drop 8 t)) '' https://sihl.Zoom.us '' = LINK_ALLOWED \<and>
   (\<exists>allowed \<in> set ALLOWED_MEETING_HOSTS. suffix (split_on CHR ''.'' allowed) [''sihl'', ''zoom'', ''us'']) \<and>
   checkMeetingLink (\<lambda>t. Some (''https:'', drop 8 t)) ''https://zoom.us.evil.com'' = HOST_NOT_ALLOWED"
proof -
  have a: "checkMeetingLink (\<lambda>t. Some (''https:'', drop 8 t)) '' https://sihl.Zoom.us '' = LINK_ALLOWED \<and>
      split_on CHR ''.'' (to_lower (drop 8 (js_trim '' https://sihl.Zoom.us ''))) = [''sihl'', ''zoom'', ''us''] \<and>
      checkMeetingLink (\<lambda>t. Some (''https:'', drop 8 t)) ''https://zoom.us.evil.com'' = HOST_NOT_ALLOWED" by code_simp
  from approved_hosts_only [OF a [THEN conjunct1]] show ?thesis using a by auto
qed

lemma stale_weights_witness:
  "fst (weightFor ''WEBSITE'' (store_loaded (xs_sources demo_lists) demo_changed)) = Some 8 \<and>
   map_option so_scoringWeight (find_by so_code ''WEBSITE'' (xs_sources demo_changed)) = Some 20"
  by code_simp

end
