(* ===== verification/Spec2Isabelle.thy ===== *)
theory Spec2Isabelle
  imports Prelude Rbac OrgTree Accounts Scope Mfa Auth Users Matching Leads Merge Pipeline Outcomes Reassign
    Assignment Tasks Visits Outbox Otp Offboarding Scoring ImportText Imports Partners Events
    Masking Presentations Performance Allocation TreeOrder Messaging
    LeadBook Masters
begin

text \<open>
  SIHL ONE: a verification development.

  The program is the back end of a sales CRM for a broker: a NestJS service under src/apps/api/src
  over a PostgreSQL database, with the rules it shares with its web client in src/packages/contracts/src.
  Staff sign in, hold roles and a data scope in an organisation tree, work leads through a pipeline to
  customers, and are routed, rated and offboarded; leads come in by hand, from files, from the codes of
  partners and from events. Every theory models the services and the rules of one part, in HOL functions
  over records and lists, and proves what makes that part right. The theories below are the library;
  each opens with what it holds and which file it translates.

  \<^bold>\<open>How the code is represented.\<close>
  A table is the list of its rows, a row is a record with the columns the code reads or writes, and a
  handler is a function from the state and the request to either an error or an answer with the new
  state (\<open>result\<close> is \<open>error + 'a\<close>; the constructors of \<open>error\<close> are the exceptions the handlers throw,
  with their titles). A transaction is a function whose error leaves no state behind; writes outside a
  transaction stay when a later step fails, and the model says so (Offboarding, Imports). Unique
  constraints of the schema are either checked by the operation that inserts or updates, as a refusal,
  or part of the invariant of a state. Clocks, identifiers, random draws, hashes, signatures, mail,
  storage and the collation of \<open>localeCompare\<close> are parameters; what is assumed of them is a named
  hypothesis of the theorem that needs it. Numbers of the source are \<open>int\<close>, \<open>nat\<close> or exact \<open>rat\<close>, and
  \<open>real\<close> where it takes logarithms and powers (Scoring, Performance); rounding is written out
  (\<open>js_round\<close>). Times are milliseconds as \<open>int\<close>. Strings are lists of code units up to 255; the few
  characters beyond that (the byte order mark, an ellipsis, a bullet) are parameters. Sentences shown to
  people are constructors with the values they quote. The interface of the tables is the locale
  \<open>repository\<close> of Prelude, interpreted for each table of the model, and that of the comparators given to
  \<open>Array.prototype.sort\<close> is the locale \<open>comparator\<close>, interpreted for each order the code sorts by.

  \<^bold>\<open>People and authority.\<close>
  \<^item> Rbac: roles, permissions, data scopes and the permission guard (rbac.ts, enums.ts,
    permissions.guard.ts), machine accounts and their keys (service-account.ts and its service).
  \<^item> OrgTree: the organisation tree with materialised paths (org-unit.ts, org-units.service.ts). Each
    operation keeps the tree well formed, and the prefix test on paths is the subtree relation.
    TreeOrder: the tree as the screen shows it; the walk returns on every list of nodes.
  \<^item> Accounts: the account and session rows, the principal rebuilt on each request and the bearer
    guard (principal.service.ts, jwt-auth.guard.ts, event-access.ts).
  \<^item> Scope: the row filters of scope.service.ts and their meaning on rows.
  \<^item> Mfa, Auth: second factor, sign-in, lockout, refresh rotation, logout and password reset
    (mfa.ts, mfa.service.ts, auth.service.ts, token.service.ts).
  \<^item> Users: the sales hierarchy, staff codes, creating, editing and resetting accounts (hierarchy.ts,
    user-admin.service.ts, temporary passwords).
  \<^item> Offboarding: notice, and the handover of a leaver's work (offboarding.service.ts) across the
    states of Auth, Pipeline, Tasks and Visits.

  \<^bold>\<open>Leads.\<close>
  \<^item> Matching: edit distance, name similarity and the verdicts on two records (matching.ts).
  \<^item> Leads, Merge, Pipeline, Outcomes, Reassign: the lead handlers of leads.service.ts, lead-product.ts,
    merge.ts and duplicates.service.ts, as operations on one state; the steps they make, the states they
    reach, and what a status, a product outcome, a reassignment and a merge mean.
  \<^item> LeadBook: what people see of the leads: lists, filters, exports, boards and the check of a number
    being typed (the reading half of leads.service.ts, lead.mapper.ts, lead.ts). Lists are the scope.
  \<^item> Masters: the lists an administrator edits and the cache in front of them (masters.ts,
    masters.service.ts), with the check of meeting links.
  \<^item> Assignment: routing rules and their strategies (assignment.ts, assignment.service.ts).
  \<^item> Scoring: the lead score, its factors and the next best actions (lead-scoring.ts).
  \<^item> ImportText, Imports: delimited text, column guessing, and staging, validating and committing a
    file of leads (import.ts, imports.service.ts), over Matching, Assignment and Pipeline.
  \<^item> Outbox: the relay of domain events with its retries and dead letters (outbox-relay.service.ts).
    Handing an event to the bus and marking it are two steps, and either may fail.

  \<^bold>\<open>Work and events.\<close>
  \<^item> Tasks, Visits: tasks and field visits with their evidence (tasks.service.ts, visits.service.ts,
    visit.ts, geo.ts, attendee.ts).
  \<^item> Partners, Events, Otp, Presentations: referral codes and links, events and the attribution of a
    scan, one-time codes at registration, talks and their seats (partners.service.ts, event.ts,
    events.service.ts, capture-code.service.ts, otp.service.ts, presentations.service.ts, ist-day.ts).
  \<^item> Performance, Allocation: ratings, targets, standing, and advice on who should own a lead
    (performance.ts, performance.service.ts, allocation.ts, allocation.service.ts).
  \<^item> Messaging: templates, the gate a message has to pass, sending and opting out (messaging.ts,
    messaging.service.ts). What reaches the provider, and that an opt-out
    holds for good for the lead or customer it was stored for.
  \<^item> Masking: what a screen shows of personal data (masking.ts).

  \<^bold>\<open>What the lemmas show.\<close>
  Each theory proves what its operations keep of the state (uniqueness of keys, well-formed trees,
  coherent records), what each operation does on every branch, and then its properties: invariants of
  reachable states by rule induction over a step relation with one rule for each operation; refinement
  of paths and filters to the relations they stand for; round trips of keys, codes, links and files;
  bounds of scores, counters and retries; and what no sequence of requests can bring about. A property
  about interleaved or repeated requests quantifies over all sequences of steps. Behaviour that differs
  from what a comment or a document of the repository promises is proved as it is, and listed with the
  manifest of this development.

  \<^bold>\<open>Bounds.\<close>
  The code's own bounds are kept: a rotation chain is followed for ten hops, a staff code is tried
  fifty times and a referral code five, an e-mail address gets at most a hundred suffixes, ten recovery
  codes are drawn in at most two hundred attempts, a file holds at most five thousand rows and its pool
  as many leads, a standing compares with at most fifty peers, advice considers at most a hundred
  users. These are the fuel of the recursions that model them, so a model gives up exactly where the code
  does. The one recursion of the source without a bound, the walk of the organisation tree, is a partial
  function here, and that it returns is the theorem \<open>tree_order_terminates\<close>.

  \<^bold>\<open>Not modelled.\<close>
  The web client, the controllers (routing and decorators in front of the handlers), request
  parsing beyond the schemas a theory names, the paged lists of parts other than the lead book, the reports and the dashboard
  (raw SQL, whose meaning is the database's), spreadsheets, the texts of mails and messages, the clients of
  mail, storage, scanning, geocoding and speech services, configuration, logging, seed data and migrations.
  Concurrency is modelled where the code splits a request into reads and later writes that the model
  interleaves (moves in OrgTree, resets in Auth, merges in Reassign, relays in Outbox, codes in Otp), and
  a relay process may die between two writes of a pass; elsewhere a handler runs alone.
\<close>

end
